(* ===== verification/KV_Prelude.thy ===== *)
theory KV_Prelude
  imports "HOL-Library.Word" "HOL-Library.List_Lexorder" "HOL-Library.Char_ord"
    "HOL-Library.AList"
begin

text \<open>
  Shared vocabulary of the development: bytes and byte strings, Go's \<open>error\<close> values, the
  lexicographic order that \<open>bytes.Compare\<close> and \<open>slices.Sort\<close> use, association lists for Go
  maps, and the collections of facts the component theories add to.

  A Go function that returns \<open>(T, error)\<close> is a function into \<open>err + T\<close>; one that returns only
  \<open>error\<close> is a function into \<open>err option\<close>, with \<open>None\<close> for nil.
\<close>

section \<open>Bytes and errors\<close>

type_synonym byte = "8 word"
type_synonym bytes = "byte list"

text \<open>
  The error values of \<open>internal/platform/kv_errors\<close>, of \<open>io\<close>, of the operating system
  (\<open>OsErr\<close> carries the message of a failed system call), of the shard package, of the raft
  package, of \<open>context\<close> and of the client.  Errors of all layers are one type, as in Go, because
  the layers pass each other's errors on.  \<open>Errorf\<close> is an error made on the spot by
  \<open>errors.New\<close> or \<open>fmt.Errorf\<close>, \<open>Wrapped\<close> one made with \<open>%w\<close> behind a prefix, \<open>StatusError\<close>
  one of gRPC's \<open>status\<close> package with the codes the source names.
\<close>

datatype code = InvalidArgument | FailedPrecondition | Unavailable | Internal | OtherCode nat

datatype err =
    ErrNotImplemented
  | ErrInvalidPara
  | ErrInvalidType
  | ErrEmptyKey
  | ErrUnexpectedValue
  | ErrRecordTooLarge
  | ErrIncompleteRecord
  | ErrNilCallBack
  | ErrFileClosed
  | ErrDbClosed
  | EOF
  | UnexpectedEOF
  | ErrShortWrite
  | ErrNotExist
  | OsErr string
  | ErrInvalidShardCount
  | ErrInvalidVirtualNodes
  | ErrEmptyRing
  | ErrInvalidShardID
  | ErrShardNotAssigned
  | ErrEmptyGroupID
  | ErrNilRouter
  | ErrNoShardGroup
  | ErrGroupNotFound
  | ErrEmptyNodeID
  | ErrEmptyRaftAddr
  | ErrEmptyRaftDir
  | ErrEmptyPeers
  | ErrNotLeader
  | NotLeaderError string string
  | Canceled
  | DeadlineExceeded
  | StatusError code string
  | ClientErrNotLeader
  | ClientNotLeaderError string string
  | Errorf string
  | Wrapped string err

section \<open>Fact collections\<close>

named_theorems codec_simps \<open>how the record format encodes and decodes\<close>
named_theorems os_simps \<open>what a system call does when it does not fail\<close>
named_theorems frame_simps \<open>what an operation leaves unchanged\<close>

section \<open>The order on byte strings\<close>

text \<open>
  \<open>bytes.Compare\<close>: the sign of the first difference, the shorter string first when it is a
  prefix of the other.
\<close>

fun bytes_compare :: "bytes \<Rightarrow> bytes \<Rightarrow> int" where
  "bytes_compare [] [] = 0"
| "bytes_compare [] (_ # _) = - 1"
| "bytes_compare (_ # _) [] = 1"
| "bytes_compare (x # xs) (y # ys) =
     (if x < y then - 1 else if y < x then 1 else bytes_compare xs ys)"

lemma bytes_compare_less [simp]: "bytes_compare xs ys < 0 \<longleftrightarrow> xs < ys"
  by (induction xs ys rule: bytes_compare.induct) auto

lemma bytes_compare_eq [simp]: "bytes_compare xs ys = 0 \<longleftrightarrow> xs = ys"
  by (induction xs ys rule: bytes_compare.induct) auto

section \<open>Association lists\<close>

lemma map_of_update [simp]: "map_of (AList.update k v al) = (map_of al)(k \<mapsto> v)"
  by (rule update_conv')

lemma map_of_delete [simp]: "map_of (AList.delete k al) = (map_of al)(k := None)"
  by (rule delete_conv')

lemma map_of_filter_key:
  "map_of (filter (\<lambda>kv. P (fst kv)) al) k = (if P k then map_of al k else None)"
  by (induction al) auto

lemma fst_set_dom: "fst ` set al = dom (map_of al)"
  by (simp add: dom_map_of_conv_image_fst)

text \<open>The first entry with a key, where keys are distinct.\<close>

lemma find_distinct:
  assumes "distinct (map f xs)"
  shows "find (\<lambda>x. f x = k) xs = Some y \<longleftrightarrow> y \<in> set xs \<and> f y = k"
  using assms by (induction xs) (auto simp: image_iff)

section \<open>Sorted lists of keys\<close>

lemma sort_distinct_strict: "distinct xs \<Longrightarrow> sorted_wrt (<) (sort (xs :: 'a::linorder list))"
  by (simp add: strict_sorted_iff)

lemma sort_keys_cong:
  fixes xs ys :: "'a::linorder list"
  assumes "distinct xs" and "distinct ys" and "set xs = set ys"
  shows "sort xs = sort ys"
  using assms by (metis sorted_list_of_set_sort_remdups distinct_remdups_id)

end
