(* ===== verification/KV_Platform.thy ===== *)
theory KV_Platform
  imports KV_Prelude
begin

text \<open>
  The operating system as the engine uses it (\<open>internal/platform/utils.go\<close> and the calls of
  package \<open>os\<close>): files by path, handles with a read position, and system calls that can fail.

  A path is the list of the components of the cleaned path.  A directory exists as a prefix of
  the path of a file.  A handle refers to its file by path: the program closes its handles before
  it removes or renames a file.

  Failures are part of the state: every system call consumes the next entry of the fault list.
  \<open>Okay\<close> (and the empty list) lets it succeed, \<open>Fail n e\<close> makes it return the error \<open>e\<close>; a
  failing write has appended the first \<open>n\<close> bytes of its data, a failing read has returned the
  first \<open>n\<close> bytes.  A crash at some point of an operation is a fault list whose entries all fail
  from that point on.
\<close>

section \<open>The world\<close>

type_synonym path = "string list"

datatype fault = Okay | Fail nat err

record world =
  disk :: "(path \<times> bytes) list"
  faults :: "fault list"

record os_file =
  f_path :: path
  f_pos :: nat

definition file_at :: "world \<Rightarrow> path \<Rightarrow> bytes option" where
  "file_at w p = map_of (disk w) p"

definition file_data :: "world \<Rightarrow> path \<Rightarrow> bytes" where
  "file_data w p = (case file_at w p of None \<Rightarrow> [] | Some c \<Rightarrow> c)"

definition set_file :: "path \<Rightarrow> bytes \<Rightarrow> world \<Rightarrow> world" where
  "set_file p c w = w\<lparr>disk := AList.update p c (disk w)\<rparr>"

definition del_file :: "path \<Rightarrow> world \<Rightarrow> world" where
  "del_file p w = w\<lparr>disk := AList.delete p (disk w)\<rparr>"

definition take_fault :: "world \<Rightarrow> fault \<times> world" where
  "take_fault w = (case faults w of [] \<Rightarrow> (Okay, w) | f # fs \<Rightarrow> (f, w\<lparr>faults := fs\<rparr>))"

text \<open>A call without an effect of its own: it fails or it does not.\<close>

definition os_guard :: "world \<Rightarrow> err option \<times> world" where
  "os_guard w =
     (case take_fault w of (Okay, w') \<Rightarrow> (None, w') | (Fail n e, w') \<Rightarrow> (Some e, w'))"

section \<open>System calls\<close>

definition os_mkdir_all :: "path \<Rightarrow> world \<Rightarrow> err option \<times> world" where
  "os_mkdir_all p w = os_guard w"

text \<open>\<open>os.OpenFile\<close> with or without \<open>O_CREATE\<close> and \<open>O_TRUNC\<close>.\<close>

definition os_open_file :: "path \<Rightarrow> bool \<Rightarrow> bool \<Rightarrow> world \<Rightarrow> (err + os_file) \<times> world" where
  "os_open_file p create trunc w =
     (case os_guard w of
        (Some e, w1) \<Rightarrow> (Inl e, w1)
      | (None, w1) \<Rightarrow>
          (case file_at w1 p of
             None \<Rightarrow> if create then (Inr \<lparr>f_path = p, f_pos = 0\<rparr>, set_file p [] w1)
                     else (Inl ErrNotExist, w1)
           | Some c \<Rightarrow> (Inr \<lparr>f_path = p, f_pos = 0\<rparr>, if trunc then set_file p [] w1 else w1)))"

text \<open>
  \<open>File.Write\<close> on a handle opened with \<open>O_APPEND\<close>: the bytes written and the error.  A file
  whose name is gone keeps its data out of sight of every path.
\<close>

definition append_file :: "path \<Rightarrow> bytes \<Rightarrow> world \<Rightarrow> world" where
  "append_file p d w = (case file_at w p of None \<Rightarrow> w | Some c \<Rightarrow> set_file p (c @ d) w)"

definition os_write :: "os_file \<Rightarrow> bytes \<Rightarrow> world \<Rightarrow> nat \<times> err option \<times> world" where
  "os_write f d w =
     (case take_fault w of
        (Okay, w1) \<Rightarrow> (length d, None, append_file (f_path f) d w1)
      | (Fail n e, w1) \<Rightarrow> (min n (length d), Some e, append_file (f_path f) (take n d) w1))"

definition os_sync :: "os_file \<Rightarrow> world \<Rightarrow> err option \<times> world" where
  "os_sync f w = os_guard w"

definition os_close :: "os_file \<Rightarrow> world \<Rightarrow> err option \<times> world" where
  "os_close f w = os_guard w"

definition os_truncate :: "os_file \<Rightarrow> world \<Rightarrow> err option \<times> world" where
  "os_truncate f w =
     (case os_guard w of
        (Some e, w1) \<Rightarrow> (Some e, w1)
      | (None, w1) \<Rightarrow>
          (None, case file_at w1 (f_path f) of None \<Rightarrow> w1 | Some c \<Rightarrow> set_file (f_path f) [] w1))"

definition os_seek_start :: "os_file \<Rightarrow> world \<Rightarrow> err option \<times> os_file \<times> world" where
  "os_seek_start f w =
     (case os_guard w of
        (Some e, w1) \<Rightarrow> (Some e, f, w1)
      | (None, w1) \<Rightarrow> (None, f\<lparr>f_pos := 0\<rparr>, w1))"

definition os_seek_end :: "os_file \<Rightarrow> world \<Rightarrow> err option \<times> os_file \<times> world" where
  "os_seek_end f w =
     (case os_guard w of
        (Some e, w1) \<Rightarrow> (Some e, f, w1)
      | (None, w1) \<Rightarrow> (None, f\<lparr>f_pos := length (file_data w1 (f_path f))\<rparr>, w1))"

text \<open>The size \<open>File.Stat\<close> reports.\<close>

definition os_stat_size :: "os_file \<Rightarrow> world \<Rightarrow> (err + nat) \<times> world" where
  "os_stat_size f w =
     (case os_guard w of
        (Some e, w1) \<Rightarrow> (Inl e, w1)
      | (None, w1) \<Rightarrow> (Inr (length (file_data w1 (f_path f))), w1))"

definition os_remove :: "path \<Rightarrow> world \<Rightarrow> err option \<times> world" where
  "os_remove p w =
     (case os_guard w of
        (Some e, w1) \<Rightarrow> (Some e, w1)
      | (None, w1) \<Rightarrow>
          (case file_at w1 p of None \<Rightarrow> (Some ErrNotExist, w1) | Some c \<Rightarrow> (None, del_file p w1)))"

definition in_dir :: "path \<Rightarrow> path \<Rightarrow> bool" where
  "in_dir d p \<longleftrightarrow> take (length d) p = d"

definition os_remove_all :: "path \<Rightarrow> world \<Rightarrow> err option \<times> world" where
  "os_remove_all d w =
     (case os_guard w of
        (Some e, w1) \<Rightarrow> (Some e, w1)
      | (None, w1) \<Rightarrow> (None, w1\<lparr>disk := filter (\<lambda>pc. \<not> in_dir d (fst pc)) (disk w1)\<rparr>))"

definition os_rename :: "path \<Rightarrow> path \<Rightarrow> world \<Rightarrow> err option \<times> world" where
  "os_rename p q w =
     (case os_guard w of
        (Some e, w1) \<Rightarrow> (Some e, w1)
      | (None, w1) \<Rightarrow>
          (case file_at w1 p of
             None \<Rightarrow> (Some ErrNotExist, w1)
           | Some c \<Rightarrow> (None, if p = q then w1 else set_file q c (del_file p w1))))"

text \<open>
  \<open>os.ReadDir\<close>: the entries of a directory sorted by name, each with \<open>IsDir\<close>.
\<close>

definition dir_names :: "world \<Rightarrow> path \<Rightarrow> string list" where
  "dir_names w d =
     sort (remdups (map (\<lambda>pc. fst pc ! length d)
       (filter (\<lambda>pc. in_dir d (fst pc) \<and> length d < length (fst pc)) (disk w))))"

definition os_read_dir :: "path \<Rightarrow> world \<Rightarrow> (err + (string \<times> bool) list) \<times> world" where
  "os_read_dir d w =
     (case os_guard w of
        (Some e, w1) \<Rightarrow> (Inl e, w1)
      | (None, w1) \<Rightarrow> (Inr (map (\<lambda>n. (n, file_at w1 (d @ [n]) = None)) (dir_names w1 d)), w1))"

section \<open>OpenFileWithFlagMode\<close>

definition OpenFileWithFlagMode :: "path \<Rightarrow> bool \<Rightarrow> bool \<Rightarrow> world \<Rightarrow> (err + os_file) \<times> world" where
  "OpenFileWithFlagMode p create trunc w =
     (if p = [] then (Inl ErrInvalidPara, w)
      else
        (case os_mkdir_all (butlast p) w of
           (Some e, w1) \<Rightarrow> (Inl e, w1)
         | (None, w1) \<Rightarrow> os_open_file p create trunc w1))"

section \<open>Files as a map\<close>

lemma file_at_set [simp, frame_simps]: "file_at (set_file p c w) q = (if q = p then Some c else file_at w q)"
  by (simp add: file_at_def set_file_def)

lemma file_at_del [simp, frame_simps]: "file_at (del_file p w) q = (if q = p then None else file_at w q)"
  by (simp add: file_at_def del_file_def)

lemma file_at_faults [simp, frame_simps]: "file_at (w\<lparr>faults := fs\<rparr>) = file_at w"
  by (simp add: file_at_def fun_eq_iff)

lemma faults_set [simp, frame_simps]: "faults (set_file p c w) = faults w" "faults (del_file p w) = faults w"
  by (simp_all add: set_file_def del_file_def)

lemma file_data_some [simp]: "file_at w p = Some c \<Longrightarrow> file_data w p = c"
  by (simp add: file_data_def)

lemma file_at_append [simp, frame_simps]:
  "file_at (append_file p d w) q = (if q = p then map_option (\<lambda>c. c @ d) (file_at w p) else file_at w q)"
  by (simp add: append_file_def split: option.splits)

lemma faults_append [simp, frame_simps]: "faults (append_file p d w) = faults w"
  by (simp add: append_file_def split: option.splits)

lemma take_fault_disk: "take_fault w = (f, w') \<Longrightarrow> file_at w' = file_at w"
  by (auto simp: take_fault_def split: list.splits)

lemma os_guard_files: "os_guard w = (r, w') \<Longrightarrow> file_at w' = file_at w"
  by (auto simp: os_guard_def take_fault_disk split: prod.splits fault.splits)

section \<open>Calls that do not fail\<close>

text \<open>The world in which every further call succeeds.\<close>

abbreviation calm :: "world \<Rightarrow> bool" where
  "calm w \<equiv> faults w = []"

lemma take_fault_calm [os_simps]: "calm w \<Longrightarrow> take_fault w = (Okay, w)"
  by (simp add: take_fault_def)

lemma os_guard_calm [os_simps]: "calm w \<Longrightarrow> os_guard w = (None, w)"
  by (simp add: os_guard_def os_simps)

lemma os_mkdir_all_calm [os_simps]: "calm w \<Longrightarrow> os_mkdir_all p w = (None, w)"
  by (simp add: os_mkdir_all_def os_simps)

lemma os_sync_calm [os_simps]: "calm w \<Longrightarrow> os_sync f w = (None, w)"
  by (simp add: os_sync_def os_simps)

lemma os_close_calm [os_simps]: "calm w \<Longrightarrow> os_close f w = (None, w)"
  by (simp add: os_close_def os_simps)

lemma os_write_calm [os_simps]:
  "calm w \<Longrightarrow> os_write f d w = (length d, None, append_file (f_path f) d w)"
  by (simp add: os_write_def os_simps)

lemma os_seek_start_calm [os_simps]: "calm w \<Longrightarrow> os_seek_start f w = (None, f\<lparr>f_pos := 0\<rparr>, w)"
  by (simp add: os_seek_start_def os_simps)

lemma os_seek_end_calm [os_simps]:
  "calm w \<Longrightarrow> os_seek_end f w = (None, f\<lparr>f_pos := length (file_data w (f_path f))\<rparr>, w)"
  by (simp add: os_seek_end_def os_simps)

lemma os_stat_size_calm [os_simps]:
  "calm w \<Longrightarrow> os_stat_size f w = (Inr (length (file_data w (f_path f))), w)"
  by (simp add: os_stat_size_def os_simps)

lemma os_truncate_calm [os_simps]:
  "calm w \<Longrightarrow> file_at w (f_path f) = Some c \<Longrightarrow> os_truncate f w = (None, set_file (f_path f) [] w)"
  by (simp add: os_truncate_def os_simps)

lemma os_open_existing_calm [os_simps]:
  "calm w \<Longrightarrow> file_at w p = Some c \<Longrightarrow>
     os_open_file p create False w = (Inr \<lparr>f_path = p, f_pos = 0\<rparr>, w)"
  by (simp add: os_open_file_def os_simps)

lemma os_open_trunc_calm [os_simps]:
  "calm w \<Longrightarrow> os_open_file p True True w = (Inr \<lparr>f_path = p, f_pos = 0\<rparr>, set_file p [] w)"
  by (simp add: os_open_file_def os_simps split: option.splits)

lemma os_remove_calm [os_simps]:
  "calm w \<Longrightarrow> file_at w p = Some c \<Longrightarrow> os_remove p w = (None, del_file p w)"
  by (simp add: os_remove_def os_simps)

lemma os_rename_calm [os_simps]:
  "calm w \<Longrightarrow> file_at w p = Some c \<Longrightarrow> p \<noteq> q \<Longrightarrow>
     os_rename p q w = (None, set_file q c (del_file p w))"
  by (simp add: os_rename_def os_simps)

end
