(* ===== verification/KV_Record.thy ===== *)
theory KV_Record
  imports KV_Platform
begin

unbundle bit_operations_syntax

text \<open>
  The binary record format (\<open>internal/engine/record/record.go\<close>): \<open>Encode\<close>, \<open>Decode\<close> and the
  parameter check, and the interface \<open>framed_codec\<close> that the log and the table files rely on:
  records written one after the other are read back one after the other, and a torn tail is
  noticed.
\<close>

section \<open>Records\<close>

record Record =
  rec_Type :: byte
  rec_Key :: bytes
  rec_Value :: bytes

definition TypePut :: byte where
  "TypePut = 1"

definition TypeDelete :: byte where
  "TypeDelete = 2"

text \<open>Type (1 byte), key length (4 bytes), value length (4 bytes).\<close>

definition RecordTypeSize :: nat where
  "RecordTypeSize = 1"

definition RecordKeySize :: nat where
  "RecordKeySize = 4"

definition RecordValueSize :: nat where
  "RecordValueSize = 4"

definition RecordHeaderSize :: nat where
  "RecordHeaderSize = RecordTypeSize + RecordKeySize + RecordValueSize"

lemmas record_consts = TypePut_def TypeDelete_def RecordTypeSize_def RecordKeySize_def
  RecordValueSize_def RecordHeaderSize_def

text \<open>\<open>math.MaxUint32\<close>\<close>

definition MaxUint32 :: nat where
  "MaxUint32 = 4294967295"

definition CheckEncodePara :: "Record \<Rightarrow> err option" where
  "CheckEncodePara record =
     (if rec_Type record \<noteq> TypePut \<and> rec_Type record \<noteq> TypeDelete then Some ErrInvalidType
      else if rec_Type record = TypeDelete \<and> length (rec_Value record) \<noteq> 0
        then Some ErrUnexpectedValue
      else if length (rec_Key record) > MaxUint32 \<or> length (rec_Value record) > MaxUint32
        then Some ErrRecordTooLarge
      else if length (rec_Key record) = 0 then Some ErrEmptyKey
      else None)"

section \<open>Big-endian lengths\<close>

text \<open>\<open>binary.BigEndian.PutUint32\<close> and \<open>Uint32\<close>\<close>

definition PutUint32 :: "32 word \<Rightarrow> bytes" where
  "PutUint32 v = [ucast (drop_bit 24 v), ucast (drop_bit 16 v), ucast (drop_bit 8 v), ucast v]"

definition Uint32 :: "bytes \<Rightarrow> 32 word" where
  "Uint32 b = ucast (b ! 3) OR push_bit 8 (ucast (b ! 2)) OR push_bit 16 (ucast (b ! 1))
     OR push_bit 24 (ucast (b ! 0))"

section \<open>Encode and Decode\<close>

definition Encode :: "Record \<Rightarrow> err + bytes" where
  "Encode record =
     (case CheckEncodePara record of
        Some e \<Rightarrow> Inl e
      | None \<Rightarrow>
          Inr ([rec_Type record]
             @ PutUint32 (word_of_nat (length (rec_Key record)))
             @ PutUint32 (word_of_nat (length (rec_Value record)))
             @ rec_Key record
             @ rec_Value record))"

text \<open>
  \<open>io.ReadFull\<close> on a reader that holds the bytes \<open>r\<close>: the buffer, the number of bytes read, the
  error (\<open>EOF\<close> when nothing was read, \<open>UnexpectedEOF\<close> when less than the buffer), the rest.
\<close>

definition read_full :: "nat \<Rightarrow> bytes \<Rightarrow> bytes \<times> nat \<times> err option \<times> bytes" where
  "read_full n r =
     (if n \<le> length r then (take n r, n, None, drop n r)
      else (r, length r, Some (if r = [] then EOF else UnexpectedEOF), []))"

definition Decode :: "bytes \<Rightarrow> (err + Record) \<times> bytes" where
  "Decode r =
     (case read_full RecordHeaderSize r of
        (headerBuf, n, Some e, r1) \<Rightarrow>
          if n = 0 then (Inl EOF, r1) else (Inl ErrIncompleteRecord, r1)
      | (headerBuf, n, None, r1) \<Rightarrow>
          let recordType = headerBuf ! 0;
              keySize = Uint32 (take RecordKeySize (drop RecordTypeSize headerBuf));
              valueSize = Uint32 (take RecordValueSize
                (drop (RecordTypeSize + RecordKeySize) headerBuf))
          in if recordType \<noteq> TypePut \<and> recordType \<noteq> TypeDelete then (Inl ErrInvalidType, r1)
             else if keySize = 0 then (Inl ErrEmptyKey, r1)
             else
               (case read_full (unat keySize) r1 of
                  (keyBuf, n1, Some e, r2) \<Rightarrow> (Inl ErrIncompleteRecord, r2)
                | (keyBuf, n1, None, r2) \<Rightarrow>
                    (case read_full (unat valueSize) r2 of
                       (valueBuf, n2, Some e, r3) \<Rightarrow> (Inl ErrIncompleteRecord, r3)
                     | (valueBuf, n2, None, r3) \<Rightarrow>
                         (Inr \<lparr>rec_Type = recordType, rec_Key = keyBuf, rec_Value = valueBuf\<rparr>,
                          r3))))"

section \<open>The length fields\<close>

lemma length_PutUint32 [simp]: "length (PutUint32 v) = 4"
  by (simp add: PutUint32_def)

lemma Uint32_PutUint32 [codec_simps, simp]: "Uint32 (PutUint32 v) = v"
proof (rule bit_word_eqI)
  fix n assume "n < LENGTH(32)"
  then have n: "n < 32" by simp
  then consider "n < 8" | "8 \<le> n" "n < 16" | "16 \<le> n" "n < 24" | "24 \<le> n" "n < 32"
    by linarith
  then show "bit (Uint32 (PutUint32 v)) n = bit v n"
    using n by cases
      (auto simp: Uint32_def PutUint32_def bit_or_iff bit_push_bit_iff bit_ucast_iff bit_drop_bit_eq)
qed

lemma PutUint32_Uint32 [codec_simps]:
  assumes "length b = 4"
  shows "PutUint32 (Uint32 b) = b"
proof -
  obtain b0 b1 b2 b3 where b: "b = [b0, b1, b2, b3]"
    using assms by (auto simp: numeral_eq_Suc length_Suc_conv)
  have h: "bit c i \<Longrightarrow> i < 8" for c :: byte and i
    using bit_imp_le_length [of c i] by simp
  note bits = Uint32_def b bit_or_iff bit_push_bit_iff bit_ucast_iff bit_drop_bit_eq
  have "ucast (drop_bit 24 (Uint32 b)) = b0"
    by (rule bit_word_eqI) (auto simp: bits dest: h)
  moreover have "ucast (drop_bit 16 (Uint32 b)) = b1"
    by (rule bit_word_eqI) (auto simp: bits dest: h)
  moreover have "ucast (drop_bit 8 (Uint32 b)) = b2"
    by (rule bit_word_eqI) (auto simp: bits dest: h)
  moreover have "ucast (Uint32 b) = b3"
    by (rule bit_word_eqI) (auto simp: bits dest: h)
  ultimately show ?thesis by (simp add: PutUint32_def b)
qed

lemma unat_length_field [codec_simps]: "n \<le> MaxUint32 \<Longrightarrow> unat (word_of_nat n :: 32 word) = n"
  by (simp add: MaxUint32_def unat_of_nat)

lemma length_field_zero [codec_simps]: "n \<le> MaxUint32 \<Longrightarrow> (word_of_nat n :: 32 word) = 0 \<longleftrightarrow> n = 0"
proof -
  assume "n \<le> MaxUint32"
  then have "unat (word_of_nat n :: 32 word) = n" by (rule unat_length_field)
  then show ?thesis by (simp only: unat_eq_zero [symmetric])
qed

section \<open>The frame of a record\<close>

definition frame :: "Record \<Rightarrow> bytes" where
  "frame r = [rec_Type r] @ PutUint32 (word_of_nat (length (rec_Key r)))
     @ PutUint32 (word_of_nat (length (rec_Value r))) @ rec_Key r @ rec_Value r"

abbreviation rec_ok :: "Record \<Rightarrow> bool" where
  "rec_ok r \<equiv> CheckEncodePara r = None"

lemma Encode_frame [codec_simps]: "rec_ok r \<Longrightarrow> Encode r = Inr (frame r)"
  by (simp add: Encode_def frame_def)

lemma Encode_Inr_iff: "Encode r = Inr bs \<longleftrightarrow> rec_ok r \<and> bs = frame r"
  by (auto simp: Encode_def frame_def split: option.splits)

lemma Encode_Inl_iff: "Encode r = Inl e \<longleftrightarrow> CheckEncodePara r = Some e"
  by (auto simp: Encode_def split: option.splits)

lemma length_frame [simp]:
  "length (frame r) = RecordHeaderSize + length (rec_Key r) + length (rec_Value r)"
  by (simp add: frame_def record_consts)

lemma frame_nonempty [simp]: "frame r \<noteq> []"
  by (simp add: frame_def)

lemma rec_ok_iff:
  "rec_ok r \<longleftrightarrow>
     (rec_Type r = TypePut \<or> rec_Type r = TypeDelete \<and> rec_Value r = [])
     \<and> rec_Key r \<noteq> [] \<and> length (rec_Key r) \<le> MaxUint32 \<and> length (rec_Value r) \<le> MaxUint32"
  by (auto simp: CheckEncodePara_def TypePut_def TypeDelete_def)

section \<open>Reading a frame\<close>

lemma read_full_append [codec_simps]: "n = length a \<Longrightarrow> read_full n (a @ b) = (a, n, None, b)"
  by (simp add: read_full_def)

lemma read_full_short [codec_simps]:
  "length r < n \<Longrightarrow> read_full n r = (r, length r, Some (if r = [] then EOF else UnexpectedEOF), [])"
  by (simp add: read_full_def)

lemma read_full_rest: "read_full n r = (d, k, None, rest) \<Longrightarrow> r = d @ rest \<and> length d = n"
  by (auto simp: read_full_def split: if_splits)

lemma read_full_suffix: "read_full n r = (d, k, e, rest) \<Longrightarrow> r = d @ rest"
  by (auto simp: read_full_def split: if_splits)

text \<open>What follows a complete header.\<close>

definition decode_body :: "byte \<Rightarrow> nat \<Rightarrow> nat \<Rightarrow> bytes \<Rightarrow> (err + Record) \<times> bytes" where
  "decode_body t k v r =
     (if t \<noteq> TypePut \<and> t \<noteq> TypeDelete then (Inl ErrInvalidType, r)
      else if k = 0 then (Inl ErrEmptyKey, r)
      else if length r < k then (Inl ErrIncompleteRecord, [])
      else if length r < k + v then (Inl ErrIncompleteRecord, [])
      else (Inr \<lparr>rec_Type = t, rec_Key = take k r, rec_Value = take v (drop k r)\<rparr>, drop (k + v) r))"

lemma Decode_header:
  "Decode (t # PutUint32 k @ PutUint32 v @ r) = decode_body t (unat k) (unat v) r"
proof -
  have "read_full RecordHeaderSize (t # PutUint32 k @ PutUint32 v @ r)
      = (t # PutUint32 k @ PutUint32 v, RecordHeaderSize, None, r)"
    using read_full_append [of RecordHeaderSize "t # PutUint32 k @ PutUint32 v" r]
    by (simp add: record_consts)
  then show ?thesis
    by (auto simp: Decode_def decode_body_def read_full_def record_consts Let_def
        unat_eq_zero drop_drop add.commute)
qed

lemma Decode_short:
  "length r < RecordHeaderSize \<Longrightarrow>
     Decode r = (Inl (if r = [] then EOF else ErrIncompleteRecord), [])"
  by (simp add: Decode_def read_full_def)

lemma header_split:
  assumes "RecordHeaderSize \<le> length r"
  obtains t k v r' where "r = t # PutUint32 k @ PutUint32 v @ r'"
proof -
  obtain t r1 where r: "r = t # r1" using assms by (cases r) (auto simp: record_consts)
  let ?k = "take 4 r1" let ?v = "take 4 (drop 4 r1)"
  have "length ?k = 4" "length ?v = 4" using assms r by (simp_all add: record_consts)
  then have "PutUint32 (Uint32 ?k) = ?k" "PutUint32 (Uint32 ?v) = ?v"
    by (simp_all add: PutUint32_Uint32)
  moreover have "r1 = ?k @ ?v @ drop 8 r1"
    by (metis append_take_drop_id drop_drop numeral_plus_numeral semiring_norm(2) semiring_norm(6))
  ultimately have "r = t # PutUint32 (Uint32 ?k) @ PutUint32 (Uint32 ?v) @ drop 8 r1"
    using r by simp
  then show thesis by (rule that)
qed

lemma Decode_frame [codec_simps]: "rec_ok r \<Longrightarrow> Decode (frame r @ rest) = (Inr r, rest)"
  by (cases r) (auto simp: frame_def Decode_header decode_body_def rec_ok_iff unat_length_field)

lemma Decode_suffix:
  assumes "Decode bs = (x, rest)"
  obtains used where "bs = used @ rest"
proof (cases "length bs < RecordHeaderSize")
  case True
  then show thesis using assms that by (auto simp: Decode_short)
next
  case False
  then obtain t k v r where bs: "bs = t # PutUint32 k @ PutUint32 v @ r"
    using header_split [of bs] by (metis not_less)
  then have "\<exists>u. r = u @ rest"
    using assms
    by (auto simp: Decode_header decode_body_def split: if_splits) (metis append_take_drop_id)+
  then show thesis using bs that by (metis append_Cons append_assoc)
qed

text \<open>Every record that \<open>Decode\<close> returns was in the input in the framing of \<open>Encode\<close>.\<close>

lemma Decode_Inr:
  assumes "Decode bs = (Inr r, rest)"
  shows "bs = frame r @ rest"
    and "rec_Key r \<noteq> []" and "length (rec_Key r) \<le> MaxUint32" and "length (rec_Value r) \<le> MaxUint32"
    and "rec_Type r = TypePut \<or> rec_Type r = TypeDelete"
proof -
  have "\<not> length bs < RecordHeaderSize"
    using assms by (auto simp: Decode_short)
  then obtain t k v b where bs: "bs = t # PutUint32 k @ PutUint32 v @ b"
    using header_split [of bs] by (metis not_less)
  from assms have body: "decode_body t (unat k) (unat v) b = (Inr r, rest)"
    by (simp add: bs Decode_header)
  then have t: "t = TypePut \<or> t = TypeDelete" and k: "unat k \<noteq> 0" and l: "unat k + unat v \<le> length b"
    and r: "r = \<lparr>rec_Type = t, rec_Key = take (unat k) b, rec_Value = take (unat v) (drop (unat k) b)\<rparr>"
    and rest: "rest = drop (unat k + unat v) b"
    by (auto simp: decode_body_def split: if_splits)
  have "unat k < 2 ^ LENGTH(32)" "unat v < 2 ^ LENGTH(32)"
    by (rule unsigned_less)+
  then have "unat k \<le> MaxUint32" "unat v \<le> MaxUint32"
    by (simp_all add: MaxUint32_def)
  then show "rec_Key r \<noteq> []" "length (rec_Key r) \<le> MaxUint32" "length (rec_Value r) \<le> MaxUint32"
    "rec_Type r = TypePut \<or> rec_Type r = TypeDelete"
    using t k l by (auto simp: r)
  have "b = rec_Key r @ rec_Value r @ rest"
    by (simp add: r rest) (metis append_take_drop_id add.commute drop_drop)
  then show "bs = frame r @ rest"
    using l by (simp add: bs frame_def r)
qed

lemma Decode_Inl:
  "Decode bs = (Inl e, rest) \<Longrightarrow> e \<in> {EOF, ErrIncompleteRecord, ErrInvalidType, ErrEmptyKey}"
proof (cases "length bs < RecordHeaderSize")
  case False
  then obtain t k v b where bs: "bs = t # PutUint32 k @ PutUint32 v @ b"
    using header_split [of bs] by (metis not_less)
  then show "Decode bs = (Inl e, rest) \<Longrightarrow> e \<in> {EOF, ErrIncompleteRecord, ErrInvalidType, ErrEmptyKey}"
    by (auto simp: Decode_header decode_body_def split: if_splits)
qed (auto simp: Decode_short split: if_splits)

lemma Decode_progress: "Decode bs = (Inr r, rest) \<Longrightarrow> length rest < length bs"
  using Decode_Inr(1) [of bs r rest] by (simp add: record_consts)

lemma Decode_torn:
  assumes ok: "rec_ok r" and n: "n < length (frame r)"
  shows "Decode (take n (frame r)) = (Inl (if n = 0 then EOF else ErrIncompleteRecord), [])"
proof (cases "n < RecordHeaderSize")
  case True
  then show ?thesis using n by (auto simp: Decode_short)
next
  case False
  define b where "b = take (n - RecordHeaderSize) (rec_Key r @ rec_Value r)"
  have "take n (frame r) = rec_Type r # PutUint32 (word_of_nat (length (rec_Key r)))
      @ PutUint32 (word_of_nat (length (rec_Value r))) @ b"
    using False by (simp add: frame_def b_def record_consts take_Cons' )
  moreover have "length b < length (rec_Key r) + length (rec_Value r)"
    using n False by (auto simp: b_def record_consts)
  ultimately show ?thesis
    using ok False by (auto simp: Decode_header decode_body_def rec_ok_iff unat_length_field record_consts)
qed

text \<open>A torn record swallows what follows it: the header announces more bytes than there are.\<close>

lemma Decode_torn_swallows:
  assumes ok: "rec_ok r" and n: "RecordHeaderSize \<le> n" "n + length x < length (frame r)"
  shows "Decode (take n (frame r) @ x) = (Inl ErrIncompleteRecord, [])"
proof -
  define b where "b = take (n - RecordHeaderSize) (rec_Key r @ rec_Value r) @ x"
  have "take n (frame r) @ x = rec_Type r # PutUint32 (word_of_nat (length (rec_Key r)))
      @ PutUint32 (word_of_nat (length (rec_Value r))) @ b"
    using n by (simp add: frame_def b_def record_consts take_Cons')
  moreover have "length b < length (rec_Key r) + length (rec_Value r)"
    using n by (auto simp: b_def record_consts)
  ultimately show ?thesis
    using ok by (auto simp: Decode_header decode_body_def rec_ok_iff unat_length_field)
qed

section \<open>Reading records from a file\<close>

text \<open>
  \<open>record.Decode(file)\<close>: the reader is the file from the handle's position.  A failing read gives
  \<open>Decode\<close> only the first bytes; \<open>Decode\<close> does not look at the error itself but at the number of
  bytes it got.
\<close>

definition DecodeFile :: "os_file \<Rightarrow> world \<Rightarrow> (err + Record) \<times> os_file \<times> world" where
  "DecodeFile f w =
     (case take_fault w of
        (flt, w1) \<Rightarrow>
          let avail = drop (f_pos f) (file_data w1 (f_path f));
              r = (case flt of Okay \<Rightarrow> avail | Fail n e \<Rightarrow> take n avail)
          in (case Decode r of
                (x, rest) \<Rightarrow> (x, f\<lparr>f_pos := f_pos f + (length r - length rest)\<rparr>, w1)))"

lemma DecodeFile_calm [os_simps]:
  "calm w \<Longrightarrow> Decode (drop (f_pos f) (file_data w (f_path f))) = (x, rest) \<Longrightarrow>
     DecodeFile f w =
       (x, f\<lparr>f_pos := f_pos f + (length (file_data w (f_path f)) - f_pos f - length rest)\<rparr>, w)"
  by (simp add: DecodeFile_def os_simps)

lemma DecodeFile_files: "DecodeFile f w = (x, f', w') \<Longrightarrow> file_at w' = file_at w"
  by (auto simp: DecodeFile_def Let_def split: prod.splits dest: take_fault_disk)

lemma DecodeFile_path: "DecodeFile f w = (x, f', w') \<Longrightarrow> f_path f' = f_path f"
  by (auto simp: DecodeFile_def Let_def split: prod.splits)

lemma DecodeFile_Inl:
  "DecodeFile f w = (Inl e, f', w') \<Longrightarrow> e \<in> {EOF, ErrIncompleteRecord, ErrInvalidType, ErrEmptyKey}"
  by (auto simp: DecodeFile_def Let_def split: prod.splits dest: Decode_Inl)

lemma file_data_cong: "file_at w = file_at w' \<Longrightarrow> file_data w = file_data w'"
  by (simp add: file_data_def fun_eq_iff)

lemma DecodeFile_progress:
  assumes "DecodeFile f w = (Inr r, f', w')"
  shows "length (file_data w (f_path f)) - f_pos f' < length (file_data w (f_path f)) - f_pos f"
proof -
  obtain flt w1 where tf: "take_fault w = (flt, w1)" by (cases "take_fault w")
  have data: "file_data w1 = file_data w" using take_fault_disk [OF tf] by (rule file_data_cong)
  let ?avail = "drop (f_pos f) (file_data w1 (f_path f))"
  let ?r = "case flt of Okay \<Rightarrow> ?avail | Fail n e \<Rightarrow> take n ?avail"
  obtain rest where d: "Decode ?r = (Inr r, rest)" and f': "f_pos f' = f_pos f + (length ?r - length rest)"
    using assms by (auto simp: DecodeFile_def tf Let_def split: prod.splits)
  from Decode_progress [OF d] have lt: "length rest < length ?r" .
  have "length ?r \<le> length ?avail" by (cases flt) auto
  with lt show ?thesis unfolding f' data [symmetric] by (auto simp: less_diff_conv)
qed

lemma DecodeFile_decreases:
  assumes "DecodeFile f w = (Inr r, f', w')"
  shows "length (file_data w' (f_path f')) - f_pos f' < length (file_data w (f_path f)) - f_pos f"
  using DecodeFile_progress [OF assms] DecodeFile_path [OF assms]
    file_data_cong [OF DecodeFile_files [OF assms]]
  by simp

section \<open>Framed streams\<close>

text \<open>
  All records a decoder reads from the front of a byte string, with the error that stopped it.
\<close>

function scan :: "(bytes \<Rightarrow> (err + 'r) \<times> bytes) \<Rightarrow> bytes \<Rightarrow> 'r list \<times> err" where
  "scan dec bs =
     (case dec bs of
        (Inl e, rest) \<Rightarrow> ([], e)
      | (Inr r, rest) \<Rightarrow>
          if length rest < length bs then (case scan dec rest of (rs, e) \<Rightarrow> (r # rs, e))
          else ([r], EOF))"
  by pat_completeness auto
termination
  by (relation "measure (\<lambda>(dec, bs). length bs)") auto

declare scan.simps [simp del]

text \<open>
  The interface of a record format to its users, the log and the tables: \<open>enc\<close> writes a record,
  \<open>dec\<close> reads one from the front of its input, \<open>ok\<close> says which records can be written.
\<close>

locale framed_codec =
  fixes enc :: "'r \<Rightarrow> bytes"
    and dec :: "bytes \<Rightarrow> (err + 'r) \<times> bytes"
    and ok :: "'r \<Rightarrow> bool"
  assumes dec_enc: "ok r \<Longrightarrow> dec (enc r @ rest) = (Inr r, rest)"
    and dec_nil: "dec [] = (Inl EOF, [])"
    and dec_cut: "ok r \<Longrightarrow> 0 < n \<Longrightarrow> n < length (enc r) \<Longrightarrow>
      dec (take n (enc r)) = (Inl ErrIncompleteRecord, [])"
    and enc_nonempty: "enc r \<noteq> []"
begin

lemma scan_step: "ok r \<Longrightarrow> scan dec (enc r @ bs) = (case scan dec bs of (rs, e) \<Rightarrow> (r # rs, e))"
  using enc_nonempty [of r] by (subst scan.simps) (simp add: dec_enc)

lemma scan_append:
  "\<forall>r \<in> set rs. ok r \<Longrightarrow>
     scan dec (concat (map enc rs) @ bs) = (case scan dec bs of (rs', e) \<Rightarrow> (rs @ rs', e))"
  by (induction rs) (auto simp: scan_step split: prod.splits)

lemma scan_nil: "scan dec [] = ([], EOF)"
  by (subst scan.simps) (simp add: dec_nil)

lemma scan_frames: "\<forall>r \<in> set rs. ok r \<Longrightarrow> scan dec (concat (map enc rs)) = (rs, EOF)"
  using scan_append [of rs "[]"] by (simp add: scan_nil)

lemma scan_torn:
  assumes "\<forall>r \<in> set rs. ok r" and "ok r" and "0 < n" and "n < length (enc r)"
  shows "scan dec (concat (map enc rs) @ take n (enc r)) = (rs, ErrIncompleteRecord)"
proof -
  have "scan dec (take n (enc r)) = ([], ErrIncompleteRecord)"
    using assms(2-4) by (subst scan.simps) (simp add: dec_cut)
  then show ?thesis using scan_append [OF assms(1)] by simp
qed

lemma dec_frames:
  "\<forall>r \<in> set rs. ok r \<Longrightarrow> i < length rs \<Longrightarrow>
     dec (drop (length (concat (map enc (take i rs)))) (concat (map enc rs)))
       = (Inr (rs ! i), concat (map enc (drop (Suc i) rs)))"
proof -
  assume ok: "\<forall>r \<in> set rs. ok r" and i: "i < length rs"
  have "concat (map enc rs) = concat (map enc (take i rs)) @ enc (rs ! i) @ concat (map enc (drop (Suc i) rs))"
    using id_take_nth_drop [OF i] by (metis concat_append concat.simps(2) map_append list.map(2))
  then show ?thesis using ok i by (simp add: dec_enc)
qed

lemma frames_inj:
  assumes "\<forall>r \<in> set rs. ok r" and "\<forall>r \<in> set rs'. ok r"
    and "concat (map enc rs) = concat (map enc rs')"
  shows "rs = rs'"
  using scan_frames [OF assms(1)] scan_frames [OF assms(2)] unfolding assms(3) by simp

end

interpretation codec: framed_codec frame Decode rec_ok
proof
  show "Decode [] = (Inl EOF, [])" by (simp add: Decode_short record_consts)
qed (auto simp: Decode_frame Decode_torn)

abbreviation frames :: "Record list \<Rightarrow> bytes" where
  "frames rs \<equiv> concat (map frame rs)"

abbreviation recs_ok :: "Record list \<Rightarrow> bool" where
  "recs_ok rs \<equiv> \<forall>r \<in> set rs. rec_ok r"

lemma DecodeFile_at [os_simps]:
  assumes "calm w" and "file_at w (f_path f) = Some (frames rs @ tail)" and "recs_ok rs"
    and "f_pos f = length (frames (take i rs))" and "i < length rs"
  shows "DecodeFile f w = (Inr (rs ! i), f\<lparr>f_pos := length (frames (take (Suc i) rs))\<rparr>, w)"
proof -
  have rs: "frames rs = frames (take i rs) @ frame (rs ! i) @ frames (drop (Suc i) rs)"
    using id_take_nth_drop [OF assms(5)] by (metis concat_append concat.simps(2) map_append list.map(2))
  then have "drop (f_pos f) (file_data w (f_path f)) = frame (rs ! i) @ frames (drop (Suc i) rs) @ tail"
    using assms(2,4) by simp
  moreover have "rec_ok (rs ! i)" using assms(3,5) by simp
  ultimately have "Decode (drop (f_pos f) (file_data w (f_path f)))
      = (Inr (rs ! i), frames (drop (Suc i) rs) @ tail)"
    by (simp add: Decode_frame)
  from DecodeFile_calm [OF assms(1) this] show ?thesis
    using assms(2,4,5) rs by (simp add: take_Suc_conv_app_nth)
qed

lemma DecodeFile_end [os_simps]:
  assumes "calm w" and "file_at w (f_path f) = Some (frames rs)" and "f_pos f = length (frames rs)"
  shows "DecodeFile f w = (Inl EOF, f, w)"
  using DecodeFile_calm [OF assms(1), of f "Inl EOF" "[]"] assms(2,3)
  by (simp add: codec.dec_nil)

section \<open>Properties\<close>

text \<open>
  C22: Encode and Decode round trip.  Decoding what \<open>Encode\<close> produced, whatever bytes follow it,
  returns the record and leaves exactly those bytes unread; \<open>Encode\<close> refuses a record with the
  error of the parameter check.
\<close>

theorem Encode_Decode_roundtrip:
  "case Encode r of
     Inr bs \<Rightarrow> CheckEncodePara r = None \<and> Decode (bs @ rest) = (Inr r, rest)
   | Inl e \<Rightarrow> CheckEncodePara r = Some e"
  by (auto simp: Encode_Inl_iff Encode_Inr_iff Decode_frame split: sum.splits)

text \<open>
  The format is canonical.  \<open>Decode\<close> consumes a prefix of its input; when it returns a record,
  \<open>Encode\<close> of that record is exactly the consumed prefix, a tombstone with a value excepted; the
  only errors it returns are the end of the input, an incomplete record, an unknown type and an
  empty key.
\<close>

lemma Decode_canonical:
  "case Decode bs of
     (Inr r, rest) \<Rightarrow> \<exists>used. bs = used @ rest \<and> used \<noteq> []
       \<and> (Encode r = Inr used \<or> rec_Type r = TypeDelete \<and> 0 < length (rec_Value r))
   | (Inl e, rest) \<Rightarrow> e \<in> {EOF, ErrIncompleteRecord, ErrInvalidType, ErrEmptyKey}"
proof (cases "Decode bs")
  case (Pair x rest)
  show ?thesis
  proof (cases x)
    case (Inr r)
    then have d: "Decode bs = (Inr r, rest)" using Pair by simp
    have "rec_ok r \<or> rec_Type r = TypeDelete \<and> rec_Value r \<noteq> []"
      using Decode_Inr(2-5) [OF d] by (auto simp: rec_ok_iff)
    then show ?thesis using Pair Inr Decode_Inr(1) [OF d] by (auto simp: Encode_frame)
  qed (use Pair Decode_Inl in auto)
qed

text \<open>
  A record cut short is noticed.  Decoding a proper prefix of an encoded record never returns a
  record: the empty prefix is the end of the input, any other is an incomplete record.
\<close>

lemma Decode_detects_cut:
  assumes "Encode r = Inr bs" and "n < length bs"
  shows "Decode (take n bs) = (Inl (if n = 0 then EOF else ErrIncompleteRecord), [])"
  using assms Decode_torn [of r n] by (auto simp: Encode_Inr_iff)

lemma Decode_detects_cut_witness:
  "Decode (take 10 [1, 0, 0, 0, 1, 0, 0, 0, 1, 65, 66]) = (Inl ErrIncompleteRecord, [])"
  using Decode_detects_cut [of "\<lparr>rec_Type = 1, rec_Key = [65], rec_Value = [66]\<rparr>"
      "[1, 0, 0, 0, 1, 0, 0, 0, 1, 65, 66]" 10]
  by (simp add: Encode_def CheckEncodePara_def PutUint32_def record_consts MaxUint32_def)

text \<open>
  \<open>Decode\<close> accepts what \<open>Encode\<close> refuses: a tombstone with a value is read back as a record,
  and that record cannot be encoded.
\<close>

lemma Decode_accepts_tombstone_value:
  "Decode [2, 0, 0, 0, 1, 0, 0, 0, 1, 65, 66]
     = (Inr \<lparr>rec_Type = TypeDelete, rec_Key = [65], rec_Value = [66]\<rparr>, [])
   \<and> Encode \<lparr>rec_Type = TypeDelete, rec_Key = [65], rec_Value = [66]\<rparr> = Inl ErrUnexpectedValue"
proof
  have "[2, 0, 0, 0, 1, 0, 0, 0, 1, 65, 66]
      = (TypeDelete # PutUint32 1 @ PutUint32 1 @ [65, 66] :: bytes)"
    by (simp add: PutUint32_def TypeDelete_def)
  then show "Decode [2, 0, 0, 0, 1, 0, 0, 0, 1, 65, 66]
      = (Inr \<lparr>rec_Type = TypeDelete, rec_Key = [65], rec_Value = [66]\<rparr>, [])"
    by (simp only: Decode_header) (simp add: decode_body_def)
  show "Encode \<lparr>rec_Type = TypeDelete, rec_Key = [65], rec_Value = [66]\<rparr> = Inl ErrUnexpectedValue"
    by (simp add: Encode_def CheckEncodePara_def TypePut_def TypeDelete_def)
qed

end
