(* ===== verification/KV_Memtable.thy ===== *)
theory KV_Memtable
  imports KV_Record "HOL-Library.Multiset"
begin

text \<open>
  The memtable (\<open>internal/engine/memtable/memtable.go\<close>): the Go map from keys to records is an
  association list, its size counter a 64-bit word that wraps around.  The interface \<open>mem_table\<close>
  states what the database relies on: the table holds the newest record of every key, and
  exports them in key order.
\<close>

section \<open>The newest record of every key\<close>

text \<open>
  What a sequence of records, oldest first, says about a key.  The log, a table file and the
  memtable are all compared with this map.
\<close>

definition newest :: "Record list \<Rightarrow> bytes \<rightharpoonup> Record" where
  "newest rs = map_of (rev (map (\<lambda>r. (rec_Key r, r)) rs))"

lemma newest_nil [simp]: "newest [] = Map.empty"
  by (simp add: newest_def)

lemma newest_append: "newest (rs @ rs') = newest rs ++ newest rs'"
  by (simp add: newest_def)

lemma newest_snoc [simp]: "newest (rs @ [r]) = (newest rs)(rec_Key r \<mapsto> r)"
  by (simp add: newest_def)

lemma newest_key: "newest rs k = Some r \<Longrightarrow> rec_Key r = k \<and> r \<in> set rs"
  by (auto simp: newest_def dest!: map_of_SomeD)

lemma newest_dom: "dom (newest rs) = rec_Key ` set rs"
  by (simp add: newest_def dom_map_of_conv_image_fst image_image)

lemma newest_distinct_iff:
  assumes "distinct (map rec_Key rs)"
  shows "newest rs k = Some r \<longleftrightarrow> r \<in> set rs \<and> rec_Key r = k"
proof -
  have "distinct (map fst (rev (map (\<lambda>r. (rec_Key r, r)) rs)))"
    using assms by (simp add: rev_map [symmetric] comp_def)
  then show ?thesis by (auto simp: newest_def map_of_eq_Some_iff)
qed

lemma newest_nth:
  "distinct (map rec_Key rs) \<Longrightarrow> i < length rs \<Longrightarrow> newest rs (rec_Key (rs ! i)) = Some (rs ! i)"
  by (simp add: newest_distinct_iff)

lemma newest_eq_on_set:
  assumes "distinct (map rec_Key rs)" and "distinct (map rec_Key rs')" and "set rs = set rs'"
  shows "newest rs = newest rs'"
proof
  fix k
  show "newest rs k = newest rs' k"
    using newest_distinct_iff [OF assms(1), of k] newest_distinct_iff [OF assms(2), of k] assms(3)
    by (metis option.exhaust)
qed

section \<open>The table\<close>

record MemTable =
  mt_records :: "(bytes \<times> Record) list"
  mt_size :: "64 word"

definition generateOneRecordByCopy :: "byte \<Rightarrow> bytes \<Rightarrow> bytes \<Rightarrow> Record" where
  "generateOneRecordByCopy opType key value =
     \<lparr>rec_Type = opType, rec_Key = key, rec_Value = value\<rparr>"

definition NewMemTable :: MemTable where
  "NewMemTable = \<lparr>mt_records = [], mt_size = 0\<rparr>"

definition record_size :: "Record \<Rightarrow> nat" where
  "record_size r = RecordHeaderSize + length (rec_Key r) + length (rec_Value r)"

definition insertToMemtable :: "Record \<Rightarrow> MemTable \<Rightarrow> err option \<times> MemTable" where
  "insertToMemtable newRecord m =
     (let size1 =
        (case map_of (mt_records m) (rec_Key newRecord) of
           Some oldRecord \<Rightarrow> mt_size m - word_of_nat (record_size oldRecord)
         | None \<Rightarrow> mt_size m)
      in (None, \<lparr>mt_records = AList.update (rec_Key newRecord) newRecord (mt_records m),
                 mt_size = size1 + word_of_nat (record_size newRecord)\<rparr>))"

definition MemPut :: "bytes \<Rightarrow> bytes \<Rightarrow> MemTable \<Rightarrow> err option \<times> MemTable" where
  "MemPut key value m =
     (if length key = 0 then (Some ErrEmptyKey, m)
      else insertToMemtable (generateOneRecordByCopy TypePut key value) m)"

definition MemGet :: "bytes \<Rightarrow> MemTable \<Rightarrow> Record \<times> bool" where
  "MemGet key m =
     (case map_of (mt_records m) key of
        None \<Rightarrow> (\<lparr>rec_Type = 0, rec_Key = [], rec_Value = []\<rparr>, False)
      | Some r \<Rightarrow> (generateOneRecordByCopy (rec_Type r) (rec_Key r) (rec_Value r), True))"

definition MemDelete :: "bytes \<Rightarrow> MemTable \<Rightarrow> err option \<times> MemTable" where
  "MemDelete key m =
     (if length key = 0 then (Some ErrEmptyKey, m)
      else insertToMemtable (generateOneRecordByCopy TypeDelete key []) m)"

definition MemSize :: "MemTable \<Rightarrow> 64 word" where
  "MemSize m = mt_size m"

text \<open>
  A callback \<open>func(Record) error\<close> closes over the state \<open>'s\<close>.  \<open>visit\<close> calls it on the records of
  a list until it returns an error.
\<close>

type_synonym 's callback = "Record \<Rightarrow> 's \<Rightarrow> err option \<times> 's"

fun visit :: "'s callback \<Rightarrow> Record list \<Rightarrow> 's \<Rightarrow> err option \<times> 's" where
  "visit fn [] s = (None, s)"
| "visit fn (r # rs) s =
     (case fn r s of (Some e, s') \<Rightarrow> (Some e, s') | (None, s') \<Rightarrow> visit fn rs s')"

text \<open>The records in the order of the sorted key list; a key that is not in the map reads as the
  zero record.\<close>

definition sorted_records :: "MemTable \<Rightarrow> Record list" where
  "sorted_records m =
     map (\<lambda>key. case map_of (mt_records m) key of
            Some r \<Rightarrow> generateOneRecordByCopy (rec_Type r) (rec_Key r) (rec_Value r)
          | None \<Rightarrow> \<lparr>rec_Type = 0, rec_Key = [], rec_Value = []\<rparr>)
       (sort (map fst (mt_records m)))"

definition MemForEachRecord :: "'s callback option \<Rightarrow> MemTable \<Rightarrow> 's \<Rightarrow> err option \<times> 's" where
  "MemForEachRecord fn m s =
     (case fn of None \<Rightarrow> (Some ErrNilCallBack, s) | Some f \<Rightarrow> visit f (sorted_records m) s)"

definition MemReset :: "MemTable \<Rightarrow> MemTable" where
  "MemReset m = m\<lparr>mt_size := 0, mt_records := []\<rparr>"

text \<open>The callback of the log replay in \<open>Open\<close>.\<close>

definition MemApply :: "MemTable callback" where
  "MemApply rc m =
     (if rec_Type rc = TypePut then MemPut (rec_Key rc) (rec_Value rc) m
      else MemDelete (rec_Key rc) m)"

section \<open>Visiting\<close>

lemma visit_collect: "visit (\<lambda>r acc. (None, acc @ [r])) rs acc = (None, acc @ rs)"
  by (induction rs arbitrary: acc) auto

lemma visit_total: "(\<And>r s. fst (fn r s) = None) \<Longrightarrow> visit fn rs s = (None, fold (\<lambda>r s. snd (fn r s)) rs s)"
  by (induction rs arbitrary: s) (auto split: prod.splits option.splits, metis fst_conv option.distinct(1))

section \<open>The invariant\<close>

text \<open>A record the table can hold: a put, or a tombstone without a value, of a non-empty key.\<close>

definition rec_shape :: "Record \<Rightarrow> bool" where
  "rec_shape r \<longleftrightarrow> rec_Key r \<noteq> [] \<and>
     (rec_Type r = TypePut \<or> rec_Type r = TypeDelete \<and> rec_Value r = [])"

lemma rec_ok_shape: "rec_ok r \<Longrightarrow> rec_shape r"
  by (auto simp: rec_ok_iff rec_shape_def)

definition mt_total :: "MemTable \<Rightarrow> nat" where
  "mt_total m = sum_list (map (\<lambda>kr. record_size (snd kr)) (mt_records m))"

definition mt_inv :: "MemTable \<Rightarrow> bool" where
  "mt_inv m \<longleftrightarrow>
     distinct (map fst (mt_records m))
     \<and> (\<forall>(k, r) \<in> set (mt_records m). rec_Key r = k \<and> rec_shape r)
     \<and> mt_size m = word_of_nat (mt_total m)"

definition mt_map :: "MemTable \<Rightarrow> bytes \<rightharpoonup> Record" where
  "mt_map m = map_of (mt_records m)"

lemma mt_map_New [simp]: "mt_map NewMemTable = Map.empty"
  by (simp add: mt_map_def NewMemTable_def)

lemma mt_inv_New [simp]: "mt_inv NewMemTable"
  by (simp add: mt_inv_def NewMemTable_def mt_total_def)

lemma mt_map_SomeD: "mt_inv m \<Longrightarrow> mt_map m k = Some r \<Longrightarrow> rec_Key r = k \<and> rec_shape r"
  by (auto simp: mt_inv_def mt_map_def dest!: map_of_SomeD)

lemma generateOneRecordByCopy_id [simp]:
  "generateOneRecordByCopy (rec_Type r) (rec_Key r) (rec_Value r) = r"
  by (simp add: generateOneRecordByCopy_def)

lemma sum_list_update:
  assumes "distinct (map fst al)"
  shows "sum_list (map (\<lambda>kv. f (snd kv)) (AList.update k v al))
       + (case map_of al k of None \<Rightarrow> 0 | Some u \<Rightarrow> f u)
     = sum_list (map (\<lambda>kv. f (snd kv)) al) + (f v :: nat)"
  using assms by (induction al) (auto split: option.splits simp: map_of_eq_None_iff[symmetric] ac_simps)

lemma insertToMemtable_map [simp]:
  "mt_map (snd (insertToMemtable r m)) = (mt_map m)(rec_Key r \<mapsto> r)"
  by (simp add: insertToMemtable_def mt_map_def Let_def)

lemma insertToMemtable_ok [simp]: "fst (insertToMemtable r m) = None"
  by (simp add: insertToMemtable_def Let_def)

lemma insertToMemtable_total:
  assumes "mt_inv m"
  shows "mt_total (snd (insertToMemtable r m))
       + (case mt_map m (rec_Key r) of None \<Rightarrow> 0 | Some u \<Rightarrow> record_size u)
     = mt_total m + record_size r"
  using assms sum_list_update [of "mt_records m" record_size "rec_Key r" r]
  by (simp add: mt_inv_def mt_total_def insertToMemtable_def Let_def mt_map_def)

lemma insertToMemtable_size:
  assumes "mt_inv m"
  shows "mt_size (snd (insertToMemtable r m)) = word_of_nat (mt_total (snd (insertToMemtable r m)))"
proof -
  have "(word_of_nat (mt_total (snd (insertToMemtable r m))) :: 64 word)
      + (case mt_map m (rec_Key r) of None \<Rightarrow> 0 | Some u \<Rightarrow> word_of_nat (record_size u))
    = word_of_nat (mt_total m) + word_of_nat (record_size r)"
    using arg_cong [OF insertToMemtable_total [OF assms, of r], of "word_of_nat :: nat \<Rightarrow> 64 word"]
    by (simp split: option.splits)
  then have "(word_of_nat (mt_total (snd (insertToMemtable r m))) :: 64 word)
    = word_of_nat (mt_total m) + word_of_nat (record_size r)
      - (case mt_map m (rec_Key r) of None \<Rightarrow> 0 | Some u \<Rightarrow> word_of_nat (record_size u))"
    by (simp only: eq_diff_eq)
  moreover have "mt_size m = word_of_nat (mt_total m)"
    using assms by (simp add: mt_inv_def)
  ultimately show ?thesis
    by (simp add: insertToMemtable_def Let_def mt_map_def split: option.splits)
qed

lemma insertToMemtable_inv:
  assumes "mt_inv m" and "rec_shape r"
  shows "mt_inv (snd (insertToMemtable r m))"
proof -
  let ?al = "mt_records (snd (insertToMemtable r m))"
  have dist: "distinct (map fst ?al)"
    using assms(1) by (simp add: mt_inv_def insertToMemtable_def Let_def distinct_update)
  have "\<forall>(k, x) \<in> set ?al. rec_Key x = k \<and> rec_shape x"
  proof safe
    fix k x assume "(k, x) \<in> set ?al"
    then have "mt_map (snd (insertToMemtable r m)) k = Some x"
      using dist by (simp add: mt_map_def)
    then have "k = rec_Key r \<and> x = r \<or> mt_map m k = Some x"
      by (auto split: if_splits)
    then have "rec_Key x = k \<and> rec_shape x"
      using assms by (auto dest: mt_map_SomeD)
    then show "rec_Key x = k" and "rec_shape x" by simp_all
  qed
  with dist show ?thesis
    using insertToMemtable_size [OF assms(1)] by (simp add: mt_inv_def)
qed

section \<open>The interface of the memtable\<close>

text \<open>
  A table of records: \<open>app\<close> enters a record, \<open>look\<close> finds the newest record of a key, \<open>export\<close>
  lists the newest records in key order.
\<close>

locale mem_table =
  fixes emp :: 't
    and app :: "Record \<Rightarrow> 't \<Rightarrow> 't"
    and look :: "'t \<Rightarrow> bytes \<rightharpoonup> Record"
    and export :: "'t \<Rightarrow> Record list"
    and inv :: "'t \<Rightarrow> bool"
    and fits :: "Record \<Rightarrow> bool"
  assumes inv_emp: "inv emp"
    and look_emp: "look emp = Map.empty"
    and inv_app: "inv t \<Longrightarrow> fits r \<Longrightarrow> inv (app r t)"
    and look_app: "inv t \<Longrightarrow> fits r \<Longrightarrow> look (app r t) = (look t)(rec_Key r \<mapsto> r)"
    and export_sorted: "inv t \<Longrightarrow> sorted_wrt (<) (map rec_Key (export t))"
    and export_look: "inv t \<Longrightarrow> newest (export t) = look t"
begin

lemma replay_inv: "inv t \<Longrightarrow> \<forall>r \<in> set rs. fits r \<Longrightarrow> inv (fold app rs t)"
  by (induction rs arbitrary: t) (auto simp: inv_app)

lemma replay_look:
  "inv t \<Longrightarrow> \<forall>r \<in> set rs. fits r \<Longrightarrow> look (fold app rs t) = look t ++ newest rs"
proof (induction rs arbitrary: t)
  case (Cons r rs)
  have "newest (r # rs) = newest [r] ++ newest rs"
    using newest_append [of "[r]" rs] by simp
  moreover have "newest [r] = [rec_Key r \<mapsto> r]" by (simp add: newest_def)
  ultimately show ?case using Cons by (simp add: inv_app look_app)
qed simp

lemma replay_empty: "\<forall>r \<in> set rs. fits r \<Longrightarrow> look (fold app rs emp) = newest rs"
  using replay_look [OF inv_emp] by (simp add: look_emp)

lemma export_set: "inv t \<Longrightarrow> r \<in> set (export t) \<longleftrightarrow> look t (rec_Key r) = Some r"
  using newest_distinct_iff [of "export t" "rec_Key r" r] export_sorted [of t] export_look [of t]
  by (simp add: strict_sorted_iff)

lemma export_unique:
  assumes "inv t" and "inv t'" and "look t = look t'"
  shows "export t = export t'"
proof (rule map_sorted_distinct_set_unique [where f = rec_Key])
  show "set (export t) = set (export t')"
    using assms by (auto simp: export_set)
  show "inj_on rec_Key (set (export t) \<union> set (export t'))"
    using assms by (auto simp: inj_on_def export_set)
qed (use export_sorted [OF assms(1)] export_sorted [OF assms(2)] in \<open>simp_all add: strict_sorted_iff\<close>)

lemma export_empty_iff: "inv t \<Longrightarrow> export t = [] \<longleftrightarrow> look t = Map.empty"
  using export_look [of t] newest_dom [of "export t"] by (metis dom_empty dom_eq_empty_conv image_is_empty set_empty)

end

lemma MemApply_snd:
  "rec_shape r \<Longrightarrow> MemApply r m = insertToMemtable r m"
  by (cases r) (auto simp: MemApply_def MemPut_def MemDelete_def rec_shape_def
      generateOneRecordByCopy_def TypePut_def TypeDelete_def)

lemma sorted_records_keys: "mt_inv m \<Longrightarrow> map rec_Key (sorted_records m) = sort (map fst (mt_records m))"
  by (auto simp: sorted_records_def comp_def mt_inv_def intro!: map_idI split: option.splits
      dest: map_of_SomeD)

lemma sorted_records_set:
  assumes "mt_inv m"
  shows "set (sorted_records m) = snd ` set (mt_records m)"
proof -
  have "distinct (map fst (mt_records m))" using assms by (simp add: mt_inv_def)
  then have "map_of (mt_records m) (fst kr) = Some (snd kr)" if "kr \<in> set (mt_records m)" for kr
    using that by simp
  then show ?thesis
    by (auto simp: sorted_records_def image_image intro!: image_cong)
qed

lemma sorted_records_newest:
  assumes "mt_inv m"
  shows "newest (sorted_records m) = mt_map m"
proof
  fix k
  have d: "distinct (map fst (mt_records m))" using assms by (simp add: mt_inv_def)
  then have "distinct (map rec_Key (sorted_records m))"
    using assms by (simp add: sorted_records_keys)
  then have "newest (sorted_records m) k = Some r \<longleftrightarrow> mt_map m k = Some r" for r
    using assms d
    by (auto simp: newest_distinct_iff sorted_records_set mt_map_def mt_inv_def) force+
  then show "newest (sorted_records m) k = mt_map m k"
    by (metis option.exhaust)
qed

interpretation memtab: mem_table NewMemTable "\<lambda>r m. snd (MemApply r m)" mt_map sorted_records
  mt_inv rec_shape
proof
  fix m r
  show "mt_inv m \<Longrightarrow> rec_shape r \<Longrightarrow> mt_inv (snd (MemApply r m))"
    by (simp add: MemApply_snd insertToMemtable_inv)
  show "mt_inv m \<Longrightarrow> rec_shape r \<Longrightarrow> mt_map (snd (MemApply r m)) = (mt_map m)(rec_Key r \<mapsto> r)"
    by (simp add: MemApply_snd)
  show "mt_inv m \<Longrightarrow> sorted_wrt (<) (map rec_Key (sorted_records m))"
    by (simp add: sorted_records_keys sort_distinct_strict mt_inv_def)
  show "mt_inv m \<Longrightarrow> newest (sorted_records m) = mt_map m"
    by (rule sorted_records_newest)
qed simp_all

section \<open>Properties\<close>

text \<open>
  The memtable is the map of newest records.  After any sequence of writes, entered through the
  callback of the log replay, \<open>Get\<close> returns the newest record of a key and reports whether there is
  one, \<open>ForEachRecord\<close> visits exactly those records in strictly increasing key order, and \<open>Size\<close>
  is the sum of their sizes modulo \<open>2^64\<close>.
\<close>

lemma memtable_newest_records:
  assumes "\<forall>r \<in> set rs. CheckEncodePara r = None"
  shows "\<exists>m. visit MemApply rs NewMemTable = (None, m)
    \<and> (\<forall>k. MemGet k m = (case newest rs k of None \<Rightarrow> (\<lparr>rec_Type = 0, rec_Key = [], rec_Value = []\<rparr>, False)
          | Some r \<Rightarrow> (r, True)))
    \<and> (\<exists>out. MemForEachRecord (Some (\<lambda>r acc. (None, acc @ [r]))) m [] = (None, out)
          \<and> sorted_wrt (<) (map rec_Key out) \<and> set out = ran (newest rs)
          \<and> MemSize m = word_of_nat (\<Sum>r \<leftarrow> out. record_size r))"
proof -
  have shape: "\<forall>r \<in> set rs. rec_shape r" using assms rec_ok_shape by blast
  define m where "m = fold (\<lambda>r m. snd (MemApply r m)) rs NewMemTable"
  have "visit MemApply rs m0 = (None, fold (\<lambda>r m. snd (MemApply r m)) rs m0)" for m0
    using shape by (induction rs arbitrary: m0) (auto simp: MemApply_snd prod_eq_iff split: prod.splits option.splits)
  then have run: "visit MemApply rs NewMemTable = (None, m)" by (simp add: m_def)
  have inv: "mt_inv m" and map: "mt_map m = newest rs"
    unfolding m_def using memtab.replay_inv [OF memtab.inv_emp shape] memtab.replay_empty [OF shape] by blast+
  let ?out = "sorted_records m"
  have srt: "sorted_wrt (<) (map rec_Key ?out)" using memtab.export_sorted [OF inv] .
  have ran: "set ?out = ran (newest rs)"
  proof -
    have "r \<in> set ?out \<longleftrightarrow> newest rs (rec_Key r) = Some r" for r
      using memtab.export_set [OF inv] map by simp
    then show ?thesis using newest_key by (fastforce simp: ran_def)
  qed
  have "mset ?out = mset (map snd (mt_records m))"
  proof (rule set_eq_iff_mset_eq_distinct [THEN iffD1])
    have "distinct (map rec_Key ?out)" using srt by (simp add: strict_sorted_iff)
    then show "distinct ?out" by (simp add: distinct_map)
    have "\<forall>kr \<in> set (mt_records m). rec_Key (snd kr) = fst kr" using inv by (auto simp: mt_inv_def)
    then have "map rec_Key (map snd (mt_records m)) = map fst (mt_records m)" by simp
    moreover have "distinct (map fst (mt_records m))" using inv by (simp add: mt_inv_def)
    ultimately have "distinct (map rec_Key (map snd (mt_records m)))" by (simp only:)
    then show "distinct (map snd (mt_records m))" by (simp only: distinct_map)
    show "set ?out = set (map snd (mt_records m))" using sorted_records_set [OF inv] by simp
  qed
  then have "mset (map record_size ?out) = mset (map record_size (map snd (mt_records m)))"
    unfolding mset_map by simp
  then have "sum_mset (mset (map record_size ?out)) = sum_mset (mset (map record_size (map snd (mt_records m))))"
    by (simp only:)
  then have "(\<Sum>r \<leftarrow> ?out. record_size r) = mt_total m"
    unfolding sum_mset_sum_list by (simp add: mt_total_def comp_def)
  then have "MemSize m = word_of_nat (\<Sum>r \<leftarrow> ?out. record_size r)"
    using inv by (simp add: MemSize_def mt_inv_def)
  moreover have "MemGet k m = (case newest rs k of None \<Rightarrow> (\<lparr>rec_Type = 0, rec_Key = [], rec_Value = []\<rparr>, False)
      | Some r \<Rightarrow> (r, True))" for k
    using map by (simp add: MemGet_def mt_map_def split: option.splits)
  ultimately show ?thesis using run srt ran
    by (intro exI [of _ m]) (simp add: MemForEachRecord_def visit_collect)
qed

lemma memtable_newest_records_witness:
  "\<exists>m. visit MemApply [\<lparr>rec_Type = 1, rec_Key = [7], rec_Value = [1]\<rparr>, \<lparr>rec_Type = 2, rec_Key = [7], rec_Value = []\<rparr>]
      NewMemTable = (None, m)
    \<and> MemGet [7] m = (\<lparr>rec_Type = 2, rec_Key = [7], rec_Value = []\<rparr>, True)"
proof -
  have "\<forall>r \<in> set [\<lparr>rec_Type = 1, rec_Key = [7], rec_Value = [1]\<rparr>, \<lparr>rec_Type = 2, rec_Key = [7], rec_Value = []\<rparr>].
      CheckEncodePara r = None"
    by (simp add: CheckEncodePara_def TypePut_def TypeDelete_def MaxUint32_def)
  from memtable_newest_records [OF this] show ?thesis
    by (auto simp: newest_def)
qed

end
