(* ===== verification/KV_Wal.thy ===== *)
theory KV_Wal
  imports KV_Memtable
begin

text \<open>
  The write-ahead log (\<open>internal/engine/wal/wal.go\<close>).  A log is a handle with a closed flag (the
  handle is nil in Go exactly when the flag is set); its mutex makes every operation atomic, so an
  operation is one step here.
\<close>

section \<open>Operations\<close>

record WAL =
  wal_path :: path
  wal_file :: os_file
  wal_isClosed :: bool

definition WalOpen :: "path \<Rightarrow> world \<Rightarrow> (err + WAL) \<times> world" where
  "WalOpen p w =
     (case OpenFileWithFlagMode p True False w of
        (Inl e, w1) \<Rightarrow> (Inl e, w1)
      | (Inr f, w1) \<Rightarrow> (Inr \<lparr>wal_path = p, wal_file = f, wal_isClosed = False\<rparr>, w1))"

text \<open>
  The tail of \<open>Append\<close>, which the log and the table writer share: encode, write, sync.
\<close>

definition append_record :: "os_file \<Rightarrow> Record \<Rightarrow> world \<Rightarrow> err option \<times> world" where
  "append_record f rc w =
     (case Encode rc of
        Inl e \<Rightarrow> (Some e, w)
      | Inr data \<Rightarrow>
          (case os_write f data w of
             (n, Some e, w1) \<Rightarrow> (Some e, w1)
           | (n, None, w1) \<Rightarrow>
               if n \<noteq> length data then (Some ErrShortWrite, w1) else os_sync f w1))"

definition WalAppend :: "Record \<Rightarrow> WAL \<Rightarrow> world \<Rightarrow> err option \<times> world" where
  "WalAppend rc wal w =
     (if wal_isClosed wal then (Some ErrFileClosed, w)
      else append_record (wal_file wal) rc w)"

abbreviation zeroRecord :: Record where
  "zeroRecord \<equiv> \<lparr>rec_Type = 0, rec_Key = [], rec_Value = []\<rparr>"

text \<open>
  The loop of \<open>Replay\<close>.  An error of \<open>Decode\<close> that no branch names would reach the callback with
  the zero record; \<open>Decode\<close> returns no such error, which is why the loop ends.
\<close>

function replay_loop ::
  "'s callback \<Rightarrow> os_file \<Rightarrow> world \<Rightarrow> 's \<Rightarrow> err option \<times> 's \<times> os_file \<times> world" where
  "replay_loop fn f w s =
     (case DecodeFile f w of
        (Inl e, f1, w1) \<Rightarrow>
          if e = EOF then (None, s, f1, w1)
          else if e = ErrIncompleteRecord then (None, s, f1, w1)
          else if e = ErrInvalidType \<or> e = ErrEmptyKey then (Some e, s, f1, w1)
          else
            (case fn zeroRecord s of
               (Some e2, s1) \<Rightarrow> (Some e2, s1, f1, w1)
             | (None, s1) \<Rightarrow> replay_loop fn f1 w1 s1)
      | (Inr rc, f1, w1) \<Rightarrow>
          (case fn rc s of
             (Some e2, s1) \<Rightarrow> (Some e2, s1, f1, w1)
           | (None, s1) \<Rightarrow> replay_loop fn f1 w1 s1))"
  by pat_completeness auto
termination
  by (relation "measure (\<lambda>(fn, f, w, s). length (file_data w (f_path f)) - f_pos f)")
    (auto dest!: DecodeFile_decreases DecodeFile_Inl simp: eq_commute [of _ "DecodeFile _ _"])

declare replay_loop.simps [simp del]

definition WalReplay ::
  "'s callback option \<Rightarrow> WAL \<Rightarrow> world \<Rightarrow> 's \<Rightarrow> err option \<times> 's \<times> WAL \<times> world" where
  "WalReplay fn wal w s =
     (case fn of
        None \<Rightarrow> (Some ErrNilCallBack, s, wal, w)
      | Some f \<Rightarrow>
          if wal_isClosed wal then (Some ErrFileClosed, s, wal, w)
          else
            (case os_seek_start (wal_file wal) w of
               (Some e, f1, w1) \<Rightarrow> (Some e, s, wal\<lparr>wal_file := f1\<rparr>, w1)
             | (None, f1, w1) \<Rightarrow>
                 (case replay_loop f f1 w1 s of
                    (r, s1, f2, w2) \<Rightarrow>
                      (case os_seek_end f2 w2 of
                         (ign, f3, w3) \<Rightarrow> (r, s1, wal\<lparr>wal_file := f3\<rparr>, w3)))))"

definition WalReset :: "WAL \<Rightarrow> world \<Rightarrow> err option \<times> WAL \<times> world" where
  "WalReset wal w =
     (if wal_isClosed wal then (Some ErrFileClosed, wal, w)
      else
        (case os_truncate (wal_file wal) w of
           (Some e, w1) \<Rightarrow> (Some e, wal, w1)
         | (None, w1) \<Rightarrow>
             (case os_seek_start (wal_file wal) w1 of
                (Some e, f1, w2) \<Rightarrow> (Some e, wal, w2)
              | (None, f1, w2) \<Rightarrow>
                  (case os_sync f1 w2 of
                     (r, w3) \<Rightarrow> (r, wal\<lparr>wal_file := f1\<rparr>, w3)))))"

definition WalClose :: "WAL \<Rightarrow> world \<Rightarrow> err option \<times> WAL \<times> world" where
  "WalClose wal w =
     (if wal_isClosed wal then (None, wal, w)
      else
        (case os_close (wal_file wal) w of
           (r, w1) \<Rightarrow> (r, wal\<lparr>wal_isClosed := True\<rparr>, w1)))"

section \<open>Appending\<close>

lemma append_record_calm [os_simps]:
  "calm w \<Longrightarrow> rec_ok rc \<Longrightarrow>
     append_record f rc w = (None, append_file (f_path f) (frame rc) w)"
  by (simp add: append_record_def Encode_frame os_simps)

lemma append_record_bad [os_simps]:
  "CheckEncodePara rc = Some e \<Longrightarrow> append_record f rc w = (Some e, w)"
  by (simp add: append_record_def Encode_def)

text \<open>
  Whatever fails, an append leaves a prefix of the record's bytes at the end of its file, all of
  them when it reports success.
\<close>

lemma append_record_prefix:
  assumes "append_record f rc w = (r, w')"
  shows "\<exists>n \<le> length (frame rc).
    file_at w' = file_at (append_file (f_path f) (take n (frame rc)) w)
    \<and> (r = None \<longrightarrow> rec_ok rc \<and> n = length (frame rc))
    \<and> (\<not> rec_ok rc \<longrightarrow> n = 0)"
proof (cases "Encode rc")
  case (Inl e)
  then have "\<not> rec_ok rc" by (auto simp: Encode_Inl_iff)
  moreover have "file_at w' = file_at (append_file (f_path f) (take 0 (frame rc)) w)"
    using assms Inl by (auto simp: append_record_def fun_eq_iff option.map_ident)
  moreover have "r \<noteq> None" using assms Inl by (auto simp: append_record_def)
  ultimately show ?thesis by blast
next
  case (Inr data)
  then have data: "data = frame rc" and ok: "rec_ok rc" by (auto simp: Encode_Inr_iff)
  obtain flt w1 where tf: "take_fault w = (flt, w1)" by (cases "take_fault w")
  have w1: "file_at w1 = file_at w" using tf by (rule take_fault_disk)
  have app: "file_at (append_file p d w1) = file_at (append_file p d w)" for p d
    by (auto simp: fun_eq_iff w1)
  show ?thesis
  proof (cases flt)
    case Okay
    then have "(r, w') = os_sync f (append_file (f_path f) (frame rc) w1)"
      using assms tf by (simp add: append_record_def Inr data os_write_def)
    then have "file_at w' = file_at (append_file (f_path f) (frame rc) w1)"
      by (metis os_sync_def os_guard_files)
    then show ?thesis using ok app by (auto intro!: exI [of _ "length (frame rc)"])
  next
    case (Fail n e)
    then have "r = Some e" "w' = append_file (f_path f) (take n (frame rc)) w1"
      using assms tf by (simp_all add: append_record_def Inr data os_write_def)
    then show ?thesis using ok app
      by (intro exI [of _ "min n (length (frame rc))"]) (auto simp: min_def)
  qed
qed

section \<open>Replaying\<close>

text \<open>
  Replay visits the records a scan of the file finds and reports the scan's error, unless that is
  the end of the file or a torn record.
\<close>

definition replay_error :: "err \<Rightarrow> err option" where
  "replay_error e = (if e = EOF \<or> e = ErrIncompleteRecord then None else Some e)"

lemma scan_Inl: "Decode bs = (Inl e, rest) \<Longrightarrow> scan Decode bs = ([], e)"
  by (subst scan.simps) simp

lemma scan_Inr:
  "Decode bs = (Inr r, rest) \<Longrightarrow> scan Decode bs = (r # fst (scan Decode rest), snd (scan Decode rest))"
  by (subst scan.simps) (simp add: Decode_progress split: prod.splits)

lemma replay_loop_scan:
  assumes "calm w" and "file_at w (f_path f) = Some c" and "drop (f_pos f) c = d"
  shows "\<exists>f'. f_path f' = f_path f \<and>
    replay_loop fn f w s =
      (case visit fn (fst (scan Decode d)) s of
         (Some e, s1) \<Rightarrow> (Some e, s1, f', w)
       | (None, s1) \<Rightarrow> (replay_error (snd (scan Decode d)), s1, f', w))"
  using assms(2,3)
proof (induction "length d" arbitrary: f d s rule: less_induct)
  case less
  obtain x rest where d: "Decode d = (x, rest)" by (cases "Decode d")
  let ?f1 = "f\<lparr>f_pos := f_pos f + (length d - length rest)\<rparr>"
  have df: "DecodeFile f w = (x, ?f1, w)"
    using DecodeFile_calm [OF assms(1), of f x rest] less.prems d by auto
  show ?case
  proof (cases x)
    case (Inl e)
    then have "e \<in> {EOF, ErrIncompleteRecord, ErrInvalidType, ErrEmptyKey}"
      using d by (auto dest: Decode_Inl)
    then show ?thesis using df d Inl
      by (subst replay_loop.simps)
        (auto simp: scan_Inl replay_error_def intro!: exI [of _ ?f1])
  next
    case (Inr r)
    obtain used where used: "d = used @ rest"
      using Decode_suffix [OF d] by blast
    have "drop (f_pos ?f1) c = drop (length d - length rest) (drop (f_pos f) c)"
      by (simp add: add.commute)
    also have "\<dots> = rest" unfolding less.prems(2) used by simp
    finally have rest: "drop (f_pos ?f1) c = rest" .
    obtain e s1 where v: "fn r s = (e, s1)" by (cases "fn r s")
    show ?thesis
    proof (cases e)
      case (Some e2)
      then show ?thesis using df d Inr v
        by (subst replay_loop.simps) (auto simp: scan_Inr intro!: exI [of _ ?f1])
    next
      case None
      have "length rest < length d" using d Inr Decode_progress by blast
      from less.hyps [OF this _ rest, of s1]
      moreover have "scan Decode d = (r # fst (scan Decode rest), snd (scan Decode rest))"
        using d Inr by (simp add: scan_Inr)
      ultimately show ?thesis using df Inr v None less.prems(1)
        unfolding \<open>scan Decode d = _\<close> fst_conv snd_conv
        by (subst replay_loop.simps) simp
    qed
  qed
qed

lemma WalReplay_scan:
  assumes "calm w" and "file_at w (f_path (wal_file wal)) = Some c" and "\<not> wal_isClosed wal"
  shows "\<exists>f'. f_path f' = f_path (wal_file wal) \<and>
    WalReplay (Some fn) wal w s =
      (case visit fn (fst (scan Decode c)) s of
         (Some e, s1) \<Rightarrow> (Some e, s1, wal\<lparr>wal_file := f'\<rparr>, w)
       | (None, s1) \<Rightarrow> (replay_error (snd (scan Decode c)), s1, wal\<lparr>wal_file := f'\<rparr>, w))"
proof -
  let ?f0 = "(wal_file wal)\<lparr>f_pos := 0\<rparr>"
  have "file_at w (f_path ?f0) = Some c" "drop (f_pos ?f0) c = c" using assms(2) by simp_all
  from replay_loop_scan [OF assms(1) this, of fn s]
  obtain f1 where "f_path f1 = f_path (wal_file wal)" and "replay_loop fn ?f0 w s =
      (case visit fn (fst (scan Decode c)) s of
         (Some e, s1) \<Rightarrow> (Some e, s1, f1, w)
       | (None, s1) \<Rightarrow> (replay_error (snd (scan Decode c)), s1, f1, w))"
    by auto
  then show ?thesis using assms
    by (auto simp: WalReplay_def os_simps split: prod.splits option.splits
        intro!: exI [of _ "f1\<lparr>f_pos := length c\<rparr>"])
qed

lemma WalReset_calm [os_simps]:
  assumes "calm w" and "file_at w (f_path (wal_file wal)) = Some c" and "\<not> wal_isClosed wal"
  shows "WalReset wal w =
    (None, wal\<lparr>wal_file := (wal_file wal)\<lparr>f_pos := 0\<rparr>\<rparr>, set_file (f_path (wal_file wal)) [] w)"
  using assms by (simp add: WalReset_def os_simps)

lemma WalClose_calm [os_simps]:
  "calm w \<Longrightarrow> \<not> wal_isClosed wal \<Longrightarrow> WalClose wal w = (None, wal\<lparr>wal_isClosed := True\<rparr>, w)"
  by (simp add: WalClose_def os_simps)

lemma WalAppend_calm [os_simps]:
  "calm w \<Longrightarrow> \<not> wal_isClosed wal \<Longrightarrow> rec_ok rc \<Longrightarrow>
     WalAppend rc wal w = (None, append_file (f_path (wal_file wal)) (frame rc) w)"
  by (simp add: WalAppend_def os_simps)

lemma WalOpen_calm [os_simps]:
  assumes "calm w" and "p \<noteq> []"
  shows "WalOpen p w =
    (Inr \<lparr>wal_path = p, wal_file = \<lparr>f_path = p, f_pos = 0\<rparr>, wal_isClosed = False\<rparr>,
     case file_at w p of None \<Rightarrow> set_file p [] w | Some c \<Rightarrow> w)"
  using assms
  by (simp add: WalOpen_def OpenFileWithFlagMode_def os_open_file_def os_simps split: option.splits)

section \<open>Properties\<close>

text \<open>
  An append is a prefix write.  Whatever system call fails, \<open>Append\<close> leaves at the end of the
  log file a prefix of the encoded record and touches no other file; when it reports success the
  whole record is there; a record that \<open>Encode\<close> refuses writes nothing.
\<close>

lemma WalAppend_prefix:
  assumes "WalAppend rc wal w = (r, w')"
  shows "\<exists>n. file_at w' = file_at (append_file (f_path (wal_file wal)) (take n (frame rc)) w)
    \<and> (case Encode rc of Inr bs \<Rightarrow> bs = frame rc | Inl e \<Rightarrow> n = 0 \<and> r \<noteq> None)
    \<and> (case r of None \<Rightarrow> \<not> wal_isClosed wal \<and> n = length (frame rc) | Some e \<Rightarrow> n \<le> length (frame rc))"
proof (cases "wal_isClosed wal")
  case True
  then have "r = Some ErrFileClosed" "w' = w" using assms by (simp_all add: WalAppend_def)
  moreover have "file_at w = file_at (append_file p [] w)" for p
    by (auto simp: fun_eq_iff option.map_ident)
  ultimately show ?thesis
    by (intro exI [of _ 0]) (auto simp: Encode_Inr_iff split: sum.splits)
next
  case False
  then have "append_record (wal_file wal) rc w = (r, w')" using assms by (simp add: WalAppend_def)
  from append_record_prefix [OF this] obtain n where
    "n \<le> length (frame rc)" "file_at w' = file_at (append_file (f_path (wal_file wal)) (take n (frame rc)) w)"
    "r = None \<longrightarrow> rec_ok rc \<and> n = length (frame rc)" "\<not> rec_ok rc \<longrightarrow> n = 0"
    by blast
  then show ?thesis using False
    by (intro exI [of _ n]) (auto simp: Encode_Inr_iff Encode_Inl_iff split: option.splits sum.splits)
qed

lemma WalAppend_prefix_witness:
  "\<exists>n. file_at (snd (WalAppend \<lparr>rec_Type = 1, rec_Key = [65], rec_Value = []\<rparr>
        \<lparr>wal_path = [''w''], wal_file = \<lparr>f_path = [''w''], f_pos = 0\<rparr>, wal_isClosed = False\<rparr>
        \<lparr>disk = [([''w''], [9])], faults = [Fail 3 ErrNotExist]\<rparr>)) [''w'']
      = Some ([9] @ take n (frame \<lparr>rec_Type = 1, rec_Key = [65], rec_Value = []\<rparr>))"
proof -
  let ?rc = "\<lparr>rec_Type = 1, rec_Key = [65], rec_Value = []\<rparr>"
  let ?wal = "\<lparr>wal_path = [''w''], wal_file = \<lparr>f_path = [''w''], f_pos = 0\<rparr>, wal_isClosed = False\<rparr>"
  let ?w = "\<lparr>disk = [([''w''], [9])], faults = [Fail 3 ErrNotExist]\<rparr>"
  have "WalAppend ?rc ?wal ?w = (fst (WalAppend ?rc ?wal ?w), snd (WalAppend ?rc ?wal ?w))" by simp
  from WalAppend_prefix [OF this] show ?thesis
    by (auto simp: file_at_def [of ?w])
qed

text \<open>
  C31: Replay of a log that ends in a torn record.  If the file holds complete records followed by
  any proper prefix of one more, \<open>Replay\<close> calls its callback on exactly the complete records, in
  order, reports no error of its own and changes no file.
\<close>

theorem WalReplay_torn_tail:
  assumes "faults w = []" and "\<not> wal_isClosed wal" and "\<forall>r \<in> set rs. CheckEncodePara r = None"
    and "CheckEncodePara r = None" and "n < length (frame r)"
    and "file_at w (f_path (wal_file wal)) = Some (frames rs @ take n (frame r))"
  shows "\<exists>wal'. WalReplay (Some fn) wal w s = (fst (visit fn rs s), snd (visit fn rs s), wal', w)"
proof -
  obtain e where sc: "scan Decode (frames rs @ take n (frame r)) = (rs, e)"
    and e: "e = EOF \<or> e = ErrIncompleteRecord"
    using codec.scan_torn [OF assms(3,4), of n] codec.scan_frames [OF assms(3)] assms(5)
    by (cases "n = 0") auto
  from WalReplay_scan [OF assms(1,6,2), of fn s] show ?thesis
    unfolding sc using e
    by (cases "visit fn rs s"; cases "fst (visit fn rs s)") (auto simp: replay_error_def)
qed

theorem WalReplay_torn_tail_witness:
  "\<exists>wal'. WalReplay (Some (\<lambda>r acc. (None, acc @ [r])))
      \<lparr>wal_path = [''w''], wal_file = \<lparr>f_path = [''w''], f_pos = 0\<rparr>, wal_isClosed = False\<rparr>
      \<lparr>disk = [([''w''], frame \<lparr>rec_Type = 1, rec_Key = [65], rec_Value = []\<rparr> @ [1, 0])], faults = []\<rparr> []
    = (None, [\<lparr>rec_Type = 1, rec_Key = [65], rec_Value = []\<rparr>], wal',
       \<lparr>disk = [([''w''], frame \<lparr>rec_Type = 1, rec_Key = [65], rec_Value = []\<rparr> @ [1, 0])], faults = []\<rparr>)"
proof -
  let ?r = "\<lparr>rec_Type = 1, rec_Key = [65], rec_Value = []\<rparr>"
  have ok: "CheckEncodePara ?r = None"
    by (simp add: CheckEncodePara_def TypePut_def TypeDelete_def MaxUint32_def)
  have "take 2 (frame ?r) = [1, 0]" "2 < length (frame ?r)"
    by (simp_all add: frame_def PutUint32_def record_consts)
  then show ?thesis
    using WalReplay_torn_tail [of "\<lparr>disk = [([''w''], frame ?r @ [1, 0])], faults = []\<rparr>"
        "\<lparr>wal_path = [''w''], wal_file = \<lparr>f_path = [''w''], f_pos = 0\<rparr>, wal_isClosed = False\<rparr>"
        "[?r]" ?r 2 "\<lambda>r acc. (None, acc @ [r])" "[]"] ok
    by (simp add: file_at_def)
qed

text \<open>
  C35: A torn record swallows later ones.  \<open>Replay\<close> accepts a log with a torn tail but leaves the tail
  in place, and \<open>Append\<close> writes behind it: a record that \<open>Append\<close> reports as written and synced is
  not replayed after the next restart when the torn record still misses more bytes than were
  appended.
\<close>

theorem append_after_torn_tail_is_lost:
  assumes "faults w = []" and "\<not> wal_isClosed wal" and "\<forall>r \<in> set rs. CheckEncodePara r = None"
    and "CheckEncodePara r = None" and "CheckEncodePara r2 = None"
    and "RecordHeaderSize \<le> n" and "n + length (frame r2) < length (frame r)"
    and "file_at w (f_path (wal_file wal)) = Some (frames rs @ take n (frame r))"
  shows "\<exists>w2 wal'. WalAppend r2 wal w = (None, w2)
    \<and> WalReplay (Some fn) wal w2 s = (fst (visit fn rs s), snd (visit fn rs s), wal', w2)"
proof -
  let ?p = "f_path (wal_file wal)"
  let ?w2 = "append_file ?p (frame r2) w"
  have "Decode (take n (frame r) @ frame r2) = (Inl ErrIncompleteRecord, [])"
    using Decode_torn_swallows [OF assms(4,6,7)] .
  then have sc: "scan Decode (frames rs @ take n (frame r) @ frame r2) = (rs, ErrIncompleteRecord)"
    using codec.scan_append [OF assms(3)] by (simp add: scan_Inl)
  have "faults ?w2 = []" "file_at ?w2 ?p = Some (frames rs @ take n (frame r) @ frame r2)"
    using assms(1,8) by simp_all
  from WalReplay_scan [OF this assms(2), of fn s]
  have "\<exists>wal'. WalReplay (Some fn) wal ?w2 s = (fst (visit fn rs s), snd (visit fn rs s), wal', ?w2)"
    unfolding sc by (cases "visit fn rs s"; cases "fst (visit fn rs s)") (auto simp: replay_error_def)
  then show ?thesis using WalAppend_calm [OF assms(1,2,5)] by blast
qed

theorem append_after_torn_tail_is_lost_witness:
  "\<exists>w2 wal'. WalAppend \<lparr>rec_Type = 1, rec_Key = [66], rec_Value = []\<rparr>
      \<lparr>wal_path = [''w''], wal_file = \<lparr>f_path = [''w''], f_pos = 0\<rparr>, wal_isClosed = False\<rparr>
      \<lparr>disk = [([''w''], [1, 0, 0, 0, 1, 0, 0, 0, 20, 65])], faults = []\<rparr> = (None, w2)
    \<and> WalReplay (Some (\<lambda>r acc. (None, acc @ [r])))
        \<lparr>wal_path = [''w''], wal_file = \<lparr>f_path = [''w''], f_pos = 0\<rparr>, wal_isClosed = False\<rparr> w2 []
      = (None, [], wal', w2)"
proof -
  let ?r = "\<lparr>rec_Type = 1, rec_Key = [65], rec_Value = replicate 20 0\<rparr>"
  let ?r2 = "\<lparr>rec_Type = 1, rec_Key = [66], rec_Value = []\<rparr>"
  have ok: "CheckEncodePara ?r = None" "CheckEncodePara ?r2 = None"
    by (simp_all add: CheckEncodePara_def TypePut_def TypeDelete_def MaxUint32_def)
  have "take 10 (frame ?r) = [1, 0, 0, 0, 1, 0, 0, 0, 20, 65]"
    by (simp add: frame_def PutUint32_def)
  then show ?thesis
    using append_after_torn_tail_is_lost [of "\<lparr>disk = [([''w''], [1, 0, 0, 0, 1, 0, 0, 0, 20, 65])], faults = []\<rparr>"
        "\<lparr>wal_path = [''w''], wal_file = \<lparr>f_path = [''w''], f_pos = 0\<rparr>, wal_isClosed = False\<rparr>"
        "[]" ?r ?r2 10 "\<lambda>r acc. (None, acc @ [r])" "[]"] ok
    by (simp add: file_at_def record_consts)
qed

end
