(* ===== verification/KV_Sstable.thy ===== *)
theory KV_Sstable
  imports KV_Wal
begin

text \<open>
  Sorted tables (\<open>internal/engine/sstable/sstable.go\<close>): the writer, the table with its in-memory
  index of file offsets, and the iterator.  As for the log, a handle is nil in Go exactly when the
  closed flag is set.  Offsets and sizes are natural numbers: they are lengths of files, far below
  the range of \<open>int64\<close>.  The methods of \<open>Iterator\<close> are modelled for a receiver that is not nil.
\<close>

section \<open>Writer\<close>

record SSTableWriter =
  sw_file :: os_file
  sw_closed :: bool

definition CreateSSTableWriter :: "path \<Rightarrow> world \<Rightarrow> (err + SSTableWriter) \<times> world" where
  "CreateSSTableWriter p w =
     (case OpenFileWithFlagMode p True True w of
        (Inl e, w1) \<Rightarrow> (Inl e, w1)
      | (Inr f, w1) \<Rightarrow> (Inr \<lparr>sw_file = f, sw_closed = False\<rparr>, w1))"

definition WriterAppend :: "SSTableWriter \<Rightarrow> Record \<Rightarrow> world \<Rightarrow> err option \<times> world" where
  "WriterAppend sw rc w =
     (if sw_closed sw then (Some ErrFileClosed, w)
      else append_record (sw_file sw) rc w)"

definition WriterClose :: "SSTableWriter \<Rightarrow> world \<Rightarrow> err option \<times> SSTableWriter \<times> world" where
  "WriterClose sw w =
     (if sw_closed sw then (None, sw, w)
      else
        (case os_close (sw_file sw) w of
           (r, w1) \<Rightarrow> (r, sw\<lparr>sw_closed := True\<rparr>, w1)))"

section \<open>Table\<close>

record SSTable =
  sst_id :: int
  sst_path :: path
  sst_file :: os_file
  sst_size :: nat
  sst_index :: "(bytes \<times> nat) list"
  sst_closed :: bool

text \<open>
  The scan of \<open>Open\<close>: it enters the offset of every record, a later record of the same key
  replaces an earlier one.  As in \<open>Replay\<close>, an error \<open>Decode\<close> cannot return would index the zero
  record.
\<close>

function index_loop ::
  "os_file \<Rightarrow> world \<Rightarrow> (bytes \<times> nat) list \<Rightarrow> nat \<Rightarrow> (err + (bytes \<times> nat) list) \<times> os_file \<times> world"
where
  "index_loop f w index offset =
     (case DecodeFile f w of
        (Inl e, f1, w1) \<Rightarrow>
          if e = EOF then (Inr index, f1, w1)
          else if e = ErrIncompleteRecord then (Inl e, f1, w1)
          else if e = ErrInvalidType \<or> e = ErrEmptyKey then (Inl e, f1, w1)
          else index_loop f1 w1 (AList.update (rec_Key zeroRecord) offset index)
                 (offset + RecordHeaderSize)
      | (Inr rc, f1, w1) \<Rightarrow>
          index_loop f1 w1 (AList.update (rec_Key rc) offset index)
            (offset + (RecordHeaderSize + length (rec_Key rc) + length (rec_Value rc))))"
  by pat_completeness auto
termination
  by (relation "measure (\<lambda>(f, w, index, offset). length (file_data w (f_path f)) - f_pos f)")
    (auto dest!: DecodeFile_decreases DecodeFile_Inl simp: eq_commute [of _ "DecodeFile _ _"])

declare index_loop.simps [simp del]

definition SstOpen :: "int \<Rightarrow> path \<Rightarrow> world \<Rightarrow> (err + SSTable) \<times> world" where
  "SstOpen tid p w =
     (if p = [] then (Inl ErrInvalidPara, w)
      else
        (case os_open_file p False False w of
           (Inl e, w1) \<Rightarrow> (Inl e, w1)
         | (Inr f, w1) \<Rightarrow>
             (case os_stat_size f w1 of
                (Inl e, w2) \<Rightarrow> (case os_close f w2 of (ign, w3) \<Rightarrow> (Inl e, w3))
              | (Inr sz, w2) \<Rightarrow>
                  (case index_loop f w2 [] 0 of
                     (Inl e, f1, w3) \<Rightarrow> (case os_close f1 w3 of (ign, w4) \<Rightarrow> (Inl e, w4))
                   | (Inr index, f1, w3) \<Rightarrow>
                       (Inr \<lparr>sst_id = tid, sst_path = p, sst_file = f1, sst_size = sz,
                             sst_index = index, sst_closed = False\<rparr>, w3)))))"

text \<open>
  \<open>Get\<close> reads through an \<open>io.SectionReader\<close> of the file from the record's offset to the size
  recorded at \<open>Open\<close>.
\<close>

definition SstGet :: "bytes \<Rightarrow> SSTable \<Rightarrow> world \<Rightarrow> (err + Record \<times> bool) \<times> world" where
  "SstGet key s w =
     (if sst_closed s then (Inl ErrFileClosed, w)
      else if length key = 0 then (Inl ErrInvalidPara, w)
      else
        (case map_of (sst_index s) key of
           None \<Rightarrow> (Inr (zeroRecord, False), w)
         | Some offset \<Rightarrow>
             (case take_fault w of
                (flt, w1) \<Rightarrow>
                  let avail = take (sst_size s - offset)
                        (drop offset (file_data w1 (f_path (sst_file s))));
                      r = (case flt of Okay \<Rightarrow> avail | Fail n e \<Rightarrow> take n avail)
                  in (case Decode r of
                        (Inl e, rest) \<Rightarrow> (Inl e, w1)
                      | (Inr rc, rest) \<Rightarrow> (Inr (rc, True), w1)))))"

fun sst_visit :: "'s callback \<Rightarrow> SSTable \<Rightarrow> bytes list \<Rightarrow> 's \<Rightarrow> world \<Rightarrow> err option \<times> 's \<times> world"
where
  "sst_visit fn s [] st w = (None, st, w)"
| "sst_visit fn s (key # keys) st w =
     (case SstGet key s w of
        (Inl e, w1) \<Rightarrow> (Some e, st, w1)
      | (Inr (rc, found), w1) \<Rightarrow>
          (case fn rc st of
             (Some e, st1) \<Rightarrow> (Some e, st1, w1)
           | (None, st1) \<Rightarrow> sst_visit fn s keys st1 w1))"

definition SstForEachRecord ::
  "'s callback option \<Rightarrow> SSTable \<Rightarrow> 's \<Rightarrow> world \<Rightarrow> err option \<times> 's \<times> world" where
  "SstForEachRecord fn s st w =
     (case fn of
        None \<Rightarrow> (Some ErrNilCallBack, st, w)
      | Some f \<Rightarrow> sst_visit f s (sort (map fst (sst_index s))) st w)"

definition SstPath :: "SSTable \<Rightarrow> path" where
  "SstPath s = sst_path s"

definition SstClose :: "SSTable \<Rightarrow> world \<Rightarrow> err option \<times> SSTable \<times> world" where
  "SstClose s w =
     (if sst_closed s then (None, s, w)
      else
        (case os_close (sst_file s) w of
           (r, w1) \<Rightarrow> (r, s\<lparr>sst_id := 0, sst_path := [], sst_closed := True\<rparr>, w1)))"

section \<open>Iterator\<close>

record Iterator =
  it_file :: os_file
  it_cur :: Record
  it_valid :: bool
  it_err :: "err option"
  it_closed :: bool

definition IterValid :: "Iterator \<Rightarrow> bool" where
  "IterValid it \<longleftrightarrow> \<not> it_closed it \<and> it_err it = None \<and> it_valid it"

definition IterRecord :: "Iterator \<Rightarrow> Record" where
  "IterRecord it = it_cur it"

definition IterNext :: "Iterator \<Rightarrow> world \<Rightarrow> Iterator \<times> world" where
  "IterNext it w =
     (if it_closed it \<or> it_err it \<noteq> None then (it, w)
      else
        (case DecodeFile (it_file it) w of
           (Inl e, f1, w1) \<Rightarrow>
             if e = EOF then (it\<lparr>it_file := f1, it_valid := False\<rparr>, w1)
             else (it\<lparr>it_file := f1, it_err := Some e, it_valid := False\<rparr>, w1)
         | (Inr rc, f1, w1) \<Rightarrow> (it\<lparr>it_file := f1, it_cur := rc, it_valid := True\<rparr>, w1)))"

definition IterErr :: "Iterator \<Rightarrow> err option" where
  "IterErr it = it_err it"

definition IterClose :: "Iterator \<Rightarrow> world \<Rightarrow> err option \<times> Iterator \<times> world" where
  "IterClose it w =
     (if it_closed it then (None, it, w)
      else
        (case os_close (it_file it) w of
           (r, w1) \<Rightarrow> (r, it\<lparr>it_valid := False, it_closed := True\<rparr>, w1)))"

definition SstNewIterator :: "SSTable \<Rightarrow> world \<Rightarrow> (err + Iterator) \<times> world" where
  "SstNewIterator s w =
     (if sst_closed s then (Inl ErrFileClosed, w)
      else
        (case os_open_file (sst_path s) False False w of
           (Inl e, w1) \<Rightarrow> (Inl e, w1)
         | (Inr f, w1) \<Rightarrow>
             (case IterNext \<lparr>it_file = f, it_cur = zeroRecord, it_valid = False, it_err = None,
                            it_closed = False\<rparr> w1 of
                (it, w2) \<Rightarrow> (Inr it, w2))))"

section \<open>The offsets of a file\<close>

text \<open>Key and offset of every record of a file, in file order, the first at \<open>off\<close>.\<close>

fun offsets :: "nat \<Rightarrow> Record list \<Rightarrow> (bytes \<times> nat) list" where
  "offsets off [] = []"
| "offsets off (r # rs) = (rec_Key r, off) # offsets (off + length (frame r)) rs"

lemma offsets_snoc:
  "offsets off (rs @ [r]) = offsets off rs @ [(rec_Key r, off + length (frames rs))]"
  by (induction rs arbitrary: off) auto

definition enter_offsets :: "(bytes \<times> nat) list \<Rightarrow> (bytes \<times> nat) list \<Rightarrow> (bytes \<times> nat) list" where
  "enter_offsets os index = fold (\<lambda>(k, off). AList.update k off) os index"

lemma enter_offsets_map: "map_of (enter_offsets os index) = map_of index ++ map_of (rev os)"
  by (induction os arbitrary: index) (auto simp: enter_offsets_def map_add_upd_left)

text \<open>The index finds the newest record of a key.\<close>

lemma offsets_newest:
  "(case map_of (rev (offsets 0 rs)) k of
      None \<Rightarrow> newest rs k = None
    | Some off \<Rightarrow> \<exists>i < length rs. off = length (frames (take i rs)) \<and> newest rs k = Some (rs ! i))"
proof (induction rs rule: rev_induct)
  case (snoc r rs)
  show ?case
  proof (cases "rec_Key r = k")
    case True
    then show ?thesis by (auto simp: offsets_snoc intro!: exI [of _ "length rs"])
  next
    case False
    with snoc show ?thesis
      by (force simp: offsets_snoc nth_append split: option.splits)
  qed
qed simp

lemma index_loop_scan:
  assumes "calm w" and "file_at w (f_path f) = Some c" and "drop (f_pos f) c = d"
  shows "\<exists>f'. f_path f' = f_path f \<and>
    index_loop f w index off =
      (if snd (scan Decode d) = EOF
       then Inr (enter_offsets (offsets off (fst (scan Decode d))) index)
       else Inl (snd (scan Decode d)), f', w)"
  using assms(2,3)
proof (induction "length d" arbitrary: f d index off rule: less_induct)
  case less
  obtain x rest where d: "Decode d = (x, rest)" by (cases "Decode d")
  let ?f1 = "f\<lparr>f_pos := f_pos f + (length d - length rest)\<rparr>"
  have df: "DecodeFile f w = (x, ?f1, w)"
    using DecodeFile_calm [OF assms(1), of f x rest] less.prems d by auto
  show ?case
  proof (cases x)
    case (Inl e)
    then have "e \<in> {EOF, ErrIncompleteRecord, ErrInvalidType, ErrEmptyKey}"
      using d by (auto dest: Decode_Inl)
    then show ?thesis using df d Inl
      by (subst index_loop.simps)
        (auto simp: scan_Inl enter_offsets_def intro!: exI [of _ ?f1])
  next
    case (Inr r)
    obtain used where used: "d = used @ rest"
      using Decode_suffix [OF d] by blast
    have "drop (f_pos ?f1) c = drop (length d - length rest) (drop (f_pos f) c)"
      by (simp add: add.commute)
    also have "\<dots> = rest" unfolding less.prems(2) used by simp
    finally have rest: "drop (f_pos ?f1) c = rest" .
    have "length rest < length d" using d Inr Decode_progress by blast
    note ih = less.hyps [OF this _ rest, of "AList.update (rec_Key r) off index" "off + length (frame r)"]
    have sc: "scan Decode d = (r # fst (scan Decode rest), snd (scan Decode rest))"
      using d Inr by (simp add: scan_Inr)
    show ?thesis using ih df Inr less.prems(1)
      unfolding sc fst_conv snd_conv
      by (subst index_loop.simps)
        (cases "snd (scan Decode rest) = EOF"; simp add: enter_offsets_def add.assoc)
  qed
qed

section \<open>Tables on disk\<close>

text \<open>\<open>table_at w p rs\<close>: the file \<open>p\<close> holds the records \<open>rs\<close>, in the framing of \<open>Encode\<close>.\<close>

definition table_at :: "world \<Rightarrow> path \<Rightarrow> Record list \<Rightarrow> bool" where
  "table_at w p rs \<longleftrightarrow> file_at w p = Some (frames rs) \<and> recs_ok rs"

text \<open>An open table whose file holds \<open>rs\<close>.\<close>

definition sst_repr :: "SSTable \<Rightarrow> path \<Rightarrow> Record list \<Rightarrow> bool" where
  "sst_repr s p rs \<longleftrightarrow> \<not> sst_closed s \<and> sst_path s = p \<and> f_path (sst_file s) = p
     \<and> sst_size s = length (frames rs) \<and> map_of (sst_index s) = map_of (rev (offsets 0 rs))"

lemma table_at_cong: "file_at w' p = file_at w p \<Longrightarrow> table_at w' p rs = table_at w p rs"
  by (simp add: table_at_def)

lemma SstOpen_table [os_simps]:
  assumes "calm w" and "table_at w p rs" and "p \<noteq> []"
  shows "\<exists>s. SstOpen tid p w = (Inr s, w) \<and> sst_repr s p rs \<and> sst_id s = tid"
proof -
  have at: "file_at w p = Some (frames rs)" and ok: "recs_ok rs"
    using assms(2) by (simp_all add: table_at_def)
  obtain f' where "f_path f' = p" and "index_loop \<lparr>f_path = p, f_pos = 0\<rparr> w [] 0 =
      (Inr (enter_offsets (offsets 0 rs) []), f', w)"
    using index_loop_scan [OF assms(1), of "\<lparr>f_path = p, f_pos = 0\<rparr>" "frames rs" "frames rs" "[]" 0]
    by (auto simp: at codec.scan_frames [OF ok])
  then show ?thesis using assms at
    by (simp add: SstOpen_def os_simps sst_repr_def enter_offsets_map)
qed

lemma SstOpen_broken:
  assumes "calm w" and "file_at w p = Some c" and "p \<noteq> []" and "snd (scan Decode c) \<noteq> EOF"
  shows "SstOpen tid p w = (Inl (snd (scan Decode c)), w)"
proof -
  obtain f' where "index_loop \<lparr>f_path = p, f_pos = 0\<rparr> w [] 0 = (Inl (snd (scan Decode c)), f', w)"
    using index_loop_scan [OF assms(1), of "\<lparr>f_path = p, f_pos = 0\<rparr>" c c "[]" 0] assms(2,4) by auto
  then show ?thesis using assms by (simp add: SstOpen_def os_simps)
qed

lemma SstGet_table [os_simps]:
  assumes "calm w" and "table_at w p rs" and "sst_repr s p rs" and "k \<noteq> []"
  shows "SstGet k s w =
    (Inr (case newest rs k of None \<Rightarrow> (zeroRecord, False) | Some r \<Rightarrow> (r, True)), w)"
proof -
  have at: "file_at w p = Some (frames rs)" and ok: "recs_ok rs"
    using assms(2) by (simp_all add: table_at_def)
  show ?thesis
  proof (cases "map_of (rev (offsets 0 rs)) k")
    case None
    then have "newest rs k = None" using offsets_newest [of rs k] by simp
    then show ?thesis using assms(3,4) None by (simp add: SstGet_def sst_repr_def)
  next
    case (Some off)
    then obtain i where i: "i < length rs" "off = length (frames (take i rs))"
      "newest rs k = Some (rs ! i)"
      using offsets_newest [of rs k] by auto
    have "Decode (drop off (frames rs)) = (Inr (rs ! i), frames (drop (Suc i) rs))"
      using codec.dec_frames [OF ok i(1)] i(2) by simp
    moreover have "take (length (frames rs) - off) (drop off (frames rs)) = drop off (frames rs)"
      by simp
    ultimately show ?thesis using assms(1,3,4) Some at i(3)
      by (simp add: SstGet_def sst_repr_def os_simps)
  qed
qed

lemma SstClose_calm [os_simps]:
  "calm w \<Longrightarrow> \<not> sst_closed s \<Longrightarrow>
     SstClose s w = (None, s\<lparr>sst_id := 0, sst_path := [], sst_closed := True\<rparr>, w)"
  by (simp add: SstClose_def os_simps)

section \<open>Writing a table\<close>

lemma CreateSSTableWriter_calm [os_simps]:
  "calm w \<Longrightarrow> p \<noteq> [] \<Longrightarrow> CreateSSTableWriter p w =
     (Inr \<lparr>sw_file = \<lparr>f_path = p, f_pos = 0\<rparr>, sw_closed = False\<rparr>, set_file p [] w)"
  by (simp add: CreateSSTableWriter_def OpenFileWithFlagMode_def os_simps)

lemma WriterAppend_table [os_simps]:
  assumes "calm w" and "table_at w p rs" and "f_path (sw_file sw) = p" and "\<not> sw_closed sw"
    and "rec_ok r"
  shows "WriterAppend sw r w = (None, set_file p (frames (rs @ [r])) w)"
    and "table_at (set_file p (frames (rs @ [r])) w) p (rs @ [r])"
  using assms by (auto simp: WriterAppend_def os_simps append_file_def table_at_def)

lemma WriterClose_calm [os_simps]:
  "calm w \<Longrightarrow> \<not> sw_closed sw \<Longrightarrow> WriterClose sw w = (None, sw\<lparr>sw_closed := True\<rparr>, w)"
  by (simp add: WriterClose_def os_simps)

section \<open>Iterating over a table\<close>

text \<open>\<open>iter_at w p it rs\<close>: the iterator over the file \<open>p\<close> still has the records \<open>rs\<close> to deliver.\<close>

definition iter_at :: "world \<Rightarrow> path \<Rightarrow> Iterator \<Rightarrow> Record list \<Rightarrow> bool" where
  "iter_at w p it rs \<longleftrightarrow>
     f_path (it_file it) = p \<and> \<not> it_closed it \<and> it_err it = None \<and> recs_ok rs
     \<and> (\<exists>c. file_at w p = Some c \<and> drop (f_pos (it_file it)) c = frames (tl rs))
     \<and> it_valid it = (rs \<noteq> []) \<and> (rs \<noteq> [] \<longrightarrow> it_cur it = hd rs)"

lemma iter_at_cong: "file_at w' p = file_at w p \<Longrightarrow> iter_at w' p it rs = iter_at w p it rs"
  by (simp add: iter_at_def)

lemma iter_at_valid: "iter_at w p it rs \<Longrightarrow> IterValid it \<longleftrightarrow> rs \<noteq> []"
  by (auto simp: iter_at_def IterValid_def)

lemma iter_at_record: "iter_at w p it (r # rs) \<Longrightarrow> IterRecord it = r"
  by (auto simp: iter_at_def IterRecord_def)

lemma iter_at_err: "iter_at w p it rs \<Longrightarrow> IterErr it = None"
  by (auto simp: iter_at_def IterErr_def)

lemma IterNext_frames:
  assumes "calm w" and "\<not> it_closed it" and "it_err it = None" and "f_path (it_file it) = p"
    and "file_at w p = Some c" and "drop (f_pos (it_file it)) c = frames rs" and "recs_ok rs"
  shows "\<exists>it'. IterNext it w = (it', w) \<and> iter_at w p it' rs"
proof (cases rs)
  case Nil
  then have "Decode (drop (f_pos (it_file it)) (file_data w p)) = (Inl EOF, [])"
    using assms by (simp add: codec.dec_nil)
  then show ?thesis using assms Nil DecodeFile_calm [of w "it_file it" "Inl EOF" "[]"]
    by (auto simp: IterNext_def iter_at_def)
next
  case (Cons r rs')
  let ?f = "it_file it"
  have "Decode (drop (f_pos ?f) (file_data w p)) = (Inr r, frames rs')"
    using assms Cons by (simp add: Decode_frame)
  then have df: "DecodeFile ?f w =
      (Inr r, ?f\<lparr>f_pos := f_pos ?f + (length c - f_pos ?f - length (frames rs'))\<rparr>, w)"
    using assms DecodeFile_calm [of w ?f "Inr r" "frames rs'"] by auto
  have "length c - f_pos ?f = length (frame r) + length (frames rs')"
    using arg_cong [OF assms(6), of length] Cons by simp
  then have "drop (f_pos ?f + (length c - f_pos ?f - length (frames rs'))) c
      = drop (length (frame r)) (drop (f_pos ?f) c)"
    by (simp add: add.commute)
  also have "\<dots> = frames rs'" using assms(6) Cons by simp
  finally show ?thesis using assms Cons df
    by (auto simp: IterNext_def iter_at_def)
qed

lemma IterNext_at [os_simps]:
  assumes "calm w" and "iter_at w p it (r # rs)"
  shows "\<exists>it'. IterNext it w = (it', w) \<and> iter_at w p it' rs"
proof -
  obtain c where "file_at w p = Some c" and "drop (f_pos (it_file it)) c = frames rs"
    using assms(2) by (auto simp: iter_at_def)
  then show ?thesis
    by (rule IterNext_frames [OF assms(1), rotated 3])
      (use assms(2) in \<open>auto simp: iter_at_def\<close>)
qed

lemma SstNewIterator_table [os_simps]:
  assumes "calm w" and "table_at w p rs" and "sst_repr s p rs"
  shows "\<exists>it. SstNewIterator s w = (Inr it, w) \<and> iter_at w p it rs"
proof -
  let ?it = "\<lparr>it_file = \<lparr>f_path = p, f_pos = 0\<rparr>, it_cur = zeroRecord, it_valid = False,
    it_err = None, it_closed = False\<rparr>"
  have "\<exists>it'. IterNext ?it w = (it', w) \<and> iter_at w p it' rs"
    using assms by (intro IterNext_frames [where c = "frames rs"]) (auto simp: table_at_def)
  then show ?thesis using assms
    by (auto simp: SstNewIterator_def sst_repr_def table_at_def os_simps)
qed

lemma IterClose_calm [os_simps]: "calm w \<Longrightarrow> \<exists>it'. IterClose it w = (None, it', w)"
  by (simp add: IterClose_def os_simps)

section \<open>Properties\<close>

text \<open>
  Opening and searching a table.  A file of complete records opens, without touching any file,
  as a table in which \<open>Get\<close> finds the newest record of every key and reports a miss for every other
  key.
\<close>

lemma SstOpen_Get_newest:
  assumes "faults w = []" and "p \<noteq> []" and "\<forall>r \<in> set rs. CheckEncodePara r = None"
    and "file_at w p = Some (frames rs)"
  shows "\<exists>s. SstOpen tid p w = (Inr s, w) \<and> SstPath s = p
    \<and> (\<forall>k. SstGet k s w =
         (if k = [] then Inl ErrInvalidPara
          else Inr (case newest rs k of None \<Rightarrow> (zeroRecord, False) | Some r \<Rightarrow> (r, True)), w))"
proof -
  have t: "table_at w p rs" using assms by (simp add: table_at_def)
  obtain s where s: "SstOpen tid p w = (Inr s, w)" "sst_repr s p rs"
    using SstOpen_table [OF assms(1) t assms(2)] by blast
  then have "SstPath s = p" "\<not> sst_closed s" by (simp_all add: sst_repr_def SstPath_def)
  moreover from this have "SstGet [] s w = (Inl ErrInvalidPara, w)" by (simp add: SstGet_def)
  ultimately show ?thesis using s SstGet_table [OF assms(1) t s(2)] by auto
qed

lemma SstOpen_Get_newest_witness:
  "\<exists>s. SstOpen 3 [''t''] \<lparr>disk = [([''t''], frames [\<lparr>rec_Type = 1, rec_Key = [65], rec_Value = [1]\<rparr>])], faults = []\<rparr>
      = (Inr s, \<lparr>disk = [([''t''], frames [\<lparr>rec_Type = 1, rec_Key = [65], rec_Value = [1]\<rparr>])], faults = []\<rparr>)"
proof -
  have "CheckEncodePara \<lparr>rec_Type = 1, rec_Key = [65], rec_Value = [1]\<rparr> = None"
    by (simp add: CheckEncodePara_def TypePut_def TypeDelete_def MaxUint32_def)
  then show ?thesis
    using SstOpen_Get_newest [of "\<lparr>disk = [([''t''], frames [\<lparr>rec_Type = 1, rec_Key = [65], rec_Value = [1]\<rparr>])], faults = []\<rparr>"
        "[''t'']" "[\<lparr>rec_Type = 1, rec_Key = [65], rec_Value = [1]\<rparr>]" 3]
    by (auto simp: file_at_def)
qed

text \<open>
  A damaged table does not open.  If the scan of the file stops before its end, at a torn record,
  an unknown type or an empty key, \<open>Open\<close> returns that error and changes no file.
\<close>

lemma SstOpen_rejects_damage:
  assumes "faults w = []" and "p \<noteq> []" and "file_at w p = Some c" and "scan Decode c = (rs, e)" and "e \<noteq> EOF"
  shows "SstOpen tid p w = (Inl e, w)"
  using SstOpen_broken [OF assms(1,3,2)] assms(4,5) by simp

lemma SstOpen_rejects_damage_witness:
  "SstOpen 0 [''t''] \<lparr>disk = [([''t''], [1, 0])], faults = []\<rparr>
     = (Inl ErrIncompleteRecord, \<lparr>disk = [([''t''], [1, 0])], faults = []\<rparr>)"
proof -
  have "Decode [1, 0] = (Inl ErrIncompleteRecord, [])" by (simp add: Decode_short record_consts)
  then show ?thesis
    using SstOpen_rejects_damage [of "\<lparr>disk = [([''t''], [1, 0])], faults = []\<rparr>" "[''t'']" "[1, 0]" "[]"
        ErrIncompleteRecord 0]
    by (simp add: scan_Inl file_at_def)
qed

end
