(* ===== verification/KV_Heap.thy ===== *)
theory KV_Heap
  imports KV_Prelude "HOL-Library.Multiset"
begin

text \<open>
  The binary heap of Go's \<open>container/heap\<close>, which \<open>compact.Run\<close> uses: \<open>up\<close> and \<open>down\<close> on a slice,
  \<open>Push\<close> and \<open>Pop\<close>.  They are generic in the element type and its \<open>Less\<close>.  The interface
  \<open>pqueue\<close> states what the merge relies on; the slice heap implements it for every strict weak
  order.
\<close>

section \<open>The operations of container/heap\<close>

definition swap :: "nat \<Rightarrow> nat \<Rightarrow> 'a list \<Rightarrow> 'a list" where
  "swap i j h = h[i := h ! j, j := h ! i]"

function heap_up :: "('a \<Rightarrow> 'a \<Rightarrow> bool) \<Rightarrow> 'a list \<Rightarrow> nat \<Rightarrow> 'a list" where
  "heap_up lt h j =
     (let i = (j - 1) div 2
      in if i = j \<or> \<not> lt (h ! j) (h ! i) then h else heap_up lt (swap i j h) i)"
  by pat_completeness auto
termination
  by (relation "measure (\<lambda>(lt, h, j). j)") auto

function heap_down :: "('a \<Rightarrow> 'a \<Rightarrow> bool) \<Rightarrow> 'a list \<Rightarrow> nat \<Rightarrow> nat \<Rightarrow> 'a list" where
  "heap_down lt h i n =
     (let j1 = 2 * i + 1
      in if j1 \<ge> n then h
         else
           (let j2 = j1 + 1; j = (if j2 < n \<and> lt (h ! j2) (h ! j1) then j2 else j1)
            in if \<not> lt (h ! j) (h ! i) then h else heap_down lt (swap i j h) j n))"
  by pat_completeness auto
termination
  by (relation "measure (\<lambda>(lt, h, i, n). n - i)") (auto simp: Let_def split: if_splits)

declare heap_up.simps [simp del] heap_down.simps [simp del]

definition heap_push :: "('a \<Rightarrow> 'a \<Rightarrow> bool) \<Rightarrow> 'a \<Rightarrow> 'a list \<Rightarrow> 'a list" where
  "heap_push lt x h = (let h1 = h @ [x] in heap_up lt h1 (length h1 - 1))"

definition heap_pop :: "('a \<Rightarrow> 'a \<Rightarrow> bool) \<Rightarrow> 'a list \<Rightarrow> 'a \<times> 'a list" where
  "heap_pop lt h =
     (let n = length h - 1;
          h1 = heap_down lt (swap 0 n h) 0 n
      in (h1 ! n, take n h1))"

section \<open>Swapping\<close>

lemma length_swap [simp]: "length (swap i j h) = length h"
  by (simp add: swap_def)

lemma mset_swap_elems [simp]: "i < length h \<Longrightarrow> j < length h \<Longrightarrow> mset (swap i j h) = mset h"
  by (simp add: swap_def mset_swap)

lemma nth_swap:
  "i < length h \<Longrightarrow> j < length h \<Longrightarrow> k < length h \<Longrightarrow>
     swap i j h ! k = (if k = j then h ! i else if k = i then h ! j else h ! k)"
  by (auto simp: swap_def nth_list_update)

lemma length_heap_up [simp]: "length (heap_up lt h j) = length h"
proof (induction lt h j rule: heap_up.induct)
  case (1 lt h j)
  then show ?case by (subst heap_up.simps) (auto simp: Let_def)
qed

lemma length_heap_down [simp]: "length (heap_down lt h i n) = length h"
proof (induction lt h i n rule: heap_down.induct)
  case (1 lt h i n)
  then show ?case by (subst heap_down.simps) (auto simp: Let_def)
qed

lemma mset_heap_up: "j < length h \<Longrightarrow> mset (heap_up lt h j) = mset h"
proof (induction lt h j rule: heap_up.induct)
  case (1 lt h j)
  then have "(j - 1) div 2 < length h" by linarith
  then show ?case using "1.IH" [OF refl] "1.prems"
    by (subst heap_up.simps) (auto simp: Let_def)
qed

text \<open>The step of \<open>down\<close> as a choice of the smaller child.\<close>

definition down_child :: "('a \<Rightarrow> 'a \<Rightarrow> bool) \<Rightarrow> 'a list \<Rightarrow> nat \<Rightarrow> nat \<Rightarrow> nat" where
  "down_child lt h i n =
     (if 2 * i + 2 < n \<and> lt (h ! (2 * i + 2)) (h ! (2 * i + 1)) then 2 * i + 2 else 2 * i + 1)"

lemma heap_down_unfold:
  "heap_down lt h i n =
     (if 2 * i + 1 \<ge> n \<or> \<not> lt (h ! down_child lt h i n) (h ! i) then h
      else heap_down lt (swap i (down_child lt h i n) h) (down_child lt h i n) n)"
  by (subst heap_down.simps) (simp add: Let_def down_child_def)

lemma down_child_bounds:
  "2 * i + 1 < n \<Longrightarrow> i < down_child lt h i n \<and> down_child lt h i n < n
     \<and> (down_child lt h i n - 1) div 2 = i"
  by (auto simp: down_child_def)

lemma heap_down_induct [case_names step]:
  assumes "\<And>h i. (2 * i + 1 < n \<Longrightarrow> lt (h ! down_child lt h i n) (h ! i) \<Longrightarrow>
      P (swap i (down_child lt h i n) h) (down_child lt h i n)) \<Longrightarrow> P h i"
  shows "P h i"
proof (induction "n - i" arbitrary: h i rule: less_induct)
  case less
  show ?case
  proof (rule assms)
    assume "2 * i + 1 < n"
    then have "n - down_child lt h i n < n - i"
      using down_child_bounds [of i n lt h] by linarith
    then show "P (swap i (down_child lt h i n) h) (down_child lt h i n)"
      by (rule less)
  qed
qed

lemma mset_heap_down: "n \<le> length h \<Longrightarrow> mset (heap_down lt h i n) = mset h"
proof (induction h i rule: heap_down_induct [where n = n and lt = lt])
  case (step h i)
  then show ?case using down_child_bounds [of i n lt h]
    by (subst heap_down_unfold) (auto simp: not_le)
qed

lemma nth_heap_down_beyond:
  "n \<le> k \<Longrightarrow> k < length h \<Longrightarrow> heap_down lt h i n ! k = h ! k"
proof (induction h i rule: heap_down_induct [where n = n and lt = lt])
  case (step h i)
  then show ?case using down_child_bounds [of i n lt h]
    by (subst heap_down_unfold) (auto simp: not_le nth_swap)
qed

section \<open>The heap property\<close>

text \<open>A strict weak order; \<open>\<not> lt b a\<close> reads \<open>a\<close> at most \<open>b\<close>.\<close>

locale heap_order =
  fixes lt :: "'a \<Rightarrow> 'a \<Rightarrow> bool"
  assumes less_asym: "lt a b \<Longrightarrow> \<not> lt b a"
    and le_trans: "\<not> lt b a \<Longrightarrow> \<not> lt c b \<Longrightarrow> \<not> lt c a"
begin

lemma le_refl: "\<not> lt a a"
  using less_asym by blast

end

definition heap_inv :: "('a \<Rightarrow> 'a \<Rightarrow> bool) \<Rightarrow> 'a list \<Rightarrow> nat \<Rightarrow> bool" where
  "heap_inv lt h n \<longleftrightarrow> (\<forall>k < n. 0 < k \<longrightarrow> \<not> lt (h ! k) (h ! ((k - 1) div 2)))"

text \<open>The heap property except between \<open>j\<close> and its parent, during \<open>up\<close>.\<close>

definition up_inv :: "('a \<Rightarrow> 'a \<Rightarrow> bool) \<Rightarrow> 'a list \<Rightarrow> nat \<Rightarrow> bool" where
  "up_inv lt h j \<longleftrightarrow>
     (\<forall>k < length h. 0 < k \<longrightarrow> k \<noteq> j \<longrightarrow> \<not> lt (h ! k) (h ! ((k - 1) div 2)))
     \<and> (\<forall>k < length h. 0 < k \<longrightarrow> (k - 1) div 2 = j \<longrightarrow> 0 < j \<longrightarrow>
          \<not> lt (h ! k) (h ! ((j - 1) div 2)))"

text \<open>The heap property except between \<open>i\<close> and its children, during \<open>down\<close>.\<close>

definition down_inv :: "('a \<Rightarrow> 'a \<Rightarrow> bool) \<Rightarrow> 'a list \<Rightarrow> nat \<Rightarrow> nat \<Rightarrow> bool" where
  "down_inv lt h i n \<longleftrightarrow>
     (\<forall>k < n. 0 < k \<longrightarrow> (k - 1) div 2 \<noteq> i \<longrightarrow> \<not> lt (h ! k) (h ! ((k - 1) div 2)))
     \<and> (\<forall>k < n. 0 < k \<longrightarrow> (k - 1) div 2 = i \<longrightarrow> 0 < i \<longrightarrow>
          \<not> lt (h ! k) (h ! ((i - 1) div 2)))"

context heap_order begin

lemma up_step:
  assumes inv: "up_inv lt h j" and j: "0 < j" "j < length h"
    and lt: "lt (h ! j) (h ! ((j - 1) div 2))"
  shows "up_inv lt (swap ((j - 1) div 2) j h) ((j - 1) div 2)"
proof -
  define i where "i = (j - 1) div 2"
  have i: "i < j" "i < length h" using j unfolding i_def by linarith+
  have jp: "(j - Suc 0) div 2 = i" by (simp add: i_def)
  note sw = nth_swap [OF i(2) j(2)]
  have ok: "\<not> lt (h ! k) (h ! ((k - 1) div 2))" if "k < length h" "0 < k" "k \<noteq> j" for k
    using inv that by (simp add: up_inv_def)
  have par: "\<not> lt (h ! k) (h ! i)" if "k < length h" "0 < k" "(k - 1) div 2 = j" for k
    using inv that j by (simp add: up_inv_def i_def)
  have ji: "\<not> lt (h ! i) (h ! j)" using less_asym [OF lt] by (simp add: i_def)
  show ?thesis unfolding i_def [symmetric] up_inv_def length_swap
  proof (intro conjI allI impI)
    fix k assume k: "k < length h" "0 < k" "k \<noteq> i"
    then have "(k - 1) div 2 < length h" by linarith
    moreover have "\<not> lt (h ! k) (h ! j)" if "(k - 1) div 2 = i" "k \<noteq> j"
      using le_trans [OF ji, of "h ! k"] ok [of k] k that by simp
    ultimately show "\<not> lt (swap i j h ! k) (swap i j h ! ((k - 1) div 2))"
      using k ji ok [of k] par [of k] i by (auto simp: sw jp)
  next
    fix k assume k: "k < length h" "0 < k" "(k - 1) div 2 = i" "0 < i"
    then have p: "(i - 1) div 2 < i" by linarith
    then have up: "\<not> lt (h ! i) (h ! ((i - 1) div 2))" using ok [of i] k i by simp
    moreover have "\<not> lt (h ! k) (h ! ((i - 1) div 2))" if "k \<noteq> j"
      using le_trans [OF up, of "h ! k"] ok [of k] k that by simp
    ultimately show "\<not> lt (swap i j h ! k) (swap i j h ! ((i - 1) div 2))"
      using k p i up by (auto simp: sw jp)
  qed
qed

lemma heap_up_inv: "up_inv lt h j \<Longrightarrow> j < length h \<Longrightarrow> heap_inv lt (heap_up lt h j) (length h)"
proof (induction j arbitrary: h rule: less_induct)
  case (less j)
  let ?i = "(j - 1) div 2"
  show ?case
  proof (cases "?i = j \<or> \<not> lt (h ! j) (h ! ?i)")
    case True
    then have "heap_up lt h j = h" by (subst heap_up.simps) (simp add: Let_def)
    moreover have "\<not> lt (h ! j) (h ! ?i)" if "0 < j" using True that by linarith
    ultimately show ?thesis using less.prems by (auto simp: heap_inv_def up_inv_def)
  next
    case False
    then have j: "0 < j" by (cases j) auto
    then have "?i < j" "?i < length h" using less.prems(2) by linarith+
    moreover have "up_inv lt (swap ?i j h) ?i"
      using up_step less.prems j False by blast
    ultimately have "heap_inv lt (heap_up lt (swap ?i j h) ?i) (length h)"
      using less.IH [of ?i "swap ?i j h"] by simp
    moreover have "heap_up lt h j = heap_up lt (swap ?i j h) ?i"
      using False by (subst heap_up.simps) (simp add: Let_def)
    ultimately show ?thesis by simp
  qed
qed

lemma down_child_least:
  assumes "k < n" and "0 < k" and "(k - 1) div 2 = i"
  shows "\<not> lt (h ! k) (h ! down_child lt h i n)"
proof -
  have "k = 2 * i + 1 \<or> k = 2 * i + 2" using assms by linarith
  then show ?thesis using assms(1) less_asym le_refl by (auto simp: down_child_def)
qed

lemma down_step:
  assumes inv: "down_inv lt h i n" and n: "2 * i + 1 < n" "n \<le> length h"
    and less: "lt (h ! down_child lt h i n) (h ! i)"
  shows "down_inv lt (swap i (down_child lt h i n) h) (down_child lt h i n) n"
proof -
  define j where "j = down_child lt h i n"
  have j: "i < j" "j < n" "(j - 1) div 2 = i"
    using down_child_bounds [OF n(1), of lt h] by (simp_all add: j_def)
  have len: "i < length h" "j < length h" using j n by linarith+
  note sw = nth_swap [OF len]
  have ok: "\<not> lt (h ! k) (h ! ((k - 1) div 2))" if "k < n" "0 < k" "(k - 1) div 2 \<noteq> i" for k
    using inv that by (simp add: down_inv_def)
  have par: "\<not> lt (h ! k) (h ! ((i - 1) div 2))" if "k < n" "0 < k" "(k - 1) div 2 = i" "0 < i" for k
    using inv that by (simp add: down_inv_def)
  have least: "\<not> lt (h ! k) (h ! j)" if "k < n" "0 < k" "(k - 1) div 2 = i" for k
    using down_child_least [OF that] by (simp add: j_def)
  have ij: "\<not> lt (h ! i) (h ! j)" using less less_asym by (simp add: j_def)
  show ?thesis unfolding down_inv_def j_def [symmetric]
  proof (intro conjI allI impI)
    fix k assume k: "k < n" "0 < k" "(k - 1) div 2 \<noteq> j"
    have kl: "k < length h" "(k - 1) div 2 < length h" using k n by linarith+
    show "\<not> lt (swap i j h ! k) (swap i j h ! ((k - 1) div 2))"
    proof (cases "k = i")
      case True
      then have "(k - 1) div 2 \<noteq> i" using k by linarith
      then show ?thesis using True k kl par [OF j(2) _ j(3)] j by (auto simp: sw)
    next
      case False
      then show ?thesis using k kl ij least [of k] ok [of k] j by (auto simp: sw)
    qed
  next
    fix k assume k: "k < n" "0 < k" "(k - 1) div 2 = j" "0 < j"
    then have "j < k" by linarith
    then show "\<not> lt (swap i j h ! k) (swap i j h ! ((j - 1) div 2))"
      using k ok [of k] j n by (auto simp: sw)
  qed
qed

lemma heap_down_inv:
  "down_inv lt h i n \<Longrightarrow> n \<le> length h \<Longrightarrow> heap_inv lt (heap_down lt h i n) n"
proof (induction h i rule: heap_down_induct [where n = n and lt = lt])
  case (step h i)
  show ?case
  proof (cases "2 * i + 1 \<ge> n \<or> \<not> lt (h ! down_child lt h i n) (h ! i)")
    case True
    have "\<not> lt (h ! k) (h ! ((k - 1) div 2))" if k: "k < n" "0 < k" for k
    proof (cases "(k - 1) div 2 = i")
      case False
      then show ?thesis using step.prems(1) k by (simp add: down_inv_def)
    next
      case par: True
      then have "2 * i + 1 < n" using k by linarith
      then have "\<not> lt (h ! down_child lt h i n) (h ! i)" using True by simp
      moreover have "\<not> lt (h ! k) (h ! down_child lt h i n)"
        using down_child_least k par by blast
      ultimately show ?thesis using le_trans par by blast
    qed
    then show ?thesis using True by (subst heap_down_unfold) (auto simp: heap_inv_def)
  next
    case False
    then have c: "2 * i + 1 < n" "lt (h ! down_child lt h i n) (h ! i)" by auto
    have "heap_inv lt (heap_down lt (swap i (down_child lt h i n) h) (down_child lt h i n) n) n"
      using step.IH [OF c] down_step [OF step.prems(1) c(1) step.prems(2) c(2)] step.prems(2) by simp
    then show ?thesis using False by (subst heap_down_unfold) simp
  qed
qed

lemma heap_root_least: "heap_inv lt h n \<Longrightarrow> k < n \<Longrightarrow> \<not> lt (h ! k) (h ! 0)"
proof (induction k rule: less_induct)
  case (less k)
  show ?case
  proof (cases "k = 0")
    case True
    then show ?thesis by (simp add: le_refl)
  next
    case False
    then have p: "(k - 1) div 2 < k" by linarith
    then have "\<not> lt (h ! ((k - 1) div 2)) (h ! 0)" using less by simp
    moreover have "\<not> lt (h ! k) (h ! ((k - 1) div 2))"
      using less.prems False by (simp add: heap_inv_def)
    ultimately show ?thesis using le_trans by blast
  qed
qed

lemma heap_push_inv: "heap_inv lt h (length h) \<Longrightarrow> heap_inv lt (heap_push lt x h) (length (heap_push lt x h))"
proof -
  assume h: "heap_inv lt h (length h)"
  have "up_inv lt (h @ [x]) (length h)"
    unfolding up_inv_def
  proof (intro conjI allI impI)
    fix k assume k: "k < length (h @ [x])" "0 < k" "k \<noteq> length h"
    then have "k < length h" "(k - 1) div 2 < length h" by auto
    then show "\<not> lt ((h @ [x]) ! k) ((h @ [x]) ! ((k - 1) div 2))"
      using h k by (simp add: heap_inv_def nth_append)
  qed auto
  then show ?thesis
    using heap_up_inv [of "h @ [x]" "length h"] by (simp add: heap_push_def Let_def)
qed

lemma heap_pop_spec:
  assumes h: "heap_inv lt h (length h)" and "h \<noteq> []" and pop: "heap_pop lt h = (x, h')"
  shows "x = h ! 0" and "heap_inv lt h' (length h')" and "mset h = add_mset x (mset h')"
    and "\<forall>y \<in># mset h. \<not> lt y x"
proof -
  define n where "n = length h - 1"
  define d where "d = heap_down lt (swap 0 n h) 0 n"
  have n: "n < length h" "0 < length h" using assms(2) by (auto simp: n_def)
  have x: "x = d ! n" and h': "h' = take n d"
    using pop by (simp_all add: heap_pop_def Let_def n_def d_def)
  have len: "length d = Suc n" using n by (simp add: d_def n_def)
  have xs: "x = h ! 0"
    using n by (simp add: x d_def nth_heap_down_beyond nth_swap)
  have "down_inv lt (swap 0 n h) 0 n"
    unfolding down_inv_def
  proof (intro conjI allI impI)
    fix k assume k: "k < n" "0 < k" "(k - 1) div 2 \<noteq> 0"
    then have "(k - 1) div 2 < length h" "(k - 1) div 2 \<noteq> n" using n by linarith+
    then show "\<not> lt (swap 0 n h ! k) (swap 0 n h ! ((k - 1) div 2))"
      using h k n by (simp add: nth_swap heap_inv_def)
  qed auto
  then have "heap_inv lt d n"
    using heap_down_inv [of "swap 0 n h" 0 n] n by (simp add: d_def)
  then have "heap_inv lt (take n d) n"
    unfolding heap_inv_def
  proof (intro allI impI)
    fix k assume *: "\<forall>k<n. 0 < k \<longrightarrow> \<not> lt (d ! k) (d ! ((k - 1) div 2))" and k: "k < n" "0 < k"
    then have "(k - 1) div 2 < n" by linarith
    then show "\<not> lt (take n d ! k) (take n d ! ((k - 1) div 2))" using * k by simp
  qed
  then show "heap_inv lt h' (length h')" using len by (simp add: h')
  have "mset d = mset h" using n by (simp add: d_def mset_heap_down)
  moreover have "d = take n d @ [d ! n]" using len by (metis lessI take_Suc_conv_app_nth take_all order_refl)
  ultimately show "mset h = add_mset x (mset h')"
    by (metis h' x mset_append mset.simps union_commute add_mset_add_single mset_single_iff_right)
  show "x = h ! 0" by (rule xs)
  show "\<forall>y \<in># mset h. \<not> lt y x"
    using heap_root_least [OF h] by (auto simp: xs in_set_conv_nth)
qed

lemma heap_push_mset: "mset (heap_push lt x h) = add_mset x (mset h)"
  by (simp add: heap_push_def Let_def mset_heap_up)

end

section \<open>The interface of a priority queue\<close>

text \<open>
  What the merge uses: the queue holds a multiset of elements; the popped element is the one on
  top and no element precedes it.
\<close>

locale pqueue =
  fixes lt :: "'a \<Rightarrow> 'a \<Rightarrow> bool"
    and push :: "'a \<Rightarrow> 'q \<Rightarrow> 'q"
    and pop :: "'q \<Rightarrow> 'a \<times> 'q"
    and top :: "'q \<Rightarrow> 'a"
    and elems :: "'q \<Rightarrow> 'a multiset"
    and inv :: "'q \<Rightarrow> bool"
  assumes push_inv: "inv q \<Longrightarrow> inv (push x q)"
    and push_elems: "inv q \<Longrightarrow> elems (push x q) = add_mset x (elems q)"
    and pop_inv: "inv q \<Longrightarrow> elems q \<noteq> {#} \<Longrightarrow> inv (snd (pop q))"
    and pop_elems: "inv q \<Longrightarrow> elems q \<noteq> {#} \<Longrightarrow>
      elems q = add_mset (fst (pop q)) (elems (snd (pop q)))"
    and pop_least: "inv q \<Longrightarrow> elems q \<noteq> {#} \<Longrightarrow> y \<in># elems q \<Longrightarrow> \<not> lt y (fst (pop q))"
    and pop_top: "inv q \<Longrightarrow> elems q \<noteq> {#} \<Longrightarrow> fst (pop q) = top q"
begin

text \<open>When one element precedes all others, \<open>pop\<close> returns it.\<close>

lemma pop_the_least:
  assumes "inv q" and "x \<in># elems q" and "\<And>y. y \<in># elems q \<Longrightarrow> y \<noteq> x \<Longrightarrow> lt x y"
  shows "fst (pop q) = x" and "top q = x" and "elems (snd (pop q)) = elems q - {#x#}"
    and "inv (snd (pop q))"
proof -
  have ne: "elems q \<noteq> {#}" using assms(2) by auto
  have "fst (pop q) \<in># elems q" using pop_elems [OF assms(1) ne] by (metis union_single_eq_member add_mset_add_single)
  then show fst: "fst (pop q) = x"
    using assms(3) pop_least [OF assms(1) ne assms(2)] by blast
  then show "top q = x" using pop_top [OF assms(1) ne] by simp
  show "elems (snd (pop q)) = elems q - {#x#}"
    using pop_elems [OF assms(1) ne] fst by (metis add_mset_remove_trivial)
  show "inv (snd (pop q))" by (rule pop_inv [OF assms(1) ne])
qed

end

sublocale heap_order \<subseteq> slice: pqueue lt "heap_push lt" "heap_pop lt" "\<lambda>h. h ! 0" mset
  "\<lambda>h. heap_inv lt h (length h)"
proof
  fix h :: "'a list" and x y
  show "heap_inv lt h (length h) \<Longrightarrow> heap_inv lt (heap_push lt x h) (length (heap_push lt x h))"
    by (rule heap_push_inv)
  show "mset (heap_push lt x h) = add_mset x (mset h)"
    by (rule heap_push_mset)
  show "fst (heap_pop lt h) = h ! 0" if "heap_inv lt h (length h)" "mset h \<noteq> {#}"
    using heap_pop_spec(1) [of h "fst (heap_pop lt h)" "snd (heap_pop lt h)"] that by auto
  show "heap_inv lt (snd (heap_pop lt h)) (length (snd (heap_pop lt h)))"
    if "heap_inv lt h (length h)" "mset h \<noteq> {#}"
    using heap_pop_spec(2) [of h "fst (heap_pop lt h)" "snd (heap_pop lt h)"] that by auto
  show "mset h = add_mset (fst (heap_pop lt h)) (mset (snd (heap_pop lt h)))"
    if "heap_inv lt h (length h)" "mset h \<noteq> {#}"
    using heap_pop_spec(3) [of h "fst (heap_pop lt h)" "snd (heap_pop lt h)"] that by auto
  show "\<not> lt y (fst (heap_pop lt h))"
    if "heap_inv lt h (length h)" "mset h \<noteq> {#}" "y \<in># mset h"
    using heap_pop_spec(4) [of h "fst (heap_pop lt h)" "snd (heap_pop lt h)"] that by auto
qed

end
