(* ===== verification/KV_Compact.thy ===== *)
theory KV_Compact
  imports KV_Sstable KV_Heap
begin

text \<open>
  Compaction (\<open>internal/engine/compact/compact.go\<close>): a streaming merge of all tables by a heap of
  iterators.  The iterators are shared by reference in Go; here they live in a list and a heap item
  holds its index.  The two loops take fuel; \<open>Run\<close> gives them more than the number of bytes of the
  input tables, which is enough when the output is not one of the inputs (\<open>Run_ends\<close> in \<open>KV_Ends\<close>).
\<close>

section \<open>Heap items\<close>

record heapItem =
  hi_rec :: Record
  hi_tableID :: int
  hi_iter :: nat

definition item_less :: "heapItem \<Rightarrow> heapItem \<Rightarrow> bool" where
  "item_less a b =
     (let cmp = bytes_compare (rec_Key (hi_rec a)) (rec_Key (hi_rec b))
      in if cmp \<noteq> 0 then cmp < 0 else hi_tableID a > hi_tableID b)"

definition advance ::
  "heapItem list \<Rightarrow> heapItem \<Rightarrow> Iterator list \<Rightarrow> world
     \<Rightarrow> err option \<times> heapItem list \<times> Iterator list \<times> world" where
  "advance h item iters w =
     (case IterNext (iters ! hi_iter item) w of
        (it, w1) \<Rightarrow>
          let iters1 = iters[hi_iter item := it]
          in (case IterErr it of
                Some e \<Rightarrow> (Some e, h, iters1, w1)
              | None \<Rightarrow>
                  if IterValid it then
                    (None, heap_push item_less
                       \<lparr>hi_rec = IterRecord it, hi_tableID = hi_tableID item,
                        hi_iter = hi_iter item\<rparr> h, iters1, w1)
                  else (None, h, iters1, w1)))"

section \<open>Run\<close>

fun close_iters :: "Iterator list \<Rightarrow> world \<Rightarrow> world" where
  "close_iters [] w = w"
| "close_iters (it # its) w = (case IterClose it w of (ign, it1, w1) \<Rightarrow> close_iters its w1)"

text \<open>The first loop of \<open>Run\<close>: an iterator per table, its first record on the heap.\<close>

fun open_iters ::
  "SSTable list \<Rightarrow> Iterator list \<Rightarrow> heapItem list \<Rightarrow> world
     \<Rightarrow> (err + Iterator list \<times> heapItem list) \<times> world" where
  "open_iters [] iters h w = (Inr (iters, h), w)"
| "open_iters (s # ss) iters h w =
     (case SstNewIterator s w of
        (Inl e, w1) \<Rightarrow> (Inl e, close_iters iters w1)
      | (Inr it, w1) \<Rightarrow>
          (case IterErr it of
             Some e \<Rightarrow> (Inl e, close_iters (iters @ [it]) w1)
           | None \<Rightarrow>
               open_iters ss (iters @ [it])
                 (if IterValid it then
                    heap_push item_less
                      \<lparr>hi_rec = IterRecord it, hi_tableID = int (length iters),
                       hi_iter = length iters\<rparr> h
                  else h) w1))"

text \<open>The inner loop: drop the older records of the key.\<close>

fun drain_key ::
  "nat \<Rightarrow> bytes \<Rightarrow> heapItem list \<Rightarrow> Iterator list \<Rightarrow> world
     \<Rightarrow> (err option \<times> heapItem list \<times> Iterator list \<times> world) option" where
  "drain_key 0 key h iters w = None"
| "drain_key (Suc n) key h iters w =
     (if length h > 0 \<and> rec_Key (hi_rec (h ! 0)) = key then
        (case heap_pop item_less h of
           (item, h1) \<Rightarrow>
             (case advance h1 item iters w of
                (Some e, h2, iters2, w2) \<Rightarrow> Some (Some e, h2, iters2, w2)
              | (None, h2, iters2, w2) \<Rightarrow> drain_key n key h2 iters2 w2))
      else Some (None, h, iters, w))"

text \<open>The outer loop: the newest record of the least key, written unless it is a tombstone.\<close>

fun merge_loop ::
  "nat \<Rightarrow> heapItem list \<Rightarrow> Iterator list \<Rightarrow> SSTableWriter \<Rightarrow> bool \<Rightarrow> world
     \<Rightarrow> (err option \<times> Iterator list \<times> bool \<times> world) option" where
  "merge_loop 0 h iters sw wrote w = None"
| "merge_loop (Suc n) h iters sw wrote w =
     (if length h > 0 then
        (case heap_pop item_less h of
           (first, h1) \<Rightarrow>
             (case advance h1 first iters w of
                (Some e, h2, iters2, w2) \<Rightarrow> Some (Some e, iters2, wrote, w2)
              | (None, h2, iters2, w2) \<Rightarrow>
                  (case drain_key n (rec_Key (hi_rec first)) h2 iters2 w2 of
                     None \<Rightarrow> None
                   | Some (Some e, h3, iters3, w3) \<Rightarrow> Some (Some e, iters3, wrote, w3)
                   | Some (None, h3, iters3, w3) \<Rightarrow>
                       if rec_Type (hi_rec first) = TypePut then
                         (case WriterAppend sw (hi_rec first) w3 of
                            (Some e, w4) \<Rightarrow> Some (Some e, iters3, wrote, w4)
                          | (None, w4) \<Rightarrow> merge_loop n h3 iters3 sw True w4)
                       else merge_loop n h3 iters3 sw wrote w3)))
      else Some (None, iters, wrote, w))"

definition merge_fuel :: "SSTable list \<Rightarrow> world \<Rightarrow> nat" where
  "merge_fuel sstables w = Suc (sum_list (map (\<lambda>s. length (file_data w (sst_path s))) sstables))"

text \<open>\<open>None\<close>: the merge did not end within the fuel.\<close>

definition Run :: "SSTable list \<Rightarrow> path \<Rightarrow> world \<Rightarrow> ((err + SSTable option) \<times> world) option" where
  "Run sstables outputPath w =
     (case open_iters sstables [] [] w of
        (Inl e, w1) \<Rightarrow> Some (Inl e, w1)
      | (Inr (iters, h), w1) \<Rightarrow>
          (case CreateSSTableWriter outputPath w1 of
             (Inl e, w2) \<Rightarrow> Some (Inl e, close_iters iters w2)
           | (Inr sw, w2) \<Rightarrow>
               (case merge_loop (merge_fuel sstables w2) h iters sw False w2 of
                  None \<Rightarrow> None
                | Some (Some e, iters3, wrote, w3) \<Rightarrow>
                    (case WriterClose sw w3 of
                       (ign, sw1, w4) \<Rightarrow>
                         (case os_remove outputPath (close_iters iters3 w4) of
                            (ign2, w5) \<Rightarrow> Some (Inl e, w5)))
                | Some (None, iters3, wrote, w3) \<Rightarrow>
                    (case WriterClose sw w3 of
                       (Some e, sw1, w4) \<Rightarrow>
                         (case os_remove outputPath (close_iters iters3 w4) of
                            (ign2, w5) \<Rightarrow> Some (Inl e, w5))
                     | (None, sw1, w4) \<Rightarrow>
                         let w5 = close_iters iters3 w4
                         in if \<not> wrote then
                              (case os_remove outputPath w5 of
                                 (ign2, w6) \<Rightarrow> Some (Inr None, w6))
                            else
                              (case SstOpen 0 outputPath w5 of
                                 (Inl e, w6) \<Rightarrow>
                                   (case os_remove outputPath w6 of
                                      (ign2, w7) \<Rightarrow> Some (Inl e, w7))
                               | (Inr s, w6) \<Rightarrow> Some (Inr (Some s), w6))))))"

section \<open>The order of heap items\<close>

lemma item_less_iff:
  "item_less a b \<longleftrightarrow> rec_Key (hi_rec a) < rec_Key (hi_rec b)
     \<or> rec_Key (hi_rec a) = rec_Key (hi_rec b) \<and> hi_tableID b < hi_tableID a"
  by (auto simp: item_less_def Let_def)

interpretation recheap: heap_order item_less
  by unfold_locales (auto simp: item_less_iff)

section \<open>The heads of the remaining tables\<close>

text \<open>
  \<open>rests\<close> lists what each iterator still has to deliver, by table.  The heap holds the head of
  every table that is not exhausted.
\<close>

definition head_item :: "nat \<Rightarrow> Record \<Rightarrow> heapItem" where
  "head_item i r = \<lparr>hi_rec = r, hi_tableID = int i, hi_iter = i\<rparr>"

lemma head_item_sel [simp]:
  "hi_rec (head_item i r) = r" "hi_tableID (head_item i r) = int i" "hi_iter (head_item i r) = i"
  by (simp_all add: head_item_def)

definition hd_items :: "nat \<Rightarrow> Record list \<Rightarrow> heapItem multiset" where
  "hd_items i rs = (case rs of [] \<Rightarrow> {#} | r # rs' \<Rightarrow> {#head_item i r#})"

lemma hd_items_simps [simp]: "hd_items i [] = {#}" "hd_items i (r # rs) = {#head_item i r#}"
  by (simp_all add: hd_items_def)

definition heads :: "Record list list \<Rightarrow> heapItem multiset" where
  "heads rests = (\<Sum>i<length rests. hd_items i (rests ! i))"

lemma heads_nil [simp]: "heads [] = {#}"
  by (simp add: heads_def)

lemma heads_snoc: "heads (rests @ [rs]) = heads rests + hd_items (length rests) rs"
  by (simp add: heads_def nth_append)

lemma heads_remove:
  "i < length rests \<Longrightarrow> heads rests = hd_items i (rests ! i) + (\<Sum>j \<in> {..<length rests} - {i}. hd_items j (rests ! j))"
  by (simp add: heads_def sum.remove)

lemma heads_update:
  assumes "i < length rests"
  shows "heads (rests[i := rs]) = heads rests - hd_items i (rests ! i) + hd_items i rs"
proof -
  have "(\<Sum>j \<in> {..<length rests} - {i}. hd_items j (rests[i := rs] ! j))
      = (\<Sum>j \<in> {..<length rests} - {i}. hd_items j (rests ! j))"
    by (rule sum.cong) auto
  then show ?thesis
    using heads_remove [of i rests] heads_remove [of i "rests[i := rs]"] assms by simp
qed

lemma in_heads: "x \<in># heads rests \<longleftrightarrow> (\<exists>i < length rests. rests ! i \<noteq> [] \<and> x = head_item i (hd (rests ! i)))"
proof -
  have "x \<in># hd_items i rs \<longleftrightarrow> rs \<noteq> [] \<and> x = head_item i (hd rs)" for i rs
    by (cases rs) auto
  then show ?thesis by (auto simp: heads_def set_mset_sum)
qed

text \<open>The loop state: heap, iterators and what they still deliver.\<close>

definition merge_state ::
  "world \<Rightarrow> path list \<Rightarrow> heapItem list \<Rightarrow> Iterator list \<Rightarrow> Record list list \<Rightarrow> bool" where
  "merge_state w ps h iters rests \<longleftrightarrow>
     heap_inv item_less h (length h) \<and> mset h = heads rests
     \<and> length iters = length rests \<and> length ps = length rests
     \<and> (\<forall>i < length rests. iter_at w (ps ! i) (iters ! i) (rests ! i))"

lemma merge_state_cong:
  assumes "\<forall>p \<in> set ps. file_at w' p = file_at w p"
  shows "merge_state w' ps h iters rests = merge_state w ps h iters rests"
proof -
  have "iter_at w' (ps ! i) it rs = iter_at w (ps ! i) it rs" if "i < length ps" for i it rs
    using assms that by (intro iter_at_cong) simp
  then show ?thesis by (auto simp: merge_state_def)
qed

lemma merge_state_empty: "merge_state w ps h iters rests \<Longrightarrow> h = [] \<longleftrightarrow> (\<forall>rs \<in> set rests. rs = [])"
proof -
  assume "merge_state w ps h iters rests"
  then have "h = [] \<longleftrightarrow> heads rests = {#}"
    by (metis merge_state_def mset_zero_iff)
  also have "\<dots> \<longleftrightarrow> (\<nexists>x. x \<in># heads rests)"
    by (metis ex_in_conv set_mset_eq_empty_iff)
  also have "\<dots> \<longleftrightarrow> (\<forall>i < length rests. rests ! i = [])"
    by (auto simp: in_heads)
  finally show ?thesis by (simp add: all_set_conv_all_nth)
qed

lemma advance_state:
  assumes "calm w" and i: "i < length rests" "rests ! i = r # rs"
    and h: "heap_inv item_less h (length h)" "mset h = heads rests - {#head_item i r#}"
    and its: "length iters = length rests" "length ps = length rests"
      "\<forall>i < length rests. iter_at w (ps ! i) (iters ! i) (rests ! i)"
  shows "\<exists>h' iters'. advance h (head_item i r) iters w = (None, h', iters', w)
    \<and> merge_state w ps h' iters' (rests[i := rs])"
proof -
  have "iter_at w (ps ! i) (iters ! i) (r # rs)" using its(3) i by metis
  then obtain it where it: "IterNext (iters ! i) w = (it, w)" "iter_at w (ps ! i) it rs"
    using IterNext_at [OF assms(1)] by blast
  have all: "\<forall>j < length rests. iter_at w (ps ! j) (iters[i := it] ! j) (rests[i := rs] ! j)"
    using its it(2) i(1) by (auto simp: nth_list_update)
  have heads: "heads (rests[i := rs]) = mset h + hd_items i rs"
    using heads_update [OF i(1), of rs] i(2) h(2) by simp
  show ?thesis
  proof (cases rs)
    case Nil
    then have "advance h (head_item i r) iters w = (None, h, iters[i := it], w)"
      using it iter_at_err [OF it(2)] iter_at_valid [OF it(2)] by (simp add: advance_def Let_def)
    then show ?thesis using all heads h(1) its Nil by (auto simp: merge_state_def)
  next
    case (Cons r' rs')
    then have rec: "IterRecord it = r'" using iter_at_record it(2) by blast
    then have "advance h (head_item i r) iters w
        = (None, heap_push item_less (head_item i r') h, iters[i := it], w)"
      using it iter_at_err [OF it(2)] iter_at_valid [OF it(2)] Cons
      by (simp add: advance_def Let_def head_item_def)
    then show ?thesis
      using all heads h(1) its Cons recheap.slice.push_inv [OF h(1)] recheap.slice.push_elems [OF h(1)]
      by (auto simp: merge_state_def)
  qed
qed

text \<open>One pop and advance: the least head leaves its table.\<close>

lemma pop_advance:
  assumes "calm w" and st: "merge_state w ps h iters rests" and "h \<noteq> []"
  obtains i r rs h1 h2 iters2 where
    "i < length rests" and "rests ! i = r # rs" and "h ! 0 = head_item i r"
    and "heap_pop item_less h = (head_item i r, h1)"
    and "advance h1 (head_item i r) iters w = (None, h2, iters2, w)"
    and "merge_state w ps h2 iters2 (rests[i := rs])"
    and "\<And>j. j < length rests \<Longrightarrow> rests ! j \<noteq> [] \<Longrightarrow>
      rec_Key r < rec_Key (hd (rests ! j)) \<or> rec_Key r = rec_Key (hd (rests ! j)) \<and> j \<le> i"
proof -
  have inv: "heap_inv item_less h (length h)" and ms: "mset h = heads rests"
    using st by (simp_all add: merge_state_def)
  have its: "length iters = length rests" "length ps = length rests"
    "\<forall>i < length rests. iter_at w (ps ! i) (iters ! i) (rests ! i)"
    using st by (simp_all add: merge_state_def)
  have ne: "mset h \<noteq> {#}" using assms(3) by simp
  obtain x h1 where pop: "heap_pop item_less h = (x, h1)" by (cases "heap_pop item_less h")
  have x: "x \<in># heads rests" and h1: "mset h1 = heads rests - {#x#}" "heap_inv item_less h1 (length h1)"
    and top: "h ! 0 = x" and least: "\<And>y. y \<in># heads rests \<Longrightarrow> \<not> item_less y x"
    using recheap.slice.pop_elems [OF inv ne] recheap.slice.pop_inv [OF inv ne] recheap.slice.pop_top [OF inv ne]
      recheap.slice.pop_least [OF inv ne] pop ms by auto
  from x obtain i where i: "i < length rests" "rests ! i \<noteq> []" "x = head_item i (hd (rests ! i))"
    by (auto simp: in_heads)
  then obtain r rs where rs: "rests ! i = r # rs" by (cases "rests ! i") auto
  have xr: "x = head_item i r" using i(3) rs by simp
  obtain h2 iters2 where "advance h1 (head_item i r) iters w = (None, h2, iters2, w)"
    and "merge_state w ps h2 iters2 (rests[i := rs])"
    using advance_state [OF assms(1) i(1) rs h1(2) h1(1) [unfolded xr] its] by blast
  moreover have "rec_Key r < rec_Key (hd (rests ! j)) \<or> rec_Key r = rec_Key (hd (rests ! j)) \<and> j \<le> i"
    if "j < length rests" "rests ! j \<noteq> []" for j
  proof -
    have "head_item j (hd (rests ! j)) \<in># heads rests" using that by (auto simp: in_heads)
    from least [OF this] show ?thesis by (auto simp: xr item_less_iff not_less)
  qed
  moreover have "h ! 0 = head_item i r" and "heap_pop item_less h = (head_item i r, h1)"
    using top pop xr by simp_all
  ultimately show thesis using that [OF i(1) rs] by blast
qed

section \<open>What a merge computes\<close>

abbreviation key_sorted :: "Record list \<Rightarrow> bool" where
  "key_sorted rs \<equiv> sorted_wrt (<) (map rec_Key rs)"

text \<open>The live records of a map of newest records: no tombstones.\<close>

definition live :: "(bytes \<rightharpoonup> Record) \<Rightarrow> bytes \<rightharpoonup> Record" where
  "live m k = (case m k of None \<Rightarrow> None | Some r \<Rightarrow> if rec_Type r = TypePut then Some r else None)"

text \<open>\<open>out\<close> is the compaction of the tables \<open>rests\<close>, oldest table first.\<close>

definition merged :: "Record list list \<Rightarrow> Record list \<Rightarrow> bool" where
  "merged rests out \<longleftrightarrow>
     key_sorted out \<and> newest out = live (newest (concat rests)) \<and> set out \<subseteq> set (concat rests)"

text \<open>The tables without the head that has the key \<open>k\<close>.\<close>

definition strip :: "bytes \<Rightarrow> Record list \<Rightarrow> Record list" where
  "strip k rs = (case rs of [] \<Rightarrow> [] | r # rs' \<Rightarrow> if rec_Key r = k then rs' else rs)"

lemma strip_simps [simp]:
  "strip k [] = []" "strip k (r # rs) = (if rec_Key r = k then rs else r # rs)"
  by (simp_all add: strip_def)

lemma strip_subset: "set (strip k rs) \<subseteq> set rs"
  by (cases rs) auto

lemma strip_sorted: "key_sorted rs \<Longrightarrow> key_sorted (strip k rs)"
  by (cases rs) auto

lemma strip_length: "length (strip k rs) \<le> length rs"
  by (cases rs) auto

lemma strip_tail: "key_sorted (r # rs) \<Longrightarrow> strip (rec_Key r) rs = rs"
  by (cases rs) auto

lemma key_sorted_distinct: "key_sorted rs \<Longrightarrow> distinct (map rec_Key rs)"
  by (simp add: strict_sorted_iff)

lemma strip_above:
  assumes "key_sorted rs" and "rs \<noteq> [] \<longrightarrow> k \<le> rec_Key (hd rs)" and "r \<in> set (strip k rs)"
  shows "k < rec_Key r"
  using assms by (cases rs) (auto split: if_splits dest: order_le_imp_less_or_eq)

lemma newest_Cons_other: "rec_Key r \<noteq> k \<Longrightarrow> newest (r # rs) k = newest rs k"
  using newest_append [of "[r]" rs] by (simp add: newest_def map_add_def split: option.splits)

lemma newest_strip: "k' \<noteq> k \<Longrightarrow> newest (strip k rs) k' = newest rs k'"
  by (cases rs) (auto simp: newest_Cons_other)

lemma newest_concat_strip:
  "k' \<noteq> k \<Longrightarrow> newest (concat (map (strip k) rests)) k' = newest (concat rests) k'"
  by (induction rests) (auto simp: newest_append map_add_def newest_strip split: option.splits)

lemma newest_none_iff: "newest rs k = None \<longleftrightarrow> k \<notin> rec_Key ` set rs"
  using newest_dom [of rs] by (metis domIff)

text \<open>The record of a key in the last table that has the key is the newest.\<close>

lemma newest_concat_last:
  assumes "i < length rests" and "key_sorted (rests ! i)" and "r \<in> set (rests ! i)"
    and "\<And>j. i < j \<Longrightarrow> j < length rests \<Longrightarrow> rec_Key r \<notin> rec_Key ` set (rests ! j)"
  shows "newest (concat rests) (rec_Key r) = Some r"
proof -
  have "concat rests = concat (take i rests) @ rests ! i @ concat (drop (Suc i) rests)"
    using id_take_nth_drop [OF assms(1)] by (metis concat_append concat.simps(2))
  moreover have "rec_Key r \<notin> rec_Key ` set rs" if rs: "rs \<in> set (drop (Suc i) rests)" for rs
  proof -
    obtain j where "j < length rests - Suc i" and "rs = rests ! (Suc i + j)"
      using rs by (auto simp: in_set_conv_nth)
    then show ?thesis using assms(4) [of "Suc i + j"] by simp
  qed
  then have "newest (concat (drop (Suc i) rests)) (rec_Key r) = None"
    by (auto simp: newest_none_iff)
  moreover have "newest (rests ! i) (rec_Key r) = Some r"
    using assms(2,3) by (simp add: newest_distinct_iff key_sorted_distinct)
  ultimately show ?thesis by (simp add: newest_append map_add_def)
qed

text \<open>
  The step of the outer loop on lists: the popped record \<open>r\<close> has the least key and the highest
  table among the heads.
\<close>

lemma merged_step:
  assumes i: "i < length rests" "rests ! i = r # rs"
    and sorted: "\<forall>rs \<in> set rests. key_sorted rs"
    and least: "\<And>j. j < length rests \<Longrightarrow> rests ! j \<noteq> [] \<Longrightarrow>
      rec_Key r < rec_Key (hd (rests ! j)) \<or> rec_Key r = rec_Key (hd (rests ! j)) \<and> j \<le> i"
    and out: "merged (map (strip (rec_Key r)) rests) out"
  shows "merged rests ((if rec_Type r = TypePut then [r] else []) @ out)"
proof -
  let ?k = "rec_Key r"
  have ge: "\<forall>rs \<in> set rests. rs \<noteq> [] \<longrightarrow> ?k \<le> rec_Key (hd rs)"
    using least by (fastforce simp: in_set_conv_nth)
  have above: "?k < rec_Key x" if "x \<in> set (concat (map (strip ?k) rests))" for x
    using that ge sorted strip_above by fastforce
  have sub: "set (concat (map (strip ?k) rests)) \<subseteq> set (concat rests)"
    using strip_subset by fastforce
  have out_above: "?k < rec_Key x" if "x \<in> set out" for x
    using out above [of x] that unfolding merged_def by blast
  have "key_sorted out" using out by (simp add: merged_def)
  then have "key_sorted ((if rec_Type r = TypePut then [r] else []) @ out)"
    using out_above by auto
  moreover have "set ((if rec_Type r = TypePut then [r] else []) @ out) \<subseteq> set (concat rests)"
  proof -
    have "rests ! i \<in> set rests" using i(1) by (rule nth_mem)
    moreover have "r \<in> set (rests ! i)" using i(2) by simp
    ultimately have "r \<in> set (concat rests)" by (metis UN_I set_concat)
    then show ?thesis using out sub by (auto simp: merged_def)
  qed
  moreover have "newest ((if rec_Type r = TypePut then [r] else []) @ out) k = live (newest (concat rests)) k"
    for k
  proof (cases "k = ?k")
    case True
    have "?k \<notin> rec_Key ` set (rests ! j)" if j: "i < j" "j < length rests" for j
    proof -
      have "rests ! j \<noteq> [] \<longrightarrow> ?k < rec_Key (hd (rests ! j))" using least [OF j(2)] j(1) by auto
      moreover have "key_sorted (rests ! j)" using sorted j by simp
      ultimately show ?thesis by (cases "rests ! j") auto
    qed
    moreover have "key_sorted (rests ! i)" using sorted nth_mem [OF i(1)] by blast
    ultimately have "newest (concat rests) ?k = Some r"
      using newest_concat_last [OF i(1), of r] i(2) by simp
    moreover have "newest out ?k = None"
      using out_above by (metis imageE less_irrefl newest_none_iff)
    ultimately show ?thesis using True
      by (auto simp: newest_append live_def map_add_def newest_def)
  next
    case False
    then have "newest out k = live (newest (concat rests)) k"
      using out newest_concat_strip [OF False] by (auto simp: merged_def live_def)
    then show ?thesis using False by (auto simp: newest_append map_add_def newest_def split: option.splits)
  qed
  ultimately show ?thesis by (auto simp: merged_def)
qed

section \<open>The loops\<close>

abbreviation total :: "Record list list \<Rightarrow> nat" where
  "total rests \<equiv> sum_list (map length rests)"

lemma total_update:
  "i < length rests \<Longrightarrow> rests ! i = r # rs \<Longrightarrow> Suc (total (rests[i := rs])) = total rests"
  by (induction rests arbitrary: i) (auto split: nat.splits)

lemma total_strip: "total (map (strip k) rests) \<le> total rests"
  by (induction rests) (auto intro: add_mono strip_length)

lemma map_strip_update:
  assumes "i < length rests" and "rests ! i = r # rs" and "key_sorted (r # rs)"
  shows "map (strip (rec_Key r)) (rests[i := rs]) = map (strip (rec_Key r)) rests"
proof (rule nth_equalityI)
  fix j assume "j < length (map (strip (rec_Key r)) (rests[i := rs]))"
  then show "map (strip (rec_Key r)) (rests[i := rs]) ! j = map (strip (rec_Key r)) rests ! j"
    using assms strip_tail [OF assms(3)] by (cases "j = i") auto
qed simp

lemma sorted_update:
  assumes "\<forall>rs \<in> set rests. key_sorted rs" and "i < length rests" and "rests ! i = r # rs"
  shows "\<forall>rs \<in> set (rests[i := rs]). key_sorted rs"
proof -
  have "r # rs \<in> set rests" using assms(2,3) by (metis nth_mem)
  then have "key_sorted rs" using assms(1) by fastforce
  then show ?thesis using assms(1) set_update_subset_insert [of rests i rs] by auto
qed

lemma drain_key_state:
  assumes "calm w" and "merge_state w ps h iters rests" and "\<forall>rs \<in> set rests. key_sorted rs"
    and "\<forall>rs \<in> set rests. rs \<noteq> [] \<longrightarrow> k \<le> rec_Key (hd rs)" and "total rests < n"
  shows "\<exists>h' iters'. drain_key n k h iters w = Some (None, h', iters', w)
    \<and> merge_state w ps h' iters' (map (strip k) rests)"
  using assms(2-)
proof (induction n arbitrary: h iters rests)
  case (Suc n)
  show ?case
  proof (cases "h = []")
    case True
    then have "map (strip k) rests = rests"
      using merge_state_empty [OF Suc.prems(1)] by (intro map_idI) auto
    then show ?thesis using True Suc.prems(1) by simp
  next
    case False
    from pop_advance [OF assms(1) Suc.prems(1) False]
    obtain i r rs h1 h2 iters2 where i: "i < length rests" "rests ! i = r # rs" "h ! 0 = head_item i r"
      and pop: "heap_pop item_less h = (head_item i r, h1)"
      and adv: "advance h1 (head_item i r) iters w = (None, h2, iters2, w)"
      and st: "merge_state w ps h2 iters2 (rests[i := rs])"
      and least: "\<And>j. j < length rests \<Longrightarrow> rests ! j \<noteq> [] \<Longrightarrow>
        rec_Key r < rec_Key (hd (rests ! j)) \<or> rec_Key r = rec_Key (hd (rests ! j)) \<and> j \<le> i"
      by metis
    have mem: "r # rs \<in> set rests" using i by (metis nth_mem)
    then have srt: "key_sorted (r # rs)" and ge: "k \<le> rec_Key r" using Suc.prems by auto
    show ?thesis
    proof (cases "rec_Key r = k")
      case False
      have "strip k rs' = rs'" if rs': "rs' \<in> set rests" for rs'
      proof (cases rs')
        case (Cons x xs)
        then have "k < rec_Key x" using rs' least ge False by (fastforce simp: in_set_conv_nth)
        then show ?thesis using Cons by simp
      qed simp
      then have "map (strip k) rests = rests" by (simp add: map_idI)
      then show ?thesis using False i(3) Suc.prems(1) by simp
    next
      case True
      have "\<forall>rs' \<in> set (rests[i := rs]). rs' \<noteq> [] \<longrightarrow> k \<le> rec_Key (hd rs')"
      proof
        fix rs' assume "rs' \<in> set (rests[i := rs])"
        then have "rs' = rs \<or> rs' \<in> set rests" using set_update_subset_insert [of rests i rs] by auto
        then show "rs' \<noteq> [] \<longrightarrow> k \<le> rec_Key (hd rs')"
          using Suc.prems(3) srt True by (cases rs) auto
      qed
      moreover have "total (rests[i := rs]) < n"
        using total_update [OF i(1,2)] Suc.prems(4) by simp
      ultimately obtain h' iters' where "drain_key n k h2 iters2 w = Some (None, h', iters', w)"
        and "merge_state w ps h' iters' (map (strip k) (rests[i := rs]))"
        using Suc.IH [OF st sorted_update [OF Suc.prems(2) i(1,2)]] by blast
      then show ?thesis
        using map_strip_update [OF i(1,2) srt] True False i(3) pop adv by simp
    qed
  qed
qed simp

lemma merge_state_ok: "merge_state w ps h iters rests \<Longrightarrow> rs \<in> set rests \<Longrightarrow> recs_ok rs"
  by (auto simp: merge_state_def iter_at_def in_set_conv_nth)

lemma merge_loop_state:
  assumes "calm w" and "merge_state w ps h iters rests" and "\<forall>rs \<in> set rests. key_sorted rs"
    and "total rests < n" and "table_at w p acc" and "p \<notin> set ps"
    and "f_path (sw_file sw) = p" and "\<not> sw_closed sw"
  shows "\<exists>iters' w' out. merge_loop n h iters sw wrote w = Some (None, iters', wrote \<or> out \<noteq> [], w')
    \<and> merged rests out \<and> table_at w' p (acc @ out) \<and> calm w'
    \<and> (\<forall>q. q \<noteq> p \<longrightarrow> file_at w' q = file_at w q)"
  using assms
proof (induction n arbitrary: h iters rests w acc wrote)
  case (Suc n)
  show ?case
  proof (cases "h = []")
    case True
    then have "concat rests = []" using merge_state_empty [OF Suc.prems(2)] by simp
    then have "merged rests []" unfolding merged_def by (simp only: live_def fun_eq_iff) simp
    then show ?thesis using True Suc.prems by (intro exI [of _ iters] exI [of _ w] exI [of _ "[]"]) simp
  next
    case False
    from pop_advance [OF Suc.prems(1,2) False]
    obtain i r rs h1 h2 iters2 where i: "i < length rests" "rests ! i = r # rs" "h ! 0 = head_item i r"
      and pop: "heap_pop item_less h = (head_item i r, h1)"
      and adv: "advance h1 (head_item i r) iters w = (None, h2, iters2, w)"
      and st: "merge_state w ps h2 iters2 (rests[i := rs])"
      and least: "\<And>j. j < length rests \<Longrightarrow> rests ! j \<noteq> [] \<Longrightarrow>
        rec_Key r < rec_Key (hd (rests ! j)) \<or> rec_Key r = rec_Key (hd (rests ! j)) \<and> j \<le> i"
      by metis
    let ?k = "rec_Key r"
    have mem: "r # rs \<in> set rests" using i by (metis nth_mem)
    then have srt: "key_sorted (r # rs)" using Suc.prems(3) by auto
    have "rec_ok r" using merge_state_ok [OF Suc.prems(2) mem] by simp
    have ge: "\<forall>rs' \<in> set (rests[i := rs]). rs' \<noteq> [] \<longrightarrow> ?k \<le> rec_Key (hd rs')"
    proof
      fix rs' assume "rs' \<in> set (rests[i := rs])"
      then have "rs' = rs \<or> rs' \<in> set rests" using set_update_subset_insert [of rests i rs] by auto
      then show "rs' \<noteq> [] \<longrightarrow> ?k \<le> rec_Key (hd rs')"
      proof
        assume "rs' = rs"
        then show ?thesis using srt by (cases rs) auto
      next
        assume "rs' \<in> set rests"
        then show ?thesis using least by (fastforce simp: in_set_conv_nth)
      qed
    qed
    have tot: "total (rests[i := rs]) < n" using total_update [OF i(1,2)] Suc.prems(4) by simp
    obtain h3 iters3 where drain: "drain_key n ?k h2 iters2 w = Some (None, h3, iters3, w)"
      and st3: "merge_state w ps h3 iters3 (map (strip ?k) rests)"
      using drain_key_state [OF Suc.prems(1) st sorted_update [OF Suc.prems(3) i(1,2)] ge tot]
        map_strip_update [OF i(1,2) srt] by auto
    have srt3: "\<forall>rs \<in> set (map (strip ?k) rests). key_sorted rs"
      using Suc.prems(3) strip_sorted by auto
    have tot3: "total (map (strip ?k) rests) < n"
      using total_strip [of ?k "rests[i := rs]"] tot map_strip_update [OF i(1,2) srt] by simp
    have step: "merged rests ((if rec_Type r = TypePut then [r] else []) @ out)"
      if "merged (map (strip ?k) rests) out" for out
      using merged_step [OF i(1,2) Suc.prems(3) least that] .
    show ?thesis
    proof (cases "rec_Type r = TypePut")
      case False
      from Suc.IH [OF Suc.prems(1) st3 srt3 tot3 Suc.prems(5-8), of wrote] step
      show ?thesis using False \<open>h \<noteq> []\<close> pop adv drain by simp blast
    next
      case True
      let ?w' = "set_file p (frames (acc @ [r])) w"
      have app: "WriterAppend sw r w = (None, ?w')" and tab: "table_at ?w' p (acc @ [r])"
        using WriterAppend_table [OF Suc.prems(1,5,7,8) \<open>rec_ok r\<close>] by blast+
      have "merge_state ?w' ps h3 iters3 (map (strip ?k) rests)"
        using st3 Suc.prems(6) merge_state_cong [of ps ?w' w] by auto
      from Suc.IH [OF _ this srt3 tot3 tab Suc.prems(6-8), of True]
      obtain iters' w' out where "merge_loop n h3 iters3 sw True ?w' = Some (None, iters', True, w')"
        and "merged (map (strip ?k) rests) out" and "table_at w' p (acc @ [r] @ out)" and "calm w'"
        and "\<forall>q. q \<noteq> p \<longrightarrow> file_at w' q = file_at w q"
        using Suc.prems(1) by auto
      then show ?thesis using True \<open>h \<noteq> []\<close> pop adv drain app step
        by (intro exI [of _ iters'] exI [of _ w'] exI [of _ "[r] @ out"]) simp
    qed
  qed
qed simp

section \<open>The whole merge\<close>

text \<open>Open tables and the records of their files, oldest table first.\<close>

definition tables_at :: "world \<Rightarrow> SSTable list \<Rightarrow> Record list list \<Rightarrow> bool" where
  "tables_at w = list_all2 (\<lambda>s rs. table_at w (sst_path s) rs \<and> sst_repr s (sst_path s) rs)"

lemma tables_at_simps [simp]:
  "tables_at w [] rss \<longleftrightarrow> rss = []"
  "tables_at w (s # ss) rss \<longleftrightarrow> (\<exists>rs rss'. rss = rs # rss' \<and> table_at w (sst_path s) rs
     \<and> sst_repr s (sst_path s) rs \<and> tables_at w ss rss')"
  by (auto simp: tables_at_def list_all2_Cons1)

lemma tables_at_length: "tables_at w ss rss \<Longrightarrow> length ss = length rss"
  by (auto simp: tables_at_def dest: list_all2_lengthD)

lemma tables_at_snoc:
  "tables_at w ss rss \<Longrightarrow> table_at w (sst_path s) rs \<Longrightarrow> sst_repr s (sst_path s) rs \<Longrightarrow>
     tables_at w (ss @ [s]) (rss @ [rs])"
  by (auto simp: tables_at_def list_all2_appendI)

lemma tables_at_cong:
  "\<forall>s \<in> set ss. file_at w' (sst_path s) = file_at w (sst_path s) \<Longrightarrow>
     tables_at w' ss rss = tables_at w ss rss"
  by (induction ss arbitrary: rss) (auto simp: table_at_def)

lemma open_iters_state:
  assumes "calm w" and "merge_state w ps h iters rss0" and "tables_at w ss rss"
  shows "\<exists>h' iters'. open_iters ss iters h w = (Inr (iters', h'), w)
    \<and> merge_state w (ps @ map sst_path ss) h' iters' (rss0 @ rss)"
  using assms(2,3)
proof (induction ss arbitrary: ps h iters rss0 rss)
  case (Cons s ss)
  then obtain rs rss' where rss: "rss = rs # rss'" "table_at w (sst_path s) rs"
    "sst_repr s (sst_path s) rs" "tables_at w ss rss'"
    by auto
  obtain it where new: "SstNewIterator s w = (Inr it, w)" and it: "iter_at w (sst_path s) it rs"
    using SstNewIterator_table [OF assms(1) rss(2,3)] by blast
  let ?h = "if IterValid it then heap_push item_less
      \<lparr>hi_rec = IterRecord it, hi_tableID = int (length iters), hi_iter = length iters\<rparr> h else h"
  have len: "length iters = length rss0" "length ps = length rss0"
    and inv: "heap_inv item_less h (length h)" and ms: "mset h = heads rss0"
    using Cons.prems(1) by (simp_all add: merge_state_def)
  have "heap_inv item_less ?h (length ?h) \<and> mset ?h = heads (rss0 @ [rs])"
  proof (cases rs)
    case Nil
    then show ?thesis using iter_at_valid [OF it] inv ms by (simp add: heads_snoc)
  next
    case (Cons r rs')
    then have "IterRecord it = r" using iter_at_record it by blast
    then show ?thesis
      using iter_at_valid [OF it] Cons ms recheap.slice.push_inv [OF inv] recheap.slice.push_elems [OF inv] len
      by (simp add: heads_snoc head_item_def)
  qed
  then have "merge_state w (ps @ [sst_path s]) ?h (iters @ [it]) (rss0 @ [rs])"
    using Cons.prems(1) len it by (auto simp: merge_state_def nth_append less_Suc_eq)
  from Cons.IH [OF this rss(4)] show ?case
    using new iter_at_err [OF it] rss(1) by simp
qed simp

lemma close_iters_calm [os_simps]: "calm w \<Longrightarrow> close_iters its w = w"
proof (induction its)
  case (Cons it its)
  obtain it' where "IterClose it w = (None, it', w)" using IterClose_calm [OF Cons.prems] by blast
  then show ?case using Cons by simp
qed simp

lemma frames_length: "length rs \<le> length (frames rs)"
  by (induction rs) (auto simp: record_consts)

lemma merge_fuel_enough:
  "tables_at w ss rss \<Longrightarrow> total rss < merge_fuel ss w"
proof -
  assume "tables_at w ss rss"
  then have "total rss \<le> sum_list (map (\<lambda>s. length (file_data w (sst_path s))) ss)"
  proof (induction ss arbitrary: rss)
    case (Cons s ss)
    then obtain rs rss' where rss: "rss = rs # rss'" "table_at w (sst_path s) rs" "tables_at w ss rss'"
      by auto
    then have "length rs \<le> length (file_data w (sst_path s))"
      using frames_length [of rs] by (simp add: table_at_def)
    then show ?case using Cons.IH [OF rss(3)] rss(1) by simp
  qed simp
  then show ?thesis by (simp add: merge_fuel_def)
qed

lemma merge_state_start: "merge_state w [] [] [] []"
  by (simp add: merge_state_def heap_inv_def)

text \<open>
  \<open>Run\<close> on calm days: it ends within the fuel, its table holds the merge of its inputs, and an
  empty merge leaves no file.
\<close>

lemma Run_merge:
  assumes "calm w" and tabs: "tables_at w ss rss" and srt: "\<forall>rs \<in> set rss. key_sorted rs"
    and p: "p \<noteq> []" "p \<notin> sst_path ` set ss"
  shows "\<exists>w' out res. Run ss p w = Some (Inr res, w') \<and> merged rss out \<and> calm w'
    \<and> (\<forall>q. q \<noteq> p \<longrightarrow> file_at w' q = file_at w q)
    \<and> (if out = [] then res = None \<and> file_at w' p = None
       else table_at w' p out \<and> (\<exists>s. res = Some s \<and> sst_repr s p out))"
proof -
  obtain h iters where op: "open_iters ss [] [] w = (Inr (iters, h), w)"
    and st: "merge_state w (map sst_path ss) h iters rss"
    using open_iters_state [OF assms(1) merge_state_start tabs] by auto
  let ?w2 = "set_file p [] w"
  obtain sw where cr: "CreateSSTableWriter p w = (Inr sw, ?w2)" and sw: "f_path (sw_file sw) = p" "\<not> sw_closed sw"
    using CreateSSTableWriter_calm [OF assms(1) p(1)] by auto
  have "\<forall>s \<in> set ss. file_at ?w2 (sst_path s) = file_at w (sst_path s)" using p(2) by auto
  then have tabs2: "tables_at ?w2 ss rss" using tables_at_cong tabs by blast
  have st2: "merge_state ?w2 (map sst_path ss) h iters rss"
    using st p(2) by (subst merge_state_cong [of "map sst_path ss" ?w2 w]) auto
  have c2: "calm ?w2" using assms(1) by simp
  have t2: "table_at ?w2 p []" by (simp add: table_at_def)
  obtain iters' w3 out where loop: "merge_loop (merge_fuel ss ?w2) h iters sw False ?w2
      = Some (None, iters', out \<noteq> [], w3)"
    and out: "merged rss out" "table_at w3 p out" "calm w3" "\<forall>q. q \<noteq> p \<longrightarrow> file_at w3 q = file_at ?w2 q"
    using merge_loop_state [OF c2 st2 srt merge_fuel_enough [OF tabs2] t2 _ sw, of False] p(2) by auto
  have cl: "WriterClose sw w3 = (None, sw\<lparr>sw_closed := True\<rparr>, w3)"
    using out(3) sw by (simp add: WriterClose_def os_simps)
  show ?thesis
  proof (cases "out = []")
    case True
    have "os_remove p w3 = (None, del_file p w3)"
      using out(2,3) by (simp add: os_remove_calm table_at_def)
    then have "Run ss p w = Some (Inr None, del_file p w3)"
      using True op cr loop cl out(3) by (simp add: Run_def Let_def os_simps)
    then show ?thesis using True out
      by (intro exI [of _ "del_file p w3"] exI [of _ "[]"] exI [of _ None]) simp
  next
    case False
    obtain s where "SstOpen 0 p w3 = (Inr s, w3)" and s: "sst_repr s p out"
      using SstOpen_table [OF out(3,2) p(1), of 0] by blast
    then have "Run ss p w = Some (Inr (Some s), w3)"
      using False op cr loop cl out(3) by (simp add: Run_def Let_def os_simps)
    then show ?thesis using False out s
      by (intro exI [of _ w3] exI [of _ out] exI [of _ "Some s"]) simp
  qed
qed

section \<open>Properties\<close>

text \<open>
  C6: \<open>Run\<close> merges.  Given open tables whose files hold their records in key order, oldest table
  first, and an output path that is none of theirs, \<open>Run\<close> ends and succeeds; the output holds, in
  strictly increasing key order, exactly one record per key that is live in the newest table that
  has the key, namely that table's record; keys whose newest record is a tombstone are gone; when
  nothing is left there is no output file; no other file changes.
\<close>

theorem Run_merges_tables:
  assumes "faults w = []" and "p \<noteq> []" and "p \<notin> sst_path ` set ss"
    and "tables_at w ss rss" and "\<forall>rs \<in> set rss. sorted_wrt (<) (map rec_Key rs)"
  shows "\<exists>res w' out. Run ss p w = Some (Inr res, w')
    \<and> sorted_wrt (<) (map rec_Key out)
    \<and> (\<forall>r. r \<in> set out \<longleftrightarrow> newest (concat rss) (rec_Key r) = Some r \<and> rec_Type r = TypePut)
    \<and> (\<forall>q. q \<noteq> p \<longrightarrow> file_at w' q = file_at w q)
    \<and> (if out = [] then res = None \<and> file_at w' p = None
       else file_at w' p = Some (frames out) \<and> res \<noteq> None)"
proof -
  obtain w' out res where run: "Run ss p w = Some (Inr res, w')" and mg: "merged rss out"
    and oth: "\<forall>q. q \<noteq> p \<longrightarrow> file_at w' q = file_at w q"
    and res: "if out = [] then res = None \<and> file_at w' p = None
       else table_at w' p out \<and> (\<exists>s. res = Some s \<and> sst_repr s p out)"
    using Run_merge [OF assms(1,4,5,2,3)] by blast
  have srt: "key_sorted out" and new: "newest out = live (newest (concat rss))"
    using mg by (simp_all add: merged_def)
  have "r \<in> set out \<longleftrightarrow> newest out (rec_Key r) = Some r" for r
    using newest_distinct_iff [OF key_sorted_distinct [OF srt]] by auto
  then have "r \<in> set out \<longleftrightarrow> newest (concat rss) (rec_Key r) = Some r \<and> rec_Type r = TypePut" for r
    unfolding new by (auto simp: live_def split: option.splits if_splits)
  then show ?thesis using run srt oth res
    by (intro exI [of _ res] exI [of _ w'] exI [of _ out]) (auto simp: table_at_def)
qed

theorem Run_merges_tables_witness:
  "\<exists>res w' out. Run
      [\<lparr>sst_id = 0, sst_path = [''0''], sst_file = \<lparr>f_path = [''0''], f_pos = 0\<rparr>, sst_size = 11,
         sst_index = [([65], 0)], sst_closed = False\<rparr>,
       \<lparr>sst_id = 1, sst_path = [''1''], sst_file = \<lparr>f_path = [''1''], f_pos = 0\<rparr>, sst_size = 11,
         sst_index = [([65], 0)], sst_closed = False\<rparr>]
      [''out'']
      \<lparr>disk = [([''0''], frame \<lparr>rec_Type = 1, rec_Key = [65], rec_Value = [1]\<rparr>),
                ([''1''], frame \<lparr>rec_Type = 1, rec_Key = [65], rec_Value = [2]\<rparr>)], faults = []\<rparr>
      = Some (Inr res, w')
    \<and> file_at w' [''out''] = Some (frames out)
    \<and> \<lparr>rec_Type = 1, rec_Key = [65], rec_Value = [2]\<rparr> \<in> set out
    \<and> \<lparr>rec_Type = 1, rec_Key = [65], rec_Value = [1]\<rparr> \<notin> set out"
proof -
  let ?r = "\<lparr>rec_Type = 1, rec_Key = [65], rec_Value = [1]\<rparr>" and ?r' = "\<lparr>rec_Type = 1, rec_Key = [65], rec_Value = [2]\<rparr>"
  let ?s = "\<lparr>sst_id = 0, sst_path = [''0''], sst_file = \<lparr>f_path = [''0''], f_pos = 0\<rparr>, sst_size = 11,
    sst_index = [([65], 0)], sst_closed = False\<rparr>"
  let ?s' = "\<lparr>sst_id = 1, sst_path = [''1''], sst_file = \<lparr>f_path = [''1''], f_pos = 0\<rparr>, sst_size = 11,
    sst_index = [([65], 0)], sst_closed = False\<rparr>"
  let ?w = "\<lparr>disk = [([''0''], frame ?r), ([''1''], frame ?r')], faults = []\<rparr>"
  have tabs: "tables_at ?w [?s, ?s'] [[?r], [?r']]"
    by (simp add: table_at_def sst_repr_def file_at_def rec_ok_iff TypePut_def MaxUint32_def record_consts)
  have new: "newest (concat [[?r], [?r']]) = [[65] \<mapsto> ?r']" by (simp add: newest_def)
  obtain res w' out where run: "Run [?s, ?s'] [''out''] ?w = Some (Inr res, w')"
    and mem: "\<forall>r. r \<in> set out \<longleftrightarrow> newest (concat [[?r], [?r']]) (rec_Key r) = Some r \<and> rec_Type r = TypePut"
    and fin: "if out = [] then res = None \<and> file_at w' [''out''] = None
      else file_at w' [''out''] = Some (frames out) \<and> res \<noteq> None"
    using Run_merges_tables [OF _ _ _ tabs, of "[''out'']"] by (elim meta_impE) (simp_all, blast)
  have "?r' \<in> set out" "?r \<notin> set out" using mem unfolding new by (simp_all add: TypePut_def)
  moreover from this have "file_at w' [''out''] = Some (frames out)" using fin by (cases "out = []") simp_all
  ultimately show ?thesis using run by blast
qed

end
