(* ===== verification/KV_Paths.thy ===== *)
theory KV_Paths
  imports KV_Platform
begin

text \<open>
  The names the engine gives to its files: path cleaning and the directory check of
  \<open>internal/platform/utils.go\<close>, and the functions of \<open>path/filepath\<close>, \<open>strings\<close>, \<open>fmt\<close> and
  \<open>strconv\<close> that \<open>db.go\<close> applies to file names.
\<close>

section \<open>filepath.Clean\<close>

text \<open>The text between the separators.\<close>

fun split_on :: "char \<Rightarrow> string \<Rightarrow> string list" where
  "split_on c [] = [[]]"
| "split_on c (x # xs) =
     (if x = c then [] # split_on c xs
      else (case split_on c xs of [] \<Rightarrow> [[x]] | p # ps \<Rightarrow> (x # p) # ps))"

text \<open>The elements of a cleaned path, last first: \<open>..\<close> removes the element before it.\<close>

fun clean_elems :: "bool \<Rightarrow> string list \<Rightarrow> string list \<Rightarrow> string list" where
  "clean_elems rooted acc [] = acc"
| "clean_elems rooted acc (e # es) =
     (if e = [] \<or> e = ''.'' then clean_elems rooted acc es
      else if e = ''..'' then
        (case acc of
           [] \<Rightarrow> clean_elems rooted (if rooted then [] else [e]) es
         | a # acc' \<Rightarrow> clean_elems rooted (if a = ''..'' then e # acc else acc') es)
      else clean_elems rooted (e # acc) es)"

definition is_rooted :: "string \<Rightarrow> bool" where
  "is_rooted s \<longleftrightarrow> s \<noteq> [] \<and> hd s = CHR ''/''"

text \<open>
  The path a string names: the elements of the cleaned string, with \<open>''/''\<close> in front when it is
  rooted.  The empty string and \<open>.\<close> are the empty path.
\<close>

definition path_of :: "string \<Rightarrow> path" where
  "path_of s = (if is_rooted s then [''/''] else [])
     @ rev (clean_elems (is_rooted s) [] (split_on (CHR ''/'') s))"

fun join_elems :: "string list \<Rightarrow> string" where
  "join_elems [] = []"
| "join_elems [e] = e"
| "join_elems (e # es) = e @ ''/'' @ join_elems es"

definition Clean :: "string \<Rightarrow> string" where
  "Clean s =
     (let es = rev (clean_elems (is_rooted s) [] (split_on (CHR ''/'') s))
      in if is_rooted s then ''/'' @ join_elems es else if es = [] then ''.'' else join_elems es)"

section \<open>IsValidDir and CreateDir\<close>

definition IsValidDir :: "string \<Rightarrow> bool" where
  "IsValidDir dir =
     (if dir = [] then False
      else
        (let dir1 = Clean dir
         in if \<not> (CHR 0x00 \<in> set dir1) then False else True))"

text \<open>
  \<open>os.MkdirAll\<close> of a string: it fails for the empty name and for a name with a NUL, which no
  system call accepts.
\<close>

definition mkdir_all_string :: "string \<Rightarrow> world \<Rightarrow> err option \<times> world" where
  "mkdir_all_string s w =
     (if s = [] then (Some ErrNotExist, w)
      else if CHR 0x00 \<in> set s then (Some (OsErr ''invalid argument''), w)
      else os_mkdir_all (path_of s) w)"

definition CreateDir :: "string \<Rightarrow> world \<Rightarrow> err option \<times> world" where
  "CreateDir dir w =
     (if IsValidDir dir then (Some ErrInvalidPara, w) else mkdir_all_string dir w)"

section \<open>Decimal numbers\<close>

definition digit :: "nat \<Rightarrow> char" where
  "digit d = char_of (48 + d)"

fun decimal :: "nat \<Rightarrow> string" where
  "decimal n = (if n < 10 then [digit n] else decimal (n div 10) @ [digit (n mod 10)])"

declare decimal.simps [simp del]

definition pad_zeros :: "nat \<Rightarrow> string \<Rightarrow> string" where
  "pad_zeros k s = replicate (k - length s) (CHR ''0'') @ s"

text \<open>\<open>fmt.Sprintf("%04d.sst", n)\<close>\<close>

definition sst_name :: "int \<Rightarrow> string" where
  "sst_name n =
     (if n < 0 then ''-'' @ pad_zeros 3 (decimal (nat (- n))) else pad_zeros 4 (decimal (nat n)))
     @ ''.sst''"

definition digit_val :: "char \<Rightarrow> nat" where
  "digit_val c = of_char c - 48"

definition is_digit :: "char \<Rightarrow> bool" where
  "is_digit c \<longleftrightarrow> 48 \<le> (of_char c :: nat) \<and> (of_char c :: nat) \<le> 57"

definition decimal_val :: "string \<Rightarrow> nat" where
  "decimal_val s = foldl (\<lambda>v c. 10 * v + digit_val c) 0 s"

text \<open>
  \<open>strconv.Atoi\<close>, of which \<open>loadSstables\<close> drops the error: 0 for text that is not a number, the
  nearest \<open>int\<close> for a number out of range.
\<close>

definition Atoi :: "string \<Rightarrow> int" where
  "Atoi s =
     (let neg = (s \<noteq> [] \<and> hd s = CHR ''-'');
          ds = (if s \<noteq> [] \<and> (hd s = CHR ''-'' \<or> hd s = CHR ''+'') then tl s else s)
      in if ds = [] \<or> \<not> list_all is_digit ds then 0
         else if neg then max (- (2 ^ 63)) (- int (decimal_val ds))
         else min (2 ^ 63 - 1) (int (decimal_val ds)))"

section \<open>File names\<close>

definition CutSuffix :: "string \<Rightarrow> string \<Rightarrow> string \<times> bool" where
  "CutSuffix s suf =
     (if length suf \<le> length s \<and> drop (length s - length suf) s = suf
      then (take (length s - length suf) s, True) else (s, False))"

definition has_sst_suffix :: "string \<Rightarrow> bool" where
  "has_sst_suffix s \<longleftrightarrow> snd (CutSuffix s ''.sst'')"

text \<open>\<open>filepath.Base\<close>: the last element.\<close>

definition path_Base :: "string \<Rightarrow> string" where
  "path_Base s =
     (if s = [] then ''.''
      else
        (let s1 = rev (dropWhile (\<lambda>c. c = CHR ''/'') (rev s))
         in if s1 = [] then ''/''
            else rev (takeWhile (\<lambda>c. c \<noteq> CHR ''/'') (rev s1))))"

text \<open>\<open>filepath.Ext\<close>: from the last dot of the last element, empty when it has none.\<close>

definition path_Ext :: "string \<Rightarrow> string" where
  "path_Ext s =
     (let r = rev s; suf = takeWhile (\<lambda>c. c \<noteq> CHR ''.'' \<and> c \<noteq> CHR ''/'') r; rest = drop (length suf) r
      in if rest \<noteq> [] \<and> hd rest = CHR ''.'' then ''.'' @ rev suf else [])"

section \<open>Numbers and names\<close>

lemma of_char_digit [simp]: "d < 10 \<Longrightarrow> (of_char (digit d) :: nat) = 48 + d"
  by (simp add: digit_def)

lemma digit_val_digit [simp]: "d < 10 \<Longrightarrow> digit_val (digit d) = d"
  by (simp add: digit_val_def)

lemma is_digit_digit [simp]: "d < 10 \<Longrightarrow> is_digit (digit d)"
  by (simp add: is_digit_def)

lemma digit_less_iff [simp]: "d < 10 \<Longrightarrow> e < 10 \<Longrightarrow> digit d < digit e \<longleftrightarrow> d < e"
  by (simp add: less_char_def)

lemma digit_eq_iff [simp]: "d < 10 \<Longrightarrow> e < 10 \<Longrightarrow> digit d = digit e \<longleftrightarrow> d = e"
  by (metis digit_val_digit)

lemma zero_digit: "CHR ''0'' = digit 0"
  by (simp add: digit_def) code_simp

lemma decimal_nonempty [simp]: "decimal n \<noteq> []"
  by (subst decimal.simps) simp

lemma decimal_digits: "list_all is_digit (decimal n)"
proof (induction n rule: decimal.induct)
  case (1 n)
  then show ?case by (subst decimal.simps) simp
qed

lemma decimal_val_snoc [simp]: "decimal_val (s @ [c]) = 10 * decimal_val s + digit_val c"
  by (simp add: decimal_val_def)

lemma decimal_val_decimal [simp]: "decimal_val (decimal n) = n"
proof (induction n rule: decimal.induct)
  case (1 n)
  show ?case
  proof (cases "n < 10")
    case True
    then show ?thesis by (subst decimal.simps) (simp add: decimal_val_def)
  next
    case False
    then show ?thesis using 1 by (subst decimal.simps) simp
  qed
qed

lemma decimal_val_zeros: "decimal_val (replicate k (CHR ''0'') @ s) = decimal_val s"
proof (induction s rule: rev_induct)
  case Nil
  show ?case by (induction k) (simp_all add: decimal_val_def digit_val_def)
next
  case (snoc c s)
  then show ?case by (simp only: append_assoc [symmetric] decimal_val_snoc)
qed

lemma decimal_val_pad [simp]: "decimal_val (pad_zeros k s) = decimal_val s"
  by (simp add: pad_zeros_def decimal_val_zeros)

lemma sst_name_inj: "sst_name (int m) = sst_name (int n) \<Longrightarrow> m = n"
proof -
  assume "sst_name (int m) = sst_name (int n)"
  then have "pad_zeros 4 (decimal m) = pad_zeros 4 (decimal n)" by (simp add: sst_name_def)
  then show "m = n" by (metis decimal_val_decimal decimal_val_pad)
qed

lemma CutSuffix_append [simp]: "CutSuffix (s @ suf) suf = (s, True)"
  by (simp add: CutSuffix_def)

lemma CutSuffix_iff: "CutSuffix s suf = (t, True) \<longleftrightarrow> s = t @ suf"
proof
  assume "CutSuffix s suf = (t, True)"
  then have "t = take (length s - length suf) s" and "suf = drop (length s - length suf) s"
    by (auto simp: CutSuffix_def split: if_splits)
  then show "s = t @ suf" by (metis append_take_drop_id)
qed (simp add: CutSuffix_def)

lemma has_sst_suffix_iff: "has_sst_suffix s \<longleftrightarrow> (\<exists>t. s = t @ ''.sst'')"
  unfolding has_sst_suffix_def using CutSuffix_iff [of s "''.sst''"]
  by (cases "CutSuffix s ''.sst''") auto

lemma sst_name_suffix [simp]: "has_sst_suffix (sst_name n)"
  by (auto simp: has_sst_suffix_iff sst_name_def)

lemma compact_tmp_suffix [simp]: "\<not> has_sst_suffix ''compact.tmp''"
  by (simp add: has_sst_suffix_def CutSuffix_def)

text \<open>The name of a table gives its number back.\<close>

lemma Atoi_sst_name:
  assumes "n < 2 ^ 63"
  shows "CutSuffix (sst_name (int n)) ''.sst'' = (pad_zeros 4 (decimal n), True)"
    and "Atoi (pad_zeros 4 (decimal n)) = int n"
proof -
  show "CutSuffix (sst_name (int n)) ''.sst'' = (pad_zeros 4 (decimal n), True)"
    by (simp add: sst_name_def)
  have ds: "list_all is_digit (pad_zeros 4 (decimal n))"
    using decimal_digits [of n] by (auto simp: pad_zeros_def list_all_iff is_digit_def)
  have ne: "pad_zeros 4 (decimal n) \<noteq> []" by (simp add: pad_zeros_def)
  then have "is_digit (hd (pad_zeros 4 (decimal n)))" using ds by (simp add: list_all_iff)
  then have "hd (pad_zeros 4 (decimal n)) \<noteq> CHR ''-''" "hd (pad_zeros 4 (decimal n)) \<noteq> CHR ''+''"
    by (auto simp: is_digit_def)
  moreover have "int n \<le> 2 ^ 63 - 1" using assms by simp
  ultimately show "Atoi (pad_zeros 4 (decimal n)) = int n"
    using ds ne by (simp add: Atoi_def Let_def)
qed

section \<open>The order of the names\<close>

lemma sst_name_digits:
  assumes "a < 10" "b < 10" "c < 10" "d < 10"
  shows "sst_name (int (1000 * a + 100 * b + 10 * c + d))
    = [digit a, digit b, digit c, digit d] @ ''.sst''"
proof -
  let ?n = "1000 * a + 100 * b + 10 * c + d"
  have ten: "(10 * x + y) mod 10 = y" "(10 * x + y) div 10 = x" if "y < 10" for x y :: nat
    using that by simp_all
  have n: "?n = 10 * (100 * a + 10 * b + c) + d" "100 * a + 10 * b + c = 10 * (10 * a + b) + c"
    by simp_all
  have dm: "?n mod 10 = d" "?n div 10 = 100 * a + 10 * b + c"
    "(100 * a + 10 * b + c) mod 10 = c" "(100 * a + 10 * b + c) div 10 = 10 * a + b"
    "(10 * a + b) mod 10 = b" "(10 * a + b) div 10 = a"
    unfolding n(1) ten [OF assms(4)] unfolding n(2) ten [OF assms(3)] ten [OF assms(2)]
    by (rule refl)+
  have d1: "decimal a = [digit a]" using assms by (simp add: decimal.simps)
  have d2: "decimal (10 * a + b) = (if a = 0 then [digit b] else [digit a, digit b])"
    using assms by (subst decimal.simps) (simp add: dm d1)
  have d3: "decimal (100 * a + 10 * b + c) =
      (if 10 * a + b = 0 then [digit c] else decimal (10 * a + b) @ [digit c])"
    using assms by (subst decimal.simps) (auto simp: dm)
  have d4: "decimal ?n = (if 100 * a + 10 * b + c = 0 then [digit d]
      else decimal (100 * a + 10 * b + c) @ [digit d])"
    using assms by (subst decimal.simps) (auto simp: dm)
  have "pad_zeros 4 (decimal ?n) = [digit a, digit b, digit c, digit d]"
    unfolding d4 d3 d2
    by (cases "a = 0"; cases "b = 0"; cases "c = 0") (simp_all add: pad_zeros_def zero_digit numeral_eq_Suc)
  then show ?thesis unfolding sst_name_def nat_int by simp
qed

lemma four_digits:
  assumes "n < 10000"
  obtains a b c d :: nat where "n = 1000 * a + 100 * b + 10 * c + d"
    and "a < 10" and "b < 10" and "c < 10" and "d < 10"
proof
  show "n = 1000 * (n div 1000) + 100 * (n div 100 mod 10) + 10 * (n div 10 mod 10) + n mod 10"
  proof -
    have "n = 10 * (n div 10) + n mod 10" "n div 10 = 10 * (n div 100) + n div 10 mod 10"
      "n div 100 = 10 * (n div 1000) + n div 100 mod 10"
      by (simp_all add: div_mult2_eq [of n 10 10, simplified] div_mult2_eq [of n 100 10, simplified])
    then show ?thesis by linarith
  qed
qed (use assms in auto)

text \<open>Below ten thousand tables the order of the names is the order of the numbers.\<close>

lemma sst_name_less:
  assumes "m < n" and "n < 10000"
  shows "sst_name (int m) < sst_name (int n)"
proof -
  obtain a b c d where m: "m = 1000 * a + 100 * b + 10 * c + d" "a < 10" "b < 10" "c < 10" "d < 10"
    using four_digits [of m] assms by (metis less_trans)
  obtain a' b' c' d' where n: "n = 1000 * a' + 100 * b' + 10 * c' + d'"
    "a' < 10" "b' < 10" "c' < 10" "d' < 10"
    using four_digits [OF assms(2)] by metis
  have "a < a' \<or> a = a' \<and> (b < b' \<or> b = b' \<and> (c < c' \<or> c = c' \<and> d < d'))"
    using assms(1) m n by linarith
  then show ?thesis
    using m(2-) n(2-)
    unfolding m(1) n(1) sst_name_digits [OF m(2-)] sst_name_digits [OF n(2-)] by auto
qed

definition sst_names :: "nat \<Rightarrow> string list" where
  "sst_names n = map (\<lambda>i. sst_name (int i)) [0..<n]"

lemma sst_names_sorted: "n \<le> 10000 \<Longrightarrow> sorted_wrt (<) (sst_names n)"
  by (auto simp: sst_names_def sorted_wrt_map sorted_wrt_iff_nth_less intro: sst_name_less)

lemma sst_names_distinct: "distinct (sst_names n)"
  by (auto simp: sst_names_def distinct_map inj_on_def dest: sst_name_inj)

section \<open>Base and Ext\<close>

lemma path_Base_plain: "s \<noteq> [] \<Longrightarrow> CHR ''/'' \<notin> set s \<Longrightarrow> path_Base s = s"
proof -
  assume s: "s \<noteq> []" "CHR ''/'' \<notin> set s"
  then have "dropWhile (\<lambda>c. c = CHR ''/'') (rev s) = rev s"
    unfolding dropWhile_eq_self_iff using hd_in_set [of "rev s"] by auto
  moreover have "takeWhile (\<lambda>c. c \<noteq> CHR ''/'') (rev s) = rev s"
    unfolding takeWhile_eq_all_conv using s by auto
  ultimately show ?thesis using s(1) unfolding path_Base_def Let_def by (simp only: rev_rev_ident if_False)
qed

lemma path_Ext_sst: "path_Ext s = ''.sst'' \<longleftrightarrow> has_sst_suffix s"
proof
  assume "has_sst_suffix s"
  then obtain t where "s = t @ ''.sst''" by (auto simp: has_sst_suffix_iff)
  then show "path_Ext s = ''.sst''" by (simp add: path_Ext_def)
next
  assume ext: "path_Ext s = ''.sst''"
  define suf where "suf = takeWhile (\<lambda>c. c \<noteq> CHR ''.'' \<and> c \<noteq> CHR ''/'') (rev s)"
  define rest where "rest = drop (length suf) (rev s)"
  have "rest \<noteq> [] \<and> hd rest = CHR ''.''" and "''.'' @ rev suf = ''.sst''"
    using ext by (auto simp: path_Ext_def Let_def suf_def rest_def split: if_splits)
  then obtain rest' where "rest = CHR ''.'' # rest'" and "rev suf = ''sst''"
    by (cases rest) auto
  moreover have "rev s = suf @ rest"
    unfolding suf_def rest_def dropWhile_eq_drop [symmetric] by simp
  ultimately have "rev (rev s) = rev rest' @ ''.'' @ ''sst''" by simp
  then have "s = rev rest' @ ''.sst''" by simp
  then show "has_sst_suffix s" by (auto simp: has_sst_suffix_iff)
qed

lemma sst_name_plain: "CHR ''/'' \<notin> set (sst_name (int n))"
  using decimal_digits [of n] by (auto simp: sst_name_def pad_zeros_def list_all_iff is_digit_def)

lemma path_Base_sst_name [simp]: "path_Base (sst_name (int n)) = sst_name (int n)"
  by (rule path_Base_plain) (simp_all add: sst_name_plain, simp add: sst_name_def)

text \<open>No name that \<open>Base\<close> returns leaves its directory, \<open>/\<close> alone excepted.\<close>

lemma path_Base_no_slash: "path_Base s = ''/'' \<or> CHR ''/'' \<notin> set (path_Base s)"
  by (auto simp: path_Base_def Let_def dest: set_takeWhileD)

section \<open>Properties\<close>

text \<open>
  Table numbers and table names.  Different numbers have different names; \<open>loadSstables\<close> reads
  the number back from the name; below ten thousand the name order, in which a directory is listed,
  is the number order.
\<close>

lemma sst_names_of_numbers:
  "(sst_name (int m) = sst_name (int n)) = (m = n)
   \<and> (case CutSuffix (sst_name (int n)) ''.sst'' of
        (base, found) \<Rightarrow> found \<and> (Atoi base = int n \<or> 2 ^ 63 \<le> n))
   \<and> (10000 \<le> m \<or> 10000 \<le> n \<or> (sst_name (int m) < sst_name (int n)) = (m < n))"
proof (intro conjI)
  show "(sst_name (int m) = sst_name (int n)) = (m = n)" using sst_name_inj by auto
  show "case CutSuffix (sst_name (int n)) ''.sst'' of (base, found) \<Rightarrow> found \<and> (Atoi base = int n \<or> 2 ^ 63 \<le> n)"
    using Atoi_sst_name [of n] by (cases "n < 2 ^ 63") (auto simp: sst_name_def not_less)
  show "10000 \<le> m \<or> 10000 \<le> n \<or> (sst_name (int m) < sst_name (int n)) = (m < n)"
    using sst_name_less [of m n] sst_name_less [of n m] by (metis less_asym linorder_neqE_nat not_less sst_name_inj)
qed

text \<open>
  The ten thousandth flush breaks the order.  \<open>%04d\<close> does not limit the width, and the name of
  table 10000 comes before the names of the tables 1001 to 9999, which are older: \<open>Open\<close> loads them
  in name order and takes that order for the age.
\<close>

lemma sst_name_order_breaks:
  "sst_name 10000 = ''10000.sst'' \<and> sst_name 10000 < sst_name 1001 \<and> sst_name 10000 < sst_name 9999"
proof -
  have d: "decimal 10000 = [digit 1, digit 0, digit 0, digit 0, digit 0]"
    by (simp add: decimal.simps [of 10000] decimal.simps [of 1000] decimal.simps [of 100]
        decimal.simps [of 10] decimal.simps [of "Suc 0"])
  have "digit 1 = CHR ''1''" by (simp add: digit_def) code_simp
  with d have n: "sst_name 10000 = ''10000.sst''"
    by (simp add: sst_name_def pad_zeros_def zero_digit [symmetric])
  have n': "sst_name 10000 = [digit 1, digit 0, digit 0, digit 0, digit 0] @ ''.sst''"
    using n \<open>digit 1 = CHR ''1''\<close> by (simp add: zero_digit [symmetric])
  have o: "sst_name 1001 = [digit 1, digit 0, digit 0, digit 1] @ ''.sst''"
    "sst_name 9999 = [digit 9, digit 9, digit 9, digit 9] @ ''.sst''"
    using sst_name_digits [of 1 0 0 1] sst_name_digits [of 9 9 9 9] by simp_all
  have "sst_name 10000 < sst_name 1001" "sst_name 10000 < sst_name 9999"
    unfolding n' o by simp_all
  then show ?thesis using n by blast
qed

lemma set_split_on: "\<Union> (set ` set (split_on c s)) \<subseteq> set s"
proof (induction s)
  case (Cons x xs)
  then show ?case by (cases "split_on c xs") auto
qed simp

lemma clean_elems_subset: "set (clean_elems b acc es) \<subseteq> set acc \<union> set es"
proof (induction b acc es rule: clean_elems.induct)
  case (2 b acc e es)
  show ?case
  proof (cases "e = [] \<or> e = ''.'' \<or> e \<noteq> ''..''")
    case True
    then show ?thesis using 2 by auto
  next
    case False
    then show ?thesis using 2(2,3) by (cases acc) (auto split: if_splits)
  qed
qed simp

lemma join_elems_chars: "set (join_elems es) \<subseteq> insert (CHR ''/'') (\<Union> (set ` set es))"
  by (induction es rule: join_elems.induct) auto

lemma Clean_chars: "set (Clean s) \<subseteq> set s \<union> {CHR ''/'', CHR ''.''}"
proof -
  let ?es = "rev (clean_elems (is_rooted s) [] (split_on (CHR ''/'') s))"
  have "\<Union> (set ` set ?es) \<subseteq> set s"
    using clean_elems_subset [of "is_rooted s" "[]" "split_on (CHR ''/'') s"] set_split_on [of "CHR ''/''" s]
    by auto
  then have "set (join_elems ?es) \<subseteq> set s \<union> {CHR ''/''}" using join_elems_chars [of ?es] by blast
  then show ?thesis by (auto simp: Clean_def Let_def split: if_splits)
qed

text \<open>
  \<open>IsValidDir\<close> is inverted.  No directory name without a NUL byte is valid, so \<open>CreateDir\<close>, which
  refuses the valid ones, refuses only names that no system call accepts anyway.
\<close>

lemma IsValidDir_inverted:
  "(IsValidDir dir = False \<or> CHR 0x00 \<in> set dir)
   \<and> (CreateDir dir w = mkdir_all_string dir w \<or> CHR 0x00 \<in> set dir)
   \<and> IsValidDir [CHR ''a'', CHR 0x00] \<and> \<not> IsValidDir ''data''"
proof -
  have "IsValidDir dir \<Longrightarrow> CHR 0x00 \<in> set dir" for dir
    using Clean_chars [of dir] by (auto simp: IsValidDir_def Let_def split: if_splits)
  moreover have "IsValidDir [CHR ''a'', CHR 0x00]"
    by (simp add: IsValidDir_def Clean_def is_rooted_def)
  moreover have "\<not> IsValidDir ''data''"
    by (simp add: IsValidDir_def Clean_def is_rooted_def)
  ultimately show ?thesis by (auto simp: CreateDir_def)
qed

end
