(* ===== verification/KV_DB.thy ===== *)
theory KV_DB
  imports KV_Compact KV_Paths
begin

text \<open>
  The database (\<open>db.go\<close>, \<open>options.go\<close>): opening a directory, writing through the log and the
  memtable, flushing to a table, reading, compaction and closing.

  The operations hold the mutex from start to end, so each is one step on the state.  An operation
  returns its error, the database and the world.  Logging is left out, except where the package's
  \<open>Logger\<close> can still be nil.
\<close>

section \<open>Options and state\<close>

definition DefaultMemTableSize :: "64 word" where
  "DefaultMemTableSize = 4 * 1024 * 1024"

record Options =
  opt_Dir :: string
  opt_sstDir :: path
  opt_MemTableSize :: "64 word"

text \<open>The size is unsigned: \<open><= 0\<close> holds for zero only.\<close>

definition normalizeOptions :: "Options \<Rightarrow> Options" where
  "normalizeOptions options =
     (let options1 = (if opt_MemTableSize options \<le> 0
            then options\<lparr>opt_MemTableSize := DefaultMemTableSize\<rparr> else options)
      in options1\<lparr>opt_sstDir := path_of (opt_Dir options1) @ [''sst'']\<rparr>)"

record DB =
  db_Dir :: path
  db_MemTableSize :: "64 word"
  db_Memtable :: MemTable
  db_sstDir :: path
  db_SstablesNum :: int
  db_Sstables :: "SSTable list"
  db_Wal :: WAL
  db_closed :: bool

section \<open>Loading the tables of a directory\<close>

fun load_entries ::
  "path \<Rightarrow> (string \<times> bool) list \<Rightarrow> SSTable list \<Rightarrow> world \<Rightarrow> (err + SSTable list) \<times> world" where
  "load_entries dir [] sstables w = (Inr sstables, w)"
| "load_entries dir ((name, isDir) # entries) sstables w =
     (if isDir then load_entries dir entries sstables w
      else
        (case CutSuffix name ''.sst'' of
           (nameWithOutExt, ok) \<Rightarrow>
             if ok then
               (case SstOpen (Atoi nameWithOutExt) (dir @ [name]) w of
                  (Inl e, w1) \<Rightarrow> (Inl e, w1)
                | (Inr s, w1) \<Rightarrow> load_entries dir entries (sstables @ [s]) w1)
             else load_entries dir entries sstables w))"

definition loadSstables :: "path \<Rightarrow> world \<Rightarrow> (err + SSTable list) \<times> world" where
  "loadSstables dir w =
     (case os_mkdir_all dir w of
        (Some e, w1) \<Rightarrow> (Inl e, w1)
      | (None, w1) \<Rightarrow>
          (case os_read_dir dir w1 of
             (Inl e, w2) \<Rightarrow> (Inl e, w2)
           | (Inr entries, w2) \<Rightarrow> load_entries dir entries [] w2))"

text \<open>The tables are closed in place, up to the first that fails.\<close>

fun closeSstables :: "SSTable list \<Rightarrow> world \<Rightarrow> err option \<times> SSTable list \<times> world" where
  "closeSstables [] w = (None, [], w)"
| "closeSstables (s # ss) w =
     (case SstClose s w of
        (Some e, s1, w1) \<Rightarrow> (Some e, s1 # ss, w1)
      | (None, s1, w1) \<Rightarrow> (case closeSstables ss w1 of (r, ss1, w2) \<Rightarrow> (r, s1 # ss1, w2)))"

section \<open>Open\<close>

text \<open>\<open>Open\<close> after the directory is made.\<close>

definition open_db :: "Options \<Rightarrow> world \<Rightarrow> (err + DB) \<times> world" where
  "open_db options0 w =
     (let options = normalizeOptions options0;
          dir = path_of (opt_Dir options)
      in case loadSstables (opt_sstDir options) w of
           (Inl e, w1) \<Rightarrow> (Inl e, w1)
         | (Inr sstables, w1) \<Rightarrow>
             (case WalOpen (dir @ [''wal.log'']) w1 of
                (Inl e, w2) \<Rightarrow> (case closeSstables sstables w2 of (ign, ss, w3) \<Rightarrow> (Inl e, w3))
              | (Inr walIns, w2) \<Rightarrow>
                  (case WalReplay (Some MemApply) walIns w2 NewMemTable of
                     (Some e, m, wal1, w3) \<Rightarrow>
                       (case closeSstables sstables w3 of (ign, ss, w4) \<Rightarrow> (Inl e, w4))
                   | (None, m, wal1, w3) \<Rightarrow>
                       (Inr \<lparr>db_Dir = dir, db_MemTableSize = opt_MemTableSize options,
                             db_Memtable = m, db_sstDir = opt_sstDir options,
                             db_SstablesNum = int (length sstables), db_Sstables = sstables,
                             db_Wal = wal1, db_closed = False\<rparr>, w3))))"

text \<open>
  \<open>logger\<close> says whether \<open>platform.Logger\<close> is set when \<open>Open\<close> is called, as it is after the first
  \<open>Open\<close> of the process.  \<open>None\<close> is the panic of logging through a nil logger.
\<close>

definition DbOpen :: "bool \<Rightarrow> Options \<Rightarrow> world \<Rightarrow> (err + DB) option \<times> world" where
  "DbOpen logger options w =
     (case CreateDir (opt_Dir options) w of
        (Some e, w1) \<Rightarrow>
          if \<not> logger then (None, w1)
          else (case open_db options w1 of (r, w2) \<Rightarrow> (Some r, w2))
      | (None, w1) \<Rightarrow> (case open_db options w1 of (r, w2) \<Rightarrow> (Some r, w2)))"

section \<open>Flush\<close>

definition triggerFlush :: "DB \<Rightarrow> world \<Rightarrow> err option \<times> DB \<times> world" where
  "triggerFlush db w =
     (if MemSize (db_Memtable db) = 0 then (None, db, w)
      else
        (let newSstId = db_SstablesNum db;
             newSstPath = db_sstDir db @ [sst_name newSstId]
         in case CreateSSTableWriter newSstPath w of
              (Inl e, w1) \<Rightarrow> (Some e, db, w1)
            | (Inr sstWriter, w1) \<Rightarrow>
                (case MemForEachRecord (Some (WriterAppend sstWriter)) (db_Memtable db) w1 of
                   (Some e, w2) \<Rightarrow> (Some e, db, w2)
                 | (None, w2) \<Rightarrow>
                     (case WriterClose sstWriter w2 of
                        (Some e, sw, w3) \<Rightarrow> (Some e, db, w3)
                      | (None, sw, w3) \<Rightarrow>
                          (case SstOpen newSstId newSstPath w3 of
                             (Inl e, w4) \<Rightarrow> (Some e, db, w4)
                           | (Inr sst, w4) \<Rightarrow>
                               let db1 = db\<lparr>db_Sstables := db_Sstables db @ [sst],
                                            db_SstablesNum := db_SstablesNum db + 1\<rparr>
                               in (case WalReset (db_Wal db1) w4 of
                                     (Some e, wal, w5) \<Rightarrow> (Some e, db1\<lparr>db_Wal := wal\<rparr>, w5)
                                   | (None, wal, w5) \<Rightarrow>
                                       (None, db1\<lparr>db_Wal := wal,
                                          db_Memtable := MemReset (db_Memtable db1)\<rparr>, w5)))))))"

definition DbFlush :: "DB \<Rightarrow> world \<Rightarrow> err option \<times> DB \<times> world" where
  "DbFlush db w = (if db_closed db then (Some ErrDbClosed, db, w) else triggerFlush db w)"

section \<open>Put, Delete and Get\<close>

definition DbPut :: "bytes \<Rightarrow> bytes \<Rightarrow> DB \<Rightarrow> world \<Rightarrow> err option \<times> DB \<times> world" where
  "DbPut key value db w =
     (if length key = 0 then (Some ErrEmptyKey, db, w)
      else if db_closed db then (Some ErrDbClosed, db, w)
      else
        (case WalAppend \<lparr>rec_Type = TypePut, rec_Key = key, rec_Value = value\<rparr> (db_Wal db) w of
           (Some e, w1) \<Rightarrow> (Some e, db, w1)
         | (None, w1) \<Rightarrow>
             (case MemPut key value (db_Memtable db) of
                (Some e, m) \<Rightarrow> (Some e, db\<lparr>db_Memtable := m\<rparr>, w1)
              | (None, m) \<Rightarrow>
                  let db1 = db\<lparr>db_Memtable := m\<rparr>
                  in if MemSize (db_Memtable db1) \<ge> db_MemTableSize db1 then triggerFlush db1 w1
                     else (None, db1, w1))))"

definition DbDelete :: "bytes \<Rightarrow> DB \<Rightarrow> world \<Rightarrow> err option \<times> DB \<times> world" where
  "DbDelete key db w =
     (if length key = 0 then (Some ErrEmptyKey, db, w)
      else if db_closed db then (Some ErrDbClosed, db, w)
      else
        (case WalAppend \<lparr>rec_Type = TypeDelete, rec_Key = key, rec_Value = []\<rparr> (db_Wal db) w of
           (Some e, w1) \<Rightarrow> (Some e, db, w1)
         | (None, w1) \<Rightarrow>
             (case MemDelete key (db_Memtable db) of
                (Some e, m) \<Rightarrow> (Some e, db\<lparr>db_Memtable := m\<rparr>, w1)
              | (None, m) \<Rightarrow>
                  let db1 = db\<lparr>db_Memtable := m\<rparr>
                  in if MemSize (db_Memtable db1) \<ge> db_MemTableSize db1 then triggerFlush db1 w1
                     else (None, db1, w1))))"

text \<open>
  The value \<open>Get\<close> returns: \<open>None\<close> is the nil slice.  A tombstone gives an empty slice that is not
  nil.  The tables are searched from the highest index down.
\<close>

fun get_from_sstables ::
  "bytes \<Rightarrow> SSTable list \<Rightarrow> nat \<Rightarrow> world \<Rightarrow> (err + bytes option) \<times> world" where
  "get_from_sstables key ss 0 w = (Inr None, w)"
| "get_from_sstables key ss (Suc i) w =
     (case SstGet key (ss ! i) w of
        (Inl e, w1) \<Rightarrow> (Inl e, w1)
      | (Inr (rc, ok), w1) \<Rightarrow>
          if ok then (Inr (Some (rec_Value rc)), w1) else get_from_sstables key ss i w1)"

definition DbGet :: "bytes \<Rightarrow> DB \<Rightarrow> world \<Rightarrow> (err + bytes option) \<times> world" where
  "DbGet key db w =
     (if length key = 0 then (Inl ErrEmptyKey, w)
      else if db_closed db then (Inl ErrDbClosed, w)
      else
        (case MemGet key (db_Memtable db) of
           (rc, ok) \<Rightarrow>
             if ok then (Inr (Some (rec_Value rc)), w)
             else get_from_sstables key (db_Sstables db) (nat (db_SstablesNum db)) w))"

section \<open>Compact\<close>

text \<open>The removal of the old tables: a file that is already gone is no error.\<close>

fun remove_paths :: "path list \<Rightarrow> world \<Rightarrow> err option \<times> world" where
  "remove_paths [] w = (None, w)"
| "remove_paths (p # ps) w =
     (case os_remove p w of
        (Some e, w1) \<Rightarrow> if e \<noteq> ErrNotExist then (Some e, w1) else remove_paths ps w1
      | (None, w1) \<Rightarrow> remove_paths ps w1)"

text \<open>\<open>Compact\<close> after the merge: close everything, remove the old files, rename the new one.\<close>

definition install_compacted ::
  "SSTable option \<Rightarrow> path list \<Rightarrow> path \<Rightarrow> path \<Rightarrow> DB \<Rightarrow> world \<Rightarrow> err option \<times> DB \<times> world" where
  "install_compacted newSst oldPaths tmpPath finalPath db w =
     (case (case newSst of
              None \<Rightarrow> (None, w)
            | Some s \<Rightarrow> (case SstClose s w of (r, s1, w1) \<Rightarrow> (r, w1))) of
        (Some e, w1) \<Rightarrow> (case os_remove tmpPath w1 of (ign, w2) \<Rightarrow> (Some e, db, w2))
      | (None, w1) \<Rightarrow>
          (case closeSstables (db_Sstables db) w1 of
             (Some e, ss, w2) \<Rightarrow>
               (case os_remove tmpPath w2 of (ign, w3) \<Rightarrow> (Some e, db\<lparr>db_Sstables := ss\<rparr>, w3))
           | (None, ss, w2) \<Rightarrow>
               let db1 = db\<lparr>db_Sstables := ss\<rparr>
               in (case remove_paths oldPaths w2 of
                     (Some e, w3) \<Rightarrow> (case os_remove tmpPath w3 of (ign, w4) \<Rightarrow> (Some e, db1, w4))
                   | (None, w3) \<Rightarrow>
                       if newSst = None then
                         (None, db1\<lparr>db_Sstables := [], db_SstablesNum := 0\<rparr>, w3)
                       else
                         (case os_rename tmpPath finalPath w3 of
                            (Some e, w4) \<Rightarrow> (Some e, db1, w4)
                          | (None, w4) \<Rightarrow>
                              (case SstOpen 0 finalPath w4 of
                                 (Inl e, w5) \<Rightarrow> (Some e, db1, w5)
                               | (Inr s, w5) \<Rightarrow>
                                   (None, db1\<lparr>db_Sstables := [s], db_SstablesNum := 1\<rparr>, w5))))))"

text \<open>\<open>None\<close>: the merge ran out of fuel.\<close>

definition DbCompact :: "DB \<Rightarrow> world \<Rightarrow> (err option \<times> DB \<times> world) option" where
  "DbCompact db w =
     (if db_closed db then Some (Some ErrDbClosed, db, w)
      else
        (case triggerFlush db w of
           (Some e, db1, w1) \<Rightarrow> Some (Some e, db1, w1)
         | (None, db1, w1) \<Rightarrow>
             if length (db_Sstables db1) = 0 then Some (None, db1, w1)
             else
               (let oldPaths = map SstPath (db_Sstables db1);
                    tmpPath = db_sstDir db1 @ [''compact.tmp''];
                    finalPath = db_sstDir db1 @ [''0000.sst'']
                in case Run (db_Sstables db1) tmpPath w1 of
                     None \<Rightarrow> None
                   | Some (Inl e, w2) \<Rightarrow>
                       (case os_remove tmpPath w2 of (ign, w3) \<Rightarrow> Some (Some e, db1, w3))
                   | Some (Inr newSst, w2) \<Rightarrow>
                       Some (install_compacted newSst oldPaths tmpPath finalPath db1 w2))))"

section \<open>Close\<close>

definition DbClose :: "DB \<Rightarrow> world \<Rightarrow> err option \<times> DB \<times> world" where
  "DbClose db w =
     (if db_closed db then (None, db, w)
      else
        (case triggerFlush db w of
           (ign, db1, w1) \<Rightarrow>
             (case closeSstables (db_Sstables db1) w1 of
                (Some e, ss, w2) \<Rightarrow> (Some e, db1\<lparr>db_Sstables := ss\<rparr>, w2)
              | (None, ss, w2) \<Rightarrow>
                  (case WalClose (db_Wal db1) w2 of
                     (Some e, wal, w3) \<Rightarrow> (Some e, db1\<lparr>db_Sstables := ss, db_Wal := wal\<rparr>, w3)
                   | (None, wal, w3) \<Rightarrow>
                       (None, db1\<lparr>db_Sstables := ss, db_Wal := wal, db_closed := True\<rparr>, w3)))))"

end
