(* ===== verification/KV_DB_Refine.thy ===== *)
theory KV_DB_Refine
  imports KV_DB
begin

text \<open>
  What the database promises while no system call fails: the invariant that ties the memtable, the
  log and the tables together, and the effect of every operation on the map of newest records.
\<close>

section \<open>The files of a database\<close>

definition table_path :: "path \<Rightarrow> nat \<Rightarrow> path" where
  "table_path d i = d @ [''sst'', sst_name (int i)]"

definition wal_path_of :: "path \<Rightarrow> path" where
  "wal_path_of d = d @ [''wal.log'']"

text \<open>
  The tables in the directory \<open>d\<close>: table \<open>i\<close> holds \<open>rss ! i\<close>, in key order, and no other file of
  the table directory has the name of a table.
\<close>

definition tables_on :: "world \<Rightarrow> path \<Rightarrow> Record list list \<Rightarrow> bool" where
  "tables_on w d rss \<longleftrightarrow>
     (\<forall>i < length rss. table_at w (table_path d i) (rss ! i) \<and> key_sorted (rss ! i))
     \<and> (\<forall>nm. has_sst_suffix nm \<longrightarrow> file_at w (d @ [''sst'', nm]) \<noteq> None
          \<longrightarrow> nm \<in> set (sst_names (length rss)))"

text \<open>The open handles of the tables.\<close>

definition tables_open :: "path \<Rightarrow> SSTable list \<Rightarrow> Record list list \<Rightarrow> bool" where
  "tables_open d ss rss \<longleftrightarrow>
     length ss = length rss \<and> (\<forall>i < length rss. sst_repr (ss ! i) (table_path d i) (rss ! i))"

text \<open>
  The database in memory: its memtable holds the newest records of \<open>ls\<close>, its handles are open.
\<close>

definition db_loaded :: "DB \<Rightarrow> path \<Rightarrow> Record list list \<Rightarrow> Record list \<Rightarrow> bool" where
  "db_loaded db d rss ls \<longleftrightarrow>
     \<not> db_closed db \<and> db_Dir db = d \<and> db_sstDir db = d @ [''sst'']
     \<and> mt_inv (db_Memtable db) \<and> mt_map (db_Memtable db) = newest ls \<and> recs_ok ls
     \<and> \<not> wal_isClosed (db_Wal db) \<and> f_path (wal_file (db_Wal db)) = wal_path_of d
     \<and> db_SstablesNum db = int (length (db_Sstables db))
     \<and> tables_open d (db_Sstables db) rss"

text \<open>The invariant: memory as above, and the log on disk holds exactly the records \<open>ls\<close>.\<close>

definition db_inv :: "world \<Rightarrow> DB \<Rightarrow> Record list list \<Rightarrow> Record list \<Rightarrow> bool" where
  "db_inv w db rss ls \<longleftrightarrow>
     db_loaded db (db_Dir db) rss ls \<and> tables_on w (db_Dir db) rss
     \<and> file_at w (wal_path_of (db_Dir db)) = Some (frames ls)"

text \<open>
  \<open>m\<close> is the map of newest records of the database, tombstones included.  \<open>get_value\<close> is what a
  read of \<open>m\<close> returns, \<open>kv_values\<close> the client's view: the keys that have a value.
\<close>

definition db_repr :: "world \<Rightarrow> DB \<Rightarrow> (bytes \<rightharpoonup> Record) \<Rightarrow> bool" where
  "db_repr w db m \<longleftrightarrow> (\<exists>rss ls. db_inv w db rss ls \<and> m = newest (concat rss) ++ newest ls)"

definition get_value :: "(bytes \<rightharpoonup> Record) \<Rightarrow> bytes \<Rightarrow> bytes option" where
  "get_value m k = map_option rec_Value (m k)"

definition kv_values :: "(bytes \<rightharpoonup> Record) \<Rightarrow> bytes \<rightharpoonup> bytes" where
  "kv_values m k = map_option rec_Value (live m k)"

lemma kv_values_put [simp]: "kv_values (m(k \<mapsto> \<lparr>rec_Type = TypePut, rec_Key = k', rec_Value = v\<rparr>)) = (kv_values m)(k \<mapsto> v)"
  by (auto simp: kv_values_def live_def)

lemma kv_values_delete [simp]:
  "kv_values (m(k \<mapsto> \<lparr>rec_Type = TypeDelete, rec_Key = k', rec_Value = v\<rparr>)) = (kv_values m)(k := None)"
  by (auto simp: kv_values_def live_def TypePut_def TypeDelete_def)

lemma live_add: "m' = live m \<Longrightarrow> live (m' ++ l) = live (m ++ l)"
  by (auto simp: live_def map_add_def fun_eq_iff split: option.splits)

section \<open>Paths\<close>

lemma table_path_eq [simp]: "table_path d i = table_path d j \<longleftrightarrow> i = j"
  by (auto simp: table_path_def dest: sst_name_inj)

lemma table_path_wal [simp]: "table_path d i \<noteq> wal_path_of d" "wal_path_of d \<noteq> table_path d i"
  by (simp_all add: table_path_def wal_path_of_def)

lemma table_path_nonempty [simp]: "table_path d i \<noteq> []" "wal_path_of d \<noteq> []"
  by (simp_all add: table_path_def wal_path_of_def)

lemma in_sst_names: "nm \<in> set (sst_names n) \<longleftrightarrow> (\<exists>i < n. nm = sst_name (int i))"
  by (auto simp: sst_names_def)

lemma sst_names_mem [simp]: "sst_name (int i) \<in> set (sst_names n) \<longleftrightarrow> i < n"
  by (auto simp: in_sst_names dest: sst_name_inj)

lemma in_dir_paths [simp]: "in_dir d (table_path d i)" "in_dir d (wal_path_of d)"
  by (simp_all add: in_dir_def table_path_def wal_path_of_def)

lemma tables_on_cong:
  assumes "\<And>nm. has_sst_suffix nm \<Longrightarrow> file_at w' (d @ [''sst'', nm]) = file_at w (d @ [''sst'', nm])"
  shows "tables_on w' d rss = tables_on w d rss"
  using assms by (auto simp: tables_on_def table_at_def table_path_def)

lemma tables_on_tables_at:
  assumes "tables_on w d rss" and "tables_open d ss rss"
  shows "tables_at w ss rss"
  unfolding tables_at_def list_all2_conv_all_nth
proof (intro conjI allI impI)
  fix i assume "i < length ss"
  then have i: "i < length rss" using assms(2) by (simp add: tables_open_def)
  then have "sst_repr (ss ! i) (table_path d i) (rss ! i)" using assms(2) by (simp add: tables_open_def)
  moreover from this have "sst_path (ss ! i) = table_path d i" by (simp add: sst_repr_def)
  moreover have "table_at w (table_path d i) (rss ! i)" using assms(1) i by (simp add: tables_on_def)
  ultimately show "table_at w (sst_path (ss ! i)) (rss ! i)"
    and "sst_repr (ss ! i) (sst_path (ss ! i)) (rss ! i)" by simp_all
qed (use assms in \<open>simp add: tables_open_def\<close>)

lemma tables_open_paths:
  "tables_open d ss rss \<Longrightarrow> map sst_path ss = map (table_path d) [0..<length rss]"
  by (auto simp: tables_open_def sst_repr_def intro: nth_equalityI)

lemma tables_on_sorted: "tables_on w d rss \<Longrightarrow> \<forall>rs \<in> set rss. key_sorted rs"
  by (auto simp: tables_on_def in_set_conv_nth)

lemma tables_on_snoc:
  assumes "tables_on w d rss" and "key_sorted rs"
    and "table_at w' (table_path d (length rss)) rs"
    and "\<And>q. q \<noteq> table_path d (length rss) \<Longrightarrow> has_sst_suffix (last q) \<Longrightarrow> file_at w' q = file_at w q"
  shows "tables_on w' d (rss @ [rs])"
  unfolding tables_on_def
proof (intro conjI allI impI)
  fix i assume i: "i < length (rss @ [rs])"
  have "has_sst_suffix (last (table_path d i))" by (simp add: table_path_def)
  then show "table_at w' (table_path d i) ((rss @ [rs]) ! i)"
    using assms i by (cases "i < length rss") (auto simp: tables_on_def nth_append table_at_def less_Suc_eq)
  show "key_sorted ((rss @ [rs]) ! i)"
    using assms(1,2) i by (auto simp: tables_on_def nth_append less_Suc_eq)
next
  fix nm assume nm: "has_sst_suffix nm" "file_at w' (d @ [''sst'', nm]) \<noteq> None"
  show "nm \<in> set (sst_names (length (rss @ [rs])))"
  proof (cases "nm = sst_name (int (length rss))")
    case False
    then have "file_at w (d @ [''sst'', nm]) \<noteq> None"
      using assms(4) [of "d @ [''sst'', nm]"] nm by (auto simp: table_path_def)
    then show ?thesis using assms(1) nm(1) by (auto simp: tables_on_def sst_names_def)
  qed (auto simp: in_sst_names)
qed

lemma tables_open_snoc:
  "tables_open d ss rss \<Longrightarrow> sst_repr s (table_path d (length rss)) rs \<Longrightarrow>
     tables_open d (ss @ [s]) (rss @ [rs])"
  by (auto simp: tables_open_def nth_append less_Suc_eq)

section \<open>Flush\<close>

lemma visit_WriterAppend:
  assumes "calm w" and "table_at w p acc" and "f_path (sw_file sw) = p" and "\<not> sw_closed sw"
    and "recs_ok rs"
  shows "\<exists>w'. visit (WriterAppend sw) rs w = (None, w') \<and> calm w' \<and> table_at w' p (acc @ rs)
    \<and> (\<forall>q. q \<noteq> p \<longrightarrow> file_at w' q = file_at w q)"
  using assms(1,2,5)
proof (induction rs arbitrary: w acc)
  case (Cons r rs)
  let ?w1 = "set_file p (frames (acc @ [r])) w"
  have "rec_ok r" using Cons.prems(3) by simp
  then have app: "WriterAppend sw r w = (None, ?w1)" and "table_at ?w1 p (acc @ [r])"
    using WriterAppend_table [OF Cons.prems(1,2) assms(3,4)] by blast+
  then obtain w' where "visit (WriterAppend sw) rs ?w1 = (None, w')" "calm w'"
    "table_at w' p ((acc @ [r]) @ rs)" "\<forall>q. q \<noteq> p \<longrightarrow> file_at w' q = file_at ?w1 q"
    using Cons.IH [of ?w1 "acc @ [r]"] Cons.prems by auto
  then show ?case using app by (intro exI [of _ w']) simp
qed simp

lemma loaded_records_ok:
  assumes "db_loaded db d rss ls"
  shows "recs_ok (sorted_records (db_Memtable db))"
proof
  fix r assume "r \<in> set (sorted_records (db_Memtable db))"
  then have "newest ls (rec_Key r) = Some r"
    using assms memtab.export_set [of "db_Memtable db" r] by (simp add: db_loaded_def)
  then show "rec_ok r" using assms newest_key by (fastforce simp: db_loaded_def)
qed

lemma MemReset_inv [simp]: "mt_inv (MemReset m)" "mt_map (MemReset m) = Map.empty"
  by (simp_all add: MemReset_def mt_inv_def mt_total_def mt_map_def)

text \<open>
  A flush moves the memtable into a new table and empties the log; the newest record of every key
  stays.
\<close>

lemma triggerFlush_calm:
  assumes "calm w" and inv: "db_inv w db rss ls"
  shows "\<exists>db' w' rss' ls'. triggerFlush db w = (None, db', w') \<and> calm w' \<and> db_inv w' db' rss' ls'
    \<and> newest (concat rss') ++ newest ls' = newest (concat rss) ++ newest ls
    \<and> db_Dir db' = db_Dir db \<and> db_MemTableSize db' = db_MemTableSize db
    \<and> (if MemSize (db_Memtable db) = 0 then rss' = rss \<and> ls' = ls
       else rss' = rss @ [sorted_records (db_Memtable db)] \<and> ls' = [])
    \<and> (\<forall>q. \<not> in_dir (db_Dir db) q \<longrightarrow> file_at w' q = file_at w q)"
proof (cases "MemSize (db_Memtable db) = 0")
  case True
  then show ?thesis using assms by (simp add: triggerFlush_def)
next
  case False
  let ?d = "db_Dir db" and ?m = "db_Memtable db" and ?n = "length rss"
  let ?p = "table_path ?d ?n" and ?rs = "sorted_records ?m"
  let ?sw = "\<lparr>sw_file = \<lparr>f_path = ?p, f_pos = 0\<rparr>, sw_closed = False\<rparr>"
  have ld: "db_loaded db ?d rss ls" and on: "tables_on w ?d rss"
    and wal: "file_at w (wal_path_of ?d) = Some (frames ls)"
    using inv by (simp_all add: db_inv_def)
  have path: "db_sstDir db @ [sst_name (db_SstablesNum db)] = ?p"
    using ld by (simp add: db_loaded_def tables_open_def table_path_def)
  have m: "mt_inv ?m" "mt_map ?m = newest ls" using ld by (simp_all add: db_loaded_def)
  have cr: "CreateSSTableWriter ?p w = (Inr ?sw, set_file ?p [] w)"
    using assms(1) by (simp add: CreateSSTableWriter_calm)
  have "\<exists>w2. visit (WriterAppend ?sw) ?rs (set_file ?p [] w) = (None, w2) \<and> calm w2
      \<and> table_at w2 ?p ([] @ ?rs) \<and> (\<forall>q. q \<noteq> ?p \<longrightarrow> file_at w2 q = file_at (set_file ?p [] w) q)"
    by (rule visit_WriterAppend)
      (use assms(1) loaded_records_ok [OF ld] in \<open>simp_all add: table_at_def\<close>)
  then obtain w2 where v: "MemForEachRecord (Some (WriterAppend ?sw)) ?m (set_file ?p [] w) = (None, w2)"
    and c2: "calm w2" and t2: "table_at w2 ?p ?rs" and o2: "\<forall>q. q \<noteq> ?p \<longrightarrow> file_at w2 q = file_at w q"
    by (auto simp: MemForEachRecord_def)
  obtain s where op: "SstOpen (db_SstablesNum db) ?p w2 = (Inr s, w2)" and s: "sst_repr s ?p ?rs"
    using SstOpen_table [OF c2 t2, of "db_SstablesNum db"] by auto
  have walf: "f_path (wal_file (db_Wal db)) = wal_path_of ?d" and walo: "\<not> wal_isClosed (db_Wal db)"
    using ld by (simp_all add: db_loaded_def)
  let ?w3 = "set_file (wal_path_of ?d) [] w2"
  let ?wal = "(db_Wal db)\<lparr>wal_file := (wal_file (db_Wal db))\<lparr>f_pos := 0\<rparr>\<rparr>"
  have rs: "WalReset (db_Wal db) w2 = (None, ?wal, ?w3)"
    using WalReset_calm [OF c2 _ walo, of "frames ls"] walf wal o2 by simp
  let ?db' = "db\<lparr>db_Sstables := db_Sstables db @ [s], db_SstablesNum := db_SstablesNum db + 1,
    db_Wal := ?wal, db_Memtable := MemReset ?m\<rparr>"
  have run: "triggerFlush db w = (None, ?db', ?w3)"
    using False cr v op rs c2 unfolding triggerFlush_def path Let_def
    by (simp add: WriterClose_calm)
  have "tables_open ?d (db_Sstables db) rss" using ld by (simp add: db_loaded_def)
  then have "db_loaded ?db' ?d (rss @ [?rs]) []"
    using ld tables_open_snoc [OF _ s] by (simp add: db_loaded_def)
  moreover have "tables_on ?w3 ?d (rss @ [?rs])"
  proof (rule tables_on_snoc [OF on])
    show "key_sorted ?rs" using memtab.export_sorted [OF m(1)] .
    show "table_at ?w3 ?p ?rs" using t2 by (simp add: table_at_def)
    fix q assume "q \<noteq> ?p" "has_sst_suffix (last q)"
    moreover have "\<not> has_sst_suffix ''wal.log''" by (simp add: has_sst_suffix_def CutSuffix_def)
    ultimately show "file_at ?w3 q = file_at w q" using o2 by (auto simp: wal_path_of_def)
  qed
  ultimately have "db_inv ?w3 ?db' (rss @ [?rs]) []" by (simp add: db_inv_def)
  moreover have "newest (concat (rss @ [?rs])) ++ newest [] = newest (concat rss) ++ newest ls"
    using sorted_records_newest [OF m(1)] m(2) by (simp add: newest_append)
  moreover have "\<forall>q. \<not> in_dir ?d q \<longrightarrow> file_at ?w3 q = file_at w q"
    using o2 by (metis file_at_set in_dir_paths)
  ultimately show ?thesis
    using run c2 False by (intro exI [of _ ?db'] exI [of _ ?w3] exI [of _ "rss @ [?rs]"] exI [of _ "[]"]) simp
qed

section \<open>Put and Delete\<close>

text \<open>The common part of a write: the record is in the log and in the memtable.\<close>

lemma logged_inv:
  assumes "calm w" and inv: "db_inv w db rss ls" and r: "rec_ok r"
  shows "WalAppend r (db_Wal db) w = (None, set_file (wal_path_of (db_Dir db)) (frames (ls @ [r])) w)"
    and "db_inv (set_file (wal_path_of (db_Dir db)) (frames (ls @ [r])) w)
      (db\<lparr>db_Memtable := snd (insertToMemtable r (db_Memtable db))\<rparr>) rss (ls @ [r])"
proof -
  let ?w1 = "set_file (wal_path_of (db_Dir db)) (frames (ls @ [r])) w"
  have ld: "db_loaded db (db_Dir db) rss ls" and on: "tables_on w (db_Dir db) rss"
    and wal: "file_at w (wal_path_of (db_Dir db)) = Some (frames ls)"
    using inv by (simp_all add: db_inv_def)
  then show "WalAppend r (db_Wal db) w = (None, ?w1)"
    using assms(1) r by (simp add: WalAppend_calm db_loaded_def append_file_def)
  have "tables_on ?w1 (db_Dir db) rss" using on
    by (subst tables_on_cong [of ?w1 _ w]) (auto simp: wal_path_of_def)
  then show "db_inv ?w1 (db\<lparr>db_Memtable := snd (insertToMemtable r (db_Memtable db))\<rparr>) rss (ls @ [r])"
    using ld r by (simp add: db_inv_def db_loaded_def insertToMemtable_inv rec_ok_shape)
qed

lemma maybe_flush_calm:
  assumes "calm w" and "db_inv w db rss ls"
  shows "\<exists>db' w'. (if P then triggerFlush db w else (None, db, w)) = (None, db', w') \<and> calm w'
    \<and> db_repr w' db' (newest (concat rss) ++ newest ls)"
proof (cases P)
  case True
  with triggerFlush_calm [OF assms] show ?thesis unfolding db_repr_def by (metis (full_types))
next
  case False
  then show ?thesis using assms unfolding db_repr_def by auto
qed

lemma db_repr_closed: "db_repr w db m \<Longrightarrow> \<not> db_closed db"
  by (auto simp: db_repr_def db_inv_def db_loaded_def)

lemma DbPut_calm:
  assumes "calm w" and "db_repr w db m"
    and "key \<noteq> []" and "length key \<le> MaxUint32" and "length val \<le> MaxUint32"
  shows "\<exists>db' w'. DbPut key val db w = (None, db', w') \<and> calm w'
    \<and> db_repr w' db' (m(key \<mapsto> \<lparr>rec_Type = TypePut, rec_Key = key, rec_Value = val\<rparr>))"
proof -
  obtain rss ls where inv: "db_inv w db rss ls" and m: "m = newest (concat rss) ++ newest ls"
    using assms(2) by (auto simp: db_repr_def)
  let ?r = "\<lparr>rec_Type = TypePut, rec_Key = key, rec_Value = val\<rparr>"
  let ?db = "db\<lparr>db_Memtable := snd (insertToMemtable ?r (db_Memtable db))\<rparr>"
  have ok: "rec_ok ?r" using assms(3-5) by (simp add: rec_ok_iff)
  note log = logged_inv [OF assms(1) inv ok]
  have "MemPut key val (db_Memtable db) = insertToMemtable ?r (db_Memtable db)"
    using assms(3) by (simp add: MemPut_def generateOneRecordByCopy_def)
  then have "MemPut key val (db_Memtable db) = (None, snd (insertToMemtable ?r (db_Memtable db)))"
    by (simp add: prod_eq_iff)
  then have put: "DbPut key val db w = (if MemSize (db_Memtable ?db) \<ge> db_MemTableSize ?db
      then triggerFlush ?db (set_file (wal_path_of (db_Dir db)) (frames (ls @ [?r])) w)
      else (None, ?db, set_file (wal_path_of (db_Dir db)) (frames (ls @ [?r])) w))"
    using assms(3) log(1) db_repr_closed [OF assms(2)] by (simp add: DbPut_def Let_def)
  have "calm (set_file (wal_path_of (db_Dir db)) (frames (ls @ [?r])) w)" using assms(1) by simp
  from maybe_flush_calm [OF this log(2)] show ?thesis
    unfolding put m by simp
qed

lemma DbDelete_calm:
  assumes "calm w" and "db_repr w db m" and "key \<noteq> []" and "length key \<le> MaxUint32"
  shows "\<exists>db' w'. DbDelete key db w = (None, db', w') \<and> calm w'
    \<and> db_repr w' db' (m(key \<mapsto> \<lparr>rec_Type = TypeDelete, rec_Key = key, rec_Value = []\<rparr>))"
proof -
  obtain rss ls where inv: "db_inv w db rss ls" and m: "m = newest (concat rss) ++ newest ls"
    using assms(2) by (auto simp: db_repr_def)
  let ?r = "\<lparr>rec_Type = TypeDelete, rec_Key = key, rec_Value = []\<rparr>"
  let ?db = "db\<lparr>db_Memtable := snd (insertToMemtable ?r (db_Memtable db))\<rparr>"
  have ok: "rec_ok ?r" using assms(3,4) by (simp add: rec_ok_iff)
  note log = logged_inv [OF assms(1) inv ok]
  have "MemDelete key (db_Memtable db) = insertToMemtable ?r (db_Memtable db)"
    using assms(3) by (simp add: MemDelete_def generateOneRecordByCopy_def)
  then have "MemDelete key (db_Memtable db) = (None, snd (insertToMemtable ?r (db_Memtable db)))"
    by (simp add: prod_eq_iff)
  then have del: "DbDelete key db w = (if MemSize (db_Memtable ?db) \<ge> db_MemTableSize ?db
      then triggerFlush ?db (set_file (wal_path_of (db_Dir db)) (frames (ls @ [?r])) w)
      else (None, ?db, set_file (wal_path_of (db_Dir db)) (frames (ls @ [?r])) w))"
    using assms(3) log(1) db_repr_closed [OF assms(2)] by (simp add: DbDelete_def Let_def)
  have "calm (set_file (wal_path_of (db_Dir db)) (frames (ls @ [?r])) w)" using assms(1) by simp
  from maybe_flush_calm [OF this log(2)] show ?thesis
    unfolding del m by simp
qed

lemma DbFlush_calm:
  assumes "calm w" and "db_repr w db m"
  shows "\<exists>db' w'. DbFlush db w = (None, db', w') \<and> calm w' \<and> db_repr w' db' m"
proof -
  obtain rss ls where inv: "db_inv w db rss ls" and m: "m = newest (concat rss) ++ newest ls"
    using assms(2) by (auto simp: db_repr_def)
  show ?thesis using maybe_flush_calm [OF assms(1) inv, of True] db_repr_closed [OF assms(2)]
    unfolding DbFlush_def m by simp
qed

section \<open>Get\<close>

lemma get_from_sstables_calm:
  assumes "calm w" and "tables_on w d rss" and "tables_open d ss rss" and "key \<noteq> []" and "n \<le> length rss"
  shows "get_from_sstables key ss n w = (Inr (get_value (newest (concat (take n rss))) key), w)"
  using assms(5)
proof (induction n)
  case (Suc n)
  then have n: "n < length rss" by simp
  have "SstGet key (ss ! n) w =
      (Inr (case newest (rss ! n) key of None \<Rightarrow> (zeroRecord, False) | Some r \<Rightarrow> (r, True)), w)"
    using SstGet_table [OF assms(1), of "table_path d n" "rss ! n" "ss ! n" key] assms(2-4) n
    by (simp add: tables_on_def tables_open_def)
  moreover have "newest (concat (take (Suc n) rss)) = newest (concat (take n rss)) ++ newest (rss ! n)"
    using n by (simp add: take_Suc_conv_app_nth newest_append)
  ultimately show ?case using Suc by (simp add: get_value_def map_add_def split: option.splits)
qed (simp add: get_value_def)

text \<open>Reads need only the memory part of the invariant and the tables.\<close>

lemma DbGet_loaded:
  assumes "calm w" and ld: "db_loaded db d rss ls" and on: "tables_on w d rss" and "key \<noteq> []"
  shows "DbGet key db w = (Inr (get_value (newest (concat rss) ++ newest ls) key), w)"
proof -
  have tabs: "tables_open d (db_Sstables db) rss"
    and num: "nat (db_SstablesNum db) = length rss" and m: "map_of (mt_records (db_Memtable db)) = newest ls"
    using ld by (simp_all add: db_loaded_def tables_open_def mt_map_def)
  have "\<not> db_closed db" using ld by (simp add: db_loaded_def)
  then show ?thesis
    using get_from_sstables_calm [OF assms(1) on tabs assms(4), of "length rss"] assms(4)
    by (simp add: DbGet_def MemGet_def m num get_value_def map_add_def split: option.splits)
qed

lemma DbGet_calm:
  assumes "calm w" and "db_repr w db m" and "key \<noteq> []"
  shows "DbGet key db w = (Inr (get_value m key), w)"
  using assms DbGet_loaded [OF assms(1) _ _ assms(3)] by (fastforce simp: db_repr_def db_inv_def)

section \<open>Compact\<close>

lemma closeSstables_calm:
  assumes "calm w" and "\<forall>s \<in> set ss. \<not> sst_closed s"
  shows "\<exists>ss'. closeSstables ss w = (None, ss', w) \<and> length ss' = length ss"
  using assms(2)
proof (induction ss)
  case (Cons s ss)
  then obtain ss' where "closeSstables ss w = (None, ss', w)" "length ss' = length ss" by auto
  then show ?case using Cons.prems assms(1) by (simp add: SstClose_calm)
qed simp

lemma tables_open_not_closed: "tables_open d ss rss \<Longrightarrow> \<forall>s \<in> set ss. \<not> sst_closed s"
  by (auto simp: tables_open_def sst_repr_def in_set_conv_nth)

lemma remove_paths_calm:
  "calm w \<Longrightarrow> \<exists>w'. remove_paths ps w = (None, w') \<and> calm w'
     \<and> (\<forall>q. file_at w' q = (if q \<in> set ps then None else file_at w q))"
proof (induction ps arbitrary: w)
  case (Cons p ps)
  show ?case
  proof (cases "file_at w p")
    case None
    then have "os_remove p w = (Some ErrNotExist, w)" using Cons.prems by (simp add: os_remove_def os_simps)
    then show ?thesis using Cons.IH [OF Cons.prems] None by auto
  next
    case (Some c)
    then have rm: "os_remove p w = (None, del_file p w)" using Cons.prems by (simp add: os_remove_calm)
    have "calm (del_file p w)" using Cons.prems by simp
    from Cons.IH [OF this] show ?thesis using rm by auto
  qed
qed simp

lemma sst_name_0: "sst_name 0 = ''0000.sst''"
  using sst_name_digits [of 0 0 0 0] by (simp add: zero_digit)

lemma tmp_table_path [simp]: "d @ [''sst'', ''compact.tmp''] \<noteq> table_path e i"
proof
  assume "d @ [''sst'', ''compact.tmp''] = table_path e i"
  then have "''compact.tmp'' = sst_name (int i)" by (simp add: table_path_def)
  then show False by (metis compact_tmp_suffix sst_name_suffix)
qed

lemma merged_sorted: "merged rss out \<Longrightarrow> key_sorted out"
  by (simp add: merged_def)

text \<open>The merged table takes the place of the old ones.\<close>

lemma install_compacted_calm:
  assumes "calm w" and ld: "db_loaded db d rss ls" and wal: "file_at w (wal_path_of d) = Some (frames ls)"
    and dir: "\<forall>nm. has_sst_suffix nm \<longrightarrow> file_at w (d @ [''sst'', nm]) \<noteq> None \<longrightarrow> nm \<in> set (sst_names (length rss))"
    and tab: "table_at w tmp out" and srt: "key_sorted out" and s: "sst_repr s tmp out"
    and tmp: "tmp = d @ [''sst'', ''compact.tmp'']"
  shows "\<exists>db' w'. install_compacted (Some s) (map (table_path d) [0..<length rss]) tmp (table_path d 0) db w
      = (None, db', w') \<and> calm w' \<and> db_inv w' db' [out] ls \<and> db_SstablesNum db' = 1 \<and> db_Dir db' = d"
proof -
  have "\<not> sst_closed s" using s by (simp add: sst_repr_def)
  obtain ss' where cl: "closeSstables (db_Sstables db) w = (None, ss', w)"
    using closeSstables_calm [OF assms(1) tables_open_not_closed] ld unfolding db_loaded_def by blast
  obtain w1 where rm: "remove_paths (map (table_path d) [0..<length rss]) w = (None, w1)" and c1: "calm w1"
    and f1: "\<And>q. file_at w1 q = (if q \<in> set (map (table_path d) [0..<length rss]) then None else file_at w q)"
    using remove_paths_calm [OF assms(1)] by blast
  have tmp': "tmp \<noteq> table_path d i" for i
    unfolding tmp by (rule tmp_table_path)
  then have t1: "file_at w1 tmp = Some (frames out)" and ok: "recs_ok out"
    using tab f1 by (auto simp: table_at_def)
  let ?w2 = "set_file (table_path d 0) (frames out) (del_file tmp w1)"
  have mv: "os_rename tmp (table_path d 0) w1 = (None, ?w2)"
    using os_rename_calm [OF c1 t1 tmp'] .
  have c2: "calm ?w2" and t2: "table_at ?w2 (table_path d 0) out" using c1 ok by (simp_all add: table_at_def)
  obtain s' where op: "SstOpen 0 (table_path d 0) ?w2 = (Inr s', ?w2)" and s': "sst_repr s' (table_path d 0) out"
    using SstOpen_table [OF c2 t2, of 0] by auto
  let ?db' = "db\<lparr>db_Sstables := [s'], db_SstablesNum := 1\<rparr>"
  have run: "install_compacted (Some s) (map (table_path d) [0..<length rss]) tmp (table_path d 0) db w
      = (None, ?db', ?w2)"
    unfolding install_compacted_def using \<open>\<not> sst_closed s\<close> assms(1) cl rm mv op
    by (simp add: SstClose_calm Let_def)
  have "tables_on ?w2 d [out]"
    unfolding tables_on_def
  proof (intro conjI allI impI)
    fix nm assume nm: "has_sst_suffix nm" "file_at ?w2 (d @ [''sst'', nm]) \<noteq> None"
    show "nm \<in> set (sst_names (length [out]))"
    proof (rule ccontr)
      assume "nm \<notin> set (sst_names (length [out]))"
      then have "nm \<noteq> sst_name (int 0)" by (auto simp: in_sst_names)
      then have "file_at w1 (d @ [''sst'', nm]) \<noteq> None" using nm(2)
        by (auto simp: table_path_def split: if_splits)
      then have "file_at w (d @ [''sst'', nm]) \<noteq> None"
        and "d @ [''sst'', nm] \<notin> set (map (table_path d) [0..<length rss])"
        using f1 by (auto split: if_splits)
      then show False using dir nm(1) by (auto simp: in_sst_names table_path_def)
    qed
  qed (use t2 srt in simp_all)
  moreover have "db_loaded ?db' d [out] ls"
    using ld s' by (simp add: db_loaded_def tables_open_def)
  moreover have "file_at ?w2 (wal_path_of d) = Some (frames ls)"
    using wal f1 [of "wal_path_of d"] by (auto simp: tmp wal_path_of_def table_path_def)
  moreover have "db_Dir db = d" using ld by (simp add: db_loaded_def)
  ultimately show ?thesis using run c2 by (intro exI [of _ ?db'] exI [of _ ?w2]) (simp add: db_inv_def)
qed

lemma install_nothing_calm:
  assumes "calm w" and ld: "db_loaded db d rss ls" and wal: "file_at w (wal_path_of d) = Some (frames ls)"
    and dir: "\<forall>nm. has_sst_suffix nm \<longrightarrow> file_at w (d @ [''sst'', nm]) \<noteq> None \<longrightarrow> nm \<in> set (sst_names (length rss))"
  shows "\<exists>db' w'. install_compacted None (map (table_path d) [0..<length rss]) tmp final db w
      = (None, db', w') \<and> calm w' \<and> db_inv w' db' [] ls \<and> db_SstablesNum db' = 0 \<and> db_Dir db' = d"
proof -
  obtain ss' where cl: "closeSstables (db_Sstables db) w = (None, ss', w)"
    using closeSstables_calm [OF assms(1) tables_open_not_closed] ld unfolding db_loaded_def by blast
  obtain w1 where rm: "remove_paths (map (table_path d) [0..<length rss]) w = (None, w1)" and c1: "calm w1"
    and f1: "\<And>q. file_at w1 q = (if q \<in> set (map (table_path d) [0..<length rss]) then None else file_at w q)"
    using remove_paths_calm [OF assms(1)] by blast
  let ?db' = "db\<lparr>db_Sstables := [], db_SstablesNum := 0\<rparr>"
  have run: "install_compacted None (map (table_path d) [0..<length rss]) tmp final db w = (None, ?db', w1)"
    unfolding install_compacted_def using cl rm by (simp add: Let_def)
  have "tables_on w1 d []"
    using dir f1 by (fastforce simp: tables_on_def in_sst_names table_path_def split: if_splits)
  moreover have "db_loaded ?db' d [] ls" using ld by (simp add: db_loaded_def tables_open_def)
  moreover have "file_at w1 (wal_path_of d) = Some (frames ls)"
    using wal f1 [of "wal_path_of d"] by (auto split: if_splits)
  moreover have "db_Dir db = d" using ld by (simp add: db_loaded_def)
  ultimately show ?thesis using run c1 by (intro exI [of _ ?db'] exI [of _ w1]) (simp add: db_inv_def)
qed

lemma DbCompact_calm:
  assumes "calm w" and "db_repr w db m"
  shows "\<exists>db' w' m'. DbCompact db w = Some (None, db', w') \<and> calm w' \<and> db_repr w' db' m'
    \<and> live m' = live m \<and> db_SstablesNum db' \<le> 1 \<and> db_Dir db' = db_Dir db"
proof -
  obtain rss0 ls0 where inv0: "db_inv w db rss0 ls0" and m0: "m = newest (concat rss0) ++ newest ls0"
    using assms(2) by (auto simp: db_repr_def)
  obtain db1 w1 rss ls where fl: "triggerFlush db w = (None, db1, w1)" and c1: "calm w1"
    and inv: "db_inv w1 db1 rss ls" and m: "m = newest (concat rss) ++ newest ls"
    and dir: "db_Dir db1 = db_Dir db"
    using triggerFlush_calm [OF assms(1) inv0] unfolding m0 by metis
  let ?d = "db_Dir db1"
  have ld: "db_loaded db1 ?d rss ls" and on: "tables_on w1 ?d rss"
    and wal: "file_at w1 (wal_path_of ?d) = Some (frames ls)"
    using inv by (simp_all add: db_inv_def)
  have tabs: "tables_open ?d (db_Sstables db1) rss" and sd: "db_sstDir db1 = ?d @ [''sst'']"
    using ld by (simp_all add: db_loaded_def)
  have len: "length (db_Sstables db1) = length rss" and num: "db_SstablesNum db1 = int (length rss)"
    using ld by (simp_all add: db_loaded_def tables_open_def)
  show ?thesis
  proof (cases "rss = []")
    case True
    then have "DbCompact db w = Some (None, db1, w1)"
      using fl len db_repr_closed [OF assms(2)] by (simp add: DbCompact_def)
    then show ?thesis using c1 inv m num True dir unfolding db_repr_def by fastforce
  next
    case False
    let ?tmp = "?d @ [''sst'', ''compact.tmp'']"
    have paths: "map SstPath (db_Sstables db1) = map (table_path ?d) [0..<length rss]"
      using tables_open_paths [OF tabs] by (simp add: SstPath_def cong: map_cong)
    have fin: "db_sstDir db1 @ [''0000.sst''] = table_path ?d 0"
      using sd sst_name_0 by (simp add: table_path_def)
    have ne: "db_Sstables db1 \<noteq> []" using len False by auto
    have tmp: "db_sstDir db1 @ [''compact.tmp''] = ?tmp" using sd by simp
    have ntmp: "?tmp \<notin> sst_path ` set (db_Sstables db1)"
    proof -
      have "sst_path ` set (db_Sstables db1) = table_path ?d ` {0..<length rss}"
        using arg_cong [OF tables_open_paths [OF tabs], of set] by simp
      then show ?thesis using tmp_table_path by auto
    qed
    obtain w2 out res where run: "Run (db_Sstables db1) ?tmp w1 = Some (Inr res, w2)"
      and mg: "merged rss out" and c2: "calm w2" and o2: "\<forall>q. q \<noteq> ?tmp \<longrightarrow> file_at w2 q = file_at w1 q"
      and res: "if out = [] then res = None \<and> file_at w2 ?tmp = None
        else table_at w2 ?tmp out \<and> (\<exists>s. res = Some s \<and> sst_repr s ?tmp out)"
      using Run_merge [OF c1 tables_on_tables_at [OF on tabs] tables_on_sorted [OF on] _ ntmp] by auto
    have wal2: "file_at w2 (wal_path_of ?d) = Some (frames ls)" using wal o2 by (simp add: wal_path_of_def)
    have dir2: "\<forall>nm. has_sst_suffix nm \<longrightarrow> file_at w2 (?d @ [''sst'', nm]) \<noteq> None
        \<longrightarrow> nm \<in> set (sst_names (length rss))"
    proof (intro allI impI)
      fix nm assume nm: "has_sst_suffix nm" "file_at w2 (?d @ [''sst'', nm]) \<noteq> None"
      then have "nm \<noteq> ''compact.tmp''" using compact_tmp_suffix by metis
      then have "file_at w1 (?d @ [''sst'', nm]) \<noteq> None" using o2 nm(2) by simp
      then show "nm \<in> set (sst_names (length rss))" using on nm(1) by (simp add: tables_on_def)
    qed
    have "\<exists>db' w'. install_compacted res (map (table_path ?d) [0..<length rss]) ?tmp (table_path ?d 0) db1 w2
        = (None, db', w') \<and> calm w' \<and> db_inv w' db' (if out = [] then [] else [out]) ls
        \<and> db_SstablesNum db' \<le> 1 \<and> db_Dir db' = ?d"
    proof (cases "out = []")
      case True
      then show ?thesis using install_nothing_calm [OF c2 ld wal2 dir2] res by fastforce
    next
      case False
      then obtain s where "res = Some s" "table_at w2 ?tmp out" "sst_repr s ?tmp out" using res by auto
      then show ?thesis
        using install_compacted_calm [OF c2 ld wal2 dir2 _ merged_sorted [OF mg] _ refl] False by fastforce
    qed
    then obtain db' w' where ins: "install_compacted res (map (table_path ?d) [0..<length rss]) ?tmp
          (table_path ?d 0) db1 w2 = (None, db', w')"
      and c': "calm w'" and inv': "db_inv w' db' (if out = [] then [] else [out]) ls"
      and num': "db_SstablesNum db' \<le> 1" and dir': "db_Dir db' = ?d"
      by blast
    have "DbCompact db w = Some (None, db', w')"
      using fl run ins ne db_repr_closed [OF assms(2)]
      by (simp add: DbCompact_def Let_def paths fin tmp)
    moreover have "db_repr w' db' (newest out ++ newest ls)"
      using inv' unfolding db_repr_def by (cases "out = []") fastforce+
    moreover have "live (newest out ++ newest ls) = live m"
      unfolding m by (rule live_add) (use mg in \<open>simp add: merged_def fun_eq_iff\<close>)
    ultimately show ?thesis using c' num' dir dir' by metis
  qed
qed

section \<open>Close and Open\<close>

lemma DbClose_calm:
  assumes "calm w" and "db_inv w db rss ls"
  shows "\<exists>db' w' rss' ls'. DbClose db w = (None, db', w') \<and> calm w' \<and> db_closed db'
    \<and> tables_on w' (db_Dir db) rss' \<and> file_at w' (wal_path_of (db_Dir db)) = Some (frames ls') \<and> recs_ok ls'
    \<and> newest (concat rss') ++ newest ls' = newest (concat rss) ++ newest ls
    \<and> length rss' \<le> Suc (length rss)"
proof -
  obtain db1 w1 rss' ls' where fl: "triggerFlush db w = (None, db1, w1)" and c1: "calm w1"
    and inv: "db_inv w1 db1 rss' ls'" and dir: "db_Dir db1 = db_Dir db"
    and m: "newest (concat rss') ++ newest ls' = newest (concat rss) ++ newest ls"
    and rss': "rss' = rss \<or> length rss' = Suc (length rss)"
    using triggerFlush_calm [OF assms] by (auto split: if_splits)
  have ld: "db_loaded db1 (db_Dir db) rss' ls'" using inv dir by (simp add: db_inv_def)
  then obtain ss where cl: "closeSstables (db_Sstables db1) w1 = (None, ss, w1)"
    using closeSstables_calm [OF c1 tables_open_not_closed] unfolding db_loaded_def by blast
  have "\<not> db_closed db" using assms(2) by (simp add: db_inv_def db_loaded_def)
  then have "DbClose db w = (None, db1\<lparr>db_Sstables := ss,
      db_Wal := (db_Wal db1)\<lparr>wal_isClosed := True\<rparr>, db_closed := True\<rparr>, w1)"
    using fl cl ld c1 by (simp add: DbClose_def WalClose_calm db_loaded_def)
  moreover have "length rss' \<le> Suc (length rss)" using rss' by auto
  moreover have "tables_on w1 (db_Dir db) rss'" "file_at w1 (wal_path_of (db_Dir db)) = Some (frames ls')"
    using inv dir by (simp_all add: db_inv_def)
  moreover have "recs_ok ls'" using ld by (simp add: db_loaded_def)
  ultimately show ?thesis using c1 m
    by (intro exI [of _ "db1\<lparr>db_Sstables := ss, db_Wal := (db_Wal db1)\<lparr>wal_isClosed := True\<rparr>,
      db_closed := True\<rparr>"] exI [of _ w1] exI [of _ rss'] exI [of _ ls']) simp
qed

lemma dir_names_set: "set (dir_names w d) = {n. \<exists>more. file_at w (d @ n # more) \<noteq> None}"
proof -
  have split: "(\<exists>more. p = d @ n # more) \<longleftrightarrow> in_dir d p \<and> length d < length p \<and> n = p ! length d" for p n
  proof
    assume p: "in_dir d p \<and> length d < length p \<and> n = p ! length d"
    then have "p = take (length d) p @ p ! length d # drop (Suc (length d)) p"
      by (simp add: id_take_nth_drop)
    then show "\<exists>more. p = d @ n # more" using p by (auto simp: in_dir_def)
  qed (auto simp: in_dir_def)
  have mem: "p \<in> fst ` set (disk w) \<longleftrightarrow> file_at w p \<noteq> None" for p
    by (auto simp: file_at_def fst_set_dom dom_def)
  have names: "n \<in> set (dir_names w d)
      \<longleftrightarrow> (\<exists>p. p \<in> fst ` set (disk w) \<and> in_dir d p \<and> length d < length p \<and> n = p ! length d)" for n
    by (auto simp: dir_names_def)
  have "n \<in> set (dir_names w d) \<longleftrightarrow> (\<exists>p. file_at w p \<noteq> None \<and> (\<exists>more. p = d @ n # more))" for n
    by (simp only: names mem split)
  then show ?thesis by fast
qed

lemma dir_names_sorted: "sorted_wrt (<) (dir_names w d)"
  by (simp add: dir_names_def sort_distinct_strict)

text \<open>The tables of a directory listing are the tables in the order of their numbers.\<close>

lemma table_names:
  assumes "tables_on w d rss" and "length rss \<le> 10000"
  shows "filter (\<lambda>n. has_sst_suffix n \<and> file_at w (d @ [''sst'', n]) \<noteq> None) (dir_names w (d @ [''sst'']))
    = sst_names (length rss)"
proof (rule strict_sorted_equal)
  show "sorted_wrt (<) (sst_names (length rss))" using assms(2) by (rule sst_names_sorted)
  show "sorted_wrt (<) (filter (\<lambda>n. has_sst_suffix n \<and> file_at w (d @ [''sst'', n]) \<noteq> None)
      (dir_names w (d @ [''sst''])))"
    by (rule sorted_wrt_filter [OF dir_names_sorted])
  have "file_at w (d @ [''sst'', n]) \<noteq> None \<and> has_sst_suffix n" if "n \<in> set (sst_names (length rss))" for n
    using that assms(1) by (auto simp: tables_on_def in_sst_names table_at_def table_path_def)
  moreover have "n \<in> set (dir_names w (d @ [''sst'']))" if "file_at w (d @ [''sst'', n]) \<noteq> None" for n
    using that by (auto simp: dir_names_set intro: exI [of _ "[]"])
  ultimately show "set (filter (\<lambda>n. has_sst_suffix n \<and> file_at w (d @ [''sst'', n]) \<noteq> None)
      (dir_names w (d @ [''sst'']))) = set (sst_names (length rss))"
    using assms(1) by (auto simp: tables_on_def)
qed

lemma load_entries_calm:
  assumes "calm w"
    and "list_all2 (\<lambda>n rs. table_at w (dir @ [n]) rs)
      (map fst (filter (\<lambda>(n, isDir). \<not> isDir \<and> has_sst_suffix n) entries)) rss"
  shows "\<exists>ss. load_entries dir entries acc w = (Inr (acc @ ss), w) \<and> length ss = length rss
    \<and> (\<forall>i < length rss. sst_repr (ss ! i)
         (dir @ [map fst (filter (\<lambda>(n, isDir). \<not> isDir \<and> has_sst_suffix n) entries) ! i]) (rss ! i))"
  using assms(2)
proof (induction entries arbitrary: acc rss)
  case (Cons entry entries)
  obtain n isDir where e: "entry = (n, isDir)" by (cases entry)
  obtain base ok where cs: "CutSuffix n ''.sst'' = (base, ok)" by (cases "CutSuffix n ''.sst''")
  then have ok: "has_sst_suffix n = ok" by (simp add: has_sst_suffix_def)
  show ?case
  proof (cases "\<not> isDir \<and> ok")
    case False
    then show ?thesis using Cons.IH [of rss acc] Cons.prems e cs ok by auto
  next
    case True
    then obtain rs rss' where rss: "rss = rs # rss'" "table_at w (dir @ [n]) rs"
      "list_all2 (\<lambda>n rs. table_at w (dir @ [n]) rs)
        (map fst (filter (\<lambda>(n, isDir). \<not> isDir \<and> has_sst_suffix n) entries)) rss'"
      using Cons.prems e ok by (auto simp: list_all2_Cons1)
    obtain s where s: "SstOpen (Atoi base) (dir @ [n]) w = (Inr s, w)" "sst_repr s (dir @ [n]) rs"
      using SstOpen_table [OF assms(1) rss(2), of "Atoi base"] by auto
    obtain ss where "load_entries dir entries (acc @ [s]) w = (Inr ((acc @ [s]) @ ss), w)"
      "length ss = length rss'" "\<forall>i < length rss'. sst_repr (ss ! i)
         (dir @ [map fst (filter (\<lambda>(n, isDir). \<not> isDir \<and> has_sst_suffix n) entries) ! i]) (rss' ! i)"
      using Cons.IH [OF rss(3)] by blast
    then show ?thesis using True e cs ok s rss(1)
      by (intro exI [of _ "s # ss"]) (auto simp: nth_Cons split: nat.splits)
  qed
qed simp

lemma loadSstables_calm:
  assumes "calm w" and on: "tables_on w d rss" and len: "length rss \<le> 10000"
  shows "\<exists>ss. loadSstables (d @ [''sst'']) w = (Inr ss, w) \<and> tables_open d ss rss"
proof -
  let ?dir = "d @ [''sst'']"
  let ?entries = "map (\<lambda>n. (n, file_at w (?dir @ [n]) = None)) (dir_names w ?dir)"
  have names: "map fst (filter (\<lambda>(n, isDir). \<not> isDir \<and> has_sst_suffix n) ?entries) = sst_names (length rss)"
  proof -
    have "map fst (filter (\<lambda>(n, isDir). \<not> isDir \<and> has_sst_suffix n) ?entries)
        = filter (\<lambda>n. has_sst_suffix n \<and> file_at w (d @ [''sst'', n]) \<noteq> None) (dir_names w ?dir)"
      by (simp add: filter_map comp_def conj_commute)
    then show ?thesis using table_names [OF on len] by simp
  qed
  have "list_all2 (\<lambda>n rs. table_at w (?dir @ [n]) rs) (sst_names (length rss)) rss"
    using on by (auto simp: list_all2_conv_all_nth sst_names_def tables_on_def table_path_def)
  then obtain ss where "load_entries ?dir ?entries [] w = (Inr ss, w)" and "length ss = length rss"
    and "\<forall>i < length rss. sst_repr (ss ! i) (?dir @ [sst_names (length rss) ! i]) (rss ! i)"
    using load_entries_calm [OF assms(1), of ?dir ?entries rss "[]"] unfolding names by auto
  then show ?thesis using assms(1)
    by (auto simp: loadSstables_def os_read_dir_def os_simps tables_open_def sst_names_def table_path_def)
qed

lemma replay_memtable: "recs_ok ls \<Longrightarrow> visit MemApply ls m = (None, fold (\<lambda>r m. snd (MemApply r m)) ls m)"
  by (induction ls arbitrary: m) (auto simp: MemApply_snd rec_ok_shape prod_eq_iff split: prod.splits option.splits)

text \<open>
  Opening a directory: the log may end in a torn record, or be missing when it would be empty.
\<close>

lemma open_db_calm:
  assumes "calm w" and on: "tables_on w d rss" and len: "length rss \<le> 10000"
    and d: "d = path_of (opt_Dir options)"
    and log: "scan Decode (file_data w (wal_path_of d)) = (ls, e)" and e: "e = EOF \<or> e = ErrIncompleteRecord"
    and ok: "recs_ok ls"
  shows "\<exists>db w'. open_db options w = (Inr db, w') \<and> calm w' \<and> db_loaded db d rss ls \<and> tables_on w' d rss
    \<and> file_at w' (wal_path_of d) = Some (file_data w (wal_path_of d))
    \<and> (\<forall>q. q \<noteq> wal_path_of d \<longrightarrow> file_at w' q = file_at w q)"
proof -
  let ?p = "wal_path_of d"
  have sd: "opt_sstDir (normalizeOptions options) = d @ [''sst'']"
    and od: "path_of (opt_Dir (normalizeOptions options)) = d"
    by (simp_all add: normalizeOptions_def Let_def d)
  obtain ss where ld: "loadSstables (d @ [''sst'']) w = (Inr ss, w)" and ss: "tables_open d ss rss"
    using loadSstables_calm [OF assms(1-3)] by blast
  let ?w1 = "case file_at w ?p of None \<Rightarrow> set_file ?p [] w | Some c \<Rightarrow> w"
  let ?wal = "\<lparr>wal_path = ?p, wal_file = \<lparr>f_path = ?p, f_pos = 0\<rparr>, wal_isClosed = False\<rparr>"
  have wo: "WalOpen ?p w = (Inr ?wal, ?w1)" using WalOpen_calm [OF assms(1)] by simp
  have c1: "calm ?w1" and p1: "file_at ?w1 ?p = Some (file_data w ?p)"
    and o1: "\<forall>q. q \<noteq> ?p \<longrightarrow> file_at ?w1 q = file_at w q"
    using assms(1) by (auto simp: file_data_def split: option.splits)
  let ?m = "fold (\<lambda>r m. snd (MemApply r m)) ls NewMemTable"
  have shape: "\<forall>r \<in> set ls. rec_shape r" using ok rec_ok_shape by blast
  obtain f' where rp: "WalReplay (Some MemApply) ?wal ?w1 NewMemTable = (None, ?m, ?wal\<lparr>wal_file := f'\<rparr>, ?w1)"
    and f': "f_path f' = ?p"
    using WalReplay_scan [OF c1, of ?wal "file_data w ?p" MemApply NewMemTable] p1 log e
    by (auto simp: replay_memtable [OF ok] replay_error_def)
  let ?db = "\<lparr>db_Dir = d, db_MemTableSize = opt_MemTableSize (normalizeOptions options), db_Memtable = ?m,
    db_sstDir = d @ [''sst''], db_SstablesNum = int (length ss), db_Sstables = ss,
    db_Wal = ?wal\<lparr>wal_file := f'\<rparr>, db_closed = False\<rparr>"
  have "open_db options w = (Inr ?db, ?w1)"
    using ld wo rp by (simp add: open_db_def sd od wal_path_of_def Let_def)
  moreover have "db_loaded ?db d rss ls"
    using ss f' memtab.replay_inv [OF memtab.inv_emp shape] memtab.replay_empty [OF shape] ok
    by (simp add: db_loaded_def)
  moreover have "tables_on ?w1 d rss"
    using on o1 by (subst tables_on_cong [of ?w1 d w]) (auto simp: wal_path_of_def)
  ultimately show ?thesis using c1 p1 o1 by blast
qed

end
