(* ===== verification/KV_DB_Crash.thy ===== *)
theory KV_DB_Crash
  imports KV_DB_Refine
begin

text \<open>
  What survives when system calls fail or the process dies: every operation is run in a world with
  arbitrary faults, then the directory is opened again in a world without faults.
\<close>

section \<open>Files under faults\<close>

definition reboot :: "world \<Rightarrow> world" where
  "reboot w = w\<lparr>faults := []\<rparr>"

lemma reboot_simps [simp]: "faults (reboot w) = []" "file_at (reboot w) = file_at w"
  by (simp_all add: reboot_def)

lemma file_data_reboot [simp]: "file_data (reboot w) = file_data w"
  by (rule file_data_cong) simp

lemma os_guard_files': "file_at (snd (os_guard w)) = file_at w"
  using os_guard_files [of w] by (metis prod.collapse)

lemma os_close_files: "os_close f w = (r, w') \<Longrightarrow> file_at w' = file_at w"
  by (simp add: os_close_def os_guard_files)

lemma os_open_files:
  "os_open_file p create False w = (x, w') \<Longrightarrow> \<not> create \<or> file_at w p \<noteq> None \<Longrightarrow> file_at w' = file_at w"
  by (auto simp: os_open_file_def split: prod.splits option.splits dest!: os_guard_files)

lemma os_stat_size_files: "os_stat_size f w = (x, w') \<Longrightarrow> file_at w' = file_at w"
  by (auto simp: os_stat_size_def split: prod.splits option.splits dest!: os_guard_files)

lemma index_loop_files: "index_loop f w index off = (x, f', w') \<Longrightarrow> file_at w' = file_at w"
proof (induction f w index off rule: index_loop.induct)
  case (1 f w index offset)
  show ?case
  proof (cases "DecodeFile f w")
    case (fields y f1 w1)
    then have "file_at w1 = file_at w" by (rule DecodeFile_files)
    moreover have "y = Inl e \<Longrightarrow> e \<in> {EOF, ErrIncompleteRecord, ErrInvalidType, ErrEmptyKey}" for e
      using fields DecodeFile_Inl by blast
    ultimately show ?thesis using 1 fields
      by (cases y) (auto simp: index_loop.simps [of f w] split: if_splits)
  qed
qed

lemma SstOpen_files: "SstOpen tid p w = (x, w') \<Longrightarrow> file_at w' = file_at w"
  by (auto simp: SstOpen_def split: if_splits prod.splits sum.splits
      dest!: os_close_files os_open_files os_stat_size_files index_loop_files)

lemma WriterClose_files: "WriterClose sw w = (r, sw', w') \<Longrightarrow> file_at w' = file_at w"
  by (auto simp: WriterClose_def split: if_splits prod.splits dest!: os_close_files)

lemma CreateSSTableWriter_files:
  assumes "CreateSSTableWriter p w = (x, w')" and "p \<noteq> []"
  shows "(\<exists>e. x = Inl e) \<and> file_at w' = file_at w
    \<or> x = Inr \<lparr>sw_file = \<lparr>f_path = p, f_pos = 0\<rparr>, sw_closed = False\<rparr> \<and> file_at w' = file_at (set_file p [] w)"
proof -
  obtain r1 w1 where m: "os_mkdir_all (butlast p) w = (r1, w1)" by fastforce
  then have f1: "file_at w1 = file_at w" by (auto simp: os_mkdir_all_def dest: os_guard_files)
  obtain r2 w2 where g: "os_guard w1 = (r2, w2)" by fastforce
  then have f2: "file_at w2 = file_at w" using f1 by (auto dest: os_guard_files)
  show ?thesis using assms m g f1 f2
    by (cases r1; cases r2)
      (auto simp: CreateSSTableWriter_def OpenFileWithFlagMode_def os_open_file_def fun_eq_iff
        split: option.splits)
qed

lemma WalReset_files:
  assumes "WalReset wal w = (r, wal', w')" and "\<not> wal_isClosed wal"
    and "file_at w (f_path (wal_file wal)) = Some c"
  shows "file_at w' = file_at w \<and> r \<noteq> None \<or> file_at w' = file_at (set_file (f_path (wal_file wal)) [] w)"
proof -
  obtain r1 w1 where g: "os_guard w = (r1, w1)" by fastforce
  then have f1: "file_at w1 = file_at w" by (rule os_guard_files)
  then have f1': "file_at (set_file p d w1) = file_at (set_file p d w)" for p d
    by (auto simp: fun_eq_iff)
  have "os_seek_start f v = (x, f', v') \<Longrightarrow> file_at v' = file_at v" for f v x f' v'
    by (auto simp: os_seek_start_def split: prod.splits option.splits dest!: os_guard_files)
  moreover have "os_sync f v = (x, v') \<Longrightarrow> file_at v' = file_at v" for f v x v'
    by (simp add: os_sync_def os_guard_files)
  ultimately show ?thesis using assms g f1 f1'
    by (cases r1) (auto simp: WalReset_def os_truncate_def split: prod.splits option.splits)
qed

lemma WriterAppend_files:
  assumes "WriterAppend sw r w = (x, w')" and "\<not> sw_closed sw"
    and "file_at w (f_path (sw_file sw)) = Some c"
  shows "\<exists>n \<le> length (frame r). file_at w' = file_at (set_file (f_path (sw_file sw)) (c @ take n (frame r)) w)
    \<and> (x = None \<longrightarrow> n = length (frame r))"
proof -
  have "append_record (sw_file sw) r w = (x, w')" using assms by (simp add: WriterAppend_def)
  from append_record_prefix [OF this] show ?thesis using assms(3)
    by (auto simp: append_file_def)
qed

lemma visit_WriterAppend_files:
  assumes "visit (WriterAppend sw) rs w = (x, w')" and "\<not> sw_closed sw"
    and "file_at w (f_path (sw_file sw)) = Some c"
  shows "\<exists>n \<le> length (frames rs).
    file_at w' = file_at (set_file (f_path (sw_file sw)) (c @ take n (frames rs)) w)
    \<and> (x = None \<longrightarrow> n = length (frames rs))"
  using assms(1,3)
proof (induction rs arbitrary: w c)
  case (Cons r rs)
  let ?p = "f_path (sw_file sw)"
  obtain x1 w1 where app: "WriterAppend sw r w = (x1, w1)" by fastforce
  then obtain n where n: "n \<le> length (frame r)" "x1 = None \<longrightarrow> n = length (frame r)"
    and f1: "file_at w1 = file_at (set_file ?p (c @ take n (frame r)) w)"
    using WriterAppend_files [OF app assms(2) Cons.prems(2)] by blast
  show ?case
  proof (cases x1)
    case (Some e)
    then show ?thesis using Cons.prems app n f1 by (intro exI [of _ n]) auto
  next
    case None
    then have "n = length (frame r)" using n by simp
    then have f1: "file_at w1 = file_at (set_file ?p (c @ frame r) w)" using f1 by simp
    have "visit (WriterAppend sw) rs w1 = (x, w')" using Cons.prems(1) app None by simp
    moreover have "file_at w1 ?p = Some (c @ frame r)" using f1 by simp
    ultimately obtain k where k: "k \<le> length (frames rs)"
      "file_at w' = file_at (set_file ?p ((c @ frame r) @ take k (frames rs)) w1)"
      "x = None \<longrightarrow> k = length (frames rs)"
      using Cons.IH by blast
    have "file_at w' = file_at (set_file ?p (c @ take (length (frame r) + k) (frames (r # rs))) w)"
      using k(2) f1 by (auto simp: fun_eq_iff)
    then show ?thesis using k by (intro exI [of _ "length (frame r) + k"]) auto
  qed
qed (auto simp: fun_eq_iff)

section \<open>Streams cut anywhere\<close>

lemma scan_cut:
  assumes "recs_ok rs"
  shows "\<exists>j e. scan Decode (take n (frames rs)) = (take j rs, e) \<and> (e = EOF \<or> e = ErrIncompleteRecord)
    \<and> (e = EOF \<longrightarrow> take n (frames rs) = frames (take j rs))"
  using assms
proof (induction rs arbitrary: n)
  case (Cons r rs)
  have ok: "rec_ok r" using Cons.prems by simp
  show ?case
  proof (cases "n < length (frame r)")
    case True
    then have cut: "take n (frames (r # rs)) = take n (frame r)" by simp
    show ?thesis
    proof (cases "n = 0")
      case True
      then show ?thesis by (intro exI [of _ 0] exI [of _ EOF]) (simp add: codec.scan_nil)
    next
      case False
      then have "scan Decode (take n (frame r)) = ([], ErrIncompleteRecord)"
        using codec.scan_torn [of "[]" r n] ok True by simp
      then show ?thesis unfolding cut by (intro exI [of _ 0] exI [of _ ErrIncompleteRecord]) simp
    qed
  next
    case False
    obtain j e where "scan Decode (take (n - length (frame r)) (frames rs)) = (take j rs, e)"
      and "e = EOF \<or> e = ErrIncompleteRecord"
      and "e = EOF \<longrightarrow> take (n - length (frame r)) (frames rs) = frames (take j rs)"
      using Cons.IH [of "n - length (frame r)"] Cons.prems by auto
    then show ?thesis using False codec.scan_step [OF ok]
      by (intro exI [of _ "Suc j"] exI [of _ e]) (simp add: add.assoc)
  qed
qed (auto intro: exI [of _ EOF] simp: codec.scan_nil)

lemma newest_take_le:
  assumes "key_sorted rs"
  shows "newest (take j rs) \<subseteq>\<^sub>m newest rs"
proof -
  have d: "distinct (map rec_Key rs)" using assms by (rule key_sorted_distinct)
  then have "distinct (map rec_Key (take j rs))" by (metis distinct_take take_map)
  then have "newest rs k = Some r" if "newest (take j rs) k = Some r" for k r
    using d that by (auto simp: newest_distinct_iff dest: in_set_takeD)
  then show ?thesis by (force simp: map_le_def)
qed

lemma map_add_le: "b \<subseteq>\<^sub>m c \<Longrightarrow> (a ++ b) ++ c = a ++ c"
  by (auto simp: map_add_def map_le_def fun_eq_iff dom_def split: option.splits)

section \<open>A flush that fails\<close>

text \<open>
  The states a flush can leave: nothing happened, a part of the new table is written and the log
  is untouched, or the table is complete and the log is empty.
\<close>

lemma triggerFlush_files:
  assumes fl: "triggerFlush db w = (r, db', w')" and ld: "db_loaded db d rss ls"
    and wal: "file_at w (wal_path_of d) = Some c"
  defines "p \<equiv> table_path d (length rss)" and "rs \<equiv> sorted_records (db_Memtable db)"
  shows "file_at w' = file_at w \<and> (r = None \<longrightarrow> MemSize (db_Memtable db) = 0)
    \<or> MemSize (db_Memtable db) \<noteq> 0 \<and> r \<noteq> None \<and> (\<exists>n. file_at w' = file_at (set_file p (take n (frames rs)) w))
    \<or> MemSize (db_Memtable db) \<noteq> 0 \<and> file_at w' = file_at (set_file (wal_path_of d) [] (set_file p (frames rs) w))"
proof (cases "MemSize (db_Memtable db) = 0")
  case True
  then show ?thesis using fl by (simp add: triggerFlush_def)
next
  case nz: False
  have p: "p \<noteq> []" "p \<noteq> wal_path_of d" by (simp_all add: p_def)
  have path: "db_sstDir db @ [sst_name (db_SstablesNum db)] = p"
    using ld by (simp add: p_def db_loaded_def tables_open_def table_path_def)
  have walf: "f_path (wal_file (db_Wal db)) = wal_path_of d" "\<not> wal_isClosed (db_Wal db)"
    using ld by (simp_all add: db_loaded_def)
  obtain x1 w1 where cr: "CreateSSTableWriter p w = (x1, w1)" by fastforce
  note fl = fl [unfolded triggerFlush_def path Let_def cr prod.case]
  from CreateSSTableWriter_files [OF cr p(1)] show ?thesis
  proof
    assume "(\<exists>e. x1 = Inl e) \<and> file_at w1 = file_at w"
    then show ?thesis using fl nz by auto
  next
    let ?sw = "\<lparr>sw_file = \<lparr>f_path = p, f_pos = 0\<rparr>, sw_closed = False\<rparr>"
    assume x1: "x1 = Inr ?sw \<and> file_at w1 = file_at (set_file p [] w)"
    obtain x2 w2 where v: "visit (WriterAppend ?sw) rs w1 = (x2, w2)" by fastforce
    have "\<exists>n \<le> length (frames rs).
        file_at w2 = file_at (set_file (f_path (sw_file ?sw)) ([] @ take n (frames rs)) w1)
        \<and> (x2 = None \<longrightarrow> n = length (frames rs))"
      by (rule visit_WriterAppend_files [OF v]) (use x1 in simp_all)
    then obtain n where n: "n \<le> length (frames rs)" "x2 = None \<longrightarrow> n = length (frames rs)"
      and "file_at w2 = file_at (set_file p (take n (frames rs)) w1)"
      by auto
    then have f2: "file_at w2 = file_at (set_file p (take n (frames rs)) w)"
      using x1 by (simp add: fun_eq_iff)
    have "MemForEachRecord (Some (WriterAppend ?sw)) (db_Memtable db) w1 = (x2, w2)"
      using v by (simp add: MemForEachRecord_def rs_def)
    note fl = fl [unfolded conjunct1 [OF x1] sum.case this prod.case]
    show ?thesis
    proof (cases x2)
      case (Some e)
      then show ?thesis using fl nz f2 by auto
    next
      case None
      then have f2: "file_at w2 = file_at (set_file p (frames rs) w)" using n f2 by simp
      obtain x3 sw3 w3 where wc: "WriterClose ?sw w2 = (x3, sw3, w3)" by (metis prod_cases3)
      then have f3: "file_at w3 = file_at (set_file p (frames rs) w)" using f2 WriterClose_files by metis
      obtain x4 w4 where so: "SstOpen (db_SstablesNum db) p w3 = (x4, w4)" by fastforce
      then have f4: "file_at w4 = file_at (set_file p (frames rs) w)" using f3 SstOpen_files by metis
      have full: "\<exists>n. file_at v = file_at (set_file p (take n (frames rs)) w)"
        if "file_at v = file_at (set_file p (frames rs) w)" for v
        using that by (intro exI [of _ "length (frames rs)"]) simp
      show ?thesis
      proof (cases "x3 = None \<and> (\<exists>s. x4 = Inr s)")
        case False
        then have "r \<noteq> None \<and> (w' = w3 \<or> w' = w4)" using fl nz None wc so
          by (auto split: option.splits sum.splits)
        then show ?thesis using nz full f3 f4 by blast
      next
        case True
        then obtain s where s: "x3 = None" "x4 = Inr s" by blast
        obtain x5 wal5 w5 where wr: "WalReset (db_Wal db) w4 = (x5, wal5, w5)" by (metis prod_cases3)
        have "w' = w5" "r = x5" using fl nz None wc so s wr by (auto split: option.splits)
        moreover have "file_at w4 (wal_path_of d) = Some c" using f4 wal p by simp
        then have "file_at w5 = file_at w4 \<and> x5 \<noteq> None
            \<or> file_at w5 = file_at (set_file (wal_path_of d) [] w4)"
          using WalReset_files [OF wr walf(2)] walf(1) by simp
        moreover have "file_at (set_file (wal_path_of d) [] w4)
            = file_at (set_file (wal_path_of d) [] (set_file p (frames rs) w))"
          using f4 by (auto simp: fun_eq_iff)
        ultimately show ?thesis using nz full [of w4] f4 by auto
      qed
    qed
  qed
qed

section \<open>Directories that open and directories that do not\<close>

text \<open>
  A directory from which the map \<open>m\<close> is recovered, and one whose newest table ends in a torn record.
\<close>

definition recoverable :: "world \<Rightarrow> path \<Rightarrow> (bytes \<rightharpoonup> Record) \<Rightarrow> bool" where
  "recoverable w d m \<longleftrightarrow>
     (\<exists>rss ls e. tables_on w d rss \<and> length rss \<le> 10000
        \<and> scan Decode (file_data w (wal_path_of d)) = (ls, e) \<and> (e = EOF \<or> e = ErrIncompleteRecord)
        \<and> recs_ok ls \<and> m = newest (concat rss) ++ newest ls)"

definition torn_table :: "world \<Rightarrow> path \<Rightarrow> bool" where
  "torn_table w d \<longleftrightarrow>
     (\<exists>n c. (\<forall>i < n. \<exists>rs. table_at w (table_path d i) rs)
        \<and> file_at w (table_path d n) = Some c \<and> snd (scan Decode c) = ErrIncompleteRecord
        \<and> (\<forall>nm. has_sst_suffix nm \<longrightarrow> file_at w (d @ [''sst'', nm]) \<noteq> None \<longrightarrow> nm \<in> set (sst_names (Suc n))))"

lemma recoverable_cong: "file_at w' = file_at w \<Longrightarrow> recoverable w' d m = recoverable w d m"
  using file_data_cong [of w' w]
  by (simp add: recoverable_def tables_on_def table_at_def)

lemma torn_table_cong: "file_at w' = file_at w \<Longrightarrow> torn_table w' d = torn_table w d"
  by (simp add: torn_table_def table_at_def)

lemma recoverable_open:
  assumes "recoverable w d m" and "d = path_of (opt_Dir options)"
  shows "\<exists>db w'. open_db options (reboot w) = (Inr db, w')
    \<and> (\<forall>k. k \<noteq> [] \<longrightarrow> DbGet k db w' = (Inr (get_value m k), w'))"
proof -
  obtain rss ls e where on: "tables_on w d rss" and len: "length rss \<le> 10000"
    and log: "scan Decode (file_data w (wal_path_of d)) = (ls, e)" "e = EOF \<or> e = ErrIncompleteRecord"
    and ok: "recs_ok ls" and m: "m = newest (concat rss) ++ newest ls"
    using assms(1) by (auto simp: recoverable_def)
  have "tables_on (reboot w) d rss" using on by (simp add: tables_on_def table_at_def)
  then obtain db w' where "open_db options (reboot w) = (Inr db, w')" "calm w'" "db_loaded db d rss ls"
    "tables_on w' d rss"
    using open_db_calm [OF _ _ len assms(2), of "reboot w" ls e] log ok by auto
  then show ?thesis unfolding m using DbGet_loaded by blast
qed

lemma load_entries_broken:
  assumes "calm w" and "e \<noteq> EOF"
    and "\<forall>n. (n, False) \<in> set entries \<longrightarrow> has_sst_suffix n \<longrightarrow> (\<exists>rs. table_at w (dir @ [n]) rs)
      \<or> (\<exists>c. file_at w (dir @ [n]) = Some c \<and> snd (scan Decode c) = e)"
    and "\<exists>n c. (n, False) \<in> set entries \<and> has_sst_suffix n \<and> file_at w (dir @ [n]) = Some c
      \<and> snd (scan Decode c) = e"
  shows "load_entries dir entries acc w = (Inl e, w)"
  using assms(3,4)
proof (induction entries arbitrary: acc)
  case (Cons entry entries)
  obtain n isDir where en: "entry = (n, isDir)" by (cases entry)
  obtain base ok where cs: "CutSuffix n ''.sst'' = (base, ok)" by (cases "CutSuffix n ''.sst''")
  then have ok: "has_sst_suffix n = ok" by (simp add: has_sst_suffix_def)
  show ?case
  proof (cases "\<not> isDir \<and> ok")
    case False
    then show ?thesis using Cons en cs ok by auto
  next
    case True
    show ?thesis
    proof (cases "\<exists>c. file_at w (dir @ [n]) = Some c \<and> snd (scan Decode c) = e")
      case broken: True
      then obtain c where c: "file_at w (dir @ [n]) = Some c" "snd (scan Decode c) = e" by blast
      have "SstOpen (Atoi base) (dir @ [n]) w = (Inl e, w)"
        using SstOpen_broken [OF assms(1) c(1)] c(2) assms(2) by simp
      then show ?thesis using True en cs ok by simp
    next
      case False
      then obtain rs where "table_at w (dir @ [n]) rs" using Cons.prems(1) True en ok by auto
      then obtain s where "SstOpen (Atoi base) (dir @ [n]) w = (Inr s, w)"
        using SstOpen_table [OF assms(1)] by blast
      moreover have "\<exists>n c. (n, False) \<in> set entries \<and> has_sst_suffix n \<and> file_at w (dir @ [n]) = Some c
          \<and> snd (scan Decode c) = e"
        using Cons.prems(2) False en by auto
      ultimately show ?thesis using True en cs ok Cons by simp
    qed
  qed
qed simp

lemma torn_table_open:
  assumes "torn_table w d" and "d = path_of (opt_Dir options)"
  shows "\<exists>w'. open_db options (reboot w) = (Inl ErrIncompleteRecord, w')"
proof -
  obtain n c where tabs: "\<forall>i < n. \<exists>rs. table_at w (table_path d i) rs"
    and c: "file_at w (table_path d n) = Some c" "snd (scan Decode c) = ErrIncompleteRecord"
    and nms: "\<forall>nm. has_sst_suffix nm \<longrightarrow> file_at w (d @ [''sst'', nm]) \<noteq> None \<longrightarrow> nm \<in> set (sst_names (Suc n))"
    using assms(1) by (auto simp: torn_table_def)
  let ?dir = "d @ [''sst'']" and ?w = "reboot w"
  let ?entries = "map (\<lambda>nm. (nm, file_at ?w (?dir @ [nm]) = None)) (dir_names ?w ?dir)"
  have ent: "(nm, False) \<in> set ?entries \<longleftrightarrow> file_at w (d @ [''sst'', nm]) \<noteq> None" for nm
  proof
    assume "file_at w (d @ [''sst'', nm]) \<noteq> None"
    then have "nm \<in> set (dir_names ?w ?dir)" and "file_at ?w (?dir @ [nm]) \<noteq> None"
      by (auto simp: dir_names_set intro: exI [of _ "[]"])
    then show "(nm, False) \<in> set ?entries" by force
  qed auto
  have "load_entries ?dir ?entries [] ?w = (Inl ErrIncompleteRecord, ?w)"
  proof (rule load_entries_broken)
    show "\<forall>nm. (nm, False) \<in> set ?entries \<longrightarrow> has_sst_suffix nm \<longrightarrow> (\<exists>rs. table_at ?w (?dir @ [nm]) rs)
        \<or> (\<exists>c. file_at ?w (?dir @ [nm]) = Some c \<and> snd (scan Decode c) = ErrIncompleteRecord)"
    proof (intro allI impI)
      fix nm assume "(nm, False) \<in> set ?entries" "has_sst_suffix nm"
      then obtain i where i: "i < Suc n" "nm = sst_name (int i)" using nms unfolding ent in_sst_names by blast
      then have p: "?dir @ [nm] = table_path d i" by (simp add: table_path_def)
      show "(\<exists>rs. table_at ?w (?dir @ [nm]) rs)
        \<or> (\<exists>c. file_at ?w (?dir @ [nm]) = Some c \<and> snd (scan Decode c) = ErrIncompleteRecord)"
        unfolding p using i(1) tabs c by (cases "i = n") (auto simp: table_at_def)
    qed
    have "(sst_name (int n), False) \<in> set ?entries" unfolding ent using c(1) by (simp add: table_path_def)
    then show "\<exists>nm c. (nm, False) \<in> set ?entries \<and> has_sst_suffix nm \<and> file_at ?w (?dir @ [nm]) = Some c
        \<and> snd (scan Decode c) = ErrIncompleteRecord"
      using c by (intro exI [of _ "sst_name (int n)"] exI [of _ c]) (simp add: table_path_def)
  qed simp_all
  then have "loadSstables ?dir ?w = (Inl ErrIncompleteRecord, ?w)"
    by (simp add: loadSstables_def os_read_dir_def os_simps)
  then show ?thesis by (simp add: open_db_def normalizeOptions_def Let_def assms(2))
qed

section \<open>A write that fails\<close>

text \<open>The body that \<open>Put\<close> and \<open>Delete\<close> share.\<close>

definition log_write :: "Record \<Rightarrow> DB \<Rightarrow> world \<Rightarrow> err option \<times> DB \<times> world" where
  "log_write rc db w =
     (case WalAppend rc (db_Wal db) w of
        (Some e, w1) \<Rightarrow> (Some e, db, w1)
      | (None, w1) \<Rightarrow>
          let db1 = db\<lparr>db_Memtable := snd (insertToMemtable rc (db_Memtable db))\<rparr>
          in if MemSize (db_Memtable db1) \<ge> db_MemTableSize db1 then triggerFlush db1 w1
             else (None, db1, w1))"

lemma DbPut_log_write:
  "key \<noteq> [] \<Longrightarrow> \<not> db_closed db \<Longrightarrow>
     DbPut key val db w = log_write \<lparr>rec_Type = TypePut, rec_Key = key, rec_Value = val\<rparr> db w"
  by (simp add: DbPut_def log_write_def MemPut_def generateOneRecordByCopy_def insertToMemtable_def Let_def
      split: prod.splits option.splits)

lemma DbDelete_log_write:
  "key \<noteq> [] \<Longrightarrow> \<not> db_closed db \<Longrightarrow>
     DbDelete key db w = log_write \<lparr>rec_Type = TypeDelete, rec_Key = key, rec_Value = []\<rparr> db w"
  by (simp add: DbDelete_def log_write_def MemDelete_def generateOneRecordByCopy_def insertToMemtable_def Let_def
      split: prod.splits option.splits)

lemma loaded_insert:
  "db_loaded db d rss ls \<Longrightarrow> rec_ok r \<Longrightarrow>
     db_loaded (db\<lparr>db_Memtable := snd (insertToMemtable r (db_Memtable db))\<rparr>) d rss (ls @ [r])"
  by (simp add: db_loaded_def insertToMemtable_inv rec_ok_shape)

lemma tables_on_files:
  "tables_on w d rss \<Longrightarrow> file_at w' = file_at (set_file (wal_path_of d) c w) \<Longrightarrow> tables_on w' d rss"
  by (subst tables_on_cong [of w' d w]) (auto simp: wal_path_of_def)

lemma recoverable_log:
  assumes "tables_on w d rss" and "length rss \<le> 10000" and "recs_ok ls"
    and "file_at w' = file_at (set_file (wal_path_of d) (frames ls) w)"
  shows "recoverable w' d (newest (concat rss) ++ newest ls)"
  unfolding recoverable_def
  using tables_on_files [OF assms(1,4)] assms(2,3,4)
  by (intro exI [of _ rss] exI [of _ ls] exI [of _ EOF]) (simp add: codec.scan_frames)

lemma recoverable_torn_log:
  assumes "tables_on w d rss" and "length rss \<le> 10000" and "recs_ok ls" and "rec_ok r"
    and "n < length (frame r)"
    and "file_at w' = file_at (set_file (wal_path_of d) (frames ls @ take n (frame r)) w)"
  shows "recoverable w' d (newest (concat rss) ++ newest ls)"
proof (cases "n = 0")
  case True
  then show ?thesis using recoverable_log [OF assms(1-3), of w'] assms(6) by simp
next
  case False
  then have "scan Decode (file_data w' (wal_path_of d)) = (ls, ErrIncompleteRecord)"
    using codec.scan_torn [OF assms(3,4) _ assms(5)] assms(6) by simp
  then show ?thesis unfolding recoverable_def
    using tables_on_files [OF assms(1,6)] assms(2,3) by (intro exI [of _ rss] exI [of _ ls]) simp
qed

lemma torn_table_after:
  assumes on: "tables_on w d rss" and f: "file_at w' = file_at (set_file (table_path d (length rss)) c w)"
    and c: "snd (scan Decode c) = ErrIncompleteRecord"
  shows "torn_table w' d"
proof -
  have "\<forall>i < length rss. \<exists>rs. table_at w' (table_path d i) rs"
    using on f by (auto simp: tables_on_def table_at_def)
  moreover have "nm \<in> set (sst_names (Suc (length rss)))"
    if "has_sst_suffix nm" "file_at w' (d @ [''sst'', nm]) \<noteq> None" for nm
    using that on f by (auto simp: tables_on_def in_sst_names table_path_def less_Suc_eq split: if_splits)
  ultimately show ?thesis unfolding torn_table_def using c f
    by (intro exI [of _ "length rss"] exI [of _ c]) auto
qed

text \<open>The table of a flush that stopped early: it holds some of the records of the log, or is torn.\<close>

lemma partial_table:
  assumes on: "tables_on w d rss" and len: "length rss < 10000" and ls: "recs_ok ls"
    and rs: "key_sorted rs" "recs_ok rs" "newest rs = newest ls"
    and f: "file_at w' = file_at (set_file (table_path d (length rss)) (take n (frames rs)) w)"
    and wal: "file_at w (wal_path_of d) = Some (frames ls)"
  shows "recoverable w' d (newest (concat rss) ++ newest ls) \<or> torn_table w' d"
proof -
  let ?p = "table_path d (length rss)"
  obtain j e where sc: "scan Decode (take n (frames rs)) = (take j rs, e)"
    and e: "e = EOF \<or> e = ErrIncompleteRecord"
    and cut: "e = EOF \<longrightarrow> take n (frames rs) = frames (take j rs)"
    using scan_cut [OF rs(2)] by blast
  have wal': "scan Decode (file_data w' (wal_path_of d)) = (ls, EOF)"
    using f wal codec.scan_frames [OF ls] by simp
  show ?thesis
  proof (cases "e = EOF")
    case True
    have sub: "recs_ok (take j rs)" "key_sorted (take j rs)"
      using rs(1,2) by (auto simp: take_map [symmetric] dest: in_set_takeD intro: sorted_wrt_take)
    then have "tables_on w' d (rss @ [take j rs])"
      using tables_on_snoc [OF on sub(2), of w'] cut True f by (simp add: table_at_def)
    moreover have "newest (concat (rss @ [take j rs])) ++ newest ls = newest (concat rss) ++ newest ls"
      using newest_take_le [OF rs(1), of j] rs(3) by (simp add: newest_append map_add_le)
    ultimately show ?thesis using wal' ls len unfolding recoverable_def
      by (intro disjI1 exI [of _ "rss @ [take j rs]"] exI [of _ ls] exI [of _ EOF]) simp
  next
    case False
    then show ?thesis using torn_table_after [OF on f] sc e by simp
  qed
qed

lemma log_write_crash:
  assumes inv: "db_inv w db rss ls" and len: "length rss < 10000"
    and lw: "log_write rc db w = (r, db', w')"
  defines "d \<equiv> db_Dir db" and "m \<equiv> newest (concat rss) ++ newest ls"
  shows "r \<noteq> None \<and> recoverable w' d m \<or> recoverable w' d (m(rec_Key rc \<mapsto> rc))
    \<or> r \<noteq> None \<and> torn_table w' d
      \<and> db_MemTableSize db \<le> MemSize (snd (insertToMemtable rc (db_Memtable db)))"
proof -
  have ld: "db_loaded db d rss ls" and on: "tables_on w d rss"
    and wal: "file_at w (wal_path_of d) = Some (frames ls)"
    using inv by (simp_all add: db_inv_def d_def)
  have ls: "recs_ok ls" using ld by (simp add: db_loaded_def)
  have len': "length rss \<le> 10000" using len by simp
  obtain x1 w1 where app: "WalAppend rc (db_Wal db) w = (x1, w1)" by fastforce
  have "append_record (wal_file (db_Wal db)) rc w = (x1, w1)"
    using app ld by (simp add: WalAppend_def db_loaded_def)
  from append_record_prefix [OF this] obtain n where n: "n \<le> length (frame rc)"
    "x1 = None \<longrightarrow> rec_ok rc \<and> n = length (frame rc)" "\<not> rec_ok rc \<longrightarrow> n = 0"
    and "file_at w1 = file_at (append_file (wal_path_of d) (take n (frame rc)) w)"
    using ld by (auto simp: db_loaded_def)
  then have f1: "file_at w1 = file_at (set_file (wal_path_of d) (frames ls @ take n (frame rc)) w)"
    using wal by (simp add: append_file_def)
  have new: "recoverable v d (m(rec_Key rc \<mapsto> rc))"
    if "rec_ok rc" "n = length (frame rc)" "file_at v = file_at w1" for v
    using recoverable_log [OF on len', of "ls @ [rc]" v] that ls f1 by (simp add: m_def)
  show ?thesis
  proof (cases x1)
    case (Some e)
    then have res: "r = Some e" "w' = w1" using lw app by (simp_all add: log_write_def)
    show ?thesis
    proof (cases "rec_ok rc")
      case False
      then have "recoverable w1 d m"
        using recoverable_log [OF on len' ls, of w1] f1 n(3) by (simp add: m_def)
      then show ?thesis using res by simp
    next
      case True
      then show ?thesis
        using recoverable_torn_log [OF on len' ls True, of n w1] f1 new n(1) res
        by (cases "n = length (frame rc)") (auto simp: m_def)
    qed
  next
    case None
    then have ok: "rec_ok rc" "n = length (frame rc)" using n(2) by simp_all
    let ?db1 = "db\<lparr>db_Memtable := snd (insertToMemtable rc (db_Memtable db))\<rparr>"
    have ld1: "db_loaded ?db1 d rss (ls @ [rc])" using loaded_insert [OF ld ok(1)] .
    have on1: "tables_on w1 d rss" using tables_on_files [OF on f1] .
    have wal1: "file_at w1 (wal_path_of d) = Some (frames (ls @ [rc]))" using f1 ok(2) by simp
    show ?thesis
    proof (cases "db_MemTableSize db \<le> MemSize (snd (insertToMemtable rc (db_Memtable db)))")
      case False
      then have "w' = w1" using lw app None by (simp add: log_write_def Let_def)
      then show ?thesis using new ok by blast
    next
      case True
      then have fl: "triggerFlush ?db1 w1 = (r, db', w')" using lw app None by (simp add: log_write_def Let_def)
      let ?rs = "sorted_records (db_Memtable ?db1)" and ?p = "table_path d (length rss)"
      have inv1: "mt_inv (db_Memtable ?db1)" and map1: "mt_map (db_Memtable ?db1) = newest (ls @ [rc])"
        using ld1 by (simp_all add: db_loaded_def)
      have rs: "key_sorted ?rs" "recs_ok ?rs" "newest ?rs = newest (ls @ [rc])"
        using memtab.export_sorted [OF inv1] loaded_records_ok [OF ld1] memtab.export_look [OF inv1] map1
        by simp_all
      have m': "newest (concat rss) ++ newest (ls @ [rc]) = m(rec_Key rc \<mapsto> rc)" by (simp add: m_def)
      from triggerFlush_files [OF fl ld1 wal1]
      consider (same) "file_at w' = file_at w1"
        | (part) k where "r \<noteq> None" "file_at w' = file_at (set_file ?p (take k (frames ?rs)) w1)"
        | (full) "file_at w' = file_at (set_file (wal_path_of d) [] (set_file ?p (frames ?rs) w1))"
        by blast
      then show ?thesis
      proof cases
        case same
        then show ?thesis using new ok by blast
      next
        case part
        then show ?thesis
          using partial_table [OF on1 len _ rs part(2) wal1] ls ok(1) True unfolding m' by auto
      next
        case full
        have "table_at (set_file ?p (frames ?rs) w1) ?p ?rs" using rs(2) by (simp add: table_at_def)
        then have "tables_on (set_file ?p (frames ?rs) w1) d (rss @ [?rs])"
          by (rule tables_on_snoc [OF on1 rs(1)]) simp
        then have "recoverable w' d (newest (concat (rss @ [?rs])) ++ newest [])"
          by (rule recoverable_log) (use len full in simp_all)
        then show ?thesis using rs(3) m' by (simp add: newest_append)
      qed
    qed
  qed
qed

end
