(* ===== verification/KV_DB_Props.thy ===== *)
theory KV_DB_Props
  imports KV_DB_Crash
begin

text \<open>
  The promises of the database to its clients: histories of operations with restarts, the effect of
  single operations, and what failures can do.
\<close>

section \<open>Histories\<close>

datatype op = OpPut bytes bytes | OpDelete bytes | OpFlush | OpCompact | OpReopen

text \<open>Close the database and open its directory again.\<close>

definition reopen :: "Options \<Rightarrow> DB \<Rightarrow> world \<Rightarrow> err option \<times> DB \<times> world" where
  "reopen options db w =
     (case DbClose db w of
        (Some e, db1, w1) \<Rightarrow> (Some e, db1, w1)
      | (None, db1, w1) \<Rightarrow>
          (case open_db options w1 of
             (Inl e, w2) \<Rightarrow> (Some e, db1, w2)
           | (Inr db2, w2) \<Rightarrow> (None, db2, w2)))"

fun run_op :: "Options \<Rightarrow> op \<Rightarrow> DB \<Rightarrow> world \<Rightarrow> (err option \<times> DB \<times> world) option" where
  "run_op options (OpPut k v) db w = Some (DbPut k v db w)"
| "run_op options (OpDelete k) db w = Some (DbDelete k db w)"
| "run_op options OpFlush db w = Some (DbFlush db w)"
| "run_op options OpCompact db w = DbCompact db w"
| "run_op options OpReopen db w = Some (reopen options db w)"

text \<open>The results of a sequence of operations and the final state.\<close>

fun run_ops :: "Options \<Rightarrow> op list \<Rightarrow> DB \<Rightarrow> world \<Rightarrow> (err option list \<times> DB \<times> world) option" where
  "run_ops options [] db w = Some ([], db, w)"
| "run_ops options (a # as) db w =
     (case run_op options a db w of
        None \<Rightarrow> None
      | Some (r, db1, w1) \<Rightarrow>
          (case run_ops options as db1 w1 of
             None \<Rightarrow> None
           | Some (rs, db2, w2) \<Rightarrow> Some (r # rs, db2, w2)))"

text \<open>The abstract store: a map from keys to values.\<close>

fun spec_op :: "op \<Rightarrow> (bytes \<rightharpoonup> bytes) \<Rightarrow> bytes \<rightharpoonup> bytes" where
  "spec_op (OpPut k v) m = m(k \<mapsto> v)"
| "spec_op (OpDelete k) m = m(k := None)"
| "spec_op OpFlush m = m"
| "spec_op OpCompact m = m"
| "spec_op OpReopen m = m"

fun op_valid :: "op \<Rightarrow> bool" where
  "op_valid (OpPut k v) \<longleftrightarrow> k \<noteq> [] \<and> length k \<le> MaxUint32 \<and> length v \<le> MaxUint32"
| "op_valid (OpDelete k) \<longleftrightarrow> k \<noteq> [] \<and> length k \<le> MaxUint32"
| "op_valid _ \<longleftrightarrow> True"

text \<open>
  What \<open>Get\<close> may return for a key: its value, and for a key without one nil or, while its tombstone
  is still around, an empty slice.
\<close>

definition reads_as :: "bytes option \<Rightarrow> bytes option \<Rightarrow> bool" where
  "reads_as v g \<longleftrightarrow> (case v of Some x \<Rightarrow> g = Some x | None \<Rightarrow> g = None \<or> g = Some [])"

section \<open>The number of tables\<close>

lemma triggerFlush_num: "triggerFlush db w = (r, db', w') \<Longrightarrow>
  db_SstablesNum db' \<le> db_SstablesNum db + 1 \<and> db_Dir db' = db_Dir db"
  by (auto simp: triggerFlush_def Let_def split: if_splits prod.splits sum.splits option.splits)

lemma log_write_num: "log_write rc db w = (r, db', w') \<Longrightarrow>
  db_SstablesNum db' \<le> db_SstablesNum db + 1 \<and> db_Dir db' = db_Dir db"
  by (auto simp: log_write_def Let_def split: if_splits prod.splits option.splits dest!: triggerFlush_num)

section \<open>The refinement\<close>

text \<open>
  The state of the refinement: the abstract map, at most \<open>n\<close> tables, and records that carry values
  only when they are puts.
\<close>

definition store_at :: "Options \<Rightarrow> nat \<Rightarrow> DB \<Rightarrow> world \<Rightarrow> (bytes \<rightharpoonup> bytes) \<Rightarrow> bool" where
  "store_at options n db w a \<longleftrightarrow>
     calm w \<and> db_Dir db = path_of (opt_Dir options) \<and> db_SstablesNum db \<le> int n
     \<and> (\<exists>m. db_repr w db m \<and> kv_values m = a)"

lemma db_repr_shape: "db_repr w db m \<Longrightarrow> m k = Some r \<Longrightarrow> rec_ok r"
proof -
  assume "db_repr w db m" and r: "m k = Some r"
  then obtain rss ls where inv: "db_inv w db rss ls" and m: "m = newest (concat rss) ++ newest ls"
    by (auto simp: db_repr_def)
  have "recs_ok ls" and on: "tables_on w (db_Dir db) rss"
    using inv by (simp_all add: db_inv_def db_loaded_def)
  moreover have "recs_ok rs" if "rs \<in> set rss" for rs
    using on that in_set_conv_nth [of rs rss] by (auto simp: tables_on_def table_at_def)
  moreover have "r \<in> set ls \<or> r \<in> set (concat rss)"
    using r by (auto simp: m dest: newest_key)
  ultimately show "rec_ok r" by auto
qed

lemma reads_as_get_value: "db_repr w db m \<Longrightarrow> reads_as (kv_values m k) (get_value m k)"
  using db_repr_shape [of w db m k]
  by (auto simp: reads_as_def kv_values_def live_def get_value_def rec_ok_iff split: option.splits if_splits)

lemma store_at_get:
  "store_at options n db w a \<Longrightarrow> k \<noteq> [] \<Longrightarrow> \<exists>g. DbGet k db w = (Inr g, w) \<and> reads_as (a k) g"
  using DbGet_calm reads_as_get_value unfolding store_at_def by blast

lemma store_at_put:
  assumes "store_at options n db w a" and "op_valid (OpPut k v)"
  shows "\<exists>db' w'. DbPut k v db w = (None, db', w') \<and> store_at options (Suc n) db' w' (a(k \<mapsto> v))"
proof -
  obtain m where m: "db_repr w db m" "kv_values m = a" "calm w" "db_Dir db = path_of (opt_Dir options)"
    "db_SstablesNum db \<le> int n"
    using assms(1) by (auto simp: store_at_def)
  obtain db' w' where put: "DbPut k v db w = (None, db', w')" and c: "calm w'"
    and r: "db_repr w' db' (m(k \<mapsto> \<lparr>rec_Type = TypePut, rec_Key = k, rec_Value = v\<rparr>))"
    using DbPut_calm [OF m(3,1), of k v] assms(2) by auto
  have "db_SstablesNum db' \<le> db_SstablesNum db + 1 \<and> db_Dir db' = db_Dir db"
    using put DbPut_log_write log_write_num db_repr_closed [OF m(1)] assms(2) by fastforce
  then show ?thesis using put c r m unfolding store_at_def by (fastforce intro: kv_values_put)
qed

lemma store_at_delete:
  assumes "store_at options n db w a" and "op_valid (OpDelete k)"
  shows "\<exists>db' w'. DbDelete k db w = (None, db', w') \<and> store_at options (Suc n) db' w' (a(k := None))"
proof -
  obtain m where m: "db_repr w db m" "kv_values m = a" "calm w" "db_Dir db = path_of (opt_Dir options)"
    "db_SstablesNum db \<le> int n"
    using assms(1) by (auto simp: store_at_def)
  obtain db' w' where del: "DbDelete k db w = (None, db', w')" and c: "calm w'"
    and r: "db_repr w' db' (m(k \<mapsto> \<lparr>rec_Type = TypeDelete, rec_Key = k, rec_Value = []\<rparr>))"
    using DbDelete_calm [OF m(3,1), of k] assms(2) by auto
  have "db_SstablesNum db' \<le> db_SstablesNum db + 1 \<and> db_Dir db' = db_Dir db"
    using del DbDelete_log_write log_write_num db_repr_closed [OF m(1)] assms(2) by fastforce
  then show ?thesis using del c r m unfolding store_at_def by (fastforce intro: kv_values_delete)
qed

lemma store_at_flush:
  assumes "store_at options n db w a"
  shows "\<exists>db' w'. DbFlush db w = (None, db', w') \<and> store_at options (Suc n) db' w' a"
proof -
  obtain m where m: "db_repr w db m" "kv_values m = a" "calm w" "db_Dir db = path_of (opt_Dir options)"
    "db_SstablesNum db \<le> int n"
    using assms by (auto simp: store_at_def)
  obtain db' w' where fl: "DbFlush db w = (None, db', w')" and "calm w'" "db_repr w' db' m"
    using DbFlush_calm [OF m(3,1)] by blast
  moreover have "db_SstablesNum db' \<le> db_SstablesNum db + 1 \<and> db_Dir db' = db_Dir db"
    using fl triggerFlush_num db_repr_closed [OF m(1)] by (auto simp: DbFlush_def)
  ultimately show ?thesis using m unfolding store_at_def by fastforce
qed

lemma live_values: "live m' = live m \<Longrightarrow> kv_values m' = kv_values m"
  by (simp add: kv_values_def fun_eq_iff)

lemma store_at_compact:
  assumes "store_at options n db w a"
  shows "\<exists>db' w'. DbCompact db w = Some (None, db', w') \<and> store_at options (Suc n) db' w' a"
proof -
  obtain m where m: "db_repr w db m" "kv_values m = a" "calm w" "db_Dir db = path_of (opt_Dir options)"
    using assms by (auto simp: store_at_def)
  obtain db' w' m' where co: "DbCompact db w = Some (None, db', w')" and "calm w'" "db_repr w' db' m'"
    and lv: "live m' = live m" and "db_SstablesNum db' \<le> 1" "db_Dir db' = db_Dir db"
    using DbCompact_calm [OF m(3,1)] by blast
  then have "store_at options (Suc n) db' w' a"
    using m live_values [OF lv] unfolding store_at_def by auto
  then show ?thesis using co by blast
qed

lemma store_at_reopen:
  assumes "store_at options n db w a" and "n < 10000"
  shows "\<exists>db' w'. reopen options db w = (None, db', w') \<and> store_at options (Suc n) db' w' a"
proof -
  let ?d = "path_of (opt_Dir options)"
  obtain rss ls where inv: "db_inv w db rss ls" and a: "kv_values (newest (concat rss) ++ newest ls) = a"
    and c: "calm w" and d: "db_Dir db = ?d" and n: "db_SstablesNum db \<le> int n"
    using assms(1) by (auto simp: store_at_def db_repr_def)
  have len: "length rss \<le> n" using inv n by (simp add: db_inv_def db_loaded_def tables_open_def)
  obtain db1 w1 rss' ls' where cl: "DbClose db w = (None, db1, w1)" and c1: "calm w1"
    and on: "tables_on w1 ?d rss'" and wal: "file_at w1 (wal_path_of ?d) = Some (frames ls')" and ok: "recs_ok ls'"
    and m: "newest (concat rss') ++ newest ls' = newest (concat rss) ++ newest ls"
    and len': "length rss' \<le> Suc (length rss)"
    using DbClose_calm [OF c inv] unfolding d by blast
  have "length rss' \<le> 10000" using len' len assms(2) by simp
  moreover have "scan Decode (file_data w1 (wal_path_of ?d)) = (ls', EOF)"
    using wal codec.scan_frames [OF ok] by simp
  ultimately obtain db2 w2 where op: "open_db options w1 = (Inr db2, w2)" and c2: "calm w2"
    and ld: "db_loaded db2 ?d rss' ls'" and on2: "tables_on w2 ?d rss'"
    and wal2: "file_at w2 (wal_path_of ?d) = Some (file_data w1 (wal_path_of ?d))"
    using open_db_calm [OF c1 on _ refl _ _ ok] by blast
  have dir: "db_Dir db2 = ?d" using ld by (simp add: db_loaded_def)
  have "db_inv w2 db2 rss' ls'" using ld on2 wal2 wal dir by (simp add: db_inv_def)
  then have "db_repr w2 db2 (newest (concat rss) ++ newest ls)" unfolding m [symmetric] db_repr_def by blast
  moreover have "db_SstablesNum db2 \<le> int (Suc n)"
    using ld len len' by (simp add: db_loaded_def tables_open_def)
  ultimately have "store_at options (Suc n) db2 w2 a" using c2 dir a by (auto simp: store_at_def)
  then show ?thesis using cl op by (simp add: reopen_def)
qed

lemma store_at_op:
  assumes "store_at options n db w a" and "op_valid x" and "n < 10000"
  shows "\<exists>db' w'. run_op options x db w = Some (None, db', w') \<and> store_at options (Suc n) db' w' (spec_op x a)"
  using assms store_at_put store_at_delete store_at_flush store_at_compact store_at_reopen
  by (cases x) (auto simp del: op_valid.simps)

lemma store_at_ops:
  assumes "store_at options n db w a" and "\<forall>x \<in> set xs. op_valid x" and "n + length xs \<le> 10000"
  shows "\<exists>db' w'. run_ops options xs db w = Some (replicate (length xs) None, db', w')
    \<and> store_at options (n + length xs) db' w' (fold spec_op xs a)"
  using assms
proof (induction xs arbitrary: n db w a)
  case (Cons x xs)
  obtain db1 w1 where "run_op options x db w = Some (None, db1, w1)"
    and st: "store_at options (Suc n) db1 w1 (spec_op x a)"
    using store_at_op [OF Cons.prems(1), of x] Cons.prems by auto
  moreover have "Suc n + length xs \<le> 10000" using Cons.prems(3) by simp
  ultimately show ?case using Cons.IH [OF st] Cons.prems(2) by fastforce
qed simp

lemma open_fresh_inv:
  "\<exists>db w. open_db options \<lparr>disk = [], faults = []\<rparr> = (Inr db, w) \<and> calm w \<and> db_inv w db [] []
     \<and> db_Dir db = path_of (opt_Dir options)"
proof -
  let ?w = "\<lparr>disk = [], faults = []\<rparr>" and ?d = "path_of (opt_Dir options)"
  have "tables_on ?w ?d []" by (simp add: tables_on_def file_at_def)
  moreover have "file_data ?w (wal_path_of ?d) = []" by (simp add: file_data_def file_at_def)
  ultimately obtain db w where "open_db options ?w = (Inr db, w)" "calm w"
    and ld: "db_loaded db ?d [] []" and "tables_on w ?d []" "file_at w (wal_path_of ?d) = Some []"
    using open_db_calm [of ?w ?d "[]" options "[]" EOF] by (auto simp: codec.scan_nil)
  moreover have "db_Dir db = ?d" using ld by (simp add: db_loaded_def)
  ultimately show ?thesis by (auto simp: db_inv_def)
qed

lemma open_fresh:
  "\<exists>db w. open_db options \<lparr>disk = [], faults = []\<rparr> = (Inr db, w) \<and> store_at options 0 db w Map.empty
     \<and> db_repr w db Map.empty"
proof -
  obtain db w where op: "open_db options \<lparr>disk = [], faults = []\<rparr> = (Inr db, w)" and c: "calm w"
    and inv: "db_inv w db [] []" and d: "db_Dir db = path_of (opt_Dir options)"
    using open_fresh_inv by blast
  have repr: "db_repr w db Map.empty" using inv by (force simp: db_repr_def)
  moreover have "kv_values Map.empty = Map.empty" by (simp add: kv_values_def live_def fun_eq_iff)
  moreover have "db_SstablesNum db = 0"
    using inv by (simp add: db_inv_def db_loaded_def tables_open_def)
  ultimately have "store_at options 0 db w Map.empty"
    using c d by (auto simp: store_at_def)
  then show ?thesis using op repr by blast
qed

text \<open>A small database for the witnesses: one record in the memtable, and the same after a flush.\<close>

lemma example_memtable:
  "\<exists>db w. calm w \<and> db_inv w db [] [\<lparr>rec_Type = TypePut, rec_Key = [1], rec_Value = [2]\<rparr>]
     \<and> db_Dir db = path_of ''data'' \<and> MemSize (db_Memtable db) \<noteq> 0"
proof -
  let ?r = "\<lparr>rec_Type = TypePut, rec_Key = [1], rec_Value = [2]\<rparr>"
  obtain db w where c: "calm w" and inv: "db_inv w db [] []" and d: "db_Dir db = path_of ''data''"
    using open_fresh_inv [of "\<lparr>opt_Dir = ''data'', opt_sstDir = [], opt_MemTableSize = 0\<rparr>"] by auto
  have ok: "rec_ok ?r" by (simp add: rec_ok_iff MaxUint32_def)
  let ?db = "db\<lparr>db_Memtable := snd (insertToMemtable ?r (db_Memtable db))\<rparr>"
  have none: "map_of (mt_records (db_Memtable db)) = Map.empty" and "mt_inv (db_Memtable db)"
    using inv by (simp_all add: db_inv_def db_loaded_def mt_map_def)
  then have "mt_size (db_Memtable db) = 0" by (simp add: mt_inv_def mt_total_def)
  then have "MemSize (db_Memtable ?db) \<noteq> 0"
    by (simp add: insertToMemtable_def Let_def MemSize_def none record_size_def record_consts)
  then show ?thesis using logged_inv(2) [OF c inv ok] c d
    by (intro exI [of _ ?db] exI [of _ "set_file (wal_path_of (db_Dir db)) (frames ([] @ [?r])) w"]) simp
qed

lemma example_table:
  "\<exists>db w rs. calm w \<and> db_inv w db [rs] [] \<and> db_Dir db = path_of ''data''
     \<and> newest rs = [[1] \<mapsto> \<lparr>rec_Type = TypePut, rec_Key = [1], rec_Value = [2]\<rparr>]"
proof -
  let ?r = "\<lparr>rec_Type = TypePut, rec_Key = [1], rec_Value = [2]\<rparr>"
  obtain db w where "calm w" "db_inv w db [] [?r]" "db_Dir db = path_of ''data''" and nz: "MemSize (db_Memtable db) \<noteq> 0"
    using example_memtable by blast
  moreover from this triggerFlush_calm [OF this(1,2)] obtain db' w' where
    "calm w'" "db_inv w' db' [sorted_records (db_Memtable db)] []" "db_Dir db' = db_Dir db"
    by auto
  moreover have "newest (sorted_records (db_Memtable db)) = [[1] \<mapsto> ?r]"
    using \<open>db_inv w db [] [?r]\<close> sorted_records_newest by (auto simp: db_inv_def db_loaded_def newest_def)
  ultimately show ?thesis by metis
qed

section \<open>Properties\<close>

text \<open>
  C1: The database refines a map.  Starting from an empty directory, every sequence of up to 10000
  puts, deletes, flushes, compactions and restarts (with keys and values the format can hold)
  succeeds operation by operation, and afterwards \<open>Get\<close> reads exactly the map that the same
  sequence builds; a key without a value reads as nil or as an empty slice.
\<close>

theorem history_refines_map:
  assumes "\<forall>x \<in> set xs. op_valid x" and "length xs \<le> 10000"
  shows "\<exists>db0 w0 db w. open_db options \<lparr>disk = [], faults = []\<rparr> = (Inr db0, w0)
    \<and> run_ops options xs db0 w0 = Some (replicate (length xs) None, db, w)
    \<and> (\<forall>k. if k = [] then DbGet k db w = (Inl ErrEmptyKey, w)
           else \<exists>g. DbGet k db w = (Inr g, w) \<and> reads_as (fold spec_op xs Map.empty k) g)"
proof -
  obtain db0 w0 where "open_db options \<lparr>disk = [], faults = []\<rparr> = (Inr db0, w0)"
    and "store_at options 0 db0 w0 Map.empty"
    using open_fresh by blast
  moreover from store_at_ops [OF this(2) assms(1)] obtain db w where
    "run_ops options xs db0 w0 = Some (replicate (length xs) None, db, w)"
    and "store_at options (length xs) db w (fold spec_op xs Map.empty)"
    using assms(2) by auto
  moreover have "DbGet [] db w = (Inl ErrEmptyKey, w)" by (simp add: DbGet_def)
  ultimately show ?thesis using store_at_get by fastforce
qed

theorem history_refines_map_witness:
  "\<exists>db0 w0 db w. run_ops \<lparr>opt_Dir = ''data'', opt_sstDir = [], opt_MemTableSize = 20\<rparr>
      [OpPut [1] [10], OpFlush, OpPut [1] [11], OpPut [2] [12], OpDelete [2], OpCompact, OpReopen] db0 w0
      = Some (replicate 7 None, db, w)
    \<and> DbGet [1] db w = (Inr (Some [11]), w)"
proof -
  let ?xs = "[OpPut [1] [10], OpFlush, OpPut [1] [11], OpPut [2] [12], OpDelete [2], OpCompact, OpReopen]"
  let ?o = "\<lparr>opt_Dir = ''data'', opt_sstDir = [], opt_MemTableSize = 20\<rparr>"
  have "\<forall>x \<in> set ?xs. op_valid x" by (simp add: MaxUint32_def)
  from history_refines_map [OF this, of ?o] obtain db0 w0 db w where
    "run_ops ?o ?xs db0 w0 = Some (replicate (length ?xs) None, db, w)"
    and g: "\<forall>k. if k = [] then DbGet k db w = (Inl ErrEmptyKey, w)
           else \<exists>g. DbGet k db w = (Inr g, w) \<and> reads_as (fold spec_op ?xs Map.empty k) g"
    by auto
  moreover have "DbGet [1] db w = (Inr (Some [11]), w)"
    using g [THEN spec, of "[1]"] by (auto simp: reads_as_def)
  moreover have "length ?xs = 7" by simp
  ultimately show ?thesis by metis
qed

section \<open>Failures\<close>

lemma db_repr_faults [simp]: "db_repr (w\<lparr>faults := fs\<rparr>) db m = db_repr w db m"
  by (simp add: db_repr_def db_inv_def tables_on_def table_at_def)

text \<open>What the client of a failed write finds after a restart.\<close>

lemma write_then_restart:
  assumes "db_repr w db m" and d: "db_Dir db = path_of (opt_Dir options)" and "db_SstablesNum db < 10000"
    and lw: "log_write rc db w = (r, db', w')"
  shows "\<exists>x w2. open_db options (reboot w') = (x, w2)
    \<and> (case x of
         Inl e \<Rightarrow> e = ErrIncompleteRecord \<and> r \<noteq> None
           \<and> db_MemTableSize db \<le> MemSize (snd (insertToMemtable rc (db_Memtable db)))
       | Inr db2 \<Rightarrow> \<exists>m2. (m2 = m(rec_Key rc \<mapsto> rc) \<or> m2 = m \<and> r \<noteq> None)
           \<and> (\<forall>k. k = [] \<or> DbGet k db2 w2 = (Inr (get_value m2 k), w2)))"
proof -
  obtain rss ls where inv: "db_inv w db rss ls" and m: "m = newest (concat rss) ++ newest ls"
    using assms(1) by (auto simp: db_repr_def)
  have "length rss < 10000" using inv assms(3) by (simp add: db_inv_def db_loaded_def tables_open_def)
  from log_write_crash [OF inv this lw]
  consider (rec) m2 where "m2 = m(rec_Key rc \<mapsto> rc) \<or> m2 = m \<and> r \<noteq> None" "recoverable w' (db_Dir db) m2"
    | (torn) "r \<noteq> None" "torn_table w' (db_Dir db)"
        "db_MemTableSize db \<le> MemSize (snd (insertToMemtable rc (db_Memtable db)))"
    unfolding m by blast
  then show ?thesis
  proof cases
    case rec
    obtain db2 w2 where "open_db options (reboot w') = (Inr db2, w2)"
      and "\<forall>k. k \<noteq> [] \<longrightarrow> DbGet k db2 w2 = (Inr (get_value m2 k), w2)"
      using recoverable_open [OF rec(2) d] by blast
    then show ?thesis using rec(1) by (intro exI [of _ "Inr db2"] exI [of _ w2]) auto
  next
    case torn
    then show ?thesis using torn_table_open [OF torn(2) d] by fastforce
  qed
qed

text \<open>
  C7: \<open>Put\<close> is atomic across failures.  Whatever system calls fail during a \<open>Put\<close>, and wherever it
  is cut off, the directory that is left either opens, and then every \<open>Get\<close> answers from the map
  before the \<open>Put\<close> or from the map after it, from the latter if \<open>Put\<close> reported success; or it does
  not open, with \<open>ErrIncompleteRecord\<close>, which happens only when \<open>Put\<close> failed in the flush that a full
  memtable triggers.
\<close>

theorem DbPut_crash_atomic:
  assumes "db_repr w db m" and "db_Dir db = path_of (opt_Dir options)" and "db_SstablesNum db < 10000"
    and "key \<noteq> []" and "DbPut key val db w = (r, db', w')"
  shows "\<exists>x w2. open_db options (reboot w') = (x, w2)
    \<and> (case x of
         Inl e \<Rightarrow> e = ErrIncompleteRecord \<and> r \<noteq> None
           \<and> db_MemTableSize db \<le> MemSize (snd (MemPut key val (db_Memtable db)))
       | Inr db2 \<Rightarrow> \<exists>m2. (m2 = m(key \<mapsto> \<lparr>rec_Type = TypePut, rec_Key = key, rec_Value = val\<rparr>) \<or> m2 = m \<and> r \<noteq> None)
           \<and> (\<forall>k. k = [] \<or> DbGet k db2 w2 = (Inr (get_value m2 k), w2)))"
proof -
  let ?rc = "\<lparr>rec_Type = TypePut, rec_Key = key, rec_Value = val\<rparr>"
  have "log_write ?rc db w = (r, db', w')"
    using assms(4,5) DbPut_log_write db_repr_closed [OF assms(1)] by simp
  moreover have mp: "MemPut key val (db_Memtable db) = insertToMemtable ?rc (db_Memtable db)"
    using assms(4) by (simp add: MemPut_def generateOneRecordByCopy_def)
  ultimately show ?thesis
    using write_then_restart [OF assms(1-3), of ?rc r db' w'] unfolding mp Record.select_convs by blast
qed

theorem DbPut_crash_atomic_witness:
  "\<exists>db w x w2. open_db \<lparr>opt_Dir = ''data'', opt_sstDir = [], opt_MemTableSize = 0\<rparr> \<lparr>disk = [], faults = []\<rparr> = (Inr db, w)
    \<and> open_db \<lparr>opt_Dir = ''data'', opt_sstDir = [], opt_MemTableSize = 0\<rparr>
        (reboot (snd (snd (DbPut [1] [2] db (w\<lparr>faults := [Fail 3 ErrShortWrite]\<rparr>))))) = (x, w2)
    \<and> (case x of Inl e \<Rightarrow> e = ErrIncompleteRecord
       | Inr db2 \<Rightarrow> DbGet [1] db2 w2 = (Inr None, w2) \<or> DbGet [1] db2 w2 = (Inr (Some [2]), w2))"
proof -
  let ?o = "\<lparr>opt_Dir = ''data'', opt_sstDir = [], opt_MemTableSize = 0\<rparr>"
  obtain db w where op: "open_db ?o \<lparr>disk = [], faults = []\<rparr> = (Inr db, w)" and st: "store_at ?o 0 db w Map.empty"
    and m: "db_repr w db Map.empty"
    using open_fresh by blast
  then have d: "db_Dir db = path_of (opt_Dir ?o)" and n: "db_SstablesNum db < 10000"
    by (auto simp: store_at_def)
  let ?w = "w\<lparr>faults := [Fail 3 ErrShortWrite]\<rparr>"
  obtain r db' w' where put: "DbPut [1] [2] db ?w = (r, db', w')" by (metis prod_cases3)
  have m': "db_repr ?w db Map.empty" using m by simp
  obtain x w2 where x: "open_db ?o (reboot w') = (x, w2)"
    and c: "case x of Inl e \<Rightarrow> e = ErrIncompleteRecord \<and> r \<noteq> None
           \<and> db_MemTableSize db \<le> MemSize (snd (MemPut [1] [2] (db_Memtable db)))
       | Inr db2 \<Rightarrow> \<exists>m2. (m2 = [[1] \<mapsto> \<lparr>rec_Type = TypePut, rec_Key = [1], rec_Value = [2]\<rparr>] \<or> m2 = Map.empty \<and> r \<noteq> None)
           \<and> (\<forall>k. k = [] \<or> DbGet k db2 w2 = (Inr (get_value m2 k), w2))"
    using DbPut_crash_atomic [OF m' d n _ put] by blast
  have "case x of Inl e \<Rightarrow> e = ErrIncompleteRecord
       | Inr db2 \<Rightarrow> DbGet [1] db2 w2 = (Inr None, w2) \<or> DbGet [1] db2 w2 = (Inr (Some [2]), w2)"
    using c by (cases x) (auto simp: get_value_def dest: spec [of _ "[1]"])
  then show ?thesis using op put x by (intro exI [of _ db] exI [of _ w] exI [of _ x] exI [of _ w2]) simp
qed

text \<open>
  \<open>Delete\<close> is atomic across failures, in the same sense: after a restart the key is deleted, or
  everything is as before the call and the call had failed, or the directory does not open because
  the call failed in its flush.
\<close>

lemma DbDelete_crash_atomic:
  assumes "db_repr w db m" and "db_Dir db = path_of (opt_Dir options)" and "db_SstablesNum db < 10000"
    and "key \<noteq> []" and "DbDelete key db w = (r, db', w')"
  shows "\<exists>x w2. open_db options (reboot w') = (x, w2)
    \<and> (case x of
         Inl e \<Rightarrow> e = ErrIncompleteRecord \<and> r \<noteq> None
           \<and> db_MemTableSize db \<le> MemSize (snd (MemDelete key (db_Memtable db)))
       | Inr db2 \<Rightarrow> \<exists>m2. (m2 = m(key \<mapsto> \<lparr>rec_Type = TypeDelete, rec_Key = key, rec_Value = []\<rparr>) \<or> m2 = m \<and> r \<noteq> None)
           \<and> (\<forall>k. k = [] \<or> DbGet k db2 w2 = (Inr (get_value m2 k), w2)))"
proof -
  let ?rc = "\<lparr>rec_Type = TypeDelete, rec_Key = key, rec_Value = []\<rparr>"
  have "log_write ?rc db w = (r, db', w')"
    using assms(4,5) DbDelete_log_write db_repr_closed [OF assms(1)] by simp
  moreover have mp: "MemDelete key (db_Memtable db) = insertToMemtable ?rc (db_Memtable db)"
    using assms(4) by (simp add: MemDelete_def generateOneRecordByCopy_def)
  ultimately show ?thesis
    using write_then_restart [OF assms(1-3), of ?rc r db' w'] unfolding mp Record.select_convs by blast
qed

lemma DbDelete_crash_atomic_witness:
  "\<exists>db w x w2. open_db \<lparr>opt_Dir = ''data'', opt_sstDir = [], opt_MemTableSize = 0\<rparr> \<lparr>disk = [], faults = []\<rparr> = (Inr db, w)
    \<and> open_db \<lparr>opt_Dir = ''data'', opt_sstDir = [], opt_MemTableSize = 0\<rparr>
        (reboot (snd (snd (DbDelete [1] db (w\<lparr>faults := [Okay, Fail 0 EOF]\<rparr>))))) = (x, w2)
    \<and> (case x of Inl e \<Rightarrow> e = ErrIncompleteRecord
       | Inr db2 \<Rightarrow> DbGet [1] db2 w2 = (Inr None, w2) \<or> DbGet [1] db2 w2 = (Inr (Some []), w2))"
proof -
  let ?o = "\<lparr>opt_Dir = ''data'', opt_sstDir = [], opt_MemTableSize = 0\<rparr>"
  obtain db w where op: "open_db ?o \<lparr>disk = [], faults = []\<rparr> = (Inr db, w)" and st: "store_at ?o 0 db w Map.empty"
    and m: "db_repr w db Map.empty"
    using open_fresh by blast
  then have d: "db_Dir db = path_of (opt_Dir ?o)" and n: "db_SstablesNum db < 10000"
    by (auto simp: store_at_def)
  let ?w = "w\<lparr>faults := [Okay, Fail 0 EOF]\<rparr>"
  obtain r db' w' where del: "DbDelete [1] db ?w = (r, db', w')" by (metis prod_cases3)
  have m': "db_repr ?w db Map.empty" using m by simp
  obtain x w2 where x: "open_db ?o (reboot w') = (x, w2)"
    and c: "case x of Inl e \<Rightarrow> e = ErrIncompleteRecord \<and> r \<noteq> None
           \<and> db_MemTableSize db \<le> MemSize (snd (MemDelete [1] (db_Memtable db)))
       | Inr db2 \<Rightarrow> \<exists>m2. (m2 = [[1] \<mapsto> \<lparr>rec_Type = TypeDelete, rec_Key = [1], rec_Value = []\<rparr>] \<or> m2 = Map.empty \<and> r \<noteq> None)
           \<and> (\<forall>k. k = [] \<or> DbGet k db2 w2 = (Inr (get_value m2 k), w2))"
    using DbDelete_crash_atomic [OF m' d n _ del] by blast
  have "case x of Inl e \<Rightarrow> e = ErrIncompleteRecord
       | Inr db2 \<Rightarrow> DbGet [1] db2 w2 = (Inr None, w2) \<or> DbGet [1] db2 w2 = (Inr (Some []), w2)"
    using c by (cases x) (auto simp: get_value_def dest: spec [of _ "[1]"])
  then show ?thesis using op del x by (intro exI [of _ db] exI [of _ w] exI [of _ x] exI [of _ w2]) simp
qed

text \<open>A flush whose first write stops inside the header of the first record.\<close>

lemma torn_flush:
  assumes inv: "db_inv w db rss ls" and nz: "MemSize (db_Memtable db) \<noteq> 0"
    and flt: "faults w = [Okay, Okay, Fail n e]" and n: "0 < n" "n < RecordHeaderSize"
  shows "\<exists>w'. triggerFlush db w = (Some e, db, w') \<and> torn_table w' (db_Dir db)"
proof -
  let ?d = "db_Dir db"
  let ?p = "table_path ?d (length rss)"
  let ?sw = "\<lparr>sw_file = \<lparr>f_path = ?p, f_pos = 0\<rparr>, sw_closed = False\<rparr>"
  have ld: "db_loaded db ?d rss ls" and on: "tables_on w ?d rss"
    using inv by (simp_all add: db_inv_def)
  have path: "db_sstDir db @ [sst_name (db_SstablesNum db)] = ?p"
    using ld by (simp add: db_loaded_def tables_open_def table_path_def)
  have minv: "mt_inv (db_Memtable db)" using ld by (simp add: db_loaded_def)
  have "mt_records (db_Memtable db) \<noteq> []"
    using minv nz by (auto simp: mt_inv_def MemSize_def mt_total_def)
  then have "sorted_records (db_Memtable db) \<noteq> []"
    using sorted_records_set [OF minv] by (metis image_is_empty set_empty)
  then obtain r rs where rs: "sorted_records (db_Memtable db) = r # rs" by (cases "sorted_records (db_Memtable db)") auto
  have ok: "rec_ok r" using loaded_records_ok [OF ld] rs by simp
  have none: "file_at w ?p = None"
  proof (rule ccontr)
    assume "file_at w ?p \<noteq> None"
    then have "sst_name (int (length rss)) \<in> set (sst_names (length rss))"
      using on sst_name_suffix unfolding tables_on_def table_path_def by blast
    then show False by simp
  qed
  let ?w1 = "set_file ?p [] (w\<lparr>faults := [Fail n e]\<rparr>)"
  have cr: "CreateSSTableWriter ?p w = (Inr ?sw, ?w1)"
    using flt none by (simp add: CreateSSTableWriter_def OpenFileWithFlagMode_def os_mkdir_all_def os_guard_def
        take_fault_def os_open_file_def)
  let ?w2 = "append_file ?p (take n (frame r)) (?w1\<lparr>faults := []\<rparr>)"
  have len: "n < length (frame r)" using n by simp
  have "WriterAppend ?sw r ?w1 = (Some e, ?w2)"
    using ok by (simp add: WriterAppend_def append_record_def Encode_frame os_write_def take_fault_def)
  then have v: "MemForEachRecord (Some (WriterAppend ?sw)) (db_Memtable db) ?w1 = (Some e, ?w2)"
    by (simp add: MemForEachRecord_def rs)
  have f2: "file_at ?w2 = file_at (set_file ?p (take n (frame r)) w)" by (auto simp: fun_eq_iff)
  have fl: "triggerFlush db w = (Some e, db, ?w2)"
    using nz cr v by (simp add: triggerFlush_def Let_def path)
  have "scan Decode (take n (frame r)) = ([], ErrIncompleteRecord)"
    using codec.scan_torn [of "[]" r n] ok n(1) len by simp
  then have "torn_table ?w2 ?d" using torn_table_after [OF on f2] by simp
  then show ?thesis using fl by blast
qed

text \<open>
  C33: A process that dies in a flush cannot open its database again.  If the first write to the new
  table stops inside a record's header, the log still holds every record, but the next \<open>Open\<close> fails
  with \<open>ErrIncompleteRecord\<close> because of the unfinished table.
\<close>

theorem cut_flush_blocks_open:
  assumes "db_repr w db m" and "db_Dir db = path_of (opt_Dir options)"
    and "MemSize (db_Memtable db) \<noteq> 0"
    and "faults w = [Okay, Okay, Fail n e]" and "0 < n" and "n < RecordHeaderSize"
  shows "\<exists>db' w' w2. DbFlush db w = (Some e, db', w')
    \<and> open_db options (reboot w') = (Inl ErrIncompleteRecord, w2)"
proof -
  obtain rss ls where inv: "db_inv w db rss ls" using assms(1) by (auto simp: db_repr_def)
  obtain w' where "triggerFlush db w = (Some e, db, w')" and "torn_table w' (db_Dir db)"
    using torn_flush [OF inv assms(3-6)] by blast
  then show ?thesis
    using torn_table_open [OF _ assms(2)] db_repr_closed [OF assms(1)] by (fastforce simp: DbFlush_def)
qed

theorem cut_flush_blocks_open_witness:
  "\<exists>db w db' w' w2. DbFlush db w = (Some EOF, db', w')
    \<and> open_db \<lparr>opt_Dir = ''data'', opt_sstDir = [], opt_MemTableSize = 0\<rparr> (reboot w') = (Inl ErrIncompleteRecord, w2)"
proof -
  let ?o = "\<lparr>opt_Dir = ''data'', opt_sstDir = [], opt_MemTableSize = 0\<rparr>"
  let ?r = "\<lparr>rec_Type = TypePut, rec_Key = [1], rec_Value = [2]\<rparr>"
  obtain db w where inv: "db_inv w db [] [?r]" and d: "db_Dir db = path_of ''data''" and nz: "MemSize (db_Memtable db) \<noteq> 0"
    using example_memtable by blast
  have repr: "db_repr (w\<lparr>faults := [Okay, Okay, Fail 5 EOF]\<rparr>) db (newest (concat []) ++ newest [?r])"
    unfolding db_repr_faults unfolding db_repr_def using inv by blast
  have "(0::nat) < 5" "5 < RecordHeaderSize" by (simp_all add: record_consts)
  moreover have "db_Dir db = path_of (opt_Dir ?o)" using d by simp
  ultimately show ?thesis using cut_flush_blocks_open [OF repr _ nz, of ?o 5 EOF] by fastforce
qed

section \<open>A compaction that fails\<close>

lemma SstClose_okay:
  "\<not> sst_closed s \<Longrightarrow> faults w = Okay # fs \<Longrightarrow>
     SstClose s w = (None, s\<lparr>sst_id := 0, sst_path := [], sst_closed := True\<rparr>, w\<lparr>faults := fs\<rparr>)"
  by (simp add: SstClose_def os_close_def os_guard_def take_fault_def)

lemma closeSstables_okay:
  assumes "\<forall>s \<in> set ss. \<not> sst_closed s" and "faults w = replicate (length ss) Okay @ fs"
  shows "\<exists>ss'. closeSstables ss w = (None, ss', w\<lparr>faults := fs\<rparr>)"
  using assms
proof (induction ss arbitrary: w)
  case (Cons s ss)
  have "SstClose s w = (None, s\<lparr>sst_id := 0, sst_path := [], sst_closed := True\<rparr>,
      w\<lparr>faults := replicate (length ss) Okay @ fs\<rparr>)"
    by (rule SstClose_okay) (use Cons.prems in simp_all)
  then show ?case using Cons.IH [of "w\<lparr>faults := replicate (length ss) Okay @ fs\<rparr>"] Cons.prems by auto
qed simp

lemma remove_paths_okay:
  assumes "faults w = replicate (length ps) Okay @ fs"
  shows "\<exists>w'. remove_paths ps w = (None, w') \<and> faults w' = fs
    \<and> (\<forall>q. file_at w' q = (if q \<in> set ps then None else file_at w q))"
  using assms
proof (induction ps arbitrary: w)
  case (Cons p ps)
  let ?w1 = "w\<lparr>faults := replicate (length ps) Okay @ fs\<rparr>"
  have g: "os_guard w = (None, ?w1)" using Cons.prems by (simp add: os_guard_def take_fault_def)
  show ?case
  proof (cases "file_at w p")
    case None
    then have "os_remove p w = (Some ErrNotExist, ?w1)" using g by (simp add: os_remove_def)
    then show ?thesis using Cons.IH [of ?w1] None by auto
  next
    case (Some c)
    then have "os_remove p w = (None, del_file p ?w1)" using g by (simp add: os_remove_def)
    then show ?thesis using Cons.IH [of "del_file p ?w1"] by auto
  qed
qed simp

text \<open>
  C34: \<open>Compact\<close> destroys the old tables before the new one is in place.  If the rename of the merged
  file fails (or the process dies there), \<open>Compact\<close> reports the error, and the directory opens again
  without complaint, with nothing but the records of the log: every key of the tables is gone.
\<close>

theorem failed_rename_loses_tables:
  assumes ld: "db_loaded db (db_Dir db) rss ls" and on: "tables_on w (db_Dir db) rss"
    and wal: "file_at w (wal_path_of (db_Dir db)) = Some (frames ls)"
    and d: "db_Dir db = path_of (opt_Dir options)" and s: "\<not> sst_closed s"
    and tmp: "tmp = db_Dir db @ [''sst'', ''compact.tmp'']"
    and flt: "faults w = replicate (2 * length rss + 1) Okay @ [Fail n e]"
  shows "\<exists>db' w' db2 w2.
    install_compacted (Some s) (map SstPath (db_Sstables db)) tmp (table_path (db_Dir db) 0) db w = (Some e, db', w')
    \<and> open_db options (reboot w') = (Inr db2, w2)
    \<and> (\<forall>k. k = [] \<or> DbGet k db2 w2 = (Inr (get_value (newest ls) k), w2))"
proof -
  let ?d = "db_Dir db" and ?n = "length rss"
  have tabs: "tables_open ?d (db_Sstables db) rss" using ld by (simp add: db_loaded_def)
  then have len: "length (db_Sstables db) = ?n" by (simp add: tables_open_def)
  have paths: "map SstPath (db_Sstables db) = map (table_path ?d) [0..<?n]"
    using tables_open_paths [OF tabs] by (simp add: SstPath_def cong: map_cong)
  let ?w1 = "w\<lparr>faults := replicate (2 * ?n) Okay @ [Fail n e]\<rparr>"
  have c1: "SstClose s w = (None, s\<lparr>sst_id := 0, sst_path := [], sst_closed := True\<rparr>, ?w1)"
    by (rule SstClose_okay [OF s]) (use flt in simp)
  let ?w2 = "w\<lparr>faults := replicate ?n Okay @ [Fail n e]\<rparr>"
  have "faults ?w1 = replicate (length (db_Sstables db)) Okay @ (replicate ?n Okay @ [Fail n e])"
    by (simp add: len mult_2 replicate_add)
  from closeSstables_okay [OF tables_open_not_closed [OF tabs] this]
  obtain ss where c2: "closeSstables (db_Sstables db) ?w1 = (None, ss, ?w2)" by auto
  have "faults ?w2 = replicate (length (map (table_path ?d) [0..<?n])) Okay @ [Fail n e]" by simp
  from remove_paths_okay [OF this] obtain w3 where rm: "remove_paths (map (table_path ?d) [0..<?n]) ?w2 = (None, w3)"
    and fl3: "faults w3 = [Fail n e]"
    and f3: "\<And>q. file_at w3 q = (if q \<in> set (map (table_path ?d) [0..<?n]) then None else file_at w q)"
    by auto
  have mv: "os_rename tmp fin w3 = (Some e, w3\<lparr>faults := []\<rparr>)" for fin
    using fl3 by (simp add: os_rename_def os_guard_def take_fault_def)
  have run: "install_compacted (Some s) (map SstPath (db_Sstables db)) tmp (table_path ?d 0) db w
      = (Some e, db\<lparr>db_Sstables := ss\<rparr>, w3\<lparr>faults := []\<rparr>)"
    unfolding paths install_compacted_def using c1 c2 rm mv by (simp add: Let_def)
  have on3: "tables_on w3 ?d []"
    using on f3 by (fastforce simp: tables_on_def in_sst_names table_path_def split: if_splits)
  have "file_at w3 (wal_path_of ?d) = Some (frames ls)"
    using wal f3 [of "wal_path_of ?d"] by (auto split: if_splits)
  then have "file_at (w3\<lparr>faults := []\<rparr>) = file_at (set_file (wal_path_of ?d) (frames ls) w3)"
    by (auto simp: fun_eq_iff)
  moreover have "recs_ok ls" using ld by (simp add: db_loaded_def)
  ultimately have "recoverable (w3\<lparr>faults := []\<rparr>) ?d (newest ls)"
    using recoverable_log [OF on3, of ls] by simp
  from recoverable_open [OF this d] show ?thesis using run by blast
qed

theorem failed_rename_loses_tables_witness:
  "\<exists>db w s db' w' db2 w2. DbGet [1] db w = (Inr (Some [2]), w)
    \<and> install_compacted (Some s) (map SstPath (db_Sstables db)) (db_Dir db @ [''sst'', ''compact.tmp''])
        (table_path (db_Dir db) 0) db (w\<lparr>faults := [Okay, Okay, Okay, Fail 0 EOF]\<rparr>) = (Some EOF, db', w')
    \<and> open_db \<lparr>opt_Dir = ''data'', opt_sstDir = [], opt_MemTableSize = 0\<rparr> (reboot w') = (Inr db2, w2)
    \<and> DbGet [1] db2 w2 = (Inr None, w2)"
proof -
  let ?o = "\<lparr>opt_Dir = ''data'', opt_sstDir = [], opt_MemTableSize = 0\<rparr>"
  let ?s = "\<lparr>sst_id = 0, sst_path = [], sst_file = \<lparr>f_path = [], f_pos = 0\<rparr>, sst_size = 0, sst_index = [], sst_closed = False\<rparr>"
  obtain db w rs where c: "calm w" and inv: "db_inv w db [rs] []" and d: "db_Dir db = path_of (opt_Dir ?o)"
    and rs: "newest rs = [[1] \<mapsto> \<lparr>rec_Type = TypePut, rec_Key = [1], rec_Value = [2]\<rparr>]"
    using example_table by auto
  let ?w = "w\<lparr>faults := [Okay, Okay, Okay, Fail 0 EOF]\<rparr>"
  have ld: "db_loaded db (db_Dir db) [rs] []" and "tables_on w (db_Dir db) [rs]"
    and "file_at w (wal_path_of (db_Dir db)) = Some (frames [])"
    using inv by (simp_all add: db_inv_def)
  then have "tables_on ?w (db_Dir db) [rs]" "file_at ?w (wal_path_of (db_Dir db)) = Some (frames [])"
    by (simp_all add: tables_on_def table_at_def)
  moreover have "faults ?w = replicate (2 * length [rs] + 1) Okay @ [Fail 0 EOF]" by (simp add: numeral_eq_Suc)
  ultimately obtain db' w' db2 w2 where
    "install_compacted (Some ?s) (map SstPath (db_Sstables db)) (db_Dir db @ [''sst'', ''compact.tmp''])
      (table_path (db_Dir db) 0) db ?w = (Some EOF, db', w')"
    "open_db ?o (reboot w') = (Inr db2, w2)" "\<forall>k. k = [] \<or> DbGet k db2 w2 = (Inr (get_value (newest []) k), w2)"
    using failed_rename_loses_tables [OF ld _ _ d _ refl, of ?w ?s 0 EOF] by auto
  moreover have "DbGet [1] db2 w2 = (Inr None, w2)"
    using calculation(3) by (auto simp: get_value_def dest: spec [of _ "[1]"])
  moreover have "DbGet [1] db w = (Inr (Some [2]), w)"
    using DbGet_loaded [OF c ld, of "[1]"] inv rs by (simp add: db_inv_def get_value_def)
  ultimately show ?thesis by blast
qed

text \<open>
  \<open>Open\<close> of an empty directory name panics in a fresh process: \<open>CreateDir\<close> fails and the error is
  logged through the package's logger, which \<open>Open\<close> sets only afterwards.
\<close>

lemma open_without_logger_panics:
  "fst (DbOpen False \<lparr>opt_Dir = [], opt_sstDir = [], opt_MemTableSize = sz\<rparr> w) = None"
  by (simp add: DbOpen_def CreateDir_def IsValidDir_def mkdir_all_string_def)

end
