(* ===== verification/KV_Snapshot.thy ===== *)
theory KV_Snapshot
  imports KV_DB_Props
begin

text \<open>
  Snapshots (\<open>CreateSnapshot\<close> and \<open>RestoreSnapshot\<close> of \<open>db.go\<close>): a tar archive of the table files.
  An archive is the list of its entries; the writer that receives it and the reader that delivers
  it can fail at every call, as the file system can.  A reader is the list of entries it delivers
  and the error, if any, that it ends with.
\<close>

section \<open>Archives\<close>

text \<open>The type flag of a regular file is the character \<open>0\<close>.\<close>

record TarEntry =
  te_Name :: string
  te_Typeflag :: char
  te_Data :: bytes

definition TypeReg :: char where
  "TypeReg = CHR ''0''"

definition is_dir :: "world \<Rightarrow> path \<Rightarrow> bool" where
  "is_dir w p \<longleftrightarrow> list_ex (\<lambda>pc. in_dir p (fst pc) \<and> length p < length (fst pc)) (disk w)"

text \<open>\<open>os.Stat\<close>: whether the path is a directory, and its size.\<close>

definition os_stat :: "path \<Rightarrow> world \<Rightarrow> (err + bool \<times> nat) \<times> world" where
  "os_stat p w =
     (case os_guard w of
        (Some e, w1) \<Rightarrow> (Inl e, w1)
      | (None, w1) \<Rightarrow>
          (case file_at w1 p of
             Some c \<Rightarrow> (Inr (False, length c), w1)
           | None \<Rightarrow> if is_dir w1 p then (Inr (True, 0), w1) else (Inl ErrNotExist, w1)))"

section \<open>CreateSnapshot\<close>

text \<open>
  The archive is returned with the error.  \<open>io.Copy\<close> reads the whole file; when it fails, the bytes
  it got are in the archive.
\<close>

definition writeSnapshotSSTable ::
  "TarEntry list \<Rightarrow> path \<Rightarrow> world \<Rightarrow> err option \<times> TarEntry list \<times> world" where
  "writeSnapshotSSTable tw p w =
     (case os_stat p w of
        (Inl e, w1) \<Rightarrow> (Some e, tw, w1)
      | (Inr (isDir, sz), w1) \<Rightarrow>
          if isDir then (None, tw, w1)
          else
            (let name = last p
             in if path_Ext name \<noteq> ''.sst'' then (None, tw, w1)
                else
                  (case os_guard w1 of
                     (Some e, w2) \<Rightarrow> (Some e, tw, w2)
                   | (None, w2) \<Rightarrow>
                       let hdr = \<lparr>te_Name = name, te_Typeflag = TypeReg, te_Data = []\<rparr>
                       in (case os_open_file p False False w2 of
                             (Inl e, w3) \<Rightarrow> (Some e, tw @ [hdr], w3)
                           | (Inr f, w3) \<Rightarrow>
                               (case take_fault w3 of
                                  (flt, w4) \<Rightarrow>
                                    let content = file_data w4 p;
                                        got = (case flt of Okay \<Rightarrow> content | Fail n e \<Rightarrow> take n content);
                                        tw1 = tw @ [hdr\<lparr>te_Data := got\<rparr>]
                                    in (case os_close f w4 of
                                          (ign, w5) \<Rightarrow>
                                            (case flt of Okay \<Rightarrow> None | Fail n e \<Rightarrow> Some e, tw1, w5)))))))"

fun write_tables :: "TarEntry list \<Rightarrow> SSTable list \<Rightarrow> world \<Rightarrow> err option \<times> TarEntry list \<times> world" where
  "write_tables tw [] w = (None, tw, w)"
| "write_tables tw (s # ss) w =
     (case writeSnapshotSSTable tw (SstPath s) w of
        (Some e, tw1, w1) \<Rightarrow> (Some e, tw1, w1)
      | (None, tw1, w1) \<Rightarrow> write_tables tw1 ss w1)"

text \<open>\<open>hasWriter\<close>: the writer is not nil.  \<open>tw.Close\<close> writes the end of the archive.\<close>

definition CreateSnapshot ::
  "bool \<Rightarrow> DB \<Rightarrow> world \<Rightarrow> err option \<times> TarEntry list \<times> DB \<times> world" where
  "CreateSnapshot hasWriter db w =
     (if \<not> hasWriter then (Some ErrInvalidPara, [], db, w)
      else if db_closed db then (Some ErrDbClosed, [], db, w)
      else
        (case triggerFlush db w of
           (Some e, db1, w1) \<Rightarrow> (Some e, [], db1, w1)
         | (None, db1, w1) \<Rightarrow>
             (case write_tables [] (db_Sstables db1) w1 of
                (Some e, tw, w2) \<Rightarrow> (case os_guard w2 of (ign, w3) \<Rightarrow> (Some e, tw, db1, w3))
              | (None, tw, w2) \<Rightarrow> (case os_guard w2 of (r, w3) \<Rightarrow> (r, tw, db1, w3)))))"

section \<open>RestoreSnapshot\<close>

fun restoreSnapshotSSTables ::
  "TarEntry list \<Rightarrow> err option \<Rightarrow> path \<Rightarrow> world \<Rightarrow> err option \<times> world" where
  "restoreSnapshotSSTables [] fin sstDir w = (fin, w)"
| "restoreSnapshotSSTables (header # es) fin sstDir w =
     (if te_Typeflag header \<noteq> TypeReg then restoreSnapshotSSTables es fin sstDir w
      else
        (let name = path_Base (te_Name header)
         in if name = ''.'' \<or> path_Ext name \<noteq> ''.sst'' then (Some ErrInvalidPara, w)
            else
              (case os_open_file (sstDir @ [name]) True True w of
                 (Inl e, w1) \<Rightarrow> (Some e, w1)
               | (Inr f, w1) \<Rightarrow>
                   (case os_write f (te_Data header) w1 of
                      (n, Some e, w2) \<Rightarrow> (case os_close f w2 of (ign, w3) \<Rightarrow> (Some e, w3))
                    | (n, None, w2) \<Rightarrow>
                        (case os_sync f w2 of
                           (Some e, w3) \<Rightarrow> (case os_close f w3 of (ign, w4) \<Rightarrow> (Some e, w4))
                         | (None, w3) \<Rightarrow>
                             (case os_close f w3 of
                                (Some e, w4) \<Rightarrow> (Some e, w4)
                              | (None, w4) \<Rightarrow> restoreSnapshotSSTables es fin sstDir w4))))))"

text \<open>\<open>None\<close> stands for the nil reader.\<close>

definition RestoreSnapshot ::
  "(TarEntry list \<times> err option) option \<Rightarrow> DB \<Rightarrow> world \<Rightarrow> err option \<times> DB \<times> world" where
  "RestoreSnapshot reader db w =
     (case reader of
        None \<Rightarrow> (Some ErrInvalidPara, db, w)
      | Some (entries, fin) \<Rightarrow>
          if db_closed db then (Some ErrDbClosed, db, w)
          else
            (case closeSstables (db_Sstables db) w of
               (Some e, ss, w1) \<Rightarrow> (Some e, db\<lparr>db_Sstables := ss\<rparr>, w1)
             | (None, ss, w1) \<Rightarrow>
                 let db1 = db\<lparr>db_Sstables := [], db_SstablesNum := 0\<rparr>
                 in (case WalClose (db_Wal db1) w1 of
                       (Some e, wal, w2) \<Rightarrow> (Some e, db1\<lparr>db_Wal := wal\<rparr>, w2)
                     | (None, wal, w2) \<Rightarrow>
                         let db2 = db1\<lparr>db_Wal := wal\<rparr>
                         in (case os_remove_all (db_sstDir db2) w2 of
                               (Some e, w3) \<Rightarrow> (Some e, db2, w3)
                             | (None, w3) \<Rightarrow>
                         (case os_mkdir_all (db_sstDir db2) w3 of
                            (Some e, w4) \<Rightarrow> (Some e, db2, w4)
                          | (None, w4) \<Rightarrow>
                         (case restoreSnapshotSSTables entries fin (db_sstDir db2) w4 of
                            (Some e, w5) \<Rightarrow> (Some e, db2, w5)
                          | (None, w5) \<Rightarrow>
                         (let walPath = db_Dir db2 @ [''wal.log'']
                          in case os_remove walPath w5 of
                               (rm, w6) \<Rightarrow>
                                 if rm \<noteq> None \<and> rm \<noteq> Some ErrNotExist then (rm, db2, w6)
                                 else
                                   (case WalOpen walPath w6 of
                                      (Inl e, w7) \<Rightarrow> (Some e, db2, w7)
                                    | (Inr walIns, w7) \<Rightarrow>
                                        let db3 = db2\<lparr>db_Wal := walIns, db_Memtable := NewMemTable\<rparr>
                                        in (case loadSstables (db_sstDir db3) w7 of
                                              (Inl e, w8) \<Rightarrow> (Some e, db3, w8)
                                            | (Inr ss3, w8) \<Rightarrow>
                                                (None, db3\<lparr>db_Sstables := ss3,
                                                   db_SstablesNum := int (length ss3)\<rparr>, w8))))))))))"

section \<open>The archive of a list of tables\<close>

definition entry :: "string \<Rightarrow> bytes \<Rightarrow> TarEntry" where
  "entry n c = \<lparr>te_Name = n, te_Typeflag = TypeReg, te_Data = c\<rparr>"

definition archive_of :: "Record list list \<Rightarrow> TarEntry list" where
  "archive_of rss = map (\<lambda>i. entry (sst_name (int i)) (frames (rss ! i))) [0..<length rss]"

lemma writeSnapshotSSTable_calm:
  assumes "calm w" and "file_at w (table_path d i) = Some c"
  shows "writeSnapshotSSTable tw (table_path d i) w = (None, tw @ [entry (sst_name (int i)) c], w)"
proof -
  have "last (table_path d i) = sst_name (int i)" by (simp add: table_path_def)
  moreover have "path_Ext (sst_name (int i)) = ''.sst''" by (simp add: path_Ext_sst)
  ultimately show ?thesis using assms
    by (simp add: writeSnapshotSSTable_def os_stat_def os_simps entry_def)
qed

lemma write_tables_calm:
  assumes "calm w" and "tables_on w d rss" and "tables_open d ss rss" and "n \<le> length rss"
  shows "write_tables tw (drop n ss) w
    = (None, tw @ map (\<lambda>i. entry (sst_name (int i)) (frames (rss ! i))) [n..<length rss], w)"
  using assms(4)
proof (induction "length rss - n" arbitrary: n tw)
  case 0
  then show ?case using assms(3) by (simp add: tables_open_def)
next
  case (Suc k)
  then have n: "n < length rss" by simp
  then have ss: "drop n ss = ss ! n # drop (Suc n) ss" "SstPath (ss ! n) = table_path d n"
    using assms(3) by (auto simp: tables_open_def SstPath_def sst_repr_def Cons_nth_drop_Suc)
  have "file_at w (table_path d n) = Some (frames (rss ! n))"
    using assms(2) n by (simp add: tables_on_def table_at_def)
  from writeSnapshotSSTable_calm [OF assms(1) this, of tw] show ?case
    using Suc.hyps(1) [of "Suc n"] Suc.hyps(2) n ss by (simp add: upt_conv_Cons)
qed

lemma CreateSnapshot_calm:
  assumes "calm w" and inv: "db_inv w db rss ls" and fits: "mt_total (db_Memtable db) < 2 ^ 64"
  shows "\<exists>db' w' rss'. CreateSnapshot True db w = (None, archive_of rss', db', w') \<and> calm w'
    \<and> db_inv w' db' rss' [] \<and> newest (concat rss') = newest (concat rss) ++ newest ls
    \<and> length rss' \<le> Suc (length rss) \<and> db_Dir db' = db_Dir db"
proof -
  obtain db1 w1 rss' ls' where fl: "triggerFlush db w = (None, db1, w1)" and c1: "calm w1"
    and inv1: "db_inv w1 db1 rss' ls'" and m: "newest (concat rss') ++ newest ls' = newest (concat rss) ++ newest ls"
    and dir: "db_Dir db1 = db_Dir db"
    and sh: "if MemSize (db_Memtable db) = 0 then rss' = rss \<and> ls' = ls
       else rss' = rss @ [sorted_records (db_Memtable db)] \<and> ls' = []"
    using triggerFlush_calm [OF assms(1) inv] by blast
  have ls': "ls' = []"
  proof (cases "MemSize (db_Memtable db) = 0")
    case True
    have minv: "mt_inv (db_Memtable db)" and map: "mt_map (db_Memtable db) = newest ls"
      using inv by (simp_all add: db_inv_def db_loaded_def)
    have "(word_of_nat (mt_total (db_Memtable db)) :: 64 word) = 0"
      using minv True by (simp add: mt_inv_def MemSize_def)
    then have "unat (word_of_nat (mt_total (db_Memtable db)) :: 64 word) = 0" by simp
    then have "mt_total (db_Memtable db) = 0" using fits by (simp add: unat_of_nat)
    then have "mt_records (db_Memtable db) = []"
      by (cases "mt_records (db_Memtable db)") (simp_all add: mt_total_def record_size_def record_consts)
    then have "newest ls = Map.empty" using map by (simp add: mt_map_def)
    then have "ls = []" using newest_dom [of ls] by simp
    then show ?thesis using sh True by simp
  next
    case False
    then show ?thesis using sh by simp
  qed
  have on: "tables_on w1 (db_Dir db1) rss'" and op: "tables_open (db_Dir db1) (db_Sstables db1) rss'"
    using inv1 by (simp_all add: db_inv_def db_loaded_def)
  have "write_tables [] (db_Sstables db1) w1 = (None, archive_of rss', w1)"
    using write_tables_calm [OF c1 on op, of 0 "[]"] by (simp add: archive_of_def)
  moreover have "\<not> db_closed db" using inv by (simp add: db_inv_def db_loaded_def)
  ultimately have "CreateSnapshot True db w = (None, archive_of rss', db1, w1)"
    using fl c1 by (simp add: CreateSnapshot_def os_simps)
  moreover have "length rss' \<le> Suc (length rss)" using sh by (auto split: if_splits)
  ultimately show ?thesis using c1 inv1 ls' m dir by auto
qed

section \<open>Restoring\<close>

lemma os_remove_all_calm:
  "calm w \<Longrightarrow> \<exists>w'. os_remove_all d w = (None, w') \<and> calm w'
     \<and> (\<forall>q. file_at w' q = (if in_dir d q then None else file_at w q))"
  by (simp add: os_remove_all_def os_simps file_at_def map_of_filter_key [of "\<lambda>q. \<not> in_dir d q", simplified])

lemma restore_entries_calm:
  assumes "calm w" and "\<forall>(n, c) \<in> set ncs. path_Base n = n \<and> path_Ext n = ''.sst''" and "distinct (map fst ncs)"
  shows "\<exists>w'. restoreSnapshotSSTables (map (\<lambda>(n, c). entry n c) ncs) fin dir w = (fin, w') \<and> calm w'
    \<and> (\<forall>q. file_at w' q = (if \<exists>nm. q = dir @ [nm] \<and> nm \<in> fst ` set ncs
                            then map_of ncs (last q) else file_at w q))"
  using assms
proof (induction ncs arbitrary: w)
  case (Cons nc ncs)
  obtain n c where nc: "nc = (n, c)" by (cases nc)
  let ?p = "dir @ [n]"
  let ?w1 = "set_file ?p c w"
  have nm: "path_Base n = n" "path_Ext n = ''.sst''" "n \<noteq> ''.''"
    using Cons.prems(2) nc by (auto simp: path_Ext_def)
  have step: "restoreSnapshotSSTables (map (\<lambda>(n, c). entry n c) (nc # ncs)) fin dir w
      = restoreSnapshotSSTables (map (\<lambda>(n, c). entry n c) ncs) fin dir (append_file ?p c (set_file ?p [] w))"
    using nm nc Cons.prems(1) by (simp add: entry_def os_simps Let_def)
  let ?w1 = "append_file ?p c (set_file ?p [] w)"
  have "calm ?w1" using Cons.prems(1) by simp
  then obtain w' where w': "restoreSnapshotSSTables (map (\<lambda>(n, c). entry n c) ncs) fin dir ?w1 = (fin, w')"
    "calm w'"
    and f': "\<And>q. file_at w' q = (if \<exists>nm. q = dir @ [nm] \<and> nm \<in> fst ` set ncs
                            then map_of ncs (last q) else file_at ?w1 q)"
    using Cons.IH [of ?w1] Cons.prems(2,3) by auto
  have "n \<notin> fst ` set ncs" using Cons.prems(3) nc by simp
  then have "file_at w' q = (if \<exists>nm. q = dir @ [nm] \<and> nm \<in> fst ` set (nc # ncs)
      then map_of (nc # ncs) (last q) else file_at w q)" for q
    unfolding f' using nc by (auto simp: file_at_append)
  then show ?case unfolding step using w' by blast
qed simp

lemma restore_archive_calm:
  assumes "calm w" and empty: "\<forall>nm. file_at w (d @ [''sst'', nm]) = None"
    and ok: "\<forall>rs \<in> set rss. recs_ok rs \<and> key_sorted rs"
  shows "\<exists>w'. restoreSnapshotSSTables (archive_of rss) None (d @ [''sst'']) w = (None, w') \<and> calm w'
    \<and> tables_on w' d rss \<and> (\<forall>q. \<not> in_dir (d @ [''sst'']) q \<longrightarrow> file_at w' q = file_at w q)"
proof -
  let ?ncs = "map (\<lambda>i. (sst_name (int i), frames (rss ! i))) [0..<length rss]"
  have arch: "archive_of rss = map (\<lambda>(n, c). entry n c) ?ncs" by (simp add: archive_of_def)
  have dist: "distinct (map fst ?ncs)" using sst_names_distinct [of "length rss"] by (simp add: sst_names_def comp_def)
  have names: "fst ` set ?ncs = set (sst_names (length rss))" by (simp add: sst_names_def image_image)
  have "\<forall>(n, c) \<in> set ?ncs. path_Base n = n \<and> path_Ext n = ''.sst''" by (auto simp: path_Ext_sst)
  from restore_entries_calm [OF assms(1) this dist, of None "d @ [''sst'']"]
  obtain w' where run: "restoreSnapshotSSTables (archive_of rss) None (d @ [''sst'']) w = (None, w')" and c: "calm w'"
    and f: "\<And>q. file_at w' q = (if \<exists>nm. q = (d @ [''sst'']) @ [nm] \<and> nm \<in> set (sst_names (length rss))
        then map_of ?ncs (last q) else file_at w q)"
    unfolding arch names by blast
  have "file_at w' (table_path d i) = Some (frames (rss ! i))" if i: "i < length rss" for i
  proof -
    have "map_of ?ncs (sst_name (int i)) = Some (frames (rss ! i))"
      using i dist by (auto simp: map_of_eq_Some_iff)
    then show ?thesis unfolding f using i by (simp add: table_path_def)
  qed
  moreover have "nm \<in> set (sst_names (length rss))" if "file_at w' (d @ [''sst'', nm]) \<noteq> None" for nm
    using that empty unfolding f by (auto split: if_splits)
  ultimately have "tables_on w' d rss" using ok by (auto simp: tables_on_def table_at_def)
  moreover have "file_at w' q = file_at w q" if "\<not> in_dir (d @ [''sst'']) q" for q
    unfolding f using that by (auto simp: in_dir_def)
  ultimately show ?thesis using run c by blast
qed

lemma in_dir_wal [simp]: "\<not> in_dir (d @ [''sst'']) (wal_path_of d)" "in_dir (d @ [''sst'']) (d @ [''sst'', nm])"
  by (simp_all add: in_dir_def wal_path_of_def)

text \<open>The state after the old files are gone and the archive has been read.\<close>

lemma RestoreSnapshot_calm:
  assumes "calm w" and inv: "db_inv w db rss0 ls0" and len: "length rss \<le> 10000"
    and ok: "\<forall>rs \<in> set rss. recs_ok rs \<and> key_sorted rs"
  shows "\<exists>db' w'. RestoreSnapshot (Some (archive_of rss, None)) db w = (None, db', w') \<and> calm w'
    \<and> db_inv w' db' rss [] \<and> db_Dir db' = db_Dir db"
proof -
  let ?d = "db_Dir db"
  have ld: "db_loaded db ?d rss0 ls0" using inv by (simp add: db_inv_def)
  have sd: "db_sstDir db = ?d @ [''sst'']" using ld by (simp add: db_loaded_def)
  obtain ss where cl: "closeSstables (db_Sstables db) w = (None, ss, w)"
    using closeSstables_calm [OF assms(1) tables_open_not_closed] ld unfolding db_loaded_def by blast
  have wc: "WalClose (db_Wal db) w = (None, (db_Wal db)\<lparr>wal_isClosed := True\<rparr>, w)"
    using ld assms(1) by (simp add: WalClose_calm db_loaded_def)
  obtain w3 where ra: "os_remove_all (?d @ [''sst'']) w = (None, w3)" and c3: "calm w3"
    and f3: "\<forall>q. file_at w3 q = (if in_dir (?d @ [''sst'']) q then None else file_at w q)"
    using os_remove_all_calm [OF assms(1)] by blast
  have "\<forall>nm. file_at w3 (?d @ [''sst'', nm]) = None" using f3 by simp
  from restore_archive_calm [OF c3 this ok] obtain w5 where
    rs: "restoreSnapshotSSTables (archive_of rss) None (?d @ [''sst'']) w3 = (None, w5)" and c5: "calm w5"
    and on5: "tables_on w5 ?d rss" and f5: "\<forall>q. \<not> in_dir (?d @ [''sst'']) q \<longrightarrow> file_at w5 q = file_at w3 q"
    by blast
  have wal5: "file_at w5 (wal_path_of ?d) = Some (frames ls0)"
    using f3 f5 inv by (simp add: db_inv_def)
  let ?w6 = "del_file (wal_path_of ?d) w5" and ?w7 = "set_file (wal_path_of ?d) [] (del_file (wal_path_of ?d) w5)"
  have rm: "os_remove (wal_path_of ?d) w5 = (None, ?w6)" using os_remove_calm [OF c5 wal5] .
  let ?wal = "\<lparr>wal_path = wal_path_of ?d, wal_file = \<lparr>f_path = wal_path_of ?d, f_pos = 0\<rparr>, wal_isClosed = False\<rparr>"
  have wo: "WalOpen (wal_path_of ?d) ?w6 = (Inr ?wal, ?w7)"
    using WalOpen_calm [of ?w6 "wal_path_of ?d"] c5 by simp
  have on7: "tables_on ?w7 ?d rss" using on5
    by (subst tables_on_cong [of ?w7 ?d w5]) (auto simp: wal_path_of_def)
  have c7: "calm ?w7" using c5 by simp
  obtain ss3 where lo: "loadSstables (?d @ [''sst'']) ?w7 = (Inr ss3, ?w7)" and op: "tables_open ?d ss3 rss"
    using loadSstables_calm [OF c7 on7 len] by blast
  let ?db' = "db\<lparr>db_Sstables := ss3, db_SstablesNum := int (length ss3), db_Wal := ?wal, db_Memtable := NewMemTable\<rparr>"
  have wp: "?d @ [''wal.log''] = wal_path_of ?d" by (simp add: wal_path_of_def)
  have "\<not> db_closed db" using ld by (simp add: db_loaded_def)
  then have "RestoreSnapshot (Some (archive_of rss, None)) db w = (None, ?db', ?w7)"
    using cl wc ra rs rm wo lo c3
    by (simp add: RestoreSnapshot_def Let_def sd os_mkdir_all_calm wp)
  moreover have "db_inv ?w7 ?db' rss []"
    using ld op on7 by (simp add: db_inv_def db_loaded_def)
  moreover have "db_Dir ?db' = db_Dir db" by simp
  ultimately show ?thesis using c7 by blast
qed

section \<open>Which files a restore touches\<close>

lemma closeSstables_files: "closeSstables ss w = (r, ss', w') \<Longrightarrow> file_at w' = file_at w"
proof (induction ss arbitrary: w r ss')
  case (Cons s ss)
  have "SstClose s v = (x, s', v') \<Longrightarrow> file_at v' = file_at v" for v x s' v'
    by (auto simp: SstClose_def split: if_splits prod.splits dest!: os_close_files)
  then show ?case using Cons by (fastforce split: prod.splits option.splits)
qed simp

lemma load_entries_files: "load_entries dir es ss w = (x, w') \<Longrightarrow> file_at w' = file_at w"
  by (induction dir es ss w arbitrary: x rule: load_entries.induct)
    (fastforce split: if_splits prod.splits sum.splits dest: SstOpen_files)+

lemma loadSstables_files: "loadSstables dir w = (x, w') \<Longrightarrow> file_at w' = file_at w"
  by (auto simp: loadSstables_def os_mkdir_all_def os_read_dir_def split: prod.splits option.splits sum.splits
      dest!: os_guard_files load_entries_files)

lemma WalClose_files: "WalClose wal w = (r, wal', w') \<Longrightarrow> file_at w' = file_at w"
  by (auto simp: WalClose_def split: if_splits prod.splits dest!: os_close_files)

lemma os_remove_files: "os_remove p w = (r, w') \<Longrightarrow> q \<noteq> p \<Longrightarrow> file_at w' q = file_at w q"
  by (auto simp: os_remove_def split: prod.splits option.splits dest!: os_guard_files)

lemma os_remove_all_files:
  "os_remove_all d w = (r, w') \<Longrightarrow> file_at w' q = file_at w q \<or> in_dir d q \<and> file_at w' q = None"
proof (cases "os_guard w")
  case (Pair r1 w1)
  then have "file_at w1 = file_at w" by (rule os_guard_files)
  then show "os_remove_all d w = (r, w') \<Longrightarrow> ?thesis" using Pair
    by (cases r1) (auto simp: os_remove_all_def file_at_def map_of_filter_key [of "\<lambda>q. \<not> in_dir d q", simplified] fun_eq_iff
        split: if_splits)
qed

lemma WalOpen_files: "WalOpen p w = (x, w') \<Longrightarrow> q \<noteq> p \<Longrightarrow> file_at w' q = file_at w q"
  by (auto simp: WalOpen_def OpenFileWithFlagMode_def os_mkdir_all_def os_open_file_def
      split: if_splits prod.splits option.splits sum.splits dest!: os_guard_files)

text \<open>The names an archive can create: a plain name with the suffix of a table.\<close>

definition table_file_in :: "path \<Rightarrow> path \<Rightarrow> bool" where
  "table_file_in dir q \<longleftrightarrow> (\<exists>nm. q = dir @ [nm] \<and> has_sst_suffix nm \<and> CHR ''/'' \<notin> set nm)"

lemma restore_entries_files:
  "restoreSnapshotSSTables es fin dir w = (r, w') \<Longrightarrow> \<not> table_file_in dir q \<Longrightarrow> file_at w' q = file_at w q"
proof (induction es fin dir w arbitrary: r rule: restoreSnapshotSSTables.induct)
  case (2 header es fin dir w)
  let ?nm = "path_Base (te_Name header)"
  show ?case
  proof (cases "te_Typeflag header \<noteq> TypeReg \<or> ?nm = ''.'' \<or> path_Ext ?nm \<noteq> ''.sst''")
    case True
    then show ?thesis using 2 by (auto simp: Let_def split: if_splits)
  next
    case False
    then have suf: "has_sst_suffix ?nm" by (simp add: path_Ext_sst)
    then have "?nm \<noteq> ''/''" by (auto simp: has_sst_suffix_def CutSuffix_def)
    then have "table_file_in dir (dir @ [?nm])"
      using suf path_Base_no_slash unfolding table_file_in_def by blast
    then have q: "q \<noteq> dir @ [?nm]" using 2(4) by blast
    obtain x1 w1 where op: "os_open_file (dir @ [?nm]) True True w = (x1, w1)" by fastforce
    then have f1: "file_at w1 q = file_at w q" using q
      by (auto simp: os_open_file_def split: prod.splits option.splits dest!: os_guard_files)
    show ?thesis
    proof (cases x1)
      case (Inl e)
      then show ?thesis using 2(3) False op f1 by (simp add: Let_def)
    next
      case (Inr f)
      then have fp: "f_path f = dir @ [?nm]" using op
        by (auto simp: os_open_file_def split: prod.splits option.splits)
      obtain n x2 w2 where wr: "os_write f (te_Data header) w1 = (n, x2, w2)" by (metis prod_cases3)
      then have f2: "file_at w2 q = file_at w q" using q fp f1
        by (auto simp: os_write_def split: prod.splits fault.splits dest!: take_fault_disk)
      have cl: "os_close f v = (x, v') \<Longrightarrow> file_at v' q = file_at v q" for v x v'
        by (metis os_close_files)
      obtain x3 w3 where sy: "os_sync f w2 = (x3, w3)" by fastforce
      then have f3: "file_at w3 q = file_at w q" using f2 by (auto simp: os_sync_def dest!: os_guard_files)
      obtain x4 w4 where c4: "os_close f w3 = (x4, w4)" by fastforce
      then have f4: "file_at w4 q = file_at w q" using f3 cl by metis
      show ?thesis
      proof (cases "x2 = None \<and> x3 = None \<and> x4 = None")
        case True
        then have "restoreSnapshotSSTables es fin dir w4 = (r, w')"
          using 2(3) False op Inr wr sy c4 by (simp add: Let_def)
        then have "file_at w' q = file_at w4 q"
          using 2(2) [OF _ refl _ op [symmetric] Inr wr [symmetric] refl] False True sy c4 2(4) by fastforce
        then show ?thesis using f4 by simp
      next
        case False
        then show ?thesis
          using 2(3) \<open>\<not> (te_Typeflag header \<noteq> TypeReg \<or> ?nm = ''.'' \<or> path_Ext ?nm \<noteq> ''.sst'')\<close>
            op Inr wr sy c4 f2 f3 f4 cl
          by (auto simp: Let_def split: option.splits prod.splits dest: cl)
      qed
    qed
  qed
qed simp

lemma RestoreSnapshot_files:
  assumes "RestoreSnapshot reader db w = (r, db', w')"
    and q: "\<not> table_file_in (db_sstDir db) q" "q \<noteq> db_Dir db @ [''wal.log'']"
  shows "file_at w' q = file_at w q \<or> in_dir (db_sstDir db) q \<and> file_at w' q = None"
proof (cases "reader = None \<or> db_closed db")
  case True
  then show ?thesis using assms(1) by (auto simp: RestoreSnapshot_def split: option.splits prod.splits)
next
  case False
  then obtain entries fin where reader: "reader = Some (entries, fin)" and "\<not> db_closed db" by auto
  let ?dir = "db_sstDir db" and ?wp = "db_Dir db @ [''wal.log'']"
  obtain x1 ss w1 where s1: "closeSstables (db_Sstables db) w = (x1, ss, w1)" by (metis prod_cases3)
  obtain x2 wal w2 where s2: "WalClose (db_Wal db) w1 = (x2, wal, w2)" by (metis prod_cases3)
  obtain x3 w3 where s3: "os_remove_all ?dir w2 = (x3, w3)" by fastforce
  obtain x4 w4 where s4: "os_mkdir_all ?dir w3 = (x4, w4)" by fastforce
  obtain x5 w5 where s5: "restoreSnapshotSSTables entries fin ?dir w4 = (x5, w5)" by fastforce
  obtain x6 w6 where s6: "os_remove ?wp w5 = (x6, w6)" by fastforce
  obtain x7 w7 where s7: "WalOpen ?wp w6 = (x7, w7)" by fastforce
  obtain x8 w8 where s8: "loadSstables ?dir w7 = (x8, w8)" by fastforce
  have f2: "file_at w2 q = file_at w q" using closeSstables_files [OF s1] WalClose_files [OF s2] by simp
  have f3: "file_at w3 q = file_at w q \<or> in_dir ?dir q \<and> file_at w3 q = None"
    using os_remove_all_files [OF s3, of q] f2 by simp
  have "file_at w4 q = file_at w3 q" using s4 by (auto simp: os_mkdir_all_def dest: os_guard_files)
  moreover have "file_at w5 q = file_at w4 q" using restore_entries_files [OF s5 q(1)] .
  moreover have "file_at w6 q = file_at w5 q" using os_remove_files [OF s6 q(2)] .
  moreover have "file_at w7 q = file_at w6 q" using WalOpen_files [OF s7 q(2)] .
  moreover have "file_at w8 q = file_at w7 q" using loadSstables_files [OF s8] by simp
  moreover have "file_at w1 q = file_at w q" using closeSstables_files [OF s1] by simp
  moreover have "w' \<in> {w1, w2, w3, w4, w5, w6, w7, w8}"
    using assms(1) s1 s2 s3 s4 s5 s6 s7 s8 \<open>\<not> db_closed db\<close>
    unfolding RestoreSnapshot_def reader Let_def
    by (auto split: option.splits sum.splits if_splits)
  ultimately show ?thesis using f2 f3 by auto
qed

section \<open>Properties\<close>

text \<open>
  C20: A snapshot carries the whole store.  When no system call fails, restoring on any database the
  archive that \<open>CreateSnapshot\<close> wrote on another succeeds, and the second database then answers
  every \<open>Get\<close> as the first did when the snapshot was taken, whatever it held before.
\<close>

theorem snapshot_roundtrip:
  assumes "faults w1 = []" and "faults w2 = []" and "db_repr w1 db1 m" and "db_repr w2 db2 m2"
    and "db_SstablesNum db1 < 10000" and "mt_total (db_Memtable db1) < 2 ^ 64"
  shows "\<exists>archive db1' w1' db2' w2'. CreateSnapshot True db1 w1 = (None, archive, db1', w1')
    \<and> RestoreSnapshot (Some (archive, None)) db2 w2 = (None, db2', w2')
    \<and> db_repr w1' db1' m \<and> db_repr w2' db2' m
    \<and> (\<forall>k. k = [] \<or> DbGet k db2' w2' = (Inr (get_value m k), w2'))"
proof -
  obtain rss ls where inv1: "db_inv w1 db1 rss ls" and m: "m = newest (concat rss) ++ newest ls"
    using assms(3) by (auto simp: db_repr_def)
  obtain rss2 ls2 where inv2: "db_inv w2 db2 rss2 ls2" using assms(4) by (auto simp: db_repr_def)
  obtain db1' w1' rss' where cr: "CreateSnapshot True db1 w1 = (None, archive_of rss', db1', w1')"
    and inv1': "db_inv w1' db1' rss' []" and m': "newest (concat rss') = m" and len': "length rss' \<le> Suc (length rss)"
    using CreateSnapshot_calm [OF assms(1) inv1 assms(6)] unfolding m by blast
  have "length rss < 10000" using inv1 assms(5) by (simp add: db_inv_def db_loaded_def tables_open_def)
  then have len: "length rss' \<le> 10000" using len' by simp
  have on: "tables_on w1' (db_Dir db1') rss'" using inv1' by (simp add: db_inv_def)
  have "recs_ok rs \<and> key_sorted rs" if "rs \<in> set rss'" for rs
    using on that in_set_conv_nth [of rs rss'] by (auto simp: tables_on_def table_at_def)
  then obtain db2' w2' where re: "RestoreSnapshot (Some (archive_of rss', None)) db2 w2 = (None, db2', w2')"
    and c2: "calm w2'" and inv2': "db_inv w2' db2' rss' []"
    using RestoreSnapshot_calm [OF assms(2) inv2 len] by blast
  have r1: "db_repr w1' db1' m" and r2: "db_repr w2' db2' m"
    using inv1' inv2' m' unfolding db_repr_def by fastforce+
  then show ?thesis using cr re DbGet_calm [OF c2 r2] by blast
qed

theorem snapshot_roundtrip_witness:
  "\<exists>db1 w1 archive db1' w1' db2 w2 db2' w2'. CreateSnapshot True db1 w1 = (None, archive, db1', w1')
    \<and> RestoreSnapshot (Some (archive, None)) db2 w2 = (None, db2', w2')
    \<and> DbGet [1] db2 w2 = (Inr None, w2) \<and> DbGet [1] db2' w2' = (Inr (Some [2]), w2')"
proof -
  let ?r = "\<lparr>rec_Type = TypePut, rec_Key = [1], rec_Value = [2]\<rparr>"
  obtain db1 w1 rs where c1: "calm w1" and inv1: "db_inv w1 db1 [rs] []" and rs: "newest rs = [[1] \<mapsto> ?r]"
    using example_table by blast
  have r1: "db_repr w1 db1 [[1] \<mapsto> ?r]" using inv1 rs by (fastforce simp: db_repr_def)
  obtain db2 w2 where c2: "calm w2" and inv2: "db_inv w2 db2 [] []"
    using open_fresh_inv by blast
  have r2: "db_repr w2 db2 Map.empty" using inv2 by (fastforce simp: db_repr_def)
  have n: "db_SstablesNum db1 < 10000" and "map_of (mt_records (db_Memtable db1)) = Map.empty"
    using inv1 by (simp_all add: db_inv_def db_loaded_def tables_open_def mt_map_def)
  then have "mt_total (db_Memtable db1) < 2 ^ 64" by (simp add: mt_total_def)
  from snapshot_roundtrip [OF c1 c2 r1 r2 n this] obtain archive db1' w1' db2' w2' where
    "CreateSnapshot True db1 w1 = (None, archive, db1', w1')"
    "RestoreSnapshot (Some (archive, None)) db2 w2 = (None, db2', w2')"
    and g: "\<forall>k. k = [] \<or> DbGet k db2' w2' = (Inr (get_value [[1] \<mapsto> ?r] k), w2')"
    by blast
  moreover have "DbGet [1] db2' w2' = (Inr (Some [2]), w2')"
    using g by (auto simp: get_value_def dest: spec [of _ "[1]"])
  moreover have "DbGet [1] db2 w2 = (Inr None, w2)"
    using DbGet_calm [OF c2 r2, of "[1]"] by (simp add: get_value_def)
  ultimately show ?thesis by blast
qed

text \<open>
  C32: A restore stays in its directory.  Whatever the archive contains and whatever system call
  fails, \<open>RestoreSnapshot\<close> writes nothing but the log and files with a plain name and the suffix
  \<open>.sst\<close> directly in the table directory; any other file keeps its content, or is removed if it
  was in the table directory.
\<close>

theorem restore_stays_in_directory:
  assumes "RestoreSnapshot reader db w = (r, db', w')"
  shows "\<forall>q. file_at w' q = file_at w q
    \<or> q = db_Dir db @ [''wal.log'']
    \<or> (\<exists>nm. q = db_sstDir db @ [nm] \<and> has_sst_suffix nm \<and> CHR ''/'' \<notin> set nm)
    \<or> in_dir (db_sstDir db) q \<and> file_at w' q = None"
  using RestoreSnapshot_files [OF assms] by (auto simp: table_file_in_def)

theorem restore_stays_in_directory_witness:
  "\<exists>db w r db' w'. RestoreSnapshot (Some ([\<lparr>te_Name = ''../../x.sst'', te_Typeflag = CHR ''0'', te_Data = [1]\<rparr>], None))
      db w = (r, db', w')
    \<and> file_at w' [''x.sst''] = file_at w [''x.sst'']"
proof -
  obtain db w where inv: "db_inv w db [] []" and d: "db_Dir db = path_of (opt_Dir \<lparr>opt_Dir = ''data'', opt_sstDir = [], opt_MemTableSize = 0\<rparr>)"
    using open_fresh_inv by blast
  have dir: "db_Dir db = [''data'']" "db_sstDir db = [''data'', ''sst'']"
    using inv d by (simp_all add: path_of_def is_rooted_def db_inv_def db_loaded_def)
  let ?rd = "Some ([\<lparr>te_Name = ''../../x.sst'', te_Typeflag = CHR ''0'', te_Data = [1]\<rparr>], None)"
  obtain r db' w' where run: "RestoreSnapshot ?rd db w = (r, db', w')" by (metis prod_cases3)
  from restore_stays_in_directory [OF run] have "file_at w' [''x.sst''] = file_at w [''x.sst'']"
    using dir by (auto simp: in_dir_def dest: spec [of _ "[''x.sst'']"])
  then show ?thesis using run by blast
qed






end
