(* ===== verification/KV_Ends.thy ===== *)
theory KV_Ends
  imports KV_Compact
begin

text \<open>
  Compaction ends, whatever the disk holds and whatever system call fails.  The measure is the
  number of heads on the heap and of bytes that the iterators have left: every round takes a head
  off, and puts one back only for bytes that it read.
\<close>

section \<open>Iterators run down\<close>

definition bytes_left :: "Iterator \<Rightarrow> world \<Rightarrow> nat" where
  "bytes_left it w = length (file_data w (f_path (it_file it))) - f_pos (it_file it)"

definition work :: "heapItem list \<Rightarrow> Iterator list \<Rightarrow> world \<Rightarrow> nat" where
  "work h iters w = length h + sum_list (map (\<lambda>it. bytes_left it w) iters)"

text \<open>The heads on the heap have iterators, and no iterator reads the output.\<close>

definition heads_ok :: "path \<Rightarrow> heapItem list \<Rightarrow> Iterator list \<Rightarrow> bool" where
  "heads_ok p h iters \<longleftrightarrow> (\<forall>x \<in> set h. hi_iter x < length iters) \<and> (\<forall>it \<in> set iters. f_path (it_file it) \<noteq> p)"

lemma heap_pop_mset:
  assumes "h \<noteq> []" and "heap_pop lt h = (x, h')"
  shows "mset h = add_mset x (mset h')"
proof -
  let ?n = "length h - 1" and ?h1 = "heap_down lt (swap 0 (length h - 1) h) 0 (length h - 1)"
  have n: "?n < length h" "Suc ?n = length ?h1" using assms(1) by simp_all
  have "mset ?h1 = mset (swap 0 ?n h)" by (rule mset_heap_down) (use n in simp)
  also have "\<dots> = mset h" by (rule mset_swap_elems) (use assms(1) in simp_all)
  finally have "mset ?h1 = mset h" .
  moreover have "?h1 = take ?n ?h1 @ [?h1 ! ?n]" using n take_Suc_conv_app_nth [of ?n ?h1] by simp
  then have "mset ?h1 = mset (take ?n ?h1 @ [?h1 ! ?n])" by (rule arg_cong)
  then have "mset ?h1 = add_mset (?h1 ! ?n) (mset (take ?n ?h1))" by simp
  ultimately show ?thesis using assms(2) by (simp add: heap_pop_def Let_def)
qed

lemma heap_pop_smaller:
  assumes "h \<noteq> []" and "heap_pop lt h = (x, h')"
  shows "x \<in> set h" and "set h' \<subseteq> set h" and "length h = Suc (length h')"
proof -
  note m = heap_pop_mset [OF assms]
  have "set h = insert x (set h')" using arg_cong [OF m, of set_mset] by simp
  then show "x \<in> set h" "set h' \<subseteq> set h" by auto
  show "length h = Suc (length h')" using arg_cong [OF m, of size] by simp
qed

lemma heap_push_set:
  "set (heap_push item_less x h) = insert x (set h)" "length (heap_push item_less x h) = Suc (length h)"
  using arg_cong [OF recheap.heap_push_mset [of x h], of set_mset] arg_cong [OF recheap.heap_push_mset [of x h], of size]
  by simp_all

lemma sum_list_upd: "i < length xs \<Longrightarrow> sum_list (xs[i := y]) + xs ! i = sum_list xs + (y :: nat)"
  by (induction xs arbitrary: i) (auto split: nat.split)

lemma append_record_others:
  "append_record f r w = (x, w') \<Longrightarrow> q \<noteq> f_path f \<Longrightarrow> file_at w' q = file_at w q"
  by (auto simp: append_record_def os_write_def os_sync_def os_guard_files take_fault_disk
      split: sum.splits prod.splits option.splits fault.splits if_splits)

lemma DecodeFile_pos: "DecodeFile f w = (x, f', w') \<Longrightarrow> f_pos f \<le> f_pos f'"
  by (auto simp: DecodeFile_def Let_def split: prod.splits)

lemma IterNext_left:
  assumes "IterNext it w = (it', w')"
  shows "file_at w' = file_at w" and "f_path (it_file it') = f_path (it_file it)"
    and "bytes_left it' w' \<le> bytes_left it w" and "IterValid it' \<Longrightarrow> bytes_left it' w' < bytes_left it w"
proof -
  obtain x f1 w1 where d: "DecodeFile (it_file it) w = (x, f1, w1)" by (metis prod_cases3)
  note facts = DecodeFile_files [OF d] DecodeFile_path [OF d] DecodeFile_pos [OF d]
  have same: "file_data w1 = file_data w" by (rule file_data_cong) (rule facts)
  have dec: "bytes_left (it\<lparr>it_file := f1, it_cur := r, it_valid := True\<rparr>) w1 < bytes_left it w" if "x = Inr r" for r
    using DecodeFile_decreases [of "it_file it" w r f1 w1] d that by (simp add: bytes_left_def)
  show "file_at w' = file_at w" "f_path (it_file it') = f_path (it_file it)"
    using assms d facts by (auto simp: IterNext_def split: if_splits sum.splits)
  show "bytes_left it' w' \<le> bytes_left it w"
    using assms d facts same by (auto simp: IterNext_def bytes_left_def split: if_splits sum.splits)
  show "bytes_left it' w' < bytes_left it w" if "IterValid it'"
    using assms d that dec by (auto simp: IterNext_def IterValid_def split: if_splits sum.splits)
qed

lemma bytes_left_cong: "file_at w' (f_path (it_file it)) = file_at w (f_path (it_file it)) \<Longrightarrow> bytes_left it w' = bytes_left it w"
  by (simp add: bytes_left_def file_data_def)

lemma work_cong: "heads_ok p h iters \<Longrightarrow> \<forall>q. q \<noteq> p \<longrightarrow> file_at w' q = file_at w q \<Longrightarrow> work h iters w' = work h iters w"
  unfolding work_def heads_ok_def by (intro arg_cong2 [where f = plus] refl arg_cong [where f = sum_list] map_cong)
    (auto intro: bytes_left_cong)

section \<open>The rounds of the merge\<close>

lemma advance_work:
  assumes "advance h item iters w = (e, h', iters', w')" and "hi_iter item < length iters" and ok: "heads_ok p h iters"
  shows "file_at w' = file_at w" and "heads_ok p h' iters'" and "e = None \<Longrightarrow> work h' iters' w' \<le> work h iters w"
proof -
  let ?i = "hi_iter item"
  obtain it w1 where n: "IterNext (iters ! ?i) w = (it, w1)" by (cases "IterNext (iters ! ?i) w")
  note left = IterNext_left [OF n]
  have w': "w' = w1" "iters' = iters[?i := it]"
    using assms(1) n by (auto simp: advance_def Let_def split: option.splits if_splits)
  then show "file_at w' = file_at w" using left(1) by simp
  have mem: "iters ! ?i \<in> set iters" using assms(2) by simp
  then have "f_path (it_file it) \<noteq> p" using ok left(2) by (simp add: heads_ok_def)
  then have "\<forall>x \<in> set iters'. f_path (it_file x) \<noteq> p"
    using ok set_update_subset_insert [of iters ?i it] unfolding w' heads_ok_def by blast
  then show "heads_ok p h' iters'"
    using assms n ok unfolding w'
    by (auto simp: advance_def Let_def heads_ok_def heap_push_set split: option.splits if_splits)
  have same: "bytes_left x w1 = bytes_left x w" for x by (rule bytes_left_cong) (simp add: left(1))
  let ?f = "\<lambda>it. bytes_left it w"
  have "sum_list (map ?f (iters[?i := it])) + ?f (iters ! ?i) = sum_list (map ?f iters) + ?f it"
    using sum_list_upd [of ?i "map ?f iters" "?f it"] assms(2) by (simp add: map_update)
  then have work: "sum_list (map (\<lambda>it. bytes_left it w') iters') + ?f (iters ! ?i) = sum_list (map ?f iters) + ?f it"
    unfolding w' same .
  show "work h' iters' w' \<le> work h iters w" if "e = None"
  proof (cases "IterValid it")
    case True
    then have "length h' = Suc (length h)"
      using assms(1) n that by (auto simp: advance_def Let_def heap_push_set split: option.splits if_splits)
    then show ?thesis using work left(4) [OF True] unfolding work_def same by simp
  next
    case False
    then have "h' = h" using assms(1) n that by (auto simp: advance_def Let_def split: option.splits if_splits)
    then show ?thesis using work left(3) unfolding work_def same by simp
  qed
qed

lemma round_work:
  assumes "h \<noteq> []" and "heap_pop item_less h = (x, h1)" and "advance h1 x iters w = (e, h2, iters2, w2)" and "heads_ok p h iters"
  shows "file_at w2 = file_at w" and "heads_ok p h2 iters2" and "e = None \<Longrightarrow> work h2 iters2 w2 < work h iters w"
proof -
  note pop = heap_pop_smaller [OF assms(1,2)]
  have "hi_iter x < length iters" "heads_ok p h1 iters" using pop(1,2) assms(4) by (auto simp: heads_ok_def)
  note adv = advance_work [OF assms(3) this]
  show "file_at w2 = file_at w" "heads_ok p h2 iters2" by (rule adv)+
  show "work h2 iters2 w2 < work h iters w" if "e = None" using adv(3) [OF that] pop(3) by (simp add: work_def)
qed

lemma drain_key_ends:
  assumes "work h iters w < n" and "heads_ok p h iters"
  shows "\<exists>e h' iters' w'. drain_key n key h iters w = Some (e, h', iters', w') \<and> file_at w' = file_at w
    \<and> heads_ok p h' iters' \<and> (e = None \<longrightarrow> work h' iters' w' \<le> work h iters w)"
  using assms
proof (induction n arbitrary: h iters w)
  case (Suc n)
  show ?case
  proof (cases "length h > 0 \<and> rec_Key (hi_rec (h ! 0)) = key")
    case True
    obtain x h1 where pop: "heap_pop item_less h = (x, h1)" by (cases "heap_pop item_less h")
    obtain e h2 iters2 w2 where adv: "advance h1 x iters w = (e, h2, iters2, w2)" by (metis prod_cases4)
    have "h \<noteq> []" using True by auto
    note round = round_work [OF this pop adv Suc.prems(2)]
    show ?thesis
    proof (cases e)
      case None
      then have less: "work h2 iters2 w2 < work h iters w" using round(3) by simp
      then have "work h2 iters2 w2 < n" using Suc.prems(1) by simp
      then obtain e' h' iters' w' where "drain_key n key h2 iters2 w2 = Some (e', h', iters', w')" "file_at w' = file_at w2"
        "heads_ok p h' iters'" "e' = None \<longrightarrow> work h' iters' w' \<le> work h2 iters2 w2"
        using Suc.IH [OF _ round(2)] by blast
      then show ?thesis using True pop adv None round(1) less by auto
    next
      case (Some err)
      then show ?thesis using True pop adv round by auto
    qed
  next
    case False
    then show ?thesis using Suc.prems by auto
  qed
qed simp

lemma merge_loop_ends:
  assumes "work h iters w < n" and "heads_ok p h iters" and "f_path (sw_file sw) = p"
  shows "merge_loop n h iters sw wrote w \<noteq> None"
  using assms
proof (induction n arbitrary: h iters wrote w)
  case (Suc n)
  show ?case
  proof (cases "h = []")
    case False
    obtain x h1 where pop: "heap_pop item_less h = (x, h1)" by (cases "heap_pop item_less h")
    obtain e h2 iters2 w2 where adv: "advance h1 x iters w = (e, h2, iters2, w2)" by (metis prod_cases4)
    note round = round_work [OF False pop adv Suc.prems(2)]
    show ?thesis
    proof (cases e)
      case None
      have less: "work h2 iters2 w2 < n" using round(3) [OF None] Suc.prems(1) by simp
      obtain e' h3 iters3 w3 where drain: "drain_key n (rec_Key (hi_rec x)) h2 iters2 w2 = Some (e', h3, iters3, w3)"
        and ok: "heads_ok p h3 iters3" and le: "e' = None \<longrightarrow> work h3 iters3 w3 \<le> work h2 iters2 w2"
        using drain_key_ends [OF less round(2)] by blast
      have next_round: "merge_loop n h3 iters3 sw wr w4 \<noteq> None" if "e' = None" "\<forall>q. q \<noteq> p \<longrightarrow> file_at w4 q = file_at w3 q" for wr w4
        using Suc.IH [OF _ ok Suc.prems(3), of w4 wr] work_cong [OF ok that(2)] le that(1) less by simp
      obtain r w4 where wr: "WriterAppend sw (hi_rec x) w3 = (r, w4)" by (cases "WriterAppend sw (hi_rec x) w3")
      have "\<forall>q. q \<noteq> p \<longrightarrow> file_at w4 q = file_at w3 q"
        using wr Suc.prems(3) append_record_others by (auto simp: WriterAppend_def split: if_splits)
      then show ?thesis using False pop adv None drain wr next_round
        by (auto split: option.splits)
    next
      case (Some err)
      then show ?thesis using False pop adv by simp
    qed
  qed simp
qed simp

section \<open>Opening the iterators\<close>

lemma os_open_existing_files:
  "os_open_file p False False w = (r, w') \<Longrightarrow> file_at w' = file_at w"
  "os_open_file p False False w = (Inr f, w') \<Longrightarrow> f = \<lparr>f_path = p, f_pos = 0\<rparr>"
  by (auto simp: os_open_file_def os_guard_files split: prod.splits option.splits)

lemma SstNewIterator_left:
  assumes "SstNewIterator s w = (Inr it, w')"
  shows "file_at w' = file_at w" and "f_path (it_file it) = sst_path s"
    and "(if IterValid it then 1 else 0) + bytes_left it w' \<le> length (file_data w (sst_path s))"
proof -
  obtain r w1 where r: "os_open_file (sst_path s) False False w = (r, w1)"
    by (cases "os_open_file (sst_path s) False False w")
  then obtain f where f: "r = Inr f" using assms by (cases r) (auto simp: SstNewIterator_def split: if_splits)
  have op: "os_open_file (sst_path s) False False w = (Inr \<lparr>f_path = sst_path s, f_pos = 0\<rparr>, w1)"
    and n: "IterNext \<lparr>it_file = \<lparr>f_path = sst_path s, f_pos = 0\<rparr>, it_cur = zeroRecord, it_valid = False,
       it_err = None, it_closed = False\<rparr> w1 = (it, w')"
    using assms r os_open_existing_files(2) [OF r [unfolded f]] f
    by (auto simp: SstNewIterator_def split: if_splits prod.splits)
  note left = IterNext_left [OF n] and w1 = os_open_existing_files(1) [OF op]
  show "file_at w' = file_at w" "f_path (it_file it) = sst_path s" using left w1 by simp_all
  have "bytes_left \<lparr>it_file = \<lparr>f_path = sst_path s, f_pos = 0\<rparr>, it_cur = zeroRecord, it_valid = False,
       it_err = None, it_closed = False\<rparr> w1 = length (file_data w (sst_path s))"
    using file_data_cong [OF w1] by (simp add: bytes_left_def)
  then show "(if IterValid it then 1 else 0) + bytes_left it w' \<le> length (file_data w (sst_path s))"
    using left(3,4) by auto
qed

lemma open_iters_work:
  assumes "open_iters ss iters h w = (Inr (iters', h'), w')" and "heads_ok p h iters" and "p \<notin> sst_path ` set ss"
  shows "file_at w' = file_at w \<and> heads_ok p h' iters'
    \<and> work h' iters' w' \<le> work h iters w + sum_list (map (\<lambda>s. length (file_data w (sst_path s))) ss)"
  using assms
proof (induction ss arbitrary: iters h w)
  case (Cons s ss)
  obtain it w1 where it: "SstNewIterator s w = (Inr it, w1)" and noerr: "IterErr it = None"
    using Cons.prems(1) by (auto split: sum.splits prod.splits option.splits)
  note left = SstNewIterator_left [OF it]
  let ?h = "if IterValid it then heap_push item_less \<lparr>hi_rec = IterRecord it, hi_tableID = int (length iters),
     hi_iter = length iters\<rparr> h else h"
  have rest: "open_iters ss (iters @ [it]) ?h w1 = (Inr (iters', h'), w')" using Cons.prems(1) it noerr by simp
  have ok: "heads_ok p ?h (iters @ [it])" using Cons.prems(2,3) left(2) by (auto simp: heads_ok_def heap_push_set less_Suc_eq)
  have same: "bytes_left x w1 = bytes_left x w" for x by (rule bytes_left_cong) (simp add: left(1))
  have "length ?h = length h + (if IterValid it then 1 else 0)" by (simp add: heap_push_set)
  then have step: "work ?h (iters @ [it]) w1 \<le> work h iters w + length (file_data w (sst_path s))"
    using left(3) by (simp add: work_def same)
  have "file_data w1 = file_data w" by (rule file_data_cong) (rule left(1))
  then show ?case using Cons.IH [OF rest ok] Cons.prems(3) left(1) step by simp
qed simp

lemma CreateSSTableWriter_others:
  assumes "CreateSSTableWriter p w = (Inr sw, w')"
  shows "f_path (sw_file sw) = p" and "q \<noteq> p \<Longrightarrow> file_at w' q = file_at w q"
  using assms
  by (auto simp: CreateSSTableWriter_def OpenFileWithFlagMode_def os_mkdir_all_def os_open_file_def os_guard_files
      split: if_splits prod.splits option.splits sum.splits)

section \<open>Properties\<close>

text \<open>
  C11: Compaction ends.  Whatever the tables' files hold, in order or not, damaged or missing, and
  whatever system call fails: when the output is none of the tables, the merge loops of \<open>Run\<close> end
  within as many rounds as the tables have bytes, and \<open>Run\<close> returns a result or an error.
\<close>

theorem Run_ends:
  assumes "p \<notin> sst_path ` set ss"
  shows "\<exists>r w'. Run ss p w = Some (r, w')"
proof (cases "open_iters ss [] [] w")
  case (Pair x w1)
  show ?thesis
  proof (cases x)
    case (Inl e)
    then show ?thesis using Pair by (simp add: Run_def)
  next
    case (Inr ih)
    obtain iters h where ih: "ih = (iters, h)" by (cases ih)
    have "heads_ok p [] []" by (simp add: heads_ok_def)
    then have init: "file_at w1 = file_at w" "heads_ok p h iters"
      "work h iters w1 \<le> sum_list (map (\<lambda>s. length (file_data w (sst_path s))) ss)"
      using open_iters_work [of ss "[]" "[]" w iters h w1 p] assms Pair Inr ih by (simp_all add: work_def)
    obtain y w2 where cr: "CreateSSTableWriter p w1 = (y, w2)" by (cases "CreateSSTableWriter p w1")
    show ?thesis
    proof (cases y)
      case (Inl e)
      then show ?thesis using Pair Inr ih cr by (simp add: Run_def)
    next
      case sw: (Inr sw)
      note wr = CreateSSTableWriter_others [OF cr [unfolded sw]]
      have "file_data w2 (sst_path s) = file_data w (sst_path s)" if "s \<in> set ss" for s
      proof -
        have "sst_path s \<noteq> p" using assms that by auto
        then show ?thesis using wr(2) init(1) by (simp add: file_data_def)
      qed
      then have "map (\<lambda>s. length (file_data w2 (sst_path s))) ss = map (\<lambda>s. length (file_data w (sst_path s))) ss" by simp
      then have "merge_fuel ss w2 = Suc (sum_list (map (\<lambda>s. length (file_data w (sst_path s))) ss))"
        unfolding merge_fuel_def by (rule arg_cong)
      moreover have "work h iters w2 = work h iters w1" by (rule work_cong [OF init(2)]) (use wr(2) in blast)
      ultimately have "work h iters w2 < merge_fuel ss w2" using init(3) by simp
      from merge_loop_ends [OF this init(2) wr(1), of False] show ?thesis
        using Pair Inr ih cr sw by (auto simp: Run_def Let_def split: option.splits prod.splits sum.splits)
    qed
  qed
qed

theorem Run_ends_witness:
  "\<exists>r w'. Run
      [\<lparr>sst_id = 0, sst_path = [''0''], sst_file = \<lparr>f_path = [''0''], f_pos = 0\<rparr>, sst_size = 3,
         sst_index = [], sst_closed = False\<rparr>]
      [''out''] \<lparr>disk = [([''0''], [1, 2, 3])], faults = [Okay, Fail 1 EOF]\<rparr> = Some (r, w')"
  by (rule Run_ends) simp

end
