(* ===== verification/KV_Fmt.thy ===== *)
theory KV_Fmt
  imports KV_Paths KV_Unicode
begin

text \<open>
  Text of values: \<open>fmt\<close>'s \<open>%q\<close> and \<open>%d\<close>, and for every error its \<open>Error()\<close> and the test
  \<open>errors.Is\<close>.
\<close>

section \<open>Quoted strings and numbers\<close>

abbreviation quotation :: char where "quotation \<equiv> CHR 0x22"
abbreviation backslash :: char where "backslash \<equiv> CHR 0x5C"

definition hex_digit :: "nat \<Rightarrow> char" where
  "hex_digit n = ''0123456789abcdef'' ! n"

text \<open>\<open>strconv.Quote\<close>.\<close>

definition hex_text :: "nat \<Rightarrow> nat \<Rightarrow> string" where
  "hex_text width n = map (\<lambda>i. hex_digit (n div 16 ^ i mod 16)) (rev [0..<width])"

text \<open>\<open>bytes\<close> is the encoding of the rune.\<close>

definition quote_rune :: "nat \<Rightarrow> string \<Rightarrow> string" where
  "quote_rune r bytes =
     (if r = of_char quotation \<or> r = of_char backslash then backslash # bytes
      else if IsPrint r then bytes
      else if r = 7 then [backslash, CHR ''a'']
      else if r = 8 then [backslash, CHR ''b'']
      else if r = 12 then [backslash, CHR ''f'']
      else if r = 10 then [backslash, CHR ''n'']
      else if r = 13 then [backslash, CHR ''r'']
      else if r = 9 then [backslash, CHR ''t'']
      else if r = 11 then [backslash, CHR ''v'']
      else if r < 32 \<or> r = 127 then [backslash, CHR ''x''] @ hex_text 2 r
      else if r < 65536 then [backslash, CHR ''u''] @ hex_text 4 r
      else [backslash, CHR ''U''] @ hex_text 8 r)"

fun quote_runes :: "string \<Rightarrow> string" where
  "quote_runes [] = []"
| "quote_runes (c # s) =
     (let r = fst (DecodeRune (c # s)); width = snd (DecodeRune (c # s))
      in (if width = 1 \<and> r = RuneError then [backslash, CHR ''x''] @ hex_text 2 (of_char c)
          else quote_rune r (take width (c # s)))
         @ quote_runes (drop (width - 1) s))"

definition quote :: "string \<Rightarrow> string" where
  "quote s = quotation # quote_runes s @ [quotation]"

definition format_int :: "int \<Rightarrow> string" where
  "format_int i = (if i < 0 then CHR ''-'' # decimal (nat (- i)) else decimal (nat i))"

section \<open>Errors as text\<close>

fun code_string :: "code \<Rightarrow> string" where
  "code_string InvalidArgument = ''InvalidArgument''"
| "code_string FailedPrecondition = ''FailedPrecondition''"
| "code_string Unavailable = ''Unavailable''"
| "code_string Internal = ''Internal''"
| "code_string (OtherCode n) = ''Code('' @ decimal n @ '')''"

text \<open>\<open>(*NotLeaderError).Error\<close>, the same in the raft package and in the client.\<close>

definition not_leader_string :: "string \<Rightarrow> string \<Rightarrow> string" where
  "not_leader_string leaderID leaderAddr =
     (if leaderID = '''' \<and> leaderAddr = '''' then ''raft node is not leader''
      else ''raft node is not leader'' @ '': leader id='' @ quote leaderID @ '' addr='' @ quote leaderAddr)"

fun error_string :: "err \<Rightarrow> string" where
  "error_string ErrNotImplemented = ''not implemented''"
| "error_string ErrInvalidPara = ''invalid para''"
| "error_string ErrInvalidType = ''invalid type''"
| "error_string ErrEmptyKey = ''empty key''"
| "error_string ErrUnexpectedValue = ''delete record should not have value''"
| "error_string ErrRecordTooLarge = ''record too large''"
| "error_string ErrIncompleteRecord = ''incomplete record''"
| "error_string ErrNilCallBack = ''callback should not be nil''"
| "error_string ErrFileClosed = ''file is closed''"
| "error_string ErrDbClosed = ''db is closed''"
| "error_string EOF = ''EOF''"
| "error_string UnexpectedEOF = ''unexpected EOF''"
| "error_string ErrShortWrite = ''short write''"
| "error_string ErrNotExist = ''file does not exist''"
| "error_string (OsErr s) = s"
| "error_string ErrInvalidShardCount = ''invalid shard count''"
| "error_string ErrInvalidVirtualNodes = ''invalid virtual nodes''"
| "error_string ErrEmptyRing = ''empty hash ring''"
| "error_string ErrInvalidShardID = ''invalid shard id''"
| "error_string ErrShardNotAssigned = ''shard not assigned''"
| "error_string ErrEmptyGroupID = ''empty group id''"
| "error_string ErrNilRouter = ''nil shard router''"
| "error_string ErrNoShardGroup = ''no shard group''"
| "error_string ErrGroupNotFound = ''shard group not found''"
| "error_string ErrEmptyNodeID = ''raft node id is empty''"
| "error_string ErrEmptyRaftAddr = ''raft address is empty''"
| "error_string ErrEmptyRaftDir = ''raft dir is empty''"
| "error_string ErrEmptyPeers = ''raft peers are empty''"
| "error_string ErrNotLeader = ''raft node is not leader''"
| "error_string (NotLeaderError i a) = not_leader_string i a"
| "error_string Canceled = ''context canceled''"
| "error_string DeadlineExceeded = ''context deadline exceeded''"
| "error_string (StatusError c s) = ''rpc error: code = '' @ code_string c @ '' desc = '' @ s"
| "error_string ClientErrNotLeader = ''raft node is not leader''"
| "error_string (ClientNotLeaderError i a) = not_leader_string i a"
| "error_string (Errorf s) = s"
| "error_string (Wrapped s e) = s @ '': '' @ error_string e"

text \<open>\<open>errors.Is\<close> follows \<open>Unwrap\<close>.\<close>

fun errors_Is :: "err \<Rightarrow> err \<Rightarrow> bool" where
  "errors_Is e target \<longleftrightarrow> e = target \<or>
     (case e of
        Wrapped s e' \<Rightarrow> errors_Is e' target
      | NotLeaderError i a \<Rightarrow> ErrNotLeader = target
      | ClientNotLeaderError i a \<Rightarrow> ClientErrNotLeader = target
      | _ \<Rightarrow> False)"

declare errors_Is.simps [simp del]

lemma errors_Is_refl [simp]: "errors_Is e e"
  by (simp add: errors_Is.simps)

section \<open>Quoting strings without special characters\<close>

text \<open>Text that \<open>%q\<close> copies, such as printable ASCII without quotation marks and backslashes.\<close>

definition plain_text :: "string \<Rightarrow> bool" where
  "plain_text s \<longleftrightarrow> quote s = quotation # s @ [quotation] \<and> quotation \<notin> set s"

definition plain_char :: "char \<Rightarrow> bool" where
  "plain_char c \<longleftrightarrow> 32 \<le> (of_char c :: nat) \<and> (of_char c :: nat) < 127 \<and> c \<noteq> quotation \<and> c \<noteq> backslash"

lemma quote_runes_plain: "list_all plain_char s \<Longrightarrow> quote_runes s = s"
proof (induction s)
  case (Cons c s)
  then have c: "32 \<le> (of_char c :: nat)" "(of_char c :: nat) < 127" "c \<noteq> quotation" "c \<noteq> backslash"
    by (simp_all add: plain_char_def)
  have "(of_char c :: nat) \<noteq> of_char quotation" "(of_char c :: nat) \<noteq> of_char backslash"
    using c(3,4) by (metis char_of_char)+
  then have "quote_rune (of_char c) [c] = [c]" using c(1,2) unfolding quote_rune_def IsPrint_def by (simp only: if_False if_True) simp
  then show ?case using Cons c(2) by (simp add: DecodeRune_ascii RuneError_def)
qed simp

lemma plain_chars: "list_all plain_char s \<Longrightarrow> plain_text s"
  by (auto simp: plain_text_def quote_def quote_runes_plain list_all_iff plain_char_def)

text \<open>A byte that is no encoding of a rune is not copied; a letter beyond ASCII is.\<close>

lemma quote_examples:
  "quote [CHR 0xFF] = [quotation, backslash, CHR ''x'', CHR ''f'', CHR ''f'', quotation]"
  "quote [CHR 0xC3, CHR 0xA9] = [quotation, CHR 0xC3, CHR 0xA9, quotation]"
  by (simp_all add: quote_def DecodeRune_def Let_def RuneError_def hex_text_def hex_digit_def in_range_def quote_rune_def
      IsPrint_def print_ranges_16_def upt_rec)

end
