(* ===== verification/KV_RaftConfig.thy ===== *)
theory KV_RaftConfig
  imports KV_Fmt
begin

text \<open>
  The configuration of a raft node (\<open>internal/raft/node.go\<close>): peers, the check before a node starts
  and the initial configuration of a group.
\<close>

record Peer =
  pe_ID :: string
  pe_RaftAddr :: string

record NodeConfig =
  nc_NodeID :: string
  nc_RaftAddr :: string
  nc_RaftDir :: string
  nc_Peers :: "Peer list"
  nc_Bootstrap :: bool
  nc_SnapshotThreshold :: "64 word"
  nc_SnapshotInterval :: int

fun check_peers :: "string \<Rightarrow> Peer list \<Rightarrow> string set \<Rightarrow> bool \<Rightarrow> err + bool" where
  "check_peers nodeID [] seenIDs seenLocal = Inr seenLocal"
| "check_peers nodeID (peer # rest) seenIDs seenLocal =
     (if pe_ID peer = '''' then Inl ErrEmptyNodeID
      else if pe_RaftAddr peer = '''' then Inl ErrEmptyRaftAddr
      else if pe_ID peer \<in> seenIDs then Inl (Errorf (''duplicate raft peer id '' @ quote (pe_ID peer)))
      else check_peers nodeID rest (insert (pe_ID peer) seenIDs) (seenLocal \<or> pe_ID peer = nodeID))"

definition validateNodeConfig :: "NodeConfig \<Rightarrow> err option" where
  "validateNodeConfig config =
     (if nc_NodeID config = '''' then Some ErrEmptyNodeID
      else if nc_RaftAddr config = '''' then Some ErrEmptyRaftAddr
      else if nc_RaftDir config = '''' then Some ErrEmptyRaftDir
      else if length (nc_Peers config) = 0 then Some ErrEmptyPeers
      else
        (case check_peers (nc_NodeID config) (nc_Peers config) {} False of
           Inl e \<Rightarrow> Some e
         | Inr seenLocal \<Rightarrow>
             if \<not> seenLocal
             then Some (Errorf (''raft peers do not contain local node '' @ quote (nc_NodeID config)))
             else None))"

text \<open>A voting server of the raft library's configuration: its id and its address.\<close>

datatype Server = Voter string string

definition newRaftConfiguration :: "Peer list \<Rightarrow> Server list" where
  "newRaftConfiguration peers = map (\<lambda>peer. Voter (pe_ID peer) (pe_RaftAddr peer)) peers"

text \<open>The snapshot settings that \<open>NewNode\<close> hands to the library, with its defaults.\<close>

definition defaultSnapshotThreshold :: "64 word" where
  "defaultSnapshotThreshold = 1024"

definition Second :: int where
  "Second = 1000000000"

definition defaultSnapshotInterval :: int where
  "defaultSnapshotInterval = 30 * Second"

definition snapshot_settings :: "NodeConfig \<Rightarrow> 64 word \<times> int" where
  "snapshot_settings config =
     (if nc_SnapshotThreshold config = 0 then defaultSnapshotThreshold else nc_SnapshotThreshold config,
      if nc_SnapshotInterval config \<le> 0 then defaultSnapshotInterval else nc_SnapshotInterval config)"

section \<open>Which configurations pass\<close>

lemma check_peers_Inr:
  "check_peers nodeID ps seen b = Inr b' \<longleftrightarrow>
     (\<forall>p \<in> set ps. pe_ID p \<noteq> [] \<and> pe_RaftAddr p \<noteq> [] \<and> pe_ID p \<notin> seen) \<and> distinct (map pe_ID ps)
     \<and> b' = (b \<or> nodeID \<in> pe_ID ` set ps)"
  by (induction nodeID ps seen b rule: check_peers.induct) (auto simp: image_iff)

lemma validateNodeConfig_None:
  "validateNodeConfig config = None \<longleftrightarrow>
     nc_NodeID config \<noteq> [] \<and> nc_RaftAddr config \<noteq> [] \<and> nc_RaftDir config \<noteq> []
     \<and> (\<forall>p \<in> set (nc_Peers config). pe_ID p \<noteq> [] \<and> pe_RaftAddr p \<noteq> [])
     \<and> distinct (map pe_ID (nc_Peers config)) \<and> nc_NodeID config \<in> pe_ID ` set (nc_Peers config)"
proof -
  have "check_peers (nc_NodeID config) (nc_Peers config) {} False = Inr True \<longleftrightarrow>
      (\<forall>p \<in> set (nc_Peers config). pe_ID p \<noteq> [] \<and> pe_RaftAddr p \<noteq> [])
      \<and> distinct (map pe_ID (nc_Peers config)) \<and> nc_NodeID config \<in> pe_ID ` set (nc_Peers config)"
    by (simp add: check_peers_Inr)
  then show ?thesis
    by (cases "check_peers (nc_NodeID config) (nc_Peers config) {} False")
      (auto simp: validateNodeConfig_def)
qed

end
