(* ===== verification/KV_Ring.thy ===== *)
theory KV_Ring
  imports KV_Paths "HOL-Library.Product_Lexorder" "HOL-Library.Multiset"
begin

text \<open>
  Consistent hashing and routing (\<open>internal/shard/hash_ring.go\<close>, \<open>router.go\<close>): the ring of virtual
  nodes, the choice of a shard for a key, and the table from shards to groups.  Go's \<open>int\<close> is
  \<open>int\<close>: shard and node counts are configuration values.
\<close>

unbundle bit_operations_syntax

section \<open>FNV-1a\<close>

text \<open>\<open>fnv.New32a\<close>: start from the offset basis, xor each byte, multiply by the prime.\<close>

definition hashBytes :: "bytes \<Rightarrow> 32 word" where
  "hashBytes data = foldl (\<lambda>h b. (h XOR ucast b) * 16777619) 2166136261 data"

definition string_bytes :: "string \<Rightarrow> bytes" where
  "string_bytes s = map (\<lambda>c. word_of_nat (of_char c)) s"

section \<open>The ring\<close>

record HashRingConfig =
  ShardCount :: int
  VirtualNodes :: int

record ringPoint =
  rp_hash :: "32 word"
  rp_shardID :: int

record HashRing =
  points :: "ringPoint list"

text \<open>\<open>fmt.Sprintf("shard-%d#%d", shardID, vnodeID)\<close>; both numbers count up from zero.\<close>

definition nodeKey :: "nat \<Rightarrow> nat \<Rightarrow> string" where
  "nodeKey shardID vnodeID = ''shard-'' @ decimal shardID @ ''#'' @ decimal vnodeID"

definition ring_points :: "HashRingConfig \<Rightarrow> ringPoint list" where
  "ring_points config =
     concat (map (\<lambda>shardID. map (\<lambda>vnodeID.
         \<lparr>rp_hash = hashBytes (string_bytes (nodeKey shardID vnodeID)), rp_shardID = int shardID\<rparr>)
       [0..<nat (VirtualNodes config)]) [0..<nat (ShardCount config)])"

text \<open>
  The order of \<open>sort.Slice\<close>: by hash, equal hashes by shard.  Points that this order does not
  separate are equal, so the sorted slice does not depend on the sorting algorithm.
\<close>

abbreviation point_key :: "ringPoint \<Rightarrow> 32 word \<times> int" where
  "point_key pt \<equiv> (rp_hash pt, rp_shardID pt)"

definition point_less :: "ringPoint \<Rightarrow> ringPoint \<Rightarrow> bool" where
  "point_less x y =
     (if rp_hash x = rp_hash y then rp_shardID x < rp_shardID y else rp_hash x < rp_hash y)"

definition NewHashRing :: "HashRingConfig \<Rightarrow> err + HashRing" where
  "NewHashRing config =
     (if ShardCount config \<le> 0 then Inl ErrInvalidShardCount
      else if VirtualNodes config \<le> 0 then Inl ErrInvalidVirtualNodes
      else Inr \<lparr>points = sort_key point_key (ring_points config)\<rparr>)"

text \<open>\<open>sort.Search\<close>: the binary search between \<open>i\<close> and \<open>j\<close>.\<close>

function search :: "(nat \<Rightarrow> bool) \<Rightarrow> nat \<Rightarrow> nat \<Rightarrow> nat" where
  "search f i j =
     (if i < j then
        (let h = (i + j) div 2
         in if \<not> f h then search f (h + 1) j else search f i h)
      else i)"
  by pat_completeness auto
termination
  by (relation "measure (\<lambda>(f, i, j). j - i)") (auto simp: Let_def)

declare search.simps [simp del]

definition PickShard :: "HashRing option \<Rightarrow> bytes \<Rightarrow> err + int" where
  "PickShard r key =
     (if length key = 0 then Inl ErrEmptyKey
      else
        (case r of
           None \<Rightarrow> Inl ErrEmptyRing
         | Some ring \<Rightarrow>
             if length (points ring) = 0 then Inl ErrEmptyRing
             else
               (let keyHash = hashBytes key;
                    idx = search (\<lambda>i. rp_hash (points ring ! i) \<ge> keyHash) 0 (length (points ring));
                    idx1 = (if idx = length (points ring) then 0 else idx)
                in Inr (rp_shardID (points ring ! idx1)))))"

section \<open>Routing\<close>

type_synonym GroupID = string

record ShardRoute =
  sr_ShardID :: int
  sr_GroupID :: GroupID

record RouterConfig =
  rc_Ring :: HashRingConfig
  rc_ShardGroups :: "(int \<times> GroupID) list"

record Router =
  ro_ring :: "HashRing option"
  ro_shardCount :: int
  ro_shardGroups :: "(int \<times> GroupID) list"

text \<open>
  The copy of the configured map.  Go visits the entries in any order; here in the order of the
  list, which can be any.
\<close>

fun copy_groups ::
  "int \<Rightarrow> (int \<times> GroupID) list \<Rightarrow> (int \<times> GroupID) list \<Rightarrow> err + (int \<times> GroupID) list" where
  "copy_groups n [] shardGroups = Inr shardGroups"
| "copy_groups n ((shardID, groupID) # rest) shardGroups =
     (if shardID < 0 \<or> shardID \<ge> n then Inl ErrInvalidShardID
      else if groupID = '''' then Inl ErrEmptyGroupID
      else copy_groups n rest (AList.update shardID groupID shardGroups))"

definition NewRouter :: "RouterConfig \<Rightarrow> err + Router" where
  "NewRouter config =
     (case NewHashRing (rc_Ring config) of
        Inl e \<Rightarrow> Inl e
      | Inr ring \<Rightarrow>
          (case copy_groups (ShardCount (rc_Ring config)) (rc_ShardGroups config) [] of
             Inl e \<Rightarrow> Inl e
           | Inr shardGroups \<Rightarrow>
               if list_ex (\<lambda>shardID. map_of shardGroups (int shardID) = None)
                    [0..<nat (ShardCount (rc_Ring config))]
               then Inl ErrShardNotAssigned
               else Inr \<lparr>ro_ring = Some ring, ro_shardCount = ShardCount (rc_Ring config),
                         ro_shardGroups = shardGroups\<rparr>))"

definition RouteShard :: "Router option \<Rightarrow> int \<Rightarrow> err + ShardRoute" where
  "RouteShard router shardID =
     (case router of
        None \<Rightarrow> Inl ErrShardNotAssigned
      | Some r \<Rightarrow>
          if shardID < 0 \<or> shardID \<ge> ro_shardCount r then Inl ErrInvalidShardID
          else
            (case map_of (ro_shardGroups r) shardID of
               None \<Rightarrow> Inl ErrShardNotAssigned
             | Some groupID \<Rightarrow> Inr \<lparr>sr_ShardID = shardID, sr_GroupID = groupID\<rparr>))"

definition RouteKey :: "Router option \<Rightarrow> bytes \<Rightarrow> err + ShardRoute" where
  "RouteKey router key =
     (case router of
        None \<Rightarrow> Inl ErrShardNotAssigned
      | Some r \<Rightarrow>
          (case PickShard (ro_ring r) key of
             Inl e \<Rightarrow> Inl e
           | Inr shardID \<Rightarrow> RouteShard router shardID))"

section \<open>The sorted ring\<close>

lemma point_less_iff: "point_less x y \<longleftrightarrow> point_key x < point_key y"
  by (auto simp: point_less_def less_prod_def)

lemma inj_point_key: "inj point_key"
  by (auto intro!: injI)

text \<open>Every arrangement of the points that \<open>Less\<close> accepts as sorted is the one modelled.\<close>

lemma sort_points_unique:
  assumes "mset pts' = mset pts" and "sorted_wrt (\<lambda>x y. \<not> point_less y x) pts'"
  shows "pts' = sort_key point_key pts"
proof -
  have "sorted_wrt (\<lambda>x y. point_key x \<le> point_key y) pts'"
    using assms(2) unfolding point_less_iff not_less .
  then have "sorted (map point_key pts')" by (simp only: sorted_wrt_map)
  moreover have "mset (map point_key pts') = mset (map point_key pts)" using assms(1) by simp
  ultimately have "sort (map point_key pts) = map point_key pts'"
    by (intro properties_for_sort)
  moreover have "sort (map point_key pts) = map point_key (sort_key point_key pts)"
    by (rule properties_for_sort) simp_all
  ultimately have "map point_key pts' = map point_key (sort_key point_key pts)" by simp
  then show ?thesis using inj_point_key by (simp only: inj_map_eq_map)
qed

section \<open>Binary search\<close>

lemma search_spec:
  assumes "i \<le> j" and "\<forall>a b. a \<le> b \<longrightarrow> b < j \<longrightarrow> f a \<longrightarrow> f b"
  shows "i \<le> search f i j \<and> search f i j \<le> j
    \<and> (\<forall>k. i \<le> k \<longrightarrow> k < search f i j \<longrightarrow> \<not> f k) \<and> (search f i j < j \<longrightarrow> f (search f i j))"
  using assms
proof (induction f i j rule: search.induct)
  case (1 f i j)
  show ?case
  proof (cases "i < j")
    case True
    let ?h = "(i + j) div 2"
    have h: "i \<le> ?h" "?h < j" using True by auto
    show ?thesis
    proof (cases "f ?h")
      case False
      have low: "\<not> f k" if "k \<le> ?h" for k using False 1(4) h that by blast
      have eq: "search f i j = search f (?h + 1) j" using True False by (simp add: search.simps [of f i j] Let_def)
      have "?h + 1 \<le> j" using h by simp
      from 1(1) [OF True refl False this 1(4)]
      have ih: "?h + 1 \<le> search f (?h + 1) j" "search f (?h + 1) j \<le> j"
        "\<forall>k. ?h + 1 \<le> k \<longrightarrow> k < search f (?h + 1) j \<longrightarrow> \<not> f k"
        "search f (?h + 1) j < j \<longrightarrow> f (search f (?h + 1) j)"
        by blast+
      have "\<not> f k" if "k < search f (?h + 1) j" for k
        using low [of k] ih(3) that by (cases "k \<le> ?h") auto
      then show ?thesis unfolding eq using ih h by auto
    next
      case f: True
      have eq: "search f i j = search f i ?h" using True f by (simp add: search.simps [of f i j] Let_def)
      have "\<forall>a b. a \<le> b \<longrightarrow> b < ?h \<longrightarrow> f a \<longrightarrow> f b" using 1(4) h by (meson less_trans)
      then have ih: "i \<le> search f i ?h \<and> search f i ?h \<le> ?h
          \<and> (\<forall>k. i \<le> k \<longrightarrow> k < search f i ?h \<longrightarrow> \<not> f k) \<and> (search f i ?h < ?h \<longrightarrow> f (search f i ?h))"
        using 1(2) [OF True refl _ h(1)] f by blast
      then have "f (search f i ?h)" using f by (cases "search f i ?h = ?h") auto
      then show ?thesis unfolding eq using ih h by auto
    qed
  next
    case False
    then show ?thesis using 1(3) by (simp add: search.simps)
  qed
qed

section \<open>The choice of a shard\<close>

text \<open>
  The specification of \<open>PickShard\<close>: the shard of the first point clockwise from the hash of the key,
  wrapping around at the end of the ring.
\<close>

definition ring_choice :: "(32 word \<times> int) set \<Rightarrow> 32 word \<Rightarrow> int" where
  "ring_choice S h = snd (Min (if {x \<in> S. h \<le> fst x} = {} then S else {x \<in> S. h \<le> fst x}))"

lemma Min_sorted_nth:
  fixes xs :: "'a::linorder list"
  assumes "sorted xs" and "i < length xs" and "xs ! i \<in> A" and "A \<subseteq> set (drop i xs)"
  shows "Min A = xs ! i"
proof (rule Min_eqI)
  show "finite A" using assms(4) by (rule finite_subset) simp
  fix y assume "y \<in> A"
  then have "y \<in> set (drop i xs)" using assms(4) by blast
  then obtain k where "k < length (drop i xs)" and "drop i xs ! k = y" by (auto simp: in_set_conv_nth)
  then have "k < length xs - i" and "y = xs ! (i + k)" by auto
  then show "xs ! i \<le> y" using assms(1) by (auto simp: sorted_iff_nth_mono)
qed (rule assms(3))

lemma PickShard_choice:
  assumes "sorted (map point_key pts)" and "pts \<noteq> []" and "key \<noteq> []"
  shows "PickShard (Some \<lparr>points = pts\<rparr>) key = Inr (ring_choice (point_key ` set pts) (hashBytes key))"
proof -
  let ?h = "hashBytes key" and ?S = "point_key ` set pts"
  let ?f = "\<lambda>i. rp_hash (pts ! i) \<ge> ?h"
  let ?A = "{x \<in> ?S. ?h \<le> fst x}"
  define idx where "idx = search ?f 0 (length pts)"
  have mono: "\<forall>a b. a \<le> b \<longrightarrow> b < length pts \<longrightarrow> ?f a \<longrightarrow> ?f b"
  proof (intro allI impI)
    fix a b assume ab: "a \<le> b" "b < length pts" "?f a"
    then have "point_key (pts ! a) \<le> point_key (pts ! b)"
      using sorted_nth_mono [OF assms(1) ab(1)] by simp
    then have "rp_hash (pts ! a) \<le> rp_hash (pts ! b)" by (auto simp: less_eq_prod_def)
    then show "?f b" using ab(3) by (rule order_trans [rotated])
  qed
  have idx: "idx \<le> length pts" "\<And>k. k < idx \<Longrightarrow> \<not> ?f k" "idx < length pts \<Longrightarrow> ?f idx"
    using search_spec [OF _ mono, of 0] unfolding idx_def by auto
  have pick: "PickShard (Some \<lparr>points = pts\<rparr>) key
      = Inr (rp_shardID (pts ! (if idx = length pts then 0 else idx)))"
    using assms(2,3) by (simp add: PickShard_def Let_def idx_def)
  show ?thesis
  proof (cases "idx = length pts")
    case True
    then have "?A = {}" using idx(2) by (auto simp: in_set_conv_nth)
    moreover have "Min ?S = map point_key pts ! 0"
      by (rule Min_sorted_nth [OF assms(1)]) (use assms(2) in \<open>auto intro: nth_mem\<close>)
    ultimately show ?thesis using pick True assms(2) unfolding ring_choice_def by simp
  next
    case False
    then have i: "idx < length pts" using idx(1) by simp
    have mem: "point_key (pts ! idx) \<in> ?A" using i idx(3) by auto
    have sub: "?A \<subseteq> set (drop idx (map point_key pts))"
    proof
      fix x assume "x \<in> ?A"
      then obtain k where k: "k < length pts" "x = point_key (pts ! k)" "?f k"
        by (auto simp: in_set_conv_nth)
      then have "idx \<le> k" using idx(2) [of k] by (metis not_less)
      then have "x = drop idx (map point_key pts) ! (k - idx)" "k - idx < length (drop idx (map point_key pts))"
        using k by auto
      then show "x \<in> set (drop idx (map point_key pts))" by (metis nth_mem)
    qed
    have "Min ?A = map point_key pts ! idx"
      by (rule Min_sorted_nth [OF assms(1)]) (use i mem sub in auto)
    moreover have "?A \<noteq> {}" using mem by blast
    ultimately have "ring_choice ?S ?h = snd (map point_key pts ! idx)"
      unfolding ring_choice_def by (simp only: if_False)
    then show ?thesis using pick False i by simp
  qed
qed

lemma NewHashRing_Inr:
  assumes "NewHashRing config = Inr ring"
  shows "0 < ShardCount config" "0 < VirtualNodes config"
    and "points ring = sort_key point_key (ring_points config)" and "points ring \<noteq> []"
proof -
  show *: "0 < ShardCount config" "0 < VirtualNodes config"
    and pts: "points ring = sort_key point_key (ring_points config)"
    using assms by (auto simp: NewHashRing_def split: if_splits)
  have "ring_points config \<noteq> []"
    using * by (auto simp: ring_points_def intro!: exI [of _ 0])
  then show "points ring \<noteq> []" unfolding pts by (metis set_empty set_sort)
qed

lemma PickShard_ring:
  assumes "NewHashRing config = Inr ring" and "key \<noteq> []"
  shows "PickShard (Some ring) key = Inr (ring_choice (point_key ` set (ring_points config)) (hashBytes key))"
proof -
  have "sorted (map point_key (points ring))" unfolding NewHashRing_Inr(3) [OF assms(1)] by simp
  moreover have "set (points ring) = set (ring_points config)" using NewHashRing_Inr(3) [OF assms(1)] by simp
  moreover obtain pts where "ring = \<lparr>points = pts\<rparr>" by (cases ring)
  ultimately show ?thesis
    using PickShard_choice [of pts key] NewHashRing_Inr(4) [OF assms(1)] assms(2) by simp
qed

lemma ring_choice_mem:
  assumes "finite S" and "S \<noteq> {}"
  shows "ring_choice S h \<in> snd ` S"
proof -
  let ?A = "{x \<in> S. h \<le> fst x}"
  have fin: "finite ?A" using assms(1) by simp
  show ?thesis
  proof (cases "?A = {}")
    case True
    have "snd (Min S) \<in> snd ` S" using Min_in [OF assms] by (rule imageI)
    then show ?thesis unfolding ring_choice_def using True by simp
  next
    case False
    then have "Min ?A \<in> S" using Min_in [OF fin False] by blast
    then have "snd (Min ?A) \<in> snd ` S" by (rule imageI)
    then show ?thesis unfolding ring_choice_def using False by (simp only: if_False)
  qed
qed

text \<open>New points attract keys or change nothing.\<close>

lemma ring_choice_union:
  assumes fin: "finite S" "finite N" and ne: "S \<noteq> {}" and N: "\<forall>x \<in> N. snd x = n"
  shows "ring_choice (S \<union> N) h = ring_choice S h \<or> ring_choice (S \<union> N) h = n"
proof -
  have absorb: "Min (A \<union> B) = Min A \<or> Min (A \<union> B) \<in> B" if "finite A" "finite B" "A \<noteq> {}" for A B :: "(32 word \<times> int) set"
  proof (cases "B = {}")
    case False
    then have "Min (A \<union> B) = min (Min A) (Min B)" using that by (simp add: Min_Un)
    then show ?thesis using False that by (auto simp: min_def)
  qed simp
  let ?A = "{x \<in> S. h \<le> fst x}" and ?B = "{x \<in> N. h \<le> fst x}"
  have un: "{x \<in> S \<union> N. h \<le> fst x} = ?A \<union> ?B" by auto
  have f: "finite ?A" "finite ?B" using fin by simp_all
  consider "?A \<noteq> {}" | "?A = {}" "?B \<noteq> {}" | "?A = {}" "?B = {}" by blast
  then show ?thesis
  proof cases
    case 1
    then have "?A \<union> ?B \<noteq> {}" by blast
    then have "ring_choice (S \<union> N) h = snd (Min (?A \<union> ?B))" "ring_choice S h = snd (Min ?A)"
      unfolding ring_choice_def un using 1 by (simp_all only: if_False)
    moreover have "Min (?A \<union> ?B) = Min ?A \<or> Min (?A \<union> ?B) \<in> N" using absorb [OF f 1] by blast
    ultimately show ?thesis using N by auto
  next
    case 2
    then have "?A \<union> ?B = ?B" by blast
    then have "ring_choice (S \<union> N) h = snd (Min ?B)"
      unfolding ring_choice_def un using 2(2) by (simp only: if_False)
    moreover have "Min ?B \<in> N" using Min_in [OF f(2) 2(2)] by blast
    ultimately show ?thesis using N by auto
  next
    case 3
    then have "?A \<union> ?B = {}" by blast
    then have "ring_choice (S \<union> N) h = snd (Min (S \<union> N))" "ring_choice S h = snd (Min S)"
      unfolding ring_choice_def un using 3(1) by simp_all
    moreover have "Min (S \<union> N) = Min S \<or> Min (S \<union> N) \<in> N" using absorb [OF fin ne] .
    ultimately show ?thesis using N by auto
  qed
qed

lemma ring_points_Suc:
  assumes "0 \<le> ShardCount config"
  shows "set (ring_points (config\<lparr>ShardCount := ShardCount config + 1\<rparr>))
    = set (ring_points config) \<union> {\<lparr>rp_hash = hashBytes (string_bytes (nodeKey (nat (ShardCount config)) v)),
        rp_shardID = ShardCount config\<rparr> | v. v < nat (VirtualNodes config)}"
proof -
  have "nat (ShardCount config + 1) = Suc (nat (ShardCount config))" using assms by simp
  then show ?thesis using assms by (auto simp: ring_points_def)
qed

lemma ring_points_range: "x \<in> set (ring_points config) \<Longrightarrow> 0 \<le> rp_shardID x \<and> rp_shardID x < ShardCount config"
  by (auto simp: ring_points_def)

section \<open>The router\<close>

lemma copy_groups_Inr:
  "copy_groups n gs acc = Inr gs' \<longleftrightarrow>
     (\<forall>(s, g) \<in> set gs. 0 \<le> s \<and> s < n \<and> g \<noteq> []) \<and> gs' = fold (\<lambda>(s, g). AList.update s g) gs acc"
  by (induction n gs acc rule: copy_groups.induct) (auto simp: not_less)

lemma copy_groups_map: "map_of (fold (\<lambda>(s, g). AList.update s g) gs acc) = map_of acc ++ map_of (rev gs)"
  by (induction gs arbitrary: acc) (auto simp: map_add_upd_left)

lemma map_of_rev_distinct: "distinct (map fst gs) \<Longrightarrow> map_of (rev gs) = map_of gs"
  by (rule map_of_inject_set [THEN iffD2]) (auto simp: rev_map [symmetric])

definition router_config_ok :: "RouterConfig \<Rightarrow> bool" where
  "router_config_ok config \<longleftrightarrow>
     0 < ShardCount (rc_Ring config) \<and> 0 < VirtualNodes (rc_Ring config)
     \<and> (\<forall>(s, g) \<in> set (rc_ShardGroups config). 0 \<le> s \<and> s < ShardCount (rc_Ring config) \<and> g \<noteq> [])
     \<and> (\<forall>s. 0 \<le> s \<longrightarrow> s < ShardCount (rc_Ring config) \<longrightarrow> map_of (rc_ShardGroups config) s \<noteq> None)"

lemma NewRouter_Inr:
  assumes "distinct (map fst (rc_ShardGroups config))"
  shows "NewRouter config = Inr r \<longleftrightarrow> router_config_ok config
    \<and> (\<exists>ring. NewHashRing (rc_Ring config) = Inr ring
        \<and> r = \<lparr>ro_ring = Some ring, ro_shardCount = ShardCount (rc_Ring config),
               ro_shardGroups = fold (\<lambda>(s, g). AList.update s g) (rc_ShardGroups config) []\<rparr>)"
proof -
  let ?gs = "rc_ShardGroups config" and ?n = "ShardCount (rc_Ring config)"
  let ?f = "fold (\<lambda>(s, g). AList.update s g) ?gs []"
  have look: "map_of ?f = map_of ?gs"
    using copy_groups_map [of ?gs "[]"] map_of_rev_distinct [OF assms] by simp
  have all: "list_ex (\<lambda>s. map_of ?f (int s) = None) [0..<nat ?n]
      \<longleftrightarrow> \<not> (\<forall>s. 0 \<le> s \<longrightarrow> s < ?n \<longrightarrow> map_of ?gs s \<noteq> None)"
  proof
    assume "\<not> (\<forall>s. 0 \<le> s \<longrightarrow> s < ?n \<longrightarrow> map_of ?gs s \<noteq> None)"
    then obtain s where "0 \<le> s" "s < ?n" "map_of ?gs s = None" by blast
    then have "nat s \<in> set [0..<nat ?n]" "map_of ?f (int (nat s)) = None" using look by auto
    then show "list_ex (\<lambda>s. map_of ?f (int s) = None) [0..<nat ?n]" unfolding list_ex_iff by blast
  next
    assume "list_ex (\<lambda>s. map_of ?f (int s) = None) [0..<nat ?n]"
    then obtain s where "s < nat ?n" "map_of ?gs (int s) = None" unfolding list_ex_iff look by auto
    then show "\<not> (\<forall>s. 0 \<le> s \<longrightarrow> s < ?n \<longrightarrow> map_of ?gs s \<noteq> None)"
      by (intro notI) (auto dest: spec [of _ "int s"])
  qed
  show ?thesis
  proof (cases "NewHashRing (rc_Ring config)")
    case (Inl e)
    then show ?thesis by (simp add: NewRouter_def)
  next
    case (Inr ring)
    note pos = NewHashRing_Inr(1,2) [OF Inr]
    show ?thesis
    proof (cases "\<forall>(s, g) \<in> set ?gs. 0 \<le> s \<and> s < ?n \<and> g \<noteq> []")
      case True
      then have "copy_groups ?n ?gs [] = Inr ?f" using copy_groups_Inr by blast
      then show ?thesis using Inr True pos all by (auto simp: NewRouter_def router_config_ok_def)
    next
      case False
      then obtain e where "copy_groups ?n ?gs [] = Inl e"
        using copy_groups_Inr [of ?n ?gs "[]"] by (cases "copy_groups ?n ?gs []") auto
      then show ?thesis using Inr False by (auto simp: NewRouter_def router_config_ok_def)
    qed
  qed
qed

lemma NewRouter_routes:
  assumes d: "distinct (map fst (rc_ShardGroups config))" and new: "NewRouter config = Inr r"
  shows "router_config_ok config \<and> RouteKey (Some r) [] = Inl ErrEmptyKey
    \<and> (\<forall>key. key = [] \<or> (\<exists>shard group. PickShard (ro_ring r) key = Inr shard
          \<and> map_of (rc_ShardGroups config) shard = Some group \<and> group \<noteq> []
          \<and> RouteKey (Some r) key = Inr \<lparr>sr_ShardID = shard, sr_GroupID = group\<rparr>))"
proof -
  obtain ring where ok: "router_config_ok config" and ring: "NewHashRing (rc_Ring config) = Inr ring"
    and r: "r = \<lparr>ro_ring = Some ring, ro_shardCount = ShardCount (rc_Ring config),
               ro_shardGroups = fold (\<lambda>(s, g). AList.update s g) (rc_ShardGroups config) []\<rparr>"
    using NewRouter_Inr [OF d] new by blast
  have look: "map_of (ro_shardGroups r) = map_of (rc_ShardGroups config)"
    using copy_groups_map [of "rc_ShardGroups config" "[]"] map_of_rev_distinct [OF d] by (simp add: r)
  have "\<exists>shard group. PickShard (ro_ring r) key = Inr shard
      \<and> map_of (rc_ShardGroups config) shard = Some group \<and> group \<noteq> []
      \<and> RouteKey (Some r) key = Inr \<lparr>sr_ShardID = shard, sr_GroupID = group\<rparr>" if "key \<noteq> []" for key
  proof -
    let ?s = "ring_choice (point_key ` set (ring_points (rc_Ring config))) (hashBytes key)"
    have pick: "PickShard (ro_ring r) key = Inr ?s" using PickShard_ring [OF ring that] by (simp add: r)
    have "ring_points (rc_Ring config) \<noteq> []" using NewHashRing_Inr(3,4) [OF ring] by (metis set_empty set_sort)
    then have "?s \<in> snd ` point_key ` set (ring_points (rc_Ring config))" by (intro ring_choice_mem) simp_all
    then have range: "0 \<le> ?s" "?s < ShardCount (rc_Ring config)" using ring_points_range by auto
    then obtain group where g: "map_of (rc_ShardGroups config) ?s = Some group"
      using ok by (auto simp: router_config_ok_def)
    then have "group \<noteq> []" using ok by (auto simp: router_config_ok_def dest!: map_of_SomeD)
    moreover have "RouteKey (Some r) key = Inr \<lparr>sr_ShardID = ?s, sr_GroupID = group\<rparr>"
      using pick range g look by (simp add: RouteKey_def RouteShard_def) (simp add: r)
    ultimately show ?thesis using pick g by blast
  qed
  moreover have "RouteKey (Some r) [] = Inl ErrEmptyKey" by (simp add: RouteKey_def PickShard_def)
  ultimately show ?thesis using ok by auto
qed

section \<open>Properties\<close>

text \<open>
  C25: \<open>PickShard\<close> on a ring that \<open>NewHashRing\<close> built.  For every key that is not empty it returns
  the shard of the first virtual node whose hash is not below the key's hash, or of the first node
  of the ring if there is none, equal hashes going to the lower shard; that shard exists.
\<close>

theorem PickShard_first_clockwise:
  assumes "NewHashRing config = Inr ring" and "key \<noteq> []"
  shows "\<exists>shard. PickShard (Some ring) key = Inr shard \<and> 0 \<le> shard \<and> shard < ShardCount config
    \<and> shard = ring_choice ((\<lambda>pt. (rp_hash pt, rp_shardID pt)) ` set (ring_points config)) (hashBytes key)"
proof -
  let ?S = "point_key ` set (ring_points config)"
  have "ring_points config \<noteq> []" using NewHashRing_Inr(3,4) [OF assms(1)] by (metis set_empty set_sort)
  then have "ring_choice ?S (hashBytes key) \<in> snd ` ?S" by (intro ring_choice_mem) simp_all
  then have "0 \<le> ring_choice ?S (hashBytes key) \<and> ring_choice ?S (hashBytes key) < ShardCount config"
    using ring_points_range by auto
  then show ?thesis using PickShard_ring [OF assms] by blast
qed

theorem PickShard_first_clockwise_witness:
  "\<exists>ring shard. NewHashRing \<lparr>ShardCount = 4, VirtualNodes = 8\<rparr> = Inr ring
    \<and> PickShard (Some ring) [107] = Inr shard \<and> 0 \<le> shard \<and> shard < 4"
proof -
  let ?c = "\<lparr>ShardCount = 4, VirtualNodes = 8\<rparr>"
  have n: "NewHashRing ?c = Inr \<lparr>points = sort_key point_key (ring_points ?c)\<rparr>" by (simp add: NewHashRing_def)
  show ?thesis using PickShard_first_clockwise [OF n, of "[107]"] n by auto
qed

text \<open>
  Consistent hashing.  When one shard is added, every key either stays on its shard or moves to
  the new one.
\<close>

lemma adding_a_shard_moves_keys_only_to_it:
  assumes "NewHashRing config = Inr ring" and "key \<noteq> []"
    and "NewHashRing (config\<lparr>ShardCount := ShardCount config + 1\<rparr>) = Inr ring'"
  shows "PickShard (Some ring') key = PickShard (Some ring) key
    \<or> PickShard (Some ring') key = Inr (ShardCount config)"
proof -
  let ?S = "point_key ` set (ring_points config)"
  let ?N = "point_key ` {\<lparr>rp_hash = hashBytes (string_bytes (nodeKey (nat (ShardCount config)) v)),
        rp_shardID = ShardCount config\<rparr> | v. v < nat (VirtualNodes config)}"
  have "0 \<le> ShardCount config" using NewHashRing_Inr(1) [OF assms(1)] by simp
  then have pts: "point_key ` set (ring_points (config\<lparr>ShardCount := ShardCount config + 1\<rparr>)) = ?S \<union> ?N"
    by (simp only: ring_points_Suc image_Un)
  have "ring_points config \<noteq> []" using NewHashRing_Inr(3,4) [OF assms(1)] by (metis set_empty set_sort)
  then have "ring_choice (?S \<union> ?N) (hashBytes key) = ring_choice ?S (hashBytes key)
      \<or> ring_choice (?S \<union> ?N) (hashBytes key) = ShardCount config"
    by (intro ring_choice_union) auto
  then show ?thesis
    unfolding PickShard_ring [OF assms(1,2)] PickShard_ring [OF assms(3,2)] pts by auto
qed

lemma adding_a_shard_moves_keys_only_to_it_witness:
  "\<exists>ring ring'. NewHashRing \<lparr>ShardCount = 4, VirtualNodes = 8\<rparr> = Inr ring
    \<and> NewHashRing \<lparr>ShardCount = 5, VirtualNodes = 8\<rparr> = Inr ring'
    \<and> (PickShard (Some ring') [107] = PickShard (Some ring) [107] \<or> PickShard (Some ring') [107] = Inr 4)"
proof -
  let ?c = "\<lparr>ShardCount = 4, VirtualNodes = 8\<rparr>" and ?c' = "\<lparr>ShardCount = 5, VirtualNodes = 8\<rparr>"
  have n: "NewHashRing ?c = Inr \<lparr>points = sort_key point_key (ring_points ?c)\<rparr>"
    and n': "NewHashRing ?c' = Inr \<lparr>points = sort_key point_key (ring_points ?c')\<rparr>"
    by (simp_all add: NewHashRing_def)
  show ?thesis using adding_a_shard_moves_keys_only_to_it [OF n, of "[107]"] n n' by simp
qed

text \<open>
  A router routes every key.  \<open>NewRouter\<close> accepts exactly the configurations with a ring, in
  which every assigned shard exists, no group id is empty and every shard is assigned; and then
  \<open>RouteKey\<close> sends every key that is not empty to the group configured for the shard that
  \<open>PickShard\<close> chooses.
\<close>

lemma NewRouter_routes_every_key:
  assumes "distinct (map fst (rc_ShardGroups config))"
  shows "case NewRouter config of
      Inl e \<Rightarrow> \<not> router_config_ok config
    | Inr r \<Rightarrow> router_config_ok config
        \<and> RouteKey (Some r) [] = Inl ErrEmptyKey
        \<and> (\<forall>key. key = [] \<or> (\<exists>shard group. PickShard (ro_ring r) key = Inr shard
              \<and> map_of (rc_ShardGroups config) shard = Some group \<and> group \<noteq> []
              \<and> RouteKey (Some r) key = Inr \<lparr>sr_ShardID = shard, sr_GroupID = group\<rparr>))"
proof (cases "NewRouter config")
  case (Inl e)
  have "\<not> router_config_ok config"
  proof
    assume ok: "router_config_ok config"
    then obtain ring where "NewHashRing (rc_Ring config) = Inr ring"
      by (auto simp: NewHashRing_def router_config_ok_def)
    then show False using ok NewRouter_Inr [OF assms] Inl by (metis Inl_Inr_False)
  qed
  then show ?thesis using Inl by simp
next
  case (Inr r)
  then show ?thesis using NewRouter_routes [OF assms Inr] by simp
qed

lemma NewRouter_routes_every_key_witness:
  "\<exists>r. NewRouter \<lparr>rc_Ring = \<lparr>ShardCount = 2, VirtualNodes = 1\<rparr>, rc_ShardGroups = [(1, ''b''), (0, ''a'')]\<rparr> = Inr r
    \<and> (\<exists>route. RouteKey (Some r) [107] = Inr route \<and> sr_GroupID route \<in> {''a'', ''b''})"
proof -
  let ?c = "\<lparr>rc_Ring = \<lparr>ShardCount = 2, VirtualNodes = 1\<rparr>, rc_ShardGroups = [(1, ''b''), (0, ''a'')]\<rparr>"
  have ok: "router_config_ok ?c" by (auto simp: router_config_ok_def)
  have "distinct (map fst (rc_ShardGroups ?c))" by simp
  from NewRouter_routes_every_key [OF this]
  show ?thesis using ok
    by (cases "NewRouter ?c") (auto split: if_splits dest!: spec [of _ "[107]"])
qed

end
