(* ===== verification/KV_Cluster.thy ===== *)
theory KV_Cluster
  imports KV_RaftConfig KV_Ring
begin

text \<open>
  The cluster configuration (\<open>internal/cluster/config.go\<close>): nodes, shards, groups and their
  replicas, the validation of a configuration and the lookups on it.  Reading the file and decoding
  the JSON are parameters of \<open>Load\<close>.
\<close>

section \<open>The configuration\<close>

record Node =
  nd_ID :: string
  nd_ClientAddr :: string

record Shards =
  sh_ShardCount :: int
  sh_VirtualNodes :: int

record Shard =
  sd_ID :: int
  sd_GroupID :: string

record GroupReplica =
  gr_NodeID :: string
  gr_RaftAddr :: string

record Group =
  gp_ID :: string
  gp_Replicas :: "GroupReplica list"

record Config =
  cc_Nodes :: "Node list"
  cc_ShardConfig :: Shards
  cc_ShardRoutes :: "Shard list"
  cc_Groups :: "Group list"

section \<open>Validate\<close>

fun check_nodes :: "Node list \<Rightarrow> string set \<Rightarrow> err + string set" where
  "check_nodes [] seen = Inr seen"
| "check_nodes (node # rest) seen =
     (if nd_ID node = '''' then Inl (Errorf ''cluster node id is empty'')
      else if nd_ClientAddr node = ''''
      then Inl (Errorf (''cluster node '' @ quote (nd_ID node) @ '' client_addr is empty''))
      else if nd_ID node \<in> seen then Inl (Errorf (''duplicate cluster node id '' @ quote (nd_ID node)))
      else check_nodes rest (insert (nd_ID node) seen))"

fun check_replicas :: "string set \<Rightarrow> string \<Rightarrow> GroupReplica list \<Rightarrow> string set \<Rightarrow> string set \<Rightarrow> err option" where
  "check_replicas seen grp [] seenReplicaNodes seenReplicaAddrs = None"
| "check_replicas seen grp (replica # rest) seenReplicaNodes seenReplicaAddrs =
     (if gr_NodeID replica = ''''
      then Some (Errorf (''cluster group '' @ quote grp @ '' replica node_id is empty''))
      else if gr_NodeID replica \<notin> seen
      then Some (Errorf (''cluster group '' @ quote grp @ '' replica node '' @ quote (gr_NodeID replica)
                         @ '' not found''))
      else if gr_NodeID replica \<in> seenReplicaNodes
      then Some (Errorf (''duplicate replica node '' @ quote (gr_NodeID replica) @ '' in cluster group ''
                         @ quote grp))
      else if gr_RaftAddr replica = ''''
      then Some (Errorf (''cluster group '' @ quote grp @ '' replica '' @ quote (gr_NodeID replica)
                         @ '' raft_addr is empty''))
      else if gr_RaftAddr replica \<in> seenReplicaAddrs
      then Some (Errorf (''duplicate replica raft_addr '' @ quote (gr_RaftAddr replica)
                         @ '' in cluster group '' @ quote grp))
      else check_replicas seen grp rest (insert (gr_NodeID replica) seenReplicaNodes)
             (insert (gr_RaftAddr replica) seenReplicaAddrs))"

fun check_groups :: "string set \<Rightarrow> Group list \<Rightarrow> string set \<Rightarrow> err + string set" where
  "check_groups seen [] seenGroups = Inr seenGroups"
| "check_groups seen (grp # rest) seenGroups =
     (if gp_ID grp = '''' then Inl (Errorf ''cluster group id is empty'')
      else if gp_ID grp \<in> seenGroups
      then Inl (Errorf (''duplicate cluster group id '' @ quote (gp_ID grp)))
      else if length (gp_Replicas grp) = 0
      then Inl (Errorf (''cluster group '' @ quote (gp_ID grp) @ '' replicas is empty''))
      else
        (case check_replicas seen (gp_ID grp) (gp_Replicas grp) {} {} of
           Some e \<Rightarrow> Inl e
         | None \<Rightarrow> check_groups seen rest (insert (gp_ID grp) seenGroups)))"

fun check_routes :: "string set \<Rightarrow> Shard list \<Rightarrow> int set \<Rightarrow> err option" where
  "check_routes seenGroups [] seenShards = None"
| "check_routes seenGroups (s # rest) seenShards =
     (if sd_ID s \<in> seenShards then Some (Errorf (''duplicate cluster shard id '' @ format_int (sd_ID s)))
      else if sd_GroupID s \<notin> seenGroups
      then Some (Errorf (''cluster shard '' @ format_int (sd_ID s) @ '' group '' @ quote (sd_GroupID s)
                         @ '' not found''))
      else check_routes seenGroups rest (insert (sd_ID s) seenShards))"

definition ConfigRouterConfig :: "Config \<Rightarrow> RouterConfig" where
  "ConfigRouterConfig c =
     \<lparr>rc_Ring = \<lparr>ShardCount = sh_ShardCount (cc_ShardConfig c), VirtualNodes = sh_VirtualNodes (cc_ShardConfig c)\<rparr>,
      rc_ShardGroups = fold (\<lambda>s. AList.update (sd_ID s) (sd_GroupID s)) (cc_ShardRoutes c) []\<rparr>"

definition Validate :: "Config \<Rightarrow> err option" where
  "Validate c =
     (if length (cc_Nodes c) = 0 then Some (Errorf ''cluster config nodes is empty'')
      else
        (case check_nodes (cc_Nodes c) {} of
           Inl e \<Rightarrow> Some e
         | Inr seen \<Rightarrow>
             if sh_ShardCount (cc_ShardConfig c) \<le> 0
             then Some (Errorf ''cluster config shard_config.shard_count is required'')
             else if sh_VirtualNodes (cc_ShardConfig c) \<le> 0
             then Some (Errorf ''cluster config shard_config.virtual_nodes is required'')
             else if length (cc_ShardRoutes c) = 0 then Some (Errorf ''cluster config shards is empty'')
             else if length (cc_Groups c) = 0 then Some (Errorf ''cluster config groups is empty'')
             else
               (case check_groups seen (cc_Groups c) {} of
                  Inl e \<Rightarrow> Some e
                | Inr seenGroups \<Rightarrow>
                    (case check_routes seenGroups (cc_ShardRoutes c) {} of
                       Some e \<Rightarrow> Some e
                     | None \<Rightarrow>
                         (case NewRouter (ConfigRouterConfig c) of
                            Inl e \<Rightarrow> Some (Wrapped ''validate shard config'' e)
                          | Inr router \<Rightarrow> None)))))"

text \<open>\<open>os.ReadFile\<close> and \<open>json.Unmarshal\<close> are parameters.\<close>

definition Load :: "(string \<Rightarrow> err + bytes) \<Rightarrow> (bytes \<Rightarrow> err + Config) \<Rightarrow> string \<Rightarrow> err + Config" where
  "Load readFile unmarshal p =
     (case readFile p of
        Inl e \<Rightarrow> Inl (Wrapped ''read cluster config'' e)
      | Inr data \<Rightarrow>
          (case unmarshal data of
             Inl e \<Rightarrow> Inl (Wrapped ''decode cluster config'' e)
           | Inr config \<Rightarrow> (case Validate config of Some e \<Rightarrow> Inl e | None \<Rightarrow> Inr config)))"

section \<open>Lookups\<close>

definition GroupIDs :: "Config \<Rightarrow> GroupID list" where
  "GroupIDs c = sort (map gp_ID (cc_Groups c))"

definition ConfigNewRouter :: "Config \<Rightarrow> err + Router" where
  "ConfigNewRouter c =
     (case NewRouter (ConfigRouterConfig c) of
        Inl e \<Rightarrow> Inl (Wrapped ''create shard router'' e)
      | Inr router \<Rightarrow> Inr router)"

definition FindGroup :: "Config \<Rightarrow> GroupID \<Rightarrow> err + Group" where
  "FindGroup c groupID =
     (case find (\<lambda>grp. gp_ID grp = groupID) (cc_Groups c) of
        Some grp \<Rightarrow> Inr grp
      | None \<Rightarrow> Inl (Errorf (''cluster group '' @ quote groupID @ '' not found'')))"

definition LocalGroups :: "Config \<Rightarrow> string \<Rightarrow> Group list" where
  "LocalGroups c nodeID =
     filter (\<lambda>grp. list_ex (\<lambda>replica. gr_NodeID replica = nodeID) (gp_Replicas grp)) (cc_Groups c)"

definition RaftPeersForGroup :: "Config \<Rightarrow> GroupID \<Rightarrow> err + Peer list" where
  "RaftPeersForGroup c groupID =
     (case FindGroup c groupID of
        Inl e \<Rightarrow> Inl e
      | Inr grp \<Rightarrow>
          Inr (map (\<lambda>replica. \<lparr>pe_ID = gr_NodeID replica, pe_RaftAddr = gr_RaftAddr replica\<rparr>) (gp_Replicas grp)))"

definition LocalRaftAddr :: "Config \<Rightarrow> GroupID \<Rightarrow> string \<Rightarrow> err + string" where
  "LocalRaftAddr c groupID nodeID =
     (case FindGroup c groupID of
        Inl e \<Rightarrow> Inl e
      | Inr grp \<Rightarrow>
          (case find (\<lambda>replica. gr_NodeID replica = nodeID) (gp_Replicas grp) of
             Some replica \<Rightarrow> Inr (gr_RaftAddr replica)
           | None \<Rightarrow> Inl (Errorf (''cluster group '' @ quote groupID @ '' does not contain node ''
                                  @ quote nodeID))))"

definition SingleGroup :: "Config \<Rightarrow> err + Group" where
  "SingleGroup c =
     (if length (cc_Groups c) \<noteq> 1
      then Inl (Errorf (''expected exactly one cluster group, got '' @ decimal (length (cc_Groups c))))
      else Inr (cc_Groups c ! 0))"

definition FindNode :: "Config \<Rightarrow> string \<Rightarrow> err + Node" where
  "FindNode c nodeID =
     (case find (\<lambda>node. nd_ID node = nodeID) (cc_Nodes c) of
        Some node \<Rightarrow> Inr node
      | None \<Rightarrow> Inl (Errorf (''cluster node '' @ quote nodeID @ '' not found'')))"

section \<open>Which configurations are valid\<close>

definition replica_ok :: "Config \<Rightarrow> GroupReplica \<Rightarrow> bool" where
  "replica_ok c replica \<longleftrightarrow>
     gr_NodeID replica \<noteq> [] \<and> gr_NodeID replica \<in> nd_ID ` set (cc_Nodes c) \<and> gr_RaftAddr replica \<noteq> []"

definition group_ok :: "Config \<Rightarrow> Group \<Rightarrow> bool" where
  "group_ok c grp \<longleftrightarrow>
     gp_ID grp \<noteq> [] \<and> gp_Replicas grp \<noteq> [] \<and> (\<forall>replica \<in> set (gp_Replicas grp). replica_ok c replica)
     \<and> distinct (map gr_NodeID (gp_Replicas grp)) \<and> distinct (map gr_RaftAddr (gp_Replicas grp))"

definition cluster_ok :: "Config \<Rightarrow> bool" where
  "cluster_ok c \<longleftrightarrow>
     cc_Nodes c \<noteq> [] \<and> distinct (map nd_ID (cc_Nodes c))
     \<and> (\<forall>node \<in> set (cc_Nodes c). nd_ID node \<noteq> [] \<and> nd_ClientAddr node \<noteq> [])
     \<and> 0 < sh_ShardCount (cc_ShardConfig c) \<and> 0 < sh_VirtualNodes (cc_ShardConfig c)
     \<and> (\<forall>grp \<in> set (cc_Groups c). group_ok c grp) \<and> distinct (map gp_ID (cc_Groups c))
     \<and> distinct (map sd_ID (cc_ShardRoutes c))
     \<and> sd_ID ` set (cc_ShardRoutes c) = {0..<sh_ShardCount (cc_ShardConfig c)}
     \<and> sd_GroupID ` set (cc_ShardRoutes c) \<subseteq> gp_ID ` set (cc_Groups c)"

lemma check_nodes_Inr:
  "check_nodes ns seen = Inr seen' \<longleftrightarrow>
     (\<forall>n \<in> set ns. nd_ID n \<noteq> [] \<and> nd_ClientAddr n \<noteq> [] \<and> nd_ID n \<notin> seen) \<and> distinct (map nd_ID ns)
     \<and> seen' = seen \<union> nd_ID ` set ns"
  by (induction ns seen rule: check_nodes.induct) (auto 0 3 simp: image_iff)

lemma check_replicas_None:
  "check_replicas seen g rs sn sa = None \<longleftrightarrow>
     (\<forall>r \<in> set rs. gr_NodeID r \<noteq> [] \<and> gr_NodeID r \<in> seen \<and> gr_RaftAddr r \<noteq> [] \<and> gr_NodeID r \<notin> sn \<and> gr_RaftAddr r \<notin> sa)
     \<and> distinct (map gr_NodeID rs) \<and> distinct (map gr_RaftAddr rs)"
  by (induction seen g rs sn sa rule: check_replicas.induct) (auto 0 3 simp: image_iff)

lemma check_groups_Inr:
  "check_groups (nd_ID ` set (cc_Nodes c)) gs sg = Inr sg' \<longleftrightarrow>
     (\<forall>g \<in> set gs. group_ok c g \<and> gp_ID g \<notin> sg) \<and> distinct (map gp_ID gs) \<and> sg' = sg \<union> gp_ID ` set gs"
proof (induction gs arbitrary: sg)
  case (Cons g gs)
  have "check_replicas (nd_ID ` set (cc_Nodes c)) (gp_ID g) (gp_Replicas g) {} {} = None
      \<and> gp_ID g \<noteq> [] \<and> gp_Replicas g \<noteq> [] \<longleftrightarrow> group_ok c g"
    unfolding check_replicas_None group_ok_def replica_ok_def by auto
  then show ?case using Cons.IH [of "insert (gp_ID g) sg"]
    by (cases "check_replicas (nd_ID ` set (cc_Nodes c)) (gp_ID g) (gp_Replicas g) {} {}")
      (auto 0 3 simp: image_iff)
qed auto

lemma check_routes_None:
  "check_routes sg rs ss = None \<longleftrightarrow>
     (\<forall>r \<in> set rs. sd_ID r \<notin> ss \<and> sd_GroupID r \<in> sg) \<and> distinct (map sd_ID rs)"
  by (induction sg rs ss rule: check_routes.induct) (auto 0 3 simp: image_iff)

lemma routes_distinct:
  "distinct (map fst acc) \<Longrightarrow> distinct (map fst (fold (\<lambda>s. AList.update (sd_ID s) (sd_GroupID s)) rs acc))"
  by (induction rs arbitrary: acc) (auto simp: distinct_update)

lemma routes_map:
  "map_of (fold (\<lambda>s. AList.update (sd_ID s) (sd_GroupID s)) rs acc)
     = map_of acc ++ map_of (rev (map (\<lambda>s. (sd_ID s, sd_GroupID s)) rs))"
  by (induction rs arbitrary: acc) (auto simp: map_add_upd_left)

lemma ConfigRouterConfig_groups:
  assumes "distinct (map sd_ID (cc_ShardRoutes c))"
  shows "set (rc_ShardGroups (ConfigRouterConfig c)) = (\<lambda>s. (sd_ID s, sd_GroupID s)) ` set (cc_ShardRoutes c)"
    and "distinct (map fst (rc_ShardGroups (ConfigRouterConfig c)))"
proof -
  let ?gs = "rc_ShardGroups (ConfigRouterConfig c)" and ?al = "map (\<lambda>s. (sd_ID s, sd_GroupID s)) (cc_ShardRoutes c)"
  show d: "distinct (map fst ?gs)" using routes_distinct [of "[]"] by (simp add: ConfigRouterConfig_def)
  have d': "distinct (map fst ?al)" using assms by (simp add: comp_def)
  have "map_of ?gs = map_of ?al"
    using routes_map [of "cc_ShardRoutes c" "[]"] map_of_rev_distinct [OF d'] by (simp add: ConfigRouterConfig_def rev_map)
  then have "(k, v) \<in> set ?gs \<longleftrightarrow> (k, v) \<in> set ?al" for k v
    using map_of_eq_Some_iff [OF d] map_of_eq_Some_iff [OF d'] by metis
  then show "set ?gs = (\<lambda>s. (sd_ID s, sd_GroupID s)) ` set (cc_ShardRoutes c)" by (auto simp: set_eq_iff)
qed

lemma NewRouter_Inr_iff:
  assumes "distinct (map fst (rc_ShardGroups config))"
  shows "(\<exists>r. NewRouter config = Inr r) \<longleftrightarrow> router_config_ok config"
  using NewRouter_Inr [OF assms] by (auto simp: router_config_ok_def NewHashRing_def)

lemma router_ok_routes:
  assumes d: "distinct (map sd_ID (cc_ShardRoutes c))"
    and g: "\<forall>s \<in> set (cc_ShardRoutes c). sd_GroupID s \<noteq> []"
    and pos: "0 < sh_ShardCount (cc_ShardConfig c)" "0 < sh_VirtualNodes (cc_ShardConfig c)"
  shows "router_config_ok (ConfigRouterConfig c) \<longleftrightarrow>
    sd_ID ` set (cc_ShardRoutes c) = {0..<sh_ShardCount (cc_ShardConfig c)}"
proof -
  let ?rc = "ConfigRouterConfig c" and ?n = "sh_ShardCount (cc_ShardConfig c)"
  have set: "set (rc_ShardGroups ?rc) = (\<lambda>s. (sd_ID s, sd_GroupID s)) ` set (cc_ShardRoutes c)"
    by (rule ConfigRouterConfig_groups [OF d])
  have "(\<forall>(s, g) \<in> set (rc_ShardGroups ?rc). 0 \<le> s \<and> s < ?n \<and> g \<noteq> [])
      \<longleftrightarrow> sd_ID ` set (cc_ShardRoutes c) \<subseteq> {0..<?n}"
    using g unfolding set by auto
  moreover have "map_of (rc_ShardGroups ?rc) s \<noteq> None \<longleftrightarrow> s \<in> sd_ID ` set (cc_ShardRoutes c)" for s
    using set by (simp add: map_of_eq_None_iff image_image)
  then have "(\<forall>s. 0 \<le> s \<longrightarrow> s < ?n \<longrightarrow> map_of (rc_ShardGroups ?rc) s \<noteq> None)
      \<longleftrightarrow> {0..<?n} \<subseteq> sd_ID ` set (cc_ShardRoutes c)"
    by auto
  moreover have "rc_Ring ?rc = \<lparr>ShardCount = ?n, VirtualNodes = sh_VirtualNodes (cc_ShardConfig c)\<rparr>"
    by (simp add: ConfigRouterConfig_def)
  ultimately show ?thesis using pos by (auto simp: router_config_ok_def)
qed

lemma FindGroup_distinct:
  assumes "distinct (map gp_ID (cc_Groups c))"
  shows "FindGroup c g = Inr grp \<longleftrightarrow> grp \<in> set (cc_Groups c) \<and> gp_ID grp = g"
  unfolding find_distinct [OF assms, symmetric] by (auto simp: FindGroup_def split: option.splits)

lemma FindNode_distinct:
  assumes "distinct (map nd_ID (cc_Nodes c))"
  shows "FindNode c i = Inr node \<longleftrightarrow> node \<in> set (cc_Nodes c) \<and> nd_ID node = i"
  unfolding find_distinct [OF assms, symmetric] by (auto simp: FindNode_def split: option.splits)

lemma cluster_ok_router:
  assumes "cluster_ok c"
  shows "\<exists>router. ConfigNewRouter c = Inr router \<and> NewRouter (ConfigRouterConfig c) = Inr router"
proof -
  have d: "distinct (map sd_ID (cc_ShardRoutes c))" and "\<forall>s \<in> set (cc_ShardRoutes c). sd_GroupID s \<noteq> []"
    using assms by (auto simp: cluster_ok_def group_ok_def)
  then have "router_config_ok (ConfigRouterConfig c)"
    using assms router_ok_routes by (simp add: cluster_ok_def)
  then obtain router where "NewRouter (ConfigRouterConfig c) = Inr router"
    using NewRouter_Inr_iff [OF ConfigRouterConfig_groups(2) [OF d]] by blast
  then show ?thesis by (simp add: ConfigNewRouter_def)
qed

text \<open>A replica of a valid group has a raft address, and its peers pass the check of the raft node.\<close>

lemma replica_config:
  assumes ok: "cluster_ok c" and g: "grp \<in> set (cc_Groups c)" and r: "replica \<in> set (gp_Replicas grp)"
  shows "LocalRaftAddr c (gp_ID grp) (gr_NodeID replica) = Inr (gr_RaftAddr replica)"
    and "\<exists>peers. RaftPeersForGroup c (gp_ID grp) = Inr peers
      \<and> Voter (gr_NodeID replica) (gr_RaftAddr replica) \<in> set (newRaftConfiguration peers)
      \<and> (\<forall>config. nc_NodeID config = gr_NodeID replica \<longrightarrow> nc_RaftAddr config = gr_RaftAddr replica
            \<longrightarrow> nc_RaftDir config \<noteq> [] \<longrightarrow> nc_Peers config = peers \<longrightarrow> validateNodeConfig config = None)"
proof -
  have gok: "group_ok c grp" and find: "FindGroup c (gp_ID grp) = Inr grp"
    using ok g FindGroup_distinct by (auto simp: cluster_ok_def)
  have d: "distinct (map gr_NodeID (gp_Replicas grp))" and "\<forall>x \<in> set (gp_Replicas grp). replica_ok c x"
    using gok by (simp_all add: group_ok_def)
  then have all: "\<forall>x \<in> set (gp_Replicas grp). gr_NodeID x \<noteq> [] \<and> gr_RaftAddr x \<noteq> []"
    by (simp add: replica_ok_def)
  have "find (\<lambda>x. gr_NodeID x = gr_NodeID replica) (gp_Replicas grp) = Some replica"
    using find_distinct [OF d] r by blast
  then show "LocalRaftAddr c (gp_ID grp) (gr_NodeID replica) = Inr (gr_RaftAddr replica)"
    using find by (simp add: LocalRaftAddr_def)
  let ?peers = "map (\<lambda>x. \<lparr>pe_ID = gr_NodeID x, pe_RaftAddr = gr_RaftAddr x\<rparr>) (gp_Replicas grp)"
  have "RaftPeersForGroup c (gp_ID grp) = Inr ?peers" using find by (simp add: RaftPeersForGroup_def)
  moreover have "Voter (gr_NodeID replica) (gr_RaftAddr replica) \<in> set (newRaftConfiguration ?peers)"
    using r by (auto simp: newRaftConfiguration_def)
  moreover have "validateNodeConfig config = None"
    if "nc_NodeID config = gr_NodeID replica" "nc_RaftAddr config = gr_RaftAddr replica" "nc_RaftDir config \<noteq> []"
      "nc_Peers config = ?peers" for config
    unfolding validateNodeConfig_None using that all d r by (auto simp: comp_def image_iff)
  ultimately show "\<exists>peers. RaftPeersForGroup c (gp_ID grp) = Inr peers
      \<and> Voter (gr_NodeID replica) (gr_RaftAddr replica) \<in> set (newRaftConfiguration peers)
      \<and> (\<forall>config. nc_NodeID config = gr_NodeID replica \<longrightarrow> nc_RaftAddr config = gr_RaftAddr replica
            \<longrightarrow> nc_RaftDir config \<noteq> [] \<longrightarrow> nc_Peers config = peers \<longrightarrow> validateNodeConfig config = None)"
    by blast
qed

text \<open>The example of the witnesses: one node with one group.\<close>

definition example_cluster :: Config where
  "example_cluster = \<lparr>cc_Nodes = [\<lparr>nd_ID = ''n1'', nd_ClientAddr = '':9001''\<rparr>],
     cc_ShardConfig = \<lparr>sh_ShardCount = 1, sh_VirtualNodes = 1\<rparr>,
     cc_ShardRoutes = [\<lparr>sd_ID = 0, sd_GroupID = ''g1''\<rparr>],
     cc_Groups = [\<lparr>gp_ID = ''g1'', gp_Replicas = [\<lparr>gr_NodeID = ''n1'', gr_RaftAddr = '':10001''\<rparr>]\<rparr>]\<rparr>"

lemma Validate_cluster_ok: "Validate c = None \<longleftrightarrow> cluster_ok c"
proof -
  let ?seen = "nd_ID ` set (cc_Nodes c)" and ?gs = "gp_ID ` set (cc_Groups c)"
  let ?A = "cc_Nodes c \<noteq> [] \<and> check_nodes (cc_Nodes c) {} = Inr ?seen
    \<and> 0 < sh_ShardCount (cc_ShardConfig c) \<and> 0 < sh_VirtualNodes (cc_ShardConfig c)
    \<and> cc_ShardRoutes c \<noteq> [] \<and> cc_Groups c \<noteq> [] \<and> check_groups ?seen (cc_Groups c) {} = Inr ?gs
    \<and> check_routes ?gs (cc_ShardRoutes c) {} = None"
  have "Validate c = None \<longleftrightarrow> ?A \<and> (\<exists>r. NewRouter (ConfigRouterConfig c) = Inr r)"
  proof (cases "check_nodes (cc_Nodes c) {}")
    case (Inr seen)
    then have seen: "seen = ?seen" by (simp add: check_nodes_Inr)
    show ?thesis
    proof (cases "check_groups ?seen (cc_Groups c) {}")
      case (Inr sg)
      then have "sg = ?gs" by (simp add: check_groups_Inr)
      then show ?thesis using Inr \<open>check_nodes (cc_Nodes c) {} = Inr seen\<close> seen
        by (simp add: Validate_def not_le split: option.splits sum.splits)
    qed (use Inr seen in \<open>simp add: Validate_def\<close>)
  qed (simp add: Validate_def)
  also have "\<dots> \<longleftrightarrow> cluster_ok c"
  proof (cases ?A)
    case True
    then have "distinct (map sd_ID (cc_ShardRoutes c))" "\<forall>s \<in> set (cc_ShardRoutes c). sd_GroupID s \<noteq> []"
      by (auto simp: check_routes_None check_groups_Inr group_ok_def)
    then have "(\<exists>r. NewRouter (ConfigRouterConfig c) = Inr r)
        \<longleftrightarrow> sd_ID ` set (cc_ShardRoutes c) = {0..<sh_ShardCount (cc_ShardConfig c)}"
      using True router_ok_routes NewRouter_Inr_iff [OF ConfigRouterConfig_groups(2)] by simp
    then show ?thesis using True
      by (auto simp: cluster_ok_def check_nodes_Inr check_groups_Inr check_routes_None)
  next
    case False
    have "cc_ShardRoutes c \<noteq> [] \<and> cc_Groups c \<noteq> []" if ok: "cluster_ok c"
    proof -
      have "0 \<in> sd_ID ` set (cc_ShardRoutes c)" "sd_GroupID ` set (cc_ShardRoutes c) \<subseteq> ?gs"
        using ok by (simp_all add: cluster_ok_def)
      then show ?thesis by auto
    qed
    then show ?thesis using False
      by (auto simp: cluster_ok_def check_nodes_Inr check_groups_Inr check_routes_None)
  qed
  finally show ?thesis .
qed

lemma cluster_ok_serves:
  assumes ok: "cluster_ok c" and router: "ConfigNewRouter c = Inr router" and key: "key \<noteq> []"
  shows "\<exists>route grp. RouteKey (Some router) key = Inr route \<and> grp \<in> set (cc_Groups c) \<and> gp_ID grp = sr_GroupID route"
proof -
  have d: "distinct (map sd_ID (cc_ShardRoutes c))" using ok by (simp add: cluster_ok_def)
  note gs = ConfigRouterConfig_groups [OF d]
  have new: "NewRouter (ConfigRouterConfig c) = Inr router"
    using router by (simp add: ConfigNewRouter_def split: sum.splits)
  obtain shard g where m: "map_of (rc_ShardGroups (ConfigRouterConfig c)) shard = Some g"
    and rt: "RouteKey (Some router) key = Inr \<lparr>sr_ShardID = shard, sr_GroupID = g\<rparr>"
    using NewRouter_routes [OF gs(2) new] key by blast
  have "g \<in> sd_GroupID ` set (cc_ShardRoutes c)" using map_of_SomeD [OF m] unfolding gs(1) by auto
  then have "g \<in> gp_ID ` set (cc_Groups c)" using ok unfolding cluster_ok_def by (elim conjE) (rule subsetD)
  then obtain grp where "g = gp_ID grp" "grp \<in> set (cc_Groups c)" by (rule imageE)
  then show ?thesis using rt
    by (intro exI [of _ "\<lparr>sr_ShardID = shard, sr_GroupID = g\<rparr>"] exI [of _ grp]) simp
qed

lemma cluster_ok_home:
  assumes ok: "cluster_ok c" and g: "grp \<in> set (cc_Groups c)" "replica \<in> set (gp_Replicas grp)"
  shows "\<exists>node. FindNode c (gr_NodeID replica) = Inr node \<and> nd_ClientAddr node \<noteq> []"
    and "grp \<in> set (LocalGroups c (gr_NodeID replica))"
proof -
  have "gr_NodeID replica \<in> nd_ID ` set (cc_Nodes c)"
    using ok g by (auto simp: cluster_ok_def group_ok_def replica_ok_def)
  then obtain node where node: "gr_NodeID replica = nd_ID node" "node \<in> set (cc_Nodes c)" by (rule imageE)
  have "distinct (map nd_ID (cc_Nodes c))" "nd_ClientAddr node \<noteq> []"
    using ok node(2) by (simp_all add: cluster_ok_def)
  then show "\<exists>node. FindNode c (gr_NodeID replica) = Inr node \<and> nd_ClientAddr node \<noteq> []"
    using FindNode_distinct node by (intro exI [of _ node]) simp
  show "grp \<in> set (LocalGroups c (gr_NodeID replica))" using g by (auto simp: LocalGroups_def list_ex_iff)
qed

text \<open>The map that the groups' maps make up: a key has the value that its group gives it.\<close>

definition cluster_map :: "Router \<Rightarrow> (GroupID \<Rightarrow> bytes \<rightharpoonup> bytes) \<Rightarrow> bytes \<rightharpoonup> bytes" where
  "cluster_map router m key =
     (if key = [] then None else m (case RouteKey (Some router) key of Inr route \<Rightarrow> sr_GroupID route) key)"

section \<open>Properties\<close>

text \<open>
  C10: \<open>Validate\<close> accepts exactly the complete configurations: there are nodes, with distinct ids
  and with addresses; counts are positive; group ids are distinct and not empty, and every group
  has replicas on known, distinct nodes with distinct raft addresses; and the routes give every
  shard from 0 to the count exactly one group, which exists.
\<close>

theorem Validate_accepts_complete_configs:
  "Validate c = None \<longleftrightarrow> cluster_ok c"
  by (rule Validate_cluster_ok)

text \<open>
  C28: A valid configuration serves every key.  The router can be built, and every key that is not
  empty is routed to a configured group; each replica of that group is a known node with a client
  address, finds the group among its local groups and its own raft address in it, and the peers it
  gets form a raft configuration that \<open>validateNodeConfig\<close> accepts for every data directory.
\<close>

theorem valid_cluster_serves_every_key:
  assumes "Validate c = None"
  shows "\<exists>router. ConfigNewRouter c = Inr router \<and> (\<forall>key. key = [] \<or>
    (\<exists>route grp peers. RouteKey (Some router) key = Inr route \<and> FindGroup c (sr_GroupID route) = Inr grp
      \<and> gp_Replicas grp \<noteq> [] \<and> RaftPeersForGroup c (sr_GroupID route) = Inr peers
      \<and> (\<forall>replica \<in> set (gp_Replicas grp).
          (\<exists>node. FindNode c (gr_NodeID replica) = Inr node \<and> nd_ClientAddr node \<noteq> [])
          \<and> grp \<in> set (LocalGroups c (gr_NodeID replica))
          \<and> (\<exists>addr. LocalRaftAddr c (sr_GroupID route) (gr_NodeID replica) = Inr addr
              \<and> (\<forall>dir bootstrap n i. dir = [] \<or>
                   validateNodeConfig \<lparr>nc_NodeID = gr_NodeID replica, nc_RaftAddr = addr, nc_RaftDir = dir,
                     nc_Peers = peers, nc_Bootstrap = bootstrap, nc_SnapshotThreshold = n,
                     nc_SnapshotInterval = i\<rparr> = None)))))"
proof -
  have ok: "cluster_ok c" using assms by (simp add: Validate_cluster_ok)
  then obtain router where router: "ConfigNewRouter c = Inr router" using cluster_ok_router by blast
  show ?thesis
  proof (intro exI [of _ router] conjI router allI)
    fix key :: bytes
    show "key = [] \<or> (\<exists>route grp peers. RouteKey (Some router) key = Inr route \<and> FindGroup c (sr_GroupID route) = Inr grp
      \<and> gp_Replicas grp \<noteq> [] \<and> RaftPeersForGroup c (sr_GroupID route) = Inr peers
      \<and> (\<forall>replica \<in> set (gp_Replicas grp).
          (\<exists>node. FindNode c (gr_NodeID replica) = Inr node \<and> nd_ClientAddr node \<noteq> [])
          \<and> grp \<in> set (LocalGroups c (gr_NodeID replica))
          \<and> (\<exists>addr. LocalRaftAddr c (sr_GroupID route) (gr_NodeID replica) = Inr addr
              \<and> (\<forall>dir bootstrap n i. dir = [] \<or>
                   validateNodeConfig \<lparr>nc_NodeID = gr_NodeID replica, nc_RaftAddr = addr, nc_RaftDir = dir,
                     nc_Peers = peers, nc_Bootstrap = bootstrap, nc_SnapshotThreshold = n,
                     nc_SnapshotInterval = i\<rparr> = None))))"
    proof (cases "key = []")
      case False
      then obtain route grp where rt: "RouteKey (Some router) key = Inr route"
        and g: "grp \<in> set (cc_Groups c)" "gp_ID grp = sr_GroupID route"
        using cluster_ok_serves [OF ok router] by blast
      have find: "FindGroup c (sr_GroupID route) = Inr grp"
        using FindGroup_distinct g ok by (simp add: cluster_ok_def)
      then obtain peers where p: "RaftPeersForGroup c (sr_GroupID route) = Inr peers" by (simp add: RaftPeersForGroup_def)
      have "\<exists>addr. LocalRaftAddr c (sr_GroupID route) (gr_NodeID replica) = Inr addr
          \<and> (\<forall>dir bootstrap n i. dir = [] \<or>
               validateNodeConfig \<lparr>nc_NodeID = gr_NodeID replica, nc_RaftAddr = addr, nc_RaftDir = dir,
                 nc_Peers = peers, nc_Bootstrap = bootstrap, nc_SnapshotThreshold = n,
                 nc_SnapshotInterval = i\<rparr> = None)"
        if r: "replica \<in> set (gp_Replicas grp)" for replica
        using replica_config [OF ok g(1) r] p g(2) by auto
      moreover have "gp_Replicas grp \<noteq> []" using ok g by (simp add: cluster_ok_def group_ok_def)
      ultimately show ?thesis using rt find p cluster_ok_home [OF ok g(1)]
        by (intro disjI2 exI [of _ route] exI [of _ grp] exI [of _ peers] conjI ballI) simp_all
    qed simp
  qed
qed

theorem valid_cluster_serves_every_key_witness:
  "\<exists>router route grp. ConfigNewRouter example_cluster = Inr router \<and> RouteKey (Some router) [107] = Inr route
    \<and> FindGroup example_cluster (sr_GroupID route) = Inr grp \<and> gp_ID grp = ''g1''"
proof -
  have "Validate example_cluster = None"
    unfolding Validate_cluster_ok by (auto simp: cluster_ok_def group_ok_def replica_ok_def example_cluster_def)
  from valid_cluster_serves_every_key [OF this] obtain router route grp where
    "ConfigNewRouter example_cluster = Inr router" "RouteKey (Some router) [107] = Inr route"
    "FindGroup example_cluster (sr_GroupID route) = Inr grp"
    by (metis list.distinct(1))
  moreover from this(3) have "gp_ID grp = ''g1''"
    by (auto simp: FindGroup_def example_cluster_def split: if_splits)
  ultimately show ?thesis by blast
qed

text \<open>
  \<open>Validate\<close> compares raft addresses only within a group.  There is a configuration that it
  accepts in which one node must listen on the same raft address for two groups, which no second
  transport can.
\<close>

lemma Validate_accepts_shared_raft_addr:
  "\<exists>c addr. Validate c = None \<and> gp_ID ` set (LocalGroups c ''n1'') = {''g1'', ''g2''}
    \<and> LocalRaftAddr c ''g1'' ''n1'' = Inr addr \<and> LocalRaftAddr c ''g2'' ''n1'' = Inr addr"
proof -
  let ?r = "\<lparr>gr_NodeID = ''n1'', gr_RaftAddr = '':10001''\<rparr>"
  let ?c = "\<lparr>cc_Nodes = [\<lparr>nd_ID = ''n1'', nd_ClientAddr = '':9001''\<rparr>],
     cc_ShardConfig = \<lparr>sh_ShardCount = 2, sh_VirtualNodes = 1\<rparr>,
     cc_ShardRoutes = [\<lparr>sd_ID = 0, sd_GroupID = ''g1''\<rparr>, \<lparr>sd_ID = 1, sd_GroupID = ''g2''\<rparr>],
     cc_Groups = [\<lparr>gp_ID = ''g1'', gp_Replicas = [?r]\<rparr>, \<lparr>gp_ID = ''g2'', gp_Replicas = [?r]\<rparr>]\<rparr>"
  have "{0, 1} = {0..<2::int}" by auto
  then have "Validate ?c = None"
    unfolding Validate_cluster_ok by (simp add: cluster_ok_def group_ok_def replica_ok_def)
  moreover have "gp_ID ` set (LocalGroups ?c ''n1'') = {''g1'', ''g2''}" by (auto simp: LocalGroups_def)
  moreover have "LocalRaftAddr ?c ''g1'' ''n1'' = Inr '':10001''" "LocalRaftAddr ?c ''g2'' ''n1'' = Inr '':10001''"
    by (simp_all add: LocalRaftAddr_def FindGroup_def)
  ultimately show ?thesis by blast
qed

end
