(* ===== verification/KV_Store.thy ===== *)
theory KV_Store
  imports KV_DB_Props
begin

text \<open>
  The interface \<open>Store\<close> that the server and the shard package share (\<open>internal/shard/store.go\<close>,
  \<open>internal/server/grpc/store.go\<close>): contexts, the table of operations of a store, the contract
  \<open>kv_backend\<close> between a store and its callers, and the standalone store, which is the database.
\<close>

section \<open>Contexts\<close>

text \<open>
  A \<open>context.Context\<close> is what the code can observe of it: the result of the \<open>i\<close>-th call of \<open>Err\<close>,
  the deadline, and the clock at the \<open>i\<close>-th call of \<open>time.Until\<close>, in nanoseconds.
\<close>

record Context =
  ctx_Err :: "nat \<Rightarrow> err option"
  ctx_Deadline :: "int option"
  ctx_Now :: "nat \<Rightarrow> int"

definition Background :: Context where
  "Background = \<lparr>ctx_Err = (\<lambda>i. None), ctx_Deadline = None, ctx_Now = (\<lambda>i. 0)\<rparr>"

text \<open>The same context when one store operation has looked at it.\<close>

definition ctx_later :: "Context \<Rightarrow> Context" where
  "ctx_later ctx = ctx\<lparr>ctx_Err := (\<lambda>i. ctx_Err ctx (i + 3)), ctx_Now := (\<lambda>i. ctx_Now ctx (i + 3))\<rparr>"

definition ctx_live :: "Context \<Rightarrow> bool" where
  "ctx_live ctx \<longleftrightarrow> (\<forall>i. ctx_Err ctx i = None)
     \<and> (\<forall>d. ctx_Deadline ctx = Some d \<longrightarrow> (\<forall>i. ctx_Now ctx i < d))"

lemma ctx_live_Background [simp]: "ctx_live Background"
  by (simp add: ctx_live_def Background_def)

lemma ctx_live_later [simp]: "ctx_live ctx \<Longrightarrow> ctx_live (ctx_later ctx)"
  by (simp add: ctx_live_def ctx_later_def)

section \<open>Stores\<close>

text \<open>
  The method table of a store with state \<open>'s\<close>.  \<open>Get\<close> returns \<open>None\<close> for a nil slice.  \<open>Compact\<close>
  is \<open>None\<close> when the fuel of the merge runs out.
\<close>

record 's store_ops =
  so_Put :: "Context \<Rightarrow> bytes \<Rightarrow> bytes \<Rightarrow> 's \<Rightarrow> err option \<times> 's"
  so_Get :: "Context \<Rightarrow> bytes \<Rightarrow> 's \<Rightarrow> (err + bytes option) \<times> 's"
  so_Delete :: "Context \<Rightarrow> bytes \<Rightarrow> 's \<Rightarrow> err option \<times> 's"
  so_Flush :: "Context \<Rightarrow> 's \<Rightarrow> err option \<times> 's"
  so_Compact :: "Context \<Rightarrow> 's \<Rightarrow> (err option \<times> 's) option"

text \<open>
  The contract: the state stands for a map, and while the context is live every operation on keys
  and values that the record format can hold succeeds and has its effect on that map.
\<close>

locale kv_backend =
  fixes ops :: "'s store_ops" and repr :: "'s \<Rightarrow> (bytes \<rightharpoonup> bytes) \<Rightarrow> bool"
  assumes put: "ctx_live ctx \<Longrightarrow> repr s a \<Longrightarrow> op_valid (OpPut k v)
      \<Longrightarrow> \<exists>s'. so_Put ops ctx k v s = (None, s') \<and> repr s' (a(k \<mapsto> v))"
    and get: "ctx_live ctx \<Longrightarrow> repr s a \<Longrightarrow> k \<noteq> []
      \<Longrightarrow> \<exists>g s'. so_Get ops ctx k s = (Inr g, s') \<and> repr s' a \<and> reads_as (a k) g"
    and delete: "ctx_live ctx \<Longrightarrow> repr s a \<Longrightarrow> op_valid (OpDelete k)
      \<Longrightarrow> \<exists>s'. so_Delete ops ctx k s = (None, s') \<and> repr s' (a(k := None))"
    and flush: "ctx_live ctx \<Longrightarrow> repr s a \<Longrightarrow> \<exists>s'. so_Flush ops ctx s = (None, s') \<and> repr s' a"
    and compact: "ctx_live ctx \<Longrightarrow> repr s a
      \<Longrightarrow> \<exists>s'. so_Compact ops ctx s = Some (None, s') \<and> repr s' a"
    and put_empty: "ctx_live ctx \<Longrightarrow> repr s a \<Longrightarrow> so_Put ops ctx [] v s = (Some ErrEmptyKey, s)"
    and get_empty: "ctx_live ctx \<Longrightarrow> repr s a \<Longrightarrow> so_Get ops ctx [] s = (Inl ErrEmptyKey, s)"
    and delete_empty: "ctx_live ctx \<Longrightarrow> repr s a \<Longrightarrow> so_Delete ops ctx [] s = (Some ErrEmptyKey, s)"

section \<open>Requests\<close>

text \<open>A client's requests, their run on a store, and what the answers may be.\<close>

datatype request = ReqPut bytes bytes | ReqGet bytes | ReqDelete bytes | ReqFlush | ReqCompact

datatype reply = Done "err option" | Got "err + bytes option"

fun serve :: "'s store_ops \<Rightarrow> Context \<Rightarrow> request \<Rightarrow> 's \<Rightarrow> (reply \<times> 's) option" where
  "serve ops ctx (ReqPut k v) s = Some (apfst Done (so_Put ops ctx k v s))"
| "serve ops ctx (ReqGet k) s = Some (apfst Got (so_Get ops ctx k s))"
| "serve ops ctx (ReqDelete k) s = Some (apfst Done (so_Delete ops ctx k s))"
| "serve ops ctx ReqFlush s = Some (apfst Done (so_Flush ops ctx s))"
| "serve ops ctx ReqCompact s = map_option (apfst Done) (so_Compact ops ctx s)"

fun serve_all :: "'s store_ops \<Rightarrow> Context \<Rightarrow> request list \<Rightarrow> 's \<Rightarrow> (reply list \<times> 's) option" where
  "serve_all ops ctx [] s = Some ([], s)"
| "serve_all ops ctx (r # rs) s =
     (case serve ops ctx r s of
        None \<Rightarrow> None
      | Some (a, s1) \<Rightarrow> map_option (apfst (Cons a)) (serve_all ops ctx rs s1))"

fun request_valid :: "request \<Rightarrow> bool" where
  "request_valid (ReqPut k v) \<longleftrightarrow> length k \<le> MaxUint32 \<and> length v \<le> MaxUint32"
| "request_valid (ReqDelete k) \<longleftrightarrow> length k \<le> MaxUint32"
| "request_valid _ \<longleftrightarrow> True"

fun spec_request :: "request \<Rightarrow> (bytes \<rightharpoonup> bytes) \<Rightarrow> bytes \<rightharpoonup> bytes" where
  "spec_request (ReqPut k v) a = (if k = [] then a else a(k \<mapsto> v))"
| "spec_request (ReqDelete k) a = (if k = [] then a else a(k := None))"
| "spec_request _ a = a"

fun answers :: "request \<Rightarrow> (bytes \<rightharpoonup> bytes) \<Rightarrow> reply \<Rightarrow> bool" where
  "answers (ReqPut k v) a (Done r) \<longleftrightarrow> r = (if k = [] then Some ErrEmptyKey else None)"
| "answers (ReqDelete k) a (Done r) \<longleftrightarrow> r = (if k = [] then Some ErrEmptyKey else None)"
| "answers (ReqGet k) a (Got (Inl e)) \<longleftrightarrow> k = [] \<and> e = ErrEmptyKey"
| "answers (ReqGet k) a (Got (Inr g)) \<longleftrightarrow> k \<noteq> [] \<and> reads_as (a k) g"
| "answers ReqFlush a (Done r) \<longleftrightarrow> r = None"
| "answers ReqCompact a (Done r) \<longleftrightarrow> r = None"
| "answers _ a _ \<longleftrightarrow> False"

text \<open>All answers of a run are right, each for the map at its time.\<close>

fun all_answered :: "request list \<Rightarrow> (bytes \<rightharpoonup> bytes) \<Rightarrow> reply list \<Rightarrow> bool" where
  "all_answered [] a [] \<longleftrightarrow> True"
| "all_answered (r # rs) a (x # xs) \<longleftrightarrow> answers r a x \<and> all_answered rs (spec_request r a) xs"
| "all_answered _ a _ \<longleftrightarrow> False"

lemma all_answered_iff:
  "all_answered [] a xs \<longleftrightarrow> xs = []"
  "all_answered (r # rs) a xs \<longleftrightarrow> (\<exists>y ys. xs = y # ys \<and> answers r a y \<and> all_answered rs (spec_request r a) ys)"
  by (cases xs; simp)+

lemma answers_iff:
  "answers (ReqPut k v) a y \<longleftrightarrow> y = Done (if k = [] then Some ErrEmptyKey else None)"
  "answers (ReqDelete k) a y \<longleftrightarrow> y = Done (if k = [] then Some ErrEmptyKey else None)"
  "answers ReqFlush a y \<longleftrightarrow> y = Done None"
  "answers (ReqGet []) a y \<longleftrightarrow> y = Got (Inl ErrEmptyKey)"
  "k \<noteq> [] \<Longrightarrow> a k = Some x \<Longrightarrow> answers (ReqGet k) a y \<longleftrightarrow> y = Got (Inr (Some x))"
  by (cases y; auto simp: reads_as_def elim!: answers.elims)+

lemmas answered = all_answered_iff answers_iff

context kv_backend
begin

lemma serve_request:
  assumes "ctx_live ctx" and "repr s a" and "request_valid r"
  shows "\<exists>x s'. serve ops ctx r s = Some (x, s') \<and> repr s' (spec_request r a) \<and> answers r a x"
proof (cases r)
  case (ReqPut k v)
  then show ?thesis
    using put [OF assms(1,2), of k v] put_empty [OF assms(1,2), of v] assms(2,3) by (cases "k = []") auto
next
  case (ReqGet k)
  then show ?thesis
    using get [OF assms(1,2), of k] get_empty [OF assms(1,2)] assms(2) by (cases "k = []") force+
next
  case (ReqDelete k)
  then show ?thesis
    using delete [OF assms(1,2), of k] delete_empty [OF assms(1,2)] assms(2,3) by (cases "k = []") auto
next
  case ReqFlush
  then show ?thesis using flush [OF assms(1,2)] by auto
next
  case ReqCompact
  then show ?thesis using compact [OF assms(1,2)] by auto
qed

lemma serve_requests:
  assumes "ctx_live ctx" and "repr s a" and "\<forall>r \<in> set rs. request_valid r"
  shows "\<exists>xs s'. serve_all ops ctx rs s = Some (xs, s') \<and> repr s' (fold spec_request rs a)
    \<and> all_answered rs a xs"
  using assms(2,3)
proof (induction rs arbitrary: s a)
  case (Cons r rs)
  then obtain x s1 where 1: "serve ops ctx r s = Some (x, s1)" "repr s1 (spec_request r a)" "answers r a x"
    using serve_request [OF assms(1), of s a r] by auto
  then obtain xs s' where "serve_all ops ctx rs s1 = Some (xs, s')"
    "repr s' (fold spec_request rs (spec_request r a))" "all_answered rs (spec_request r a) xs"
    using Cons.IH [of s1 "spec_request r a"] Cons.prems(2) by auto
  then show ?case using 1 by auto
qed simp

end

section \<open>The standalone store\<close>

text \<open>\<open>standaloneStore\<close> drops the context and calls the database.\<close>

type_synonym db_state = "DB \<times> world"

definition standalonePut :: "Context \<Rightarrow> bytes \<Rightarrow> bytes \<Rightarrow> db_state \<Rightarrow> err option \<times> db_state" where
  "standalonePut ctx key value s = (case s of (db, w) \<Rightarrow> DbPut key value db w)"

definition standaloneGet :: "Context \<Rightarrow> bytes \<Rightarrow> db_state \<Rightarrow> (err + bytes option) \<times> db_state" where
  "standaloneGet ctx key s = (case s of (db, w) \<Rightarrow> (case DbGet key db w of (r, w') \<Rightarrow> (r, db, w')))"

definition standaloneDelete :: "Context \<Rightarrow> bytes \<Rightarrow> db_state \<Rightarrow> err option \<times> db_state" where
  "standaloneDelete ctx key s = (case s of (db, w) \<Rightarrow> DbDelete key db w)"

definition standaloneFlush :: "Context \<Rightarrow> db_state \<Rightarrow> err option \<times> db_state" where
  "standaloneFlush ctx s = (case s of (db, w) \<Rightarrow> DbFlush db w)"

definition standaloneCompact :: "Context \<Rightarrow> db_state \<Rightarrow> (err option \<times> db_state) option" where
  "standaloneCompact ctx s = (case s of (db, w) \<Rightarrow> DbCompact db w)"

definition standaloneStore :: "db_state store_ops" where
  "standaloneStore = \<lparr>so_Put = standalonePut, so_Get = standaloneGet, so_Delete = standaloneDelete,
     so_Flush = standaloneFlush, so_Compact = standaloneCompact\<rparr>"

text \<open>The database stands for the map of its live records.\<close>

definition db_map :: "db_state \<Rightarrow> (bytes \<rightharpoonup> bytes) \<Rightarrow> bool" where
  "db_map s a \<longleftrightarrow> calm (snd s) \<and> (\<exists>m. db_repr (snd s) (fst s) m \<and> kv_values m = a)"

lemma db_map_store_at: "store_at options n db w a \<Longrightarrow> db_map (db, w) a"
  by (auto simp: store_at_def db_map_def)

lemmas standalone_defs = standaloneStore_def standalonePut_def standaloneGet_def standaloneDelete_def
  standaloneFlush_def standaloneCompact_def

interpretation standalone: kv_backend standaloneStore db_map
proof
  fix ctx s and a :: "bytes \<rightharpoonup> bytes" and k v :: bytes
  assume "db_map s a"
  then obtain db w m where s: "s = (db, w)" and c: "calm w" and r: "db_repr w db m" and a: "kv_values m = a"
    by (cases s) (auto simp: db_map_def)
  note sd = s standalone_defs
  have op: "\<not> db_closed db" using db_repr_closed [OF r] .
  show "\<exists>s'. so_Put standaloneStore ctx k v s = (None, s') \<and> db_map s' (a(k \<mapsto> v))" if "op_valid (OpPut k v)"
    using DbPut_calm [OF c r, of k v] that a by (force simp: sd db_map_def)
  show "\<exists>g s'. so_Get standaloneStore ctx k s = (Inr g, s') \<and> db_map s' a \<and> reads_as (a k) g" if "k \<noteq> []"
    using DbGet_calm [OF c r that] reads_as_get_value [OF r, of k] c r a by (auto simp: sd db_map_def)
  show "\<exists>s'. so_Delete standaloneStore ctx k s = (None, s') \<and> db_map s' (a(k := None))" if "op_valid (OpDelete k)"
    using DbDelete_calm [OF c r, of k] that a by (force simp: sd db_map_def)
  show "\<exists>s'. so_Flush standaloneStore ctx s = (None, s') \<and> db_map s' a"
    using DbFlush_calm [OF c r] a by (auto simp: sd db_map_def)
  obtain db' w' m' where "DbCompact db w = Some (None, db', w')" "calm w'" "db_repr w' db' m'" "live m' = live m"
    using DbCompact_calm [OF c r] by blast
  then show "\<exists>s'. so_Compact standaloneStore ctx s = Some (None, s') \<and> db_map s' a"
    using live_values [of m' m] a by (auto simp: sd db_map_def)
  show "so_Put standaloneStore ctx [] v s = (Some ErrEmptyKey, s)" by (simp add: sd DbPut_def)
  show "so_Get standaloneStore ctx [] s = (Inl ErrEmptyKey, s)" by (simp add: sd DbGet_def)
  show "so_Delete standaloneStore ctx [] s = (Some ErrEmptyKey, s)" by (simp add: sd DbDelete_def)
qed

end
