(* ===== verification/KV_Rpc.thy ===== *)
theory KV_Rpc
  imports KV_Fmt KV_Store "HOL-Library.Sublist"
begin

text \<open>
  The two ends of a call: the gRPC server (\<open>internal/server/grpc/server.go\<close>), which maps the errors of
  its store to statuses, and the client (\<open>internal/client/client.go\<close>, \<open>errors.go\<close>), which maps
  statuses back and reads the leader's identity out of the message.  The generated stubs and gRPC
  between the two are parameters.
\<close>

section \<open>The server\<close>

definition server_mapError :: "err option \<Rightarrow> err option" where
  "server_mapError err =
     (case err of
        None \<Rightarrow> None
      | Some e \<Rightarrow>
          Some (if errors_Is e ErrEmptyKey then StatusError InvalidArgument (error_string e)
                else if errors_Is e ErrDbClosed then StatusError FailedPrecondition (error_string e)
                else if errors_Is e ErrNotLeader then StatusError Unavailable (error_string e)
                else StatusError Internal (error_string e)))"

abbreviation request_is_nil :: err where
  "request_is_nil \<equiv> StatusError InvalidArgument ''request is nil''"

text \<open>A nil request is \<open>None\<close>; otherwise the request has its key and its value.\<close>

definition ServerPut :: "'s store_ops \<Rightarrow> Context \<Rightarrow> (bytes \<times> bytes) option \<Rightarrow> 's \<Rightarrow> err option \<times> 's" where
  "ServerPut ops ctx req s =
     (case req of
        None \<Rightarrow> (Some request_is_nil, s)
      | Some (key, value) \<Rightarrow>
          (case so_Put ops ctx key value s of
             (Some e, s1) \<Rightarrow> (server_mapError (Some e), s1)
           | (None, s1) \<Rightarrow> (None, s1)))"

definition ServerGet :: "'s store_ops \<Rightarrow> Context \<Rightarrow> bytes option \<Rightarrow> 's \<Rightarrow> (err + bytes option) \<times> 's" where
  "ServerGet ops ctx req s =
     (case req of
        None \<Rightarrow> (Inl request_is_nil, s)
      | Some key \<Rightarrow>
          (case so_Get ops ctx key s of
             (Inl e, s1) \<Rightarrow> (Inl (the (server_mapError (Some e))), s1)
           | (Inr value, s1) \<Rightarrow> (Inr value, s1)))"

definition ServerDelete :: "'s store_ops \<Rightarrow> Context \<Rightarrow> bytes option \<Rightarrow> 's \<Rightarrow> err option \<times> 's" where
  "ServerDelete ops ctx req s =
     (case req of
        None \<Rightarrow> (Some request_is_nil, s)
      | Some key \<Rightarrow>
          (case so_Delete ops ctx key s of
             (Some e, s1) \<Rightarrow> (server_mapError (Some e), s1)
           | (None, s1) \<Rightarrow> (None, s1)))"

definition ServerFlush :: "'s store_ops \<Rightarrow> Context \<Rightarrow> unit option \<Rightarrow> 's \<Rightarrow> err option \<times> 's" where
  "ServerFlush ops ctx req s =
     (case req of
        None \<Rightarrow> (Some request_is_nil, s)
      | Some u \<Rightarrow>
          (case so_Flush ops ctx s of
             (Some e, s1) \<Rightarrow> (server_mapError (Some e), s1)
           | (None, s1) \<Rightarrow> (None, s1)))"

definition ServerCompact :: "'s store_ops \<Rightarrow> Context \<Rightarrow> unit option \<Rightarrow> 's \<Rightarrow> (err option \<times> 's) option" where
  "ServerCompact ops ctx req s =
     (case req of
        None \<Rightarrow> Some (Some request_is_nil, s)
      | Some u \<Rightarrow>
          (case so_Compact ops ctx s of
             None \<Rightarrow> None
           | Some (Some e, s1) \<Rightarrow> Some (server_mapError (Some e), s1)
           | Some (None, s1) \<Rightarrow> Some (None, s1)))"

section \<open>Errors on the client's side\<close>

abbreviation notLeaderMessagePrefix :: string where
  "notLeaderMessagePrefix \<equiv> ''raft node is not leader''"

text \<open>\<open>strings.Index\<close> and \<open>strings.IndexByte\<close>; \<open>None\<close> for \<open>-1\<close>.\<close>

fun string_Index :: "string \<Rightarrow> string \<Rightarrow> nat option" where
  "string_Index [] marker = (if marker = [] then Some 0 else None)"
| "string_Index (c # s) marker =
     (if prefix marker (c # s) then Some 0 else map_option Suc (string_Index s marker))"

fun IndexByte :: "string \<Rightarrow> char \<Rightarrow> nat option" where
  "IndexByte [] b = None"
| "IndexByte (c # s) b = (if c = b then Some 0 else map_option Suc (IndexByte s b))"

definition parseQuotedValue :: "string \<Rightarrow> string \<Rightarrow> string" where
  "parseQuotedValue message marker =
     (case string_Index message marker of
        None \<Rightarrow> ''''
      | Some start \<Rightarrow>
          (let valueStart = start + length marker
           in if valueStart \<ge> length message \<or> message ! valueStart \<noteq> quotation then ''''
              else
                (let valueStart1 = valueStart + 1
                 in case IndexByte (drop valueStart1 message) quotation of
                      None \<Rightarrow> ''''
                    | Some valueEnd \<Rightarrow> take valueEnd (drop valueStart1 message))))"

definition parseLeaderHint :: "string \<Rightarrow> string \<times> string" where
  "parseLeaderHint message = (parseQuotedValue message ''leader id='', parseQuotedValue message ''addr='')"

definition client_mapError :: "err \<Rightarrow> err" where
  "client_mapError err =
     (case err of
        StatusError code message \<Rightarrow>
          if code \<noteq> Unavailable then err
          else if \<not> prefix notLeaderMessagePrefix message then err
          else (case parseLeaderHint message of (leaderID, leaderAddr) \<Rightarrow> ClientNotLeaderError leaderID leaderAddr)
      | _ \<Rightarrow> err)"

definition IsNotLeader :: "err \<Rightarrow> bool" where
  "IsNotLeader err \<longleftrightarrow> errors_Is err ClientErrNotLeader"

text \<open>\<open>errors.As\<close> follows \<open>Unwrap\<close>.\<close>

fun LeaderHint :: "err \<Rightarrow> (string \<times> string) option" where
  "LeaderHint err =
     (case err of
        ClientNotLeaderError i a \<Rightarrow> Some (i, a)
      | Wrapped s e \<Rightarrow> LeaderHint e
      | _ \<Rightarrow> None)"

declare LeaderHint.simps [simp del]

lemma LeaderHint_ClientNotLeader [simp]: "LeaderHint (ClientNotLeaderError i a) = Some (i, a)"
  by (simp add: LeaderHint.simps)

lemma IsNotLeader_ClientNotLeader [simp]: "IsNotLeader (ClientNotLeaderError i a)"
  by (simp add: IsNotLeader_def errors_Is.simps)

section \<open>The client's calls\<close>

text \<open>
  The generated stub on a connection \<open>'c\<close>: every call gives an error or a response and changes the
  environment \<open>'e\<close>.
\<close>

record ('c, 'e) KVServiceClient =
  stub_Put :: "'c \<Rightarrow> Context \<Rightarrow> bytes \<Rightarrow> bytes \<Rightarrow> 'e \<Rightarrow> err option \<times> 'e"
  stub_Get :: "'c \<Rightarrow> Context \<Rightarrow> bytes \<Rightarrow> 'e \<Rightarrow> (err + bytes option) \<times> 'e"
  stub_Delete :: "'c \<Rightarrow> Context \<Rightarrow> bytes \<Rightarrow> 'e \<Rightarrow> err option \<times> 'e"
  stub_Flush :: "'c \<Rightarrow> Context \<Rightarrow> 'e \<Rightarrow> err option \<times> 'e"
  stub_Compact :: "'c \<Rightarrow> Context \<Rightarrow> 'e \<Rightarrow> err option \<times> 'e"

definition ClientPut ::
  "('c, 'e) KVServiceClient \<Rightarrow> 'c \<Rightarrow> Context \<Rightarrow> bytes \<Rightarrow> bytes \<Rightarrow> 'e \<Rightarrow> err option \<times> 'e" where
  "ClientPut stub c ctx key value e =
     (case stub_Put stub c ctx key value e of (r, e1) \<Rightarrow> (map_option client_mapError r, e1))"

definition ClientGet ::
  "('c, 'e) KVServiceClient \<Rightarrow> 'c \<Rightarrow> Context \<Rightarrow> bytes \<Rightarrow> 'e \<Rightarrow> (err + bytes option) \<times> 'e" where
  "ClientGet stub c ctx key e =
     (case stub_Get stub c ctx key e of
        (Inl err, e1) \<Rightarrow> (Inl (client_mapError err), e1)
      | (Inr value, e1) \<Rightarrow> (Inr value, e1))"

definition ClientDelete ::
  "('c, 'e) KVServiceClient \<Rightarrow> 'c \<Rightarrow> Context \<Rightarrow> bytes \<Rightarrow> 'e \<Rightarrow> err option \<times> 'e" where
  "ClientDelete stub c ctx key e =
     (case stub_Delete stub c ctx key e of (r, e1) \<Rightarrow> (map_option client_mapError r, e1))"

definition ClientFlush :: "('c, 'e) KVServiceClient \<Rightarrow> 'c \<Rightarrow> Context \<Rightarrow> 'e \<Rightarrow> err option \<times> 'e" where
  "ClientFlush stub c ctx e = (case stub_Flush stub c ctx e of (r, e1) \<Rightarrow> (map_option client_mapError r, e1))"

definition ClientCompact :: "('c, 'e) KVServiceClient \<Rightarrow> 'c \<Rightarrow> Context \<Rightarrow> 'e \<Rightarrow> err option \<times> 'e" where
  "ClientCompact stub c ctx e =
     (case stub_Compact stub c ctx e of (r, e1) \<Rightarrow> (map_option client_mapError r, e1))"

section \<open>Reading the hint\<close>

lemma prefix_before:
  assumes "b \<notin> set m"
  shows "prefix m (x @ b # y) \<longleftrightarrow> prefix m x"
proof
  assume "prefix m (x @ b # y)"
  then consider "prefix m x" | us where "m = x @ us" "prefix us (b # y)" by (auto simp: prefix_append)
  then show "prefix m x"
  proof cases
    case 2
    then show ?thesis using assms by (cases us) auto
  qed
qed simp

lemma string_Index_skip:
  assumes "b \<notin> set marker" and "string_Index x marker = None"
  shows "string_Index (x @ b # y) marker = map_option (\<lambda>n. Suc (n + length x)) (string_Index y marker)"
  using assms(2)
proof (induction x)
  case Nil
  then have "marker \<noteq> []" by (auto split: if_splits)
  then have "\<not> prefix marker (b # y)" using assms(1) by (cases marker) auto
  then show ?case by (simp add: option.map_comp comp_def)
next
  case (Cons c x)
  then have "\<not> prefix marker (c # x)" and n: "string_Index x marker = None" by (auto split: if_splits)
  then have "\<not> prefix marker (c # x @ b # y)" using prefix_before [OF assms(1), of "c # x" y] by simp
  then show ?case using Cons.IH [OF n] by (simp add: option.map_comp comp_def)
qed

lemma IndexByte_end: "b \<notin> set s \<Longrightarrow> IndexByte (s @ b # y) b = Some (length s)"
  by (induction s) auto

lemma parseQuotedValue_found:
  assumes "string_Index message marker = Some (length pre)"
    and "message = pre @ marker @ quotation # s @ quotation # post" and "quotation \<notin> set s"
  shows "parseQuotedValue message marker = s"
proof -
  have "drop (Suc (length pre + length marker)) message = s @ quotation # post"
    "message ! (length pre + length marker) = quotation" "length pre + length marker < length message"
    using assms(2) by (simp_all add: nth_append drop_append)
  then show ?thesis using assms(1,3) IndexByte_end
    by (simp add: parseQuotedValue_def Let_def del: append_assoc)
qed

lemma not_leader_hint:
  assumes i: "plain_text i" and a: "plain_text a" and "string_Index i ''addr='' = None"
    and some: "i \<noteq> [] \<or> a \<noteq> []"
  shows "parseLeaderHint (not_leader_string i a) = (i, a)"
proof -
  let ?m = "not_leader_string i a"
  let ?p = "''raft node is not leader: ''"
  let ?q = "''raft node is not leader: leader id='' @ quotation # i @ quotation # '' ''"
  have q: "quotation \<notin> set i" "quotation \<notin> set a"
    using i a by (simp_all add: plain_text_def)
  have m1: "?m = ?p @ ''leader id='' @ quotation # i @ quotation # '' addr='' @ quotation # a @ [quotation]"
    using some i a by (simp add: not_leader_string_def plain_text_def)
  have m2: "?m = ?q @ ''addr='' @ quotation # a @ quotation # []" using m1 by simp
  have "string_Index ?m ''leader id='' = Some (length ?p)"
    unfolding m1 by simp
  then have 1: "parseQuotedValue ?m ''leader id='' = i"
    using parseQuotedValue_found [of ?m "''leader id=''" ?p i] m1 q(1) by simp
  have "string_Index (i @ quotation # '' addr='' @ quotation # a @ [quotation]) ''addr='' = Some (length i + 2)"
    using string_Index_skip [OF _ assms(3), of quotation] by simp
  then have "string_Index ?m ''addr='' = Some (length ?q)"
    unfolding m1 by simp
  then have 2: "parseQuotedValue ?m ''addr='' = a"
    using parseQuotedValue_found [of ?m "''addr=''" ?q a "[]"] m2 q(2) by blast
  show ?thesis using 1 2 by (simp add: parseLeaderHint_def)
qed

lemma leader_hint_exact:
  assumes "plain_text i" and "plain_text a" and "string_Index i ''addr='' = None"
  shows "map_option client_mapError (server_mapError (Some (NotLeaderError i a))) = Some (ClientNotLeaderError i a)"
proof -
  have "parseLeaderHint (not_leader_string i a) = (i, a)"
  proof (cases "i = [] \<and> a = []")
    case True
    then show ?thesis by (simp add: not_leader_string_def parseLeaderHint_def parseQuotedValue_def)
  qed (use not_leader_hint [OF assms] in blast)
  moreover have "prefix notLeaderMessagePrefix (not_leader_string i a)"
    by (simp add: not_leader_string_def)
  ultimately show ?thesis
    by (simp add: server_mapError_def client_mapError_def errors_Is.simps)
qed

section \<open>Properties\<close>

text \<open>
  C23: The leader's identity survives the call.  When the store of a server refuses a request because
  another node leads, the server answers \<open>Unavailable\<close>, and the client gets back the leader's id and
  address exactly, as long as both are text that \<open>%q\<close> copies, such as printable ASCII without quotes
  and backslashes, and the id does not contain \<open>addr=\<close>.  Every other error arrives as a status whose
  code tells an empty key and a closed database from the rest.
\<close>

theorem leader_hint_roundtrip:
  assumes "plain_text i" and "plain_text a" and "string_Index i ''addr='' = None"
  shows "map_option client_mapError (server_mapError (Some (NotLeaderError i a))) = Some (ClientNotLeaderError i a)
    \<and> (\<forall>e. errors_Is e ErrNotLeader \<and> \<not> errors_Is e ErrEmptyKey \<and> \<not> errors_Is e ErrDbClosed
      \<or> map_option client_mapError (server_mapError (Some e))
        = Some (StatusError (if errors_Is e ErrEmptyKey then InvalidArgument
            else if errors_Is e ErrDbClosed then FailedPrecondition else Internal) (error_string e)))"
  using leader_hint_exact [OF assms] by (auto simp: server_mapError_def client_mapError_def)

theorem leader_hint_roundtrip_witness:
  "map_option client_mapError (server_mapError (Some (NotLeaderError ''n2'' ''127.0.0.1:10002'')))
    = Some (ClientNotLeaderError ''n2'' ''127.0.0.1:10002'')"
proof -
  have "plain_text ''n2''" "plain_text ''127.0.0.1:10002''" by (simp_all add: plain_chars plain_char_def)
  from leader_hint_roundtrip [OF this] show ?thesis by simp
qed

text \<open>With a quote in its id the leader is reported under another name.\<close>

lemma leader_hint_garbled:
  "map_option client_mapError (server_mapError (Some (NotLeaderError [CHR ''a'', quotation, CHR ''b''] '':1'')))
    = Some (ClientNotLeaderError [CHR ''a'', backslash] '':1'')"
  by (simp add: server_mapError_def client_mapError_def errors_Is.simps not_leader_string_def quote_def
      DecodeRune_ascii RuneError_def quote_rune_def IsPrint_def parseLeaderHint_def parseQuotedValue_def)

end
