(* ===== verification/KV_Client.thy ===== *)
theory KV_Client
  imports KV_Cluster KV_Rpc
begin

text \<open>
  The routed client (\<open>internal/client/routed_client.go\<close>): it routes a key to a group, remembers a
  leader for each group and one connection for each node, and tries the group's replicas until one
  answers.  Connections \<open>'c\<close> and the environment \<open>'e\<close> are parameters, with the dialer, the close of a
  connection and the generated stub.  The client is modelled for one goroutine.
\<close>

section \<open>The client\<close>

record 'c RoutedClient =
  rcl_router :: "Router option"
  rcl_nodes :: "(string \<times> Node) list"
  rcl_groups :: "(GroupID \<times> string list) list"
  rcl_raftAddrNode :: "(GroupID \<times> (string \<times> string) list) list"
  rcl_clients :: "(string \<times> 'c) list"
  rcl_leaders :: "(GroupID \<times> string) list"

text \<open>Reading a map entry that is not there gives the zero value.\<close>

definition entry_or :: "'v \<Rightarrow> ('k \<times> 'v) list \<Rightarrow> 'k \<Rightarrow> 'v" where
  "entry_or z al k = (case map_of al k of Some v \<Rightarrow> v | None \<Rightarrow> z)"

text \<open>\<open>hasDial\<close>: the dialer is not nil.\<close>

definition newRoutedClient :: "Context \<Rightarrow> Config \<Rightarrow> bool \<Rightarrow> err + 'c RoutedClient" where
  "newRoutedClient ctx config hasDial =
     (case ctx_Err ctx 0 of
        Some e \<Rightarrow> Inl e
      | None \<Rightarrow>
          if \<not> hasDial then Inl (Errorf ''routed client dialer is nil'')
          else
            (case Validate config of
               Some e \<Rightarrow> Inl e
             | None \<Rightarrow>
                 (case ConfigNewRouter config of
                    Inl e \<Rightarrow> Inl e
                  | Inr router \<Rightarrow>
                      Inr \<lparr>rcl_router = Some router,
                        rcl_nodes = fold (\<lambda>node. AList.update (nd_ID node) node) (cc_Nodes config) [],
                        rcl_groups = fold (\<lambda>grp. AList.update (gp_ID grp) (map gr_NodeID (gp_Replicas grp)))
                          (cc_Groups config) [],
                        rcl_raftAddrNode = fold (\<lambda>grp. AList.update (gp_ID grp)
                            (fold (\<lambda>replica. AList.update (gr_RaftAddr replica) (gr_NodeID replica)) (gp_Replicas grp) []))
                          (cc_Groups config) [],
                        rcl_clients = [], rcl_leaders = []\<rparr>)))"

definition LoadRoutedClient ::
  "(string \<Rightarrow> err + bytes) \<Rightarrow> (bytes \<Rightarrow> err + Config) \<Rightarrow> Context \<Rightarrow> string \<Rightarrow> err + 'c RoutedClient" where
  "LoadRoutedClient readFile unmarshal ctx clusterPath =
     (case Load readFile unmarshal clusterPath of
        Inl e \<Rightarrow> Inl e
      | Inr config \<Rightarrow> newRoutedClient ctx config True)"

section \<open>Choosing a node\<close>

definition pickNode :: "GroupID \<Rightarrow> string list \<Rightarrow> nat \<Rightarrow> 'c RoutedClient \<Rightarrow> string" where
  "pickNode groupID replicas attempt c =
     (let leader = entry_or '''' (rcl_leaders c) groupID
      in if attempt = 0 \<and> leader \<noteq> '''' then leader else replicas ! (attempt mod length replicas))"

definition setLeader :: "GroupID \<Rightarrow> string \<Rightarrow> 'c RoutedClient \<Rightarrow> 'c RoutedClient" where
  "setLeader groupID nodeID c = c\<lparr>rcl_leaders := AList.update groupID nodeID (rcl_leaders c)\<rparr>"

definition clearLeader :: "GroupID \<Rightarrow> string \<Rightarrow> 'c RoutedClient \<Rightarrow> 'c RoutedClient" where
  "clearLeader groupID nodeID c =
     (if entry_or '''' (rcl_leaders c) groupID = nodeID
      then c\<lparr>rcl_leaders := AList.delete groupID (rcl_leaders c)\<rparr> else c)"

definition updateLeaderFromHint :: "GroupID \<Rightarrow> err \<Rightarrow> 'c RoutedClient \<Rightarrow> bool \<times> 'c RoutedClient" where
  "updateLeaderFromHint groupID err c =
     (case LeaderHint err of
        None \<Rightarrow> (False, c)
      | Some (leaderID, leaderAddr) \<Rightarrow>
          let nodeID = (if leaderID = '''' \<and> leaderAddr \<noteq> ''''
                then entry_or '''' (entry_or [] (rcl_raftAddrNode c) groupID) leaderAddr else leaderID)
          in if nodeID = '''' then (False, c)
             else if map_of (rcl_nodes c) nodeID = None then (False, c)
             else (True, setLeader groupID nodeID c))"

definition clientForNode ::
  "(Context \<Rightarrow> string \<Rightarrow> 'e \<Rightarrow> (err + 'c) \<times> 'e) \<Rightarrow> ('c \<Rightarrow> 'e \<Rightarrow> err option \<times> 'e) \<Rightarrow> Context \<Rightarrow> string
    \<Rightarrow> 'c RoutedClient \<Rightarrow> 'e \<Rightarrow> (err + 'c) \<times> 'c RoutedClient \<times> 'e" where
  "clientForNode dial close ctx nodeID c e =
     (case map_of (rcl_clients c) nodeID of
        Some client \<Rightarrow> (Inr client, c, e)
      | None \<Rightarrow>
          (case map_of (rcl_nodes c) nodeID of
             None \<Rightarrow> (Inl (Errorf (''cluster node '' @ quote nodeID @ '' not found'')), c, e)
           | Some node \<Rightarrow>
               (case dial ctx (nd_ClientAddr node) e of
                  (Inl err, e1) \<Rightarrow> (Inl err, c, e1)
                | (Inr client, e1) \<Rightarrow>
                    (case map_of (rcl_clients c) nodeID of
                       Some existing \<Rightarrow> (case close client e1 of (ign, e2) \<Rightarrow> (Inr existing, c, e2))
                     | None \<Rightarrow> (Inr client, c\<lparr>rcl_clients := AList.update nodeID client (rcl_clients c)\<rparr>, e1)))))"

section \<open>The attempts\<close>

text \<open>The loop over the attempts that are left; \<open>lastErr\<close> is the error of the last one.\<close>

fun group_attempts ::
  "(Context \<Rightarrow> string \<Rightarrow> 'e \<Rightarrow> (err + 'c) \<times> 'e) \<Rightarrow> ('c \<Rightarrow> 'e \<Rightarrow> err option \<times> 'e) \<Rightarrow> Context \<Rightarrow> GroupID
    \<Rightarrow> string list \<Rightarrow> ('c \<Rightarrow> 'e \<Rightarrow> err option \<times> 'e) \<Rightarrow> nat list \<Rightarrow> err option \<Rightarrow> 'c RoutedClient \<Rightarrow> 'e
    \<Rightarrow> err option \<times> 'c RoutedClient \<times> 'e" where
  "group_attempts dial close ctx groupID replicas fn [] lastErr c e =
     (case lastErr of
        Some err \<Rightarrow> (Some err, c, e)
      | None \<Rightarrow> (Some (Errorf (''no client attempt made for group '' @ quote groupID)), c, e))"
| "group_attempts dial close ctx groupID replicas fn (attempt # rest) lastErr c e =
     (let nodeID = pickNode groupID replicas attempt c
      in case clientForNode dial close ctx nodeID c e of
           (Inl err, c1, e1) \<Rightarrow>
             group_attempts dial close ctx groupID replicas fn rest (Some err) (clearLeader groupID nodeID c1) e1
         | (Inr client, c1, e1) \<Rightarrow>
             (case fn client e1 of
                (None, e2) \<Rightarrow> (None, setLeader groupID nodeID c1, e2)
              | (Some err, e2) \<Rightarrow>
                  if IsNotLeader err then
                    (case updateLeaderFromHint groupID err c1 of
                       (True, c2) \<Rightarrow> group_attempts dial close ctx groupID replicas fn rest (Some err) c2 e2
                     | (False, c2) \<Rightarrow>
                         group_attempts dial close ctx groupID replicas fn rest (Some err)
                           (clearLeader groupID nodeID c2) e2)
                  else (Some err, c1, e2)))"

definition withGroupClient ::
  "(Context \<Rightarrow> string \<Rightarrow> 'e \<Rightarrow> (err + 'c) \<times> 'e) \<Rightarrow> ('c \<Rightarrow> 'e \<Rightarrow> err option \<times> 'e) \<Rightarrow> Context \<Rightarrow> GroupID
    \<Rightarrow> ('c \<Rightarrow> 'e \<Rightarrow> err option \<times> 'e) \<Rightarrow> 'c RoutedClient \<Rightarrow> 'e \<Rightarrow> err option \<times> 'c RoutedClient \<times> 'e" where
  "withGroupClient dial close ctx groupID fn c e =
     (case ctx_Err ctx 0 of
        Some err \<Rightarrow> (Some err, c, e)
      | None \<Rightarrow>
          (let replicas = entry_or [] (rcl_groups c) groupID
           in if length replicas = 0
              then (Some (Errorf (''cluster group '' @ quote groupID @ '' has no client replicas'')), c, e)
              else group_attempts dial close ctx groupID replicas fn [0..<length replicas + 1] None c e))"

text \<open>The receiver can be nil.\<close>

definition withKeyClient ::
  "(Context \<Rightarrow> string \<Rightarrow> 'e \<Rightarrow> (err + 'c) \<times> 'e) \<Rightarrow> ('c \<Rightarrow> 'e \<Rightarrow> err option \<times> 'e) \<Rightarrow> Context \<Rightarrow> bytes
    \<Rightarrow> ('c \<Rightarrow> 'e \<Rightarrow> err option \<times> 'e) \<Rightarrow> 'c RoutedClient option \<Rightarrow> 'e
    \<Rightarrow> err option \<times> 'c RoutedClient option \<times> 'e" where
  "withKeyClient dial close ctx key fn rc e =
     (case rc of
        None \<Rightarrow> (Some (Errorf ''routed client is nil''), rc, e)
      | Some c \<Rightarrow>
          (case RouteKey (rcl_router c) key of
             Inl err \<Rightarrow> (Some err, rc, e)
           | Inr route \<Rightarrow>
               (case withGroupClient dial close ctx (sr_GroupID route) fn c e of
                  (r, c1, e1) \<Rightarrow> (r, Some c1, e1))))"

section \<open>The client's operations\<close>

definition RoutedPut where
  "RoutedPut dial close stub ctx key value rc e =
     withKeyClient dial close ctx key (\<lambda>client. ClientPut stub client ctx key value) rc e"

definition RoutedDelete where
  "RoutedDelete dial close stub ctx key rc e =
     withKeyClient dial close ctx key (\<lambda>client. ClientDelete stub client ctx key) rc e"

text \<open>The variable \<open>value\<close> that the closure of \<open>Get\<close> assigns goes along with the environment.\<close>

definition RoutedGet ::
  "(Context \<Rightarrow> string \<Rightarrow> 'e \<Rightarrow> (err + 'c) \<times> 'e) \<Rightarrow> ('c \<Rightarrow> 'e \<Rightarrow> err option \<times> 'e) \<Rightarrow> ('c, 'e) KVServiceClient
    \<Rightarrow> Context \<Rightarrow> bytes \<Rightarrow> 'c RoutedClient option \<Rightarrow> 'e \<Rightarrow> (err + bytes option) \<times> 'c RoutedClient option \<times> 'e" where
  "RoutedGet dial close stub ctx key rc e =
     (case withKeyClient
             (\<lambda>ctx target (e, value). case dial ctx target e of (r, e1) \<Rightarrow> (r, e1, value))
             (\<lambda>client (e, value). case close client e of (r, e1) \<Rightarrow> (r, e1, value))
             ctx key
             (\<lambda>client (e, value). case ClientGet stub client ctx key e of
                (Inl err, e1) \<Rightarrow> (Some err, e1, value)
              | (Inr got, e1) \<Rightarrow> (None, e1, got))
             rc (e, None) of
        (Some err, rc1, e1, value) \<Rightarrow> (Inl err, rc1, e1)
      | (None, rc1, e1, value) \<Rightarrow> (Inr value, rc1, e1))"

definition FlushGroup where
  "FlushGroup dial close stub ctx groupID c e =
     withGroupClient dial close ctx groupID (\<lambda>client. ClientFlush stub client ctx) c e"

definition CompactGroup where
  "CompactGroup dial close stub ctx groupID c e =
     withGroupClient dial close ctx groupID (\<lambda>client. ClientCompact stub client ctx) c e"

text \<open>The loops of \<open>Flush\<close> and \<open>Compact\<close> over the groups.\<close>

fun each_group ::
  "(GroupID \<Rightarrow> 'c RoutedClient \<Rightarrow> 'e \<Rightarrow> err option \<times> 'c RoutedClient \<times> 'e) \<Rightarrow> GroupID list
    \<Rightarrow> 'c RoutedClient \<Rightarrow> 'e \<Rightarrow> err option \<times> 'c RoutedClient \<times> 'e" where
  "each_group f [] c e = (None, c, e)"
| "each_group f (g # gs) c e =
     (case f g c e of
        (Some err, c1, e1) \<Rightarrow> (Some err, c1, e1)
      | (None, c1, e1) \<Rightarrow> each_group f gs c1 e1)"

definition RoutedFlush where
  "RoutedFlush dial close stub ctx c e =
     each_group (FlushGroup dial close stub ctx) (map fst (rcl_groups c)) c e"

definition RoutedCompact where
  "RoutedCompact dial close stub ctx c e =
     each_group (CompactGroup dial close stub ctx) (map fst (rcl_groups c)) c e"

fun close_clients ::
  "('c \<Rightarrow> 'e \<Rightarrow> err option \<times> 'e) \<Rightarrow> (string \<times> 'c) list \<Rightarrow> err option \<Rightarrow> 'e \<Rightarrow> err option \<times> 'e" where
  "close_clients close [] closeErr e = (closeErr, e)"
| "close_clients close ((nodeID, client) # rest) closeErr e =
     (case close client e of
        (r, e1) \<Rightarrow>
          close_clients close rest
            (case r of
               Some err \<Rightarrow> if closeErr = None then Some (Wrapped (''close client for node '' @ quote nodeID) err) else closeErr
             | None \<Rightarrow> closeErr) e1)"

definition RoutedClose ::
  "('c \<Rightarrow> 'e \<Rightarrow> err option \<times> 'e) \<Rightarrow> 'c RoutedClient option \<Rightarrow> 'e \<Rightarrow> err option \<times> 'c RoutedClient option \<times> 'e" where
  "RoutedClose close rc e =
     (case rc of
        None \<Rightarrow> (None, rc, e)
      | Some c \<Rightarrow>
          (case close_clients close (rcl_clients c) None e of
             (r, e1) \<Rightarrow> (r, Some (c\<lparr>rcl_clients := []\<rparr>), e1)))"

section \<open>Finding the leader\<close>

text \<open>
  \<open>conn target client\<close>: the connection leads to the process that serves the address.  During a call
  the process at \<open>addr\<close> leads: it can be dialled and answers the call, and every other process that
  can be reached refuses it with a hint or without one.  A process may be unreachable.
\<close>

definition led_from ::
  "(string \<Rightarrow> 'c \<Rightarrow> bool) \<Rightarrow> (Context \<Rightarrow> string \<Rightarrow> 'e \<Rightarrow> (err + 'c) \<times> 'e) \<Rightarrow> Context
    \<Rightarrow> ('c \<Rightarrow> 'e \<Rightarrow> err option \<times> 'e) \<Rightarrow> string \<Rightarrow> bool" where
  "led_from conn dial ctx fn addr \<longleftrightarrow>
     (\<forall>t e client e1. dial ctx t e = (Inr client, e1) \<longrightarrow> conn t client)
     \<and> (\<forall>e. \<exists>client e1. dial ctx addr e = (Inr client, e1))
     \<and> (\<forall>t client e. conn t client \<longrightarrow>
          (if t = addr then fst (fn client e) = None else \<exists>i a. fst (fn client e) = Some (ClientNotLeaderError i a)))"

definition clients_ok :: "(string \<Rightarrow> 'c \<Rightarrow> bool) \<Rightarrow> 'c RoutedClient \<Rightarrow> bool" where
  "clients_ok conn c \<longleftrightarrow> (\<forall>n client. map_of (rcl_clients c) n = Some client \<longrightarrow>
     (\<exists>node. map_of (rcl_nodes c) n = Some node \<and> conn (nd_ClientAddr node) client))"

text \<open>What calls leave unchanged.\<close>

definition same_cluster :: "'c RoutedClient \<Rightarrow> 'c RoutedClient \<Rightarrow> bool" where
  "same_cluster c c' \<longleftrightarrow> rcl_router c' = rcl_router c \<and> rcl_nodes c' = rcl_nodes c \<and> rcl_groups c' = rcl_groups c
     \<and> rcl_raftAddrNode c' = rcl_raftAddrNode c"

lemma same_cluster_refl [simp]: "same_cluster c c"
  by (simp add: same_cluster_def)

lemma same_cluster_trans: "same_cluster c c' \<Longrightarrow> same_cluster c' c'' \<Longrightarrow> same_cluster c c''"
  by (simp add: same_cluster_def)

lemma leader_updates [simp]:
  "clients_ok conn (setLeader g n c) = clients_ok conn c" "same_cluster c (setLeader g n c)"
  "clients_ok conn (clearLeader g n c) = clients_ok conn c" "same_cluster c (clearLeader g n c)"
  by (simp_all add: clients_ok_def same_cluster_def setLeader_def clearLeader_def)

lemma setLeader_sets [simp]:
  "map_of (rcl_leaders (setLeader g n c)) g = Some n" "rcl_nodes (setLeader g n c) = rcl_nodes c"
  by (simp_all add: setLeader_def)

lemma updateLeaderFromHint_same:
  "updateLeaderFromHint g err c = (b, c') \<Longrightarrow> clients_ok conn c' = clients_ok conn c \<and> same_cluster c c'"
  by (auto simp: updateLeaderFromHint_def Let_def split: option.splits if_splits prod.splits)

lemma clientForNode_ok:
  assumes "clientForNode dial close ctx n c e = (r, c1, e1)" and "clients_ok conn c"
    and dial: "\<forall>t e client e1. dial ctx t e = (Inr client, e1) \<longrightarrow> conn t client"
  shows "clients_ok conn c1 \<and> same_cluster c c1 \<and> rcl_leaders c1 = rcl_leaders c
    \<and> (\<forall>client. r = Inr client \<longrightarrow> (\<exists>node. map_of (rcl_nodes c) n = Some node \<and> conn (nd_ClientAddr node) client))"
  using assms(1,2)
  by (auto simp: clientForNode_def clients_ok_def same_cluster_def dial
      split: option.splits sum.splits prod.splits if_splits)

lemma clientForNode_reachable:
  assumes "map_of (rcl_nodes c) n = Some node" and "\<exists>client e1. dial ctx (nd_ClientAddr node) e = (Inr client, e1)"
  shows "\<exists>client c1 e1. clientForNode dial close ctx n c e = (Inr client, c1, e1)"
  using assms by (auto simp: clientForNode_def split: option.splits)

text \<open>One attempt of the loop ends well or goes on with the rest.\<close>

lemma group_attempts_finds:
  assumes led: "led_from conn dial ctx fn (nd_ClientAddr node)"
    and l: "map_of (rcl_nodes c) l = Some node" and ok: "clients_ok conn c"
    and hit: "\<exists>a \<in> set as. a \<noteq> 0 \<and> replicas ! (a mod length replicas) = l"
  shows "\<exists>c' e' n node'. group_attempts dial close ctx g replicas fn as lastErr c e = (None, c', e')
    \<and> clients_ok conn c' \<and> same_cluster c c' \<and> map_of (rcl_leaders c') g = Some n
    \<and> map_of (rcl_nodes c') n = Some node' \<and> nd_ClientAddr node' = nd_ClientAddr node"
  using l ok hit
proof (induction as arbitrary: lastErr c e)
  case (Cons a as)
  let ?n = "pickNode g replicas a c"
  obtain r c1 e1 where cl: "clientForNode dial close ctx ?n c e = (r, c1, e1)" by (metis prod_cases3)
  have dial: "\<forall>t e client e1. dial ctx t e = (Inr client, e1) \<longrightarrow> conn t client"
    using led by (simp add: led_from_def)
  note cl_ok = clientForNode_ok [OF cl Cons.prems(2) dial]
  have l1: "map_of (rcl_nodes c1) l = Some node" using cl_ok Cons.prems(1) by (simp add: same_cluster_def)
  have go: "\<exists>c' e' n node'. group_attempts dial close ctx g replicas fn as le c2 e2 = (None, c', e')
      \<and> clients_ok conn c' \<and> same_cluster c c' \<and> map_of (rcl_leaders c') g = Some n
      \<and> map_of (rcl_nodes c') n = Some node' \<and> nd_ClientAddr node' = nd_ClientAddr node"
    if c2: "clients_ok conn c2" "same_cluster c1 c2" and miss: "?n \<noteq> l" for le c2 e2
  proof -
    have "\<exists>a \<in> set as. a \<noteq> 0 \<and> replicas ! (a mod length replicas) = l"
      using Cons.prems(3) miss by (auto simp: pickNode_def Let_def)
    moreover have "map_of (rcl_nodes c2) l = Some node" using c2(2) l1 by (simp add: same_cluster_def)
    moreover have "same_cluster c c2" using cl_ok c2(2) same_cluster_trans by blast
    ultimately show ?thesis using Cons.IH [of c2 le e2] c2(1) same_cluster_trans by blast
  qed
  show ?case
  proof (cases r)
    case (Inl err)
    have "?n \<noteq> l"
    proof
      assume "?n = l"
      moreover have "\<exists>client e1. dial ctx (nd_ClientAddr node) e = (Inr client, e1)" using led by (simp add: led_from_def)
      ultimately show False using clientForNode_reachable [of c l node dial ctx e close] Cons.prems(1) cl Inl by auto
    qed
    then show ?thesis using go [of "clearLeader g ?n c1" "Some err" e1] cl Inl cl_ok by simp
  next
    case (Inr client)
    then obtain node' where node': "map_of (rcl_nodes c) ?n = Some node'" "conn (nd_ClientAddr node') client"
      using cl_ok by blast
    obtain x e2 where fn: "fn client e1 = (x, e2)" by (cases "fn client e1")
    show ?thesis
    proof (cases "nd_ClientAddr node' = nd_ClientAddr node")
      case True
      then have "x = None" using led node'(2) fn unfolding led_from_def by (metis fst_conv)
      moreover have "map_of (rcl_nodes c1) ?n = Some node'" using cl_ok node'(1) by (simp add: same_cluster_def)
      moreover have "same_cluster c (setLeader g ?n c1)"
        using cl_ok same_cluster_trans [of c c1 "setLeader g ?n c1"] by simp
      ultimately show ?thesis using cl Inr fn True cl_ok by simp
    next
      case False
      then obtain i ad where x: "x = Some (ClientNotLeaderError i ad)"
        using led node'(2) fn unfolding led_from_def by (metis fst_conv)
      obtain b c2 where up: "updateLeaderFromHint g (ClientNotLeaderError i ad) c1 = (b, c2)"
        by (cases "updateLeaderFromHint g (ClientNotLeaderError i ad) c1")
      have miss: "?n \<noteq> l" using False node'(1) Cons.prems(1) by auto
      have c2: "clients_ok conn c2" "same_cluster c1 c2"
        using updateLeaderFromHint_same [OF up, of conn] cl_ok by simp_all
      then have c3: "clients_ok conn (clearLeader g ?n c2)" "same_cluster c1 (clearLeader g ?n c2)"
        using same_cluster_trans [of c1 c2] by simp_all
      show ?thesis using go [OF c2 miss] go [OF c3 miss] cl Inr fn x up by (cases b) (simp_all add: Let_def)
    qed
  qed
qed simp

text \<open>The attempts after the first go once around the replicas.\<close>

lemma attempts_cover:
  assumes "l \<in> set replicas"
  shows "\<exists>a \<in> set [0..<length replicas + 1]. a \<noteq> 0 \<and> replicas ! (a mod length replicas) = l"
proof -
  obtain i where i: "i < length replicas" "replicas ! i = l" using assms by (auto simp: in_set_conv_nth)
  show ?thesis
  proof (cases "i = 0")
    case True
    then show ?thesis using i by (intro bexI [of _ "length replicas"]) auto
  next
    case False
    then show ?thesis using i by (intro bexI [of _ i]) auto
  qed
qed

section \<open>New clients\<close>

lemma fold_update_map:
  "distinct (map f xs) \<Longrightarrow> map_of (fold (\<lambda>x. AList.update (f x) (h x)) xs []) = map_of (map (\<lambda>x. (f x, h x)) xs)"
proof -
  assume d: "distinct (map f xs)"
  have "map_of (fold (\<lambda>x. AList.update (f x) (h x)) xs acc) = map_of acc ++ map_of (rev (map (\<lambda>x. (f x, h x)) xs))" for acc
    by (induction xs arbitrary: acc) (auto simp: map_add_upd_left)
  then show ?thesis using map_of_rev_distinct [of "map (\<lambda>x. (f x, h x)) xs"] d by (simp add: comp_def)
qed

lemma map_of_map_distinct: "distinct (map f xs) \<Longrightarrow> x \<in> set xs \<Longrightarrow> map_of (map (\<lambda>x. (f x, h x)) xs) (f x) = Some (h x)"
  by (rule map_of_is_SomeI) (auto simp: comp_def)

text \<open>A new client knows every group's replicas and every node.\<close>

lemma newRoutedClient_knows:
  assumes new: "newRoutedClient ctx config hasDial = Inr c" and key: "key \<noteq> []"
  shows "\<exists>route grp. RouteKey (rcl_router c) key = Inr route \<and> grp \<in> set (cc_Groups config)
    \<and> gp_ID grp = sr_GroupID route \<and> gp_Replicas grp \<noteq> []
    \<and> entry_or [] (rcl_groups c) (sr_GroupID route) = map gr_NodeID (gp_Replicas grp)
    \<and> (\<forall>replica \<in> set (gp_Replicas grp). \<exists>node. FindNode config (gr_NodeID replica) = Inr node
        \<and> map_of (rcl_nodes c) (gr_NodeID replica) = Some node)"
proof -
  obtain router where val: "Validate config = None" and router: "ConfigNewRouter config = Inr router"
    and c: "rcl_router c = Some router"
      "rcl_nodes c = fold (\<lambda>node. AList.update (nd_ID node) node) (cc_Nodes config) []"
      "rcl_groups c = fold (\<lambda>grp. AList.update (gp_ID grp) (map gr_NodeID (gp_Replicas grp))) (cc_Groups config) []"
    using new by (auto simp: newRoutedClient_def split: option.splits if_splits sum.splits)
  have ok: "cluster_ok config" using val by (simp add: Validate_cluster_ok)
  obtain route grp where rt: "RouteKey (Some router) key = Inr route"
    and g: "grp \<in> set (cc_Groups config)" "gp_ID grp = sr_GroupID route"
    using cluster_ok_serves [OF ok router key] by blast
  have ne: "gp_Replicas grp \<noteq> []" using ok g(1) by (simp add: cluster_ok_def group_ok_def)
  have dn: "distinct (map nd_ID (cc_Nodes config))" and dg: "distinct (map gp_ID (cc_Groups config))"
    using ok by (simp_all add: cluster_ok_def)
  have "map_of (rcl_groups c) (gp_ID grp) = Some (map gr_NodeID (gp_Replicas grp))"
    unfolding c(3) fold_update_map [OF dg] by (rule map_of_map_distinct [OF dg g(1)])
  then have "entry_or [] (rcl_groups c) (sr_GroupID route) = map gr_NodeID (gp_Replicas grp)"
    using g(2) by (simp add: entry_or_def)
  moreover have "map_of (rcl_nodes c) (gr_NodeID replica) = Some node"
    if "FindNode config (gr_NodeID replica) = Inr node" for replica node
    using FindNode_distinct [OF dn] that map_of_map_distinct [OF dn, of node "\<lambda>n. n"]
    unfolding c(2) fold_update_map [OF dn] by simp
  then have "\<exists>node. FindNode config (gr_NodeID replica) = Inr node \<and> map_of (rcl_nodes c) (gr_NodeID replica) = Some node"
    if "replica \<in> set (gp_Replicas grp)" for replica
    using cluster_ok_home(1) [OF ok g(1) that] by blast
  ultimately show ?thesis using rt g ne c(1) by (intro exI [of _ route] exI [of _ grp]) simp
qed

lemma FindGroup_of_new:
  assumes "newRoutedClient ctx config hasDial = Inr c" and "grp \<in> set (cc_Groups config)"
  shows "FindGroup config (gp_ID grp) = Inr grp"
proof -
  have "Validate config = None" using assms(1) by (simp add: newRoutedClient_def split: option.splits if_splits)
  then show ?thesis using FindGroup_distinct assms(2) by (simp add: Validate_cluster_ok cluster_ok_def)
qed

section \<open>Properties\<close>

text \<open>
  C5: The client finds the leader.  Take a client of a valid cluster in any state that its calls can
  leave, with any remembered leaders.  If one replica of the key's group leads, and every other
  process refuses the call with a hint, right or wrong, or cannot be dialled, then the call succeeds
  within one attempt more than there are replicas, and the client remembers a node at the leader's
  address, in a state from which this holds again.
\<close>

theorem routed_client_reaches_leader:
  assumes "newRoutedClient ctx0 config hasDial = Inr c0" and "same_cluster c0 c" and "clients_ok conn c"
    and "key \<noteq> []" and "ctx_Err ctx 0 = None" and "RouteKey (rcl_router c) key = Inr route"
    and "FindGroup config (sr_GroupID route) = Inr grp" and "replica \<in> set (gp_Replicas grp)"
    and "FindNode config (gr_NodeID replica) = Inr node" and "led_from conn dial ctx fn (nd_ClientAddr node)"
  shows "\<exists>c' e' n node'. withKeyClient dial close ctx key fn (Some c) e = (None, Some c', e')
    \<and> same_cluster c0 c' \<and> clients_ok conn c' \<and> map_of (rcl_leaders c') (sr_GroupID route) = Some n
    \<and> map_of (rcl_nodes c') n = Some node' \<and> nd_ClientAddr node' = nd_ClientAddr node"
proof -
  have c: "rcl_router c = rcl_router c0" "rcl_groups c = rcl_groups c0" "rcl_nodes c = rcl_nodes c0"
    using assms(2) by (simp_all add: same_cluster_def)
  obtain route' grp' where k: "RouteKey (rcl_router c0) key = Inr route'" "grp' \<in> set (cc_Groups config)"
    "gp_ID grp' = sr_GroupID route'" "gp_Replicas grp' \<noteq> []"
    "entry_or [] (rcl_groups c0) (sr_GroupID route') = map gr_NodeID (gp_Replicas grp')"
    "\<forall>replica \<in> set (gp_Replicas grp'). \<exists>node. FindNode config (gr_NodeID replica) = Inr node
        \<and> map_of (rcl_nodes c0) (gr_NodeID replica) = Some node"
    using newRoutedClient_knows [OF assms(1,4)] by blast
  have route: "route' = route" using k(1) assms(6) c(1) by simp
  then have grp: "grp' = grp" using FindGroup_of_new [OF assms(1) k(2)] assms(7) k(3) by simp
  let ?replicas = "map gr_NodeID (gp_Replicas grp)"
  have groups: "entry_or [] (rcl_groups c) (sr_GroupID route) = ?replicas" using k(5) route grp c(2) by simp
  have node: "map_of (rcl_nodes c) (gr_NodeID replica) = Some node"
    using k(6) assms(8,9) grp c(3) by fastforce
  have "gr_NodeID replica \<in> set ?replicas" using assms(8) by simp
  from group_attempts_finds [OF assms(10) node assms(3) attempts_cover [OF this]]
  obtain c' e' n node' where run: "group_attempts dial close ctx (sr_GroupID route) ?replicas fn
      [0..<length ?replicas + 1] None c e = (None, c', e')" and ok: "clients_ok conn c'" "same_cluster c c'"
    and l: "map_of (rcl_leaders c') (sr_GroupID route) = Some n" "map_of (rcl_nodes c') n = Some node'"
      "nd_ClientAddr node' = nd_ClientAddr node"
    by blast
  have "withKeyClient dial close ctx key fn (Some c) e = (None, Some c', e')"
    using run assms(5,6) groups k(4) grp by (simp add: withKeyClient_def withGroupClient_def Let_def)
  then show ?thesis using ok l same_cluster_trans [OF assms(2) ok(2)] by blast
qed

theorem routed_client_reaches_leader_witness:
  "\<exists>c c' e' n node. newRoutedClient Background example_cluster True = Inr c
    \<and> withKeyClient (\<lambda>ctx t e. (Inr t, Suc e)) (\<lambda>cl e. (None, e)) Background [107]
        (\<lambda>cl e. (if cl = '':9001'' then None else Some (ClientNotLeaderError [] []), Suc e)) (Some c) 0
      = (None, Some c', e')
    \<and> map_of (rcl_leaders c') ''g1'' = Some n \<and> map_of (rcl_nodes c') n = Some node \<and> nd_ClientAddr node = '':9001''"
proof -
  have val: "Validate example_cluster = None"
    unfolding Validate_cluster_ok by (auto simp: cluster_ok_def group_ok_def replica_ok_def example_cluster_def)
  then obtain router where "ConfigNewRouter example_cluster = Inr router"
    using cluster_ok_router by (auto simp: Validate_cluster_ok)
  then obtain c :: "string RoutedClient" where new: "newRoutedClient Background example_cluster True = Inr c"
    using val by (simp add: newRoutedClient_def Background_def)
  have cl: "clients_ok (=) c" using new by (auto simp: newRoutedClient_def clients_ok_def split: option.splits sum.splits)
  obtain route grp where k: "RouteKey (rcl_router c) [107] = Inr route" "grp \<in> set (cc_Groups example_cluster)"
    "gp_ID grp = sr_GroupID route"
    using newRoutedClient_knows [OF new, of "[107]"] by blast
  let ?r = "\<lparr>gr_NodeID = ''n1'', gr_RaftAddr = '':10001''\<rparr>" and ?node = "\<lparr>nd_ID = ''n1'', nd_ClientAddr = '':9001''\<rparr>"
  have g: "sr_GroupID route = ''g1''" "gp_Replicas grp = [?r]" using k by (auto simp: example_cluster_def)
  have find: "FindGroup example_cluster (sr_GroupID route) = Inr grp" using FindGroup_of_new [OF new k(2)] k(3) by simp
  have r: "?r \<in> set (gp_Replicas grp)" using g(2) by simp
  have node: "FindNode example_cluster (gr_NodeID ?r) = Inr ?node" by (simp add: FindNode_def example_cluster_def)
  let ?dial = "\<lambda>(ctx :: Context) t e. (Inr t :: err + string, Suc e)"
  let ?fn = "\<lambda>cl e. (if cl = '':9001'' then None else Some (ClientNotLeaderError [] []), Suc e)"
  have led: "led_from (=) ?dial Background ?fn (nd_ClientAddr ?node)" by (simp add: led_from_def)
  have ne: "[107] \<noteq> ([] :: bytes)" and live: "ctx_Err Background 0 = None" by (simp_all add: Background_def)
  from routed_client_reaches_leader [OF new same_cluster_refl cl ne live k(1) find r node led, of "\<lambda>cl e. (None, e)" 0]
  show ?thesis using new unfolding g(1) by (elim exE conjE) (intro exI conjI, assumption+, simp)
qed

text \<open>
  C37: A dead leader is not forgotten.  When the remembered leader of a group has a connection and the
  call on it fails with any error but a \<open>NotLeaderError\<close>, for instance because the process is gone,
  the client returns this error without trying another replica and keeps the leader and the
  connection, so that the next call does the same.
\<close>

theorem dead_leader_is_kept:
  assumes "ctx_Err ctx 0 = None" and "entry_or [] (rcl_groups c) g \<noteq> []"
    and "map_of (rcl_leaders c) g = Some n" and "n \<noteq> []" and "map_of (rcl_clients c) n = Some client"
    and "fn client e = (Some err, e1)" and "\<not> IsNotLeader err"
  shows "withGroupClient dial close ctx g fn c e = (Some err, c, e1)"
proof -
  have as: "[0..<length (entry_or [] (rcl_groups c) g) + 1] = 0 # [Suc 0..<length (entry_or [] (rcl_groups c) g) + 1]"
    by (rule upt_conv_Cons) simp
  have "pickNode g (entry_or [] (rcl_groups c) g) 0 c = n"
    using assms(3,4) by (simp add: pickNode_def entry_or_def)
  then show ?thesis using assms as by (simp add: withGroupClient_def Let_def clientForNode_def del: upt_Suc)
qed

theorem dead_leader_is_kept_witness:
  "withGroupClient (\<lambda>ctx t e. (Inr t, e)) (\<lambda>cl e. (None, e)) Background ''g1''
      (\<lambda>cl e. if cl = '':9001'' then (Some (client_mapError (StatusError Unavailable ''connection refused'')), Suc e)
              else (None, Suc e))
      \<lparr>rcl_router = None, rcl_nodes = [], rcl_groups = [(''g1'', [''n1'', ''n2''])], rcl_raftAddrNode = [],
        rcl_clients = [(''n1'', '':9001''), (''n2'', '':9002'')], rcl_leaders = [(''g1'', ''n1'')]\<rparr> 0
    = (Some (StatusError Unavailable ''connection refused''),
       \<lparr>rcl_router = None, rcl_nodes = [], rcl_groups = [(''g1'', [''n1'', ''n2''])], rcl_raftAddrNode = [],
        rcl_clients = [(''n1'', '':9001''), (''n2'', '':9002'')], rcl_leaders = [(''g1'', ''n1'')]\<rparr>, Suc 0)"
  by (rule dead_leader_is_kept [of _ _ _ "''n1''" "'':9001''"])
    (simp_all add: Background_def entry_or_def client_mapError_def IsNotLeader_def errors_Is.simps)

end
