(* ===== verification/KV_Raft.thy ===== *)
theory KV_Raft
  imports KV_RaftConfig KV_Store KV_Snapshot
begin

text \<open>
  The raft package (\<open>internal/raft\<close>): commands (\<open>command.go\<close>), the state machine that applies them to
  the database (\<open>fsm.go\<close>), a node on top of the raft library (\<open>node.go\<close>) and the store that
  clients of a replicated group use (\<open>raft_store.go\<close>).

  The library \<open>hashicorp/raft\<close> is not part of the repository: its calls are parameters.
\<close>

section \<open>Commands\<close>

record Command =
  cmd_Type :: byte
  cmd_Key :: bytes
  cmd_Value :: bytes

definition CommandTypePut :: byte where
  "CommandTypePut = TypePut"

definition CommandTypeDelete :: byte where
  "CommandTypeDelete = TypeDelete"

definition EncodeCommand :: "Command \<Rightarrow> err + bytes" where
  "EncodeCommand cmd =
     Encode \<lparr>rec_Type = cmd_Type cmd, rec_Key = cmd_Key cmd, rec_Value = cmd_Value cmd\<rparr>"

definition DecodeCommand :: "bytes \<Rightarrow> err + Command" where
  "DecodeCommand data =
     (case fst (Decode data) of
        Inl e \<Rightarrow> Inl e
      | Inr decoded \<Rightarrow>
          Inr \<lparr>cmd_Type = rec_Type decoded, cmd_Key = rec_Key decoded, cmd_Value = rec_Value decoded\<rparr>)"

section \<open>The state machine\<close>

definition FsmApply :: "bytes \<Rightarrow> db_state \<Rightarrow> err option \<times> db_state" where
  "FsmApply data s =
     (case s of (db, w) \<Rightarrow>
        (case DecodeCommand data of
           Inl e \<Rightarrow> (Some e, s)
         | Inr cmd \<Rightarrow>
             if cmd_Type cmd = CommandTypePut then DbPut (cmd_Key cmd) (cmd_Value cmd) db w
             else if cmd_Type cmd = CommandTypeDelete then DbDelete (cmd_Key cmd) db w
             else (Some ErrInvalidType, s)))"

definition FsmSnapshot :: "db_state \<Rightarrow> (err + TarEntry list) \<times> db_state" where
  "FsmSnapshot s =
     (case s of (db, w) \<Rightarrow>
        (case CreateSnapshot True db w of
           (Some e, archive, s') \<Rightarrow> (Inl e, s')
         | (None, archive, s') \<Rightarrow> (Inr archive, s')))"

text \<open>\<open>rc.Close\<close> is left to the library: its result is dropped.\<close>

definition FsmRestore :: "TarEntry list \<times> err option \<Rightarrow> db_state \<Rightarrow> err option \<times> db_state" where
  "FsmRestore rc s = (case s of (db, w) \<Rightarrow> RestoreSnapshot (Some rc) db w)"

text \<open>The library's sink: \<open>Write\<close>, \<open>Cancel\<close> and \<open>Close\<close> on its state.\<close>

record ('d, 'k) SnapshotSink =
  sk_Write :: "'d \<Rightarrow> 'k \<Rightarrow> err option \<times> 'k"
  sk_Cancel :: "'k \<Rightarrow> err option \<times> 'k"
  sk_Close :: "'k \<Rightarrow> err option \<times> 'k"

definition Persist :: "('d, 'k) SnapshotSink \<Rightarrow> 'd \<Rightarrow> 'k \<Rightarrow> err option \<times> 'k" where
  "Persist sink data k =
     (case sk_Write sink data k of
        (Some e, k1) \<Rightarrow> (case sk_Cancel sink k1 of (ign, k2) \<Rightarrow> (Some e, k2))
      | (None, k1) \<Rightarrow> sk_Close sink k1)"

section \<open>The node\<close>

datatype raft_state = Follower | Candidate | Leader | Shutdown

text \<open>
  The response of an applied command: nil, an error, or a value of another type, of which the type's
  name matters.
\<close>

datatype response = RespNil | RespErr err | RespOther string

record 's raft_lib =
  lib_State :: "'s \<Rightarrow> raft_state"
  lib_LeaderWithID :: "'s \<Rightarrow> string \<times> string"
  lib_Apply :: "bytes \<Rightarrow> int \<Rightarrow> 's \<Rightarrow> (err option \<times> response) \<times> 's"
  lib_Barrier :: "int \<Rightarrow> 's \<Rightarrow> err option \<times> 's"
  lib_Snapshot :: "'s \<Rightarrow> err option \<times> 's"
  lib_Shutdown :: "'s \<Rightarrow> err option \<times> 's"
  lib_CloseTransport :: "'s \<Rightarrow> err option \<times> 's"
  lib_CloseStore :: "'s \<Rightarrow> err option \<times> 's"

definition NodeIsLeader :: "'s raft_lib \<Rightarrow> 's \<Rightarrow> bool" where
  "NodeIsLeader n s \<longleftrightarrow> lib_State n s = Leader"

definition NodeLeader :: "'s raft_lib \<Rightarrow> 's \<Rightarrow> string \<times> string" where
  "NodeLeader n s = (case lib_LeaderWithID n s of (addr, leaderID) \<Rightarrow> (leaderID, addr))"

definition NodeApply :: "'s raft_lib \<Rightarrow> bytes \<Rightarrow> int \<Rightarrow> 's \<Rightarrow> err option \<times> 's" where
  "NodeApply n data timeout s =
     (case lib_Apply n data timeout s of
        ((Some e, resp), s1) \<Rightarrow> (Some e, s1)
      | ((None, resp), s1) \<Rightarrow>
          (case resp of
             RespNil \<Rightarrow> (None, s1)
           | RespErr e \<Rightarrow> (Some e, s1)
           | RespOther ty \<Rightarrow> (Some (Errorf (''unexpected raft apply response '' @ ty)), s1)))"

definition NodeBarrier :: "'s raft_lib \<Rightarrow> int \<Rightarrow> 's \<Rightarrow> err option \<times> 's" where
  "NodeBarrier n timeout s = lib_Barrier n timeout s"

definition NodeSnapshot :: "'s raft_lib \<Rightarrow> 's \<Rightarrow> err option \<times> 's" where
  "NodeSnapshot n s = lib_Snapshot n s"

definition NodeClose :: "'s raft_lib \<Rightarrow> 's \<Rightarrow> err option \<times> 's" where
  "NodeClose n s =
     (case lib_Shutdown n s of
        (shutdownErr, s1) \<Rightarrow>
          (case lib_CloseTransport n s1 of
             (transportErr, s2) \<Rightarrow>
               (case lib_CloseStore n s2 of
                  (storeErr, s3) \<Rightarrow>
                    if shutdownErr \<noteq> None then (shutdownErr, s3)
                    else if transportErr \<noteq> None then (transportErr, s3)
                    else (storeErr, s3))))"

section \<open>Opening a node\<close>

text \<open>
  \<open>NewNode\<close> makes a fixed sequence of calls to the operating system and the library.  Their results
  are the argument, and the value is the error with the trace of what was opened, closed and started.
\<close>

record node_calls =
  call_MkdirAll :: "err option"
  call_NewBoltStore :: "err option"
  call_NewFileSnapshotStore :: "err option"
  call_ResolveTCPAddr :: "err option"
  call_NewTCPTransport :: "err option"
  call_HasExistingState :: "err + bool"
  call_BootstrapCluster :: "err option"
  call_NewRaft :: "err option"

datatype node_event =
  OpenStore | CloseStore | OpenTransport | CloseTransport | Bootstrap "Server list" | StartRaft "64 word" int

definition NewNode :: "NodeConfig \<Rightarrow> node_calls \<Rightarrow> err option \<times> node_event list" where
  "NewNode config calls =
     (case validateNodeConfig config of
        Some e \<Rightarrow> (Some e, [])
      | None \<Rightarrow>
     (case call_MkdirAll calls of
        Some e \<Rightarrow> (Some e, [])
      | None \<Rightarrow>
     (case call_NewBoltStore calls of
        Some e \<Rightarrow> (Some e, [])
      | None \<Rightarrow>
     (case call_NewFileSnapshotStore calls of
        Some e \<Rightarrow> (Some e, [OpenStore, CloseStore])
      | None \<Rightarrow>
     (case call_ResolveTCPAddr calls of
        Some e \<Rightarrow> (Some e, [OpenStore, CloseStore])
      | None \<Rightarrow>
     (case call_NewTCPTransport calls of
        Some e \<Rightarrow> (Some e, [OpenStore, CloseStore])
      | None \<Rightarrow>
     (let start = (\<lambda>tr. case call_NewRaft calls of
             Some e \<Rightarrow> (Some e, tr @ [CloseTransport, CloseStore])
           | None \<Rightarrow> (None, tr @ [StartRaft (fst (snapshot_settings config)) (snd (snapshot_settings config))]));
          opened = [OpenStore, OpenTransport]
      in if nc_Bootstrap config then
           (case call_HasExistingState calls of
              Inl e \<Rightarrow> (Some e, opened @ [CloseTransport, CloseStore])
            | Inr hasState \<Rightarrow>
                if \<not> hasState then
                  (case call_BootstrapCluster calls of
                     Some e \<Rightarrow> (Some e, opened @ [CloseTransport, CloseStore])
                   | None \<Rightarrow> start (opened @ [Bootstrap (newRaftConfiguration (nc_Peers config))]))
                else start opened)
         else start opened)))))))"

section \<open>The replicated store\<close>

text \<open>The interface \<open>raftNode\<close>.  The state holds the node's and the database's.\<close>

record 's raftNode =
  rn_IsLeader :: "'s \<Rightarrow> bool"
  rn_Leader :: "'s \<Rightarrow> string \<times> string"
  rn_Apply :: "bytes \<Rightarrow> int \<Rightarrow> 's \<Rightarrow> err option \<times> 's"
  rn_Barrier :: "int \<Rightarrow> 's \<Rightarrow> err option \<times> 's"

definition node_methods :: "'s raft_lib \<Rightarrow> 's raftNode" where
  "node_methods n = \<lparr>rn_IsLeader = NodeIsLeader n, rn_Leader = NodeLeader n, rn_Apply = NodeApply n,
     rn_Barrier = NodeBarrier n\<rparr>"

definition defaultApplyTimeout :: int where
  "defaultApplyTimeout = 3 * Second"

definition defaultBarrierTimeout :: int where
  "defaultBarrierTimeout = 3 * Second"

record RaftStoreConfig =
  rsc_ApplyTimeout :: int
  rsc_BarrierTimeout :: int

record 'n RaftStore =
  rs_node :: "('n \<times> db_state) raftNode"
  rs_applyTimeout :: int
  rs_barrierTimeout :: int

definition newRaftStore :: "('n \<times> db_state) raftNode \<Rightarrow> RaftStoreConfig \<Rightarrow> 'n RaftStore" where
  "newRaftStore node config =
     (let applyTimeout = (if rsc_ApplyTimeout config \<le> 0 then defaultApplyTimeout else rsc_ApplyTimeout config);
          barrierTimeout = (if rsc_BarrierTimeout config \<le> 0 then defaultBarrierTimeout else rsc_BarrierTimeout config)
      in \<lparr>rs_node = node, rs_applyTimeout = applyTimeout, rs_barrierTimeout = barrierTimeout\<rparr>)"

definition checkLeader :: "'n RaftStore \<Rightarrow> 'n \<times> db_state \<Rightarrow> err option" where
  "checkLeader rs s =
     (if rn_IsLeader (rs_node rs) s then None
      else (case rn_Leader (rs_node rs) s of
              (leaderID, leaderAddr) \<Rightarrow> Some (NotLeaderError leaderID leaderAddr)))"

text \<open>Called after one call of \<open>Err\<close>.\<close>

definition timeoutFromContext :: "Context \<Rightarrow> int \<Rightarrow> err + int" where
  "timeoutFromContext ctx fallback =
     (case ctx_Err ctx 1 of
        Some e \<Rightarrow> Inl e
      | None \<Rightarrow>
          (case ctx_Deadline ctx of
             None \<Rightarrow> Inr fallback
           | Some deadline \<Rightarrow>
               (let remaining = deadline - ctx_Now ctx 1
                in if remaining \<le> 0 then
                     (case ctx_Err ctx 2 of Some e \<Rightarrow> Inl e | None \<Rightarrow> Inl DeadlineExceeded)
                   else if remaining < fallback then Inr remaining
                   else Inr fallback)))"

definition RaftPut :: "'n RaftStore \<Rightarrow> Context \<Rightarrow> bytes \<Rightarrow> bytes \<Rightarrow> 'n \<times> db_state \<Rightarrow> err option \<times> 'n \<times> db_state" where
  "RaftPut rs ctx key value s =
     (if length key = 0 then (Some ErrEmptyKey, s)
      else
        (case ctx_Err ctx 0 of
           Some e \<Rightarrow> (Some e, s)
         | None \<Rightarrow>
        (case checkLeader rs s of
           Some e \<Rightarrow> (Some e, s)
         | None \<Rightarrow>
        (case EncodeCommand \<lparr>cmd_Type = CommandTypePut, cmd_Key = key, cmd_Value = value\<rparr> of
           Inl e \<Rightarrow> (Some e, s)
         | Inr data \<Rightarrow>
        (case timeoutFromContext ctx (rs_applyTimeout rs) of
           Inl e \<Rightarrow> (Some e, s)
         | Inr timeout \<Rightarrow> rn_Apply (rs_node rs) data timeout s)))))"

definition RaftGet :: "'n RaftStore \<Rightarrow> Context \<Rightarrow> bytes \<Rightarrow> 'n \<times> db_state \<Rightarrow> (err + bytes option) \<times> 'n \<times> db_state" where
  "RaftGet rs ctx key s =
     (if length key = 0 then (Inl ErrEmptyKey, s)
      else
        (case ctx_Err ctx 0 of
           Some e \<Rightarrow> (Inl e, s)
         | None \<Rightarrow>
        (case checkLeader rs s of
           Some e \<Rightarrow> (Inl e, s)
         | None \<Rightarrow>
        (case timeoutFromContext ctx (rs_barrierTimeout rs) of
           Inl e \<Rightarrow> (Inl e, s)
         | Inr timeout \<Rightarrow>
             (case rn_Barrier (rs_node rs) timeout s of
                (Some e, s1) \<Rightarrow> (Inl e, s1)
              | (None, n1, db, w) \<Rightarrow> (case DbGet key db w of (r, w1) \<Rightarrow> (r, n1, db, w1)))))))"

definition RaftDelete :: "'n RaftStore \<Rightarrow> Context \<Rightarrow> bytes \<Rightarrow> 'n \<times> db_state \<Rightarrow> err option \<times> 'n \<times> db_state" where
  "RaftDelete rs ctx key s =
     (if length key = 0 then (Some ErrEmptyKey, s)
      else
        (case ctx_Err ctx 0 of
           Some e \<Rightarrow> (Some e, s)
         | None \<Rightarrow>
        (case checkLeader rs s of
           Some e \<Rightarrow> (Some e, s)
         | None \<Rightarrow>
        (case EncodeCommand \<lparr>cmd_Type = CommandTypeDelete, cmd_Key = key, cmd_Value = []\<rparr> of
           Inl e \<Rightarrow> (Some e, s)
         | Inr data \<Rightarrow>
        (case timeoutFromContext ctx (rs_applyTimeout rs) of
           Inl e \<Rightarrow> (Some e, s)
         | Inr timeout \<Rightarrow> rn_Apply (rs_node rs) data timeout s)))))"

definition RaftFlush :: "'n RaftStore \<Rightarrow> Context \<Rightarrow> 'n \<times> db_state \<Rightarrow> err option \<times> 'n \<times> db_state" where
  "RaftFlush rs ctx s =
     (case ctx_Err ctx 0 of
        Some e \<Rightarrow> (Some e, s)
      | None \<Rightarrow>
     (case checkLeader rs s of
        Some e \<Rightarrow> (Some e, s)
      | None \<Rightarrow> (case s of (n, db, w) \<Rightarrow> (case DbFlush db w of (r, s1) \<Rightarrow> (r, n, s1)))))"

definition RaftCompact :: "'n RaftStore \<Rightarrow> Context \<Rightarrow> 'n \<times> db_state \<Rightarrow> (err option \<times> 'n \<times> db_state) option" where
  "RaftCompact rs ctx s =
     (case ctx_Err ctx 0 of
        Some e \<Rightarrow> Some (Some e, s)
      | None \<Rightarrow>
     (case checkLeader rs s of
        Some e \<Rightarrow> Some (Some e, s)
      | None \<Rightarrow>
          (case s of (n, db, w) \<Rightarrow> map_option (\<lambda>(r, s1). (r, n, s1)) (DbCompact db w))))"

definition raft_ops :: "'n RaftStore \<Rightarrow> ('n \<times> db_state) store_ops" where
  "raft_ops rs = \<lparr>so_Put = RaftPut rs, so_Get = RaftGet rs, so_Delete = RaftDelete rs,
     so_Flush = RaftFlush rs, so_Compact = RaftCompact rs\<rparr>"

end
