(* ===== verification/KV_Shard.thy ===== *)
theory KV_Shard
  imports KV_Store KV_Ring
begin

text \<open>
  The sharded store (\<open>internal/shard/store.go\<close>): a store made of one store per group, with a router
  that picks the group of a key.  The method table of the groups' stores is the parameter \<open>ops\<close>, a
  nil pointer is \<open>None\<close>.  A Go map of stores is an association list; a loop over the map visits it
  in the order of the list, which can be any.  The stores of different groups do not share state.
\<close>

section \<open>The store\<close>

record 's ShardStoreConfig =
  sc_Router :: "Router option"
  sc_Groups :: "(GroupID \<times> 's option) list"

record 's ShardStore =
  ss_router :: "Router option"
  ss_groups :: "(GroupID \<times> 's) list"

fun copy_stores :: "(GroupID \<times> 's option) list \<Rightarrow> (GroupID \<times> 's) list \<Rightarrow> err + (GroupID \<times> 's) list" where
  "copy_stores [] groups = Inr groups"
| "copy_stores ((groupID, store) # rest) groups =
     (if groupID = '''' then Inl ErrEmptyGroupID
      else
        (case store of
           None \<Rightarrow> Inl ErrGroupNotFound
         | Some s \<Rightarrow> copy_stores rest (AList.update groupID s groups)))"

definition NewShardStore :: "'s ShardStoreConfig \<Rightarrow> err + 's ShardStore" where
  "NewShardStore config =
     (if sc_Router config = None then Inl ErrNilRouter
      else if length (sc_Groups config) = 0 then Inl ErrNoShardGroup
      else
        (case copy_stores (sc_Groups config) [] of
           Inl e \<Rightarrow> Inl e
         | Inr groups \<Rightarrow> Inr \<lparr>ss_router = sc_Router config, ss_groups = groups\<rparr>))"

definition ShardRouteKey :: "'s ShardStore option \<Rightarrow> bytes \<Rightarrow> err + 's \<times> ShardRoute" where
  "ShardRouteKey s key =
     (case s of
        None \<Rightarrow> Inl ErrNoShardGroup
      | Some ss \<Rightarrow>
          (case RouteKey (ss_router ss) key of
             Inl e \<Rightarrow> Inl e
           | Inr route \<Rightarrow>
               (case map_of (ss_groups ss) (sr_GroupID route) of
                  None \<Rightarrow> Inl ErrGroupNotFound
                | Some store \<Rightarrow> Inr (store, route))))"

text \<open>The store of a group after a method call.\<close>

definition set_store :: "GroupID \<Rightarrow> 's \<Rightarrow> 's ShardStore option \<Rightarrow> 's ShardStore option" where
  "set_store g store s = map_option (\<lambda>ss. ss\<lparr>ss_groups := AList.update g store (ss_groups ss)\<rparr>) s"

definition ShardPut :: "'s store_ops \<Rightarrow> Context \<Rightarrow> bytes \<Rightarrow> bytes \<Rightarrow> 's ShardStore option
    \<Rightarrow> err option \<times> 's ShardStore option" where
  "ShardPut ops ctx key value s =
     (case ShardRouteKey s key of
        Inl e \<Rightarrow> (Some e, s)
      | Inr (store, route) \<Rightarrow>
          (case so_Put ops ctx key value store of
             (r, store') \<Rightarrow> (r, set_store (sr_GroupID route) store' s)))"

definition ShardGet :: "'s store_ops \<Rightarrow> Context \<Rightarrow> bytes \<Rightarrow> 's ShardStore option
    \<Rightarrow> (err + bytes option) \<times> 's ShardStore option" where
  "ShardGet ops ctx key s =
     (case ShardRouteKey s key of
        Inl e \<Rightarrow> (Inl e, s)
      | Inr (store, route) \<Rightarrow>
          (case so_Get ops ctx key store of
             (r, store') \<Rightarrow> (r, set_store (sr_GroupID route) store' s)))"

definition ShardDelete :: "'s store_ops \<Rightarrow> Context \<Rightarrow> bytes \<Rightarrow> 's ShardStore option
    \<Rightarrow> err option \<times> 's ShardStore option" where
  "ShardDelete ops ctx key s =
     (case ShardRouteKey s key of
        Inl e \<Rightarrow> (Some e, s)
      | Inr (store, route) \<Rightarrow>
          (case so_Delete ops ctx key store of
             (r, store') \<Rightarrow> (r, set_store (sr_GroupID route) store' s)))"

fun flush_groups :: "'s store_ops \<Rightarrow> Context \<Rightarrow> (GroupID \<times> 's) list \<Rightarrow> err option \<times> (GroupID \<times> 's) list" where
  "flush_groups ops ctx [] = (None, [])"
| "flush_groups ops ctx ((g, store) # rest) =
     (case so_Flush ops ctx store of
        (Some e, store') \<Rightarrow> (Some e, (g, store') # rest)
      | (None, store') \<Rightarrow> apsnd (Cons (g, store')) (flush_groups ops (ctx_later ctx) rest))"

definition ShardFlush :: "'s store_ops \<Rightarrow> Context \<Rightarrow> 's ShardStore option
    \<Rightarrow> err option \<times> 's ShardStore option" where
  "ShardFlush ops ctx s =
     (case s of
        None \<Rightarrow> (Some ErrNoShardGroup, s)
      | Some ss \<Rightarrow> apsnd (\<lambda>gs. Some (ss\<lparr>ss_groups := gs\<rparr>)) (flush_groups ops ctx (ss_groups ss)))"

fun compact_groups ::
  "'s store_ops \<Rightarrow> Context \<Rightarrow> (GroupID \<times> 's) list \<Rightarrow> (err option \<times> (GroupID \<times> 's) list) option" where
  "compact_groups ops ctx [] = Some (None, [])"
| "compact_groups ops ctx ((g, store) # rest) =
     (case so_Compact ops ctx store of
        None \<Rightarrow> None
      | Some (Some e, store') \<Rightarrow> Some (Some e, (g, store') # rest)
      | Some (None, store') \<Rightarrow> map_option (apsnd (Cons (g, store'))) (compact_groups ops (ctx_later ctx) rest))"

definition ShardCompact :: "'s store_ops \<Rightarrow> Context \<Rightarrow> 's ShardStore option
    \<Rightarrow> (err option \<times> 's ShardStore option) option" where
  "ShardCompact ops ctx s =
     (case s of
        None \<Rightarrow> Some (Some ErrNoShardGroup, s)
      | Some ss \<Rightarrow>
          map_option (apsnd (\<lambda>gs. Some (ss\<lparr>ss_groups := gs\<rparr>))) (compact_groups ops ctx (ss_groups ss)))"

definition shard_ops :: "'s store_ops \<Rightarrow> 's ShardStore option store_ops" where
  "shard_ops ops = \<lparr>so_Put = ShardPut ops, so_Get = ShardGet ops, so_Delete = ShardDelete ops,
     so_Flush = ShardFlush ops, so_Compact = ShardCompact ops\<rparr>"

section \<open>Construction\<close>

lemma copy_stores_Inr:
  "copy_stores gs acc = Inr gs' \<longleftrightarrow>
     (\<forall>(g, s) \<in> set gs. g \<noteq> [] \<and> s \<noteq> None) \<and> gs' = fold (\<lambda>(g, s). AList.update g (the s)) gs acc"
  by (induction gs acc rule: copy_stores.induct) (auto split: option.splits)

lemma copy_stores_map:
  "map_of (fold (\<lambda>(g, s). AList.update g (the s)) gs acc) = map_of acc ++ (\<lambda>g. map_option the (map_of (rev gs) g))"
proof (induction gs arbitrary: acc)
  case (Cons p gs)
  then show ?case by (cases p) (auto simp: fun_eq_iff map_add_def split: option.splits)
qed (simp add: fun_eq_iff)

lemma copy_stores_distinct:
  "distinct (map fst acc) \<Longrightarrow> distinct (map fst (fold (\<lambda>(g, s). AList.update g (the s)) gs acc))"
  by (induction gs arbitrary: acc) (auto simp: distinct_update)

lemma NewShardStore_Inr:
  assumes "distinct (map fst (sc_Groups config))"
  shows "NewShardStore config = Inr ss \<Longrightarrow> ss_router ss = sc_Router config \<and> sc_Router config \<noteq> None
    \<and> map_of (ss_groups ss) = (\<lambda>g. map_option the (map_of (sc_Groups config) g)) \<and> distinct (map fst (ss_groups ss))"
  using copy_stores_map [of "sc_Groups config" "[]"] copy_stores_distinct [of "[]" "sc_Groups config"]
    map_of_rev_distinct [OF assms]
  by (auto simp: NewShardStore_def copy_stores_Inr split: if_splits sum.splits)

section \<open>The contract of the groups gives the contract of the whole\<close>

definition group_of :: "'s ShardStore \<Rightarrow> bytes \<Rightarrow> GroupID" where
  "group_of ss k = (case RouteKey (ss_router ss) k of Inr route \<Rightarrow> sr_GroupID route)"

text \<open>The router knows every key, and every group it names is there.\<close>

definition hosts_all :: "'s ShardStore \<Rightarrow> bool" where
  "hosts_all ss \<longleftrightarrow> distinct (map fst (ss_groups ss))
     \<and> RouteKey (ss_router ss) [] = Inl ErrEmptyKey
     \<and> (\<forall>k. k \<noteq> [] \<longrightarrow> (\<exists>route store. RouteKey (ss_router ss) k = Inr route
          \<and> map_of (ss_groups ss) (sr_GroupID route) = Some store))"

text \<open>
  A sharded store stands for the map that has at every key what the key's group has there.
\<close>

definition shard_map :: "('s \<Rightarrow> (bytes \<rightharpoonup> bytes) \<Rightarrow> bool) \<Rightarrow> 's ShardStore option \<Rightarrow> (bytes \<rightharpoonup> bytes) \<Rightarrow> bool" where
  "shard_map repr s a \<longleftrightarrow>
     (\<exists>ss m. s = Some ss \<and> hosts_all ss
        \<and> (\<forall>(g, store) \<in> set (ss_groups ss). repr store (m g))
        \<and> (\<forall>k. a k = (if k = [] then None else m (group_of ss k) k)))"

lemma set_store_Some: "set_store g store (Some ss) = Some (ss\<lparr>ss_groups := AList.update g store (ss_groups ss)\<rparr>)"
  by (simp add: set_store_def)

lemma hosts_all_update:
  assumes "hosts_all ss" and "map_of (ss_groups ss) g \<noteq> None"
  shows "hosts_all (ss\<lparr>ss_groups := AList.update g store (ss_groups ss)\<rparr>)"
    (is "hosts_all ?ss")
proof -
  have "\<exists>route store'. RouteKey (ss_router ?ss) k = Inr route
      \<and> map_of (ss_groups ?ss) (sr_GroupID route) = Some store'" if "k \<noteq> []" for k
  proof -
    obtain route store' where "RouteKey (ss_router ss) k = Inr route"
      "map_of (ss_groups ss) (sr_GroupID route) = Some store'"
      using assms(1) \<open>k \<noteq> []\<close> unfolding hosts_all_def by blast
    then show ?thesis by (cases "sr_GroupID route = g") auto
  qed
  then show ?thesis using assms(1) by (simp add: hosts_all_def distinct_update)
qed

lemma map_of_entry: "distinct (map fst al) \<Longrightarrow> map_of al k = Some v \<longleftrightarrow> (k, v) \<in> set al"
  by (rule map_of_eq_Some_iff)

lemma ShardRouteKey_hosted:
  assumes "hosts_all ss" and "k \<noteq> []"
  shows "\<exists>store route. ShardRouteKey (Some ss) k = Inr (store, route) \<and> sr_GroupID route = group_of ss k
    \<and> map_of (ss_groups ss) (group_of ss k) = Some store \<and> (group_of ss k, store) \<in> set (ss_groups ss)"
proof -
  obtain route store where "RouteKey (ss_router ss) k = Inr route"
    "map_of (ss_groups ss) (sr_GroupID route) = Some store"
    using assms unfolding hosts_all_def by blast
  then show ?thesis using map_of_SomeD by (fastforce simp: ShardRouteKey_def group_of_def)
qed

text \<open>One group's store moves to the map \<open>b\<close>, which at the keys of this group is \<open>a'\<close>.\<close>

lemma shard_map_set:
  assumes "hosts_all ss" and reprs: "\<forall>(g, store) \<in> set (ss_groups ss). repr store (m g)"
    and "map_of (ss_groups ss) g0 \<noteq> None" and "repr store' b"
    and a': "\<And>k. a' k = (if k = [] then None else if group_of ss k = g0 then b k else m (group_of ss k) k)"
  shows "shard_map repr (set_store g0 store' (Some ss)) a'"
proof -
  let ?ss = "ss\<lparr>ss_groups := AList.update g0 store' (ss_groups ss)\<rparr>"
  have h: "hosts_all ?ss" by (rule hosts_all_update [OF assms(1,3)])
  have "repr store ((m(g0 := b)) g)" if "(g, store) \<in> set (ss_groups ?ss)" for g store
  proof -
    have d: "distinct (map fst (ss_groups ss))" "distinct (map fst (ss_groups ?ss))"
      using assms(1) h by (simp_all add: hosts_all_def)
    have "map_of (ss_groups ?ss) g = Some store" using map_of_entry [OF d(2)] that by blast
    then show ?thesis using assms(4) reprs map_of_entry [OF d(1)] by (auto split: if_splits)
  qed
  moreover have "group_of ?ss k = group_of ss k" for k by (simp add: group_of_def)
  ultimately show ?thesis
    using h a' unfolding set_store_Some shard_map_def
    by (intro exI [of _ ?ss] exI [of _ "m(g0 := b)"]) auto
qed

text \<open>What an operation on one key needs: the store of the key's group, and what a change there means.\<close>

lemma shard_map_key:
  assumes "shard_map repr s a" and k: "k \<noteq> []"
  obtains store route b where "ShardRouteKey s k = Inr (store, route)" "repr store b" "b k = a k"
    "\<And>store' b' a'. repr store' b' \<Longrightarrow> b' k = a' k \<Longrightarrow> \<forall>k'. k' \<noteq> k \<longrightarrow> b' k' = b k' \<and> a' k' = a k'
       \<Longrightarrow> shard_map repr (set_store (sr_GroupID route) store' s) a'"
proof -
  obtain ss m where s: "s = Some ss" and h: "hosts_all ss"
    and r: "\<forall>(g, store) \<in> set (ss_groups ss). repr store (m g)"
    and a: "\<And>k. a k = (if k = [] then None else m (group_of ss k) k)"
    using assms(1) unfolding shard_map_def by blast
  obtain store route where rt: "ShardRouteKey (Some ss) k = Inr (store, route)" "sr_GroupID route = group_of ss k"
    and st: "map_of (ss_groups ss) (group_of ss k) = Some store" and mem: "(group_of ss k, store) \<in> set (ss_groups ss)"
    using ShardRouteKey_hosted [OF h k] by blast
  have "shard_map repr (set_store (group_of ss k) store' (Some ss)) a'"
    if "repr store' b'" and "b' k = a' k" and "\<forall>k'. k' \<noteq> k \<longrightarrow> b' k' = m (group_of ss k) k' \<and> a' k' = a k'"
    for store' b' a'
  proof (rule shard_map_set [OF h r _ that(1)])
    show "a' k' = (if k' = [] then None else if group_of ss k' = group_of ss k then b' k' else m (group_of ss k') k')"
      for k'
      using that(2,3) k by (cases "k' = k") (auto simp: a)
  qed (simp add: st)
  moreover have "repr store (m (group_of ss k))" using r mem by blast
  ultimately show ?thesis using that rt s k a by simp
qed

text \<open>New states of all groups, in the order of the map.\<close>

lemma shard_map_all:
  assumes "hosts_all ss" and "list_all2 (\<lambda>(g, store) (g', store'). g' = g \<and> repr store' (m g)) (ss_groups ss) gs"
  shows "shard_map repr (Some (ss\<lparr>ss_groups := gs\<rparr>)) (\<lambda>k. if k = [] then None else m (group_of ss k) k)"
proof -
  have fst: "map fst gs = map fst (ss_groups ss)"
    using assms(2) by (induction rule: list_all2_induct) auto
  have dom: "dom (map_of gs) = dom (map_of (ss_groups ss))"
    by (simp only: dom_map_of_conv_image_fst set_map [symmetric] fst)
  have "\<exists>route store'. RouteKey (ss_router ss) k = Inr route
      \<and> map_of gs (sr_GroupID route) = Some store'" if "k \<noteq> []" for k
  proof -
    obtain route store' where r: "RouteKey (ss_router ss) k = Inr route"
      "map_of (ss_groups ss) (sr_GroupID route) = Some store'"
      using assms(1) \<open>k \<noteq> []\<close> unfolding hosts_all_def by blast
    then have "sr_GroupID route \<in> dom (map_of gs)" unfolding dom by blast
    then show ?thesis using r by blast
  qed
  then have "hosts_all (ss\<lparr>ss_groups := gs\<rparr>)" using assms(1) fst by (simp add: hosts_all_def)
  moreover have "repr store (m g)" if "(g, store) \<in> set gs" for g store
    using assms(2) that by (induction rule: list_all2_induct) auto
  moreover have "group_of (ss\<lparr>ss_groups := gs\<rparr>) k = group_of ss k" for k by (simp add: group_of_def)
  ultimately show ?thesis unfolding shard_map_def
    by (intro exI [of _ "ss\<lparr>ss_groups := gs\<rparr>"] exI [of _ m]) auto
qed

context kv_backend
begin

lemma flush_groups_calm:
  "ctx_live ctx \<Longrightarrow> \<forall>(g, store) \<in> set gs. repr store (m g)
   \<Longrightarrow> \<exists>gs'. flush_groups ops ctx gs = (None, gs') \<and> list_all2 (\<lambda>(g, store) (g', store'). g' = g \<and> repr store' (m g)) gs gs'"
proof (induction gs arbitrary: ctx)
  case (Cons p gs)
  obtain g store where p: "p = (g, store)" by (cases p)
  obtain store' where 1: "so_Flush ops ctx store = (None, store')" "repr store' (m g)"
    using flush [OF Cons.prems(1), of store "m g"] Cons.prems(2) p by auto
  moreover obtain gs' where "flush_groups ops (ctx_later ctx) gs = (None, gs')"
    "list_all2 (\<lambda>(g, store) (g', store'). g' = g \<and> repr store' (m g)) gs gs'"
    using Cons.IH [of "ctx_later ctx"] Cons.prems by auto
  ultimately show ?case by (auto simp: p)
qed simp

lemma compact_groups_calm:
  "ctx_live ctx \<Longrightarrow> \<forall>(g, store) \<in> set gs. repr store (m g)
   \<Longrightarrow> \<exists>gs'. compact_groups ops ctx gs = Some (None, gs') \<and> list_all2 (\<lambda>(g, store) (g', store'). g' = g \<and> repr store' (m g)) gs gs'"
proof (induction gs arbitrary: ctx)
  case (Cons p gs)
  obtain g store where p: "p = (g, store)" by (cases p)
  obtain store' where 1: "so_Compact ops ctx store = Some (None, store')" "repr store' (m g)"
    using compact [OF Cons.prems(1), of store "m g"] Cons.prems(2) p by auto
  moreover obtain gs' where "compact_groups ops (ctx_later ctx) gs = Some (None, gs')"
    "list_all2 (\<lambda>(g, store) (g', store'). g' = g \<and> repr store' (m g)) gs gs'"
    using Cons.IH [of "ctx_later ctx"] Cons.prems by auto
  ultimately show ?case by (auto simp: p)
qed simp

lemma shard_put:
  assumes live: "ctx_live ctx" and "shard_map repr s a" and v: "op_valid (OpPut k v)"
  shows "\<exists>s'. ShardPut ops ctx k v s = (None, s') \<and> shard_map repr s' (a(k \<mapsto> v))"
proof -
  have k: "k \<noteq> []" using v by simp
  obtain store route b where rt: "ShardRouteKey s k = Inr (store, route)" "repr store b" "b k = a k"
    and upd: "\<And>store' b' a'. repr store' b' \<Longrightarrow> b' k = a' k \<Longrightarrow> \<forall>k'. k' \<noteq> k \<longrightarrow> b' k' = b k' \<and> a' k' = a k'
       \<Longrightarrow> shard_map repr (set_store (sr_GroupID route) store' s) a'"
    using shard_map_key [OF assms(2) k] by metis
  obtain store' where "so_Put ops ctx k v store = (None, store')" "repr store' (b(k \<mapsto> v))"
    using put [OF live rt(2) v] by blast
  then show ?thesis using rt(1) upd [of store' "b(k \<mapsto> v)" "a(k \<mapsto> v)"] by (simp add: ShardPut_def)
qed

lemma shard_delete:
  assumes live: "ctx_live ctx" and "shard_map repr s a" and v: "op_valid (OpDelete k)"
  shows "\<exists>s'. ShardDelete ops ctx k s = (None, s') \<and> shard_map repr s' (a(k := None))"
proof -
  have k: "k \<noteq> []" using v by simp
  obtain store route b where rt: "ShardRouteKey s k = Inr (store, route)" "repr store b" "b k = a k"
    and upd: "\<And>store' b' a'. repr store' b' \<Longrightarrow> b' k = a' k \<Longrightarrow> \<forall>k'. k' \<noteq> k \<longrightarrow> b' k' = b k' \<and> a' k' = a k'
       \<Longrightarrow> shard_map repr (set_store (sr_GroupID route) store' s) a'"
    using shard_map_key [OF assms(2) k] by metis
  obtain store' where "so_Delete ops ctx k store = (None, store')" "repr store' (b(k := None))"
    using delete [OF live rt(2) v] by blast
  then show ?thesis using rt(1) upd [of store' "b(k := None)" "a(k := None)"] by (simp add: ShardDelete_def)
qed

lemma shard_get:
  assumes live: "ctx_live ctx" and "shard_map repr s a" and k: "k \<noteq> []"
  shows "\<exists>g s'. ShardGet ops ctx k s = (Inr g, s') \<and> shard_map repr s' a \<and> reads_as (a k) g"
proof -
  obtain store route b where rt: "ShardRouteKey s k = Inr (store, route)" "repr store b" "b k = a k"
    and upd: "\<And>store' b' a'. repr store' b' \<Longrightarrow> b' k = a' k \<Longrightarrow> \<forall>k'. k' \<noteq> k \<longrightarrow> b' k' = b k' \<and> a' k' = a k'
       \<Longrightarrow> shard_map repr (set_store (sr_GroupID route) store' s) a'"
    using shard_map_key [OF assms(2) k] by metis
  obtain g store' where "so_Get ops ctx k store = (Inr g, store')" "repr store' b" "reads_as (b k) g"
    using get [OF live rt(2) k] by blast
  then show ?thesis using rt upd [of store' b a] by (simp add: ShardGet_def)
qed

end

text \<open>A sharded store over backends is a backend, so a sharded store can serve wherever a store can.\<close>

locale shard_backend = kv_backend

sublocale shard_backend \<subseteq> sharded: kv_backend "shard_ops ops" "shard_map repr"
proof
  fix ctx s and a :: "bytes \<rightharpoonup> bytes" and k v :: bytes
  assume live: "ctx_live ctx" and s: "shard_map repr s a"
  then obtain ss m where ss: "s = Some ss" and h: "hosts_all ss"
    and r: "\<forall>(g, store) \<in> set (ss_groups ss). repr store (m g)"
    and a: "a = (\<lambda>k. if k = [] then None else m (group_of ss k) k)"
    unfolding shard_map_def fun_eq_iff by blast
  show "\<exists>s'. so_Put (shard_ops ops) ctx k v s = (None, s') \<and> shard_map repr s' (a(k \<mapsto> v))" if "op_valid (OpPut k v)"
    using shard_put [OF live s that] by (simp add: shard_ops_def)
  show "\<exists>g s'. so_Get (shard_ops ops) ctx k s = (Inr g, s') \<and> shard_map repr s' a \<and> reads_as (a k) g" if "k \<noteq> []"
    using shard_get [OF live s that] by (simp add: shard_ops_def)
  show "\<exists>s'. so_Delete (shard_ops ops) ctx k s = (None, s') \<and> shard_map repr s' (a(k := None))" if "op_valid (OpDelete k)"
    using shard_delete [OF live s that] by (simp add: shard_ops_def)
  show "\<exists>s'. so_Flush (shard_ops ops) ctx s = (None, s') \<and> shard_map repr s' a"
    using flush_groups_calm [OF live r] shard_map_all [OF h] by (auto simp: shard_ops_def ShardFlush_def ss a)
  show "\<exists>s'. so_Compact (shard_ops ops) ctx s = Some (None, s') \<and> shard_map repr s' a"
    using compact_groups_calm [OF live r] shard_map_all [OF h] by (auto simp: shard_ops_def ShardCompact_def ss a)
  have "ShardRouteKey s [] = Inl ErrEmptyKey" using h by (simp add: ss hosts_all_def ShardRouteKey_def)
  then show "so_Put (shard_ops ops) ctx [] v s = (Some ErrEmptyKey, s)"
    "so_Get (shard_ops ops) ctx [] s = (Inl ErrEmptyKey, s)"
    "so_Delete (shard_ops ops) ctx [] s = (Some ErrEmptyKey, s)"
    by (simp_all add: shard_ops_def ShardPut_def ShardGet_def ShardDelete_def)
qed

interpretation shards: shard_backend standaloneStore db_map ..

section \<open>Sharded stores that New builds\<close>

lemma NewShardStore_hosts:
  assumes dr: "distinct (map fst (rc_ShardGroups rc))" and router: "NewRouter rc = Inr router"
    and dg: "distinct (map fst (sc_Groups config))" and cfg: "sc_Router config = Some router"
    and new: "NewShardStore config = Inr ss" and all: "snd ` set (rc_ShardGroups rc) \<subseteq> fst ` set (sc_Groups config)"
  shows "hosts_all ss"
proof -
  note ss = NewShardStore_Inr [OF dg new]
  have route: "RouteKey (Some router) [] = Inl ErrEmptyKey"
    "\<And>key. key \<noteq> [] \<Longrightarrow> \<exists>shard group. map_of (rc_ShardGroups rc) shard = Some group
        \<and> RouteKey (Some router) key = Inr \<lparr>sr_ShardID = shard, sr_GroupID = group\<rparr>"
    using NewRouter_routes [OF dr router] by blast+
  have "\<exists>route store. RouteKey (ss_router ss) k = Inr route \<and> map_of (ss_groups ss) (sr_GroupID route) = Some store"
    if k: "k \<noteq> []" for k
  proof -
    obtain shard group where m: "map_of (rc_ShardGroups rc) shard = Some group"
      and rt: "RouteKey (Some router) k = Inr \<lparr>sr_ShardID = shard, sr_GroupID = group\<rparr>"
      using route(2) [OF k] by blast
    have "group \<in> snd ` set (rc_ShardGroups rc)" using map_of_SomeD [OF m] by force
    then have "group \<in> dom (map_of (sc_Groups config))" using all dom_map_of_conv_image_fst [of "sc_Groups config"] by blast
    then show ?thesis using rt ss cfg by auto
  qed
  then show ?thesis using ss cfg route(1) by (simp add: hosts_all_def)
qed

lemma shard_map_start:
  assumes "hosts_all ss" and "\<forall>(g, store) \<in> set (ss_groups ss). repr store Map.empty"
  shows "shard_map repr (Some ss) Map.empty"
  using assms by (auto simp: shard_map_def intro!: exI [of _ "\<lambda>g. Map.empty"])

lemma NewShardStore_succeeds:
  assumes "sc_Router config \<noteq> None" and "sc_Groups config \<noteq> []"
    and "\<forall>(g, s) \<in> set (sc_Groups config). g \<noteq> [] \<and> s \<noteq> None"
  shows "\<exists>ss. NewShardStore config = Inr ss"
proof -
  obtain gs where "copy_stores (sc_Groups config) [] = Inr gs" using copy_stores_Inr assms(3) by blast
  then show ?thesis using assms(1,2) by (simp add: NewShardStore_def)
qed

section \<open>Properties\<close>

text \<open>
  A sharded store over databases refines one map.  Take a router that \<open>NewRouter\<close> accepts and
  one database with no live records for every group it assigns.  \<open>NewShardStore\<close> succeeds, and any
  sequence of requests is answered as a single map would answer it: keys land in the shard that the
  ring chooses, and no request sees that there is more than one database.
\<close>

lemma sharded_databases_refine_map:
  assumes "distinct (map fst (rc_ShardGroups rc))" and "NewRouter rc = Inr router"
    and "distinct (map fst (sc_Groups config))" and "sc_Router config = Some router"
    and "\<forall>(g, s) \<in> set (sc_Groups config). g \<noteq> [] \<and> (\<exists>db w. s = Some (db, w) \<and> db_map (db, w) Map.empty)"
    and "snd ` set (rc_ShardGroups rc) \<subseteq> fst ` set (sc_Groups config)"
    and "ctx_live ctx" and "\<forall>r \<in> set rs. request_valid r"
  shows "\<exists>ss xs s'. NewShardStore config = Inr ss
    \<and> serve_all (shard_ops standaloneStore) ctx rs (Some ss) = Some (xs, s') \<and> all_answered rs Map.empty xs"
proof -
  have "router_config_ok rc" using NewRouter_routes [OF assms(1,2)] by blast
  then have "rc_ShardGroups rc \<noteq> []" by (force simp: router_config_ok_def)
  then have "sc_Groups config \<noteq> []" using assms(6) by auto
  then obtain ss where new: "NewShardStore config = Inr ss"
    using NewShardStore_succeeds [of config] assms(4,5) by fastforce
  have "db_map store Map.empty" if "(g, store) \<in> set (ss_groups ss)" for g store
  proof -
    have "map_of (ss_groups ss) g = Some store"
      using that NewShardStore_Inr [OF assms(3) new] map_of_entry by metis
    then obtain so where "(g, so) \<in> set (sc_Groups config)" "store = the so"
      using NewShardStore_Inr [OF assms(3) new] map_of_SomeD by fastforce
    then show ?thesis using assms(5) by fastforce
  qed
  then have "shard_map db_map (Some ss) Map.empty"
    using shard_map_start NewShardStore_hosts [OF assms(1-4) new assms(6)] by blast
  from shards.sharded.serve_requests [OF assms(7) this assms(8)] show ?thesis using new by blast
qed

lemma sharded_databases_refine_map_witness:
  "\<exists>config ss s'. length (sc_Groups config) = 2 \<and> NewShardStore config = Inr ss
    \<and> serve_all (shard_ops standaloneStore) Background
        [ReqPut [1] [10], ReqPut [2] [20], ReqFlush, ReqDelete [2], ReqGet [1], ReqGet []] (Some ss)
      = Some ([Done None, Done None, Done None, Done None, Got (Inr (Some [10])), Got (Inl ErrEmptyKey)], s')"
proof -
  let ?rs = "[ReqPut [1] [10], ReqPut [2] [20], ReqFlush, ReqDelete [2], ReqGet [1], ReqGet []]"
  let ?rc = "\<lparr>rc_Ring = \<lparr>ShardCount = 2, VirtualNodes = 1\<rparr>, rc_ShardGroups = [(1, ''b''), (0, ''a'')]\<rparr>"
  have d: "distinct (map fst (rc_ShardGroups ?rc))" by simp
  have "router_config_ok ?rc" by (auto simp: router_config_ok_def)
  then obtain router where r: "NewRouter ?rc = Inr router" using NewRouter_Inr [OF d] by (auto simp: NewHashRing_def)
  obtain db w where db: "db_map (db, w) Map.empty" using open_fresh db_map_store_at by metis
  let ?c = "\<lparr>sc_Router = Some router, sc_Groups = [(''a'', Some (db, w)), (''b'', Some (db, w))]\<rparr>"
  have "\<forall>r \<in> set ?rs. request_valid r" by (simp add: MaxUint32_def)
  from sharded_databases_refine_map [OF d r, of ?c, OF _ _ _ _ ctx_live_Background this]
  obtain ss xs s' where "NewShardStore ?c = Inr ss"
    and run: "serve_all (shard_ops standaloneStore) Background ?rs (Some ss) = Some (xs, s')"
    and all: "all_answered ?rs Map.empty xs"
    using db by auto
  moreover have "xs = [Done None, Done None, Done None, Done None, Got (Inr (Some [10])), Got (Inl ErrEmptyKey)]"
    using all by (simp add: answered)
  ultimately show ?thesis by (intro exI [of _ ?c]) auto
qed

text \<open>
  A request touches only its group.  Whatever the stores of the groups do, an operation on a key
  changes at most the store of the group that the router gives for the key; when the node does not
  host that group the answer is \<open>ErrGroupNotFound\<close>, when the key has no route it is the router's
  error, and nothing changes.
\<close>

lemma requests_touch_only_their_group:
  assumes "(\<exists>v. ShardPut ops ctx k v (Some ss) = (r, s')) \<or> ShardDelete ops ctx k (Some ss) = (r, s')
    \<or> (\<exists>g. ShardGet ops ctx k (Some ss) = (g, s') \<and> r = (case g of Inl e \<Rightarrow> Some e | Inr v \<Rightarrow> None))"
  shows "\<exists>ss'. s' = Some ss' \<and> ss_router ss' = ss_router ss
    \<and> (case RouteKey (ss_router ss) k of
         Inl e \<Rightarrow> r = Some e \<and> ss' = ss
       | Inr route \<Rightarrow>
           (\<forall>g. g \<noteq> sr_GroupID route \<longrightarrow> map_of (ss_groups ss') g = map_of (ss_groups ss) g)
           \<and> (map_of (ss_groups ss) (sr_GroupID route) = None \<longrightarrow> r = Some ErrGroupNotFound \<and> ss' = ss))"
  using assms
  by (elim disjE exE conjE; cases "RouteKey (ss_router ss) k")
    (auto simp: ShardPut_def ShardDelete_def ShardGet_def ShardRouteKey_def set_store_def
      split: option.splits prod.splits)

lemma requests_touch_only_their_group_witness:
  "\<exists>ss s'. ShardPut standaloneStore Background [1] [2] (Some ss) = (Some ErrGroupNotFound, s')
    \<and> ss_groups ss = [] \<and> s' = Some ss \<and> (\<exists>route. RouteKey (ss_router ss) [1] = Inr route)"
proof -
  let ?rc = "\<lparr>rc_Ring = \<lparr>ShardCount = 1, VirtualNodes = 1\<rparr>, rc_ShardGroups = [(0, ''a'')]\<rparr>"
  have d: "distinct (map fst (rc_ShardGroups ?rc))" by simp
  have "router_config_ok ?rc" by (auto simp: router_config_ok_def)
  then obtain router where "NewRouter ?rc = Inr router" using NewRouter_Inr [OF d] by (auto simp: NewHashRing_def)
  from NewRouter_routes [OF d this] obtain route where rt: "RouteKey (Some router) [1] = Inr route" by force
  let ?ss = "\<lparr>ss_router = Some router, ss_groups = []\<rparr> :: db_state ShardStore"
  obtain r s' where run: "ShardPut standaloneStore Background [1] [2] (Some ?ss) = (r, s')" by (metis prod.exhaust)
  have "r = Some ErrGroupNotFound \<and> s' = Some ?ss"
    using requests_touch_only_their_group [of standaloneStore Background "[1]" ?ss r s'] run rt by auto
  then show ?thesis using run rt by (intro exI [of _ ?ss]) auto
qed

end
