(* ===== verification/KV_Group.thy ===== *)
theory KV_Group
  imports KV_Raft KV_Shard
begin

text \<open>
  A replicated group.  The raft library gives the group one log of committed commands, which every
  replica applies from the start in order, after a restart again from its last snapshot or from the
  start.  The steps of a group are the state machine's methods and the database's own operations on
  one replica at a time, in any order; no system call fails.  The theory shows that the replicas
  agree, and that the store of a leader is a map.
\<close>

section \<open>The log as a map\<close>

definition apply_command :: "Command \<Rightarrow> (bytes \<rightharpoonup> bytes) \<Rightarrow> bytes \<rightharpoonup> bytes" where
  "apply_command cmd a =
     (if cmd_Type cmd = CommandTypePut then a(cmd_Key cmd \<mapsto> cmd_Value cmd) else a(cmd_Key cmd := None))"

definition apply_data :: "bytes \<Rightarrow> (bytes \<rightharpoonup> bytes) \<Rightarrow> bytes \<rightharpoonup> bytes" where
  "apply_data data a = (case DecodeCommand data of Inl e \<Rightarrow> a | Inr cmd \<Rightarrow> apply_command cmd a)"

definition log_map :: "bytes list \<Rightarrow> bytes \<rightharpoonup> bytes" where
  "log_map log = fold apply_data log Map.empty"

definition log_ok :: "bytes list \<Rightarrow> bool" where
  "log_ok log \<longleftrightarrow> (\<forall>data \<in> set log. \<exists>cmd. EncodeCommand cmd = Inr data)"

lemma log_ok_nth: "log_ok log \<Longrightarrow> n < length log \<Longrightarrow> \<exists>cmd. EncodeCommand cmd = Inr (log ! n)"
  by (simp add: log_ok_def)

lemma DecodeCommand_Encode:
  assumes "EncodeCommand cmd = Inr data"
  shows "DecodeCommand data = Inr cmd"
    and "cmd_Key cmd \<noteq> []" "length (cmd_Key cmd) \<le> MaxUint32" "length (cmd_Value cmd) \<le> MaxUint32"
    and "cmd_Type cmd = CommandTypePut \<or> cmd_Type cmd = CommandTypeDelete \<and> cmd_Value cmd = []"
proof -
  let ?r = "\<lparr>rec_Type = cmd_Type cmd, rec_Key = cmd_Key cmd, rec_Value = cmd_Value cmd\<rparr>"
  have ok: "rec_ok ?r" and data: "data = frame ?r" using assms by (simp_all add: EncodeCommand_def Encode_Inr_iff)
  show "DecodeCommand data = Inr cmd" using Decode_frame [OF ok, of "[]"] by (simp add: DecodeCommand_def data)
  show "cmd_Key cmd \<noteq> []" "length (cmd_Key cmd) \<le> MaxUint32" "length (cmd_Value cmd) \<le> MaxUint32"
    "cmd_Type cmd = CommandTypePut \<or> cmd_Type cmd = CommandTypeDelete \<and> cmd_Value cmd = []"
    using ok by (auto simp: rec_ok_iff CommandTypePut_def CommandTypeDelete_def)
qed

lemma log_map_Nil [simp]: "log_map [] = Map.empty"
  by (simp add: log_map_def)

lemma log_map_snoc: "log_map (log @ [data]) = apply_data data (log_map log)"
  by (simp add: log_map_def)

lemma log_map_take_Suc: "n < length log \<Longrightarrow> log_map (take (Suc n) log) = apply_data (log ! n) (log_map (take n log))"
  by (simp add: take_Suc_conv_app_nth log_map_snoc)

lemma apply_data_command: "EncodeCommand cmd = Inr data \<Longrightarrow> apply_data data a = apply_command cmd a"
  by (simp add: apply_data_def DecodeCommand_Encode(1))

lemma FsmApply_calm:
  assumes "store_at options n (fst s) (snd s) a" and cmd: "EncodeCommand cmd = Inr data"
  shows "\<exists>s'. FsmApply data s = (None, s') \<and> store_at options (Suc n) (fst s') (snd s') (apply_command cmd a)"
proof -
  obtain db w where s: "s = (db, w)" by (cases s)
  note dec = DecodeCommand_Encode [OF cmd]
  show ?thesis
  proof (cases "cmd_Type cmd = CommandTypePut")
    case True
    then show ?thesis using store_at_put [of options n db w a "cmd_Key cmd" "cmd_Value cmd"] assms(1) dec
      by (auto simp: s FsmApply_def apply_command_def)
  next
    case False
    then show ?thesis using store_at_delete [of options n db w a "cmd_Key cmd"] assms(1) dec
      by (auto simp: s FsmApply_def apply_command_def)
  qed
qed

section \<open>Replicas that lag behind their database\<close>

text \<open>
  A replica that has applied the first \<open>n\<close> commands may hold a database that has already seen later
  ones, when it was restarted.  Every key then has the value that it had after some prefix of the
  log, at least \<open>n\<close> long.
\<close>

definition consistent :: "bytes list \<Rightarrow> nat \<Rightarrow> (bytes \<rightharpoonup> bytes) \<Rightarrow> bool" where
  "consistent log n a \<longleftrightarrow> (\<forall>k. \<exists>h. n \<le> h \<and> h \<le> length log \<and> a k = log_map (take h log) k)"

lemma consistent_start: "consistent log 0 Map.empty"
  unfolding consistent_def by (intro allI exI [of _ 0]) simp

lemma consistent_le: "consistent log n a \<Longrightarrow> n \<le> length log"
  unfolding consistent_def by (meson le_trans)

lemma consistent_mono: "consistent log n a \<Longrightarrow> m \<le> n \<Longrightarrow> consistent log m a"
  unfolding consistent_def by (meson le_trans)

lemma consistent_all: "consistent log (length log) a \<Longrightarrow> a = log_map log"
  unfolding consistent_def by (intro ext) (metis le_antisym take_all)

lemma consistent_append: "consistent log n a \<Longrightarrow> consistent (log @ log') n a"
  unfolding consistent_def
  by (metis append.right_neutral append_eq_append_conv2 diff_is_0_eq' le_add1 le_trans length_append take0 take_append)

lemma consistent_apply:
  assumes c: "consistent log n a" and n: "n < length log" and cmd: "EncodeCommand cmd = Inr (log ! n)"
  shows "consistent log (Suc n) (apply_command cmd a)"
  unfolding consistent_def
proof
  fix k
  have step: "log_map (take (Suc n) log) = apply_command cmd (log_map (take n log))"
    using n cmd by (simp add: log_map_take_Suc apply_data_command)
  obtain h where h: "n \<le> h" "h \<le> length log" "a k = log_map (take h log) k"
    using c unfolding consistent_def by blast
  show "\<exists>h. Suc n \<le> h \<and> h \<le> length log \<and> apply_command cmd a k = log_map (take h log) k"
  proof (cases "k = cmd_Key cmd \<or> h = n")
    case True
    then have "apply_command cmd a k = log_map (take (Suc n) log) k"
      using h by (auto simp: step apply_command_def)
    then show ?thesis using n by (intro exI [of _ "Suc n"]) simp
  next
    case False
    then have "apply_command cmd a k = log_map (take h log) k" using h by (simp add: apply_command_def)
    then show ?thesis using h False by (intro exI [of _ h]) simp
  qed
qed

section \<open>The steps of a group\<close>

record replica =
  rp_options :: Options
  rp_applied :: nat
  rp_state :: db_state
  rp_snap :: "(nat \<times> TarEntry list) option"

record raft_group =
  gr_log :: "bytes list"
  gr_replicas :: "replica list"

definition set_replica :: "nat \<Rightarrow> replica \<Rightarrow> raft_group \<Rightarrow> raft_group" where
  "set_replica i rep g = g\<lparr>gr_replicas := (gr_replicas g)[i := rep]\<rparr>"

text \<open>
  A process that starts again opens the directory of its database, after \<open>Close\<close> or after it was
  killed between two operations.
\<close>

definition restarted :: "Options \<Rightarrow> DB \<Rightarrow> world \<Rightarrow> db_state \<Rightarrow> bool" where
  "restarted options db w s \<longleftrightarrow> reopen options db w = (None, s)
     \<or> (case open_db options w of (Inl e, w') \<Rightarrow> False | (Inr db', w') \<Rightarrow> s = (db', w'))"

text \<open>
  A snapshot and a restart need fewer than 10000 tables, for the names to keep their order, and a
  snapshot needs a memtable whose size fits the counter.
\<close>

inductive group_step :: "raft_group \<Rightarrow> raft_group \<Rightarrow> bool" where
  commit: "EncodeCommand cmd = Inr data \<Longrightarrow> group_step g (g\<lparr>gr_log := gr_log g @ [data]\<rparr>)"
| apply_next: "i < length (gr_replicas g) \<Longrightarrow> rep = gr_replicas g ! i \<Longrightarrow> rp_applied rep < length (gr_log g)
    \<Longrightarrow> FsmApply (gr_log g ! rp_applied rep) (rp_state rep) = (r, s')
    \<Longrightarrow> group_step g (set_replica i (rep\<lparr>rp_applied := Suc (rp_applied rep), rp_state := s'\<rparr>) g)"
| flush: "i < length (gr_replicas g) \<Longrightarrow> rep = gr_replicas g ! i \<Longrightarrow> rp_state rep = (db, w)
    \<Longrightarrow> DbFlush db w = (r, s') \<Longrightarrow> group_step g (set_replica i (rep\<lparr>rp_state := s'\<rparr>) g)"
| compact: "i < length (gr_replicas g) \<Longrightarrow> rep = gr_replicas g ! i \<Longrightarrow> rp_state rep = (db, w)
    \<Longrightarrow> DbCompact db w = Some (r, s') \<Longrightarrow> group_step g (set_replica i (rep\<lparr>rp_state := s'\<rparr>) g)"
| snapshot: "i < length (gr_replicas g) \<Longrightarrow> rep = gr_replicas g ! i \<Longrightarrow> rp_state rep = (db, w)
    \<Longrightarrow> db_SstablesNum db < 10000 \<Longrightarrow> mt_total (db_Memtable db) < 2 ^ 64
    \<Longrightarrow> FsmSnapshot (db, w) = (Inr archive, s')
    \<Longrightarrow> group_step g (set_replica i (rep\<lparr>rp_state := s', rp_snap := Some (rp_applied rep, archive)\<rparr>) g)"
| install: "i < length (gr_replicas g) \<Longrightarrow> j < length (gr_replicas g) \<Longrightarrow> rep = gr_replicas g ! i
    \<Longrightarrow> rp_snap (gr_replicas g ! j) = Some (idx, archive) \<Longrightarrow> FsmRestore (archive, None) (rp_state rep) = (r, s')
    \<Longrightarrow> group_step g (set_replica i (rep\<lparr>rp_applied := idx, rp_state := s', rp_snap := Some (idx, archive)\<rparr>) g)"
| restart: "i < length (gr_replicas g) \<Longrightarrow> rep = gr_replicas g ! i \<Longrightarrow> rp_state rep = (db, w)
    \<Longrightarrow> db_SstablesNum db < 10000 \<Longrightarrow> rp_snap rep = None \<Longrightarrow> restarted (rp_options rep) db w s'
    \<Longrightarrow> group_step g (set_replica i (rep\<lparr>rp_applied := 0, rp_state := s'\<rparr>) g)"
| restart_snapshot: "i < length (gr_replicas g) \<Longrightarrow> rep = gr_replicas g ! i \<Longrightarrow> rp_state rep = (db, w)
    \<Longrightarrow> db_SstablesNum db < 10000 \<Longrightarrow> rp_snap rep = Some (idx, archive)
    \<Longrightarrow> restarted (rp_options rep) db w s1 \<Longrightarrow> FsmRestore (archive, None) s1 = (r, s')
    \<Longrightarrow> group_step g (set_replica i (rep\<lparr>rp_applied := idx, rp_state := s'\<rparr>) g)"

text \<open>A new group: every replica has opened an empty directory.\<close>

definition fresh_replica :: "replica \<Rightarrow> bool" where
  "fresh_replica rep \<longleftrightarrow> rp_applied rep = 0 \<and> rp_snap rep = None
     \<and> (\<exists>db w. open_db (rp_options rep) \<lparr>disk = [], faults = []\<rparr> = (Inr db, w) \<and> rp_state rep = (db, w))"

definition fresh_group :: "raft_group \<Rightarrow> bool" where
  "fresh_group g \<longleftrightarrow> gr_log g = [] \<and> (\<forall>rep \<in> set (gr_replicas g). fresh_replica rep)"

section \<open>The invariant\<close>

definition snapshot_ok :: "bytes list \<Rightarrow> nat \<times> TarEntry list \<Rightarrow> bool" where
  "snapshot_ok log snap \<longleftrightarrow>
     (\<exists>rss. snd snap = archive_of rss \<and> length rss \<le> 10000 \<and> (\<forall>rs \<in> set rss. recs_ok rs \<and> key_sorted rs)
        \<and> consistent log (fst snap) (kv_values (newest (concat rss))))"

definition replica_inv :: "bytes list \<Rightarrow> replica \<Rightarrow> bool" where
  "replica_inv log rep \<longleftrightarrow>
     (\<exists>n a. store_at (rp_options rep) n (fst (rp_state rep)) (snd (rp_state rep)) a \<and> consistent log (rp_applied rep) a)
     \<and> (\<forall>snap. rp_snap rep = Some snap \<longrightarrow> snapshot_ok log snap)"

definition group_inv :: "raft_group \<Rightarrow> bool" where
  "group_inv g \<longleftrightarrow> log_ok (gr_log g) \<and> (\<forall>rep \<in> set (gr_replicas g). replica_inv (gr_log g) rep)"

lemma store_at_num: "store_at options n db w a \<Longrightarrow> db_SstablesNum db < 10000 \<Longrightarrow> \<exists>n < 10000. store_at options n db w a"
  by (rule exI [of _ "nat (db_SstablesNum db)"]) (auto simp: store_at_def)

lemma store_at_killed:
  assumes "store_at options n db w a" and "n < 10000" and "open_db options w = (Inr db', w')"
  shows "store_at options n db' w' a"
proof -
  let ?d = "path_of (opt_Dir options)"
  obtain rss ls where inv: "db_inv w db rss ls" and a: "kv_values (newest (concat rss) ++ newest ls) = a"
    and c: "calm w" and d: "db_Dir db = ?d" and n: "db_SstablesNum db \<le> int n"
    using assms(1) by (auto simp: store_at_def db_repr_def)
  have on: "tables_on w ?d rss" and wal: "file_at w (wal_path_of ?d) = Some (frames ls)" and ok: "recs_ok ls"
    using inv d by (simp_all add: db_inv_def db_loaded_def)
  have len: "length rss \<le> n" using inv n by (simp add: db_inv_def db_loaded_def tables_open_def)
  have "scan Decode (file_data w (wal_path_of ?d)) = (ls, EOF)" using wal codec.scan_frames [OF ok] by simp
  then have ld: "db_loaded db' ?d rss ls" and on2: "tables_on w' ?d rss" and c2: "calm w'"
    and wal2: "file_at w' (wal_path_of ?d) = Some (file_data w (wal_path_of ?d))"
    using open_db_calm [OF c on _ refl _ _ ok] len assms(2,3) by fastforce+
  have dir: "db_Dir db' = ?d" using ld by (simp add: db_loaded_def)
  then have "db_inv w' db' rss ls" using ld on2 wal2 wal by (simp add: db_inv_def)
  moreover have "db_SstablesNum db' \<le> int n" using ld len by (simp add: db_loaded_def tables_open_def)
  ultimately show ?thesis using c2 dir a unfolding store_at_def db_repr_def by blast
qed

lemma store_at_restarted:
  assumes "store_at options n db w a" and "db_SstablesNum db < 10000" and "restarted options db w s"
  shows "\<exists>n'. store_at options n' (fst s) (snd s) a"
proof -
  obtain n' where n': "n' < 10000" "store_at options n' db w a" using store_at_num [OF assms(1,2)] by blast
  show ?thesis using store_at_reopen [OF n'(2,1)] store_at_killed [OF n'(2,1)] assms(3)
    by (auto simp: restarted_def split: prod.splits sum.splits)
qed

lemma store_at_restore:
  assumes "store_at options n db w a" and snap: "snapshot_ok log (idx, archive)"
  shows "\<exists>n' a' s'. FsmRestore (archive, None) (db, w) = (None, s') \<and> store_at options n' (fst s') (snd s') a'
    \<and> consistent log idx a'"
proof -
  obtain rss where arch: "archive = archive_of rss" "length rss \<le> 10000" "\<forall>rs \<in> set rss. recs_ok rs \<and> key_sorted rs"
    and c: "consistent log idx (kv_values (newest (concat rss)))"
    using snap by (auto simp: snapshot_ok_def)
  obtain rss0 ls0 where inv: "db_inv w db rss0 ls0" and cw: "calm w" and d: "db_Dir db = path_of (opt_Dir options)"
    using assms(1) by (auto simp: store_at_def db_repr_def)
  obtain db' w' where r: "RestoreSnapshot (Some (archive_of rss, None)) db w = (None, db', w')" "calm w'"
    "db_inv w' db' rss []" "db_Dir db' = db_Dir db"
    using RestoreSnapshot_calm [OF cw inv arch(2,3)] by blast
  have "db_repr w' db' (newest (concat rss))"
    unfolding db_repr_def using r(3) by (intro exI [of _ rss] exI [of _ "[]"]) simp
  then have "store_at options (nat (db_SstablesNum db')) db' w' (kv_values (newest (concat rss)))"
    using r d by (auto simp: store_at_def)
  then show ?thesis using r(1) c by (auto simp: FsmRestore_def arch(1))
qed

lemma store_at_snapshot:
  assumes "store_at options n db w a" and "db_SstablesNum db < 10000" and "mt_total (db_Memtable db) < 2 ^ 64"
    and "consistent log idx a"
  shows "\<exists>archive n' s'. FsmSnapshot (db, w) = (Inr archive, s') \<and> store_at options n' (fst s') (snd s') a
    \<and> snapshot_ok log (idx, archive)"
proof -
  obtain rss ls where inv: "db_inv w db rss ls" and c: "calm w" and d: "db_Dir db = path_of (opt_Dir options)"
    and a: "kv_values (newest (concat rss) ++ newest ls) = a"
    using assms(1) by (auto simp: store_at_def db_repr_def)
  obtain db' w' rss' where cr: "CreateSnapshot True db w = (None, archive_of rss', db', w')" "calm w'"
    and inv': "db_inv w' db' rss' []" and m: "newest (concat rss') = newest (concat rss) ++ newest ls"
    and len: "length rss' \<le> Suc (length rss)" and d': "db_Dir db' = db_Dir db"
    using CreateSnapshot_calm [OF c inv assms(3)] by blast
  have "length rss < 10000" using inv assms(2) by (simp add: db_inv_def db_loaded_def tables_open_def)
  then have "length rss' \<le> 10000" using len by simp
  moreover have on: "tables_on w' (db_Dir db') rss'" using inv' by (simp add: db_inv_def)
  have "\<forall>rs \<in> set rss'. recs_ok rs \<and> key_sorted rs"
    using on in_set_conv_nth [of _ rss'] by (fastforce simp: tables_on_def table_at_def)
  ultimately have "snapshot_ok log (idx, archive_of rss')"
    using assms(4) m a unfolding snapshot_ok_def by (intro exI [of _ rss']) simp
  moreover have "db_repr w' db' (newest (concat rss'))"
    unfolding db_repr_def using inv' by (intro exI [of _ rss'] exI [of _ "[]"]) simp
  then have "store_at options (nat (db_SstablesNum db')) db' w' a"
    using cr d d' m a by (auto simp: store_at_def)
  ultimately show ?thesis using cr(1) by (auto simp: FsmSnapshot_def)
qed

lemma replica_inv_append: "replica_inv log rep \<Longrightarrow> replica_inv (log @ log') rep"
  unfolding replica_inv_def snapshot_ok_def by (meson consistent_append)

lemma group_inv_set:
  assumes "group_inv g" and "replica_inv (gr_log g) rep"
  shows "group_inv (set_replica i rep g)"
  using assms by (auto simp: group_inv_def set_replica_def dest: set_update_subset_insert [THEN subsetD])

lemma group_inv_replica:
  assumes "group_inv g" and "i < length (gr_replicas g)" and "rep = gr_replicas g ! i"
  shows "\<exists>n a. store_at (rp_options rep) n (fst (rp_state rep)) (snd (rp_state rep)) a
      \<and> consistent (gr_log g) (rp_applied rep) a"
    and "rp_snap rep = Some snap \<Longrightarrow> snapshot_ok (gr_log g) snap"
  using assms unfolding group_inv_def replica_inv_def by (metis nth_mem)+

lemma group_step_inv:
  assumes "group_step g g'" and "group_inv g"
  shows "group_inv g'"
  using assms
proof (induction rule: group_step.induct)
  case (commit cmd data g)
  then show ?case by (auto simp: group_inv_def log_ok_def replica_inv_append)
next
  case (apply_next i g rep r s')
  note inv = group_inv_replica [OF apply_next.prems apply_next.hyps(1,2)]
  obtain n a where st: "store_at (rp_options rep) n (fst (rp_state rep)) (snd (rp_state rep)) a"
    and c: "consistent (gr_log g) (rp_applied rep) a"
    using inv(1) by auto
  obtain cmd where cmd: "EncodeCommand cmd = Inr (gr_log g ! rp_applied rep)"
    using apply_next.prems log_ok_nth [OF _ apply_next.hyps(3)] unfolding group_inv_def by blast
  have "replica_inv (gr_log g) (rep\<lparr>rp_applied := Suc (rp_applied rep), rp_state := s'\<rparr>)"
    using FsmApply_calm [OF st cmd] consistent_apply [OF c apply_next.hyps(3) cmd] apply_next.hyps(4) inv(2)
    by (fastforce simp: replica_inv_def)
  then show ?case by (rule group_inv_set [OF apply_next.prems])
next
  case (flush i g rep db w r s')
  note inv = group_inv_replica [OF flush.prems flush.hyps(1,2)]
  obtain n a where st: "store_at (rp_options rep) n db w a"
    and c: "consistent (gr_log g) (rp_applied rep) a"
    using inv(1) flush.hyps(3) by auto
  have "replica_inv (gr_log g) (rep\<lparr>rp_state := s'\<rparr>)"
    using store_at_flush [OF st] c flush.hyps(4) inv(2) by (fastforce simp: replica_inv_def)
  then show ?case by (rule group_inv_set [OF flush.prems])
next
  case (compact i g rep db w r s')
  note inv = group_inv_replica [OF compact.prems compact.hyps(1,2)]
  obtain n a where st: "store_at (rp_options rep) n db w a"
    and c: "consistent (gr_log g) (rp_applied rep) a"
    using inv(1) compact.hyps(3) by auto
  have "replica_inv (gr_log g) (rep\<lparr>rp_state := s'\<rparr>)"
    using store_at_compact [OF st] c compact.hyps(4) inv(2) by (fastforce simp: replica_inv_def)
  then show ?case by (rule group_inv_set [OF compact.prems])
next
  case (snapshot i g rep db w archive s')
  note inv = group_inv_replica [OF snapshot.prems snapshot.hyps(1,2)]
  obtain n a where st: "store_at (rp_options rep) n db w a"
    and c: "consistent (gr_log g) (rp_applied rep) a"
    using inv(1) snapshot.hyps(3) by auto
  have "replica_inv (gr_log g) (rep\<lparr>rp_state := s', rp_snap := Some (rp_applied rep, archive)\<rparr>)"
    using store_at_snapshot [OF st snapshot.hyps(4,5) c] snapshot.hyps(6) c by (fastforce simp: replica_inv_def)
  then show ?case by (rule group_inv_set [OF snapshot.prems])
next
  case (install i g j rep idx archive r s')
  obtain n a where st: "store_at (rp_options rep) n (fst (rp_state rep)) (snd (rp_state rep)) a"
    using group_inv_replica(1) [OF install.prems install.hyps(1,3)] by blast
  have sn: "snapshot_ok (gr_log g) (idx, archive)"
    using group_inv_replica(2) [OF install.prems install.hyps(2) refl install.hyps(4)] .
  have "replica_inv (gr_log g) (rep\<lparr>rp_applied := idx, rp_state := s', rp_snap := Some (idx, archive)\<rparr>)"
    using store_at_restore [OF st sn] install.hyps(5) sn by (fastforce simp: replica_inv_def)
  then show ?case by (rule group_inv_set [OF install.prems])
next
  case (restart i g rep db w s')
  note inv = group_inv_replica [OF restart.prems restart.hyps(1,2)]
  obtain n a where st: "store_at (rp_options rep) n db w a"
    and c: "consistent (gr_log g) (rp_applied rep) a"
    using inv(1) restart.hyps(3) by auto
  have "replica_inv (gr_log g) (rep\<lparr>rp_applied := 0, rp_state := s'\<rparr>)"
    using store_at_restarted [OF st restart.hyps(4,6)] restart.hyps(5) consistent_mono [OF c, of 0]
    by (fastforce simp: replica_inv_def)
  then show ?case by (rule group_inv_set [OF restart.prems])
next
  case (restart_snapshot i g rep db w idx archive s1 r s')
  note inv = group_inv_replica [OF restart_snapshot.prems restart_snapshot.hyps(1,2)]
  obtain n a where st: "store_at (rp_options rep) n db w a"
    and c: "consistent (gr_log g) (rp_applied rep) a"
    using inv(1) restart_snapshot.hyps(3) by auto
  obtain n' where st1: "store_at (rp_options rep) n' (fst s1) (snd s1) a"
    using store_at_restarted [OF st restart_snapshot.hyps(4,6)] by blast
  have "replica_inv (gr_log g) (rep\<lparr>rp_applied := idx, rp_state := s'\<rparr>)"
    using store_at_restore [OF st1 inv(2) [OF restart_snapshot.hyps(5)]] restart_snapshot.hyps(5,7) inv(2)
    by (fastforce simp: replica_inv_def)
  then show ?case by (rule group_inv_set [OF restart_snapshot.prems])
qed

lemma group_inv_fresh: "fresh_group g \<Longrightarrow> group_inv g"
proof -
  assume g: "fresh_group g"
  have "replica_inv [] rep" if fresh: "fresh_replica rep" for rep
  proof -
    obtain db w where op: "open_db (rp_options rep) \<lparr>disk = [], faults = []\<rparr> = (Inr db, w)" "rp_state rep = (db, w)"
      and rep: "rp_applied rep = 0" "rp_snap rep = None"
      using fresh unfolding fresh_replica_def by blast
    then have "store_at (rp_options rep) 0 db w Map.empty" using open_fresh [of "rp_options rep"] by auto
    then show ?thesis using op(2) rep consistent_start by (fastforce simp: replica_inv_def)
  qed
  then show ?thesis using g by (auto simp: fresh_group_def group_inv_def log_ok_def)
qed

lemma group_inv_reachable: "group_step\<^sup>*\<^sup>* g g' \<Longrightarrow> group_inv g \<Longrightarrow> group_inv g'"
  by (induction rule: rtranclp_induct) (auto intro: group_step_inv)

end
