(* ===== verification/KV_Replicated.thy ===== *)
theory KV_Replicated
  imports KV_Group
begin

text \<open>
  The replicated store over a raft node: what the store relies on as the locale \<open>raft_leader\<close>, that
  it then is a backend, and the properties of replicated groups.
\<close>

section \<open>Timeouts and leadership\<close>

lemma timeoutFromContext_Inr:
  assumes "timeoutFromContext ctx fallback = Inr t" and "0 < fallback"
  shows "0 < t \<and> t \<le> fallback \<and> (\<forall>d. ctx_Deadline ctx = Some d \<longrightarrow> t \<le> d - ctx_Now ctx 1)"
  using assms by (auto simp: timeoutFromContext_def Let_def split: option.splits if_splits)

lemma timeoutFromContext_live:
  assumes "ctx_live ctx" and "0 < fallback"
  shows "\<exists>t. timeoutFromContext ctx fallback = Inr t \<and> 0 < t"
proof (cases "ctx_Deadline ctx")
  case (Some d)
  then have "ctx_Now ctx (Suc 0) < d" using assms(1) by (simp add: ctx_live_def)
  then show ?thesis using assms Some by (simp add: timeoutFromContext_def ctx_live_def Let_def not_le)
qed (use assms in \<open>simp add: timeoutFromContext_def ctx_live_def\<close>)

lemma newRaftStore_timeouts [simp]:
  "0 < rs_applyTimeout (newRaftStore node config)" "0 < rs_barrierTimeout (newRaftStore node config)"
  "rs_node (newRaftStore node config) = node"
  by (simp_all add: newRaftStore_def Let_def defaultApplyTimeout_def defaultBarrierTimeout_def Second_def)

lemma command_valid:
  "op_valid (OpPut k v) \<Longrightarrow> \<exists>data. EncodeCommand \<lparr>cmd_Type = CommandTypePut, cmd_Key = k, cmd_Value = v\<rparr> = Inr data"
  "op_valid (OpDelete k) \<Longrightarrow> \<exists>data. EncodeCommand \<lparr>cmd_Type = CommandTypeDelete, cmd_Key = k, cmd_Value = []\<rparr> = Inr data"
  by (simp_all add: EncodeCommand_def Encode_Inr_iff rec_ok_iff CommandTypePut_def CommandTypeDelete_def)

section \<open>The interface of a leader\<close>

text \<open>
  What the store relies on: a committed command takes effect on the map; after a barrier the local
  database has the whole map; and the node does not mind local operations that leave the database's
  map as it is.
\<close>

locale raft_leader =
  fixes node :: "('n \<times> db_state) raftNode" and repr :: "'n \<times> db_state \<Rightarrow> (bytes \<rightharpoonup> bytes) \<Rightarrow> bool"
    and config :: RaftStoreConfig
  assumes leader: "repr s a \<Longrightarrow> rn_IsLeader node s"
    and propose: "repr s a \<Longrightarrow> 0 < t \<Longrightarrow> EncodeCommand cmd = Inr data
      \<Longrightarrow> \<exists>s'. rn_Apply node data t s = (None, s') \<and> repr s' (apply_command cmd a)"
    and barrier: "repr s a \<Longrightarrow> 0 < t
      \<Longrightarrow> \<exists>n d. rn_Barrier node t s = (None, n, d) \<and> repr (n, d) a \<and> db_map d a"
    and local_op: "repr (n, d) a \<Longrightarrow> \<exists>b. db_map d b \<and> (\<forall>d'. db_map d' b \<longrightarrow> repr (n, d') a)"

sublocale raft_leader \<subseteq> replicated: shard_backend "raft_ops (newRaftStore node config)" repr
proof
  fix ctx s and a :: "bytes \<rightharpoonup> bytes" and k v :: bytes
  let ?rs = "newRaftStore node config"
  assume live: "ctx_live ctx" and s: "repr s a"
  have err: "ctx_Err ctx i = None" for i using live by (simp add: ctx_live_def)
  have chk: "checkLeader ?rs s = None" using leader [OF s] by (simp add: checkLeader_def)
  obtain t where t: "timeoutFromContext ctx (rs_applyTimeout ?rs) = Inr t" "0 < t"
    using timeoutFromContext_live [OF live] by (metis newRaftStore_timeouts(1))
  obtain tb where tb: "timeoutFromContext ctx (rs_barrierTimeout ?rs) = Inr tb" "0 < tb"
    using timeoutFromContext_live [OF live] by (metis newRaftStore_timeouts(2))
  note defs = raft_ops_def RaftPut_def RaftGet_def RaftDelete_def RaftFlush_def RaftCompact_def
  show "\<exists>s'. so_Put (raft_ops ?rs) ctx k v s = (None, s') \<and> repr s' (a(k \<mapsto> v))" if v: "op_valid (OpPut k v)"
  proof -
    obtain data where data: "EncodeCommand \<lparr>cmd_Type = CommandTypePut, cmd_Key = k, cmd_Value = v\<rparr> = Inr data"
      using command_valid(1) [OF v] by blast
    show ?thesis using propose [OF s t(2) data] data err chk t v by (auto simp: defs apply_command_def)
  qed
  show "\<exists>s'. so_Delete (raft_ops ?rs) ctx k s = (None, s') \<and> repr s' (a(k := None))" if v: "op_valid (OpDelete k)"
  proof -
    obtain data where data: "EncodeCommand \<lparr>cmd_Type = CommandTypeDelete, cmd_Key = k, cmd_Value = []\<rparr> = Inr data"
      using command_valid(2) [OF v] by blast
    show ?thesis using propose [OF s t(2) data] data err chk t v
      by (auto simp: defs apply_command_def CommandTypePut_def CommandTypeDelete_def record_consts)
  qed
  show "\<exists>g s'. so_Get (raft_ops ?rs) ctx k s = (Inr g, s') \<and> repr s' a \<and> reads_as (a k) g" if k: "k \<noteq> []"
  proof -
    obtain n db w where b: "rn_Barrier node tb s = (None, n, db, w)" "repr (n, db, w) a" and m: "db_map (db, w) a"
      using barrier [OF s tb(2)] by auto
    obtain g where "DbGet k db w = (Inr g, w)" "reads_as (a k) g"
    proof -
      obtain m where "calm w" "db_repr w db m" "kv_values m = a" using m by (auto simp: db_map_def)
      then show thesis using DbGet_calm [OF _ _ k] reads_as_get_value that by metis
    qed
    then show ?thesis using b err chk tb k by (simp add: defs)
  qed
  obtain n db w where ns: "s = (n, db, w)" by (cases s) auto
  obtain b where b: "db_map (db, w) b" and keep: "\<And>d'. db_map d' b \<Longrightarrow> repr (n, d') a"
    using local_op s unfolding ns by blast
  show "\<exists>s'. so_Flush (raft_ops ?rs) ctx s = (None, s') \<and> repr s' a"
    using standalone.flush [OF live b] err chk keep by (auto simp: defs ns standalone_defs)
  show "\<exists>s'. so_Compact (raft_ops ?rs) ctx s = Some (None, s') \<and> repr s' a"
    using standalone.compact [OF live b] err chk keep by (auto simp: defs ns standalone_defs)
  show "so_Put (raft_ops ?rs) ctx [] v s = (Some ErrEmptyKey, s)"
    "so_Get (raft_ops ?rs) ctx [] s = (Inl ErrEmptyKey, s)"
    "so_Delete (raft_ops ?rs) ctx [] s = (Some ErrEmptyKey, s)"
    by (simp_all add: defs)
qed

section \<open>The leader of a healthy group\<close>

text \<open>
  The library as documented, on a leader that keeps its majority: \<open>Apply\<close> commits the command,
  applies what is pending and then the command, and returns the state machine's response; \<open>Barrier\<close>
  applies what is pending.
\<close>

record leader_log =
  ld_log :: "bytes list"
  ld_applied :: nat

fun apply_pending :: "bytes list \<Rightarrow> db_state \<Rightarrow> err option \<times> db_state" where
  "apply_pending [] s = (None, s)"
| "apply_pending (data # rest) s =
     (case FsmApply data s of (r, s1) \<Rightarrow> if rest = [] then (r, s1) else apply_pending rest s1)"

definition healthy_Apply ::
  "bytes \<Rightarrow> int \<Rightarrow> leader_log \<times> db_state \<Rightarrow> (err option \<times> response) \<times> leader_log \<times> db_state" where
  "healthy_Apply data timeout s =
     (case s of (l, d) \<Rightarrow>
        let log = ld_log l @ [data]
        in (case apply_pending (drop (ld_applied l) log) d of
              (r, d') \<Rightarrow> ((None, case r of None \<Rightarrow> RespNil | Some e \<Rightarrow> RespErr e),
                         \<lparr>ld_log = log, ld_applied = length log\<rparr>, d')))"

definition healthy_Barrier :: "int \<Rightarrow> leader_log \<times> db_state \<Rightarrow> err option \<times> leader_log \<times> db_state" where
  "healthy_Barrier timeout s =
     (case s of (l, d) \<Rightarrow>
        (case apply_pending (drop (ld_applied l) (ld_log l)) d of
           (r, d') \<Rightarrow> (None, l\<lparr>ld_applied := length (ld_log l)\<rparr>, d')))"

definition healthy_lib :: "(leader_log \<times> db_state) raft_lib" where
  "healthy_lib = \<lparr>lib_State = (\<lambda>s. Leader), lib_LeaderWithID = (\<lambda>s. ('''', '''')), lib_Apply = healthy_Apply,
     lib_Barrier = healthy_Barrier, lib_Snapshot = Pair None, lib_Shutdown = Pair None,
     lib_CloseTransport = Pair None, lib_CloseStore = Pair None\<rparr>"

text \<open>The leader stands for the map of its log; its database may lag behind.\<close>

definition leader_map :: "leader_log \<times> db_state \<Rightarrow> (bytes \<rightharpoonup> bytes) \<Rightarrow> bool" where
  "leader_map s a \<longleftrightarrow> log_ok (ld_log (fst s)) \<and> a = log_map (ld_log (fst s))
     \<and> (\<exists>b. db_map (snd s) b \<and> consistent (ld_log (fst s)) (ld_applied (fst s)) b)"

lemma FsmApply_db_map:
  assumes "db_map s a" and cmd: "EncodeCommand cmd = Inr data"
  shows "\<exists>s'. FsmApply data s = (None, s') \<and> db_map s' (apply_command cmd a)"
proof -
  obtain db w where s: "s = (db, w)" by (cases s)
  note dec = DecodeCommand_Encode [OF cmd]
  show ?thesis
  proof (cases "cmd_Type cmd = CommandTypePut")
    case True
    then show ?thesis using standalone.put [OF ctx_live_Background assms(1), of "cmd_Key cmd" "cmd_Value cmd"] dec
      by (simp add: s FsmApply_def apply_command_def standalone_defs)
  next
    case False
    then show ?thesis using standalone.delete [OF ctx_live_Background assms(1), of "cmd_Key cmd"] dec
      by (simp add: s FsmApply_def apply_command_def standalone_defs)
  qed
qed

lemma apply_pending_calm:
  assumes "log_ok log" and "db_map d b" and "consistent log n b"
  shows "\<exists>d'. apply_pending (drop n log) d = (None, d') \<and> db_map d' (log_map log)"
  using assms(2,3)
proof (induction "length log - n" arbitrary: n d b)
  case 0
  then have "n = length log" using consistent_le by fastforce
  then show ?case using 0 consistent_all by auto
next
  case (Suc m)
  then have n: "n < length log" by simp
  then obtain cmd where cmd: "EncodeCommand cmd = Inr (log ! n)" using log_ok_nth [OF assms(1)] by blast
  obtain d1 where d1: "FsmApply (log ! n) d = (None, d1)" "db_map d1 (apply_command cmd b)"
    using FsmApply_db_map [OF Suc.prems(1) cmd] by blast
  have "\<exists>d'. apply_pending (drop (Suc n) log) d1 = (None, d') \<and> db_map d' (log_map log)"
    using Suc.hyps(1) [of "Suc n" d1] Suc.hyps(2) d1(2) consistent_apply [OF Suc.prems(2) n cmd] by simp
  moreover have "apply_pending (log ! n # drop (Suc n) log) d = apply_pending (drop (Suc n) log) d1"
    using d1(1) by (cases "drop (Suc n) log") simp_all
  ultimately show ?case using Cons_nth_drop_Suc [OF n] by simp
qed

interpretation healthy: raft_leader "node_methods healthy_lib" leader_map config for config
proof
  fix s a t cmd data n d
  show "rn_IsLeader (node_methods healthy_lib) s"
    by (simp add: node_methods_def NodeIsLeader_def healthy_lib_def)
  show "\<exists>s'. rn_Apply (node_methods healthy_lib) data t s = (None, s') \<and> leader_map s' (apply_command cmd a)"
    if s: "leader_map s a" and cmd: "EncodeCommand cmd = Inr data"
  proof -
    obtain l d where ld: "s = (l, d)" by (cases s)
    let ?log = "ld_log l @ [data]"
    obtain b where b: "db_map d b" "consistent (ld_log l) (ld_applied l) b" and ok: "log_ok (ld_log l)"
      and a: "a = log_map (ld_log l)"
      using s by (auto simp: leader_map_def ld)
    have ok': "log_ok ?log" using ok cmd by (auto simp: log_ok_def)
    obtain d' where ap: "apply_pending (drop (ld_applied l) ?log) d = (None, d')" and d': "db_map d' (log_map ?log)"
      using apply_pending_calm [OF ok' b(1) consistent_append [OF b(2)]] by blast
    have m: "log_map ?log = apply_command cmd a" using cmd a by (simp add: log_map_snoc apply_data_command)
    have "consistent ?log (length ?log) (log_map ?log)"
      unfolding consistent_def by (intro allI exI [of _ "length ?log"]) simp
    then have "leader_map (\<lparr>ld_log = ?log, ld_applied = length ?log\<rparr>, d') (apply_command cmd a)"
      using ok' d' m unfolding leader_map_def by auto
    then show ?thesis using ap
      by (simp add: node_methods_def NodeApply_def healthy_lib_def healthy_Apply_def ld Let_def)
  qed
  show "\<exists>n d. rn_Barrier (node_methods healthy_lib) t s = (None, n, d) \<and> leader_map (n, d) a \<and> db_map d a"
    if s: "leader_map s a"
  proof -
    obtain l d where ld: "s = (l, d)" by (cases s)
    obtain b where b: "db_map d b" "consistent (ld_log l) (ld_applied l) b" and ok: "log_ok (ld_log l)"
      and a: "a = log_map (ld_log l)"
      using s by (auto simp: leader_map_def ld)
    obtain d' where ap: "apply_pending (drop (ld_applied l) (ld_log l)) d = (None, d')" and d': "db_map d' a"
      using apply_pending_calm [OF ok b] a by blast
    have "consistent (ld_log l) (length (ld_log l)) a"
      unfolding consistent_def a by (intro allI exI [of _ "length (ld_log l)"]) simp
    then have "leader_map (l\<lparr>ld_applied := length (ld_log l)\<rparr>, d') a"
      using ok d' a unfolding leader_map_def by auto
    then show ?thesis using ap d'
      by (simp add: node_methods_def NodeBarrier_def healthy_lib_def healthy_Barrier_def ld)
  qed
  show "\<exists>b. db_map d b \<and> (\<forall>d'. db_map d' b \<longrightarrow> leader_map (n, d') a)" if "leader_map (n, d) a"
    using that by (auto simp: leader_map_def)
qed

section \<open>Properties\<close>

lemma reachable_store_at:
  assumes "fresh_group g0" and "group_step\<^sup>*\<^sup>* g0 g" and "i < length (gr_replicas g)"
  shows "\<exists>n a. store_at (rp_options (gr_replicas g ! i)) n (fst (rp_state (gr_replicas g ! i)))
      (snd (rp_state (gr_replicas g ! i))) a \<and> consistent (gr_log g) (rp_applied (gr_replicas g ! i)) a"
    and "log_ok (gr_log g)"
  using group_inv_reachable [OF assms(2) group_inv_fresh [OF assms(1)]] group_inv_replica(1) [OF _ assms(3) refl]
  by (auto simp: group_inv_def)

text \<open>A replica of a group that starts to lead.\<close>

definition leader_of :: "raft_group \<Rightarrow> nat \<Rightarrow> leader_log \<times> db_state" where
  "leader_of g i = (\<lparr>ld_log = gr_log g, ld_applied = rp_applied (gr_replicas g ! i)\<rparr>, rp_state (gr_replicas g ! i))"

lemma replica_leads:
  assumes "fresh_group g0" and "group_step\<^sup>*\<^sup>* g0 g" and "i < length (gr_replicas g)"
  shows "leader_map (leader_of g i) (log_map (gr_log g))"
proof -
  obtain n a where "store_at (rp_options (gr_replicas g ! i)) n (fst (rp_state (gr_replicas g ! i)))
      (snd (rp_state (gr_replicas g ! i))) a" and c: "consistent (gr_log g) (rp_applied (gr_replicas g ! i)) a"
    using reachable_store_at(1) [OF assms] by blast
  then have "db_map (rp_state (gr_replicas g ! i)) a" using db_map_store_at by fastforce
  then show ?thesis using c reachable_store_at(2) [OF assms] unfolding leader_map_def leader_of_def by auto
qed

text \<open>
  C8: Replicas agree.  Start from replicas with empty directories and let commands be committed,
  applied, replicas flush, compact, take and install snapshots, be closed, killed and restarted, in
  any order.  A replica that has applied \<open>n\<close> commands answers a \<open>Get\<close> with the value that this key had
  after some prefix of the common log at least \<open>n\<close> long, so it never shows a value that was not
  committed.  The prefix depends on the key: a restarted replica applies commands again to a database
  that has seen later ones, and meanwhile shows old values of some keys beside newer ones of others.
  A replica that has applied the whole log answers every \<open>Get\<close> as the map of the log, so all such
  replicas agree.
\<close>

theorem replicas_agree:
  assumes "fresh_group g0" and "group_step\<^sup>*\<^sup>* g0 g" and "i < length (gr_replicas g)"
    and "rp_state (gr_replicas g ! i) = (db, w)"
  shows "(\<forall>k. k \<noteq> [] \<longrightarrow> (\<exists>h v. rp_applied (gr_replicas g ! i) \<le> h \<and> h \<le> length (gr_log g)
      \<and> DbGet k db w = (Inr v, w) \<and> reads_as (log_map (take h (gr_log g)) k) v))
    \<and> (rp_applied (gr_replicas g ! i) = length (gr_log g)
        \<longrightarrow> (\<forall>k. k \<noteq> [] \<longrightarrow> (\<exists>v. DbGet k db w = (Inr v, w) \<and> reads_as (log_map (gr_log g) k) v)))"
proof -
  obtain n a where st: "store_at (rp_options (gr_replicas g ! i)) n db w a"
    and c: "consistent (gr_log g) (rp_applied (gr_replicas g ! i)) a"
    using reachable_store_at(1) [OF assms(1-3)] assms(4) by auto
  have "\<exists>h v. rp_applied (gr_replicas g ! i) \<le> h \<and> h \<le> length (gr_log g)
      \<and> DbGet k db w = (Inr v, w) \<and> reads_as (log_map (take h (gr_log g)) k) v" if "k \<noteq> []" for k
  proof -
    obtain h where "rp_applied (gr_replicas g ! i) \<le> h" "h \<le> length (gr_log g)" "a k = log_map (take h (gr_log g)) k"
      using c unfolding consistent_def by blast
    then show ?thesis using store_at_get [OF st that] by metis
  qed
  moreover have "\<exists>v. DbGet k db w = (Inr v, w) \<and> reads_as (log_map (gr_log g) k) v"
    if "rp_applied (gr_replicas g ! i) = length (gr_log g)" and "k \<noteq> []" for k
    using consistent_all c that(1) store_at_get [OF st that(2)] by metis
  ultimately show ?thesis by blast
qed

text \<open>A group of one replica that has applied one command.\<close>

lemma example_group:
  "\<exists>g0 g db w. fresh_group g0 \<and> group_step\<^sup>*\<^sup>* g0 g \<and> length (gr_replicas g) = 1
     \<and> gr_log g = [frame \<lparr>rec_Type = TypePut, rec_Key = [1], rec_Value = [2]\<rparr>]
     \<and> rp_applied (gr_replicas g ! 0) = 1 \<and> rp_state (gr_replicas g ! 0) = (db, w)"
proof -
  let ?o = "\<lparr>opt_Dir = ''data'', opt_sstDir = [], opt_MemTableSize = 0\<rparr>"
  let ?cmd = "\<lparr>cmd_Type = CommandTypePut, cmd_Key = [1], cmd_Value = [2]\<rparr>"
  let ?data = "frame \<lparr>rec_Type = TypePut, rec_Key = [1], rec_Value = [2]\<rparr>"
  obtain db w where op: "open_db ?o \<lparr>disk = [], faults = []\<rparr> = (Inr db, w)" using open_fresh [of ?o] by blast
  let ?rep = "\<lparr>rp_options = ?o, rp_applied = 0, rp_state = (db, w), rp_snap = None\<rparr>"
  let ?g0 = "\<lparr>gr_log = [], gr_replicas = [?rep]\<rparr>" and ?g1 = "\<lparr>gr_log = [?data], gr_replicas = [?rep]\<rparr>"
  have "fresh_group ?g0" using op by (simp add: fresh_group_def fresh_replica_def)
  moreover have "EncodeCommand ?cmd = Inr ?data"
    by (simp add: EncodeCommand_def Encode_Inr_iff rec_ok_iff CommandTypePut_def MaxUint32_def)
  then have "group_step ?g0 ?g1" using commit [of ?cmd ?data ?g0] by simp
  moreover obtain r db' w' where ap: "FsmApply ?data (db, w) = (r, db', w')" by (metis prod.exhaust)
  then have "group_step ?g1 \<lparr>gr_log = [?data], gr_replicas = [?rep\<lparr>rp_applied := 1, rp_state := (db', w')\<rparr>]\<rparr>"
    using apply_next [of 0 ?g1 ?rep r "(db', w')"] by (simp add: set_replica_def)
  ultimately show ?thesis
    by (intro exI [of _ ?g0] exI [of _ "\<lparr>gr_log = [?data], gr_replicas = [?rep\<lparr>rp_applied := 1, rp_state := (db', w')\<rparr>]\<rparr>"]
        exI [of _ db'] exI [of _ w']) (simp add: converse_rtranclp_into_rtranclp)
qed

lemma example_log_map:
  "log_map [frame \<lparr>rec_Type = TypePut, rec_Key = [1], rec_Value = [2]\<rparr>] = [[1] \<mapsto> [2]]"
proof -
  have "EncodeCommand \<lparr>cmd_Type = CommandTypePut, cmd_Key = [1], cmd_Value = [2]\<rparr>
      = Inr (frame \<lparr>rec_Type = TypePut, rec_Key = [1], rec_Value = [2]\<rparr>)"
    by (simp add: EncodeCommand_def Encode_Inr_iff rec_ok_iff CommandTypePut_def MaxUint32_def)
  then show ?thesis using apply_data_command by (simp add: log_map_def apply_command_def)
qed

theorem replicas_agree_witness:
  "\<exists>(g :: raft_group) db w. rp_state (gr_replicas g ! 0) = (db, w) \<and> rp_applied (gr_replicas g ! 0) = 1 \<and> length (gr_log g) = 1
    \<and> DbGet [1] db w = (Inr (Some [2]), w)"
proof -
  obtain g0 g db w where "fresh_group g0" "group_step\<^sup>*\<^sup>* g0 g" and len: "length (gr_replicas g) = 1"
    and log: "gr_log g = [frame \<lparr>rec_Type = TypePut, rec_Key = [1], rec_Value = [2]\<rparr>]"
    and ap: "rp_applied (gr_replicas g ! 0) = 1" and st: "rp_state (gr_replicas g ! 0) = (db, w)"
    using example_group by blast
  from replicas_agree [OF this(1,2) _ st] len ap log have "\<forall>k. k \<noteq> [] \<longrightarrow> (\<exists>v. DbGet k db w = (Inr v, w) \<and> reads_as (log_map (gr_log g) k) v)"
    by simp
  then obtain v where g: "DbGet [1] db w = (Inr v, w)" and v: "reads_as (log_map (gr_log g) [1]) v"
    by blast
  then have "v = Some [2]" using example_log_map log by (simp add: reads_as_def)
  then show ?thesis using g ap st log by (intro exI [of _ g] exI [of _ db] exI [of _ w]) simp
qed

text \<open>
  C4: Any replica can lead.  In every reachable state of a group, take any replica, however far it
  lags behind the log after restarts and snapshots, and let it lead with its majority.  Its
  \<open>RaftStore\<close> answers every sequence of requests as the map of the whole log would: reads wait for
  the barrier and miss no committed command, and writes take effect in order.
\<close>

theorem any_replica_can_lead:
  assumes "fresh_group g0" and "group_step\<^sup>*\<^sup>* g0 g" and "i < length (gr_replicas g)"
    and "ctx_live ctx" and "\<forall>r \<in> set rs. request_valid r"
  shows "\<exists>xs s'. serve_all (raft_ops (newRaftStore (node_methods healthy_lib) config)) ctx rs
      (\<lparr>ld_log = gr_log g, ld_applied = rp_applied (gr_replicas g ! i)\<rparr>, rp_state (gr_replicas g ! i)) = Some (xs, s')
    \<and> all_answered rs (log_map (gr_log g)) xs"
proof -
  have "leader_map (leader_of g i) (log_map (gr_log g))" by (rule replica_leads [OF assms(1-3)])
  from healthy.replicated.serve_requests [OF assms(4) this assms(5)] show ?thesis
    unfolding leader_of_def by blast
qed

theorem any_replica_can_lead_witness:
  "\<exists>xs s s'. serve_all (raft_ops (newRaftStore (node_methods healthy_lib) \<lparr>rsc_ApplyTimeout = 0, rsc_BarrierTimeout = 0\<rparr>))
      Background [ReqGet [1], ReqDelete [1], ReqGet [1]] s = Some (xs, s')
    \<and> hd xs = Got (Inr (Some [2]))"
proof -
  let ?rs = "[ReqGet [1], ReqDelete [1], ReqGet [1]]"
  obtain g0 g where g: "fresh_group g0" "group_step\<^sup>*\<^sup>* g0 g" "length (gr_replicas g) = 1"
    and log: "gr_log g = [frame \<lparr>rec_Type = TypePut, rec_Key = [1], rec_Value = [2]\<rparr>]"
    using example_group by blast
  have "\<forall>r \<in> set ?rs. request_valid r" by (simp add: MaxUint32_def)
  moreover have "0 < length (gr_replicas g)" using g(3) by simp
  ultimately obtain xs s s' where run: "serve_all (raft_ops (newRaftStore (node_methods healthy_lib) \<lparr>rsc_ApplyTimeout = 0, rsc_BarrierTimeout = 0\<rparr>))
      Background ?rs s = Some (xs, s')" and all: "all_answered ?rs (log_map (gr_log g)) xs"
    using any_replica_can_lead [OF g(1,2) _ ctx_live_Background] by blast
  obtain x ys where xs: "xs = x # ys" using all by (cases xs) auto
  then have "answers (ReqGet [1]) [[1] \<mapsto> [2]] x" using all unfolding log example_log_map by simp
  then have "x = Got (Inr (Some [2]))" by (auto simp: reads_as_def elim!: answers.elims)
  then have "hd xs = Got (Inr (Some [2]))" using xs by simp
  then show ?thesis using run by blast
qed

text \<open>
  C24: What reaches the raft node.  A \<open>Put\<close> or \<open>Delete\<close> of a store made by \<open>newRaftStore\<close> either
  returns an error and changes nothing, or it hands the encoding of exactly this command to a node
  that was the leader, with a timeout that is positive, at most the configured one and at most the
  time left to the deadline.  On a node that is not the leader the error of a live request is the
  \<open>NotLeaderError\<close> with the leader that the node knows.
\<close>

theorem RaftStore_proposes_only_as_leader:
  assumes "rs = newRaftStore node config" and "k \<noteq> []"
    and "del \<and> RaftDelete rs ctx k s = (r, s') \<or> \<not> del \<and> RaftPut rs ctx k v s = (r, s')"
  shows "(r \<noteq> None \<and> s' = s
      \<and> (ctx_Err ctx 0 = None \<and> \<not> rn_IsLeader node s \<longrightarrow>
           r = Some (NotLeaderError (fst (rn_Leader node s)) (snd (rn_Leader node s)))))
    \<or> (\<exists>data t. rn_IsLeader node s \<and> (r, s') = rn_Apply node data t s \<and> 0 < t \<and> t \<le> rs_applyTimeout rs
        \<and> (\<forall>d. ctx_Deadline ctx = Some d \<longrightarrow> t \<le> d - ctx_Now ctx 1)
        \<and> DecodeCommand data = Inr \<lparr>cmd_Type = (if del then CommandTypeDelete else CommandTypePut), cmd_Key = k,
             cmd_Value = (if del then [] else v)\<rparr>)"
proof -
  let ?cmd = "\<lparr>cmd_Type = (if del then CommandTypeDelete else CommandTypePut), cmd_Key = k,
             cmd_Value = (if del then [] else v)\<rparr>"
  have eq: "(r, s') = (case ctx_Err ctx 0 of
           Some e \<Rightarrow> (Some e, s)
         | None \<Rightarrow>
        (case checkLeader rs s of
           Some e \<Rightarrow> (Some e, s)
         | None \<Rightarrow>
        (case EncodeCommand ?cmd of
           Inl e \<Rightarrow> (Some e, s)
         | Inr data \<Rightarrow>
        (case timeoutFromContext ctx (rs_applyTimeout rs) of
           Inl e \<Rightarrow> (Some e, s)
         | Inr timeout \<Rightarrow> rn_Apply (rs_node rs) data timeout s))))"
    using assms(2,3) by (cases del) (auto simp: RaftPut_def RaftDelete_def)
  have lead: "checkLeader rs s = None \<longleftrightarrow> rn_IsLeader node s"
    "\<not> rn_IsLeader node s \<Longrightarrow> checkLeader rs s = Some (NotLeaderError (fst (rn_Leader node s)) (snd (rn_Leader node s)))"
    by (auto simp: checkLeader_def assms(1) split: prod.splits)
  show ?thesis
  proof (cases "ctx_Err ctx 0 = None \<and> checkLeader rs s = None")
    case True
    show ?thesis
    proof (cases "EncodeCommand ?cmd")
      case (Inr data)
      then have "DecodeCommand data = Inr ?cmd" by (rule DecodeCommand_Encode)
      note dec = this
      show ?thesis
      proof (cases "timeoutFromContext ctx (rs_applyTimeout rs)")
        case t: (Inr t)
        have "0 < rs_applyTimeout rs" by (simp add: assms(1))
        from timeoutFromContext_Inr [OF t this] show ?thesis
          using eq True Inr lead(1) dec t by (intro disjI2 exI [of _ data] exI [of _ t]) (simp add: assms(1))
      qed (use eq True Inr lead in auto)
    qed (use eq True lead in auto)
  qed (use eq lead in \<open>auto split: option.splits\<close>)
qed

theorem RaftStore_proposes_only_as_leader_witness:
  "\<exists>(s :: nat \<times> db_state) r s'. RaftPut (newRaftStore \<lparr>rn_IsLeader = (\<lambda>s. False), rn_Leader = (\<lambda>s. (''n2'', '':10002'')),
        rn_Apply = (\<lambda>d t s. (None, s)), rn_Barrier = (\<lambda>t s. (None, s))\<rparr> \<lparr>rsc_ApplyTimeout = 0, rsc_BarrierTimeout = 0\<rparr>)
      Background [1] [2] s = (r, s')
    \<and> r = Some (NotLeaderError ''n2'' '':10002'') \<and> s' = s"
proof -
  let ?node = "\<lparr>rn_IsLeader = (\<lambda>s. False), rn_Leader = (\<lambda>s. (''n2'', '':10002'')),
        rn_Apply = (\<lambda>d t s. (None, s)), rn_Barrier = (\<lambda>t s. (None, s))\<rparr> :: (nat \<times> db_state) raftNode"
  let ?c = "\<lparr>rsc_ApplyTimeout = 0, rsc_BarrierTimeout = 0\<rparr>"
  obtain r and s s' :: "nat \<times> db_state" where run: "RaftPut (newRaftStore ?node ?c) Background [1] [2] s = (r, s')"
    by (metis prod.exhaust)
  from RaftStore_proposes_only_as_leader [OF refl, of "[1]" False ?node ?c Background s r s' "[2]"] run
  have "r = Some (NotLeaderError ''n2'' '':10002'') \<and> s' = s" by (simp add: Background_def)
  then show ?thesis using run by blast
qed

text \<open>
  Opening a node leaks nothing.  Whatever the calls return, \<open>NewNode\<close> either succeeds with the
  log store and the transport open and the raft node started, last, with a positive snapshot
  threshold and interval, or it fails, has not started the node, and has closed whatever it opened.
  It bootstraps only on request and only where there is no earlier state.
\<close>

lemma NewNode_leaks_nothing:
  "case NewNode config calls of (r, tr) \<Rightarrow>
     (if r = None
      then tr \<noteq> [] \<and> (\<exists>n i. last tr = StartRaft n i \<and> 0 < n \<and> 0 < i)
        \<and> count_list tr OpenStore = 1 \<and> count_list tr OpenTransport = 1
        \<and> CloseStore \<notin> set tr \<and> CloseTransport \<notin> set tr
      else (\<forall>n i. StartRaft n i \<notin> set tr)
        \<and> count_list tr CloseStore = count_list tr OpenStore
        \<and> count_list tr CloseTransport = count_list tr OpenTransport)
     \<and> (\<forall>servers. Bootstrap servers \<in> set tr \<longrightarrow> nc_Bootstrap config \<and> call_HasExistingState calls = Inr False
          \<and> servers = newRaftConfiguration (nc_Peers config) \<and> validateNodeConfig config = None)"
proof -
  have "0 < fst (snapshot_settings config)" "0 < snd (snapshot_settings config)"
    by (simp_all add: snapshot_settings_def defaultSnapshotThreshold_def defaultSnapshotInterval_def Second_def
        word_neq_0_conv [symmetric])
  then show ?thesis by (simp add: NewNode_def Let_def split: option.splits sum.splits)
qed

lemma NewNode_leaks_nothing_witness:
  "\<exists>config calls e tr. NewNode config calls = (Some e, tr) \<and> OpenStore \<in> set tr
    \<and> Bootstrap [Voter ''n1'' '':10001''] \<in> set tr \<and> count_list tr CloseStore = count_list tr OpenStore
    \<and> count_list tr CloseTransport = count_list tr OpenTransport"
proof -
  let ?config = "\<lparr>nc_NodeID = ''n1'', nc_RaftAddr = '':10001'', nc_RaftDir = ''raft'',
    nc_Peers = [\<lparr>pe_ID = ''n1'', pe_RaftAddr = '':10001''\<rparr>], nc_Bootstrap = True, nc_SnapshotThreshold = 0,
    nc_SnapshotInterval = 0\<rparr>"
  let ?calls = "\<lparr>call_MkdirAll = None, call_NewBoltStore = None, call_NewFileSnapshotStore = None,
    call_ResolveTCPAddr = None, call_NewTCPTransport = None, call_HasExistingState = Inr False,
    call_BootstrapCluster = None, call_NewRaft = Some EOF\<rparr>"
  obtain r tr where run: "NewNode ?config ?calls = (r, tr)" by (cases "NewNode ?config ?calls")
  then have "r = Some EOF" "OpenStore \<in> set tr" "Bootstrap [Voter ''n1'' '':10001''] \<in> set tr"
    by (auto simp: NewNode_def validateNodeConfig_def newRaftConfiguration_def)
  then show ?thesis using NewNode_leaks_nothing [of ?config ?calls] run by auto
qed

end
