(* ===== verification/KV_EndToEnd.thy ===== *)
theory KV_EndToEnd
  imports KV_Client KV_Replicated
begin

text \<open>
  Clients and servers together: every process of a cluster serves a sharded store, and routed clients
  call them.  The environment of a client is the store of every process, by client address.
\<close>

section \<open>Processes and connections\<close>

text \<open>
  The generated stub: a connection is the address that it leads to, and a call runs the server's
  handler on the store of the process there.  A value arrives as the handler returned it; on the wire an
  empty value becomes nil, which differs from it only for a caller that compares with nil.
\<close>

type_synonym 's processes = "string \<Rightarrow> 's ShardStore option"

definition on_process :: "string \<Rightarrow> ('s ShardStore option \<Rightarrow> 'r \<times> 's ShardStore option) \<Rightarrow> 's processes \<Rightarrow> 'r \<times> 's processes" where
  "on_process t f e = (case f (e t) of (r, s) \<Rightarrow> (r, e(t := s)))"

definition server_stub :: "'s store_ops \<Rightarrow> (string, 's processes) KVServiceClient" where
  "server_stub ops =
     \<lparr>stub_Put = (\<lambda>t ctx k v. on_process t (ServerPut (shard_ops ops) ctx (Some (k, v)))),
      stub_Get = (\<lambda>t ctx k. on_process t (ServerGet (shard_ops ops) ctx (Some k))),
      stub_Delete = (\<lambda>t ctx k. on_process t (ServerDelete (shard_ops ops) ctx (Some k))),
      stub_Flush = (\<lambda>t ctx. on_process t (ServerFlush (shard_ops ops) ctx (Some ()))),
      stub_Compact = (\<lambda>t ctx. on_process t (\<lambda>s. the (ServerCompact (shard_ops ops) ctx (Some ()) s)))\<rparr>"

text \<open>Only the processes in \<open>up\<close> can be dialled.\<close>

definition dial_up :: "string set \<Rightarrow> Context \<Rightarrow> string \<Rightarrow> 'e \<Rightarrow> (err + string) \<times> 'e" where
  "dial_up up ctx t e = (if t \<in> up then (Inr t, e) else (Inl DeadlineExceeded, e))"

definition close_up :: "string \<Rightarrow> 'e \<Rightarrow> err option \<times> 'e" where
  "close_up t e = (None, e)"

section \<open>Calls that cannot succeed\<close>

lemma group_attempts_fails:
  assumes dial: "\<And>t e. keep e \<Longrightarrow> keep (snd (dial ctx t e))" and close: "\<And>t e. keep e \<Longrightarrow> keep (snd (close t e))"
    and fn: "\<And>t e. keep e \<Longrightarrow> fst (fn t e) \<noteq> None \<and> keep (snd (fn t e))" and "keep e"
  shows "fst (group_attempts dial close ctx g replicas fn as lastErr c e) \<noteq> None"
  using assms(4)
proof (induction as arbitrary: lastErr c e)
  case Nil
  then show ?case by (simp split: option.split)
next
  case (Cons a as)
  let ?n = "pickNode g replicas a c"
  obtain r c1 e1 where cl: "clientForNode dial close ctx ?n c e = (r, c1, e1)" by (metis prod_cases3)
  have "keep e1"
    using cl Cons.prems dial [of e] close
    by (auto simp: clientForNode_def split: option.splits prod.splits sum.splits) (metis snd_conv)+
  show ?case
  proof (cases r)
    case (Inl err)
    then show ?thesis using cl Cons.IH [OF \<open>keep e1\<close>] by simp
  next
    case (Inr client)
    obtain x e2 where f: "fn client e1 = (x, e2)" by (cases "fn client e1")
    then obtain err where "x = Some err" "keep e2" using fn [OF \<open>keep e1\<close>, of client] by auto
    then show ?thesis using cl Inr f Cons.IH [of e2] by (simp split: prod.split bool.split)
  qed
qed

text \<open>A group that the process does not lead.\<close>

definition follows_some :: "('n \<times> db_state) raftNode \<Rightarrow> (GroupID \<times> 'n \<times> db_state) list \<Rightarrow> bool" where
  "follows_some node gs \<longleftrightarrow> (\<exists>g s. (g, s) \<in> set gs \<and> \<not> rn_IsLeader node s)"

lemma RaftFlush_follower:
  "\<not> rn_IsLeader node s \<Longrightarrow> \<exists>err. RaftFlush (newRaftStore node config) ctx s = (Some err, s)"
  by (auto simp: RaftFlush_def checkLeader_def split: option.split prod.split)

lemma flush_groups_follower:
  assumes "follows_some node gs"
  shows "fst (flush_groups (raft_ops (newRaftStore node config)) ctx gs) \<noteq> None
    \<and> follows_some node (snd (flush_groups (raft_ops (newRaftStore node config)) ctx gs))"
  using assms
proof (induction gs arbitrary: ctx)
  case (Cons p gs)
  obtain g s where p: "p = (g, s)" by (cases p)
  obtain r s' where f: "RaftFlush (newRaftStore node config) ctx s = (r, s')"
    by (cases "RaftFlush (newRaftStore node config) ctx s")
  show ?case
  proof (cases "rn_IsLeader node s")
    case True
    then have "follows_some node gs" using Cons.prems p by (auto simp: follows_some_def)
    then show ?thesis using Cons.IH [of "ctx_later ctx"] f p
      by (cases r) (auto simp: raft_ops_def follows_some_def split: prod.splits)
  next
    case False
    then obtain err where "r = Some err" "s' = s" using RaftFlush_follower [of node s config ctx] f by auto
    then show ?thesis using f p Cons.prems by (simp add: raft_ops_def)
  qed
qed (simp add: follows_some_def)

text \<open>
  C38: A flush through the client needs one node that leads all its groups.  A server flushes every
  group that its process hosts and stops at the first error.  When every process hosts some group
  that it does not lead, as after any election that spreads the leaders, \<open>FlushGroup\<close> fails for every
  group, whatever the client remembers and whoever can be dialled, and \<open>Flush\<close> fails as well.
\<close>

theorem flush_fails_with_spread_leaders:
  assumes "\<forall>t. \<exists>ss. e t = Some ss \<and> follows_some node (ss_groups ss)"
  shows "fst (FlushGroup (dial_up up) close_up (server_stub (raft_ops (newRaftStore node config))) ctx g c e) \<noteq> None
    \<and> (rcl_groups c = [] \<or> fst (RoutedFlush (dial_up up) close_up (server_stub (raft_ops (newRaftStore node config))) ctx c e) \<noteq> None)"
proof -
  let ?ops = "raft_ops (newRaftStore node config)"
  let ?keep = "\<lambda>e. \<forall>t. \<exists>ss. e t = Some ss \<and> follows_some node (ss_groups ss)"
  let ?fn = "\<lambda>t. ClientFlush (server_stub ?ops) t ctx"
  have fn: "fst (?fn t e) \<noteq> None \<and> ?keep (snd (?fn t e))" if k: "?keep e" for t e
  proof -
    obtain ss where ss: "e t = Some ss" "follows_some node (ss_groups ss)" using k by blast
    obtain r gs where f: "flush_groups ?ops ctx (ss_groups ss) = (r, gs)" by (cases "flush_groups ?ops ctx (ss_groups ss)")
    have "r \<noteq> None" "follows_some node gs" using flush_groups_follower [OF ss(2), of config ctx] f by auto
    then obtain err where r: "r = Some err" by blast
    have "ServerFlush (shard_ops ?ops) ctx (Some ()) (e t) = (server_mapError (Some err), Some (ss\<lparr>ss_groups := gs\<rparr>))"
      using f r ss(1) by (simp add: ServerFlush_def shard_ops_def ShardFlush_def)
    then have "?fn t e = (map_option client_mapError (server_mapError (Some err)), e(t := Some (ss\<lparr>ss_groups := gs\<rparr>)))"
      by (simp add: ClientFlush_def server_stub_def on_process_def)
    then show ?thesis using k \<open>follows_some node gs\<close> by (simp add: server_mapError_def)
  qed
  have one: "fst (FlushGroup (dial_up up) close_up (server_stub ?ops) ctx g c e) \<noteq> None" for g
  proof -
    have "fst (group_attempts (dial_up up) close_up ctx g replicas ?fn as lastErr c e) \<noteq> None" for replicas as lastErr
      by (rule group_attempts_fails [where keep = ?keep, OF _ _ fn assms]) (simp_all add: dial_up_def close_up_def)
    then show ?thesis by (simp add: FlushGroup_def withGroupClient_def Let_def split: option.split)
  qed
  moreover have "fst (RoutedFlush (dial_up up) close_up (server_stub ?ops) ctx c e) \<noteq> None" if "rcl_groups c \<noteq> []"
  proof -
    obtain g gs where "map fst (rcl_groups c) = g # gs" using \<open>rcl_groups c \<noteq> []\<close> by (cases "rcl_groups c") auto
    then show ?thesis using one [of g] by (auto simp: RoutedFlush_def split: prod.splits option.splits)
  qed
  ultimately show ?thesis by blast
qed

theorem flush_fails_with_spread_leaders_witness:
  "\<exists>(w :: db_state) e. (\<forall>t. e t = Some \<lparr>ss_router = None, ss_groups = [(''g1'', t = '':9001'', w), (''g2'', t \<noteq> '':9001'', w)]\<rparr>)
    \<and> fst (FlushGroup (dial_up UNIV) close_up
        (server_stub (raft_ops (newRaftStore
          \<lparr>rn_IsLeader = fst, rn_Leader = (\<lambda>s. ([], [])), rn_Apply = (\<lambda>d t s. (None, s)), rn_Barrier = (\<lambda>t s. (None, s))\<rparr>
          \<lparr>rsc_ApplyTimeout = 0, rsc_BarrierTimeout = 0\<rparr>)))
        Background ''g1''
        \<lparr>rcl_router = None, rcl_nodes = [(''n1'', \<lparr>nd_ID = ''n1'', nd_ClientAddr = '':9001''\<rparr>), (''n2'', \<lparr>nd_ID = ''n2'', nd_ClientAddr = '':9002''\<rparr>)],
          rcl_groups = [(''g1'', [''n1'', ''n2'']), (''g2'', [''n1'', ''n2''])], rcl_raftAddrNode = [], rcl_clients = [],
          rcl_leaders = []\<rparr> e) \<noteq> None"
proof -
  fix w :: db_state
  let ?e = "\<lambda>t. Some \<lparr>ss_router = None, ss_groups = [(''g1'', t = '':9001'', w), (''g2'', t \<noteq> '':9001'', w)]\<rparr>"
  let ?node = "\<lparr>rn_IsLeader = fst, rn_Leader = (\<lambda>s. ([], [])), rn_Apply = (\<lambda>d t s. (None, s)), rn_Barrier = (\<lambda>t s. (None, s))\<rparr>
    :: (bool \<times> db_state) raftNode"
  have "follows_some ?node [(''g1'', b, w), (''g2'', \<not> b, w)]" for b
    unfolding follows_some_def
    by (intro exI [of _ "if b then ''g2'' else ''g1''"] exI [of _ "(False, w)"]) simp
  then have "\<forall>t. \<exists>ss. ?e t = Some ss \<and> follows_some ?node (ss_groups ss)" by auto
  from flush_fails_with_spread_leaders [OF this] show ?thesis by (intro exI [of _ w] exI [of _ ?e]) blast
qed

end
