(* ===== verification/KV_Requests.thy ===== *)
theory KV_Requests
  imports KV_EndToEnd
begin

text \<open>
  Requests on keys from a client to the leader and back: under the interface \<open>replica_ops\<close>, which says
  what leaders and followers answer, a routed client of a valid cluster serves one map.  The replicas
  of the raft package provide the interface.
\<close>

section \<open>The client's memory\<close>

text \<open>What a client of a configuration knows; its connections lead to processes that are up.\<close>

definition is_replica :: "Group \<Rightarrow> string \<Rightarrow> bool" where
  "is_replica grp n \<longleftrightarrow> n \<in> gr_NodeID ` set (gp_Replicas grp)"

definition client_ok :: "Config \<Rightarrow> Router \<Rightarrow> string set \<Rightarrow> string RoutedClient \<Rightarrow> bool" where
  "client_ok cfg router up c \<longleftrightarrow> rcl_router c = Some router
     \<and> (\<forall>node \<in> set (cc_Nodes cfg). map_of (rcl_nodes c) (nd_ID node) = Some node)
     \<and> (\<forall>grp \<in> set (cc_Groups cfg). entry_or [] (rcl_groups c) (gp_ID grp) = map gr_NodeID (gp_Replicas grp)
          \<and> (\<forall>addr n. map_of (entry_or [] (rcl_raftAddrNode c) (gp_ID grp)) addr = Some n \<longrightarrow> is_replica grp n)
          \<and> (\<forall>n. map_of (rcl_leaders c) (gp_ID grp) = Some n \<longrightarrow> is_replica grp n))
     \<and> (\<forall>node \<in> set (cc_Nodes cfg). \<forall>t. map_of (rcl_clients c) (nd_ID node) = Some t \<longrightarrow> t \<in> up \<and> t = nd_ClientAddr node)"

lemma replica_node:
  assumes "cluster_ok cfg" and "grp \<in> set (cc_Groups cfg)" and "is_replica grp n"
  obtains node where "node \<in> set (cc_Nodes cfg)" "nd_ID node = n" "n \<noteq> []"
proof -
  obtain replica where r: "replica \<in> set (gp_Replicas grp)" "n = gr_NodeID replica" using assms(3) by (auto simp: is_replica_def)
  then have "replica_ok cfg replica" using assms(1,2) by (simp add: cluster_ok_def group_ok_def)
  then show thesis using that r(2) by (auto simp: replica_ok_def)
qed

lemma client_ok_leader:
  assumes "client_ok cfg router up c" and "distinct (map gp_ID (cc_Groups cfg))" and "grp \<in> set (cc_Groups cfg)"
  shows "is_replica grp n \<Longrightarrow> client_ok cfg router up (setLeader (gp_ID grp) n c)"
    and "client_ok cfg router up (clearLeader (gp_ID grp) n c)"
proof -
  have same: "grp' = grp" if "grp' \<in> set (cc_Groups cfg)" "gp_ID grp' = gp_ID grp" for grp'
    using assms(2,3) that by (auto simp: distinct_map inj_on_def)
  show "client_ok cfg router up (setLeader (gp_ID grp) n c)" if "is_replica grp n"
    using assms(1) same that by (auto simp: client_ok_def setLeader_def)
  show "client_ok cfg router up (clearLeader (gp_ID grp) n c)"
    using assms(1) by (auto simp: client_ok_def clearLeader_def map_of_delete)
qed

lemma client_ok_hint:
  assumes ok: "client_ok cfg router up c" and d: "distinct (map gp_ID (cc_Groups cfg))" and grp: "grp \<in> set (cc_Groups cfg)"
    and i: "i = [] \<or> is_replica grp i" and u: "updateLeaderFromHint (gp_ID grp) (ClientNotLeaderError i a) c = (b, c')"
  shows "client_ok cfg router up c'"
proof -
  let ?n = "if i = [] \<and> a \<noteq> [] then entry_or [] (entry_or [] (rcl_raftAddrNode c) (gp_ID grp)) a else i"
  have "?n = [] \<or> is_replica grp ?n"
  proof (cases "map_of (entry_or [] (rcl_raftAddrNode c) (gp_ID grp)) a")
    case None
    then show ?thesis using i by (simp add: entry_or_def)
  next
    case (Some n)
    then have "is_replica grp n" using ok grp unfolding client_ok_def by blast
    then show ?thesis using i Some by (simp add: entry_or_def)
  qed
  moreover have "c' = c \<or> ?n \<noteq> [] \<and> c' = setLeader (gp_ID grp) ?n c"
  proof -
    define n where "n = ?n"
    have "(b, c') = (if n = [] then (False, c) else if map_of (rcl_nodes c) n = None then (False, c)
        else (True, setLeader (gp_ID grp) n c))"
      using u by (simp only: updateLeaderFromHint_def LeaderHint_ClientNotLeader option.case prod.case Let_def n_def)
    then show ?thesis unfolding n_def [symmetric] by (auto split: if_splits)
  qed
  ultimately show ?thesis using ok client_ok_leader(1) [OF ok d grp] by metis
qed

lemma clientForNode_up:
  assumes ok: "client_ok cfg router up c" and node: "node \<in> set (cc_Nodes cfg)" and d: "distinct (map nd_ID (cc_Nodes cfg))"
  shows "\<exists>c1. clientForNode (dial_up up) close_up ctx (nd_ID node) c e
      = (if nd_ClientAddr node \<in> up then Inr (nd_ClientAddr node) else Inl DeadlineExceeded, c1, e)
    \<and> client_ok cfg router up c1 \<and> rcl_leaders c1 = rcl_leaders c"
proof (cases "map_of (rcl_clients c) (nd_ID node)")
  case None
  have same: "node' = node" if "node' \<in> set (cc_Nodes cfg)" "nd_ID node' = nd_ID node" for node'
    using d node that by (auto simp: distinct_map inj_on_def)
  show ?thesis
  proof (cases "nd_ClientAddr node \<in> up")
    case True
    let ?c = "c\<lparr>rcl_clients := AList.update (nd_ID node) (nd_ClientAddr node) (rcl_clients c)\<rparr>"
    have "t \<in> up \<and> t = nd_ClientAddr node'"
      if "node' \<in> set (cc_Nodes cfg)" "map_of (rcl_clients ?c) (nd_ID node') = Some t" for node' t
    proof (cases "nd_ID node' = nd_ID node")
      case True
      then show ?thesis using same that \<open>nd_ClientAddr node \<in> up\<close> by auto
    next
      case False
      then show ?thesis using that ok by (simp add: client_ok_def)
    qed
    then have "client_ok cfg router up ?c" using ok by (simp add: client_ok_def)
    moreover have "clientForNode (dial_up up) close_up ctx (nd_ID node) c e = (Inr (nd_ClientAddr node), ?c, e)"
      using None True ok node by (simp add: clientForNode_def dial_up_def client_ok_def)
    ultimately show ?thesis using True by (intro exI [of _ ?c]) simp
  next
    case False
    then have "clientForNode (dial_up up) close_up ctx (nd_ID node) c e = (Inl DeadlineExceeded, c, e)"
      using None ok node by (simp add: clientForNode_def dial_up_def client_ok_def)
    then show ?thesis using False ok by (intro exI [of _ c]) simp
  qed
next
  case (Some t)
  then have "t \<in> up" "t = nd_ClientAddr node" using ok node unfolding client_ok_def by blast+
  then show ?thesis using ok Some by (intro exI [of _ c]) (simp add: clientForNode_def)
qed

section \<open>The attempts reach the leader\<close>

lemma attempts_reach:
  assumes ok: "cluster_ok cfg" and grp: "grp \<in> set (cc_Groups cfg)"
    and lead: "lead \<in> set (cc_Nodes cfg)" "nd_ClientAddr lead \<in> up" "fn (nd_ClientAddr lead) e = (None, e1)"
    and others: "\<And>node. node \<in> set (cc_Nodes cfg) \<Longrightarrow> is_replica grp (nd_ID node) \<Longrightarrow> nd_ClientAddr node \<in> up
      \<Longrightarrow> nd_ClientAddr node \<noteq> nd_ClientAddr lead
      \<Longrightarrow> \<exists>i a. fn (nd_ClientAddr node) e = (Some (ClientNotLeaderError i a), e) \<and> (i = [] \<or> is_replica grp i)"
    and c: "client_ok cfg router up c"
    and hit: "\<exists>a \<in> set as. a \<noteq> 0 \<and> map gr_NodeID (gp_Replicas grp) ! (a mod length (map gr_NodeID (gp_Replicas grp))) = nd_ID lead"
  shows "\<exists>c'. group_attempts (dial_up up) close_up ctx (gp_ID grp) (map gr_NodeID (gp_Replicas grp)) fn as lastErr c e = (None, c', e1)
    \<and> client_ok cfg router up c'"
  using c hit
proof (induction as arbitrary: lastErr c)
  case (Cons a as)
  let ?replicas = "map gr_NodeID (gp_Replicas grp)"
  let ?n = "pickNode (gp_ID grp) ?replicas a c"
  have dn: "distinct (map nd_ID (cc_Nodes cfg))" and dg: "distinct (map gp_ID (cc_Groups cfg))" and "gp_Replicas grp \<noteq> []"
    using ok grp by (simp_all add: cluster_ok_def group_ok_def)
  then have "?replicas ! (a mod length ?replicas) \<in> set ?replicas" by (intro nth_mem) simp
  then have "is_replica grp ?n"
    using Cons.prems(1) grp by (auto simp: pickNode_def Let_def is_replica_def client_ok_def entry_or_def split: option.splits)
  then obtain node where node: "node \<in> set (cc_Nodes cfg)" "nd_ID node = ?n" using replica_node [OF ok grp] by metis
  obtain c1 where cl: "clientForNode (dial_up up) close_up ctx ?n c e
      = (if nd_ClientAddr node \<in> up then Inr (nd_ClientAddr node) else Inl DeadlineExceeded, c1, e)"
    and c1: "client_ok cfg router up c1"
    using clientForNode_up [OF Cons.prems(1) node(1) dn, of ctx e] unfolding node(2) by blast
  have go: "\<exists>c'. group_attempts (dial_up up) close_up ctx (gp_ID grp) ?replicas fn as le c2 e = (None, c', e1)
      \<and> client_ok cfg router up c'" if "client_ok cfg router up c2" "?n \<noteq> nd_ID lead" for le c2
  proof -
    have "\<exists>a \<in> set as. a \<noteq> 0 \<and> ?replicas ! (a mod length ?replicas) = nd_ID lead"
      using Cons.prems(2) that(2) by (auto simp: pickNode_def Let_def)
    then show ?thesis using Cons.IH that(1) by blast
  qed
  have miss: "?n \<noteq> nd_ID lead" if "nd_ClientAddr node \<notin> up \<or> nd_ClientAddr node \<noteq> nd_ClientAddr lead"
  proof
    assume "?n = nd_ID lead"
    then have "node = lead" using node lead(1) dn by (auto simp: distinct_map inj_on_def)
    then show False using that lead(2) by simp
  qed
  show ?case
  proof (cases "nd_ClientAddr node \<in> up")
    case False
    then show ?thesis using cl go [OF client_ok_leader(2) [OF c1 dg grp, of ?n] miss, of "Some DeadlineExceeded"] by simp
  next
    case up: True
    show ?thesis
    proof (cases "nd_ClientAddr node = nd_ClientAddr lead")
      case True
      then show ?thesis using cl up lead(3) client_ok_leader(1) [OF c1 dg grp \<open>is_replica grp ?n\<close>] by simp
    next
      case False
      obtain i a' where f: "fn (nd_ClientAddr node) e = (Some (ClientNotLeaderError i a'), e)" "i = [] \<or> is_replica grp i"
        using others [OF node(1) _ up False] \<open>is_replica grp ?n\<close> node(2) by auto
      obtain b c2 where u: "updateLeaderFromHint (gp_ID grp) (ClientNotLeaderError i a') c1 = (b, c2)" by (metis prod.exhaust)
      have c2: "client_ok cfg router up c2" by (rule client_ok_hint [OF c1 dg grp f(2) u])
      show ?thesis
        using cl up f(1) u go [OF c2 miss] go [OF client_ok_leader(2) [OF c2 dg grp, of ?n] miss] False by (cases b) simp_all
    qed
  qed
qed simp

section \<open>Leaders and followers\<close>

text \<open>
  The interface of a replica: while it leads, it keeps the contract of a store; while it follows, it
  refuses requests on keys with the leader that it knows, and does not change.
\<close>

locale replica_ops = kv_backend ops leads
  for ops :: "'s store_ops" and leads :: "'s \<Rightarrow> (bytes \<rightharpoonup> bytes) \<Rightarrow> bool" +
  fixes follows :: "'s \<Rightarrow> string \<Rightarrow> string \<Rightarrow> bool"
  assumes refuse_put: "ctx_live ctx \<Longrightarrow> follows s i a \<Longrightarrow> k \<noteq> [] \<Longrightarrow> so_Put ops ctx k v s = (Some (NotLeaderError i a), s)"
    and refuse_get: "ctx_live ctx \<Longrightarrow> follows s i a \<Longrightarrow> k \<noteq> [] \<Longrightarrow> so_Get ops ctx k s = (Inl (NotLeaderError i a), s)"
    and refuse_delete: "ctx_live ctx \<Longrightarrow> follows s i a \<Longrightarrow> k \<noteq> [] \<Longrightarrow> so_Delete ops ctx k s = (Some (NotLeaderError i a), s)"

text \<open>The store of a group at a process that uses the cluster's router.\<close>

definition hosted :: "Router \<Rightarrow> 's processes \<Rightarrow> string \<Rightarrow> GroupID \<Rightarrow> 's option" where
  "hosted router e t g =
     (case e t of None \<Rightarrow> None | Some ss \<Rightarrow> if ss_router ss = Some router then map_of (ss_groups ss) g else None)"

text \<open>A hint that survives the call and names a replica or nobody.\<close>

definition good_hint :: "Group \<Rightarrow> string \<Rightarrow> string \<Rightarrow> bool" where
  "good_hint grp i a \<longleftrightarrow> plain_text i \<and> plain_text a \<and> string_Index i ''addr='' = None
     \<and> (i = [] \<or> is_replica grp i)"

text \<open>
  One replica of the group leads and holds the map \<open>M\<close>; every other replica that is up, at another
  address, follows.
\<close>

definition led_by ::
  "('s \<Rightarrow> (bytes \<rightharpoonup> bytes) \<Rightarrow> bool) \<Rightarrow> ('s \<Rightarrow> string \<Rightarrow> string \<Rightarrow> bool) \<Rightarrow> Config \<Rightarrow> Router \<Rightarrow> string set
    \<Rightarrow> 's processes \<Rightarrow> Group \<Rightarrow> (bytes \<rightharpoonup> bytes) \<Rightarrow> KV_Cluster.Node \<Rightarrow> bool" where
  "led_by leads follows cfg router up e grp M lead \<longleftrightarrow>
     lead \<in> set (cc_Nodes cfg) \<and> is_replica grp (nd_ID lead) \<and> nd_ClientAddr lead \<in> up
     \<and> (\<exists>s. hosted router e (nd_ClientAddr lead) (gp_ID grp) = Some s \<and> leads s M)
     \<and> (\<forall>node \<in> set (cc_Nodes cfg). is_replica grp (nd_ID node) \<longrightarrow> nd_ClientAddr node \<in> up
          \<longrightarrow> nd_ClientAddr node \<noteq> nd_ClientAddr lead
          \<longrightarrow> (\<exists>s i a. hosted router e (nd_ClientAddr node) (gp_ID grp) = Some s \<and> follows s i a \<and> good_hint grp i a))"

definition cluster_led ::
  "('s \<Rightarrow> (bytes \<rightharpoonup> bytes) \<Rightarrow> bool) \<Rightarrow> ('s \<Rightarrow> string \<Rightarrow> string \<Rightarrow> bool) \<Rightarrow> Config \<Rightarrow> Router \<Rightarrow> string set
    \<Rightarrow> 's processes \<Rightarrow> (GroupID \<Rightarrow> bytes \<rightharpoonup> bytes) \<Rightarrow> bool" where
  "cluster_led leads follows cfg router up e m \<longleftrightarrow>
     (\<forall>grp \<in> set (cc_Groups cfg). \<exists>lead. led_by leads follows cfg router up e grp (m (gp_ID grp)) lead)"

lemma hosted_route:
  assumes "RouteKey (Some router) k = Inr route" and "hosted router e t (sr_GroupID route) = Some s"
  shows "ShardRouteKey (e t) k = Inr (s, route)"
  using assms by (auto simp: hosted_def ShardRouteKey_def split: option.splits if_splits)

lemma update_same: "map_of al g = Some s \<Longrightarrow> AList.update g s al = al"
  by (induction al) auto

lemma hosted_set:
  assumes "hosted router e t g = Some s"
  shows "e(t := set_store g s (e t)) = e"
    and "hosted router (e(t := set_store g s' (e t))) t' h = (if t' = t \<and> h = g then Some s' else hosted router e t' h)"
proof -
  obtain ss where ss: "e t = Some ss" "ss_router ss = Some router" "map_of (ss_groups ss) g = Some s"
    using assms by (auto simp: hosted_def split: option.splits if_splits)
  show "e(t := set_store g s (e t)) = e" using ss update_same [OF ss(3)] by (simp add: set_store_Some fun_upd_idem)
  show "hosted router (e(t := set_store g s' (e t))) t' h = (if t' = t \<and> h = g then Some s' else hosted router e t' h)"
    using ss by (simp add: hosted_def set_store_Some update_conv)
qed

text \<open>A change of the store of a leader changes the map of its group.\<close>

lemma led_by_set:
  assumes d: "distinct (map gp_ID (cc_Groups cfg))" and grp: "grp \<in> set (cc_Groups cfg)" "grp' \<in> set (cc_Groups cfg)"
    and led: "led_by leads follows cfg router up e grp M lead" and s': "leads s' M'"
    and other: "led_by leads follows cfg router up e grp' (m (gp_ID grp')) lead'" and same: "grp' = grp \<Longrightarrow> lead' = lead"
  shows "led_by leads follows cfg router up (e(nd_ClientAddr lead := set_store (gp_ID grp) s' (e (nd_ClientAddr lead))))
    grp' ((m(gp_ID grp := M')) (gp_ID grp')) lead'"
proof -
  obtain s where "hosted router e (nd_ClientAddr lead) (gp_ID grp) = Some s" using led by (auto simp: led_by_def)
  note h = hosted_set(2) [OF this]
  show ?thesis
  proof (cases "gp_ID grp' = gp_ID grp")
    case True
    then have "grp' = grp" "lead' = lead" using d grp same by (auto simp: distinct_map inj_on_def)
    then show ?thesis using led s' unfolding led_by_def h by auto
  next
    case False
    then show ?thesis using other unfolding led_by_def h by simp
  qed
qed

lemma cluster_led_set:
  assumes d: "distinct (map gp_ID (cc_Groups cfg))" and all: "cluster_led leads follows cfg router up e m"
    and grp: "grp \<in> set (cc_Groups cfg)" and led: "led_by leads follows cfg router up e grp (m (gp_ID grp)) lead"
    and s': "leads s' M'"
  shows "cluster_led leads follows cfg router up
    (e(nd_ClientAddr lead := set_store (gp_ID grp) s' (e (nd_ClientAddr lead)))) (m(gp_ID grp := M'))"
  unfolding cluster_led_def
proof
  fix grp' assume g': "grp' \<in> set (cc_Groups cfg)"
  obtain lead' where "led_by leads follows cfg router up e grp' (m (gp_ID grp')) lead'" "grp' = grp \<Longrightarrow> lead' = lead"
    using all g' led unfolding cluster_led_def by (cases "grp' = grp") blast+
  from led_by_set [where leads = leads and m = m, OF d grp g' led s' this]
  show "\<exists>lead'. led_by leads follows cfg router up (e(nd_ClientAddr lead := set_store (gp_ID grp) s' (e (nd_ClientAddr lead))))
      grp' ((m(gp_ID grp := M')) (gp_ID grp')) lead'" by blast
qed

section \<open>One request\<close>

text \<open>
  Any call that the leader answers and that followers refuse, for a key of the group, from a client
  of the configuration.
\<close>

lemma withKeyClient_reaches:
  assumes ok: "cluster_ok cfg" and router: "ConfigNewRouter cfg = Inr router" and c: "client_ok cfg router up c"
    and k: "k \<noteq> []" "RouteKey (Some router) k = Inr route" and grp: "grp \<in> set (cc_Groups cfg)" "gp_ID grp = sr_GroupID route"
    and ctx: "ctx_Err ctx 0 = None"
    and lead: "lead \<in> set (cc_Nodes cfg)" "is_replica grp (nd_ID lead)" "nd_ClientAddr lead \<in> up"
      "fn (nd_ClientAddr lead) e = (None, e1)"
    and others: "\<And>node. node \<in> set (cc_Nodes cfg) \<Longrightarrow> is_replica grp (nd_ID node) \<Longrightarrow> nd_ClientAddr node \<in> up
      \<Longrightarrow> nd_ClientAddr node \<noteq> nd_ClientAddr lead
      \<Longrightarrow> \<exists>i a. fn (nd_ClientAddr node) e = (Some (ClientNotLeaderError i a), e) \<and> (i = [] \<or> is_replica grp i)"
  shows "\<exists>c'. withKeyClient (dial_up up) close_up ctx k fn (Some c) e = (None, Some c', e1) \<and> client_ok cfg router up c'"
proof -
  let ?replicas = "map gr_NodeID (gp_Replicas grp)"
  have "nd_ID lead \<in> set ?replicas" using lead(2) by (simp add: is_replica_def)
  from attempts_reach [where fn = fn and e = e, OF ok grp(1) lead(1,3,4) others c attempts_cover [OF this]]
  obtain c' where run: "group_attempts (dial_up up) close_up ctx (gp_ID grp) ?replicas fn [0..<length ?replicas + 1] None c e
      = (None, c', e1)" and c': "client_ok cfg router up c'"
    by blast
  have "rcl_router c = Some router" "entry_or [] (rcl_groups c) (gp_ID grp) = ?replicas"
    using c grp(1) by (simp_all add: client_ok_def)
  moreover have "gp_Replicas grp \<noteq> []" using ok grp(1) by (simp add: cluster_ok_def group_ok_def)
  ultimately show ?thesis using run c' ctx k(2) grp(2) by (simp add: withKeyClient_def withGroupClient_def Let_def)
qed

lemma withKeyClient_empty:
  "RouteKey (rcl_router c) [] = Inl ErrEmptyKey \<Longrightarrow> withKeyClient dial close ctx [] fn (Some c) y = (Some ErrEmptyKey, Some c, y)"
  by (simp add: withKeyClient_def)

lemma cluster_map_upd:
  assumes "k \<noteq> []" and "RouteKey (Some router) k = Inr route"
  shows "cluster_map router (m(sr_GroupID route := (m (sr_GroupID route))(k := x))) = (cluster_map router m)(k := x)"
  using assms by (auto simp: cluster_map_def fun_eq_iff)

section \<open>Requests of a client\<close>

text \<open>A request through a routed client; the answer as a store would give it.\<close>

fun client_serve ::
  "'s store_ops \<Rightarrow> string set \<Rightarrow> Context \<Rightarrow> request \<Rightarrow> string RoutedClient option \<Rightarrow> 's processes
    \<Rightarrow> reply \<times> string RoutedClient option \<times> 's processes" where
  "client_serve ops up ctx (ReqPut k v) rc e = apfst Done (RoutedPut (dial_up up) close_up (server_stub ops) ctx k v rc e)"
| "client_serve ops up ctx (ReqGet k) rc e = apfst Got (RoutedGet (dial_up up) close_up (server_stub ops) ctx k rc e)"
| "client_serve ops up ctx (ReqDelete k) rc e = apfst Done (RoutedDelete (dial_up up) close_up (server_stub ops) ctx k rc e)"
| "client_serve ops up ctx ReqFlush rc e =
     (case RoutedFlush (dial_up up) close_up (server_stub ops) ctx (the rc) e of (r, c, e1) \<Rightarrow> (Done r, Some c, e1))"
| "client_serve ops up ctx ReqCompact rc e =
     (case RoutedCompact (dial_up up) close_up (server_stub ops) ctx (the rc) e of (r, c, e1) \<Rightarrow> (Done r, Some c, e1))"

fun client_serve_all ::
  "'s store_ops \<Rightarrow> string set \<Rightarrow> Context \<Rightarrow> request list \<Rightarrow> string RoutedClient option \<Rightarrow> 's processes
    \<Rightarrow> reply list \<times> string RoutedClient option \<times> 's processes" where
  "client_serve_all ops up ctx [] rc e = ([], rc, e)"
| "client_serve_all ops up ctx (r # rs) rc e =
     (case client_serve ops up ctx r rc e of
        (x, rc1, e1) \<Rightarrow> apfst (Cons x) (client_serve_all ops up ctx rs rc1 e1))"

fun key_request :: "request \<Rightarrow> bool" where
  "key_request (ReqPut k v) \<longleftrightarrow> True"
| "key_request (ReqGet k) \<longleftrightarrow> True"
| "key_request (ReqDelete k) \<longleftrightarrow> True"
| "key_request _ \<longleftrightarrow> False"

lemma pair_calls:
  "(\<lambda>ctx target (e, value). case dial_up up ctx target e of (r, e1) \<Rightarrow> (r, e1, value)) = dial_up up"
  "(\<lambda>client (e, value). case close_up client e of (r, e1) \<Rightarrow> (r, e1, value)) = close_up"
  by (auto simp: fun_eq_iff dial_up_def close_up_def)

context replica_ops
begin

lemma put_on_process:
  assumes "ctx_live ctx" and "k \<noteq> []" and rt: "RouteKey (Some router) k = Inr route"
    and h: "hosted router e t (sr_GroupID route) = Some s"
  shows "follows s i a \<Longrightarrow> good_hint grp i a \<Longrightarrow> ClientPut (server_stub ops) t ctx k v e = (Some (ClientNotLeaderError i a), e)"
    and "so_Put ops ctx k v s = (None, s') \<Longrightarrow>
      ClientPut (server_stub ops) t ctx k v e = (None, e(t := set_store (sr_GroupID route) s' (e t)))"
  using assms refuse_put [of ctx s i a k v] hosted_route [OF rt h] hosted_set(1) [OF h] leader_hint_exact [of i a]
  by (simp_all add: ClientPut_def server_stub_def on_process_def ServerPut_def shard_ops_def ShardPut_def good_hint_def)

lemma delete_on_process:
  assumes "ctx_live ctx" and "k \<noteq> []" and rt: "RouteKey (Some router) k = Inr route"
    and h: "hosted router e t (sr_GroupID route) = Some s"
  shows "follows s i a \<Longrightarrow> good_hint grp i a \<Longrightarrow> ClientDelete (server_stub ops) t ctx k e = (Some (ClientNotLeaderError i a), e)"
    and "so_Delete ops ctx k s = (None, s') \<Longrightarrow>
      ClientDelete (server_stub ops) t ctx k e = (None, e(t := set_store (sr_GroupID route) s' (e t)))"
  using assms refuse_delete [of ctx s i a k] hosted_route [OF rt h] hosted_set(1) [OF h] leader_hint_exact [of i a]
  by (simp_all add: ClientDelete_def server_stub_def on_process_def ServerDelete_def shard_ops_def ShardDelete_def good_hint_def)

lemma get_on_process:
  assumes "ctx_live ctx" and "k \<noteq> []" and rt: "RouteKey (Some router) k = Inr route"
    and h: "hosted router e t (sr_GroupID route) = Some s"
  shows "follows s i a \<Longrightarrow> good_hint grp i a \<Longrightarrow> ClientGet (server_stub ops) t ctx k e = (Inl (ClientNotLeaderError i a), e)"
    and "so_Get ops ctx k s = (Inr g, s') \<Longrightarrow>
      ClientGet (server_stub ops) t ctx k e = (Inr g, e(t := set_store (sr_GroupID route) s' (e t)))"
  using assms refuse_get [of ctx s i a k] hosted_route [OF rt h] hosted_set(1) [OF h] leader_hint_exact [of i a]
  by (auto simp: ClientGet_def server_stub_def on_process_def ServerGet_def shard_ops_def ShardGet_def good_hint_def)

text \<open>Every key has a group with a leader.\<close>

lemma key_leader:
  assumes "cluster_ok cfg" and "ConfigNewRouter cfg = Inr router" and "cluster_led leads follows cfg router up e m" and "k \<noteq> []"
  obtains lead grp route s where "RouteKey (Some router) k = Inr route" "grp \<in> set (cc_Groups cfg)" "gp_ID grp = sr_GroupID route"
    "led_by leads follows cfg router up e grp (m (gp_ID grp)) lead"
    "hosted router e (nd_ClientAddr lead) (sr_GroupID route) = Some s" "leads s (m (sr_GroupID route))"
proof -
  obtain route grp where rt: "RouteKey (Some router) k = Inr route" and g: "grp \<in> set (cc_Groups cfg)" "gp_ID grp = sr_GroupID route"
    using cluster_ok_serves [OF assms(1,2,4)] by blast
  then obtain lead where led: "led_by leads follows cfg router up e grp (m (gp_ID grp)) lead"
    using assms(3) unfolding cluster_led_def by metis
  then obtain s where "hosted router e (nd_ClientAddr lead) (sr_GroupID route) = Some s" "leads s (m (sr_GroupID route))"
    using g(2) by (auto simp: led_by_def)
  then show thesis using rt g led that by blast
qed

lemma call_reaches:
  assumes ok: "cluster_ok cfg" "ConfigNewRouter cfg = Inr router" "client_ok cfg router up c"
    and live: "ctx_live ctx" and k: "k \<noteq> []" "RouteKey (Some router) k = Inr route"
    and g: "grp \<in> set (cc_Groups cfg)" "gp_ID grp = sr_GroupID route"
    and led: "led_by leads follows cfg router up e grp M lead"
    and answer: "fn (nd_ClientAddr lead) x = (None, x1)"
    and refuse: "\<And>t s i a. hosted router e t (sr_GroupID route) = Some s \<Longrightarrow> follows s i a \<Longrightarrow> good_hint grp i a
      \<Longrightarrow> fn t x = (Some (ClientNotLeaderError i a), x)"
  shows "\<exists>c'. withKeyClient (dial_up up) close_up ctx k fn (Some c) x = (None, Some c', x1) \<and> client_ok cfg router up c'"
proof (rule withKeyClient_reaches [OF ok k g])
  show "ctx_Err ctx 0 = None" using live by (simp add: ctx_live_def)
  show "lead \<in> set (cc_Nodes cfg)" "is_replica grp (nd_ID lead)" "nd_ClientAddr lead \<in> up" using led by (simp_all add: led_by_def)
  show "fn (nd_ClientAddr lead) x = (None, x1)" by (rule answer)
  show "\<exists>i a. fn (nd_ClientAddr node) x = (Some (ClientNotLeaderError i a), x) \<and> (i = [] \<or> is_replica grp i)"
    if node: "node \<in> set (cc_Nodes cfg)" "is_replica grp (nd_ID node)" "nd_ClientAddr node \<in> up"
      "nd_ClientAddr node \<noteq> nd_ClientAddr lead" for node
  proof -
    obtain s i a where "hosted router e (nd_ClientAddr node) (sr_GroupID route) = Some s" "follows s i a" and h: "good_hint grp i a"
      using led node unfolding led_by_def g(2) by blast
    then have "fn (nd_ClientAddr node) x = (Some (ClientNotLeaderError i a), x)" by (rule refuse)
    then show ?thesis using h by (auto simp: good_hint_def)
  qed
qed

text \<open>What a request promises.\<close>

lemma client_request:
  assumes ok: "cluster_ok cfg" and router: "ConfigNewRouter cfg = Inr router" and c: "client_ok cfg router up c"
    and e: "cluster_led leads follows cfg router up e m" and live: "ctx_live ctx" and r: "request_valid r" "key_request r"
  shows "\<exists>x c' e' m'. client_serve ops up ctx r (Some c) e = (x, Some c', e') \<and> client_ok cfg router up c'
    \<and> cluster_led leads follows cfg router up e' m' \<and> answers r (cluster_map router m) x
    \<and> cluster_map router m' = spec_request r (cluster_map router m)"
proof -
  have dg: "distinct (map gp_ID (cc_Groups cfg))" and "distinct (map sd_ID (cc_ShardRoutes cfg))"
    using ok by (simp_all add: cluster_ok_def)
  moreover have "NewRouter (ConfigRouterConfig cfg) = Inr router" using router by (simp add: ConfigNewRouter_def split: sum.splits)
  ultimately have "RouteKey (Some router) [] = Inl ErrEmptyKey"
    using NewRouter_routes [OF ConfigRouterConfig_groups(2)] by blast
  moreover have "rcl_router c = Some router" using c by (simp add: client_ok_def)
  ultimately have rk: "RouteKey (rcl_router c) [] = Inl ErrEmptyKey" by simp
  note empty = withKeyClient_empty [OF rk]
  note leader = key_leader [OF ok router e]
  note reach = call_reaches [OF ok router c live]
  note led' = cluster_led_set [OF dg e]
  show ?thesis
  proof (cases r)
    case (ReqPut k v)
    show ?thesis
    proof (cases "k = []")
      case True
      then show ?thesis using ReqPut c e
        by (intro exI [of _ "Done (Some ErrEmptyKey)"] exI [of _ c] exI [of _ e] exI [of _ m]) (simp add: RoutedPut_def empty)
    next
      case k: False
      obtain lead grp route s where rt: "RouteKey (Some router) k = Inr route" and g: "grp \<in> set (cc_Groups cfg)" "gp_ID grp = sr_GroupID route"
        and led: "led_by leads follows cfg router up e grp (m (gp_ID grp)) lead"
        and s: "hosted router e (nd_ClientAddr lead) (sr_GroupID route) = Some s" "leads s (m (sr_GroupID route))"
        by (rule leader [OF k])
      have "op_valid (OpPut k v)" using r(1) k ReqPut by simp
      then obtain s' where s': "so_Put ops ctx k v s = (None, s')" "leads s' ((m (sr_GroupID route))(k \<mapsto> v))"
        using put [OF live s(2)] by blast
      note proc = put_on_process [OF live k rt]
      have "\<exists>c'. withKeyClient (dial_up up) close_up ctx k (\<lambda>t. ClientPut (server_stub ops) t ctx k v) (Some c) e
          = (None, Some c', e(nd_ClientAddr lead := set_store (sr_GroupID route) s' (e (nd_ClientAddr lead))))
        \<and> client_ok cfg router up c'"
        by (rule reach [OF k rt g led]) (rule proc(2) [OF s(1) s'(1)], rule proc(1))
      then obtain c' where "withKeyClient (dial_up up) close_up ctx k (\<lambda>t. ClientPut (server_stub ops) t ctx k v) (Some c) e
          = (None, Some c', e(nd_ClientAddr lead := set_store (sr_GroupID route) s' (e (nd_ClientAddr lead))))"
        and "client_ok cfg router up c'" by blast
      then show ?thesis
        using ReqPut k led' [OF g(1) led s'(2)] g(2) cluster_map_upd [OF k rt, of m "Some v"]
        by (intro exI [of _ "Done None"] exI [of _ c'] exI conjI) (simp_all add: RoutedPut_def)
    qed
  next
    case (ReqDelete k)
    show ?thesis
    proof (cases "k = []")
      case True
      then show ?thesis using ReqDelete c e
        by (intro exI [of _ "Done (Some ErrEmptyKey)"] exI [of _ c] exI [of _ e] exI [of _ m]) (simp add: RoutedDelete_def empty)
    next
      case k: False
      obtain lead grp route s where rt: "RouteKey (Some router) k = Inr route" and g: "grp \<in> set (cc_Groups cfg)" "gp_ID grp = sr_GroupID route"
        and led: "led_by leads follows cfg router up e grp (m (gp_ID grp)) lead"
        and s: "hosted router e (nd_ClientAddr lead) (sr_GroupID route) = Some s" "leads s (m (sr_GroupID route))"
        by (rule leader [OF k])
      have "op_valid (OpDelete k)" using r(1) k ReqDelete by simp
      then obtain s' where s': "so_Delete ops ctx k s = (None, s')" "leads s' ((m (sr_GroupID route))(k := None))"
        using delete [OF live s(2)] by blast
      note proc = delete_on_process [OF live k rt]
      have "\<exists>c'. withKeyClient (dial_up up) close_up ctx k (\<lambda>t. ClientDelete (server_stub ops) t ctx k) (Some c) e
          = (None, Some c', e(nd_ClientAddr lead := set_store (sr_GroupID route) s' (e (nd_ClientAddr lead))))
        \<and> client_ok cfg router up c'"
        by (rule reach [OF k rt g led]) (rule proc(2) [OF s(1) s'(1)], rule proc(1))
      then obtain c' where "withKeyClient (dial_up up) close_up ctx k (\<lambda>t. ClientDelete (server_stub ops) t ctx k) (Some c) e
          = (None, Some c', e(nd_ClientAddr lead := set_store (sr_GroupID route) s' (e (nd_ClientAddr lead))))"
        and "client_ok cfg router up c'" by blast
      then show ?thesis
        using ReqDelete k led' [OF g(1) led s'(2)] g(2) cluster_map_upd [OF k rt, of m None]
        by (intro exI [of _ "Done None"] exI [of _ c'] exI conjI) (simp_all add: RoutedDelete_def)
    qed
  next
    case (ReqGet k)
    show ?thesis
    proof (cases "k = []")
      case True
      then show ?thesis using ReqGet c e
        by (intro exI [of _ "Got (Inl ErrEmptyKey)"] exI [of _ c] exI [of _ e] exI [of _ m]) (simp add: RoutedGet_def pair_calls empty)
    next
      case k: False
      obtain lead grp route s where rt: "RouteKey (Some router) k = Inr route" and g: "grp \<in> set (cc_Groups cfg)" "gp_ID grp = sr_GroupID route"
        and led: "led_by leads follows cfg router up e grp (m (gp_ID grp)) lead"
        and s: "hosted router e (nd_ClientAddr lead) (sr_GroupID route) = Some s" "leads s (m (sr_GroupID route))"
        by (rule leader [OF k])
      obtain got s' where s': "so_Get ops ctx k s = (Inr got, s')" "leads s' (m (sr_GroupID route))" "reads_as (m (sr_GroupID route) k) got"
        using get [OF live s(2) k] by blast
      note proc = get_on_process [OF live k rt]
      let ?fn = "\<lambda>t (e, value). case ClientGet (server_stub ops) t ctx k e of
        (Inl err, e1) \<Rightarrow> (Some err, e1, value) | (Inr got, e1) \<Rightarrow> (None, e1, got)"
      let ?e = "e(nd_ClientAddr lead := set_store (sr_GroupID route) s' (e (nd_ClientAddr lead)))"
      have "\<exists>c'. withKeyClient (dial_up up) close_up ctx k ?fn (Some c) (e, None) = (None, Some c', ?e, got) \<and> client_ok cfg router up c'"
        by (rule reach [OF k rt g led]) (simp_all add: proc(2) [OF s(1) s'(1)] proc(1))
      then obtain c' where "RoutedGet (dial_up up) close_up (server_stub ops) ctx k (Some c) e = (Inr got, Some c', ?e)"
        and "client_ok cfg router up c'"
        by (auto simp: RoutedGet_def pair_calls)
      moreover have "cluster_led leads follows cfg router up ?e (m(gp_ID grp := m (sr_GroupID route)))"
        using led' [OF g(1) led s'(2)] g(2) by simp
      moreover have "m(gp_ID grp := m (sr_GroupID route)) = m" using g(2) by simp
      moreover have "cluster_map router m k = m (sr_GroupID route) k" using k rt by (simp add: cluster_map_def)
      ultimately show ?thesis using ReqGet k s'(3)
        by (intro exI [of _ "Got (Inr got)"] exI [of _ c'] exI [of _ ?e] exI [of _ m]) simp
    qed
  qed (use r(2) in simp_all)
qed

lemma client_requests:
  assumes ok: "cluster_ok cfg" and router: "ConfigNewRouter cfg = Inr router" and "client_ok cfg router up c"
    and "cluster_led leads follows cfg router up e m" and live: "ctx_live ctx" and "\<forall>r \<in> set rs. request_valid r \<and> key_request r"
  shows "\<exists>xs c' e'. client_serve_all ops up ctx rs (Some c) e = (xs, Some c', e') \<and> all_answered rs (cluster_map router m) xs"
  using assms(3,4,6)
proof (induction rs arbitrary: c e m)
  case (Cons r rs)
  obtain x c1 e1 m1 where one: "client_serve ops up ctx r (Some c) e = (x, Some c1, e1)" "client_ok cfg router up c1"
    "cluster_led leads follows cfg router up e1 m1" "answers r (cluster_map router m) x"
    "cluster_map router m1 = spec_request r (cluster_map router m)"
    using client_request [OF ok router Cons.prems(1,2) live, of r] Cons.prems(3) by auto
  obtain xs c' e' where "client_serve_all ops up ctx rs (Some c1) e1 = (xs, Some c', e')"
    "all_answered rs (cluster_map router m1) xs"
    using Cons.IH [OF one(2,3)] Cons.prems(3) by auto
  then show ?case using one by auto
qed simp

end

end
