(* ===== verification/KV_Goroutines.thy ===== *)
theory KV_Goroutines
  imports KV_Requests "HOL-Library.Multiset"
begin

text \<open>
  Goroutines that share a routed client (\<open>internal/client/routed_client.go\<close>).  A goroutine runs one
  call; a step is what it does between two releases of the client's mutex, or one dial, call or close
  of a connection, which happen outside of the mutex.  The theory has the steps, that a goroutine by
  itself does what the sequential model of the client does, that every goroutine returns, and the
  invariant of the connections.
\<close>

section \<open>The steps of a goroutine\<close>

datatype client_call = CallPut bytes bytes | CallGet bytes | CallDelete bytes | CallFlush GroupID | CallCompact GroupID

text \<open>The reply of a call that fails.\<close>

fun failed :: "client_call \<Rightarrow> err \<Rightarrow> reply" where
  "failed (CallGet k) err = Got (Inl err)"
| "failed _ err = Done (Some err)"

text \<open>The closure that a call hands to \<open>withKeyClient\<close> or \<open>withGroupClient\<close>.\<close>

definition done_call :: "err option \<times> 'e \<Rightarrow> (err + reply) \<times> 'e" where
  "done_call x = (case x of (Some err, e) \<Rightarrow> (Inl err, e) | (None, e) \<Rightarrow> (Inr (Done None), e))"

fun call_client :: "('c, 'e) KVServiceClient \<Rightarrow> Context \<Rightarrow> client_call \<Rightarrow> 'c \<Rightarrow> 'e \<Rightarrow> (err + reply) \<times> 'e" where
  "call_client stub ctx (CallPut k v) client e = done_call (ClientPut stub client ctx k v e)"
| "call_client stub ctx (CallGet k) client e =
     (case ClientGet stub client ctx k e of
        (Inl err, e1) \<Rightarrow> (Inl err, e1)
      | (Inr got, e1) \<Rightarrow> (Inr (Got (Inr got)), e1))"
| "call_client stub ctx (CallDelete k) client e = done_call (ClientDelete stub client ctx k e)"
| "call_client stub ctx (CallFlush g) client e = done_call (ClientFlush stub client ctx e)"
| "call_client stub ctx (CallCompact g) client e = done_call (ClientCompact stub client ctx e)"

text \<open>Calls on a key are routed by the key.\<close>

fun call_group :: "Router option \<Rightarrow> client_call \<Rightarrow> err + GroupID" where
  "call_group router (CallPut k v) = map_sum id sr_GroupID (RouteKey router k)"
| "call_group router (CallGet k) = map_sum id sr_GroupID (RouteKey router k)"
| "call_group router (CallDelete k) = map_sum id sr_GroupID (RouteKey router k)"
| "call_group router (CallFlush g) = Inr g"
| "call_group router (CallCompact g) = Inr g"

text \<open>
  Where a goroutine stands: at the start of its call, at the head of the loop with the attempt and the
  last error, at the two critical sections of \<open>clientForNode\<close> and at the dial between them, at the
  close of a connection that came too late, at the call, and at the updates of the leader.
\<close>

datatype 'c pc =
    AtStart
  | AtPick nat "err option"
  | AtLookup nat string
  | AtDial nat string Node
  | AtInsert nat string 'c
  | AtClose nat string 'c 'c
  | AtCall nat string 'c
  | AtSetLeader string reply
  | AtHint nat string err
  | AtClear nat string err
  | Returned reply

record 'c goroutine =
  go_ctx :: Context
  go_call :: client_call
  go_group :: GroupID
  go_replicas :: "string list"
  go_pc :: "'c pc"

definition spawn :: "Context \<Rightarrow> client_call \<Rightarrow> 'c goroutine" where
  "spawn ctx call = \<lparr>go_ctx = ctx, go_call = call, go_group = '''', go_replicas = [], go_pc = AtStart\<rparr>"

definition go_step ::
  "(Context \<Rightarrow> string \<Rightarrow> 'e \<Rightarrow> (err + 'c) \<times> 'e) \<Rightarrow> ('c \<Rightarrow> 'e \<Rightarrow> err option \<times> 'e) \<Rightarrow> ('c, 'e) KVServiceClient
    \<Rightarrow> 'c goroutine \<times> 'c RoutedClient \<times> 'e \<Rightarrow> 'c goroutine \<times> 'c RoutedClient \<times> 'e" where
  "go_step dial close stub s =
     (case s of (g, c, e) \<Rightarrow>
       (case go_pc g of
          AtStart \<Rightarrow>
            (case call_group (rcl_router c) (go_call g) of
               Inl err \<Rightarrow> (g\<lparr>go_pc := Returned (failed (go_call g) err)\<rparr>, c, e)
             | Inr groupID \<Rightarrow>
                 (case ctx_Err (go_ctx g) 0 of
                    Some err \<Rightarrow> (g\<lparr>go_pc := Returned (failed (go_call g) err)\<rparr>, c, e)
                  | None \<Rightarrow>
                      (let replicas = entry_or [] (rcl_groups c) groupID
                       in if length replicas = 0
                          then (g\<lparr>go_pc := Returned (failed (go_call g)
                                 (Errorf (''cluster group '' @ quote groupID @ '' has no client replicas'')))\<rparr>, c, e)
                          else (g\<lparr>go_group := groupID, go_replicas := replicas, go_pc := AtPick 0 None\<rparr>, c, e))))
        | AtPick attempt lastErr \<Rightarrow>
            if attempt < length (go_replicas g) + 1
            then (g\<lparr>go_pc := AtLookup attempt (pickNode (go_group g) (go_replicas g) attempt c)\<rparr>, c, e)
            else (g\<lparr>go_pc := Returned (failed (go_call g)
                   (case lastErr of
                      Some err \<Rightarrow> err
                    | None \<Rightarrow> Errorf (''no client attempt made for group '' @ quote (go_group g))))\<rparr>, c, e)
        | AtLookup attempt nodeID \<Rightarrow>
            (case map_of (rcl_clients c) nodeID of
               Some client \<Rightarrow> (g\<lparr>go_pc := AtCall attempt nodeID client\<rparr>, c, e)
             | None \<Rightarrow>
                 (case map_of (rcl_nodes c) nodeID of
                    None \<Rightarrow> (g\<lparr>go_pc := AtClear attempt nodeID
                              (Errorf (''cluster node '' @ quote nodeID @ '' not found''))\<rparr>, c, e)
                  | Some node \<Rightarrow> (g\<lparr>go_pc := AtDial attempt nodeID node\<rparr>, c, e)))
        | AtDial attempt nodeID node \<Rightarrow>
            (case dial (go_ctx g) (nd_ClientAddr node) e of
               (Inl err, e1) \<Rightarrow> (g\<lparr>go_pc := AtClear attempt nodeID err\<rparr>, c, e1)
             | (Inr client, e1) \<Rightarrow> (g\<lparr>go_pc := AtInsert attempt nodeID client\<rparr>, c, e1))
        | AtInsert attempt nodeID client \<Rightarrow>
            (case map_of (rcl_clients c) nodeID of
               Some existing \<Rightarrow> (g\<lparr>go_pc := AtClose attempt nodeID client existing\<rparr>, c, e)
             | None \<Rightarrow> (g\<lparr>go_pc := AtCall attempt nodeID client\<rparr>,
                        c\<lparr>rcl_clients := AList.update nodeID client (rcl_clients c)\<rparr>, e))
        | AtClose attempt nodeID client existing \<Rightarrow>
            (case close client e of (ign, e1) \<Rightarrow> (g\<lparr>go_pc := AtCall attempt nodeID existing\<rparr>, c, e1))
        | AtCall attempt nodeID client \<Rightarrow>
            (case call_client stub (go_ctx g) (go_call g) client e of
               (Inr r, e1) \<Rightarrow> (g\<lparr>go_pc := AtSetLeader nodeID r\<rparr>, c, e1)
             | (Inl err, e1) \<Rightarrow>
                 if IsNotLeader err then (g\<lparr>go_pc := AtHint attempt nodeID err\<rparr>, c, e1)
                 else (g\<lparr>go_pc := Returned (failed (go_call g) err)\<rparr>, c, e1))
        | AtSetLeader nodeID r \<Rightarrow> (g\<lparr>go_pc := Returned r\<rparr>, setLeader (go_group g) nodeID c, e)
        | AtHint attempt nodeID err \<Rightarrow>
            (case updateLeaderFromHint (go_group g) err c of
               (True, c1) \<Rightarrow> (g\<lparr>go_pc := AtPick (attempt + 1) (Some err)\<rparr>, c1, e)
             | (False, c1) \<Rightarrow> (g\<lparr>go_pc := AtClear attempt nodeID err\<rparr>, c1, e))
        | AtClear attempt nodeID err \<Rightarrow>
            (g\<lparr>go_pc := AtPick (attempt + 1) (Some err)\<rparr>, clearLeader (go_group g) nodeID c, e)
        | Returned r \<Rightarrow> (g, c, e)))"

section \<open>One goroutine by itself\<close>

text \<open>The call in the sequential model.\<close>

fun run_call ::
  "(Context \<Rightarrow> string \<Rightarrow> 'e \<Rightarrow> (err + 'c) \<times> 'e) \<Rightarrow> ('c \<Rightarrow> 'e \<Rightarrow> err option \<times> 'e) \<Rightarrow> ('c, 'e) KVServiceClient
    \<Rightarrow> Context \<Rightarrow> client_call \<Rightarrow> 'c RoutedClient \<Rightarrow> 'e \<Rightarrow> reply \<times> 'c RoutedClient option \<times> 'e" where
  "run_call dial close stub ctx (CallPut k v) c e = apfst Done (RoutedPut dial close stub ctx k v (Some c) e)"
| "run_call dial close stub ctx (CallGet k) c e = apfst Got (RoutedGet dial close stub ctx k (Some c) e)"
| "run_call dial close stub ctx (CallDelete k) c e = apfst Done (RoutedDelete dial close stub ctx k (Some c) e)"
| "run_call dial close stub ctx (CallFlush g) c e =
     (case FlushGroup dial close stub ctx g c e of (r, c1, e1) \<Rightarrow> (Done r, Some c1, e1))"
| "run_call dial close stub ctx (CallCompact g) c e =
     (case CompactGroup dial close stub ctx g c e of (r, c1, e1) \<Rightarrow> (Done r, Some c1, e1))"

abbreviation steps_to where
  "steps_to dial close stub s t \<equiv> (\<lambda>x y. y = go_step dial close stub x)\<^sup>*\<^sup>* s t"

lemma step_first:
  assumes "go_step dial close stub s = s'" and "steps_to dial close stub s' t"
  shows "steps_to dial close stub s t"
  using assms by (metis (mono_tags, lifting) converse_rtranclp_into_rtranclp)

lemma steps_to_funpow: "steps_to dial close stub s t \<Longrightarrow> \<exists>n. (go_step dial close stub ^^ n) s = t"
proof (induction rule: rtranclp_induct)
  case base
  then show ?case by (intro exI [of _ 0]) simp
next
  case (step y z)
  then obtain n where "(go_step dial close stub ^^ n) s = y" by blast
  then show ?case using step(2) by (intro exI [of _ "Suc n"]) simp
qed

text \<open>
  The loop of attempts.  The sequential model's environment \<open>'x\<close> may hold the variable of the closure
  besides the environment \<open>ex\<close>; \<open>rep\<close> is the reply that a success makes of it.
\<close>

lemma attempts_alone:
  assumes dial: "\<And>t x. dial' ctx t x = (fst (dial ctx t (ex x)), snd (dial' ctx t x)) \<and> ex (snd (dial' ctx t x)) = snd (dial ctx t (ex x))"
    and close: "\<And>cl x. ex (snd (close' cl x)) = snd (close cl (ex x))"
    and fn: "\<And>cl x. call_client stub ctx call cl (ex x)
      = (case fn cl x of (None, x1) \<Rightarrow> (Inr (rep x1), ex x1) | (Some err, x1) \<Rightarrow> (Inl err, ex x1))"
    and run: "group_attempts dial' close' ctx gid reps fn [a..<length reps + 1] lastErr c x = (r, c', x')"
  shows "steps_to dial close stub
    (\<lparr>go_ctx = ctx, go_call = call, go_group = gid, go_replicas = reps, go_pc = AtPick a lastErr\<rparr>, c, ex x)
    (\<lparr>go_ctx = ctx, go_call = call, go_group = gid, go_replicas = reps,
       go_pc = Returned (case r of None \<Rightarrow> rep x' | Some err \<Rightarrow> failed call err)\<rparr>, c', ex x')"
  using run
proof (induction "length reps + 1 - a" arbitrary: a lastErr c x)
  case 0
  then have "r = Some (case lastErr of Some err \<Rightarrow> err | None \<Rightarrow> Errorf (''no client attempt made for group '' @ quote gid))"
    "c' = c" "x' = x"
    by (auto split: option.splits)
  then show ?case using 0
    by (cases lastErr; intro step_first [OF _ rtranclp.rtrancl_refl]; simp add: go_step_def)
next
  case (Suc n)
  then have a: "a < length reps + 1" by simp
  note run = Suc.prems [unfolded upt_conv_Cons [OF a]]
  have n: "n = length reps + 1 - Suc a" using Suc.hyps(2) by simp
  note IH = Suc.hyps(1) [OF n]
  let ?g = "\<lambda>pc. \<lparr>go_ctx = ctx, go_call = call, go_group = gid, go_replicas = reps, go_pc = pc\<rparr>"
  let ?last = "(?g (Returned (case r of None \<Rightarrow> rep x' | Some err \<Rightarrow> failed call err)), c', ex x')"
  let ?n = "pickNode gid reps a c"
  obtain res c1 x1 where cl: "clientForNode dial' close' ctx ?n c x = (res, c1, x1)" by (metis prod_cases3)
  have clear: "steps_to dial close stub (?g (AtClear a ?n err), c2, ex x2) ?last"
    if "group_attempts dial' close' ctx gid reps fn [Suc a..<length reps + 1] (Some err) (clearLeader gid ?n c2) x2 = (r, c', x')"
    for err c2 x2
    by (rule step_first [OF _ IH [OF that]]) (simp add: go_step_def)
  have rest: "steps_to dial close stub (?g (case res of Inl err \<Rightarrow> AtClear a ?n err | Inr client \<Rightarrow> AtCall a ?n client), c1, ex x1) ?last"
  proof (cases res)
    case (Inl err)
    then show ?thesis using run cl by (simp add: clear)
  next
    case (Inr client)
    obtain z x2 where f: "fn client x1 = (z, x2)" by (metis prod.exhaust)
    note call = fn [of client x1, unfolded f prod.case]
    show ?thesis
    proof (cases z)
      case None
      have "steps_to dial close stub (?g (AtSetLeader ?n (rep x2)), c1, ex x2) ?last"
        by (rule step_first [OF _ rtranclp.rtrancl_refl]) (use run cl Inr f None in \<open>simp add: go_step_def\<close>)
      then have "steps_to dial close stub (?g (AtCall a ?n client), c1, ex x1) ?last"
        by (rule step_first [rotated]) (simp add: go_step_def call None)
      then show ?thesis using Inr by simp
    next
      case (Some err)
      have "steps_to dial close stub (?g (AtCall a ?n client), c1, ex x1) ?last"
      proof (cases "IsNotLeader err")
        case False
        have "r = Some err" "c' = c1" "x' = x2" using run cl Inr f Some False by simp_all
        then show ?thesis
          by (intro step_first [OF _ rtranclp.rtrancl_refl]) (simp add: go_step_def call Some False)
      next
        case True
        obtain b c2 where u: "updateLeaderFromHint gid err c1 = (b, c2)" by (metis prod.exhaust)
        have "steps_to dial close stub (?g (AtHint a ?n err), c1, ex x2) ?last"
        proof (cases b)
          case b: True
          have "group_attempts dial' close' ctx gid reps fn [Suc a..<length reps + 1] (Some err) c2 x2 = (r, c', x')"
            using run cl Inr f Some True u b by simp
          from IH [OF this] show ?thesis by (rule step_first [rotated]) (simp add: go_step_def u b)
        next
          case False
          have "group_attempts dial' close' ctx gid reps fn [Suc a..<length reps + 1] (Some err) (clearLeader gid ?n c2) x2 = (r, c', x')"
            using run cl Inr f Some True u False by simp
          from clear [OF this] show ?thesis by (rule step_first [rotated]) (simp add: go_step_def u False)
        qed
        then show ?thesis by (rule step_first [rotated]) (simp add: go_step_def call Some True)
      qed
      then show ?thesis using Inr by simp
    qed
  qed
  have look: "steps_to dial close stub (?g (AtLookup a ?n), c, ex x) ?last"
  proof (cases "map_of (rcl_clients c) ?n")
    case (Some client)
    then have "res = Inr client" "c1 = c" "x1 = x" using cl by (simp_all add: clientForNode_def)
    then show ?thesis using rest Some by (intro step_first [OF _ rest]) (simp add: go_step_def)
  next
    case none: None
    show ?thesis
    proof (cases "map_of (rcl_nodes c) ?n")
      case None
      then show ?thesis using cl none by (intro step_first [OF _ rest]) (auto simp: go_step_def clientForNode_def)
    next
      case (Some node)
      obtain y x2 where d: "dial' ctx (nd_ClientAddr node) x = (y, x2)" by (metis prod.exhaust)
      then have d': "dial ctx (nd_ClientAddr node) (ex x) = (y, ex x2)"
        using dial [of "nd_ClientAddr node" x] by (metis fst_conv prod.collapse snd_conv)
      have "steps_to dial close stub (?g (AtDial a ?n node), c, ex x) ?last"
      proof (cases y)
        case (Inl err)
        then have "res = Inl err" "c1 = c" "x1 = x2" using cl none Some d by (simp_all add: clientForNode_def)
        then show ?thesis using d' Inl by (intro step_first [OF _ rest]) (simp add: go_step_def)
      next
        case (Inr client)
        then have "res = Inr client" "c1 = c\<lparr>rcl_clients := AList.update ?n client (rcl_clients c)\<rparr>" "x1 = x2"
          using cl none Some d by (simp_all add: clientForNode_def)
        then have "steps_to dial close stub (?g (AtInsert a ?n client), c, ex x2) ?last"
          using none by (intro step_first [OF _ rest]) (simp add: go_step_def)
        then show ?thesis by (rule step_first [rotated]) (simp add: go_step_def d' Inr)
      qed
      then show ?thesis by (rule step_first [rotated]) (simp add: go_step_def none Some)
    qed
  qed
  then show ?case by (rule step_first [rotated]) (use a in \<open>simp add: go_step_def\<close>)
qed

lemma group_alone:
  assumes dial: "\<And>t x. dial' ctx t x = (fst (dial ctx t (ex x)), snd (dial' ctx t x)) \<and> ex (snd (dial' ctx t x)) = snd (dial ctx t (ex x))"
    and close: "\<And>cl x. ex (snd (close' cl x)) = snd (close cl (ex x))"
    and fn: "\<And>cl x. call_client stub ctx call cl (ex x)
      = (case fn cl x of (None, x1) \<Rightarrow> (Inr (rep x1), ex x1) | (Some err, x1) \<Rightarrow> (Inl err, ex x1))"
    and gid: "call_group (rcl_router c) call = Inr gid" and run: "withGroupClient dial' close' ctx gid fn c x = (r, c', x')"
  shows "\<exists>g. steps_to dial close stub (spawn ctx call, c, ex x) (g, c', ex x')
    \<and> go_pc g = Returned (case r of None \<Rightarrow> rep x' | Some err \<Rightarrow> failed call err)"
proof (cases "ctx_Err ctx 0")
  case (Some err)
  then have "r = Some err" "c' = c" "x' = x" using run by (simp_all add: withGroupClient_def)
  then have "steps_to dial close stub (spawn ctx call, c, ex x) ((spawn ctx call)\<lparr>go_pc := Returned (failed call err)\<rparr>, c', ex x')"
    using Some gid by (intro step_first [OF _ rtranclp.rtrancl_refl]) (simp add: go_step_def spawn_def)
  then show ?thesis using \<open>r = Some err\<close> by force
next
  case live: None
  let ?reps = "entry_or [] (rcl_groups c) gid"
  show ?thesis
  proof (cases "?reps = []")
    case True
    let ?err = "Errorf (''cluster group '' @ quote gid @ '' has no client replicas'')"
    have "r = Some ?err" "c' = c" "x' = x" using run live True by (simp_all add: withGroupClient_def)
    then have "steps_to dial close stub (spawn ctx call, c, ex x) ((spawn ctx call)\<lparr>go_pc := Returned (failed call ?err)\<rparr>, c', ex x')"
      using live gid True by (intro step_first [OF _ rtranclp.rtrancl_refl]) (simp add: go_step_def spawn_def)
    then show ?thesis using \<open>r = Some ?err\<close> by force
  next
    case False
    then have "group_attempts dial' close' ctx gid ?reps fn [0..<length ?reps + 1] None c x = (r, c', x')"
      using run live by (simp add: withGroupClient_def Let_def)
    from attempts_alone [where dial = dial and close = close and ex = ex and rep = rep, OF dial close fn this]
    show ?thesis
      by (intro exI conjI, rule step_first [rotated]) (simp_all add: go_step_def spawn_def live gid False)
  qed
qed

text \<open>The goroutine ends as the sequential model of its call does.\<close>

abbreviation ends_as where
  "ends_as dial close stub ctx call c e x \<equiv>
     \<exists>g. steps_to dial close stub (spawn ctx call, c, e) (g, the (fst (snd x)), snd (snd x)) \<and> go_pc g = Returned (fst x)"

lemma alone_reject:
  assumes "call_group (rcl_router c) call = Inl err"
  shows "ends_as dial close stub ctx call c e (run_call dial close stub ctx call c e)"
proof -
  have "run_call dial close stub ctx call c e = (failed call err, Some c, e)"
    using assms by (cases call)
      (auto simp: RoutedPut_def RoutedGet_def RoutedDelete_def withKeyClient_def split: sum.splits)
  then show ?thesis using assms
    by (intro exI [of _ "(spawn ctx call)\<lparr>go_pc := Returned (failed call err)\<rparr>"] conjI step_first [OF _ rtranclp.rtrancl_refl])
      (simp_all add: go_step_def spawn_def)
qed

lemma alone_plain:
  assumes "call_group (rcl_router c) call = Inr gid" and "withGroupClient dial close ctx gid fn c e = (r, c', e')"
    and fn: "\<And>cl x. call_client stub ctx call cl x = done_call (fn cl x)"
    and run: "run_call dial close stub ctx call c e = (case r of None \<Rightarrow> Done None | Some err \<Rightarrow> failed call err, Some c', e')"
  shows "ends_as dial close stub ctx call c e (run_call dial close stub ctx call c e)"
proof -
  have "\<exists>g. steps_to dial close stub (spawn ctx call, c, e) (g, c', e')
      \<and> go_pc g = Returned (case r of None \<Rightarrow> Done None | Some err \<Rightarrow> failed call err)"
    by (rule group_alone [where ex = id and rep = "\<lambda>_. Done None" and dial' = dial and close' = close, unfolded id_apply, OF _ _ _ assms(1,2)])
      (simp_all add: fn done_call_def split: prod.split option.split)
  then show ?thesis by (simp add: run)
qed

lemma alone_get:
  assumes rt: "RouteKey (rcl_router c) k = Inr route"
  shows "ends_as dial close stub ctx (CallGet k) c e (run_call dial close stub ctx (CallGet k) c e)"
proof -
  let ?dial = "\<lambda>ctx target (e, value). case dial ctx target e of (r, e1) \<Rightarrow> (r, e1, value)"
  let ?close = "\<lambda>client (e, value). case close client e of (r, e1) \<Rightarrow> (r, e1, value)"
  let ?fn = "\<lambda>client (e, value). case ClientGet stub client ctx k e of
    (Inl err, e1) \<Rightarrow> (Some err, e1, value) | (Inr got, e1) \<Rightarrow> (None, e1, got)"
  obtain r c' e' v' where w: "withGroupClient ?dial ?close ctx (sr_GroupID route) ?fn c (e, None) = (r, c', e', v')"
    by (rule prod_cases4)
  have "\<exists>g. steps_to dial close stub (spawn ctx (CallGet k), c, fst (e, None :: bytes option)) (g, c', fst (e', v'))
      \<and> go_pc g = Returned (case r of None \<Rightarrow> Got (Inr (snd (e', v'))) | Some err \<Rightarrow> failed (CallGet k) err)"
  proof (rule group_alone [where ex = fst and rep = "\<lambda>x. Got (Inr (snd x))" and dial' = ?dial and close' = ?close, OF _ _ _ _ w])
    show "call_group (rcl_router c) (CallGet k) = Inr (sr_GroupID route)" by (simp add: rt)
  qed (simp_all split: prod.split sum.split)
  moreover have "run_call dial close stub ctx (CallGet k) c e
      = (case r of None \<Rightarrow> Got (Inr v') | Some err \<Rightarrow> failed (CallGet k) err, Some c', e')"
    using w by (simp add: rt RoutedGet_def withKeyClient_def split: option.split)
  ultimately show ?thesis by (simp cong: option.case_cong)
qed

lemma alone_routed:
  assumes gid: "call_group (rcl_router c) call = Inr gid"
  shows "ends_as dial close stub ctx call c e (run_call dial close stub ctx call c e)"
proof (cases call)
  case (CallPut k v)
  obtain r c' e' where "withGroupClient dial close ctx gid (\<lambda>cl. ClientPut stub cl ctx k v) c e = (r, c', e')" by (rule prod_cases3)
  then show ?thesis using gid CallPut
    by (intro alone_plain [OF gid]) (auto simp: RoutedPut_def withKeyClient_def split: option.split sum.splits)
next
  case (CallDelete k)
  obtain r c' e' where "withGroupClient dial close ctx gid (\<lambda>cl. ClientDelete stub cl ctx k) c e = (r, c', e')" by (rule prod_cases3)
  then show ?thesis using gid CallDelete
    by (intro alone_plain [OF gid]) (auto simp: RoutedDelete_def withKeyClient_def split: option.split sum.splits)
next
  case (CallFlush g)
  obtain r c' e' where "withGroupClient dial close ctx gid (\<lambda>cl. ClientFlush stub cl ctx) c e = (r, c', e')" by (rule prod_cases3)
  then show ?thesis using gid CallFlush
    by (intro alone_plain [OF gid]) (auto simp: FlushGroup_def split: option.split)
next
  case (CallCompact g)
  obtain r c' e' where "withGroupClient dial close ctx gid (\<lambda>cl. ClientCompact stub cl ctx) c e = (r, c', e')" by (rule prod_cases3)
  then show ?thesis using gid CallCompact
    by (intro alone_plain [OF gid]) (auto simp: CompactGroup_def split: option.split)
next
  case (CallGet k)
  then show ?thesis using gid alone_get by (cases "RouteKey (rcl_router c) k") auto
qed

text \<open>
  C13: A goroutine by itself is the sequential client.  For every dialer, stub and state of the client,
  the steps of a goroutine that no other interrupts end, with the reply, the client and the
  environment of the sequential model of its call.
\<close>

theorem goroutine_is_sequential:
  "\<exists>n g. (go_step dial close stub ^^ n) (spawn ctx call, c, e)
      = (g, the (fst (snd (run_call dial close stub ctx call c e))), snd (snd (run_call dial close stub ctx call c e)))
    \<and> go_pc g = Returned (fst (run_call dial close stub ctx call c e))"
proof -
  have "ends_as dial close stub ctx call c e (run_call dial close stub ctx call c e)"
    by (cases "call_group (rcl_router c) call") (rule alone_reject, assumption, rule alone_routed, assumption)
  then show ?thesis using steps_to_funpow by metis
qed

section \<open>Schedules\<close>

text \<open>
  Any number of goroutines, by their number, in any order of their steps.  A schedule says which
  goroutine makes the next step, when a new call comes in, when \<open>Close\<close> runs, and how the world
  outside of the client changes on its own.
\<close>

datatype 'e event = Go nat | New Context client_call | CloseClient | World "'e \<Rightarrow> 'e"

type_synonym ('c, 'e) clients = "'c goroutine list \<times> 'c RoutedClient \<times> 'e"

fun do_event ::
  "(Context \<Rightarrow> string \<Rightarrow> 'e \<Rightarrow> (err + 'c) \<times> 'e) \<Rightarrow> ('c \<Rightarrow> 'e \<Rightarrow> err option \<times> 'e) \<Rightarrow> ('c, 'e) KVServiceClient
    \<Rightarrow> 'e event \<Rightarrow> ('c, 'e) clients \<Rightarrow> ('c, 'e) clients" where
  "do_event dial close stub (Go i) (gs, c, e) =
     (if i < length gs then (case go_step dial close stub (gs ! i, c, e) of (g, c1, e1) \<Rightarrow> (gs[i := g], c1, e1))
      else (gs, c, e))"
| "do_event dial close stub (New ctx call) (gs, c, e) = (gs @ [spawn ctx call], c, e)"
| "do_event dial close stub CloseClient (gs, c, e) =
     (case RoutedClose close (Some c) e of (r, rc, e1) \<Rightarrow> (gs, the rc, e1))"
| "do_event dial close stub (World f) (gs, c, e) = (gs, c, f e)"

abbreviation do_events where
  "do_events dial close stub \<equiv> fold (do_event dial close stub)"

definition returned :: "'c goroutine \<Rightarrow> bool" where
  "returned g \<longleftrightarrow> (\<exists>r. go_pc g = Returned r)"

section \<open>Every goroutine returns\<close>

text \<open>
  The steps that a goroutine has left.  \<open>K\<close> is the number of its attempts; while it is in an attempt,
  this attempt is one of them.
\<close>

fun steps_left :: "nat \<Rightarrow> 'c pc \<Rightarrow> nat" where
  "steps_left K AtStart = 8 * K + 2"
| "steps_left K (AtPick a l) = 8 * (K - a) + 1"
| "steps_left K (AtLookup a n) = 8 * (K - a)"
| "steps_left K (AtDial a n node) = 8 * (K - a) - 1"
| "steps_left K (AtInsert a n cl) = 8 * (K - a) - 2"
| "steps_left K (AtClose a n cl x) = 8 * (K - a) - 3"
| "steps_left K (AtCall a n cl) = 8 * (K - a) - 4"
| "steps_left K (AtHint a n err) = 8 * (K - a) - 5"
| "steps_left K (AtClear a n err) = 8 * (K - a) - 6"
| "steps_left K (AtSetLeader n r) = 1"
| "steps_left K (Returned r) = 0"

fun in_attempt :: "nat \<Rightarrow> 'c pc \<Rightarrow> bool" where
  "in_attempt K (AtLookup a n) \<longleftrightarrow> a < K"
| "in_attempt K (AtDial a n node) \<longleftrightarrow> a < K"
| "in_attempt K (AtInsert a n cl) \<longleftrightarrow> a < K"
| "in_attempt K (AtClose a n cl x) \<longleftrightarrow> a < K"
| "in_attempt K (AtCall a n cl) \<longleftrightarrow> a < K"
| "in_attempt K (AtHint a n err) \<longleftrightarrow> a < K"
| "in_attempt K (AtClear a n err) \<longleftrightarrow> a < K"
| "in_attempt K _ \<longleftrightarrow> True"

text \<open>No group has more than \<open>L\<close> replicas; the table of groups never changes.\<close>

definition groups_within :: "nat \<Rightarrow> 'c RoutedClient \<Rightarrow> bool" where
  "groups_within L c \<longleftrightarrow> (\<forall>g. length (entry_or [] (rcl_groups c) g) \<le> L)"

definition may_run :: "nat \<Rightarrow> nat \<Rightarrow> 'c goroutine \<Rightarrow> bool" where
  "may_run L n g \<longleftrightarrow> (if go_pc g = AtStart then 8 * (L + 1) + 2 \<le> n
     else in_attempt (length (go_replicas g) + 1) (go_pc g) \<and> steps_left (length (go_replicas g) + 1) (go_pc g) \<le> n)"

lemma may_run_zero: "may_run L 0 g \<Longrightarrow> returned g"
  by (cases "go_pc g") (auto simp: may_run_def returned_def)

lemma may_run_step:
  assumes "may_run L n g" and "groups_within L c" and "go_step dial close stub (g, c, e) = (g', c', e')"
  shows "may_run L (n - 1) g'"
proof (cases "go_pc g")
  case AtStart
  then have n: "8 * (L + 1) + 2 \<le> n" using assms(1) by (simp add: may_run_def)
  consider r where "go_pc g' = Returned r"
    | gid where "go_pc g' = AtPick 0 None" "go_replicas g' = entry_or [] (rcl_groups c) gid"
    using assms(3) AtStart by (auto simp: go_step_def Let_def split: sum.splits option.splits if_splits)
  then show ?thesis
  proof cases
    case 2
    then have "length (go_replicas g') \<le> L" using assms(2) by (simp add: groups_within_def)
    then show ?thesis using 2 n by (simp add: may_run_def)
  qed (simp add: may_run_def)
next
  case (AtClear a n err)
  then show ?thesis using assms by (auto simp: go_step_def may_run_def)
next
  case (AtHint a n err)
  then show ?thesis using assms by (auto simp: go_step_def may_run_def split: prod.splits bool.splits)
qed (use assms in \<open>auto simp: go_step_def may_run_def split: option.splits sum.splits prod.splits if_splits\<close>)

lemma go_step_groups: "go_step dial close stub (g, c, e) = (g', c', e') \<Longrightarrow> rcl_groups c' = rcl_groups c"
  by (auto simp: go_step_def Let_def setLeader_def clearLeader_def updateLeaderFromHint_def
      split: pc.splits option.splits sum.splits prod.splits if_splits bool.splits)

lemma go_step_call: "go_step dial close stub (g, c, e) = (g', c', e') \<Longrightarrow> go_call g' = go_call g"
  by (auto simp: go_step_def Let_def split: pc.splits option.splits sum.splits prod.splits if_splits bool.splits)

lemma do_events_length:
  "do_events dial close stub evs (gs, c, e) = (gs', c', e') \<Longrightarrow> length gs \<le> length gs'"
proof (induction evs arbitrary: gs c e)
  case (Cons ev evs)
  obtain gs1 c1 e1 where 1: "do_event dial close stub ev (gs, c, e) = (gs1, c1, e1)" by (rule prod_cases3)
  then have "length gs \<le> length gs1" by (cases ev) (auto split: if_splits prod.splits)
  then show ?case using Cons 1 by fastforce
qed simp

lemma do_events_call:
  "do_events dial close stub evs (gs, c, e) = (gs', c', e') \<Longrightarrow> i < length gs \<Longrightarrow> go_call (gs' ! i) = go_call (gs ! i)"
proof (induction evs arbitrary: gs c e)
  case (Cons ev evs)
  obtain gs1 c1 e1 where 1: "do_event dial close stub ev (gs, c, e) = (gs1, c1, e1)" by (rule prod_cases3)
  then have "i < length gs1 \<and> go_call (gs1 ! i) = go_call (gs ! i)"
    using Cons.prems(2) go_step_call by (cases ev) (force simp: nth_append nth_list_update split: if_splits prod.splits)+
  then show ?case using Cons 1 by fastforce
qed simp

lemma may_run_events:
  assumes "do_events dial close stub evs (gs, c, e) = (gs', c', e')" and "i < length gs"
    and "may_run L n (gs ! i)" and "groups_within L c"
  shows "may_run L (n - count_list evs (Go i)) (gs' ! i)"
  using assms
proof (induction evs arbitrary: gs c e n)
  case (Cons ev evs)
  obtain gs1 c1 e1 where 1: "do_event dial close stub ev (gs, c, e) = (gs1, c1, e1)" by (rule prod_cases3)
  let ?n = "if ev = Go i then n - 1 else n"
  have g: "groups_within L c1"
    using 1 Cons.prems(4) go_step_groups
    by (cases ev) (force simp: groups_within_def RoutedClose_def split: if_splits prod.splits)+
  have "i < length gs1 \<and> may_run L ?n (gs1 ! i)"
  proof (cases ev)
    case (Go j)
    show ?thesis
    proof (cases "j = i")
      case True
      obtain g2 c2 e2 where "go_step dial close stub (gs ! i, c, e) = (g2, c2, e2)" by (rule prod_cases3)
      then show ?thesis using 1 Go True Cons.prems(2) may_run_step [OF Cons.prems(3,4)] by auto
    next
      case False
      then show ?thesis using 1 Go Cons.prems(2,3) by (auto split: if_splits prod.splits)
    qed
  qed (use 1 Cons.prems(2,3) in \<open>auto simp: nth_append split: prod.splits\<close>)
  then have "may_run L (?n - count_list evs (Go i)) (gs' ! i)"
    using Cons.IH [OF _ _ _ g] Cons.prems(1) 1 by simp
  then show ?case by (cases "ev = Go i") (simp_all add: diff_diff_eq)
qed simp

text \<open>
  C12: Every call returns.  Whatever the other goroutines, \<open>Close\<close> and the world do in between: a
  goroutine that starts a call has returned from it after at most eight own steps for every replica of
  the largest group and ten more.
\<close>

theorem every_call_returns:
  assumes "groups_within L c" and "i < length gs" and "go_pc (gs ! i) = AtStart"
    and "do_events dial close stub evs (gs, c, e) = (gs', c', e')" and "8 * L + 10 \<le> count_list evs (Go i)"
  shows "returned (gs' ! i)"
proof -
  have "may_run L (8 * L + 10) (gs ! i)" using assms(3) by (simp add: may_run_def)
  from may_run_events [OF assms(4,2) this assms(1)] show ?thesis using assms(5) by (auto intro: may_run_zero)
qed

section \<open>Connections\<close>

text \<open>
  The open connections, as a multiset that the world keeps: a dial that succeeds opens the connection
  that it returns, which leads to the address; \<open>Close\<close> of a connection closes it; calls do neither.
\<close>

definition counts_conns ::
  "(Context \<Rightarrow> string \<Rightarrow> 'e \<Rightarrow> (err + 'c) \<times> 'e) \<Rightarrow> ('c \<Rightarrow> 'e \<Rightarrow> err option \<times> 'e) \<Rightarrow> ('c, 'e) KVServiceClient
    \<Rightarrow> ('c \<Rightarrow> string) \<Rightarrow> ('e \<Rightarrow> 'c multiset) \<Rightarrow> bool" where
  "counts_conns dial close stub target opened \<longleftrightarrow>
     (\<forall>ctx t e err e'. dial ctx t e = (Inl err, e') \<longrightarrow> opened e' = opened e)
     \<and> (\<forall>ctx t e cl e'. dial ctx t e = (Inr cl, e') \<longrightarrow> opened e' = add_mset cl (opened e) \<and> target cl = t)
     \<and> (\<forall>cl e r e'. close cl e = (r, e') \<longrightarrow> opened e' = opened e - {#cl#})
     \<and> (\<forall>ctx call cl e r e'. call_client stub ctx call cl e = (r, e') \<longrightarrow> opened e' = opened e)"

text \<open>The connections that a goroutine has dialled and not yet handed over.\<close>

fun dialled :: "'c pc \<Rightarrow> 'c multiset" where
  "dialled (AtInsert a n cl) = {#cl#}"
| "dialled (AtClose a n cl x) = {#cl#}"
| "dialled _ = {#}"

definition in_flight :: "'c goroutine list \<Rightarrow> 'c multiset" where
  "in_flight gs = sum_list (map (\<lambda>g. dialled (go_pc g)) gs)"

lemma in_flight_simps [simp]: "in_flight [] = {#}" "in_flight (gs @ [g]) = in_flight gs + dialled (go_pc g)"
  by (simp_all add: in_flight_def)

lemma in_flight_update:
  "i < length gs \<Longrightarrow> in_flight (gs[i := g]) + dialled (go_pc (gs ! i)) = in_flight gs + dialled (go_pc g)"
proof (induction gs arbitrary: i)
  case (Cons h gs)
  then show ?case by (cases i) (auto simp: in_flight_def ac_simps)
qed simp

lemma in_flight_returned: "\<forall>g \<in> set gs. returned g \<Longrightarrow> in_flight gs = {#}"
  by (induction gs) (auto simp: in_flight_def returned_def)

text \<open>The connection leads to the node.\<close>

definition leads_to :: "('c \<Rightarrow> string) \<Rightarrow> 'c RoutedClient \<Rightarrow> string \<Rightarrow> 'c \<Rightarrow> bool" where
  "leads_to target c n cl \<longleftrightarrow> (\<exists>node. map_of (rcl_nodes c) n = Some node \<and> target cl = nd_ClientAddr node)"

fun pc_leads :: "('c \<Rightarrow> string) \<Rightarrow> 'c RoutedClient \<Rightarrow> 'c pc \<Rightarrow> bool" where
  "pc_leads target c (AtDial a n node) \<longleftrightarrow> map_of (rcl_nodes c) n = Some node"
| "pc_leads target c (AtInsert a n cl) \<longleftrightarrow> leads_to target c n cl"
| "pc_leads target c (AtClose a n cl x) \<longleftrightarrow> leads_to target c n cl \<and> leads_to target c n x"
| "pc_leads target c (AtCall a n cl) \<longleftrightarrow> leads_to target c n cl"
| "pc_leads target c _ \<longleftrightarrow> True"

definition cache_ok :: "('c \<Rightarrow> string) \<Rightarrow> 'c RoutedClient \<Rightarrow> bool" where
  "cache_ok target c \<longleftrightarrow> distinct (map fst (rcl_clients c))
     \<and> (\<forall>n cl. map_of (rcl_clients c) n = Some cl \<longrightarrow> leads_to target c n cl)"

definition cached :: "'c RoutedClient \<Rightarrow> 'c multiset" where
  "cached c = mset (map snd (rcl_clients c))"

definition conns_inv :: "('c \<Rightarrow> string) \<Rightarrow> ('e \<Rightarrow> 'c multiset) \<Rightarrow> 'c multiset \<Rightarrow> ('c, 'e) clients \<Rightarrow> bool" where
  "conns_inv target opened other s \<longleftrightarrow>
     (case s of (gs, c, e) \<Rightarrow> opened e = other + cached c + in_flight gs \<and> cache_ok target c
        \<and> (\<forall>g \<in> set gs. pc_leads target c (go_pc g)))"

lemma update_absent: "map_of al k = None \<Longrightarrow> AList.update k v al = al @ [(k, v)]"
  by (induction al) (auto split: if_splits)

lemma cached_insert:
  assumes "map_of (rcl_clients c) n = None"
  shows "cached (c\<lparr>rcl_clients := AList.update n cl (rcl_clients c)\<rparr>) = add_mset cl (cached c)"
    and "cache_ok target c \<Longrightarrow> leads_to target c n cl \<Longrightarrow> cache_ok target (c\<lparr>rcl_clients := AList.update n cl (rcl_clients c)\<rparr>)"
proof -
  show "cached (c\<lparr>rcl_clients := AList.update n cl (rcl_clients c)\<rparr>) = add_mset cl (cached c)"
    using assms by (simp add: cached_def update_absent)
  show "cache_ok target (c\<lparr>rcl_clients := AList.update n cl (rcl_clients c)\<rparr>)" if "cache_ok target c" "leads_to target c n cl"
    using that by (auto simp: cache_ok_def leads_to_def distinct_update split: if_splits)
qed

lemma leader_updates_conns [simp]:
  "leads_to target (setLeader g n c) = leads_to target c" "leads_to target (clearLeader g n c) = leads_to target c"
  "cache_ok target (setLeader g n c) = cache_ok target c" "cache_ok target (clearLeader g n c) = cache_ok target c"
  "cached (setLeader g n c) = cached c" "cached (clearLeader g n c) = cached c"
  "rcl_nodes (setLeader g n c) = rcl_nodes c" "rcl_nodes (clearLeader g n c) = rcl_nodes c"
  by (simp_all add: leads_to_def cache_ok_def cached_def setLeader_def clearLeader_def fun_eq_iff)

lemma hint_conns:
  assumes "updateLeaderFromHint g err c = (b, c')"
  shows "leads_to target c' = leads_to target c \<and> cache_ok target c' = cache_ok target c \<and> cached c' = cached c
    \<and> rcl_nodes c' = rcl_nodes c"
  using assms by (auto simp: updateLeaderFromHint_def Let_def setLeader_def leads_to_def cache_ok_def cached_def fun_eq_iff
      split: option.splits prod.splits if_splits)

lemma go_step_conns:
  assumes law: "counts_conns dial close stub target opened" and ok: "cache_ok target c" "pc_leads target c (go_pc g)"
    and step: "go_step dial close stub (g, c, e) = (g', c', e')" and have_it: "dialled (go_pc g) \<subseteq># opened e"
  shows "opened e' + cached c + dialled (go_pc g) = opened e + cached c' + dialled (go_pc g')"
    and "cache_ok target c'" and "pc_leads target c' (go_pc g')" and "rcl_nodes c' = rcl_nodes c"
proof -
  have "opened e' + cached c + dialled (go_pc g) = opened e + cached c' + dialled (go_pc g')
    \<and> cache_ok target c' \<and> pc_leads target c' (go_pc g') \<and> rcl_nodes c' = rcl_nodes c"
  proof (cases "go_pc g")
    case (AtInsert a n cl)
    show ?thesis
    proof (cases "map_of (rcl_clients c) n")
      case None
      then show ?thesis using step AtInsert ok cached_insert(1) [OF None, of cl] cached_insert(2) [OF None, of target cl]
        by (auto simp: go_step_def) (simp_all add: leads_to_def)
    next
      case (Some x)
      then show ?thesis using step AtInsert ok by (auto simp: go_step_def cache_ok_def)
    qed
  next
    case (AtClose a n cl x)
    then have "opened e' = opened e - {#cl#}" "c' = c" "go_pc g' = AtCall a n x"
      using step law by (auto simp: go_step_def counts_conns_def split: prod.splits)
    then show ?thesis using AtClose have_it ok by simp
  next
    case (AtDial a n node)
    then show ?thesis using step law ok
      by (auto simp: go_step_def counts_conns_def leads_to_def split: prod.splits sum.splits)
  next
    case (AtCall a n cl)
    then show ?thesis using step law ok
      by (auto simp: go_step_def counts_conns_def split: prod.splits sum.splits if_splits)
  next
    case (AtHint a n err)
    then show ?thesis using step ok hint_conns [of "go_group g" err c]
      by (auto simp: go_step_def split: prod.splits bool.splits)
  next
    case (AtLookup a n)
    then show ?thesis using step ok by (auto simp: go_step_def cache_ok_def split: option.splits)
  next
    case (AtSetLeader n r)
    then show ?thesis using step ok by (auto simp: go_step_def)
  next
    case (AtClear a n err)
    then show ?thesis using step ok by (auto simp: go_step_def)
  qed (use step ok in \<open>auto simp: go_step_def Let_def split: sum.splits option.splits if_splits\<close>)
  then show "opened e' + cached c + dialled (go_pc g) = opened e + cached c' + dialled (go_pc g')"
    and "cache_ok target c'" and "pc_leads target c' (go_pc g')" and "rcl_nodes c' = rcl_nodes c"
    by blast+
qed

lemma pc_leads_nodes: "rcl_nodes c' = rcl_nodes c \<Longrightarrow> pc_leads target c' p = pc_leads target c p"
  by (cases p) (simp_all add: leads_to_def)

lemma close_clients_opened:
  assumes "counts_conns dial close stub target opened" and "close_clients close cs err e = (r, e')"
  shows "opened e' = opened e - mset (map snd cs)"
  using assms(2)
proof (induction cs arbitrary: err e)
  case (Cons p cs)
  obtain n cl where p: "p = (n, cl)" by (cases p)
  obtain x e1 where cl: "close cl e = (x, e1)" by (cases "close cl e")
  then have "opened e1 = opened e - {#cl#}" using assms(1) by (simp add: counts_conns_def)
  then show ?case using Cons cl p by (simp del: diff_diff_add_mset) (metis add_mset_add_single diff_diff_add_mset union_commute)
qed simp

lemma RoutedClose_opened:
  assumes "counts_conns dial close stub target opened" and "RoutedClose close (Some c) e = (r, rc, e')"
  shows "opened e' = opened e - cached c" and "the rc = c\<lparr>rcl_clients := []\<rparr>"
  using assms close_clients_opened [OF assms(1)] by (auto simp: RoutedClose_def cached_def split: prod.splits)

lemma do_event_conns:
  assumes law: "counts_conns dial close stub target opened" and inv: "conns_inv target opened other (gs, c, e)"
    and world: "\<And>f e. ev = World f \<Longrightarrow> opened (f e) = opened e"
    and step: "do_event dial close stub ev (gs, c, e) = (gs', c', e')"
  shows "conns_inv target opened other (gs', c', e')"
proof (cases ev)
  case (Go i)
  show ?thesis
  proof (cases "i < length gs")
    case True
    obtain g1 c1 e1 where go: "go_step dial close stub (gs ! i, c, e) = (g1, c1, e1)" by (rule prod_cases3)
    have new: "gs' = gs[i := g1]" "c' = c1" "e' = e1" using step Go True go by simp_all
    have mem: "gs ! i \<in> set gs" using True by simp
    then have ok: "cache_ok target c" "pc_leads target c (go_pc (gs ! i))" using inv by (simp_all add: conns_inv_def)
    have eq: "opened e = other + cached c + in_flight gs" using inv by (simp add: conns_inv_def)
    have "dialled (go_pc (gs ! i)) \<subseteq># in_flight gs"
      using in_flight_update [OF True, of "(gs ! i)\<lparr>go_pc := AtStart\<rparr>"]
      by simp (metis mset_subset_eq_add_right)
    then have "dialled (go_pc (gs ! i)) \<subseteq># opened e" unfolding eq by (simp add: subset_mset.add_increasing)
    note st = go_step_conns [OF law ok go this]
    have "opened e1 + cached c + dialled (go_pc (gs ! i)) + in_flight gs
        = opened e + cached c1 + (in_flight (gs[i := g1]) + dialled (go_pc (gs ! i)))"
      using st(1) in_flight_update [OF True, of g1] by (simp add: ac_simps)
    then have "opened e1 = other + cached c1 + in_flight (gs[i := g1])" unfolding eq by (simp add: ac_simps)
    moreover have "\<forall>g \<in> set (gs[i := g1]). pc_leads target c1 (go_pc g)"
      using inv st(3) pc_leads_nodes [OF st(4), of target] set_update_subset_insert [of gs i g1] by (auto simp: conns_inv_def)
    ultimately show ?thesis using st(2) new by (simp add: conns_inv_def)
  next
    case False
    then show ?thesis using step Go inv by simp
  qed
next
  case CloseClient
  obtain r rc e1 where cl: "RoutedClose close (Some c) e = (r, rc, e1)" by (rule prod_cases3)
  note cl' = RoutedClose_opened [OF law cl]
  have new: "gs' = gs" "c' = c\<lparr>rcl_clients := []\<rparr>" "e' = e1" using step CloseClient cl cl'(2) by simp_all
  have "pc_leads target (c\<lparr>rcl_clients := []\<rparr>) p = pc_leads target c p" for p by (rule pc_leads_nodes) simp
  then show ?thesis using inv cl'(1) unfolding new by (simp add: conns_inv_def cache_ok_def cached_def)
qed (use step inv world in \<open>auto simp: conns_inv_def spawn_def\<close>)

lemma do_events_conns:
  assumes law: "counts_conns dial close stub target opened" and world: "\<forall>f. World f \<in> set evs \<longrightarrow> (\<forall>e. opened (f e) = opened e)"
  shows "conns_inv target opened other s \<Longrightarrow> conns_inv target opened other (do_events dial close stub evs s)"
  using world
proof (induction evs arbitrary: s)
  case (Cons ev evs)
  obtain gs c e where s: "s = (gs, c, e)" by (rule prod_cases3)
  obtain gs1 c1 e1 where 1: "do_event dial close stub ev (gs, c, e) = (gs1, c1, e1)" by (rule prod_cases3)
  have "conns_inv target opened other (gs1, c1, e1)"
    by (rule do_event_conns [OF law Cons.prems(1) [unfolded s] _ 1]) (use Cons.prems(2) in auto)
  then show ?case using Cons 1 s by simp
qed simp

text \<open>
  C9: No interleaving loses a connection.  Goroutines dial outside of the mutex, so two of them may dial
  the same node.  After every schedule, the open connections are those in the client's table and those
  that a goroutine has dialled and not handed over yet; the table has one connection for a node, every
  connection in it and every one that a goroutine is about to call leads to the address of its node.
  When all calls have returned, \<open>Close\<close> closes every connection that was ever opened.
\<close>

theorem connections_are_accounted_for:
  assumes "counts_conns dial close stub target opened" and "rcl_clients c = []"
    and "\<forall>f. World f \<in> set evs \<longrightarrow> (\<forall>e. opened (f e) = opened e)"
    and "do_events dial close stub evs ([], c, e) = (gs', c', e')"
  shows "opened e' = opened e + cached c' + in_flight gs' \<and> distinct (map fst (rcl_clients c'))
    \<and> (\<forall>(n, cl) \<in> set (rcl_clients c'). leads_to target c' n cl) \<and> (\<forall>g \<in> set gs'. pc_leads target c' (go_pc g))
    \<and> ((\<forall>g \<in> set gs'. returned g) \<longrightarrow> opened (snd (snd (RoutedClose close (Some c') e'))) = opened e)"
proof -
  have "conns_inv target opened (opened e) ([], c, e)" using assms(2) by (simp add: conns_inv_def cached_def cache_ok_def)
  from do_events_conns [OF assms(1,3) this] have inv: "conns_inv target opened (opened e) (gs', c', e')"
    unfolding assms(4) .
  obtain r rc e1 where cl: "RoutedClose close (Some c') e' = (r, rc, e1)" by (rule prod_cases3)
  show ?thesis
    using inv RoutedClose_opened(1) [OF assms(1) cl] in_flight_returned [of gs'] cl
    by (auto simp: conns_inv_def cache_ok_def dest: map_of_is_SomeI)
qed

text \<open>A world that numbers its connections and answers every call.\<close>

definition count_dial :: "Context \<Rightarrow> string \<Rightarrow> nat \<times> (nat \<times> string) multiset \<Rightarrow> (err + nat \<times> string) \<times> nat \<times> (nat \<times> string) multiset" where
  "count_dial ctx t e = (Inr (fst e, t), Suc (fst e), add_mset (fst e, t) (snd e))"

definition count_close :: "nat \<times> string \<Rightarrow> nat \<times> (nat \<times> string) multiset \<Rightarrow> err option \<times> nat \<times> (nat \<times> string) multiset" where
  "count_close cl e = (None, fst e, snd e - {#cl#})"

definition count_stub :: "(nat \<times> string, nat \<times> (nat \<times> string) multiset) KVServiceClient" where
  "count_stub = \<lparr>stub_Put = (\<lambda>cl ctx k v e. (None, e)), stub_Get = (\<lambda>cl ctx k e. (Inr None, e)),
     stub_Delete = (\<lambda>cl ctx k e. (None, e)), stub_Flush = (\<lambda>cl ctx e. (None, e)), stub_Compact = (\<lambda>cl ctx e. (None, e))\<rparr>"

definition one_node_client :: "(nat \<times> string) RoutedClient" where
  "one_node_client = \<lparr>rcl_router = None, rcl_nodes = [(''n1'', \<lparr>nd_ID = ''n1'', nd_ClientAddr = '':9001''\<rparr>)],
     rcl_groups = [(''g1'', [''n1''])], rcl_raftAddrNode = [], rcl_clients = [], rcl_leaders = []\<rparr>"

lemma count_stub_keeps: "call_client count_stub ctx call cl e = (r, e') \<Longrightarrow> e' = e"
  by (cases call) (auto simp: count_stub_def done_call_def ClientPut_def ClientGet_def ClientDelete_def
      ClientFlush_def ClientCompact_def)

lemma count_world: "counts_conns count_dial count_close count_stub snd snd"
  using count_stub_keeps by (fastforce simp: counts_conns_def count_dial_def count_close_def)

text \<open>Two goroutines that dial the same node.\<close>

definition two_flushes :: "(nat \<times> (nat \<times> string) multiset) event list" where
  "two_flushes = [New Background (CallFlush ''g1''), New Background (CallFlush ''g1'')]
     @ concat (replicate 4 [Go 0, Go 1]) @ [Go 0, Go 1, Go 0, Go 1, Go 0, Go 1, Go 1]"

lemmas run_goroutines = go_step_def spawn_def one_node_client_def entry_or_def pickNode_def count_dial_def count_close_def
  count_stub_def done_call_def ClientFlush_def setLeader_def Background_def Let_def

lemma two_flushes_run:
  "\<exists>gs c. do_events count_dial count_close count_stub two_flushes ([], one_node_client, 0, {#}) = (gs, c, 2, {#(0, '':9001'')#})
    \<and> (\<forall>g \<in> set gs. returned g) \<and> length gs = 2"
  by (simp add: two_flushes_def run_goroutines returned_def eval_nat_numeral)

theorem connections_are_accounted_for_witness:
  "\<exists>gs c. do_events count_dial count_close count_stub two_flushes ([], one_node_client, 0, {#}) = (gs, c, 2, {#(0, '':9001'')#})
    \<and> length gs = 2 \<and> cached c = {#(0, '':9001'')#} \<and> snd (snd (snd (RoutedClose count_close (Some c) (2, {#(0, '':9001'')#})))) = {#}"
proof -
  obtain gs c where run: "do_events count_dial count_close count_stub two_flushes ([], one_node_client, 0, {#})
      = (gs, c, 2, {#(0, '':9001'')#})" and fin: "\<forall>g \<in> set gs. returned g" "length gs = 2"
    using two_flushes_run by blast
  have "rcl_clients one_node_client = []" by (simp add: one_node_client_def)
  moreover have "\<forall>f. World f \<in> set two_flushes \<longrightarrow> (\<forall>e. snd (f e) = snd e)" by (simp add: two_flushes_def)
  ultimately have "{#(0, '':9001'')#} = {#} + cached c + in_flight gs"
    "snd (snd (snd (RoutedClose count_close (Some c) (2, {#(0, '':9001'')#})))) = {#}"
    using connections_are_accounted_for [OF count_world _ _ run] fin(1) by auto
  then show ?thesis using run fin in_flight_returned [OF fin(1)] by (intro exI [of _ gs] exI [of _ c]) simp
qed

theorem every_call_returns_witness:
  "\<exists>gs c e. do_events count_dial count_close count_stub (New Background (CallFlush ''g1'') # concat (replicate 18 [Go 0, Go 1]))
      ([spawn Background (CallFlush ''g1'')], one_node_client, 0, {#}) = (gs, c, e) \<and> returned (gs ! 0)"
proof -
  let ?evs = "New Background (CallFlush ''g1'') # concat (replicate 18 [Go 0, Go 1])"
  obtain gs c e where run: "do_events count_dial count_close count_stub ?evs
      ([spawn Background (CallFlush ''g1'')], one_node_client, 0, {#}) = (gs, c, e)"
    by (rule prod_cases3)
  have "groups_within 1 one_node_client" by (simp add: groups_within_def one_node_client_def entry_or_def)
  moreover have "8 * 1 + 10 \<le> count_list ?evs (Go 0)" by (simp add: eval_nat_numeral)
  ultimately have "returned (gs ! 0)"
    using every_call_returns [OF _ _ _ run, of 1 0] by (simp add: spawn_def)
  then show ?thesis using run by blast
qed

text \<open>
  \<open>Close\<close> does not mark the client as closed.  A dial that is under way puts its connection into the
  empty table, and nothing closes it when all calls have returned, unless \<open>Close\<close> is called again.
\<close>

lemma dial_during_close_stays_open:
  "\<exists>evs gs c. filter (\<lambda>ev. ev = CloseClient) evs = [CloseClient] \<and> hd (rev (filter (\<lambda>ev. ev \<noteq> Go 0) evs)) = CloseClient
    \<and> do_events count_dial count_close count_stub evs ([], one_node_client, 0, {#}) = (gs, c, 1, {#(0, '':9001'')#})
    \<and> (\<forall>g \<in> set gs. returned g)"
proof -
  let ?evs = "[New Background (CallFlush ''g1''), Go 0, Go 0, Go 0, Go 0, CloseClient, Go 0, Go 0, Go 0]"
  have "\<exists>gs c. do_events count_dial count_close count_stub ?evs ([], one_node_client, 0, {#}) = (gs, c, 1, {#(0, '':9001'')#})
      \<and> (\<forall>g \<in> set gs. returned g)"
    by (simp add: run_goroutines returned_def RoutedClose_def)
  moreover have "filter (\<lambda>ev. ev = CloseClient) ?evs = [CloseClient]" "hd (rev (filter (\<lambda>ev. ev \<noteq> Go 0) ?evs)) = CloseClient"
    by simp_all
  ultimately show ?thesis by blast
qed

end
