(* ===== verification/KV_Members.thy ===== *)
theory KV_Members
  imports KV_Requests
begin

text \<open>
  The members of a replicated group as the replicas that routed clients meet: a member leads with its
  majority, or follows and knows a leader.  They provide \<open>replica_ops\<close>, and with it a client and the
  servers of a cluster refine one map.
\<close>

section \<open>Members\<close>

text \<open>
  The library's part of a member: the leader that it follows, if any, as its id and address, and the
  log.  A follower refuses \<open>Apply\<close> and \<open>Barrier\<close>, as documented.
\<close>

type_synonym member = "((string \<times> string) option \<times> leader_log) \<times> db_state"

definition ErrRaftNotLeader :: err where
  "ErrRaftNotLeader = Errorf ''node is not the leader''"

definition member_Apply :: "bytes \<Rightarrow> int \<Rightarrow> member \<Rightarrow> (err option \<times> response) \<times> member" where
  "member_Apply data timeout s =
     (case s of
        ((None, l), d) \<Rightarrow> (case healthy_Apply data timeout (l, d) of (r, l1, d1) \<Rightarrow> (r, (None, l1), d1))
      | ((Some leader, l), d) \<Rightarrow> ((Some ErrRaftNotLeader, RespNil), s))"

definition member_Barrier :: "int \<Rightarrow> member \<Rightarrow> err option \<times> member" where
  "member_Barrier timeout s =
     (case s of
        ((None, l), d) \<Rightarrow> (case healthy_Barrier timeout (l, d) of (r, l1, d1) \<Rightarrow> (r, (None, l1), d1))
      | ((Some leader, l), d) \<Rightarrow> (Some ErrRaftNotLeader, s))"

definition member_lib :: "member raft_lib" where
  "member_lib = \<lparr>lib_State = (\<lambda>s. case fst (fst s) of None \<Rightarrow> Leader | Some leader \<Rightarrow> Follower),
     lib_LeaderWithID = (\<lambda>s. case fst (fst s) of None \<Rightarrow> ('''', '''') | Some (i, a) \<Rightarrow> (a, i)),
     lib_Apply = member_Apply, lib_Barrier = member_Barrier, lib_Snapshot = Pair None, lib_Shutdown = Pair None,
     lib_CloseTransport = Pair None, lib_CloseStore = Pair None\<rparr>"

definition member_leads :: "member \<Rightarrow> (bytes \<rightharpoonup> bytes) \<Rightarrow> bool" where
  "member_leads s a \<longleftrightarrow> fst (fst s) = None \<and> leader_map (snd (fst s), snd s) a"

definition member_follows :: "member \<Rightarrow> string \<Rightarrow> string \<Rightarrow> bool" where
  "member_follows s i a \<longleftrightarrow> fst (fst s) = Some (i, a)"

lemmas member_defs = member_lib_def member_Apply_def member_Barrier_def node_methods_def NodeIsLeader_def
  NodeLeader_def NodeApply_def NodeBarrier_def healthy_lib_def

interpretation member: raft_leader "node_methods member_lib" member_leads config for config
proof
  fix s a t cmd data n d
  show "rn_IsLeader (node_methods member_lib) s" if "member_leads s a"
    using that by (simp add: member_leads_def member_defs)
  show "\<exists>s'. rn_Apply (node_methods member_lib) data t s = (None, s') \<and> member_leads s' (apply_command cmd a)"
    if s: "member_leads s a" and "0 < t" and cmd: "EncodeCommand cmd = Inr data"
  proof -
    obtain l d where ld: "s = ((None, l), d)" "leader_map (l, d) a" using s by (cases s) (auto simp: member_leads_def)
    obtain l1 d1 where "rn_Apply (node_methods healthy_lib) data t (l, d) = (None, l1, d1)" "leader_map (l1, d1) (apply_command cmd a)"
      using healthy.propose [OF ld(2) \<open>0 < t\<close> cmd] by auto
    then show ?thesis using ld(1)
      by (auto simp: member_defs member_leads_def split: prod.splits option.splits response.splits)
  qed
  show "\<exists>n d. rn_Barrier (node_methods member_lib) t s = (None, n, d) \<and> member_leads (n, d) a \<and> db_map d a"
    if s: "member_leads s a" and "0 < t"
  proof -
    obtain l d where ld: "s = ((None, l), d)" "leader_map (l, d) a" using s by (cases s) (auto simp: member_leads_def)
    obtain l1 d1 where "rn_Barrier (node_methods healthy_lib) t (l, d) = (None, l1, d1)" "leader_map (l1, d1) a" "db_map d1 a"
      using healthy.barrier [OF ld(2) \<open>0 < t\<close>] by auto
    then show ?thesis using ld(1) by (auto simp: member_defs member_leads_def)
  qed
  show "\<exists>b. db_map d b \<and> (\<forall>d'. db_map d' b \<longrightarrow> member_leads (n, d') a)" if "member_leads (n, d) a"
    using that by (auto simp: member_leads_def leader_map_def)
qed

interpretation members: replica_ops "raft_ops (newRaftStore (node_methods member_lib) config)" member_leads member_follows for config
proof
  fix ctx s i a k v
  assume live: "ctx_live ctx" and f: "member_follows s i a" and k: "(k :: bytes) \<noteq> []"
  have chk: "checkLeader (newRaftStore (node_methods member_lib) config) s = Some (NotLeaderError i a)"
    using f by (simp add: checkLeader_def member_follows_def member_defs)
  have err: "ctx_Err ctx 0 = None" using live by (simp add: ctx_live_def)
  show "so_Put (raft_ops (newRaftStore (node_methods member_lib) config)) ctx k v s = (Some (NotLeaderError i a), s)"
    "so_Get (raft_ops (newRaftStore (node_methods member_lib) config)) ctx k s = (Inl (NotLeaderError i a), s)"
    "so_Delete (raft_ops (newRaftStore (node_methods member_lib) config)) ctx k s = (Some (NotLeaderError i a), s)"
    using chk err k by (simp_all add: raft_ops_def RaftPut_def RaftGet_def RaftDelete_def)
qed

section \<open>New clients\<close>

lemma newRoutedClient_ok:
  assumes new: "newRoutedClient ctx cfg hasDial = Inr c" and router: "ConfigNewRouter cfg = Inr router"
  shows "client_ok cfg router up c" and "cluster_ok cfg"
proof -
  have val: "Validate cfg = None" and c: "rcl_router c = Some router" "rcl_clients c = []" "rcl_leaders c = []"
      "rcl_nodes c = fold (\<lambda>node. AList.update (nd_ID node) node) (cc_Nodes cfg) []"
      "rcl_groups c = fold (\<lambda>grp. AList.update (gp_ID grp) (map gr_NodeID (gp_Replicas grp))) (cc_Groups cfg) []"
      "rcl_raftAddrNode c = fold (\<lambda>grp. AList.update (gp_ID grp)
         (fold (\<lambda>replica. AList.update (gr_RaftAddr replica) (gr_NodeID replica)) (gp_Replicas grp) [])) (cc_Groups cfg) []"
    using new router by (auto simp: newRoutedClient_def split: option.splits if_splits)
  show ok: "cluster_ok cfg" using val by (simp add: Validate_cluster_ok)
  have dn: "distinct (map nd_ID (cc_Nodes cfg))" and dg: "distinct (map gp_ID (cc_Groups cfg))"
    using ok by (simp_all add: cluster_ok_def)
  have "map_of (rcl_nodes c) (nd_ID node) = Some node" if "node \<in> set (cc_Nodes cfg)" for node
    unfolding c(4) fold_update_map [OF dn] by (rule map_of_map_distinct [OF dn that])
  moreover have "map_of (rcl_groups c) (gp_ID grp) = Some (map gr_NodeID (gp_Replicas grp))" if "grp \<in> set (cc_Groups cfg)" for grp
    unfolding c(5) fold_update_map [OF dg] by (rule map_of_map_distinct [OF dg that])
  moreover have "is_replica grp n"
    if grp: "grp \<in> set (cc_Groups cfg)" and n: "map_of (entry_or [] (rcl_raftAddrNode c) (gp_ID grp)) addr = Some n" for grp addr n
  proof -
    have d: "distinct (map gr_RaftAddr (gp_Replicas grp))" using ok grp by (simp add: cluster_ok_def group_ok_def)
    have "map_of (rcl_raftAddrNode c) (gp_ID grp)
        = Some (fold (\<lambda>replica. AList.update (gr_RaftAddr replica) (gr_NodeID replica)) (gp_Replicas grp) [])"
      unfolding c(6) fold_update_map [OF dg] by (rule map_of_map_distinct [OF dg grp])
    then have "map_of (map (\<lambda>replica. (gr_RaftAddr replica, gr_NodeID replica)) (gp_Replicas grp)) addr = Some n"
      using n by (simp add: entry_or_def fold_update_map [OF d])
    then show ?thesis by (auto simp: is_replica_def dest!: map_of_SomeD)
  qed
  ultimately show "client_ok cfg router up c" using c(1-3) by (simp add: client_ok_def entry_or_def)
qed

section \<open>An example\<close>

definition three_nodes :: Config where
  "three_nodes = \<lparr>cc_Nodes = [\<lparr>nd_ID = ''n1'', nd_ClientAddr = '':9001''\<rparr>, \<lparr>nd_ID = ''n2'', nd_ClientAddr = '':9002''\<rparr>,
       \<lparr>nd_ID = ''n3'', nd_ClientAddr = '':9003''\<rparr>],
     cc_ShardConfig = \<lparr>sh_ShardCount = 1, sh_VirtualNodes = 1\<rparr>,
     cc_ShardRoutes = [\<lparr>sd_ID = 0, sd_GroupID = ''g1''\<rparr>],
     cc_Groups = [\<lparr>gp_ID = ''g1'', gp_Replicas = [\<lparr>gr_NodeID = ''n2'', gr_RaftAddr = '':10002''\<rparr>,
       \<lparr>gr_NodeID = ''n3'', gr_RaftAddr = '':10003''\<rparr>, \<lparr>gr_NodeID = ''n1'', gr_RaftAddr = '':10001''\<rparr>]\<rparr>]\<rparr>"

lemma three_nodes_ok: "cluster_ok three_nodes"
  by (auto simp: cluster_ok_def group_ok_def replica_ok_def three_nodes_def)

text \<open>\<open>n1\<close> leads, \<open>n2\<close> follows and \<open>n3\<close> is down.\<close>

definition three_members :: "Router \<Rightarrow> leader_log \<times> db_state \<Rightarrow> member processes" where
  "three_members router s t =
     (if t = '':9001'' then Some \<lparr>ss_router = Some router, ss_groups = [(''g1'', (None, fst s), snd s)]\<rparr>
      else if t = '':9002''
      then Some \<lparr>ss_router = Some router, ss_groups = [(''g1'', (Some (''n1'', '':10001''), fst s), snd s)]\<rparr>
      else None)"

lemma three_members_led:
  assumes "leader_map s a"
  shows "cluster_led member_leads member_follows three_nodes router {'':9001'', '':9002''} (three_members router s) (\<lambda>g. a)"
proof -
  have "good_hint (hd (cc_Groups three_nodes)) ''n1'' '':10001''"
    by (simp add: good_hint_def is_replica_def three_nodes_def plain_chars plain_char_def)
  then have "led_by member_leads member_follows three_nodes router {'':9001'', '':9002''} (three_members router s)
      (hd (cc_Groups three_nodes)) a \<lparr>nd_ID = ''n1'', nd_ClientAddr = '':9001''\<rparr>"
    using assms by (simp add: led_by_def is_replica_def three_nodes_def three_members_def hosted_def member_leads_def member_follows_def)
  then show ?thesis by (auto simp: cluster_led_def three_nodes_def)
qed

section \<open>Properties\<close>

text \<open>
  A cluster refines one map for its clients.  Take a valid configuration and, for every group,
  one replica that leads with its majority while the other replicas that are up follow and know it;
  other processes may be down.  A new routed client, which dials, is refused by followers, reads the
  leader out of their error messages and remembers it, has every sequence of \<open>Put\<close>s, \<open>Get\<close>s and
  \<open>Delete\<close>s answered as the union of the groups' maps would answer it.
\<close>

lemma client_refines_map:
  assumes "newRoutedClient ctx0 cfg True = Inr c" and "ConfigNewRouter cfg = Inr router"
    and "cluster_led member_leads member_follows cfg router up e m"
    and "ctx_live ctx" and "\<forall>r \<in> set rs. request_valid r \<and> key_request r"
  shows "\<exists>xs c' e'. client_serve_all (raft_ops (newRaftStore (node_methods member_lib) config)) up ctx rs (Some c) e = (xs, Some c', e')
    \<and> all_answered rs (cluster_map router m) xs"
  by (rule members.client_requests [OF newRoutedClient_ok(2) [OF assms(1,2)] assms(2)
        newRoutedClient_ok(1) [OF assms(1,2)] assms(3,4,5)])

lemma client_refines_map_witness:
  "\<exists>c e ss s xs c' e'. newRoutedClient Background three_nodes True = Inr c
    \<and> e '':9002'' = Some ss \<and> map_of (ss_groups ss) ''g1'' = Some s \<and> member_follows s ''n1'' '':10001'' \<and> e '':9003'' = None
    \<and> client_serve_all (raft_ops (newRaftStore (node_methods member_lib) \<lparr>rsc_ApplyTimeout = 0, rsc_BarrierTimeout = 0\<rparr>))
        {'':9001'', '':9002''} Background [ReqGet [1], ReqPut [1] [3], ReqGet [1], ReqPut [] [4]] (Some c) e = (xs, Some c', e')
    \<and> xs = [Got (Inr (Some [2])), Done None, Got (Inr (Some [3])), Done (Some ErrEmptyKey)]"
proof -
  let ?rs = "[ReqGet [1], ReqPut [1] [3], ReqGet [1], ReqPut [] [4]]" and ?config = "\<lparr>rsc_ApplyTimeout = 0, rsc_BarrierTimeout = 0\<rparr>"
  obtain g0 g where g: "fresh_group g0" "group_step\<^sup>*\<^sup>* g0 g" "length (gr_replicas g) = 1"
    and log: "gr_log g = [frame \<lparr>rec_Type = TypePut, rec_Key = [1], rec_Value = [2]\<rparr>]"
    using example_group by blast
  have lead: "leader_map (leader_of g 0) [[1] \<mapsto> [2]]"
    using replica_leads [OF g(1,2), of 0] g(3) unfolding log example_log_map by simp
  obtain router where router: "ConfigNewRouter three_nodes = Inr router"
    using cluster_ok_router [OF three_nodes_ok] by blast
  obtain c where c: "newRoutedClient Background three_nodes True = Inr (c :: string RoutedClient)"
    using router three_nodes_ok Validate_cluster_ok [of three_nodes] by (simp add: newRoutedClient_def Background_def)
  have "\<forall>r \<in> set ?rs. request_valid r \<and> key_request r" by (simp add: MaxUint32_def)
  from client_refines_map [where config = ?config, OF c router three_members_led [OF lead] ctx_live_Background this]
  obtain xs c' e' where run: "client_serve_all (raft_ops (newRaftStore (node_methods member_lib) ?config)) {'':9001'', '':9002''}
      Background ?rs (Some c) (three_members router (leader_of g 0)) = (xs, Some c', e')"
    and all: "all_answered ?rs (cluster_map router (\<lambda>g. [[1] \<mapsto> [2]])) xs"
    by blast
  obtain route where "RouteKey (Some router) [1] = Inr route"
    using cluster_ok_serves [OF three_nodes_ok router, of "[1]"] by blast
  then have "cluster_map router (\<lambda>g. [[1] \<mapsto> [2]]) [1] = Some [2]" by (simp add: cluster_map_def)
  then have xs: "xs = [Got (Inr (Some [2])), Done None, Got (Inr (Some [3])), Done (Some ErrEmptyKey)]"
    using all by (simp add: answered)
  let ?s = "((Some (''n1'', '':10001''), fst (leader_of g 0)), snd (leader_of g 0))"
  have "three_members router (leader_of g 0) '':9002'' = Some \<lparr>ss_router = Some router, ss_groups = [(''g1'', ?s)]\<rparr>"
    "map_of (ss_groups \<lparr>ss_router = Some router, ss_groups = [(''g1'', ?s)]\<rparr>) ''g1'' = Some ?s"
    "member_follows ?s ''n1'' '':10001''" "three_members router (leader_of g 0) '':9003'' = None"
    by (simp_all add: three_members_def member_follows_def)
  then show ?thesis using c run xs by blast
qed

end
