(* ===== verification/KV_Linear.thy ===== *)
theory KV_Linear
  imports KV_Goroutines KV_Members
begin

text \<open>
  Concurrent requests of many goroutines on one routed client, in any interleaving and across
  elections: they are linearizable, with one map as the specification.
\<close>

section \<open>The history of a schedule\<close>

fun call_request :: "client_call \<Rightarrow> request" where
  "call_request (CallPut k v) = ReqPut k v"
| "call_request (CallGet k) = ReqGet k"
| "call_request (CallDelete k) = ReqDelete k"
| "call_request (CallFlush g) = ReqFlush"
| "call_request (CallCompact g) = ReqCompact"

fun call_key :: "client_call \<Rightarrow> bytes" where
  "call_key (CallPut k v) = k"
| "call_key (CallGet k) = k"
| "call_key (CallDelete k) = k"
| "call_key _ = []"

text \<open>
  The calls that a server has answered, in the order of the answers, each with the number of its
  goroutine.  A call is entered in a step of its own goroutine, so between its start and its return.
\<close>

type_synonym entry = "nat \<times> client_call \<times> reply"

definition answer_now :: "('c, 'e) KVServiceClient \<Rightarrow> 'c goroutine \<Rightarrow> 'e \<Rightarrow> reply list" where
  "answer_now stub g e =
     (case go_pc g of
        AtCall a n cl \<Rightarrow> (case call_client stub (go_ctx g) (go_call g) cl e of (Inr r, e1) \<Rightarrow> [r] | (Inl err, e1) \<Rightarrow> [])
      | _ \<Rightarrow> [])"

fun event_log :: "('c, 'e) KVServiceClient \<Rightarrow> 'e event \<Rightarrow> ('c, 'e) clients \<Rightarrow> entry list" where
  "event_log stub (Go i) (gs, c, e) =
     (if i < length gs then map (\<lambda>r. (i, go_call (gs ! i), r)) (answer_now stub (gs ! i) e) else [])"
| "event_log stub _ s = []"

fun answered_log ::
  "(Context \<Rightarrow> string \<Rightarrow> 'e \<Rightarrow> (err + 'c) \<times> 'e) \<Rightarrow> ('c \<Rightarrow> 'e \<Rightarrow> err option \<times> 'e) \<Rightarrow> ('c, 'e) KVServiceClient
    \<Rightarrow> 'e event list \<Rightarrow> ('c, 'e) clients \<Rightarrow> entry list" where
  "answered_log dial close stub [] s = []"
| "answered_log dial close stub (ev # evs) s =
     event_log stub ev s @ answered_log dial close stub evs (do_event dial close stub ev s)"

definition log_requests :: "entry list \<Rightarrow> request list" where
  "log_requests h = map (\<lambda>(i, call, r). call_request call) h"

definition log_replies :: "entry list \<Rightarrow> reply list" where
  "log_replies h = map (\<lambda>(i, call, r). r) h"

definition entries_of :: "nat \<Rightarrow> entry list \<Rightarrow> entry list" where
  "entries_of i h = filter (\<lambda>x. fst x = i) h"

lemma log_simps [simp]:
  "log_requests [] = []" "log_replies [] = []" "entries_of i [] = []"
  "log_requests (h @ h') = log_requests h @ log_requests h'" "log_replies (h @ h') = log_replies h @ log_replies h'"
  "log_requests [(i, call, r)] = [call_request call]" "log_replies [(i, call, r)] = [r]"
  "entries_of i (h @ h') = entries_of i h @ entries_of i h'"
  "entries_of j [(i, call, r)] = (if i = j then [(i, call, r)] else [])"
  by (simp_all add: log_requests_def log_replies_def entries_of_def)

lemma all_answered_snoc:
  assumes "all_answered rs a xs" and "answers r (fold spec_request rs a) x"
  shows "all_answered (rs @ [r]) a (xs @ [x])"
  using assms
proof (induction rs arbitrary: a xs)
  case Nil
  then show ?case by (simp add: all_answered_iff)
next
  case (Cons q qs)
  then show ?case by (cases xs) auto
qed

lemma all_answered_entry:
  "all_answered (log_requests h) M (log_replies h) \<Longrightarrow> (i, call, r) \<in> set h \<Longrightarrow> \<exists>M'. answers (call_request call) M' r"
proof (induction h arbitrary: M)
  case (Cons x h)
  then show ?case by (cases x) (auto simp: log_requests_def log_replies_def)
qed simp

section \<open>Where the goroutines may stand\<close>

definition call_ok :: "Context \<Rightarrow> client_call \<Rightarrow> bool" where
  "call_ok ctx call \<longleftrightarrow> ctx_live ctx \<and> request_valid (call_request call) \<and> key_request (call_request call)"

text \<open>A connection to a node of the cluster that is up.\<close>

definition conn_up :: "Config \<Rightarrow> string set \<Rightarrow> string \<Rightarrow> string \<Rightarrow> bool" where
  "conn_up cfg up n t \<longleftrightarrow> t \<in> up \<and> (\<exists>node \<in> set (cc_Nodes cfg). nd_ID node = n \<and> nd_ClientAddr node = t)"

text \<open>
  The place of a goroutine in its call for a group, with its entries in the history: none before the
  answer, the reply that it carries after it, and none when it returns an error.
\<close>

fun place_ok :: "Config \<Rightarrow> string set \<Rightarrow> Group \<Rightarrow> client_call \<Rightarrow> reply list \<Rightarrow> string pc \<Rightarrow> bool" where
  "place_ok cfg up grp call l (AtPick a le) \<longleftrightarrow> l = []"
| "place_ok cfg up grp call l (AtLookup a n) \<longleftrightarrow> l = [] \<and> is_replica grp n"
| "place_ok cfg up grp call l (AtDial a n node) \<longleftrightarrow> l = [] \<and> is_replica grp n \<and> node \<in> set (cc_Nodes cfg) \<and> nd_ID node = n"
| "place_ok cfg up grp call l (AtInsert a n t) \<longleftrightarrow> l = [] \<and> is_replica grp n \<and> conn_up cfg up n t"
| "place_ok cfg up grp call l (AtClose a n t x) \<longleftrightarrow> l = [] \<and> is_replica grp n \<and> conn_up cfg up n x"
| "place_ok cfg up grp call l (AtCall a n t) \<longleftrightarrow> l = [] \<and> is_replica grp n \<and> conn_up cfg up n t"
| "place_ok cfg up grp call l (AtSetLeader n r) \<longleftrightarrow> l = [r] \<and> is_replica grp n"
| "place_ok cfg up grp call l (AtHint a n err) \<longleftrightarrow>
     l = [] \<and> (\<exists>i addr. err = ClientNotLeaderError i addr \<and> (i = [] \<or> is_replica grp i))"
| "place_ok cfg up grp call l (AtClear a n err) \<longleftrightarrow> l = []"
| "place_ok cfg up grp call l (Returned r) \<longleftrightarrow> l = [r] \<or> l = [] \<and> (\<exists>err. r = failed call err)"
| "place_ok cfg up grp call l AtStart \<longleftrightarrow> False"

definition gr_ok :: "Config \<Rightarrow> Router \<Rightarrow> string set \<Rightarrow> reply list \<Rightarrow> string goroutine \<Rightarrow> bool" where
  "gr_ok cfg router up l g \<longleftrightarrow> call_ok (go_ctx g) (go_call g)
     \<and> (go_pc g = AtStart \<and> l = []
        \<or> call_key (go_call g) = [] \<and> l = [] \<and> go_pc g = Returned (failed (go_call g) ErrEmptyKey)
        \<or> (\<exists>route grp. call_key (go_call g) \<noteq> [] \<and> RouteKey (Some router) (call_key (go_call g)) = Inr route
             \<and> grp \<in> set (cc_Groups cfg) \<and> gp_ID grp = sr_GroupID route \<and> go_group g = sr_GroupID route
             \<and> go_replicas g = map gr_NodeID (gp_Replicas grp) \<and> place_ok cfg up grp (go_call g) l (go_pc g)))"

text \<open>
  With a leader that does not change: which replicas have been tried.  A goroutine that has gone on
  from an attempt did not meet the leader in it, except in the first attempt at a remembered leader.
\<close>

definition missed :: "string list \<Rightarrow> string \<Rightarrow> nat \<Rightarrow> bool" where
  "missed reps lead a \<longleftrightarrow> (\<forall>b. 0 < b \<and> b < a \<longrightarrow> reps ! (b mod length reps) \<noteq> lead)"

definition tries :: "string list \<Rightarrow> nat \<Rightarrow> string \<Rightarrow> bool" where
  "tries reps a n \<longleftrightarrow> 0 < a \<longrightarrow> n = reps ! (a mod length reps)"

fun not_missed :: "string list \<Rightarrow> string \<Rightarrow> reply list \<Rightarrow> string pc \<Rightarrow> bool" where
  "not_missed reps lead l (AtPick a le) \<longleftrightarrow> missed reps lead a"
| "not_missed reps lead l (AtLookup a n) \<longleftrightarrow> missed reps lead a \<and> tries reps a n"
| "not_missed reps lead l (AtDial a n node) \<longleftrightarrow> missed reps lead a \<and> tries reps a n"
| "not_missed reps lead l (AtInsert a n t) \<longleftrightarrow> missed reps lead a \<and> tries reps a n"
| "not_missed reps lead l (AtClose a n t x) \<longleftrightarrow> missed reps lead a \<and> tries reps a n"
| "not_missed reps lead l (AtCall a n t) \<longleftrightarrow> missed reps lead a \<and> tries reps a n"
| "not_missed reps lead l (AtHint a n err) \<longleftrightarrow> missed reps lead (Suc a)"
| "not_missed reps lead l (AtClear a n err) \<longleftrightarrow> missed reps lead (Suc a)"
| "not_missed reps lead l (Returned r) \<longleftrightarrow> l = [r]"
| "not_missed reps lead l _ \<longleftrightarrow> True"

definition gr_steady :: "(GroupID \<Rightarrow> Node) \<Rightarrow> reply list \<Rightarrow> string goroutine \<Rightarrow> bool" where
  "gr_steady ld l g \<longleftrightarrow> go_pc g = AtStart \<or> call_key (go_call g) = []
     \<or> not_missed (go_replicas g) (nd_ID (ld (go_group g))) l (go_pc g)"

lemma missed_Suc: "missed reps lead a \<Longrightarrow> tries reps a n \<Longrightarrow> n \<noteq> lead \<Longrightarrow> missed reps lead (Suc a)"
  by (auto simp: missed_def tries_def less_Suc_eq)

lemma missed_all: "missed reps lead a \<Longrightarrow> lead \<in> set reps \<Longrightarrow> a < length reps + 1"
  using attempts_cover [of lead reps] by (force simp: missed_def)

section \<open>One step\<close>

lemma RouteKey_empty:
  assumes "cluster_ok cfg" and "ConfigNewRouter cfg = Inr router"
  shows "RouteKey (Some router) [] = Inl ErrEmptyKey"
proof -
  have "NewRouter (ConfigRouterConfig cfg) = Inr router" using assms(2) by (simp add: ConfigNewRouter_def split: sum.splits)
  moreover have "distinct (map sd_ID (cc_ShardRoutes cfg))" using assms(1) by (simp add: cluster_ok_def)
  ultimately show ?thesis using NewRouter_routes [OF ConfigRouterConfig_groups(2)] by blast
qed


lemma cluster_map_request:
  assumes "key_request (call_request call)" and k: "call_key call \<noteq> []" and rt: "RouteKey (Some router) (call_key call) = Inr route"
  shows "cluster_map router (m(sr_GroupID route := spec_request (call_request call) (m (sr_GroupID route))))
      = spec_request (call_request call) (cluster_map router m)"
    and "answers (call_request call) (m (sr_GroupID route)) r \<Longrightarrow> answers (call_request call) (cluster_map router m) r"
proof -
  have same: "cluster_map router m (call_key call) = m (sr_GroupID route) (call_key call)"
    using k rt by (simp add: cluster_map_def)
  show "cluster_map router (m(sr_GroupID route := spec_request (call_request call) (m (sr_GroupID route))))
      = spec_request (call_request call) (cluster_map router m)"
    using assms cluster_map_upd [OF k rt, of m] by (cases call) simp_all
  show "answers (call_request call) (cluster_map router m) r" if "answers (call_request call) (m (sr_GroupID route)) r"
    using that same k assms(1) by (cases call; cases r) (auto elim!: answers.elims)
qed

text \<open>The connections that the client knows lead to nodes that are up.\<close>

lemma client_ok_conn:
  assumes "cluster_ok cfg" and "client_ok cfg router up c" and "grp \<in> set (cc_Groups cfg)" and "is_replica grp n"
  shows "map_of (rcl_clients c) n = Some t \<Longrightarrow> conn_up cfg up n t"
    and "\<exists>node. map_of (rcl_nodes c) n = Some node \<and> node \<in> set (cc_Nodes cfg) \<and> nd_ID node = n"
proof -
  obtain node where node: "node \<in> set (cc_Nodes cfg)" "nd_ID node = n" using replica_node [OF assms(1,3,4)] by metis
  show "conn_up cfg up n t" if "map_of (rcl_clients c) n = Some t"
  proof -
    have "t \<in> up" "t = nd_ClientAddr node" using assms(2) node that unfolding client_ok_def by blast+
    then show ?thesis using node by (auto simp: conn_up_def)
  qed
  show "\<exists>node. map_of (rcl_nodes c) n = Some node \<and> node \<in> set (cc_Nodes cfg) \<and> nd_ID node = n"
    using assms(2) node unfolding client_ok_def by blast
qed

lemma client_ok_insert:
  assumes "distinct (map nd_ID (cc_Nodes cfg))" and c: "client_ok cfg router up c" and t: "conn_up cfg up n t"
  shows "client_ok cfg router up (c\<lparr>rcl_clients := AList.update n t (rcl_clients c)\<rparr>)"
proof -
  obtain node where node: "node \<in> set (cc_Nodes cfg)" "nd_ID node = n" "nd_ClientAddr node = t" "t \<in> up"
    using t by (auto simp: conn_up_def)
  have same: "node' = node" if "node' \<in> set (cc_Nodes cfg)" "nd_ID node' = n" for node'
    using assms(1) node that by (auto simp: distinct_map inj_on_def)
  let ?c = "c\<lparr>rcl_clients := AList.update n t (rcl_clients c)\<rparr>"
  have "t' \<in> up \<and> t' = nd_ClientAddr node'"
    if "node' \<in> set (cc_Nodes cfg)" "map_of (rcl_clients ?c) (nd_ID node') = Some t'" for node' t'
  proof (cases "nd_ID node' = n")
    case True
    then show ?thesis using that same node by simp
  next
    case False
    then have "map_of (rcl_clients c) (nd_ID node') = Some t'" using that(2) by simp
    then show ?thesis using c that(1) unfolding client_ok_def by blast
  qed
  then show ?thesis using c by (simp add: client_ok_def)
qed

lemma pickNode_replica:
  assumes c: "client_ok cfg router up c" and grp: "grp \<in> set (cc_Groups cfg)" and ne: "gp_Replicas grp \<noteq> []"
  shows "is_replica grp (pickNode (gp_ID grp) (map gr_NodeID (gp_Replicas grp)) a c)"
    and "tries (map gr_NodeID (gp_Replicas grp)) a (pickNode (gp_ID grp) (map gr_NodeID (gp_Replicas grp)) a c)"
proof -
  let ?replicas = "map gr_NodeID (gp_Replicas grp)"
  have "?replicas ! (a mod length ?replicas) \<in> set ?replicas" using ne by (intro nth_mem) simp
  then show "is_replica grp (pickNode (gp_ID grp) ?replicas a c)"
    using c grp by (auto simp: pickNode_def Let_def is_replica_def client_ok_def entry_or_def split: option.splits)
  show "tries ?replicas a (pickNode (gp_ID grp) ?replicas a c)" by (auto simp: tries_def pickNode_def Let_def)
qed

context replica_ops
begin

lemma leader_call:
  assumes call: "call_ok ctx call" and k: "call_key call \<noteq> []" and rt: "RouteKey (Some router) (call_key call) = Inr route"
    and h: "hosted router e t (sr_GroupID route) = Some s" and s: "leads s M"
  shows "\<exists>r s'. call_client (server_stub ops) ctx call t e = (Inr r, e(t := set_store (sr_GroupID route) s' (e t)))
    \<and> leads s' (spec_request (call_request call) M) \<and> answers (call_request call) M r"
proof -
  have live: "ctx_live ctx" using call by (simp add: call_ok_def)
  show ?thesis
  proof (cases call)
    case (CallPut k v)
    then have k: "k \<noteq> []" "RouteKey (Some router) k = Inr route" using k rt by simp_all
    obtain s' where "so_Put ops ctx k v s = (None, s')" "leads s' (M(k \<mapsto> v))"
      using put [OF live s, of k v] call CallPut k(1) by (auto simp: call_ok_def)
    then show ?thesis using put_on_process(2) [OF live k h] CallPut k(1) by (auto simp: done_call_def)
  next
    case (CallDelete k)
    then have k: "k \<noteq> []" "RouteKey (Some router) k = Inr route" using k rt by simp_all
    obtain s' where "so_Delete ops ctx k s = (None, s')" "leads s' (M(k := None))"
      using delete [OF live s, of k] call CallDelete k(1) by (auto simp: call_ok_def)
    then show ?thesis using delete_on_process(2) [OF live k h] CallDelete k(1) by (auto simp: done_call_def)
  next
    case (CallGet k)
    then have k: "k \<noteq> []" "RouteKey (Some router) k = Inr route" using k rt by simp_all
    obtain g s' where "so_Get ops ctx k s = (Inr g, s')" "leads s' M" "reads_as (M k) g"
      using get [OF live s k(1)] by blast
    then show ?thesis using get_on_process(2) [OF live k h] CallGet k(1) by auto
  qed (use call in \<open>simp_all add: call_ok_def\<close>)
qed

lemma follower_call:
  assumes call: "call_ok ctx call" and k: "call_key call \<noteq> []" and rt: "RouteKey (Some router) (call_key call) = Inr route"
    and h: "hosted router e t (sr_GroupID route) = Some s" and s: "follows s i a" "good_hint grp i a"
  shows "call_client (server_stub ops) ctx call t e = (Inl (ClientNotLeaderError i a), e)"
proof -
  have live: "ctx_live ctx" using call by (simp add: call_ok_def)
  show ?thesis
  proof (cases call)
    case (CallPut k v)
    then show ?thesis using put_on_process(1) [OF live _ _ h s, of k v] k rt by (simp add: done_call_def)
  next
    case (CallDelete k)
    then show ?thesis using delete_on_process(1) [OF live _ _ h s, of k] k rt by (simp add: done_call_def)
  next
    case (CallGet k)
    then show ?thesis using get_on_process(1) [OF live _ _ h s, of k] k rt by simp
  qed (use call in \<open>simp_all add: call_ok_def\<close>)
qed

text \<open>What a call at a replica of the key's group does.\<close>

lemma replica_call:
  assumes call: "call_ok ctx call" and k: "call_key call \<noteq> []" and rt: "RouteKey (Some router) (call_key call) = Inr route"
    and g: "gp_ID grp = sr_GroupID route" and led: "led_by leads follows cfg router up e grp M lead"
    and n: "is_replica grp n" "conn_up cfg up n t" and d: "distinct (map nd_ID (cc_Nodes cfg))"
  shows "t = nd_ClientAddr lead \<and> (\<exists>r s'. call_client (server_stub ops) ctx call t e = (Inr r, e(t := set_store (gp_ID grp) s' (e t)))
        \<and> leads s' (spec_request (call_request call) M) \<and> answers (call_request call) M r)
    \<or> n \<noteq> nd_ID lead \<and> (\<exists>i a. call_client (server_stub ops) ctx call t e = (Inl (ClientNotLeaderError i a), e)
        \<and> (i = [] \<or> is_replica grp i))"
proof (cases "t = nd_ClientAddr lead")
  case True
  obtain s where "hosted router e t (sr_GroupID route) = Some s" "leads s M" using led True g by (auto simp: led_by_def)
  then show ?thesis using leader_call [OF call k rt] True g by simp
next
  case False
  obtain node where node: "node \<in> set (cc_Nodes cfg)" "nd_ID node = n" "nd_ClientAddr node = t" "t \<in> up"
    using n(2) by (auto simp: conn_up_def)
  then obtain s i a where s: "hosted router e t (sr_GroupID route) = Some s" "follows s i a" "good_hint grp i a"
    using led False n(1) g unfolding led_by_def by metis
  then have "call_client (server_stub ops) ctx call t e = (Inl (ClientNotLeaderError i a), e) \<and> (i = [] \<or> is_replica grp i)"
    using follower_call [OF call k rt s] by (simp add: good_hint_def)
  moreover have "n \<noteq> nd_ID lead"
  proof
    assume "n = nd_ID lead"
    then show False using node False led d by (auto simp: led_by_def distinct_map inj_on_def)
  qed
  ultimately show ?thesis by blast
qed

text \<open>
  A step keeps the client, the goroutine's place and the leaders; it answers at most once, as the map
  does at this moment.
\<close>

lemma go_step_linear:
  assumes ok: "cluster_ok cfg" and router: "ConfigNewRouter cfg = Inr router" and rk: "RouteKey (Some router) [] = Inl ErrEmptyKey"
    and c: "client_ok cfg router up c" and g: "gr_ok cfg router up l g"
    and led: "\<forall>grp \<in> set (cc_Groups cfg). led_by leads follows cfg router up e grp (m (gp_ID grp)) (ld (gp_ID grp))"
    and step: "go_step (dial_up up) close_up (server_stub ops) (g, c, e) = (g', c', e')"
  shows "\<exists>m'. client_ok cfg router up c' \<and> gr_ok cfg router up (l @ answer_now (server_stub ops) g e) g' \<and> go_call g' = go_call g
    \<and> (\<forall>grp \<in> set (cc_Groups cfg). led_by leads follows cfg router up e' grp (m' (gp_ID grp)) (ld (gp_ID grp)))
    \<and> (answer_now (server_stub ops) g e = [] \<and> m' = m
       \<or> (\<exists>r. answer_now (server_stub ops) g e = [r] \<and> answers (call_request (go_call g)) (cluster_map router m) r
            \<and> cluster_map router m' = spec_request (call_request (go_call g)) (cluster_map router m)))
    \<and> (gr_steady ld l g \<longrightarrow> gr_steady ld (l @ answer_now (server_stub ops) g e) g')"
proof -
  have call: "call_ok (go_ctx g) (go_call g)" using g by (simp add: gr_ok_def)
  have dn: "distinct (map nd_ID (cc_Nodes cfg))" and dg: "distinct (map gp_ID (cc_Groups cfg))"
    using ok by (simp_all add: cluster_ok_def)
  have cr: "rcl_router c = Some router" using c by (simp add: client_ok_def)
  consider (start) "go_pc g = AtStart" "l = []"
    | (empty) "call_key (go_call g) = []" "l = []" "go_pc g = Returned (failed (go_call g) ErrEmptyKey)"
    | (call) route grp where "call_key (go_call g) \<noteq> []" "RouteKey (Some router) (call_key (go_call g)) = Inr route"
        "grp \<in> set (cc_Groups cfg)" "gp_ID grp = sr_GroupID route" "go_group g = sr_GroupID route"
        "go_replicas g = map gr_NodeID (gp_Replicas grp)" "place_ok cfg up grp (go_call g) l (go_pc g)"
    using g by (auto simp: gr_ok_def)
  then show ?thesis
  proof cases
    case start
    have cg: "call_group (Some router) (go_call g) = map_sum id sr_GroupID (RouteKey (Some router) (call_key (go_call g)))"
      using call by (cases "go_call g") (simp_all add: call_ok_def)
    show ?thesis
    proof (cases "call_key (go_call g) = []")
      case True
      then have "g' = g\<lparr>go_pc := Returned (failed (go_call g) ErrEmptyKey)\<rparr>" "c' = c" "e' = e"
        using step start cg rk cr by (simp_all add: go_step_def)
      then show ?thesis using start True call c led
        by (intro exI [of _ m]) (simp add: gr_ok_def gr_steady_def answer_now_def)
    next
      case False
      obtain route grp where rt: "RouteKey (Some router) (call_key (go_call g)) = Inr route"
        and grp: "grp \<in> set (cc_Groups cfg)" "gp_ID grp = sr_GroupID route"
        using cluster_ok_serves [OF ok router False] by blast
      have "gp_Replicas grp \<noteq> []" using ok grp(1) by (simp add: cluster_ok_def group_ok_def)
      moreover have "entry_or [] (rcl_groups c) (sr_GroupID route) = map gr_NodeID (gp_Replicas grp)"
        using c grp by (force simp: client_ok_def)
      moreover have "ctx_Err (go_ctx g) 0 = None" using call by (simp add: call_ok_def ctx_live_def)
      ultimately have "g' = g\<lparr>go_group := sr_GroupID route, go_replicas := map gr_NodeID (gp_Replicas grp), go_pc := AtPick 0 None\<rparr>"
        "c' = c" "e' = e"
        using step start cg rt cr by (simp_all add: go_step_def Let_def)
      then show ?thesis using start False rt grp call c led
        by (intro exI [of _ m]) (auto simp: gr_ok_def gr_steady_def answer_now_def missed_def)
    qed
  next
    case empty
    then have "g' = g" "c' = c" "e' = e" using step by (simp_all add: go_step_def)
    then show ?thesis using empty g c led by (intro exI [of _ m]) (simp add: answer_now_def)
  next
    case (call route grp)
    note here = call
    let ?lead = "ld (gp_ID grp)"
    have led1: "led_by leads follows cfg router up e grp (m (gp_ID grp)) ?lead" using led here(3) by blast
    have ne: "gp_Replicas grp \<noteq> []" using ok here(3) by (simp add: cluster_ok_def group_ok_def)
    note conn = client_ok_conn [OF ok c here(3)]
    have quiet: ?thesis if pc: "g' = g\<lparr>go_pc := pc'\<rparr>" "e' = e" "client_ok cfg router up c'"
        "answer_now (server_stub ops) g e = []" "place_ok cfg up grp (go_call g) l pc'"
        "not_missed (go_replicas g) (nd_ID ?lead) l (go_pc g) \<Longrightarrow> not_missed (go_replicas g) (nd_ID ?lead) l pc'" for pc'
    proof -
      have "gr_ok cfg router up l g'" using here pc(5) \<open>call_ok (go_ctx g) (go_call g)\<close> unfolding gr_ok_def pc(1) by auto
      moreover have "gr_steady ld l g \<longrightarrow> gr_steady ld l g'"
        using pc(6) here by (auto simp: gr_steady_def pc(1))
      ultimately show ?thesis using pc led by (intro exI [of _ m]) simp
    qed
    have lead_in: "nd_ID ?lead \<in> set (go_replicas g)" using led1 here(6) by (simp add: led_by_def is_replica_def)
    have gid: "go_group g = gp_ID grp" using here(4,5) by simp
    show ?thesis
    proof (cases "go_pc g")
      case (AtPick a le)
      then have "answer_now (server_stub ops) g e = []" by (simp add: answer_now_def)
      note quiet = quiet [OF _ _ _ this]
      show ?thesis
      proof (cases "a < length (go_replicas g) + 1")
        case True
        show ?thesis
          by (rule quiet [of "AtLookup a (pickNode (go_group g) (go_replicas g) a c)"])
            (use step AtPick True c here pickNode_replica [OF c here(3) ne, of a] in \<open>auto simp: go_step_def\<close>)
      next
        case False
        then have "\<not> missed (go_replicas g) (nd_ID ?lead) a" using missed_all [OF _ lead_in] by blast
        then show ?thesis
          by (intro quiet [of "Returned (failed (go_call g) (case le of Some err \<Rightarrow> err
              | None \<Rightarrow> Errorf (''no client attempt made for group '' @ quote (go_group g))))"])
            (use step AtPick False c here in \<open>auto simp: go_step_def\<close>)
      qed
    next
      case (AtLookup a n)
      then have "answer_now (server_stub ops) g e = []" by (simp add: answer_now_def)
      note quiet = quiet [OF _ _ _ this]
      have n: "is_replica grp n" using here(7) AtLookup by simp
      obtain node where node: "map_of (rcl_nodes c) n = Some node" "node \<in> set (cc_Nodes cfg)" "nd_ID node = n"
        using conn(2) [OF n] by blast
      show ?thesis
      proof (cases "map_of (rcl_clients c) n")
        case None
        show ?thesis
          by (rule quiet [of "AtDial a n node"]) (use step AtLookup None node c here in \<open>simp_all add: go_step_def\<close>)
      next
        case (Some t)
        show ?thesis
          by (rule quiet [of "AtCall a n t"]) (use step AtLookup Some conn(1) [OF n Some] c here in \<open>simp_all add: go_step_def\<close>)
      qed
    next
      case (AtDial a n node)
      then have "answer_now (server_stub ops) g e = []" by (simp add: answer_now_def)
      note quiet = quiet [OF _ _ _ this]
      have node: "node \<in> set (cc_Nodes cfg)" "nd_ID node = n" "is_replica grp n" "l = []" using here(7) AtDial by simp_all
      show ?thesis
      proof (cases "nd_ClientAddr node \<in> up")
        case True
        show ?thesis
          by (rule quiet [of "AtInsert a n (nd_ClientAddr node)"])
            (use step AtDial True node c here in \<open>auto simp: go_step_def dial_up_def conn_up_def\<close>)
      next
        case False
        have "n \<noteq> nd_ID ?lead"
        proof
          assume "n = nd_ID ?lead"
          then show False using node False led1 dn by (auto simp: led_by_def distinct_map inj_on_def)
        qed
        then show ?thesis
          by (intro quiet [of "AtClear a n DeadlineExceeded"])
            (use step AtDial False node c here missed_Suc in \<open>auto simp: go_step_def dial_up_def\<close>)
      qed
    next
      case (AtInsert a n t)
      then have "answer_now (server_stub ops) g e = []" by (simp add: answer_now_def)
      note quiet = quiet [OF _ _ _ this]
      have n: "is_replica grp n" "conn_up cfg up n t" using here(7) AtInsert by simp_all
      show ?thesis
      proof (cases "map_of (rcl_clients c) n")
        case None
        show ?thesis
          by (rule quiet [of "AtCall a n t"])
            (use step AtInsert None n client_ok_insert [OF dn c n(2)] here in \<open>auto simp: go_step_def\<close>)
      next
        case (Some x)
        show ?thesis
          by (rule quiet [of "AtClose a n t x"]) (use step AtInsert Some conn(1) [OF n(1) Some] c here in \<open>simp_all add: go_step_def\<close>)
      qed
    next
      case (AtClose a n t x)
      then have "answer_now (server_stub ops) g e = []" by (simp add: answer_now_def)
      note quiet = quiet [OF _ _ _ this]
      show ?thesis
        by (rule quiet [of "AtCall a n x"]) (use step AtClose c here in \<open>auto simp: go_step_def close_up_def\<close>)
    next
      case (AtSetLeader n r)
      then have "answer_now (server_stub ops) g e = []" by (simp add: answer_now_def)
      note quiet = quiet [OF _ _ _ this]
      have "is_replica grp n" using here(7) AtSetLeader by simp
      note c' = client_ok_leader(1) [OF c dg here(3) this]
      show ?thesis
        by (rule quiet [of "Returned r"]) (use step AtSetLeader c' here in \<open>auto simp: go_step_def\<close>)
    next
      case (AtHint a n err)
      then have "answer_now (server_stub ops) g e = []" by (simp add: answer_now_def)
      note quiet = quiet [OF _ _ _ this]
      obtain i addr where err: "err = ClientNotLeaderError i addr" "i = [] \<or> is_replica grp i" using here(7) AtHint by auto
      obtain b c2 where u: "updateLeaderFromHint (gp_ID grp) (ClientNotLeaderError i addr) c = (b, c2)" by (metis prod.exhaust)
      note c' = client_ok_hint [OF c dg here(3) err(2) u]
      show ?thesis
      proof (cases b)
        case True
        show ?thesis
          by (rule quiet [of "AtPick (a + 1) (Some err)"]) (use step AtHint True u err c' here in \<open>auto simp: go_step_def\<close>)
      next
        case False
        show ?thesis
          by (rule quiet [of "AtClear a n err"]) (use step AtHint False u err c' here in \<open>auto simp: go_step_def\<close>)
      qed
    next
      case (AtClear a n err)
      then have "answer_now (server_stub ops) g e = []" by (simp add: answer_now_def)
      note quiet = quiet [OF _ _ _ this]
      note c' = client_ok_leader(2) [OF c dg here(3), of n]
      show ?thesis
        by (rule quiet [of "AtPick (a + 1) (Some err)"]) (use step AtClear c' here in \<open>auto simp: go_step_def\<close>)
    next
      case (Returned r)
      then have "g' = g" "c' = c" "e' = e" using step by (simp_all add: go_step_def)
      then show ?thesis using Returned g c led by (intro exI [of _ m]) (simp add: answer_now_def)
    next
      case AtStart
      then show ?thesis using here(7) by simp
    next
      case (AtCall a n t)
      have n: "is_replica grp n" "conn_up cfg up n t" "l = []" using here(7) AtCall by simp_all
      from replica_call [OF \<open>call_ok (go_ctx g) (go_call g)\<close> here(1,2,4) led1 n(1,2) dn]
      consider (lead) r s' where "t = nd_ClientAddr ?lead"
          "call_client (server_stub ops) (go_ctx g) (go_call g) t e = (Inr r, e(t := set_store (gp_ID grp) s' (e t)))"
          "leads s' (spec_request (call_request (go_call g)) (m (gp_ID grp)))" "answers (call_request (go_call g)) (m (gp_ID grp)) r"
        | (follow) i addr where "n \<noteq> nd_ID ?lead"
          "call_client (server_stub ops) (go_ctx g) (go_call g) t e = (Inl (ClientNotLeaderError i addr), e)" "i = [] \<or> is_replica grp i"
        by blast
      then show ?thesis
      proof cases
        case lead
        let ?m = "m(gp_ID grp := spec_request (call_request (go_call g)) (m (gp_ID grp)))"
        have kr: "key_request (call_request (go_call g))" using \<open>call_ok (go_ctx g) (go_call g)\<close> by (simp add: call_ok_def)
        note cm = cluster_map_request [OF kr here(1,2), of m, folded here(4)]
        have "g' = g\<lparr>go_pc := AtSetLeader n r\<rparr>" "c' = c" "e' = e(t := set_store (gp_ID grp) s' (e t))"
          and "answer_now (server_stub ops) g e = [r]"
          using step AtCall lead(2) by (simp_all add: go_step_def answer_now_def)
        moreover have "\<forall>grp' \<in> set (cc_Groups cfg). led_by leads follows cfg router up (e(t := set_store (gp_ID grp) s' (e t))) grp'
            (?m (gp_ID grp')) (ld (gp_ID grp'))"
        proof
          fix grp' assume g': "grp' \<in> set (cc_Groups cfg)"
          show "led_by leads follows cfg router up (e(t := set_store (gp_ID grp) s' (e t))) grp' (?m (gp_ID grp')) (ld (gp_ID grp'))"
            unfolding lead(1)
            by (rule led_by_set [where leads = leads and m = m, OF dg here(3) g' led1 lead(3)]) (use led g' in auto)
        qed
        moreover have "gr_ok cfg router up (l @ [r]) (g\<lparr>go_pc := AtSetLeader n r\<rparr>)"
          using here \<open>call_ok (go_ctx g) (go_call g)\<close> n unfolding gr_ok_def by auto
        ultimately show ?thesis using c cm lead(4)
          by (intro exI [of _ ?m]) (simp add: gr_steady_def)
      next
        case follow
        have "answer_now (server_stub ops) g e = []" using AtCall follow(2) by (simp add: answer_now_def)
        note quiet = quiet [OF _ _ _ this]
        show ?thesis
          by (rule quiet [of "AtHint a n (ClientNotLeaderError i addr)"])
            (use step AtCall follow c here missed_Suc n in \<open>auto simp: go_step_def\<close>)
      qed
    qed
  qed
qed

end

section \<open>Schedules\<close>

text \<open>
  Schedules of calls on keys, with live contexts, in which the world outside may elect other leaders or
  restart followers: after it as before, every group has a leader with the group's map.
\<close>

fun event_ok ::
  "('s \<Rightarrow> (bytes \<rightharpoonup> bytes) \<Rightarrow> bool) \<Rightarrow> ('s \<Rightarrow> string \<Rightarrow> string \<Rightarrow> bool) \<Rightarrow> Config \<Rightarrow> Router \<Rightarrow> string set
    \<Rightarrow> 's processes event \<Rightarrow> bool" where
  "event_ok leads follows cfg router up (Go i) \<longleftrightarrow> True"
| "event_ok leads follows cfg router up (New ctx call) \<longleftrightarrow> call_ok ctx call"
| "event_ok leads follows cfg router up CloseClient \<longleftrightarrow> False"
| "event_ok leads follows cfg router up (World f) \<longleftrightarrow>
     (\<forall>e m. cluster_led leads follows cfg router up e m \<longrightarrow> cluster_led leads follows cfg router up (f e) m)"

definition led_all ::
  "('s \<Rightarrow> (bytes \<rightharpoonup> bytes) \<Rightarrow> bool) \<Rightarrow> ('s \<Rightarrow> string \<Rightarrow> string \<Rightarrow> bool) \<Rightarrow> Config \<Rightarrow> Router \<Rightarrow> string set
    \<Rightarrow> 's processes \<Rightarrow> (GroupID \<Rightarrow> bytes \<rightharpoonup> bytes) \<Rightarrow> (GroupID \<Rightarrow> Node) \<Rightarrow> bool" where
  "led_all leads follows cfg router up e m ld \<longleftrightarrow>
     (\<forall>grp \<in> set (cc_Groups cfg). led_by leads follows cfg router up e grp (m (gp_ID grp)) (ld (gp_ID grp)))"

lemma cluster_led_all:
  assumes "distinct (map gp_ID (cc_Groups cfg))"
  shows "cluster_led leads follows cfg router up e m \<longleftrightarrow> (\<exists>ld. led_all leads follows cfg router up e m ld)"
proof
  assume "cluster_led leads follows cfg router up e m"
  then obtain f where f: "\<And>grp. grp \<in> set (cc_Groups cfg) \<Longrightarrow> led_by leads follows cfg router up e grp (m (gp_ID grp)) (f grp)"
    unfolding cluster_led_def by metis
  have "the_inv_into (set (cc_Groups cfg)) gp_ID (gp_ID grp) = grp" if "grp \<in> set (cc_Groups cfg)" for grp
    using assms that by (simp add: the_inv_into_f_f distinct_map)
  then show "\<exists>ld. led_all leads follows cfg router up e m ld"
    using f by (intro exI [of _ "\<lambda>g. f (the_inv_into (set (cc_Groups cfg)) gp_ID g)"]) (simp add: led_all_def)
qed (auto simp: led_all_def cluster_led_def)

text \<open>The invariant, with the history \<open>h\<close>; \<open>steady\<close> while the leaders are still \<open>ld0\<close>.\<close>

definition lin_inv ::
  "('s \<Rightarrow> (bytes \<rightharpoonup> bytes) \<Rightarrow> bool) \<Rightarrow> ('s \<Rightarrow> string \<Rightarrow> string \<Rightarrow> bool) \<Rightarrow> Config \<Rightarrow> Router \<Rightarrow> string set
    \<Rightarrow> (bytes \<rightharpoonup> bytes) \<Rightarrow> (GroupID \<Rightarrow> Node) \<Rightarrow> bool \<Rightarrow> entry list \<Rightarrow> (string, 's processes) clients \<Rightarrow> bool" where
  "lin_inv leads follows cfg router up M ld0 steady h s \<longleftrightarrow>
     (case s of (gs, c, e) \<Rightarrow>
        client_ok cfg router up c
        \<and> (\<forall>i < length gs. gr_ok cfg router up (log_replies (entries_of i h)) (gs ! i))
        \<and> (\<forall>(i, call, r) \<in> set h. i < length gs \<and> call = go_call (gs ! i))
        \<and> all_answered (log_requests h) M (log_replies h)
        \<and> (\<exists>m ld. led_all leads follows cfg router up e m ld
             \<and> cluster_map router m = fold spec_request (log_requests h) M
             \<and> (steady \<longrightarrow> ld = ld0 \<and> (\<forall>i < length gs. gr_steady ld (log_replies (entries_of i h)) (gs ! i)))))"

context replica_ops
begin

lemma event_linear:
  assumes ok: "cluster_ok cfg" and router: "ConfigNewRouter cfg = Inr router" and rk: "RouteKey (Some router) [] = Inl ErrEmptyKey"
    and inv: "lin_inv leads follows cfg router up M ld0 steady h (gs, c, e)" and ev: "event_ok leads follows cfg router up ev"
    and step: "do_event (dial_up up) close_up (server_stub ops) ev (gs, c, e) = (gs', c', e')"
  shows "lin_inv leads follows cfg router up M ld0 (steady \<and> (\<forall>f. ev \<noteq> World f))
    (h @ event_log (server_stub ops) ev (gs, c, e)) (gs', c', e')"
proof -
  obtain m ld where c: "client_ok cfg router up c"
    and gs: "\<forall>i < length gs. gr_ok cfg router up (log_replies (entries_of i h)) (gs ! i)"
    and calls: "\<forall>(i, call, r) \<in> set h. i < length gs \<and> call = go_call (gs ! i)"
    and all: "all_answered (log_requests h) M (log_replies h)" and led: "led_all leads follows cfg router up e m ld"
    and cm: "cluster_map router m = fold spec_request (log_requests h) M"
    and st: "steady \<Longrightarrow> ld = ld0 \<and> (\<forall>i < length gs. gr_steady ld (log_replies (entries_of i h)) (gs ! i))"
    using inv by (auto simp: lin_inv_def)
  show ?thesis
  proof (cases ev)
    case (World f)
    have d: "distinct (map gp_ID (cc_Groups cfg))" using ok by (simp add: cluster_ok_def)
    have "\<exists>ld. led_all leads follows cfg router up (f e) m ld"
      using ev led unfolding World event_ok.simps cluster_led_all [OF d] by blast
    then show ?thesis using World step c gs calls all cm by (auto simp: lin_inv_def)
  next
    case (New ctx call)
    have fresh: "entries_of (length gs) h = []"
      using calls by (fastforce simp: entries_of_def filter_empty_conv)
    have new: "gs' = gs @ [spawn ctx call]" "c' = c" "e' = e" "event_log (server_stub ops) ev (gs, c, e) = []"
      using step New by simp_all
    have 1: "gr_ok cfg router up (log_replies (entries_of i h)) ((gs @ [spawn ctx call]) ! i)" if "i < Suc (length gs)" for i
      using that gs ev New fresh by (cases "i = length gs") (auto simp: nth_append gr_ok_def spawn_def)
    have 2: "gr_steady ld (log_replies (entries_of i h)) ((gs @ [spawn ctx call]) ! i)" if "i < Suc (length gs)" steady for i
    proof (cases "i < length gs")
      case True
      have "gr_steady ld (log_replies (entries_of i h)) (gs ! i)" using st [OF that(2)] True by blast
      then show ?thesis using True by (simp add: nth_append)
    next
      case False
      then have "i = length gs" using that by simp
      then show ?thesis by (simp add: gr_steady_def spawn_def)
    qed
    have 3: "\<forall>(i, call', r) \<in> set h. i < Suc (length gs) \<and> call' = go_call ((gs @ [spawn ctx call]) ! i)"
      using calls by (fastforce simp: nth_append)
    have 4: "led_all leads follows cfg router up e m ld
        \<and> cluster_map router m = fold spec_request (log_requests h) M \<and> (steady \<longrightarrow> ld = ld0)"
      using led cm st by blast
    show ?thesis
      unfolding lin_inv_def new prod.case append_Nil2 length_append_singleton
      by (intro conjI allI impI exI [of _ m] exI [of _ ld]) (use 1 2 3 4 c all in \<open>blast+\<close>)
  next
    case (Go i)
    show ?thesis
    proof (cases "i < length gs")
      case False
      then show ?thesis using Go step inv by (simp add: lin_inv_def) 
    next
      case i: True
      obtain g1 c1 e1 where go: "go_step (dial_up up) close_up (server_stub ops) (gs ! i, c, e) = (g1, c1, e1)" by (rule prod_cases3)
      have new: "gs' = gs[i := g1]" "c' = c1" "e' = e1" using step Go i go by simp_all
      let ?ans = "answer_now (server_stub ops) (gs ! i) e"
      let ?l = "log_replies (entries_of i h)"
      have g: "gr_ok cfg router up ?l (gs ! i)" using gs i by blast
      obtain m' where c1: "client_ok cfg router up c1" and g1: "gr_ok cfg router up (?l @ ?ans) g1" "go_call g1 = go_call (gs ! i)"
        and led1: "led_all leads follows cfg router up e1 m' ld"
        and ans: "?ans = [] \<and> m' = m \<or> (\<exists>r. ?ans = [r] \<and> answers (call_request (go_call (gs ! i))) (cluster_map router m) r
          \<and> cluster_map router m' = spec_request (call_request (go_call (gs ! i))) (cluster_map router m))"
        and st1: "gr_steady ld ?l (gs ! i) \<longrightarrow> gr_steady ld (?l @ ?ans) g1"
        using go_step_linear [OF ok router rk c g led [unfolded led_all_def] go] unfolding led_all_def by blast
      let ?h = "h @ event_log (server_stub ops) ev (gs, c, e)"
      have log: "event_log (server_stub ops) ev (gs, c, e) = map (\<lambda>r. (i, go_call (gs ! i), r)) ?ans" using Go i by simp
      have "log_replies (entries_of j ?h) = (if j = i then ?l @ ?ans else log_replies (entries_of j h))" for j
        unfolding log by (auto simp: entries_of_def log_replies_def filter_map comp_def)
      then have 1: "gr_ok cfg router up (log_replies (entries_of j ?h)) (gs' ! j)"
        and 2: "steady \<Longrightarrow> gr_steady ld (log_replies (entries_of j ?h)) (gs' ! j)" if "j < length gs'" for j
        using that gs g1(1) st st1 i by (auto simp: new nth_list_update)
      have 3: "\<forall>(j, call, r) \<in> set ?h. j < length gs' \<and> call = go_call (gs' ! j)"
        using calls g1(2) i unfolding log by (auto simp: new nth_list_update)
      have 4: "all_answered (log_requests ?h) M (log_replies ?h)
          \<and> cluster_map router m' = fold spec_request (log_requests ?h) M"
        using ans all cm unfolding log by (auto intro: all_answered_snoc)
      have 5: "steady \<Longrightarrow> ld = ld0" using st by blast
      have 6: "client_ok cfg router up c'" "led_all leads follows cfg router up e' m' ld" using c1 led1 new by simp_all
      show ?thesis
        unfolding lin_inv_def prod.case
        by (intro conjI allI impI exI [of _ m'] exI [of _ ld]) (use 1 2 3 4 5 6 in \<open>blast+\<close>)
    qed
  qed (use ev in simp)
qed

lemma events_linear:
  assumes ok: "cluster_ok cfg" and router: "ConfigNewRouter cfg = Inr router" and rk: "RouteKey (Some router) [] = Inl ErrEmptyKey"
    and "\<forall>ev \<in> set evs. event_ok leads follows cfg router up ev" and "lin_inv leads follows cfg router up M ld0 steady h s"
  shows "lin_inv leads follows cfg router up M ld0 (steady \<and> (\<forall>f. World f \<notin> set evs))
    (h @ answered_log (dial_up up) close_up (server_stub ops) evs s) (do_events (dial_up up) close_up (server_stub ops) evs s)"
  using assms(4,5)
proof (induction evs arbitrary: s h steady)
  case (Cons ev evs)
  obtain gs c e where s: "s = (gs, c, e)" by (rule prod_cases3)
  obtain gs1 c1 e1 where 1: "do_event (dial_up up) close_up (server_stub ops) ev (gs, c, e) = (gs1, c1, e1)" by (rule prod_cases3)
  have inv: "lin_inv leads follows cfg router up M ld0 (steady \<and> (\<forall>f. ev \<noteq> World f))
      (h @ event_log (server_stub ops) ev (gs, c, e)) (gs1, c1, e1)"
    by (rule event_linear [OF ok router rk _ _ 1]) (use Cons.prems s in simp_all)
  have "(steady \<and> (\<forall>f. World f \<notin> set (ev # evs))) = ((steady \<and> (\<forall>f. ev \<noteq> World f)) \<and> (\<forall>f. World f \<notin> set evs))"
    by auto
  then show ?case using Cons.IH [OF _ inv] Cons.prems(1) unfolding s by (simp add: 1)
qed simp

text \<open>What the invariant says of the goroutines that have returned.\<close>

lemma lin_inv_returned:
  assumes inv: "lin_inv leads follows cfg router up M ld0 steady h (gs, c, e)" and i: "i < length gs"
    and r: "go_pc (gs ! i) = Returned r"
  shows "entries_of i h = [(i, go_call (gs ! i), r)]
    \<or> entries_of i h = [] \<and> (\<exists>err. r = failed (go_call (gs ! i)) err)
      \<and> (call_key (go_call (gs ! i)) = [] \<and> r = failed (go_call (gs ! i)) ErrEmptyKey \<or> \<not> steady)"
proof -
  let ?l = "log_replies (entries_of i h)" and ?g = "gs ! i"
  have g: "gr_ok cfg router up ?l ?g" and calls: "\<forall>(j, call, r) \<in> set h. call = go_call (gs ! j)"
    and st: "steady \<longrightarrow> (\<exists>ld. gr_steady ld ?l ?g)"
    using inv i by (auto simp: lin_inv_def)
  have one: "entries_of i h = [(i, go_call ?g, r)]" if "?l = [r]"
  proof -
    have "length ?l = 1" using that by simp
    then obtain x where x: "entries_of i h = [x]" by (auto simp: log_replies_def length_Suc_conv)
    then have "snd (snd x) = r" using that by (simp add: log_replies_def split: prod.splits)
    moreover have "x \<in> set h" "fst x = i" using x by (auto simp: entries_of_def filter_eq_Cons_iff)
    ultimately show ?thesis using calls x by (cases x) auto
  qed
  have none: "entries_of i h = []" if "?l = []" using that by (simp add: log_replies_def)
  show ?thesis
  proof (cases "call_key (go_call ?g) = []")
    case True
    then show ?thesis using g r none by (auto simp: gr_ok_def)
  next
    case False
    then have "?l = [r] \<or> ?l = [] \<and> (\<exists>err. r = failed (go_call ?g) err)" using g r by (auto simp: gr_ok_def)
    moreover have "?l = [r]" if steady using st that False r by (auto simp: gr_steady_def)
    ultimately show ?thesis using one none by blast
  qed
qed

end

section \<open>Properties\<close>

text \<open>
  C3: Concurrent calls are linearizable.  Take a valid configuration whose groups are led, a new routed
  client, and any schedule of goroutines that put, get and delete through it, in which other leaders may
  be elected at any time.  The history of the calls that a server answered, in the order of the answers,
  is a run of one map, and the servers hold the map that the history leads to.  A goroutine that has
  returned has either exactly one entry in the history, with its reply, or it has none and returned an
  error; without elections the latter happens only for the empty key.
\<close>

theorem concurrent_calls_are_linearizable:
  assumes "newRoutedClient ctx0 cfg True = Inr c" and "ConfigNewRouter cfg = Inr router"
    and "cluster_led member_leads member_follows cfg router up e m"
    and "\<forall>ev \<in> set evs. event_ok member_leads member_follows cfg router up ev"
    and "stub = server_stub (raft_ops (newRaftStore (node_methods member_lib) config))"
    and "do_events (dial_up up) close_up stub evs ([], c, e) = (gs', c', e')"
    and "h = answered_log (dial_up up) close_up stub evs ([], c, e)"
  shows "all_answered (log_requests h) (cluster_map router m) (log_replies h)
    \<and> (\<exists>m'. cluster_led member_leads member_follows cfg router up e' m'
          \<and> cluster_map router m' = fold spec_request (log_requests h) (cluster_map router m))
    \<and> (\<forall>i < length gs'. \<forall>r. go_pc (gs' ! i) = Returned r \<longrightarrow>
          entries_of i h = [(i, go_call (gs' ! i), r)]
          \<or> entries_of i h = [] \<and> (\<exists>err. r = failed (go_call (gs' ! i)) err)
            \<and> (call_key (go_call (gs' ! i)) = [] \<and> r = failed (go_call (gs' ! i)) ErrEmptyKey \<or> (\<exists>f. World f \<in> set evs)))"
proof -
  have ok: "cluster_ok cfg" and c: "client_ok cfg router up c" using newRoutedClient_ok [OF assms(1,2)] by blast+
  have dg: "distinct (map gp_ID (cc_Groups cfg))" using ok by (simp add: cluster_ok_def)
  obtain ld where ld: "led_all member_leads member_follows cfg router up e m ld"
    using assms(3) cluster_led_all [OF dg] by blast
  have "lin_inv member_leads member_follows cfg router up (cluster_map router m) ld True [] ([], c, e)"
    using c ld by (auto simp: lin_inv_def)
  from members.events_linear [OF ok assms(2) RouteKey_empty [OF ok assms(2)] assms(4) this, of config]
  have inv: "lin_inv member_leads member_follows cfg router up (cluster_map router m) ld (\<forall>f. World f \<notin> set evs) h (gs', c', e')"
    using assms(5-7) by simp
  then have "all_answered (log_requests h) (cluster_map router m) (log_replies h)
      \<and> (\<exists>m'. cluster_led member_leads member_follows cfg router up e' m'
          \<and> cluster_map router m' = fold spec_request (log_requests h) (cluster_map router m))"
    unfolding lin_inv_def cluster_led_all [OF dg] by auto
  moreover note members.lin_inv_returned [OF inv]
  ultimately show ?thesis by blast
qed

theorem concurrent_calls_are_linearizable_witness:
  "\<exists>c e gs' c' e' h r. newRoutedClient Background three_nodes True = Inr c
    \<and> do_events (dial_up {'':9001'', '':9002''}) close_up
        (server_stub (raft_ops (newRaftStore (node_methods member_lib) \<lparr>rsc_ApplyTimeout = 0, rsc_BarrierTimeout = 0\<rparr>)))
        ([New Background (CallPut [1] [3]), New Background (CallGet [1])] @ concat (replicate 34 [Go 0, Go 1])) ([], c, e)
      = (gs', c', e')
    \<and> go_pc (gs' ! 0) = Returned (Done None) \<and> go_pc (gs' ! 1) = Returned r
    \<and> entries_of 0 h = [(0, CallPut [1] [3], Done None)] \<and> entries_of 1 h = [(1, CallGet [1], r)]
    \<and> all_answered (log_requests h) [[1] \<mapsto> [2]] (log_replies h)"
proof -
  let ?up = "{'':9001'', '':9002''}"
  let ?stub = "server_stub (raft_ops (newRaftStore (node_methods member_lib) \<lparr>rsc_ApplyTimeout = 0, rsc_BarrierTimeout = 0\<rparr>))"
  let ?gos = "concat (replicate 34 [Go 0, Go 1])" and ?new = "[New Background (CallPut [1] [3]), New Background (CallGet [1])]"
  obtain g0 g where g: "fresh_group g0" "group_step\<^sup>*\<^sup>* g0 g" "length (gr_replicas g) = 1"
    and log: "gr_log g = [frame \<lparr>rec_Type = TypePut, rec_Key = [1], rec_Value = [2]\<rparr>]"
    using example_group by blast
  have lead: "leader_map (leader_of g 0) [[1] \<mapsto> [2]]"
    using replica_leads [OF g(1,2), of 0] g(3) unfolding log example_log_map by simp
  obtain router where router: "ConfigNewRouter three_nodes = Inr router"
    using cluster_ok_router [OF three_nodes_ok] by blast
  obtain c where c: "newRoutedClient Background three_nodes True = Inr (c :: string RoutedClient)"
    and groups: "rcl_groups c = [(''g1'', [''n2'', ''n3'', ''n1''])]"
    using router three_nodes_ok Validate_cluster_ok [of three_nodes]
    by (simp add: newRoutedClient_def Background_def) (simp add: three_nodes_def)
  let ?e = "three_members router (leader_of g 0)"
  obtain gs c' e' where run: "do_events (dial_up ?up) close_up ?stub (?new @ ?gos) ([], c, ?e) = (gs, c', e')"
    by (rule prod_cases3)
  let ?h = "answered_log (dial_up ?up) close_up ?stub (?new @ ?gos) ([], c, ?e)"
  let ?gs = "[spawn Background (CallPut [1] [3]), spawn Background (CallGet [1])]"
  have run': "do_events (dial_up ?up) close_up ?stub ?gos (?gs, c, ?e) = (gs, c', e')" using run by simp
  have "groups_within 3 c" by (simp add: groups_within_def groups entry_or_def)
  moreover have "8 * 3 + 10 \<le> count_list ?gos (Go 0)" "8 * 3 + 10 \<le> count_list ?gos (Go 1)" by (simp_all add: eval_nat_numeral)
  ultimately have "returned (gs ! 0)" "returned (gs ! 1)"
    using every_call_returns [OF _ _ _ run', of 3 0] every_call_returns [OF _ _ _ run', of 3 1] by (simp_all add: spawn_def)
  then obtain r0 r1 where r: "go_pc (gs ! 0) = Returned r0" "go_pc (gs ! 1) = Returned r1"
    unfolding returned_def by blast
  have calls: "go_call (gs ! 0) = CallPut [1] [3]" "go_call (gs ! 1) = CallGet [1]" "2 \<le> length gs"
    using do_events_call [OF run', of 0] do_events_call [OF run', of 1] do_events_length [OF run'] by (simp_all add: spawn_def)
  define evs :: "member processes event list" where "evs = ?new @ ?gos"
  define h where "h = answered_log (dial_up ?up) close_up ?stub evs ([], c, ?e)"
  have ok: "\<forall>ev \<in> set evs. event_ok member_leads member_follows three_nodes router ?up ev" "\<forall>f. World f \<notin> set evs"
    by (auto simp: evs_def call_ok_def MaxUint32_def)
  note lin = concurrent_calls_are_linearizable [OF c router three_members_led [OF lead] ok(1) refl run [folded evs_def] h_def]
  have all: "all_answered (log_requests h) (cluster_map router (\<lambda>g. [[1] \<mapsto> [2]])) (log_replies h)"
    using lin by blast
  have ret: "entries_of i h = [(i, go_call (gs ! i), r)] \<or> call_key (go_call (gs ! i)) = []"
    if "i < length gs" "go_pc (gs ! i) = Returned r" for i r
    using lin that ok(2) by blast
  have en: "entries_of 0 h = [(0, CallPut [1] [3], r0)]" "entries_of 1 h = [(1, CallGet [1], r1)]"
    using ret [of 0 r0] ret [of 1 r1] r calls by (auto simp: less_eq_Suc_le)
  have "cluster_map router (\<lambda>g. [[1] \<mapsto> [2]]) = [[1] \<mapsto> [2]]"
    using cluster_ok_serves [OF three_nodes_ok router] by (fastforce simp: cluster_map_def fun_eq_iff)
  moreover have "(0, CallPut [1] [3], r0) \<in> set h" using en(1) by (auto simp: entries_of_def filter_eq_Cons_iff)
  from all_answered_entry [OF all this] have "r0 = Done None" by (auto simp: answers_iff)
  ultimately show ?thesis using c run r en all by (intro exI conjI) (assumption | simp)+
qed

end
