(* ===== verification/KV_Process.thy ===== *)
theory KV_Process
  imports KV_Ring KV_Fmt
begin

text \<open>
  Programs that stop with \<open>log.Fatalf\<close>, for the examples: a command maps a state to a result and a
  state, or ends the process with a message.  What such a program guarantees is stated by triples for
  total correctness.
\<close>

section \<open>Commands\<close>

text \<open>\<open>None\<close>: a panic, or no return.  \<open>Inl msg\<close>: the process has ended with \<open>log.Fatalf\<close>.\<close>

type_synonym ('a, 's) command = "'s \<Rightarrow> ((string + 'a) \<times> 's) option"

definition cmd_return :: "'a \<Rightarrow> ('a, 's) command" where
  "cmd_return a s = Some (Inr a, s)"

definition log_Fatal :: "string \<Rightarrow> ('a, 's) command" where
  "log_Fatal msg s = Some (Inl msg, s)"

definition cmd_bind :: "('a, 's) command \<Rightarrow> ('a \<Rightarrow> ('b, 's) command) \<Rightarrow> ('b, 's) command" where
  "cmd_bind m k s =
     (case m s of
        None \<Rightarrow> None
      | Some (Inl msg, s1) \<Rightarrow> Some (Inl msg, s1)
      | Some (Inr a, s1) \<Rightarrow> k a s1)"

text \<open>Commands one after the other, and a loop: its body maps an element and the loop's variables to these.\<close>

primrec cmds :: "(unit, 's) command list \<Rightarrow> (unit, 's) command" where
  "cmds [] = cmd_return ()"
| "cmds (m # ms) = cmd_bind m (\<lambda>u. cmds ms)"

primrec cmd_fold :: "('x \<Rightarrow> 'a \<Rightarrow> ('a, 's) command) \<Rightarrow> 'x list \<Rightarrow> 'a \<Rightarrow> ('a, 's) command" where
  "cmd_fold f [] a = cmd_return a"
| "cmd_fold f (x # xs) a = cmd_bind (f x a) (cmd_fold f xs)"

definition cmd_each :: "('x \<Rightarrow> (unit, 's) command) \<Rightarrow> 'x list \<Rightarrow> (unit, 's) command" where
  "cmd_each f xs = cmd_fold (\<lambda>x u. f x) xs ()"

text \<open>The values of \<open>for i := i; i <= limit; i += step\<close>.\<close>

function for_values :: "nat \<Rightarrow> nat \<Rightarrow> nat \<Rightarrow> nat list" where
  "for_values i limit step = (if i \<le> limit \<and> 0 < step then i # for_values (i + step) limit step else [])"
  by auto
termination by (relation "measure (\<lambda>(i, limit, step). Suc limit - i)") auto

declare for_values.simps [simp del]

text \<open>\<open>if err := f; err != nil\<close> with a fatal error.\<close>

definition must :: "string \<Rightarrow> (err option, 's) command \<Rightarrow> (unit, 's) command" where
  "must what m = cmd_bind m (\<lambda>r. case r of None \<Rightarrow> cmd_return () | Some err \<Rightarrow> log_Fatal (what @ '': '' @ error_string err))"

text \<open>The text of a byte slice; \<open>bytes.Equal\<close> and \<open>len\<close> do not tell nil from empty.\<close>

definition bytes_text :: "bytes option \<Rightarrow> string" where
  "bytes_text b = (case b of None \<Rightarrow> [] | Some bs \<Rightarrow> map (\<lambda>x. char_of (unat x)) bs)"

definition slice :: "bytes option \<Rightarrow> bytes" where
  "slice b = (case b of None \<Rightarrow> [] | Some bs \<Rightarrow> bs)"

text \<open>What the process has printed.\<close>

record console =
  con_out :: "string list"

definition Println :: "string \<Rightarrow> (unit, 'z console_scheme) command" where
  "Println line s = Some (Inr (), s\<lparr>con_out := con_out s @ [line]\<rparr>)"

section \<open>Triples\<close>

text \<open>From a state in \<open>P\<close> the command returns, without a fatal error, and \<open>Q\<close> holds.\<close>

definition succeeds :: "('s \<Rightarrow> bool) \<Rightarrow> ('a, 's) command \<Rightarrow> ('a \<Rightarrow> 's \<Rightarrow> bool) \<Rightarrow> bool" where
  "succeeds P m Q \<longleftrightarrow> (\<forall>s. P s \<longrightarrow> (\<exists>a s'. m s = Some (Inr a, s') \<and> Q a s'))"

lemma succeedsI: "(\<And>s. P s \<Longrightarrow> \<exists>a s'. m s = Some (Inr a, s') \<and> Q a s') \<Longrightarrow> succeeds P m Q"
  by (simp add: succeeds_def)

lemma succeedsD: "succeeds P m Q \<Longrightarrow> P s \<Longrightarrow> \<exists>a s'. m s = Some (Inr a, s') \<and> Q a s'"
  by (simp add: succeeds_def)

lemma succeeds_return [intro]: "(\<And>s. P s \<Longrightarrow> Q a s) \<Longrightarrow> succeeds P (cmd_return a) Q"
  by (simp add: succeeds_def cmd_return_def)

lemma succeeds_bind:
  assumes "succeeds P m R" and "\<And>a. succeeds (R a) (k a) Q"
  shows "succeeds P (cmd_bind m k) Q"
proof (rule succeedsI)
  fix s assume "P s"
  then obtain a s1 where 1: "m s = Some (Inr a, s1)" "R a s1" using succeedsD [OF assms(1)] by blast
  then obtain b s2 where "k a s1 = Some (Inr b, s2)" "Q b s2" using succeedsD [OF assms(2)] by blast
  then show "\<exists>b s'. cmd_bind m k s = Some (Inr b, s') \<and> Q b s'" using 1 by (simp add: cmd_bind_def)
qed

lemma succeeds_conseq: "succeeds P m Q \<Longrightarrow> (\<And>s. P' s \<Longrightarrow> P s) \<Longrightarrow> (\<And>a s. Q a s \<Longrightarrow> Q' a s) \<Longrightarrow> succeeds P' m Q'"
  unfolding succeeds_def by blast

lemma succeeds_ex: "(\<And>x. succeeds (P x) m Q) \<Longrightarrow> succeeds (\<lambda>s. \<exists>x. P x s) m Q"
  unfolding succeeds_def by blast

lemma succeeds_cmds_Nil: "succeeds P (cmds []) (\<lambda>u. P)"
  by auto

lemma succeeds_cmds_end: "(\<And>s. P s \<Longrightarrow> Q s) \<Longrightarrow> succeeds P (cmds []) (\<lambda>u. Q)"
  by auto

lemma succeeds_cmds_Cons: "succeeds P m (\<lambda>u. R) \<Longrightarrow> succeeds R (cmds ms) Q \<Longrightarrow> succeeds P (cmds (m # ms)) Q"
  by (simp add: succeeds_bind)

lemma succeeds_must:
  assumes "succeeds P m (\<lambda>r s. r = None \<and> Q s)"
  shows "succeeds P (must what m) (\<lambda>u. Q)"
  unfolding must_def by (rule succeeds_bind [OF assms]) (auto simp: succeeds_def cmd_return_def)

lemma succeeds_known: "(\<phi> \<Longrightarrow> succeeds P m Q) \<Longrightarrow> succeeds (\<lambda>s. \<phi> \<and> P s) m Q"
  by (auto simp: succeeds_def)

lemma succeeds_fold:
  assumes "\<And>i a. i < length xs \<Longrightarrow> succeeds (J i a) (f (xs ! i) a) (J (Suc i))"
  shows "succeeds (J 0 a) (cmd_fold f xs a) (J (length xs))"
proof -
  have "succeeds (J i a) (cmd_fold f (drop i xs) a) (J (length xs))" if "i \<le> length xs" for i a
    using that
  proof (induction "length xs - i" arbitrary: i a)
    case 0
    then show ?case by (auto simp: succeeds_def cmd_return_def)
  next
    case (Suc k)
    then have i: "i < length xs" by simp
    have "succeeds (J (Suc i) b) (cmd_fold f (drop (Suc i) xs) b) (J (length xs))" for b
      using Suc by (intro Suc.hyps(1)) auto
    then show ?case using succeeds_bind [of "J i a" "f (xs ! i) a" "J (Suc i)" "cmd_fold f (drop (Suc i) xs)" "J (length xs)"]
        assms [OF i, of a]
      by (simp add: Cons_nth_drop_Suc [OF i, symmetric])
  qed
  from this [of 0] show ?thesis by simp
qed

text \<open>
  A loop whose bodies each apply a step to the abstract state, make at most \<open>c\<close> tables, and add \<open>d\<close> to
  a counter.
\<close>

lemma succeeds_count:
  assumes "\<And>x i a r. x \<in> set xs \<Longrightarrow> succeeds (I i a) (f x r) (\<lambda>r' s. r' = r + d \<and> I (i + c) (step x a) s)"
  shows "succeeds (I n a) (cmd_fold f xs (r :: nat)) (\<lambda>r' s. r' = r + length xs * d \<and> I (n + length xs * c) (fold step xs a) s)"
proof -
  let ?J = "\<lambda>i r' s. r' = r + i * d \<and> I (n + i * c) (fold step (take i xs) a) s"
  have "succeeds (?J 0 r) (cmd_fold f xs r) (?J (length xs))"
  proof (rule succeeds_fold)
    fix i r' assume i: "i < length xs"
    have step: "fold step (take (Suc i) xs) a = step (xs ! i) (fold step (take i xs) a)"
      using i by (simp add: take_Suc_conv_app_nth)
    show "succeeds (?J i r') (f (xs ! i) r') (?J (Suc i))"
    proof (cases "r' = r + i * d")
      case True
      then show ?thesis using i step
        by (intro succeeds_conseq [OF assms [of "xs ! i" "n + i * c" "fold step (take i xs) a" r']]) (auto simp: ac_simps)
    next
      case False
      then show ?thesis by (simp add: succeeds_def)
    qed
  qed
  then show ?thesis by simp
qed

lemma succeeds_each:
  assumes "\<And>x i a. x \<in> set xs \<Longrightarrow> succeeds (I i a) (f x) (\<lambda>u. I (i + c) (step x a))"
  shows "succeeds (I n a) (cmd_each f xs) (\<lambda>u. I (n + length xs * c) (fold step xs a))"
proof -
  let ?J = "\<lambda>i (u :: unit). I (n + i * c) (fold step (take i xs) a)"
  have "succeeds (?J 0 ()) (cmd_fold (\<lambda>x u. f x) xs ()) (?J (length xs))"
  proof (rule succeeds_fold)
    fix i and u :: unit assume i: "i < length xs"
    have step: "fold step (take (Suc i) xs) a = step (xs ! i) (fold step (take i xs) a)"
      using i by (simp add: take_Suc_conv_app_nth)
    show "succeeds (?J i u) (f (xs ! i)) (?J (Suc i))"
      by (rule succeeds_conseq [OF assms [of "xs ! i" "n + i * c" "fold step (take i xs) a"]])
        (use i step in \<open>auto simp: ac_simps\<close>)
  qed
  then show ?thesis by (simp add: cmd_each_def)
qed

text \<open>Loops that only count, that only step, and that keep an invariant.\<close>

lemma succeeds_each_step:
  "(\<And>x a. x \<in> set xs \<Longrightarrow> succeeds (I a) (f x) (\<lambda>u. I (step x a))) \<Longrightarrow> succeeds (I a) (cmd_each f xs) (\<lambda>u. I (fold step xs a))"
  using succeeds_each [of xs "\<lambda>i. I" f 0 step 0 a] by simp

lemma succeeds_each_count:
  "(\<And>x i. x \<in> set xs \<Longrightarrow> succeeds (I i) (f x) (\<lambda>u. I (Suc i))) \<Longrightarrow> succeeds (I n) (cmd_each f xs) (\<lambda>u. I (n + length xs))"
  using succeeds_each [of xs "\<lambda>i (u :: unit). I i" f 1 "\<lambda>x u. u" n "()"] by simp

lemma succeeds_each_same:
  "(\<And>x. x \<in> set xs \<Longrightarrow> succeeds P (f x) (\<lambda>u. P)) \<Longrightarrow> succeeds P (cmd_each f xs) (\<lambda>u. P)"
  using succeeds_each_count [of xs "\<lambda>i. P" f 0] by simp

section \<open>Loop values and numbers in text\<close>

lemma for_values_iff: "0 < step \<Longrightarrow> x \<in> set (for_values i limit step) \<longleftrightarrow> x \<le> limit \<and> (\<exists>k. x = i + k * step)"
proof (induction i limit step rule: for_values.induct)
  case (1 i limit step)
  show ?case
  proof (cases "i \<le> limit")
    case True
    have "x = i \<or> (\<exists>k. x = i + step + k * step) \<longleftrightarrow> (\<exists>k. x = i + k * step)"
    proof
      assume "x = i \<or> (\<exists>k. x = i + step + k * step)"
      then show "\<exists>k. x = i + k * step"
      proof
        assume "\<exists>k. x = i + step + k * step"
        then obtain k where "x = i + step + k * step" by blast
        then have "x = i + Suc k * step" by simp
        then show ?thesis by blast
      qed (auto intro: exI [of _ 0])
    next
      assume "\<exists>k. x = i + k * step"
      then obtain k where "x = i + k * step" by blast
      then show "x = i \<or> (\<exists>k. x = i + step + k * step)" by (cases k) auto
    qed
    then show ?thesis using 1 True by (subst for_values.simps) auto
  next
    case False
    then show ?thesis by (subst for_values.simps) auto
  qed
qed

lemma for_values_length: "0 < step \<Longrightarrow> length (for_values i limit step) = (if i \<le> limit then (limit - i) div step + 1 else 0)"
proof (induction i limit step rule: for_values.induct)
  case (1 i limit step)
  show ?case
  proof (cases "i \<le> limit")
    case True
    then have rec: "length (for_values i limit step) = Suc (length (for_values (i + step) limit step))"
      using "1.prems" by (subst for_values.simps) simp
    show ?thesis
    proof (cases "i + step \<le> limit")
      case True
      then have "(limit - i) div step = Suc ((limit - (i + step)) div step)"
        using le_div_geq [OF "1.prems", of "limit - i"] by (simp add: diff_diff_left)
      then show ?thesis using 1 True rec by simp
    next
      case False
      then have "(limit - i) div step = 0" using \<open>i \<le> limit\<close> by simp
      then show ?thesis using 1 False rec \<open>i \<le> limit\<close> by simp
    qed
  next
    case False
    then show ?thesis by (subst for_values.simps) simp
  qed
qed

lemma string_bytes_inj [simp]: "string_bytes s = string_bytes t \<longleftrightarrow> s = t"
proof
  have "(word_of_nat (of_char c) :: 8 word) = word_of_nat (of_char d) \<Longrightarrow> c = d" for c d
  proof -
    assume "(word_of_nat (of_char c) :: 8 word) = word_of_nat (of_char d)"
    then have "unat (word_of_nat (of_char c) :: 8 word) = unat (word_of_nat (of_char d) :: 8 word)" by simp
    then have "(of_char c :: nat) mod 256 = of_char d mod 256" by (simp add: unsigned_of_nat take_bit_eq_mod)
    then show "c = d" by simp
  qed
  then have "inj (\<lambda>c :: char. word_of_nat (of_char c) :: 8 word)" by (auto intro: injI)
  then show "string_bytes s = string_bytes t \<Longrightarrow> s = t" by (simp add: string_bytes_def inj_map_eq_map)
qed simp

lemma length_string_bytes [simp]: "length (string_bytes s) = length s"
  by (simp add: string_bytes_def)

lemma bytes_nonempty [simp]: "string_bytes s = [] \<longleftrightarrow> s = []"
  by (simp add: string_bytes_def)

text \<open>\<open>%04d\<close> and \<open>%06d\<close> of a number that is not negative.\<close>

definition padded :: "nat \<Rightarrow> nat \<Rightarrow> string" where
  "padded k n = pad_zeros k (decimal n)"

lemma padded_inj [simp]: "padded k m = padded k n \<longleftrightarrow> m = n"
  by (metis padded_def decimal_val_decimal decimal_val_pad)

lemma decimal_length: "n < 10 ^ k \<Longrightarrow> 0 < k \<Longrightarrow> length (decimal n) \<le> k"
proof (induction k arbitrary: n)
  case (Suc k)
  show ?case
  proof (cases "n < 10")
    case True
    then show ?thesis by (subst decimal.simps) simp
  next
    case False
    then have "0 < k" using Suc.prems by (cases k) auto
    moreover have "n div 10 < 10 ^ k" using Suc.prems(1) by (simp add: less_mult_imp_div_less mult.commute)
    ultimately have "length (decimal (n div 10)) \<le> k" using Suc.IH by blast
    then show ?thesis using False by (subst decimal.simps) simp
  qed
qed simp

lemma length_padded: "n < 10 ^ k \<Longrightarrow> 0 < k \<Longrightarrow> length (padded k n) = k"
  using decimal_length [of n k] by (simp add: padded_def pad_zeros_def)

end
