(* ===== verification/KV_Node.thy ===== *)
theory KV_Node
  imports KV_Replicated KV_Cluster "HOL-Library.Sublist"
begin

text \<open>
  The start of a node (\<open>cmd/kv-node/main.go\<close>): the mode, the directories of the groups, opening a
  database and a raft node for every local group, and closing them.  The raft
  node and its close are parameters.
\<close>

section \<open>Directories\<close>

text \<open>\<open>filepath.Join\<close>: the elements that are not empty, separated and cleaned.\<close>

definition path_Join :: "string list \<Rightarrow> string" where
  "path_Join es = (case filter (\<lambda>e. e \<noteq> []) es of [] \<Rightarrow> [] | es' \<Rightarrow> Clean (join_elems es'))"

record dataDirs =
  dd_engineDir :: string
  dd_raftDir :: string

abbreviation modeStandalone :: string where "modeStandalone \<equiv> ''standalone''"
abbreviation modeRaft :: string where "modeRaft \<equiv> ''raft''"

definition resolveDataDirs :: "string \<Rightarrow> string \<Rightarrow> dataDirs" where
  "resolveDataDirs root mode =
     (if mode \<noteq> modeRaft then \<lparr>dd_engineDir = root, dd_raftDir = ''''\<rparr>
      else \<lparr>dd_engineDir = path_Join [root, ''engine''], dd_raftDir = path_Join [root, ''raft'']\<rparr>)"

definition resolveGroupDataDirs :: "string \<Rightarrow> GroupID \<Rightarrow> dataDirs" where
  "resolveGroupDataDirs root groupID =
     (let groupDir = ''group-'' @ groupID
      in \<lparr>dd_engineDir = path_Join [root, ''engine'', groupDir], dd_raftDir = path_Join [root, ''raft'', groupDir]\<rparr>)"

section \<open>Runtimes\<close>

record runtimeConfig =
  rt_mode :: string
  rt_addr :: string
  rt_dir :: string
  rt_memTableSize :: "64 word"
  rt_nodeID :: string
  rt_clusterPath :: string
  rt_bootstrap :: bool

text \<open>The store of a group: \<open>NewRaftStore\<close> on the node, the database and the configuration.\<close>

record 'n store_handle =
  st_node :: 'n
  st_db :: DB
  st_config :: RaftStoreConfig

record 'n shardGroupRuntime =
  sg_groupID :: GroupID
  sg_db :: "DB option"
  sg_raftNode :: "'n option"
  sg_store :: "'n store_handle"

text \<open>The store of a runtime: a database, or a sharded store over the groups.\<close>

record 'n nodeRuntime =
  nr_listenAddr :: string
  nr_store :: "DB + 'n store_handle ShardStore"
  nr_db :: "DB option"
  nr_groups :: "'n shardGroupRuntime list"
  nr_router :: "Router option"

text \<open>
  The machine: the disk, whether the logger is set, and the raft library's state.  \<open>None\<close> is the
  panic of \<open>Open\<close>; an \<open>Open\<close> that returns has set the logger.
\<close>

record 'e machine =
  mc_world :: world
  mc_logger :: bool
  mc_raft :: 'e

definition kv_open :: "Options \<Rightarrow> 'e machine \<Rightarrow> ((err + DB) \<times> 'e machine) option" where
  "kv_open options mc =
     (case DbOpen (mc_logger mc) options (mc_world mc) of
        (None, w) \<Rightarrow> None
      | (Some r, w) \<Rightarrow> Some (r, mc\<lparr>mc_world := w, mc_logger := True\<rparr>))"

definition kv_close :: "DB \<Rightarrow> 'e machine \<Rightarrow> 'e machine" where
  "kv_close db mc = (case DbClose db (mc_world mc) of (ign, db1, w) \<Rightarrow> mc\<lparr>mc_world := w\<rparr>)"

text \<open>The raft library's part of \<open>NewNode\<close>, and \<open>Node.Close\<close>.\<close>

record ('n, 'e) raft_nodes =
  rn_new :: "NodeConfig \<Rightarrow> 'e \<Rightarrow> (err + 'n) \<times> 'e"
  rn_close :: "'n \<Rightarrow> 'e \<Rightarrow> err option \<times> 'e"

text \<open>
  A host of raft nodes: what the calls that \<open>NewNode\<close> makes return, and what the calls that opened,
  closed and started something leave, with the node.
\<close>

record ('n, 'e) raft_host =
  rh_calls :: "NodeConfig \<Rightarrow> 'e \<Rightarrow> node_calls"
  rh_after :: "NodeConfig \<Rightarrow> node_event list \<Rightarrow> 'e \<Rightarrow> 'n \<times> 'e"
  rh_close :: "'n \<Rightarrow> 'e \<Rightarrow> err option \<times> 'e"

definition host_nodes :: "('n, 'e) raft_host \<Rightarrow> ('n, 'e) raft_nodes" where
  "host_nodes host = \<lparr>
     rn_new = (\<lambda>config s.
       case NewNode config (rh_calls host config s) of
         (r, trace) \<Rightarrow>
           (case rh_after host config trace s of
              (node, s1) \<Rightarrow> (case r of Some e \<Rightarrow> Inl e | None \<Rightarrow> Inr node, s1))),
     rn_close = rh_close host\<rparr>"

definition node_config :: "runtimeConfig \<Rightarrow> string \<Rightarrow> string \<Rightarrow> Peer list \<Rightarrow> NodeConfig" where
  "node_config config raftAddr raftDir peers =
     \<lparr>nc_NodeID = rt_nodeID config, nc_RaftAddr = raftAddr, nc_RaftDir = raftDir, nc_Peers = peers,
      nc_Bootstrap = rt_bootstrap config, nc_SnapshotThreshold = 0, nc_SnapshotInterval = 0\<rparr>"

definition newShardGroupRuntime ::
  "('n, 'e) raft_nodes \<Rightarrow> runtimeConfig \<Rightarrow> Config \<Rightarrow> Group \<Rightarrow> 'e machine
    \<Rightarrow> ((err + 'n shardGroupRuntime) \<times> 'e machine) option" where
  "newShardGroupRuntime lib config cluster grp mc =
     (let groupID = gp_ID grp;
          dirs = resolveGroupDataDirs (rt_dir config) groupID
      in case kv_open \<lparr>opt_Dir = dd_engineDir dirs, opt_sstDir = [], opt_MemTableSize = rt_memTableSize config\<rparr> mc of
           None \<Rightarrow> None
         | Some (Inl e, mc1) \<Rightarrow> Some (Inl (Wrapped (''open db for group '' @ quote groupID) e), mc1)
         | Some (Inr db, mc1) \<Rightarrow>
             (case LocalRaftAddr cluster groupID (rt_nodeID config) of
                Inl e \<Rightarrow> Some (Inl e, kv_close db mc1)
              | Inr raftAddr \<Rightarrow>
                  (case RaftPeersForGroup cluster groupID of
                     Inl e \<Rightarrow> Some (Inl e, kv_close db mc1)
                   | Inr peers \<Rightarrow>
                       (case rn_new lib (node_config config raftAddr (dd_raftDir dirs) peers) (mc_raft mc1) of
                          (Inl e, s) \<Rightarrow>
                            Some (Inl (Wrapped (''open raft node for group '' @ quote groupID) e),
                                  kv_close db (mc1\<lparr>mc_raft := s\<rparr>))
                        | (Inr node, s) \<Rightarrow>
                            Some (Inr \<lparr>sg_groupID = groupID, sg_db = Some db, sg_raftNode = Some node,
                                       sg_store = \<lparr>st_node = node, st_db = db,
                                         st_config = \<lparr>rsc_ApplyTimeout = 0, rsc_BarrierTimeout = 0\<rparr>\<rparr>\<rparr>,
                                  mc1\<lparr>mc_raft := s\<rparr>)))))"

text \<open>\<open>(*shardGroupRuntime).close\<close>; errors are only logged.\<close>

definition group_close ::
  "('n, 'e) raft_nodes \<Rightarrow> 'n shardGroupRuntime \<Rightarrow> 'e machine \<Rightarrow> 'n shardGroupRuntime \<times> 'e machine" where
  "group_close lib r mc =
     (case (case sg_raftNode r of
              None \<Rightarrow> (r, mc)
            | Some node \<Rightarrow>
                (case rn_close lib node (mc_raft mc) of
                   (ign, s) \<Rightarrow> (r\<lparr>sg_raftNode := None\<rparr>, mc\<lparr>mc_raft := s\<rparr>))) of
        (r1, mc1) \<Rightarrow>
          (case sg_db r1 of
             None \<Rightarrow> (r1, mc1)
           | Some db \<Rightarrow> (r1\<lparr>sg_db := None\<rparr>, kv_close db mc1)))"

text \<open>The last runtime is closed first.\<close>

primrec closeShardGroupRuntimes ::
  "('n, 'e) raft_nodes \<Rightarrow> 'n shardGroupRuntime list \<Rightarrow> 'e machine \<Rightarrow> 'n shardGroupRuntime list \<times> 'e machine" where
  "closeShardGroupRuntimes lib [] mc = ([], mc)"
| "closeShardGroupRuntimes lib (r # groups) mc =
     (case closeShardGroupRuntimes lib groups mc of
        (groups', mc1) \<Rightarrow> (case group_close lib r mc1 of (r', mc2) \<Rightarrow> (r' # groups', mc2)))"

text \<open>The loop of \<open>newShardGroupRuntimes\<close>, with the deferred close of the runtimes opened so far.\<close>

fun open_groups ::
  "('n, 'e) raft_nodes \<Rightarrow> runtimeConfig \<Rightarrow> Config \<Rightarrow> Group list \<Rightarrow> 'n shardGroupRuntime list \<Rightarrow> 'e machine
    \<Rightarrow> ((err + 'n shardGroupRuntime list) \<times> 'e machine) option" where
  "open_groups lib config cluster [] runtimes mc = Some (Inr runtimes, mc)"
| "open_groups lib config cluster (grp # rest) runtimes mc =
     (case newShardGroupRuntime lib config cluster grp mc of
        None \<Rightarrow> None
      | Some (Inl e, mc1) \<Rightarrow> Some (Inl e, snd (closeShardGroupRuntimes lib runtimes mc1))
      | Some (Inr r, mc1) \<Rightarrow> open_groups lib config cluster rest (runtimes @ [r]) mc1)"

definition newShardGroupRuntimes ::
  "('n, 'e) raft_nodes \<Rightarrow> runtimeConfig \<Rightarrow> Config \<Rightarrow> 'e machine
    \<Rightarrow> ((err + 'n shardGroupRuntime list) \<times> 'e machine) option" where
  "newShardGroupRuntimes lib config cluster mc =
     (let localGroups = LocalGroups cluster (rt_nodeID config)
      in if length localGroups = 0
         then Some (Inl (Errorf (''cluster node '' @ quote (rt_nodeID config) @ '' is not a replica of any group'')), mc)
         else open_groups lib config cluster localGroups [] mc)"

definition newShardRuntimeStore ::
  "Router \<Rightarrow> 'n shardGroupRuntime list \<Rightarrow> err + 'n store_handle ShardStore" where
  "newShardRuntimeStore router runtimes =
     (case NewShardStore \<lparr>sc_Router = Some router,
              sc_Groups = fold (\<lambda>r. AList.update (sg_groupID r) (Some (sg_store r))) runtimes []\<rparr> of
        Inl e \<Rightarrow> Inl (Wrapped ''create shard store'' e)
      | Inr store \<Rightarrow> Inr store)"

definition newRaftRuntime ::
  "('n, 'e) raft_nodes \<Rightarrow> (string \<Rightarrow> err + Config) \<Rightarrow> runtimeConfig \<Rightarrow> 'e machine
    \<Rightarrow> ((err + 'n nodeRuntime) \<times> 'e machine) option" where
  "newRaftRuntime lib loadClusterConfig config mc =
     (if rt_nodeID config = '''' then Some (Inl (Errorf ''node-id is required in raft mode''), mc)
      else if rt_clusterPath config = '''' then Some (Inl (Errorf ''cluster is required in raft mode''), mc)
      else
        (case loadClusterConfig (rt_clusterPath config) of
           Inl e \<Rightarrow> Some (Inl e, mc)
         | Inr cluster \<Rightarrow>
        (case ConfigNewRouter cluster of
           Inl e \<Rightarrow> Some (Inl e, mc)
         | Inr router \<Rightarrow>
        (case FindNode cluster (rt_nodeID config) of
           Inl e \<Rightarrow> Some (Inl e, mc)
         | Inr current \<Rightarrow>
        (case newShardGroupRuntimes lib config cluster mc of
           None \<Rightarrow> None
         | Some (Inl e, mc1) \<Rightarrow> Some (Inl e, mc1)
         | Some (Inr groups, mc1) \<Rightarrow>
             (case newShardRuntimeStore router groups of
                Inl e \<Rightarrow> Some (Inl e, snd (closeShardGroupRuntimes lib groups mc1))
              | Inr store \<Rightarrow>
                  Some (Inr \<lparr>nr_listenAddr = nd_ClientAddr current, nr_store = Inr store, nr_db = None,
                             nr_groups = groups, nr_router = Some router\<rparr>, mc1)))))))"

definition newStandaloneRuntime ::
  "runtimeConfig \<Rightarrow> 'e machine \<Rightarrow> ((err + 'n nodeRuntime) \<times> 'e machine) option" where
  "newStandaloneRuntime config mc =
     (case kv_open \<lparr>opt_Dir = rt_dir config, opt_sstDir = [], opt_MemTableSize = rt_memTableSize config\<rparr> mc of
        None \<Rightarrow> None
      | Some (Inl e, mc1) \<Rightarrow> Some (Inl (Wrapped ''open db'' e), mc1)
      | Some (Inr db, mc1) \<Rightarrow>
          Some (Inr \<lparr>nr_listenAddr = rt_addr config, nr_store = Inl db, nr_db = Some db, nr_groups = [],
                     nr_router = None\<rparr>, mc1))"

definition newNodeRuntime ::
  "('n, 'e) raft_nodes \<Rightarrow> (string \<Rightarrow> err + Config) \<Rightarrow> runtimeConfig \<Rightarrow> 'e machine
    \<Rightarrow> ((err + 'n nodeRuntime) \<times> 'e machine) option" where
  "newNodeRuntime lib loadClusterConfig config mc =
     (if rt_mode config = modeStandalone then newStandaloneRuntime config mc
      else if rt_mode config = modeRaft then newRaftRuntime lib loadClusterConfig config mc
      else Some (Inl (Errorf (''unknown mode '' @ quote (rt_mode config))), mc))"

definition closeRuntime ::
  "('n, 'e) raft_nodes \<Rightarrow> 'n nodeRuntime option \<Rightarrow> 'e machine \<Rightarrow> 'n nodeRuntime option \<times> 'e machine" where
  "closeRuntime lib runtime mc =
     (case runtime of
        None \<Rightarrow> (None, mc)
      | Some rt \<Rightarrow>
          (case closeShardGroupRuntimes lib (nr_groups rt) mc of
             (groups', mc1) \<Rightarrow>
               (Some (rt\<lparr>nr_groups := groups'\<rparr>),
                case nr_db rt of None \<Rightarrow> mc1 | Some db \<Rightarrow> kv_close db mc1)))"

section \<open>Cleaned paths\<close>

text \<open>The elements of a cleaned path, last first.\<close>

fun normal :: "bool \<Rightarrow> string list \<Rightarrow> bool" where
  "normal rooted [] \<longleftrightarrow> True"
| "normal rooted (e # acc) \<longleftrightarrow> normal rooted acc \<and> e \<noteq> [] \<and> e \<noteq> ''.'' \<and> CHR ''/'' \<notin> set e
     \<and> (e = ''..'' \<longrightarrow> \<not> rooted \<and> (\<forall>a \<in> set acc. a = ''..''))"

lemma normal_clean_elems:
  "normal r acc \<Longrightarrow> \<forall>e \<in> set es. CHR ''/'' \<notin> set e \<Longrightarrow> normal r (clean_elems r acc es)"
proof (induction es arbitrary: acc)
  case (Cons e es)
  show ?case
  proof (cases "e = [] \<or> e = ''.'' \<or> e \<noteq> ''..''")
    case True
    then show ?thesis using Cons by auto
  next
    case False
    then show ?thesis using Cons by (cases acc) auto
  qed
qed simp

lemma normal_suffix: "normal r (xs @ acc) \<Longrightarrow> normal r acc"
  by (induction xs) auto

lemma clean_elems_normal: "normal r (rev es @ acc) \<Longrightarrow> clean_elems r acc es = rev es @ acc"
proof (induction es arbitrary: acc)
  case (Cons e es)
  have all: "normal r (rev es @ e # acc)" using Cons.prems by simp
  then have IH: "clean_elems r (e # acc) es = rev es @ e # acc" by (rule Cons.IH)
  have n: "normal r (e # acc)" by (rule normal_suffix [OF all])
  show ?case
  proof (cases "e = ''..''")
    case True
    then show ?thesis using n IH by (cases acc) auto
  next
    case False
    then show ?thesis using n IH by auto
  qed
qed simp

lemma clean_elems_append: "clean_elems r acc (xs @ ys) = clean_elems r (clean_elems r acc xs) ys"
  by (induction xs arbitrary: acc) (auto split: list.splits)

lemma split_on_nonempty [simp]: "split_on c s \<noteq> []"
  by (induction s) (auto split: list.splits)

lemma split_on_append: "split_on c (s @ c # t) = split_on c s @ split_on c t"
  by (induction s) (auto split: list.splits)

lemma split_on_plain: "c \<notin> set s \<Longrightarrow> split_on c s = [s]"
  by (induction s) auto

lemma split_on_no_sep: "e \<in> set (split_on c s) \<Longrightarrow> c \<notin> set e"
  by (induction s arbitrary: e) (auto split: list.splits if_splits)

lemma split_join: "es \<noteq> [] \<Longrightarrow> \<forall>e \<in> set es. CHR ''/'' \<notin> set e \<Longrightarrow> split_on (CHR ''/'') (join_elems es) = es"
  by (induction es rule: join_elems.induct) (auto simp: split_on_plain split_on_append)

lemma path_of_Clean: "path_of (Clean s) = path_of s"
proof -
  let ?r = "is_rooted s" and ?acc = "clean_elems (is_rooted s) [] (split_on (CHR ''/'') s)"
  have n: "normal ?r ?acc" by (rule normal_clean_elems) (auto dest: split_on_no_sep)
  have plain: "\<forall>e \<in> set (rev ?acc). e \<noteq> [] \<and> CHR ''/'' \<notin> set e"
  proof -
    have "normal r xs \<Longrightarrow> e \<in> set xs \<Longrightarrow> e \<noteq> [] \<and> CHR ''/'' \<notin> set e" for r xs e
      by (induction xs) auto
    then show ?thesis using n by auto
  qed
  have again: "clean_elems ?r [] (rev ?acc) = ?acc" using clean_elems_normal [of ?r "rev ?acc" "[]"] n by simp
  show ?thesis
  proof (cases "?acc = []")
    case True
    then show ?thesis by (simp add: Clean_def Let_def path_of_def is_rooted_def)
  next
    case False
    then have split: "split_on (CHR ''/'') (join_elems (rev ?acc)) = rev ?acc" using split_join [of "rev ?acc"] plain by simp
    obtain e es where acc: "rev ?acc = e # es" using False by (cases "rev ?acc") auto
    show ?thesis
    proof (cases ?r)
      case True
      then have "split_on (CHR ''/'') (Clean s) = [] # rev ?acc" "is_rooted (Clean s)"
        using split by (simp_all add: Clean_def Let_def is_rooted_def)
      then show ?thesis using True again by (simp add: path_of_def)
    next
      case rel: False
      have "hd (join_elems (rev ?acc)) \<noteq> CHR ''/''" using plain unfolding acc by (cases es; cases e) auto
      then have "\<not> is_rooted (Clean s)" using rel False by (simp add: Clean_def Let_def is_rooted_def)
      moreover have "Clean s = join_elems (rev ?acc)" using rel False by (simp add: Clean_def Let_def)
      ultimately show ?thesis using rel split again by (simp add: path_of_def)
    qed
  qed
qed

text \<open>Elements that cleaning copies.\<close>

definition plain_elem :: "string \<Rightarrow> bool" where
  "plain_elem e \<longleftrightarrow> e \<noteq> [] \<and> e \<noteq> ''.'' \<and> e \<noteq> ''..'' \<and> CHR ''/'' \<notin> set e"

lemma path_of_append:
  assumes "plain_elem e" and "root \<noteq> []"
  shows "path_of (root @ CHR ''/'' # e) = path_of root @ [e]"
  using assms by (simp add: path_of_def is_rooted_def split_on_append split_on_plain clean_elems_append plain_elem_def)

lemma path_of_plain: "plain_elem e \<Longrightarrow> path_of e = [e]"
  by (cases e) (auto simp: path_of_def is_rooted_def split_on_plain plain_elem_def)

lemma path_of_Join:
  assumes "plain_elem x" and "plain_elem y"
  shows "path_of (path_Join [root, x, y]) = path_of root @ [x, y]"
proof (cases "root = []")
  case True
  then show ?thesis
    using assms path_of_append [OF assms(2), of x] path_of_plain [OF assms(1)]
    by (simp add: path_Join_def path_of_Clean plain_elem_def) (simp add: path_of_def is_rooted_def)
next
  case False
  then show ?thesis
    using assms path_of_append [OF assms(1), of root] path_of_append [OF assms(2), of "root @ CHR ''/'' # x"]
    by (simp add: path_Join_def path_of_Clean plain_elem_def)
qed

lemma group_dir_plain: "CHR ''/'' \<notin> set g \<Longrightarrow> plain_elem (''group-'' @ g)"
  by (simp add: plain_elem_def)

lemma group_dirs_paths:
  assumes "CHR ''/'' \<notin> set g"
  shows "path_of (dd_engineDir (resolveGroupDataDirs root g)) = path_of root @ [''engine'', ''group-'' @ g]"
    and "path_of (dd_raftDir (resolveGroupDataDirs root g)) = path_of root @ [''raft'', ''group-'' @ g]"
  using path_of_Join [OF _ group_dir_plain [OF assms], of "''engine''" root]
    path_of_Join [OF _ group_dir_plain [OF assms], of "''raft''" root]
  by (simp_all add: resolveGroupDataDirs_def Let_def plain_elem_def)

section \<open>Properties\<close>

definition group_paths :: "string \<Rightarrow> GroupID \<Rightarrow> path set" where
  "group_paths root g =
     {path_of (dd_engineDir (resolveGroupDataDirs root g)), path_of (dd_raftDir (resolveGroupDataDirs root g))}"

text \<open>
  Groups do not share directories.  For group ids without a slash, the four directories of two
  different groups of one node are different and none lies inside another, whatever the root is; the
  database and the raft log of one group do not either.
\<close>

lemma group_directories_are_separate:
  assumes "CHR ''/'' \<notin> set g" and "CHR ''/'' \<notin> set h" and "g \<noteq> h"
    and "p \<in> group_paths root g" and "q \<in> group_paths root g \<union> group_paths root h" and "p \<noteq> q"
  shows "\<not> prefix p q \<and> \<not> prefix q p"
proof -
  have p: "\<exists>k \<in> {''engine'', ''raft''}. p = path_of root @ [k, ''group-'' @ g]"
    using assms(4) group_dirs_paths [OF assms(1), of root] by (auto simp: group_paths_def)
  have q: "\<exists>k \<in> {''engine'', ''raft''}. \<exists>i \<in> {g, h}. q = path_of root @ [k, ''group-'' @ i]"
    using assms(5) group_dirs_paths [OF assms(1), of root] group_dirs_paths [OF assms(2), of root]
    by (auto simp: group_paths_def)
  then have "length p = length q" using p by auto
  then show ?thesis using assms(6) not_equal_is_parallel by auto
qed

lemma group_directories_are_separate_witness:
  "\<not> prefix (path_of (dd_engineDir (resolveGroupDataDirs ''data'' ''1''))) (path_of (dd_engineDir (resolveGroupDataDirs ''data'' ''12'')))"
proof -
  have "path_of (dd_engineDir (resolveGroupDataDirs ''data'' ''1'')) \<noteq> path_of (dd_engineDir (resolveGroupDataDirs ''data'' ''12''))"
    using group_dirs_paths(1) [of "''1''" "''data''"] group_dirs_paths(1) [of "''12''" "''data''"] by simp
  then show ?thesis
    using group_directories_are_separate [of "''1''" "''12''" "path_of (dd_engineDir (resolveGroupDataDirs ''data'' ''1''))" "''data''"
        "path_of (dd_engineDir (resolveGroupDataDirs ''data'' ''12''))"]
    by (simp add: group_paths_def)
qed

text \<open>A slash in a group id breaks this: two local groups of a valid configuration in the same directories.\<close>

lemma group_directories_collide:
  "\<exists>c. Validate c = None \<and> map gp_ID (LocalGroups c ''n1'') = [''y'', ''x/../group-y'']
     \<and> (\<forall>dir. resolveGroupDataDirs (''/'' @ dir) ''x/../group-y'' = resolveGroupDataDirs (''/'' @ dir) ''y'')"
proof -
  let ?c = "example_cluster\<lparr>cc_Groups := [\<lparr>gp_ID = ''y'', gp_Replicas = [\<lparr>gr_NodeID = ''n1'', gr_RaftAddr = '':10001''\<rparr>]\<rparr>,
      \<lparr>gp_ID = ''x/../group-y'', gp_Replicas = [\<lparr>gr_NodeID = ''n1'', gr_RaftAddr = '':10002''\<rparr>]\<rparr>],
      cc_ShardRoutes := [\<lparr>sd_ID = 0, sd_GroupID = ''y''\<rparr>]\<rparr>"
  have ok: "Validate ?c = None"
    unfolding Validate_cluster_ok by (auto simp: cluster_ok_def group_ok_def replica_ok_def example_cluster_def)
  have same: "clean_elems True [] (split_on (CHR ''/'') (''/'' @ dir @ ''/'' @ k @ ''/group-x/../group-y''))
     = clean_elems True [] (split_on (CHR ''/'') (''/'' @ dir @ ''/'' @ k @ ''/group-y''))" for dir k
    using split_on_append [of "CHR ''/''" "''/'' @ dir @ ''/'' @ k" "''group-x/../group-y''"]
      split_on_append [of "CHR ''/''" "''/'' @ dir @ ''/'' @ k" "''group-y''"]
    by (simp add: clean_elems_append)
  have "resolveGroupDataDirs (''/'' @ dir) ''x/../group-y'' = resolveGroupDataDirs (''/'' @ dir) ''y''" for dir
    using same [of dir "''engine''"] same [of dir "''raft''"]
    by (simp add: resolveGroupDataDirs_def Let_def path_Join_def Clean_def is_rooted_def)
  then show ?thesis using ok by (intro exI [of _ ?c]) (simp add: LocalGroups_def example_cluster_def)
qed

end
