(* ===== verification/KV_Startup.thy ===== *)
theory KV_Startup
  imports KV_Node "HOL-Library.Multiset" "HOL-Library.Sublist"
begin

text \<open>
  Starting a node: which raft nodes run after a start, a failed start and a close; what a runtime
  consists of; and that the replicas of a valid cluster start.
\<close>

section \<open>Which raft nodes run\<close>

text \<open>
  The raft nodes that run, as a multiset that the library keeps: \<open>NewNode\<close> adds the node that it
  returns and \<open>Close\<close> takes it away.
\<close>

definition counts_nodes :: "('n, 'e) raft_nodes \<Rightarrow> ('e \<Rightarrow> 'n multiset) \<Rightarrow> bool" where
  "counts_nodes lib running \<longleftrightarrow>
     (\<forall>config s e s'. rn_new lib config s = (Inl e, s') \<longrightarrow> running s' = running s)
     \<and> (\<forall>config s node s'. rn_new lib config s = (Inr node, s') \<longrightarrow> running s' = add_mset node (running s))
     \<and> (\<forall>node s r s'. rn_close lib node s = (r, s') \<longrightarrow> running s' = running s - {#node#})"

definition nodes_of :: "'n shardGroupRuntime list \<Rightarrow> 'n multiset" where
  "nodes_of groups = mset (concat (map (\<lambda>r. case sg_raftNode r of None \<Rightarrow> [] | Some node \<Rightarrow> [node]) groups))"

lemma nodes_of_simps [simp]:
  "nodes_of [] = {#}"
  "nodes_of (r # gs) = (case sg_raftNode r of None \<Rightarrow> {#} | Some node \<Rightarrow> {#node#}) + nodes_of gs"
  "nodes_of (gs @ gs') = nodes_of gs + nodes_of gs'"
  by (simp_all add: nodes_of_def split: option.splits)

lemma kv_calls_keep_nodes [simp]:
  "kv_open options mc = Some (r, mc') \<Longrightarrow> mc_raft mc' = mc_raft mc"
  "mc_raft (kv_close db mc) = mc_raft mc"
  by (auto simp: kv_open_def kv_close_def split: prod.splits option.splits)

lemma group_close_running:
  assumes "counts_nodes lib running"
  shows "running (mc_raft (snd (group_close lib r mc)))
    = running (mc_raft mc) - (case sg_raftNode r of None \<Rightarrow> {#} | Some node \<Rightarrow> {#node#})"
  using assms by (auto simp: group_close_def counts_nodes_def split: option.splits prod.splits)

lemma closeShardGroupRuntimes_running:
  assumes "counts_nodes lib running"
  shows "running (mc_raft (snd (closeShardGroupRuntimes lib gs mc))) = running (mc_raft mc) - nodes_of gs"
proof (induction gs)
  case (Cons r gs)
  obtain gs' mc1 where c: "closeShardGroupRuntimes lib gs mc = (gs', mc1)" by (cases "closeShardGroupRuntimes lib gs mc")
  obtain r' mc2 where "group_close lib r mc1 = (r', mc2)" by (cases "group_close lib r mc1")
  then show ?case using c Cons group_close_running [OF assms, of r mc1] by (simp add: add.commute)
qed simp

lemma newShardGroupRuntime_running:
  assumes c: "counts_nodes lib running" and run: "newShardGroupRuntime lib config cluster grp mc = Some (r, mc')"
  shows "case r of Inl e \<Rightarrow> running (mc_raft mc') = running (mc_raft mc)
    | Inr rt \<Rightarrow> running (mc_raft mc') = nodes_of [rt] + running (mc_raft mc)"
  using run c by (auto simp: newShardGroupRuntime_def counts_nodes_def Let_def split: option.splits sum.splits prod.splits)

lemma open_groups_running:
  assumes "counts_nodes lib running" and "open_groups lib config cluster gs runtimes mc = Some (r, mc')"
    and "running (mc_raft mc) = nodes_of runtimes + base"
  shows "case r of Inl e \<Rightarrow> running (mc_raft mc') = base
    | Inr rts \<Rightarrow> running (mc_raft mc') = nodes_of rts + base"
  using assms(2,3)
proof (induction gs arbitrary: runtimes mc)
  case (Cons grp gs)
  obtain r1 mc1 where n: "newShardGroupRuntime lib config cluster grp mc = Some (r1, mc1)"
    using Cons.prems(1) by (auto split: option.splits)
  note run = newShardGroupRuntime_running [OF assms(1) n]
  show ?case
  proof (cases r1)
    case (Inl e)
    then show ?thesis using Cons.prems n run closeShardGroupRuntimes_running [OF assms(1), of runtimes mc1] by auto
  next
    case (Inr rt)
    then show ?thesis using Cons.IH [of "runtimes @ [rt]" mc1] Cons.prems n run by (simp add: ac_simps)
  qed
qed auto


lemma newRaftRuntime_running:
  assumes c: "counts_nodes lib running" and run: "newRaftRuntime lib load config mc = Some (r, mc')"
  shows "case r of Inl e \<Rightarrow> running (mc_raft mc') = running (mc_raft mc)
    | Inr rt \<Rightarrow> running (mc_raft mc') = nodes_of (nr_groups rt) + running (mc_raft mc)"
proof -
  have groups: "case r1 of Inl e \<Rightarrow> running (mc_raft mc1) = running (mc_raft mc)
      | Inr rts \<Rightarrow> running (mc_raft mc1) = nodes_of rts + running (mc_raft mc)"
    if "newShardGroupRuntimes lib config cluster mc = Some (r1, mc1)" for cluster r1 mc1
    using that open_groups_running [OF c, of config cluster "LocalGroups cluster (rt_nodeID config)" "[]" mc]
    by (auto simp: newShardGroupRuntimes_def Let_def split: if_splits)
  show ?thesis using run
    by (auto simp: newRaftRuntime_def closeShardGroupRuntimes_running [OF c]
        split: if_splits sum.splits option.splits prod.splits dest: groups)
qed

lemma closeShardGroupRuntimes_nil:
  "\<forall>r \<in> set (fst (closeShardGroupRuntimes lib gs mc)). sg_raftNode r = None \<and> sg_db r = None"
proof (induction gs)
  case (Cons r gs)
  have "sg_raftNode (fst (group_close lib r mc1)) = None \<and> sg_db (fst (group_close lib r mc1)) = None" for mc1
    by (auto simp: group_close_def split: option.splits prod.splits)
  then show ?case using Cons by (auto split: prod.splits) (metis fst_conv)+
qed simp

lemma newNodeRuntime_running:
  assumes "counts_nodes lib running" and "newNodeRuntime lib load config mc = Some (r, mc1)"
  shows "case r of Inl e \<Rightarrow> running (mc_raft mc1) = running (mc_raft mc)
    | Inr rt \<Rightarrow> running (mc_raft mc1) = nodes_of (nr_groups rt) + running (mc_raft mc)"
proof (cases "rt_mode config = modeRaft")
  case True
  then show ?thesis using assms(2) newRaftRuntime_running [OF assms(1), of load config mc] by (simp add: newNodeRuntime_def)
next
  case False
  then show ?thesis using assms(2)
    by (auto simp: newNodeRuntime_def newStandaloneRuntime_def split: if_splits option.splits sum.splits prod.splits)
qed

lemma closeRuntime_running:
  assumes "counts_nodes lib running" and "closeRuntime lib (Some rt) mc2 = (rt', mc3)"
  shows "running (mc_raft mc3) = running (mc_raft mc2) - nodes_of (nr_groups rt)
      \<and> (\<forall>g \<in> set (nr_groups (the rt')). sg_raftNode g = None \<and> sg_db g = None)"
  using assms(2) closeShardGroupRuntimes_running [OF assms(1), of "nr_groups rt" mc2]
    closeShardGroupRuntimes_nil [of lib "nr_groups rt" mc2]
  by (auto simp: closeRuntime_def split: prod.splits option.splits)

section \<open>What a runtime starts\<close>

definition engine_options :: "runtimeConfig \<Rightarrow> GroupID \<Rightarrow> Options" where
  "engine_options config g = \<lparr>opt_Dir = dd_engineDir (resolveGroupDataDirs (rt_dir config) g), opt_sstDir = [],
     opt_MemTableSize = rt_memTableSize config\<rparr>"

text \<open>
  The runtime of a group: its database was opened in its directory, and its raft node from a valid
  configuration with the addresses of the cluster.
\<close>

definition group_started ::
  "('n, 'e) raft_nodes \<Rightarrow> runtimeConfig \<Rightarrow> Config \<Rightarrow> Group \<Rightarrow> 'n shardGroupRuntime \<Rightarrow> bool" where
  "group_started lib config cluster grp rt \<longleftrightarrow>
     sg_groupID rt = gp_ID grp
     \<and> (\<exists>db node. sg_db rt = Some db \<and> sg_raftNode rt = Some node \<and> st_db (sg_store rt) = db \<and> st_node (sg_store rt) = node
          \<and> (\<exists>(mc :: 'e machine) mc1. kv_open (engine_options config (gp_ID grp)) mc = Some (Inr db, mc1))
          \<and> (\<exists>addr peers s s1. LocalRaftAddr cluster (gp_ID grp) (rt_nodeID config) = Inr addr
               \<and> RaftPeersForGroup cluster (gp_ID grp) = Inr peers
               \<and> (let nc = node_config config addr (dd_raftDir (resolveGroupDataDirs (rt_dir config) (gp_ID grp))) peers
                  in validateNodeConfig nc = None \<and> rn_new lib nc s = (Inr node, s1))))"

definition start_error :: "Group \<Rightarrow> err \<Rightarrow> bool" where
  "start_error grp e \<longleftrightarrow> (\<exists>cause. e = Wrapped (''open db for group '' @ quote (gp_ID grp)) cause
     \<or> e = Wrapped (''open raft node for group '' @ quote (gp_ID grp)) cause)"

lemma path_Join_not_empty: "\<exists>e \<in> set es. e \<noteq> [] \<Longrightarrow> path_Join es \<noteq> []"
proof -
  assume "\<exists>e \<in> set es. e \<noteq> []"
  then have "filter (\<lambda>e. e \<noteq> []) es \<noteq> []" by (simp add: filter_empty_conv)
  then obtain x xs where f: "filter (\<lambda>e. e \<noteq> []) es = x # xs" by (meson list.exhaust)
  have "join_elems ys \<noteq> []" if "ys \<noteq> []" "\<forall>y \<in> set ys. y \<noteq> []" for ys
    using that by (cases ys rule: join_elems.cases) auto
  moreover have "\<forall>y \<in> set (x # xs). y \<noteq> []" unfolding f [symmetric] by simp
  moreover have ne: "\<forall>e \<in> set acc. e \<noteq> []" if "normal r acc" for r acc
    using that by (induction acc) auto
  have "\<forall>e \<in> set (clean_elems r [] (split_on (CHR ''/'') s)). e \<noteq> []" for r s
    by (rule ne [of r], rule normal_clean_elems) (auto dest: split_on_no_sep)
  ultimately show ?thesis by (simp add: path_Join_def f Clean_def Let_def)
qed

lemma local_group:
  assumes "cluster_ok c" and "grp \<in> set (LocalGroups c i)"
  obtains replica where "grp \<in> set (cc_Groups c)" "replica \<in> set (gp_Replicas grp)" "gr_NodeID replica = i"
  using assms(2) that by (auto simp: LocalGroups_def list_ex_iff)

lemma local_group_config:
  assumes "cluster_ok c" and "grp \<in> set (LocalGroups c (rt_nodeID config))"
  shows "\<exists>addr peers. LocalRaftAddr c (gp_ID grp) (rt_nodeID config) = Inr addr \<and> RaftPeersForGroup c (gp_ID grp) = Inr peers
    \<and> validateNodeConfig (node_config config addr (dd_raftDir (resolveGroupDataDirs (rt_dir config) (gp_ID grp))) peers) = None"
proof -
  obtain replica where r: "grp \<in> set (cc_Groups c)" "replica \<in> set (gp_Replicas grp)" "gr_NodeID replica = rt_nodeID config"
    using local_group [OF assms] .
  have "dd_raftDir (resolveGroupDataDirs (rt_dir config) (gp_ID grp)) \<noteq> []"
    unfolding resolveGroupDataDirs_def Let_def by (simp add: path_Join_not_empty)
  then show ?thesis using replica_config [OF assms(1) r(1,2)] r(3) by (fastforce simp: node_config_def)
qed

lemma newShardGroupRuntime_result:
  assumes "cluster_ok c" and "grp \<in> set (LocalGroups c (rt_nodeID config))"
    and "newShardGroupRuntime lib config c grp mc = Some (r, mc')"
  shows "case r of Inl e \<Rightarrow> start_error grp e | Inr rt \<Rightarrow> group_started lib config c grp rt"
proof -
  obtain addr peers where "LocalRaftAddr c (gp_ID grp) (rt_nodeID config) = Inr addr"
    "RaftPeersForGroup c (gp_ID grp) = Inr peers"
    "validateNodeConfig (node_config config addr (dd_raftDir (resolveGroupDataDirs (rt_dir config) (gp_ID grp))) peers) = None"
    using local_group_config [OF assms(1,2)] by blast
  then show ?thesis using assms(3)
    by (fastforce simp: newShardGroupRuntime_def Let_def start_error_def group_started_def engine_options_def
        split: option.splits sum.splits prod.splits)
qed

lemma open_groups_result:
  assumes "cluster_ok c" and "open_groups lib config c gs runtimes mc = Some (r, mc')"
    and "set gs \<subseteq> set (LocalGroups c (rt_nodeID config))"
  shows "case r of Inl e \<Rightarrow> \<exists>grp \<in> set gs. start_error grp e
    | Inr rts \<Rightarrow> \<exists>new. rts = runtimes @ new \<and> list_all2 (group_started lib config c) gs new"
  using assms(2,3)
proof (induction gs arbitrary: runtimes mc)
  case (Cons grp gs)
  obtain r1 mc1 where n: "newShardGroupRuntime lib config c grp mc = Some (r1, mc1)"
    using Cons.prems(1) by (auto split: option.splits)
  have res: "case r1 of Inl e \<Rightarrow> start_error grp e | Inr rt \<Rightarrow> group_started lib config c grp rt"
    using newShardGroupRuntime_result [OF assms(1) _ n] Cons.prems(2) by simp
  show ?case
  proof (cases r1)
    case (Inl e)
    then show ?thesis using Cons.prems n res by auto
  next
    case (Inr rt)
    then have "open_groups lib config c gs (runtimes @ [rt]) mc1 = Some (r, mc')" using Cons.prems(1) n by simp
    from Cons.IH [OF this] Cons.prems(2) show ?thesis using res Inr by (cases r) auto
  qed
qed auto

lemma runtime_stores:
  assumes "distinct (map sg_groupID rts)"
  shows "map_of (fold (\<lambda>r. AList.update (sg_groupID r) (Some (sg_store r))) rts [])
      = map_of (map (\<lambda>r. (sg_groupID r, Some (sg_store r))) rts)"
    and "distinct (map fst (fold (\<lambda>r. AList.update (sg_groupID r) (Some (sg_store r))) rts []))"
proof -
  let ?al = "map (\<lambda>r. (sg_groupID r, Some (sg_store r))) rts"
  have "map_of (fold (\<lambda>r. AList.update (sg_groupID r) (Some (sg_store r))) rts acc) = map_of acc ++ map_of (rev (map (\<lambda>r. (sg_groupID r, Some (sg_store r))) rts))" for acc
    by (induction rts arbitrary: acc) (auto simp: map_add_upd_left)
  then show "map_of (fold (\<lambda>r. AList.update (sg_groupID r) (Some (sg_store r))) rts []) = map_of ?al"
    using map_of_rev_distinct [of ?al] assms by (simp add: comp_def)
  have "distinct (map fst acc) \<Longrightarrow> distinct (map fst (fold (\<lambda>r. AList.update (sg_groupID r) (Some (sg_store r))) rts acc))" for acc
    by (induction rts arbitrary: acc) (auto simp: distinct_update)
  then show "distinct (map fst (fold (\<lambda>r. AList.update (sg_groupID r) (Some (sg_store r))) rts []))" by simp
qed

lemma newShardRuntimeStore_started:
  assumes d: "distinct (map sg_groupID rts)" and ne: "rts \<noteq> []" and ids: "\<forall>r \<in> set rts. sg_groupID r \<noteq> []"
  shows "\<exists>store. newShardRuntimeStore router rts = Inr store \<and> ss_router store = Some router
    \<and> map_of (ss_groups store) = map_of (map (\<lambda>r. (sg_groupID r, sg_store r)) rts)"
proof -
  let ?gs = "fold (\<lambda>r. AList.update (sg_groupID r) (Some (sg_store r))) rts []"
  let ?c = "\<lparr>sc_Router = Some router, sc_Groups = ?gs\<rparr>"
  note gs = runtime_stores [OF d]
  have "g \<noteq> [] \<and> s \<noteq> None" if "(g, s) \<in> set ?gs" for g s
  proof -
    have "map_of ?gs g = Some s" using that gs(2) by simp
    then show ?thesis using ids unfolding gs(1) by (fastforce dest!: map_of_SomeD)
  qed
  moreover have "?gs \<noteq> []"
  proof
    assume "?gs = []"
    then have "map_of ?gs (sg_groupID (hd rts)) = None" by simp
    then show False using ne unfolding gs(1) by (cases rts) auto
  qed
  ultimately obtain store where new: "NewShardStore ?c = Inr store" using NewShardStore_succeeds [of ?c] by fastforce
  have "map_option the (map_of (map (\<lambda>r. (sg_groupID r, Some (sg_store r))) rts) g) = map_of (map (\<lambda>r. (sg_groupID r, sg_store r)) rts) g" for g
    by (induction rts) auto
  then show ?thesis using new NewShardStore_Inr [OF _ new] gs by (simp add: newShardRuntimeStore_def fun_eq_iff)
qed

text \<open>On a valid cluster, a raft runtime is its groups and a sharded store over them.\<close>

lemma newRaftRuntime_valid:
  assumes "cluster_ok c" and "load (rt_clusterPath config) = Inr c" and "rt_clusterPath config \<noteq> []"
    and "FindNode c (rt_nodeID config) = Inr node" and "LocalGroups c (rt_nodeID config) \<noteq> []"
    and router: "ConfigNewRouter c = Inr router"
  shows "newRaftRuntime lib load config mc =
     (case open_groups lib config c (LocalGroups c (rt_nodeID config)) [] mc of
        None \<Rightarrow> None
      | Some (Inl e, mc2) \<Rightarrow> Some (Inl e, mc2)
      | Some (Inr groups, mc2) \<Rightarrow>
          (case newShardRuntimeStore router groups of
             Inl e \<Rightarrow> Some (Inl e, snd (closeShardGroupRuntimes lib groups mc2))
           | Inr store \<Rightarrow> Some (Inr \<lparr>nr_listenAddr = nd_ClientAddr node, nr_store = Inr store, nr_db = None,
               nr_groups = groups, nr_router = Some router\<rparr>, mc2)))"
proof -
  have "rt_nodeID config \<noteq> []" using FindNode_distinct assms(1,4) by (auto simp: cluster_ok_def)
  then show ?thesis using assms(2-5) router by (simp add: newRaftRuntime_def newShardGroupRuntimes_def)
qed

lemma started_store:
  assumes ok: "cluster_ok c" and ne: "LocalGroups c i \<noteq> []"
    and all: "list_all2 (group_started lib config c) (LocalGroups c i) rts"
  shows "map sg_groupID rts = map gp_ID (LocalGroups c i)"
    and "\<exists>store. newShardRuntimeStore router rts = Inr store \<and> ss_router store = Some router
      \<and> map_of (ss_groups store) = map_of (map (\<lambda>r. (sg_groupID r, sg_store r)) rts)"
proof -
  show ids: "map sg_groupID rts = map gp_ID (LocalGroups c i)"
    using all by (induction rule: list_all2_induct) (auto simp: group_started_def)
  have "distinct (map gp_ID (LocalGroups c i))" "\<forall>g \<in> set (LocalGroups c i). gp_ID g \<noteq> []"
    using ok by (auto simp: cluster_ok_def group_ok_def LocalGroups_def distinct_map_filter)
  then have d: "distinct (map sg_groupID rts)" and "[] \<notin> set (map sg_groupID rts)"
    unfolding ids by auto
  then have d2: "\<forall>r \<in> set rts. sg_groupID r \<noteq> []" by (metis imageI set_map)
  have "rts \<noteq> []" using all ne by auto
  then show "\<exists>store. newShardRuntimeStore router rts = Inr store \<and> ss_router store = Some router
      \<and> map_of (ss_groups store) = map_of (map (\<lambda>r. (sg_groupID r, sg_store r)) rts)"
    by (rule newShardRuntimeStore_started [OF d _ d2])
qed

section \<open>Starting on an empty disk\<close>

definition empty_dir :: "world \<Rightarrow> path \<Rightarrow> bool" where
  "empty_dir w d \<longleftrightarrow> (\<forall>q. prefix d q \<longrightarrow> file_at w q = None)"

lemma db_map_elsewhere:
  assumes "db_inv w db [] []" and "calm w'" and "\<forall>q. prefix (db_Dir db) q \<longrightarrow> file_at w' q = file_at w q"
  shows "db_inv w' db [] [] \<and> db_map (db, w') Map.empty"
proof -
  have "db_inv w' db [] []" using assms by (simp add: db_inv_def tables_on_def wal_path_of_def)
  moreover from this have "db_repr w' db Map.empty" by (force simp: db_repr_def)
  moreover have "kv_values Map.empty = Map.empty" by (simp add: kv_values_def live_def fun_eq_iff)
  ultimately show ?thesis using assms(2) by (auto simp: db_map_def)
qed

lemma kv_open_empty:
  assumes "calm (mc_world mc)" and "empty_dir (mc_world mc) (path_of (opt_Dir options))"
    and "opt_Dir options \<noteq> []" and "CHR 0x00 \<notin> set (opt_Dir options)"
  shows "\<exists>db w. kv_open options mc = Some (Inr db, mc\<lparr>mc_world := w, mc_logger := True\<rparr>) \<and> calm w
    \<and> db_inv w db [] [] \<and> db_Dir db = path_of (opt_Dir options)
    \<and> (\<forall>q. \<not> prefix (path_of (opt_Dir options)) q \<longrightarrow> file_at w q = file_at (mc_world mc) q)"
proof -
  let ?w = "mc_world mc" and ?d = "path_of (opt_Dir options)"
  have dir: "CreateDir (opt_Dir options) ?w = (None, ?w)"
    using IsValidDir_inverted [of "opt_Dir options" ?w] assms by (simp add: mkdir_all_string_def os_mkdir_all_def os_simps)
  have "tables_on ?w ?d []" using assms(2) by (simp add: tables_on_def empty_dir_def)
  moreover have "file_data ?w (wal_path_of ?d) = []" using assms(2) by (simp add: file_data_def empty_dir_def wal_path_of_def)
  ultimately obtain db w where op: "open_db options ?w = (Inr db, w)" "calm w"
    and ld: "db_loaded db ?d [] []" "tables_on w ?d []" "file_at w (wal_path_of ?d) = Some []"
    and keep: "\<forall>q. q \<noteq> wal_path_of ?d \<longrightarrow> file_at w q = file_at ?w q"
    using open_db_calm [of ?w ?d "[]" options "[]" EOF] assms(1) by (auto simp: codec.scan_nil)
  have d: "db_Dir db = ?d" using ld(1) by (simp add: db_loaded_def)
  have same: "file_at w q = file_at ?w q" if "\<not> prefix ?d q" for q
  proof -
    have "q \<noteq> wal_path_of ?d" using that by (auto simp: wal_path_of_def)
    then show ?thesis using keep by blast
  qed
  have "db_inv w db [] []" using ld d by (simp add: db_inv_def)
  then show ?thesis using op d same dir
    by (intro exI [of _ db] exI [of _ w]) (auto simp: kv_open_def DbOpen_def)
qed

text \<open>
  While \<open>free gs\<close> holds of the library's state, the nodes of the groups \<open>gs\<close> can be started one after
  the other.
\<close>

definition raft_dir :: "runtimeConfig \<Rightarrow> Group \<Rightarrow> string" where
  "raft_dir config grp = dd_raftDir (resolveGroupDataDirs (rt_dir config) (gp_ID grp))"

definition starts_groups :: "('n, 'e) raft_nodes \<Rightarrow> Config \<Rightarrow> runtimeConfig \<Rightarrow> (Group list \<Rightarrow> 'e \<Rightarrow> bool) \<Rightarrow> bool" where
  "starts_groups lib c config free \<longleftrightarrow>
     (\<forall>grp gs s addr peers. free (grp # gs) s \<longrightarrow> grp \<in> set (LocalGroups c (rt_nodeID config))
        \<longrightarrow> LocalRaftAddr c (gp_ID grp) (rt_nodeID config) = Inr addr \<longrightarrow> RaftPeersForGroup c (gp_ID grp) = Inr peers
        \<longrightarrow> (\<exists>node s'. rn_new lib (node_config config addr (raft_dir config grp) peers) s = (Inr node, s') \<and> free gs s'))"

text \<open>Ids and directories that name files.\<close>

definition group_path_ok :: "GroupID \<Rightarrow> bool" where
  "group_path_ok g \<longleftrightarrow> CHR ''/'' \<notin> set g \<and> CHR 0x00 \<notin> set g"

lemma engine_dir:
  assumes "group_path_ok g" and "CHR 0x00 \<notin> set (rt_dir config)"
  shows "opt_Dir (engine_options config g) \<noteq> []" and "CHR 0x00 \<notin> set (opt_Dir (engine_options config g))"
    and "path_of (opt_Dir (engine_options config g)) = path_of (rt_dir config) @ [''engine'', ''group-'' @ g]"
proof -
  let ?es = "[rt_dir config, ''engine'', ''group-'' @ g]"
  show "path_of (opt_Dir (engine_options config g)) = path_of (rt_dir config) @ [''engine'', ''group-'' @ g]"
    using group_dirs_paths(1) assms(1) by (simp add: engine_options_def group_path_ok_def)
  show "opt_Dir (engine_options config g) \<noteq> []"
    by (simp add: engine_options_def resolveGroupDataDirs_def Let_def path_Join_not_empty)
  have "CHR 0x00 \<notin> set (join_elems (filter (\<lambda>e. e \<noteq> []) ?es))" using assms by (auto simp: group_path_ok_def)
  then show "CHR 0x00 \<notin> set (opt_Dir (engine_options config g))"
    using Clean_chars [of "join_elems (filter (\<lambda>e. e \<noteq> []) ?es)"]
    by (auto simp: engine_options_def resolveGroupDataDirs_def Let_def path_Join_def split: if_splits)
qed

lemma newShardGroupRuntime_empty:
  assumes ok: "cluster_ok c" and g: "grp \<in> set (LocalGroups c (rt_nodeID config))" and lib: "starts_groups lib c config free"
    and free: "free (grp # gs) (mc_raft mc)" and gp: "group_path_ok (gp_ID grp)" and root: "CHR 0x00 \<notin> set (rt_dir config)"
    and w: "calm (mc_world mc)" "empty_dir (mc_world mc) (path_of (rt_dir config) @ [''engine'', ''group-'' @ gp_ID grp])"
  shows "\<exists>rt mc1 db. newShardGroupRuntime lib config c grp mc = Some (Inr rt, mc1) \<and> sg_db rt = Some db
    \<and> db_inv (mc_world mc1) db [] [] \<and> db_Dir db = path_of (rt_dir config) @ [''engine'', ''group-'' @ gp_ID grp]
    \<and> calm (mc_world mc1) \<and> free gs (mc_raft mc1)
    \<and> (\<forall>q. \<not> prefix (path_of (rt_dir config) @ [''engine'', ''group-'' @ gp_ID grp]) q
         \<longrightarrow> file_at (mc_world mc1) q = file_at (mc_world mc) q)"
proof -
  note dir = engine_dir [OF gp root]
  obtain db w1 where op: "kv_open (engine_options config (gp_ID grp)) mc = Some (Inr db, mc\<lparr>mc_world := w1, mc_logger := True\<rparr>)"
    and w1: "calm w1" "db_inv w1 db [] []" "db_Dir db = path_of (rt_dir config) @ [''engine'', ''group-'' @ gp_ID grp]"
      "\<forall>q. \<not> prefix (path_of (rt_dir config) @ [''engine'', ''group-'' @ gp_ID grp]) q \<longrightarrow> file_at w1 q = file_at (mc_world mc) q"
    using kv_open_empty [OF w(1) _ dir(1,2)] w(2) unfolding dir(3) by blast
  obtain addr peers where cfg: "LocalRaftAddr c (gp_ID grp) (rt_nodeID config) = Inr addr"
    "RaftPeersForGroup c (gp_ID grp) = Inr peers"
    "validateNodeConfig (node_config config addr (dd_raftDir (resolveGroupDataDirs (rt_dir config) (gp_ID grp))) peers) = None"
    using local_group_config [OF ok g] by blast
  obtain node s where "rn_new lib (node_config config addr (dd_raftDir (resolveGroupDataDirs (rt_dir config) (gp_ID grp))) peers)
      (mc_raft mc) = (Inr node, s)" "free gs s"
    using lib free g cfg(1,2) unfolding starts_groups_def raft_dir_def by blast
  then show ?thesis using op cfg(1,2) w1 by (simp add: newShardGroupRuntime_def Let_def engine_options_def)
qed

lemma parallel_prefix: "p \<parallel> d \<Longrightarrow> prefix d q \<Longrightarrow> \<not> prefix p q"
  using prefix_same_cases [of p q d] by auto

lemma open_groups_empty:
  assumes ok: "cluster_ok c" and lib: "starts_groups lib c config free" and root: "CHR 0x00 \<notin> set (rt_dir config)"
    and gs: "set gs \<subseteq> set (LocalGroups c (rt_nodeID config))" "distinct (map gp_ID gs)" "\<forall>g \<in> set gs. group_path_ok (gp_ID g)"
    and w: "calm (mc_world mc)" "free gs (mc_raft mc)"
      "\<forall>g \<in> set gs. empty_dir (mc_world mc) (path_of (rt_dir config) @ [''engine'', ''group-'' @ gp_ID g])"
    and opened: "\<forall>rt \<in> set runtimes. \<exists>db. sg_db rt = Some db \<and> db_inv (mc_world mc) db [] []
      \<and> (\<forall>g \<in> set gs. db_Dir db \<parallel> path_of (rt_dir config) @ [''engine'', ''group-'' @ gp_ID g])"
  shows "\<exists>rts mc1. open_groups lib config c gs runtimes mc = Some (Inr rts, mc1)
    \<and> (\<forall>rt \<in> set rts. \<exists>db. sg_db rt = Some db \<and> db_map (db, mc_world mc1) Map.empty)"
  using gs w opened
proof (induction gs arbitrary: runtimes mc)
  case Nil
  then show ?case using db_map_elsewhere by simp blast
next
  case (Cons g gs)
  let ?dir = "\<lambda>g. path_of (rt_dir config) @ [''engine'', ''group-'' @ gp_ID g]"
  obtain rt mc1 db where n: "newShardGroupRuntime lib config c g mc = Some (Inr rt, mc1)" and db: "sg_db rt = Some db"
    and inv: "db_inv (mc_world mc1) db [] []" "db_Dir db = ?dir g" and calm: "calm (mc_world mc1)"
    and free: "free gs (mc_raft mc1)"
    and keep: "\<forall>q. \<not> prefix (?dir g) q \<longrightarrow> file_at (mc_world mc1) q = file_at (mc_world mc) q"
    using newShardGroupRuntime_empty [OF ok _ lib Cons.prems(5) _ root] Cons.prems by (auto simp del: append_Cons)
  have apart: "?dir g \<parallel> ?dir h" if "h \<in> set gs" for h
  proof -
    have "gp_ID h \<noteq> gp_ID g" using Cons.prems(2) that by (auto simp: image_iff)
    then show ?thesis by (intro not_equal_is_parallel) auto
  qed
  note off = parallel_prefix [of "?dir g"]
  have "\<exists>rts mc2. open_groups lib config c gs (runtimes @ [rt]) mc1 = Some (Inr rts, mc2)
    \<and> (\<forall>rt \<in> set rts. \<exists>db. sg_db rt = Some db \<and> db_map (db, mc_world mc2) Map.empty)"
  proof (rule Cons.IH)
    show "set gs \<subseteq> set (LocalGroups c (rt_nodeID config))" "distinct (map gp_ID gs)" "\<forall>g \<in> set gs. group_path_ok (gp_ID g)"
      using Cons.prems by simp_all
    show "calm (mc_world mc1)" "free gs (mc_raft mc1)" by (rule calm free)+
    show "\<forall>g \<in> set gs. empty_dir (mc_world mc1) (?dir g)"
      using Cons.prems(6) apart off keep unfolding empty_dir_def by (metis list.set_intros(2))
    show "\<forall>rt \<in> set (runtimes @ [rt]). \<exists>db. sg_db rt = Some db \<and> db_inv (mc_world mc1) db [] []
        \<and> (\<forall>h \<in> set gs. db_Dir db \<parallel> ?dir h)"
    proof
      fix rt' assume rt': "rt' \<in> set (runtimes @ [rt])"
      show "\<exists>db. sg_db rt' = Some db \<and> db_inv (mc_world mc1) db [] [] \<and> (\<forall>h \<in> set gs. db_Dir db \<parallel> ?dir h)"
      proof (cases "rt' \<in> set runtimes")
        case True
        then obtain db' where db': "sg_db rt' = Some db'" "db_inv (mc_world mc) db' [] []"
          and par: "\<forall>h \<in> set (g # gs). db_Dir db' \<parallel> ?dir h"
          using Cons.prems(7) by blast
        have "\<not> prefix (?dir g) q" if "prefix (db_Dir db') q" for q
          using off [of "db_Dir db'" q] par that by (simp add: parallel_commute)
        then have "\<forall>q. prefix (db_Dir db') q \<longrightarrow> file_at (mc_world mc1) q = file_at (mc_world mc) q" using keep by blast
        then show ?thesis using db_map_elsewhere [OF db'(2) calm] db'(1) par by simp
      next
        case False
        then show ?thesis using rt' db inv apart by simp
      qed
    qed
  qed
  then show ?case using n by simp
qed

lemma replicas_start:
  assumes "Validate c = None" and "load (rt_clusterPath config) = Inr c" and "rt_clusterPath config \<noteq> []"
    and "rt_mode config = modeRaft" and "LocalGroups c (rt_nodeID config) \<noteq> []"
    and "\<forall>grp \<in> set (cc_Groups c). group_path_ok (gp_ID grp)" and "CHR 0x00 \<notin> set (rt_dir config)"
    and "mc_world mc = \<lparr>disk = [], faults = []\<rparr>" and "starts_groups lib c config free"
    and "free (LocalGroups c (rt_nodeID config)) (mc_raft mc)"
  shows "\<exists>rt mc1. newNodeRuntime lib load config mc = Some (Inr rt, mc1)
    \<and> map sg_groupID (nr_groups rt) = map gp_ID (LocalGroups c (rt_nodeID config))
    \<and> (\<forall>g \<in> set (nr_groups rt). sg_raftNode g \<noteq> None
         \<and> (\<exists>db. sg_db g = Some db \<and> db_map (db, mc_world mc1) Map.empty))"
proof -
  let ?gs = "LocalGroups c (rt_nodeID config)"
  have ok: "cluster_ok c" using assms(1) by (simp add: Validate_cluster_ok)
  obtain router where router: "ConfigNewRouter c = Inr router" using cluster_ok_router [OF ok] by blast
  obtain grp where "grp \<in> set ?gs" using assms(5) by (cases ?gs) auto
  then obtain replica where "grp \<in> set (cc_Groups c)" "replica \<in> set (gp_Replicas grp)" "gr_NodeID replica = rt_nodeID config"
    by (rule local_group [OF ok])
  then obtain node where node: "FindNode c (rt_nodeID config) = Inr node" using cluster_ok_home(1) [OF ok] by metis
  have "distinct (map gp_ID ?gs)" "\<forall>g \<in> set ?gs. group_path_ok (gp_ID g)"
    using ok assms(6) by (auto simp: cluster_ok_def LocalGroups_def distinct_map_filter)
  then obtain rts mc1 where op: "open_groups lib config c ?gs [] mc = Some (Inr rts, mc1)"
    and dbs: "\<forall>rt \<in> set rts. \<exists>db. sg_db rt = Some db \<and> db_map (db, mc_world mc1) Map.empty"
    using open_groups_empty [OF ok assms(9) assms(7) order_refl, of mc "[]"] assms(8,10)
    by (auto simp: empty_dir_def file_at_def)
  have all: "list_all2 (group_started lib config c) ?gs rts" using open_groups_result [OF ok op order_refl] by simp
  then have "\<forall>rt \<in> set rts. sg_raftNode rt \<noteq> None" by (induction rule: list_all2_induct) (auto simp: group_started_def)
  then show ?thesis
    using started_store(1) [OF ok assms(5) all] started_store(2) [OF ok assms(5) all, of router] op dbs assms(4)
      newRaftRuntime_valid [where lib = lib and mc = mc and load = load, OF ok assms(2,3) node assms(5) router]
    by (auto simp: newNodeRuntime_def)
qed

text \<open>A library that starts every node and counts them, for the witnesses.\<close>

definition example_nodes :: "(nat, nat multiset) raft_nodes" where
  "example_nodes = \<lparr>rn_new = (\<lambda>config s. (Inr 7, add_mset 7 s)), rn_close = (\<lambda>node s. (None, s - {#node#}))\<rparr>"

definition example_runtime :: runtimeConfig where
  "example_runtime = \<lparr>rt_mode = modeRaft, rt_addr = [], rt_dir = ''data'', rt_memTableSize = 64, rt_nodeID = ''n1'',
     rt_clusterPath = ''cluster.json'', rt_bootstrap = True\<rparr>"

lemma example_cluster_valid: "Validate example_cluster = None"
  unfolding Validate_cluster_ok by (auto simp: cluster_ok_def group_ok_def replica_ok_def example_cluster_def)

lemma example_groups:
  "LocalGroups example_cluster (rt_nodeID example_runtime) = cc_Groups example_cluster"
  "\<forall>grp \<in> set (cc_Groups example_cluster). group_path_ok (gp_ID grp)"
  by (simp_all add: example_cluster_def example_runtime_def LocalGroups_def group_path_ok_def)

definition example_machine :: "nat multiset machine" where
  "example_machine = \<lparr>mc_world = \<lparr>disk = [], faults = []\<rparr>, mc_logger = False, mc_raft = {#}\<rparr>"

lemmas example_hyps = example_cluster_valid example_groups example_machine_def example_nodes_def starts_groups_def

lemma example_start:
  "\<exists>rt mc1. newNodeRuntime example_nodes (\<lambda>p. Inr example_cluster) example_runtime example_machine = Some (Inr rt, mc1)"
proof -
  have "\<exists>rt mc1. newNodeRuntime example_nodes (\<lambda>p. Inr example_cluster) example_runtime example_machine = Some (Inr rt, mc1)
    \<and> map sg_groupID (nr_groups rt) = map gp_ID (LocalGroups example_cluster (rt_nodeID example_runtime))
    \<and> (\<forall>g \<in> set (nr_groups rt). sg_raftNode g \<noteq> None \<and> (\<exists>db. sg_db g = Some db \<and> db_map (db, mc_world mc1) Map.empty))"
    by (rule replicas_start [where free = "\<lambda>gs s. True"])
      (simp_all add: example_hyps, simp_all add: example_runtime_def example_cluster_def)
  then show ?thesis by blast
qed

section \<open>Properties\<close>

text \<open>
  A start leaks no raft node.  Whatever the disk and the library do: when the start of a node
  fails, the same raft nodes run as before, also when it fails after some groups were opened; when it
  succeeds, exactly the nodes of its groups run in addition, and closing the runtime stops these and
  leaves no open handle in it.
\<close>

lemma start_leaks_no_raft_node:
  assumes "counts_nodes lib running" and "newNodeRuntime lib load config mc = Some (r, mc1)"
  shows "case r of
      Inl e \<Rightarrow> running (mc_raft mc1) = running (mc_raft mc)
    | Inr rt \<Rightarrow> running (mc_raft mc1) = nodes_of (nr_groups rt) + running (mc_raft mc)
        \<and> (\<forall>mc2. running (mc_raft mc2) = running (mc_raft mc1) \<longrightarrow>
             (case closeRuntime lib (Some rt) mc2 of
                (rt', mc3) \<Rightarrow> running (mc_raft mc3) = running (mc_raft mc)
                  \<and> (\<forall>g \<in> set (nr_groups (the rt')). sg_raftNode g = None \<and> sg_db g = None)))"
proof -
  note start = newNodeRuntime_running [OF assms]
  show ?thesis using start closeRuntime_running [OF assms(1)] by (auto split: sum.splits prod.splits)
qed

lemma start_leaks_no_raft_node_witness:
  "\<exists>rt mc1. newNodeRuntime example_nodes (\<lambda>p. Inr example_cluster) example_runtime example_machine = Some (Inr rt, mc1)
    \<and> mc_raft mc1 = nodes_of (nr_groups rt) \<and> mc_raft (snd (closeRuntime example_nodes (Some rt) mc1)) = {#}"
proof -
  obtain rt mc1 where run: "newNodeRuntime example_nodes (\<lambda>p. Inr example_cluster) example_runtime example_machine = Some (Inr rt, mc1)"
    using example_start by blast
  have "counts_nodes example_nodes id" by (simp add: counts_nodes_def example_nodes_def)
  from start_leaks_no_raft_node [OF this run]
  have 1: "mc_raft mc1 = nodes_of (nr_groups rt)"
    and 2: "\<And>mc2. mc_raft mc2 = mc_raft mc1 \<Longrightarrow> (case closeRuntime example_nodes (Some rt) mc2 of
      (rt', mc3) \<Rightarrow> mc_raft mc3 = {#} \<and> (\<forall>g \<in> set (nr_groups (the rt')). sg_raftNode g = None \<and> sg_db g = None))"
    by (simp_all add: example_machine_def)
  have "mc_raft (snd (closeRuntime example_nodes (Some rt) mc1)) = {#}"
    using 2 [OF refl] by (cases "closeRuntime example_nodes (Some rt) mc1") simp
  with 1 show ?thesis using run by blast
qed

text \<open>
  After validation only the databases and the raft nodes can fail.  On a valid cluster, for a
  node that is a replica, the start of a raft runtime fails only with the error of opening a group's
  database or raft node; the router, the addresses, the peers and the sharded store never fail.  When
  it succeeds, the node listens on its client address, it has one runtime for each of its groups, in
  the order of the configuration, each opened in its own directories from a raft configuration that
  \<open>validateNodeConfig\<close> accepts, and the sharded store maps each group id to the store of its runtime.
\<close>

lemma raft_runtime_of_valid_cluster:
  assumes "Validate c = None" and "load (rt_clusterPath config) = Inr c" and "rt_clusterPath config \<noteq> []"
    and "FindNode c (rt_nodeID config) = Inr node" and "LocalGroups c (rt_nodeID config) \<noteq> []"
    and "newRaftRuntime lib load config mc = Some (r, mc1)"
  shows "case r of
      Inl e \<Rightarrow> \<exists>grp \<in> set (LocalGroups c (rt_nodeID config)). start_error grp e
    | Inr rt \<Rightarrow> nr_listenAddr rt = nd_ClientAddr node
        \<and> list_all2 (group_started lib config c) (LocalGroups c (rt_nodeID config)) (nr_groups rt)
        \<and> (\<exists>router store. ConfigNewRouter c = Inr router \<and> nr_router rt = Some router \<and> nr_store rt = Inr store
             \<and> ss_router store = Some router
             \<and> map_of (ss_groups store) = map_of (map (\<lambda>g. (sg_groupID g, sg_store g)) (nr_groups rt)))"
proof -
  let ?gs = "LocalGroups c (rt_nodeID config)"
  have ok: "cluster_ok c" using assms(1) by (simp add: Validate_cluster_ok)
  obtain router where router: "ConfigNewRouter c = Inr router" using cluster_ok_router [OF ok] by blast
  note start = assms(6) [unfolded newRaftRuntime_valid [where lib = lib and load = load, OF ok assms(2-5) router]]
  obtain r1 mc2 where gs: "open_groups lib config c ?gs [] mc = Some (r1, mc2)"
    using start by (cases "open_groups lib config c ?gs [] mc") auto
  note res = open_groups_result [OF ok gs order_refl]
  show ?thesis
  proof (cases r1)
    case (Inl e)
    then show ?thesis using res start gs by auto
  next
    case (Inr rts)
    then have all: "list_all2 (group_started lib config c) ?gs rts" using res by simp
    show ?thesis using started_store(2) [OF ok assms(5) all, of router] start gs Inr all router by auto
  qed
qed

lemma raft_runtime_of_valid_cluster_witness:
  "\<exists>rt mc1 g. newRaftRuntime example_nodes (\<lambda>p. Inr example_cluster) example_runtime example_machine = Some (Inr rt, mc1)
    \<and> nr_listenAddr rt = '':9001'' \<and> nr_groups rt = [g] \<and> sg_groupID g = ''g1''"
proof -
  obtain rt mc1 where "newNodeRuntime example_nodes (\<lambda>p. Inr example_cluster) example_runtime example_machine = Some (Inr rt, mc1)"
    using example_start by blast
  then have run: "newRaftRuntime example_nodes (\<lambda>p. Inr example_cluster) example_runtime example_machine = Some (Inr rt, mc1)"
    by (simp add: newNodeRuntime_def example_runtime_def)
  have "nr_listenAddr rt = '':9001'' \<and> list_all2 (group_started example_nodes example_runtime example_cluster)
      (LocalGroups example_cluster (rt_nodeID example_runtime)) (nr_groups rt)"
    using raft_runtime_of_valid_cluster [OF example_cluster_valid _ _ _ _ run, of "hd (cc_Nodes example_cluster)"]
    by (simp add: example_groups) (simp add: example_runtime_def example_cluster_def FindNode_def)
  moreover from this obtain g where "nr_groups rt = [g]" "sg_groupID g = gp_ID (hd (cc_Groups example_cluster))"
    unfolding example_groups by (auto simp: example_cluster_def list_all2_Cons1 group_started_def)
  moreover have "gp_ID (hd (cc_Groups example_cluster)) = ''g1''" by (simp add: example_cluster_def)
  ultimately show ?thesis using run by auto
qed

text \<open>
  What the replicas need of their host.  An address is usable if it resolves to one that can be bound
  and advertised; \<open>bound\<close> are the addresses and \<open>stores\<close> the directories of raft logs that are in use.
  The laws say that each call of \<open>NewNode\<close> succeeds if its own resource is free and valid, and that a
  node takes its own resources only.
\<close>

definition host_laws :: "('n, 'e) raft_host \<Rightarrow> (string \<Rightarrow> bool) \<Rightarrow> ('e \<Rightarrow> string set) \<Rightarrow> ('e \<Rightarrow> string set) \<Rightarrow> bool" where
  "host_laws host usable bound stores \<longleftrightarrow>
     (\<forall>config s. let cs = rh_calls host config s in
        call_MkdirAll cs = None \<and> call_NewFileSnapshotStore cs = None \<and> call_NewRaft cs = None
        \<and> (\<exists>hasState. call_HasExistingState cs = Inr hasState)
        \<and> (nc_RaftDir config \<notin> stores s \<longrightarrow> call_NewBoltStore cs = None)
        \<and> (usable (nc_RaftAddr config) \<longrightarrow> call_ResolveTCPAddr cs = None)
        \<and> (usable (nc_RaftAddr config) \<and> nc_RaftAddr config \<notin> bound s \<longrightarrow> call_NewTCPTransport cs = None)
        \<and> (distinct (map pe_ID (nc_Peers config)) \<and> distinct (map pe_RaftAddr (nc_Peers config))
             \<longrightarrow> call_BootstrapCluster cs = None))
     \<and> (\<forall>config trace s node s'. rh_after host config trace s = (node, s')
          \<longrightarrow> bound s' \<subseteq> insert (nc_RaftAddr config) (bound s) \<and> stores s' \<subseteq> insert (nc_RaftDir config) (stores s))"

definition raft_addr :: "Config \<Rightarrow> runtimeConfig \<Rightarrow> Group \<Rightarrow> string" where
  "raft_addr c config grp = (case LocalRaftAddr c (gp_ID grp) (rt_nodeID config) of Inl e \<Rightarrow> [] | Inr addr \<Rightarrow> addr)"

definition host_free ::
  "(string \<Rightarrow> bool) \<Rightarrow> ('e \<Rightarrow> string set) \<Rightarrow> ('e \<Rightarrow> string set) \<Rightarrow> Config \<Rightarrow> runtimeConfig \<Rightarrow> Group list \<Rightarrow> 'e \<Rightarrow> bool" where
  "host_free usable bound stores c config gs s \<longleftrightarrow>
     distinct (map (raft_addr c config) gs) \<and> distinct (map (raft_dir config) gs)
     \<and> (\<forall>grp \<in> set gs. usable (raft_addr c config grp) \<and> raft_addr c config grp \<notin> bound s \<and> raft_dir config grp \<notin> stores s)"

lemma local_peers:
  assumes "cluster_ok c" and "grp \<in> set (LocalGroups c i)" and "RaftPeersForGroup c (gp_ID grp) = Inr peers"
  shows "distinct (map pe_ID peers) \<and> distinct (map pe_RaftAddr peers)"
proof -
  have g: "grp \<in> set (cc_Groups c)" using assms(2) by (simp add: LocalGroups_def)
  then have "FindGroup c (gp_ID grp) = Inr grp" using FindGroup_distinct assms(1) by (simp add: cluster_ok_def)
  moreover have "group_ok c grp" using g assms(1) by (simp add: cluster_ok_def)
  ultimately show ?thesis using assms(3) by (auto simp: RaftPeersForGroup_def group_ok_def comp_def)
qed

lemma NewNode_starts:
  assumes laws: "host_laws host usable bound stores" and valid: "validateNodeConfig config = None"
    and free: "usable (nc_RaftAddr config)" "nc_RaftAddr config \<notin> bound s" "nc_RaftDir config \<notin> stores s"
    and peers: "distinct (map pe_ID (nc_Peers config))" "distinct (map pe_RaftAddr (nc_Peers config))"
  shows "\<exists>node s'. rn_new (host_nodes host) config s = (Inr node, s')
    \<and> bound s' \<subseteq> insert (nc_RaftAddr config) (bound s) \<and> stores s' \<subseteq> insert (nc_RaftDir config) (stores s)"
proof -
  let ?cs = "rh_calls host config s"
  have cs: "call_MkdirAll ?cs = None" "call_NewFileSnapshotStore ?cs = None" "call_NewRaft ?cs = None"
    "\<exists>hasState. call_HasExistingState ?cs = Inr hasState" "call_NewBoltStore ?cs = None" "call_ResolveTCPAddr ?cs = None"
    "call_NewTCPTransport ?cs = None" "call_BootstrapCluster ?cs = None"
    using laws free peers by (simp_all add: host_laws_def Let_def)
  obtain hasState where has: "call_HasExistingState ?cs = Inr hasState" using cs(4) by blast
  have "fst (NewNode config ?cs) = None"
    by (cases "nc_Bootstrap config"; cases hasState)
      (simp_all add: NewNode_def Let_def valid has cs(1-3) cs(5-8))
  then obtain trace where tr: "NewNode config ?cs = (None, trace)" by (metis prod.collapse)
  obtain node s' where after: "rh_after host config trace s = (node, s')" by (rule prod.exhaust)
  then have "bound s' \<subseteq> insert (nc_RaftAddr config) (bound s) \<and> stores s' \<subseteq> insert (nc_RaftDir config) (stores s)"
    using laws [unfolded host_laws_def, THEN conjunct2, rule_format] by simp
  then show ?thesis using tr after by (simp add: host_nodes_def)
qed

lemma host_starts_groups:
  assumes ok: "cluster_ok c" and laws: "host_laws host usable bound stores"
  shows "starts_groups (host_nodes host) c config (host_free usable bound stores c config)"
  unfolding starts_groups_def
proof (intro allI impI)
  fix grp gs s addr peers
  assume free: "host_free usable bound stores c config (grp # gs) s" and g: "grp \<in> set (LocalGroups c (rt_nodeID config))"
    and addr: "LocalRaftAddr c (gp_ID grp) (rt_nodeID config) = Inr addr" and peers: "RaftPeersForGroup c (gp_ID grp) = Inr peers"
  let ?nc = "node_config config addr (raft_dir config grp) peers"
  have valid: "validateNodeConfig ?nc = None" using local_group_config [OF ok g] addr peers by (auto simp: raft_dir_def)
  have a: "raft_addr c config grp = addr" using addr by (simp add: raft_addr_def)
  obtain node s' where n: "rn_new (host_nodes host) ?nc s = (Inr node, s')"
    "bound s' \<subseteq> insert addr (bound s)" "stores s' \<subseteq> insert (raft_dir config grp) (stores s)"
  proof -
    have fields: "nc_RaftAddr ?nc = addr" "nc_RaftDir ?nc = raft_dir config grp" "nc_Peers ?nc = peers"
      by (simp_all add: node_config_def)
    have "usable addr" "addr \<notin> bound s" "raft_dir config grp \<notin> stores s" using free a by (simp_all add: host_free_def)
    then show ?thesis
      using NewNode_starts [OF laws valid, of s] local_peers [OF ok g peers] that unfolding fields by blast
  qed
  have "x \<notin> bound s'" if "x \<notin> bound s" "x \<noteq> addr" for x using n(2) that by blast
  moreover have "x \<notin> stores s'" if "x \<notin> stores s" "x \<noteq> raft_dir config grp" for x using n(3) that by blast
  ultimately have "host_free usable bound stores c config gs s'"
    using free a by (simp add: host_free_def) (metis image_eqI)
  then show "\<exists>node s'. rn_new (host_nodes host) ?nc s = (Inr node, s') \<and> host_free usable bound stores c config gs s'"
    using n(1) by blast
qed

lemma raft_dirs_differ:
  assumes "distinct (map gp_ID gs)" and "\<forall>grp \<in> set gs. group_path_ok (gp_ID grp)"
  shows "distinct (map (raft_dir config) gs)"
proof -
  have path: "path_of (raft_dir config x) = path_of (rt_dir config) @ [''raft'', ''group-'' @ gp_ID x]" if "x \<in> set gs" for x
    unfolding raft_dir_def using group_dirs_paths(2) [of "gp_ID x" "rt_dir config"] assms(2) that by (simp add: group_path_ok_def)
  have "gp_ID x = gp_ID y" if "x \<in> set gs" "y \<in> set gs" and eq: "raft_dir config x = raft_dir config y" for x y
    using path [OF that(1)] path [OF that(2)] unfolding eq by simp
  note ids = this
  have inj: "inj_on gp_ID (set gs)" and "distinct gs" using assms(1) unfolding distinct_map by simp_all
  have "inj_on (raft_dir config) (set gs)"
    by (rule inj_onI) (rule inj_onD [OF inj ids])
  with \<open>distinct gs\<close> show ?thesis unfolding distinct_map by simp
qed

text \<open>
  C21: The replicas of a valid cluster start.  Take an empty disk without failures, a node of a valid
  cluster that is a replica of some group, ids without slashes and NUL bytes, and a host as above on
  which the raft addresses of the node's groups are usable, free and, what \<open>Validate\<close> does not check,
  different, and no raft log is open.  Then \<open>newNodeRuntime\<close> starts in raft mode: \<open>NewNode\<close> succeeds for
  each of the node's groups, and the databases of all of them are open and empty, since opening one
  does not disturb another.
\<close>

theorem replicas_start_on_an_empty_disk:
  assumes "Validate c = None" and "load (rt_clusterPath config) = Inr c" and "rt_clusterPath config \<noteq> []"
    and "rt_mode config = modeRaft" and "LocalGroups c (rt_nodeID config) \<noteq> []"
    and "\<forall>grp \<in> set (cc_Groups c). group_path_ok (gp_ID grp)" and "CHR 0x00 \<notin> set (rt_dir config)"
    and "mc_world mc = \<lparr>disk = [], faults = []\<rparr>"
    and "host_laws host usable bound stores" and "stores (mc_raft mc) = {}"
    and "distinct (map (raft_addr c config) (LocalGroups c (rt_nodeID config)))"
    and "\<forall>grp \<in> set (LocalGroups c (rt_nodeID config)). usable (raft_addr c config grp) \<and> raft_addr c config grp \<notin> bound (mc_raft mc)"
  shows "\<exists>rt mc1. newNodeRuntime (host_nodes host) load config mc = Some (Inr rt, mc1)
    \<and> map sg_groupID (nr_groups rt) = map gp_ID (LocalGroups c (rt_nodeID config))
    \<and> (\<forall>g \<in> set (nr_groups rt). sg_raftNode g \<noteq> None
         \<and> (\<exists>db. sg_db g = Some db \<and> db_map (db, mc_world mc1) Map.empty))"
proof -
  have ok: "cluster_ok c" using assms(1) by (simp add: Validate_cluster_ok)
  have "distinct (map gp_ID (LocalGroups c (rt_nodeID config)))"
    "\<forall>grp \<in> set (LocalGroups c (rt_nodeID config)). group_path_ok (gp_ID grp)"
    using ok assms(6) by (auto simp: cluster_ok_def LocalGroups_def distinct_map_filter)
  then have "host_free usable bound stores c config (LocalGroups c (rt_nodeID config)) (mc_raft mc)"
    using raft_dirs_differ assms(10-12) by (simp add: host_free_def)
  with assms(1-8) host_starts_groups [OF ok assms(9)] show ?thesis by (rule replicas_start)
qed

text \<open>A host on which every address but the empty one is usable; its state is the list of the nodes.\<close>

definition example_host :: "(string \<times> string, (string \<times> string) list) raft_host" where
  "example_host = \<lparr>
     rh_calls = (\<lambda>config s. \<lparr>call_MkdirAll = None,
       call_NewBoltStore = if nc_RaftDir config \<in> snd ` set s then Some (OsErr ''timeout'') else None,
       call_NewFileSnapshotStore = None,
       call_ResolveTCPAddr = if nc_RaftAddr config = [] then Some (OsErr ''missing address'') else None,
       call_NewTCPTransport = if nc_RaftAddr config \<in> fst ` set s then Some (OsErr ''address already in use'') else None,
       call_HasExistingState = Inr False, call_BootstrapCluster = None, call_NewRaft = None\<rparr>),
     rh_after = (\<lambda>config trace s.
       let node = (nc_RaftAddr config, nc_RaftDir config)
       in (node, if list_ex (\<lambda>ev. case ev of StartRaft a b \<Rightarrow> True | _ \<Rightarrow> False) trace then node # s else s)),
     rh_close = (\<lambda>node s. (None, remove1 node s))\<rparr>"

lemma example_host_laws: "host_laws example_host (\<lambda>addr. addr \<noteq> []) (\<lambda>s. fst ` set s) (\<lambda>s. snd ` set s)"
  by (auto simp: host_laws_def example_host_def Let_def)

theorem replicas_start_on_an_empty_disk_witness:
  "\<exists>rt mc1 g db. newNodeRuntime (host_nodes example_host) (\<lambda>p. Inr example_cluster) example_runtime
        \<lparr>mc_world = \<lparr>disk = [], faults = []\<rparr>, mc_logger = False, mc_raft = []\<rparr> = Some (Inr rt, mc1)
    \<and> nr_groups rt = [g] \<and> sg_groupID g = ''g1'' \<and> sg_raftNode g \<noteq> None \<and> sg_db g = Some db
    \<and> db_map (db, mc_world mc1) Map.empty"
proof -
  have gs: "LocalGroups example_cluster (rt_nodeID example_runtime) = cc_Groups example_cluster" by (rule example_groups)
  have addr: "raft_addr example_cluster example_runtime (hd (cc_Groups example_cluster)) = '':10001''"
    by (simp add: raft_addr_def LocalRaftAddr_def FindGroup_def example_cluster_def example_runtime_def)
  have "\<exists>rt mc1. newNodeRuntime (host_nodes example_host) (\<lambda>p. Inr example_cluster) example_runtime
        \<lparr>mc_world = \<lparr>disk = [], faults = []\<rparr>, mc_logger = False, mc_raft = []\<rparr> = Some (Inr rt, mc1)
    \<and> map sg_groupID (nr_groups rt) = map gp_ID (LocalGroups example_cluster (rt_nodeID example_runtime))
    \<and> (\<forall>g \<in> set (nr_groups rt). sg_raftNode g \<noteq> None
         \<and> (\<exists>db. sg_db g = Some db \<and> db_map (db, mc_world mc1) Map.empty))"
  proof (rule replicas_start_on_an_empty_disk [OF example_cluster_valid])
    show "host_laws example_host (\<lambda>addr. addr \<noteq> []) (\<lambda>s. fst ` set s) (\<lambda>s. snd ` set s)" by (rule example_host_laws)
  qed (use addr in \<open>simp_all add: gs example_groups\<close>, simp_all add: example_cluster_def example_runtime_def)
  then show ?thesis unfolding gs by (fastforce simp: example_cluster_def)
qed

end
