(* ===== verification/KV_Main.thy ===== *)
theory KV_Main
  imports KV_Startup KV_Rpc
begin

text \<open>
  The node's process (\<open>main\<close> of \<open>cmd/kv-node/main.go\<close>): the flags' defaults, the start, listening,
  serving until a signal or an error of the server, and the close.  What the command line sets, the
  port and the gRPC server are parameters; what the server does with the store is a parameter too, and
  a theorem about a standalone node fixes it to the handlers of \<open>internal/server/grpc/server.go\<close>.
\<close>

section \<open>The process\<close>

definition default_flags :: runtimeConfig where
  "default_flags = \<lparr>rt_mode = modeStandalone, rt_addr = '':9001'', rt_dir = ''/tmp/kv_store_demo/node'',
     rt_memTableSize = DefaultMemTableSize, rt_nodeID = '''', rt_clusterPath = '''', rt_bootstrap = False\<rparr>"

text \<open>What the \<open>select\<close> of \<open>main\<close> receives first.\<close>

datatype stop = Signal | ServeReturned "err option"

text \<open>How the process ends: with \<open>log.Fatalf\<close>, or by the end of \<open>main\<close>.\<close>

datatype node_exit = Fatal err | Exited

text \<open>
  The outside: what \<open>flag.Parse\<close> makes of the defaults, whether the port can be bound, what happens
  while the server runs, and while it is stopped gracefully.  Both return the runtime, whose databases
  have changed; \<open>'o\<close> is what the clients have seen.
\<close>

record ('n, 'e, 'o) node_host =
  nh_Parse :: "runtimeConfig \<Rightarrow> runtimeConfig"
  nh_Listen :: "string \<Rightarrow> err option"
  nh_Serve :: "'n nodeRuntime \<Rightarrow> 'e machine \<Rightarrow> stop \<times> 'o \<times> 'n nodeRuntime \<times> 'e machine"
  nh_GracefulStop :: "'n nodeRuntime \<Rightarrow> 'e machine \<Rightarrow> 'n nodeRuntime \<times> 'e machine"

text \<open>The end of the process, what was served, the closed runtime; \<open>None\<close> is the panic of \<open>Open\<close>.\<close>

definition kv_node_main ::
  "('n, 'e) raft_nodes \<Rightarrow> (string \<Rightarrow> err + Config) \<Rightarrow> ('n, 'e, 'o) node_host \<Rightarrow> 'e machine
    \<Rightarrow> (node_exit \<times> 'o option \<times> 'n nodeRuntime option \<times> 'e machine) option" where
  "kv_node_main lib load host mc =
     (case newNodeRuntime lib load (nh_Parse host default_flags) mc of
        None \<Rightarrow> None
      | Some (Inl err, mc1) \<Rightarrow> Some (Fatal (Wrapped ''start kv-node'' err), None, None, mc1)
      | Some (Inr runtime, mc1) \<Rightarrow>
          (case nh_Listen host (nr_listenAddr runtime) of
             Some err \<Rightarrow>
               (case closeRuntime lib (Some runtime) mc1 of
                  (closed, mc2) \<Rightarrow>
                    Some (Fatal (Wrapped (''listen '' @ nr_listenAddr runtime) err), None, closed, mc2))
           | None \<Rightarrow>
               (case nh_Serve host runtime mc1 of
                  (why, seen, runtime2, mc2) \<Rightarrow>
                    (case (case why of
                             Signal \<Rightarrow> nh_GracefulStop host runtime2 mc2
                           | ServeReturned err \<Rightarrow> (runtime2, mc2)) of
                       (runtime3, mc3) \<Rightarrow>
                         (case closeRuntime lib (Some runtime3) mc3 of
                            (closed, mc4) \<Rightarrow> Some (Exited, Some seen, closed, mc4))))))"

section \<open>No raft node outlives the process's end\<close>

text \<open>Serving and stopping the server change databases; they start and stop no raft node.\<close>

definition keeps_nodes :: "('n, 'e, 'o) node_host \<Rightarrow> ('e \<Rightarrow> 'n multiset) \<Rightarrow> bool" where
  "keeps_nodes host running \<longleftrightarrow>
     (\<forall>rt mc why seen rt' mc'. nh_Serve host rt mc = (why, seen, rt', mc') \<longrightarrow>
        running (mc_raft mc') = running (mc_raft mc) \<and> map sg_raftNode (nr_groups rt') = map sg_raftNode (nr_groups rt))
     \<and> (\<forall>rt mc rt' mc'. nh_GracefulStop host rt mc = (rt', mc') \<longrightarrow>
        running (mc_raft mc') = running (mc_raft mc) \<and> map sg_raftNode (nr_groups rt') = map sg_raftNode (nr_groups rt))"

lemma nodes_of_map: "map sg_raftNode gs = map sg_raftNode gs' \<Longrightarrow> nodes_of gs = nodes_of gs'"
  by (induction gs gs' rule: list_induct2') auto

text \<open>
  C16: The process leaves no raft node behind.  However \<open>main\<close> ends -- the start failed, the port could
  not be bound, the server returned or a signal came -- the same raft nodes run as before it, and no
  runtime has an open database or raft node of a group.  It is fatal exactly when the start or the
  binding of the port failed, and then it has served nothing.
\<close>

theorem node_main_cleans_up:
  assumes "counts_nodes lib running" and "keeps_nodes host running"
    and "kv_node_main lib load host mc = Some (exit, seen, rt, mc')"
  shows "running (mc_raft mc') = running (mc_raft mc)
    \<and> (case rt of None \<Rightarrow> True | Some r \<Rightarrow> \<forall>g \<in> set (nr_groups r). sg_raftNode g = None \<and> sg_db g = None)
    \<and> (exit = Exited \<longleftrightarrow> seen \<noteq> None)
    \<and> (exit = Exited \<longleftrightarrow> (\<exists>r1 mc1. newNodeRuntime lib load (nh_Parse host default_flags) mc = Some (Inr r1, mc1)
        \<and> nh_Listen host (nr_listenAddr r1) = None))"
proof -
  obtain r1 mc1 where start: "newNodeRuntime lib load (nh_Parse host default_flags) mc = Some (r1, mc1)"
    using assms(3) by (auto simp: kv_node_main_def split: option.splits)
  note running = newNodeRuntime_running [OF assms(1) start]
  show ?thesis
  proof (cases r1)
    case (Inl e)
    then show ?thesis using assms(3) start running by (auto simp: kv_node_main_def)
  next
    case (Inr r)
    show ?thesis
    proof (cases "nh_Listen host (nr_listenAddr r)")
      case (Some e)
      obtain closed mc2 where c: "closeRuntime lib (Some r) mc1 = (closed, mc2)" by (metis prod.exhaust)
      then show ?thesis using assms(3) start running Inr Some closeRuntime_running [OF assms(1) c]
        by (auto simp: kv_node_main_def split: option.splits)
    next
      case None
      obtain why s r2 mc2 where sv: "nh_Serve host r mc1 = (why, s, r2, mc2)" by (metis prod.exhaust)
      obtain r3 mc3 where gs: "(case why of Signal \<Rightarrow> nh_GracefulStop host r2 mc2 | ServeReturned err \<Rightarrow> (r2, mc2)) = (r3, mc3)"
        by (metis prod.exhaust)
      obtain closed mc4 where c: "closeRuntime lib (Some r3) mc3 = (closed, mc4)" by (metis prod.exhaust)
      have "running (mc_raft mc2) = running (mc_raft mc1) \<and> map sg_raftNode (nr_groups r2) = map sg_raftNode (nr_groups r)"
        using assms(2) sv unfolding keeps_nodes_def by blast
      moreover have "running (mc_raft mc3) = running (mc_raft mc2) \<and> map sg_raftNode (nr_groups r3) = map sg_raftNode (nr_groups r2)"
        using assms(2) gs by (cases why) (auto simp: keeps_nodes_def)
      ultimately have same: "running (mc_raft mc3) = running (mc_raft mc1)" "nodes_of (nr_groups r3) = nodes_of (nr_groups r)"
        using nodes_of_map [of "nr_groups r3" "nr_groups r"] by simp_all
      have "exit = Exited" "seen = Some s" "rt = closed" "mc' = mc4"
        using assms(3) start Inr None sv gs c by (simp_all add: kv_node_main_def)
      then show ?thesis using running Inr None start same closeRuntime_running [OF assms(1) c]
        by (auto split: option.splits)
    qed
  qed
qed

text \<open>A node of the example cluster that is stopped by a signal, and one whose port is taken.\<close>

definition example_host :: "err option \<Rightarrow> (nat, nat multiset, unit) node_host" where
  "example_host busy = \<lparr>nh_Parse = (\<lambda>flags. example_runtime), nh_Listen = (\<lambda>a. busy),
     nh_Serve = (\<lambda>rt mc. (Signal, (), rt, mc)), nh_GracefulStop = Pair\<rparr>"

theorem node_main_cleans_up_witness:
  "(\<exists>rt mc'. kv_node_main example_nodes (\<lambda>p. Inr example_cluster) (example_host None) example_machine
       = Some (Exited, Some (), rt, mc') \<and> mc_raft mc' = {#})
   \<and> (\<exists>e rt mc'. kv_node_main example_nodes (\<lambda>p. Inr example_cluster) (example_host (Some EOF)) example_machine
       = Some (Fatal e, None, rt, mc') \<and> mc_raft mc' = {#})"
proof -
  have lib: "counts_nodes example_nodes id" by (simp add: counts_nodes_def example_nodes_def)
  have host: "keeps_nodes (example_host busy) id" for busy by (simp add: keeps_nodes_def example_host_def)
  obtain rt mc1 where start: "newNodeRuntime example_nodes (\<lambda>p. Inr example_cluster) example_runtime example_machine
      = Some (Inr rt, mc1)"
    using example_start by blast
  have "\<exists>x s rt' mc'. kv_node_main example_nodes (\<lambda>p. Inr example_cluster) (example_host busy) example_machine
      = Some (x, s, rt', mc')" for busy
    using start by (auto simp: kv_node_main_def example_host_def split: option.splits prod.splits)
  then obtain x s rt' mc' y t rt2 mc2 where
    a: "kv_node_main example_nodes (\<lambda>p. Inr example_cluster) (example_host None) example_machine = Some (x, s, rt', mc')"
    and b: "kv_node_main example_nodes (\<lambda>p. Inr example_cluster) (example_host (Some EOF)) example_machine = Some (y, t, rt2, mc2)"
    by metis
  have host_simps: "nh_Parse (example_host busy) default_flags = example_runtime"
    "nh_Listen (example_host busy) z = busy" for busy z
    by (simp_all add: example_host_def)
  note c = node_main_cleans_up [OF lib host a, unfolded host_simps start]
    and d = node_main_cleans_up [OF lib host b, unfolded host_simps start]
  from c have "x = Exited" "s \<noteq> None" "mc_raft mc' = {#}" by (auto simp: example_machine_def)
  moreover from d have "y \<noteq> Exited" "t = None" "mc_raft mc2 = {#}" by (cases t; auto simp: example_machine_def)+
  ultimately show ?thesis using a b by (cases y) auto
qed

section \<open>A standalone node keeps its data\<close>

text \<open>
  The directory of a closed database: \<open>n\<close> bounds the number of its tables.
\<close>

definition kept_at :: "Options \<Rightarrow> nat \<Rightarrow> world \<Rightarrow> (bytes \<rightharpoonup> bytes) \<Rightarrow> bool" where
  "kept_at options n w a \<longleftrightarrow>
     calm w \<and> (\<exists>rss ls. tables_on w (path_of (opt_Dir options)) rss \<and> length rss \<le> n
       \<and> file_data w (wal_path_of (path_of (opt_Dir options))) = frames ls \<and> recs_ok ls
       \<and> kv_values (newest (concat rss) ++ newest ls) = a)"

lemma kept_at_empty: "kept_at options 0 \<lparr>disk = [], faults = []\<rparr> Map.empty"
  unfolding kept_at_def
  by (intro conjI exI [of _ "[]"])
    (auto simp: tables_on_def file_at_def file_data_def kv_values_def live_def fun_eq_iff)

lemma kept_at_open:
  assumes "kept_at options n w a" and "n \<le> 10000"
  shows "\<exists>db w'. open_db options w = (Inr db, w') \<and> store_at options n db w' a"
proof -
  let ?d = "path_of (opt_Dir options)"
  obtain rss ls where c: "calm w" and on: "tables_on w ?d rss" and n: "length rss \<le> n"
    and wal: "file_data w (wal_path_of ?d) = frames ls" and ok: "recs_ok ls"
    and a: "kv_values (newest (concat rss) ++ newest ls) = a"
    using assms(1) by (auto simp: kept_at_def)
  have "scan Decode (file_data w (wal_path_of ?d)) = (ls, EOF)" using wal codec.scan_frames [OF ok] by simp
  moreover have "length rss \<le> 10000" using n assms(2) by simp
  ultimately obtain db w' where op: "open_db options w = (Inr db, w')" and c': "calm w'"
    and ld: "db_loaded db ?d rss ls" and on': "tables_on w' ?d rss"
    and wal': "file_at w' (wal_path_of ?d) = Some (file_data w (wal_path_of ?d))"
    using open_db_calm [OF c on _ refl _ _ ok] by blast
  have dir: "db_Dir db = ?d" using ld by (simp add: db_loaded_def)
  have "db_inv w' db rss ls" using ld on' wal' wal dir by (simp add: db_inv_def)
  then have "db_repr w' db (newest (concat rss) ++ newest ls)" unfolding db_repr_def by blast
  moreover have "db_SstablesNum db \<le> int n" using ld n by (simp add: db_loaded_def tables_open_def)
  ultimately have "store_at options n db w' a" using c' dir a by (auto simp: store_at_def)
  then show ?thesis using op by blast
qed

lemma kept_at_close:
  assumes "store_at options n db w a"
  shows "\<exists>db' w'. DbClose db w = (None, db', w') \<and> kept_at options (Suc n) w' a \<and> db_closed db'"
proof -
  obtain rss ls where inv: "db_inv w db rss ls" and a: "kv_values (newest (concat rss) ++ newest ls) = a"
    and c: "calm w" and d: "db_Dir db = path_of (opt_Dir options)" and n: "db_SstablesNum db \<le> int n"
    using assms by (auto simp: store_at_def db_repr_def)
  have "length rss \<le> n" using inv n by (simp add: db_inv_def db_loaded_def tables_open_def)
  then show ?thesis using DbClose_calm [OF c inv] a unfolding d kept_at_def
    by (fastforce simp: file_data_def)
qed

text \<open>\<open>Open\<close> of a directory that has a name.\<close>

lemma DbOpen_named:
  assumes "opt_Dir options \<noteq> []" and "CHR 0x00 \<notin> set (opt_Dir options)" and "calm w"
  shows "DbOpen logger options w = apfst Some (open_db options w)"
proof -
  have "CreateDir (opt_Dir options) w = (None, w)"
    using IsValidDir_inverted [of "opt_Dir options" w] assms by (simp add: mkdir_all_string_def os_mkdir_all_def os_simps)
  then show ?thesis by (simp add: DbOpen_def apfst_def map_prod_def split: prod.splits)
qed

text \<open>A request to a standalone store adds at most one table.\<close>

lemma store_at_request:
  assumes "store_at options n db w a" and "request_valid r"
  shows "\<exists>x db' w'. serve standaloneStore ctx r (db, w) = Some (x, db', w') \<and> answers r a x
    \<and> store_at options (Suc n) db' w' (spec_request r a)"
proof -
  have later: "store_at options (Suc n) db w a" using assms(1) by (auto simp: store_at_def)
  have op: "\<not> db_closed db" using assms(1) db_repr_closed by (auto simp: store_at_def)
  show ?thesis
  proof (cases r)
    case (ReqPut k v)
    then show ?thesis using store_at_put [OF assms(1), of k v] assms(2) later
      by (cases "k = []") (auto simp: standalone_defs DbPut_def)
  next
    case (ReqGet k)
    then show ?thesis using store_at_get [OF assms(1), of k] later
      by (cases "k = []") (auto simp: standalone_defs DbGet_def)
  next
    case (ReqDelete k)
    then show ?thesis using store_at_delete [OF assms(1), of k] assms(2) later
      by (cases "k = []") (auto simp: standalone_defs DbDelete_def)
  next
    case ReqFlush
    then show ?thesis using store_at_flush [OF assms(1)] by (auto simp: standalone_defs)
  next
    case ReqCompact
    then show ?thesis using store_at_compact [OF assms(1)] by (auto simp: standalone_defs)
  qed
qed

lemma store_at_requests:
  assumes "store_at options n db w a" and "\<forall>r \<in> set rs. request_valid r"
  shows "\<exists>xs db' w'. serve_all standaloneStore ctx rs (db, w) = Some (xs, db', w') \<and> all_answered rs a xs
    \<and> store_at options (n + length rs) db' w' (fold spec_request rs a)"
  using assms
proof (induction rs arbitrary: n db w a)
  case (Cons r rs)
  obtain x db1 w1 where 1: "serve standaloneStore ctx r (db, w) = Some (x, db1, w1)" "answers r a x"
    and st: "store_at options (Suc n) db1 w1 (spec_request r a)"
    using store_at_request [OF Cons.prems(1), of r ctx] Cons.prems(2) by auto
  show ?case using Cons.IH [OF st] Cons.prems(2) 1 by auto
qed simp

text \<open>
  \<open>Register\<close> puts the handlers of the server in front of the store: a request that gRPC delivers is not
  nil.
\<close>

definition registered :: "'s store_ops \<Rightarrow> 's store_ops" where
  "registered store = \<lparr>so_Put = (\<lambda>ctx k v. ServerPut store ctx (Some (k, v))),
     so_Get = (\<lambda>ctx k. ServerGet store ctx (Some k)), so_Delete = (\<lambda>ctx k. ServerDelete store ctx (Some k)),
     so_Flush = (\<lambda>ctx. ServerFlush store ctx (Some ())), so_Compact = (\<lambda>ctx. ServerCompact store ctx (Some ()))\<rparr>"

fun reply_status :: "reply \<Rightarrow> reply" where
  "reply_status (Done e) = Done (server_mapError e)"
| "reply_status (Got (Inl e)) = Got (Inl (the (server_mapError (Some e))))"
| "reply_status (Got (Inr g)) = Got (Inr g)"

lemma serve_registered:
  "serve (registered store) ctx r s = map_option (apfst reply_status) (serve store ctx r s)"
  by (cases r) (auto simp: registered_def ServerPut_def ServerGet_def ServerDelete_def ServerFlush_def
      ServerCompact_def server_mapError_def apfst_def map_prod_def split: option.splits prod.splits sum.splits)

lemma serve_all_registered:
  "serve_all (registered store) ctx rs s = map_option (apfst (map reply_status)) (serve_all store ctx rs s)"
proof (induction rs arbitrary: s)
  case (Cons r rs)
  have "map_option (apfst (Cons (reply_status x))) (map_option (apfst (map reply_status)) y)
      = map_option (apfst (map reply_status)) (map_option (apfst (Cons x)) y)" for x and y :: "(reply list \<times> 'a) option"
    by (cases y) (auto simp: apfst_def map_prod_def)
  then show ?case using Cons by (cases "serve store ctx r s") (auto simp: serve_registered)
qed simp

text \<open>
  A server on a standalone runtime: the handlers answer the requests, one after the other, until the
  \<open>select\<close> of \<open>main\<close> receives something.
\<close>

definition serves :: "Context \<Rightarrow> request list \<Rightarrow> ('n, 'e, reply list) node_host \<Rightarrow> bool" where
  "serves ctx reqs host \<longleftrightarrow>
     (\<forall>rt mc db xs db' w'. nr_store rt = Inl db \<longrightarrow>
        serve_all (registered standaloneStore) ctx reqs (db, mc_world mc) = Some (xs, db', w') \<longrightarrow>
        (\<exists>why. nh_Serve host rt mc = (why, xs, rt\<lparr>nr_store := Inl db', nr_db := Some db'\<rparr>, mc\<lparr>mc_world := w'\<rparr>)))
     \<and> (\<forall>rt mc. nh_GracefulStop host rt mc = (rt, mc))"

definition standalone_options :: "runtimeConfig \<Rightarrow> Options" where
  "standalone_options config =
     \<lparr>opt_Dir = rt_dir config, opt_sstDir = [], opt_MemTableSize = rt_memTableSize config\<rparr>"

text \<open>
  C17: A standalone node keeps its data from one run to the next.  On a directory that holds a map, the
  process of a standalone node serves any valid requests, each answered from the map at its time, with
  errors turned into statuses by the server's handlers; when it ends, also with an error of the server,
  the directory holds the map after these requests, so the next run starts from there.
\<close>

theorem standalone_node_keeps_data:
  assumes "nh_Parse host default_flags = config" and "rt_mode config = modeStandalone"
    and "rt_dir config \<noteq> []" and "CHR 0x00 \<notin> set (rt_dir config)" and "nh_Listen host (rt_addr config) = None"
    and "serves ctx reqs host" and "\<forall>r \<in> set reqs. request_valid r"
    and "kept_at (standalone_options config) n (mc_world mc) a" and "n \<le> 10000"
  shows "\<exists>xs rt mc'. kv_node_main lib load host mc = Some (Exited, Some (map reply_status xs), rt, mc')
    \<and> all_answered reqs a xs
    \<and> kept_at (standalone_options config) (Suc (n + length reqs)) (mc_world mc') (fold spec_request reqs a)"
proof -
  let ?o = "standalone_options config"
  obtain db w where op: "open_db ?o (mc_world mc) = (Inr db, w)" and st: "store_at ?o n db w a"
    using kept_at_open [OF assms(8,9)] by blast
  have "DbOpen (mc_logger mc) ?o (mc_world mc) = (Some (Inr db), w)"
    using DbOpen_named [of ?o "mc_world mc" "mc_logger mc"] assms(3,4,8) op
    by (simp add: standalone_options_def kept_at_def)
  then have start: "newNodeRuntime lib load config mc
      = Some (Inr \<lparr>nr_listenAddr = rt_addr config, nr_store = Inl db, nr_db = Some db, nr_groups = [], nr_router = None\<rparr>,
              mc\<lparr>mc_world := w, mc_logger := True\<rparr>)"
    using assms(2) by (simp add: newNodeRuntime_def newStandaloneRuntime_def kv_open_def standalone_options_def)
  let ?rt = "\<lparr>nr_listenAddr = rt_addr config, nr_store = Inl db, nr_db = Some db, nr_groups = [], nr_router = None\<rparr>"
  let ?mc = "mc\<lparr>mc_world := w, mc_logger := True\<rparr>"
  obtain xs db' w' where sv: "serve_all standaloneStore ctx reqs (db, w) = Some (xs, db', w')"
    and ans: "all_answered reqs a xs" and st': "store_at ?o (n + length reqs) db' w' (fold spec_request reqs a)"
    using store_at_requests [OF st assms(7)] by blast
  have "serve_all (registered standaloneStore) ctx reqs (db, mc_world ?mc) = Some (map reply_status xs, db', w')"
    using sv by (simp add: serve_all_registered)
  moreover have "nr_store ?rt = Inl db" by simp
  ultimately obtain why where run: "nh_Serve host ?rt ?mc
      = (why, map reply_status xs, ?rt\<lparr>nr_store := Inl db', nr_db := Some db'\<rparr>, ?mc\<lparr>mc_world := w'\<rparr>)"
    using assms(6) unfolding serves_def by blast
  obtain db'' w'' where cl: "DbClose db' w' = (None, db'', w'')"
    and kept: "kept_at ?o (Suc (n + length reqs)) w'' (fold spec_request reqs a)"
    using kept_at_close [OF st'] by blast
  have stop: "nh_GracefulStop host rt mc = (rt, mc)" for rt mc using assms(6) by (simp add: serves_def)
  show ?thesis using assms(1,5) start run stop cl kept ans
    by (cases why) (auto simp: kv_node_main_def closeRuntime_def kv_close_def)
qed

text \<open>
  Two runs of a node on an empty disk: the first stores a value and ends with a signal, the second reads
  it and ends with the error of its server; an empty key gets a status.
\<close>

definition request_host :: "stop \<Rightarrow> request list \<Rightarrow> (nat, nat multiset, reply list) node_host" where
  "request_host why reqs = \<lparr>nh_Parse = id, nh_Listen = (\<lambda>a. None),
     nh_Serve = (\<lambda>rt mc. case nr_store rt of
          Inr s \<Rightarrow> (why, [], rt, mc)
        | Inl db \<Rightarrow>
            (case serve_all (registered standaloneStore) Background reqs (db, mc_world mc) of
               None \<Rightarrow> (why, [], rt, mc)
             | Some (xs, db', w') \<Rightarrow> (why, xs, rt\<lparr>nr_store := Inl db', nr_db := Some db'\<rparr>, mc\<lparr>mc_world := w'\<rparr>))),
     nh_GracefulStop = Pair\<rparr>"

theorem standalone_node_keeps_data_witness:
  "\<exists>rt mc1 rt2 mc2.
     kv_node_main example_nodes (\<lambda>p. Inl EOF) (request_host Signal [ReqPut [1] [2]]) example_machine
       = Some (Exited, Some [Done None], rt, mc1)
   \<and> kv_node_main example_nodes (\<lambda>p. Inl EOF) (request_host (ServeReturned (Some EOF)) [ReqGet [1], ReqPut [] [3]]) mc1
       = Some (Exited, Some [Got (Inr (Some [2])), Done (Some (StatusError InvalidArgument (error_string ErrEmptyKey)))], rt2, mc2)"
proof -
  have serves: "serves Background reqs (request_host why reqs)" for why reqs
    by (auto simp: serves_def request_host_def)
  have host: "nh_Parse (request_host why reqs) default_flags = default_flags"
    "nh_Listen (request_host why reqs) (rt_addr default_flags) = None" for why reqs
    by (simp_all add: request_host_def)
  have flags: "rt_mode default_flags = modeStandalone" "rt_dir default_flags \<noteq> []" "CHR 0x00 \<notin> set (rt_dir default_flags)"
    by (simp_all add: default_flags_def)
  note run = standalone_node_keeps_data [OF host(1) flags host(2) serves, where lib = example_nodes and load = "\<lambda>p. Inl EOF"]
  let ?o = "standalone_options default_flags"
  have "kept_at ?o 0 (mc_world example_machine) Map.empty" by (simp add: example_machine_def kept_at_empty)
  from run [OF _ this, of "[ReqPut [1] [2]]" Signal]
  obtain xs rt mc1 where 1: "kv_node_main example_nodes (\<lambda>p. Inl EOF) (request_host Signal [ReqPut [1] [2]]) example_machine
      = Some (Exited, Some (map reply_status xs), rt, mc1)" "all_answered [ReqPut [1] [2]] Map.empty xs"
    and kept: "kept_at ?o 2 (mc_world mc1) [[1] \<mapsto> [2]]"
    by (auto simp: MaxUint32_def numeral_2_eq_2)
  from run [OF _ kept, of "[ReqGet [1], ReqPut [] [3]]" "ServeReturned (Some EOF)"]
  obtain ys rt2 mc2 where 2: "kv_node_main example_nodes (\<lambda>p. Inl EOF)
        (request_host (ServeReturned (Some EOF)) [ReqGet [1], ReqPut [] [3]]) mc1
      = Some (Exited, Some (map reply_status ys), rt2, mc2)"
    "all_answered [ReqGet [1], ReqPut [] [3]] [[1] \<mapsto> [2]] ys"
    by (auto simp: MaxUint32_def)
  have "xs = [Done None]" using 1(2) by (auto simp: answered)
  moreover have "ys = [Got (Inr (Some [2])), Done (Some ErrEmptyKey)]" using 2(2) by (auto simp: answered)
  ultimately show ?thesis using 1(1) 2(1)
    by (intro exI [of _ rt] exI [of _ mc1] exI [of _ rt2] exI [of _ mc2]) (simp add: server_mapError_def)
qed

end
