(* ===== verification/KV_Example.thy ===== *)
theory KV_Example
  imports KV_Process KV_Main
begin

text \<open>
  The example of the embedded database (\<open>example/simple_example.go\<close>): a thousand users written, updated
  and deleted, flushed, compacted, and checked after each restart.  The logger is not modelled.
\<close>

section \<open>State\<close>

definition dataDir :: string where "dataDir = ''/tmp/kv_store_demo/example_data''"
definition userCount :: nat where "userCount = 1000"
definition memTableSize :: "64 word" where "memTableSize = 8 * 1024"

text \<open>The open database (none: the variable is nil), and the machine with its disk.\<close>

record example_state = console +
  ex_db :: "DB option"
  ex_machine :: "unit machine"

type_synonym 'a example = "('a, example_state) command"

definition example_options :: Options where
  "example_options = \<lparr>opt_Dir = dataDir, opt_sstDir = [], opt_MemTableSize = memTableSize\<rparr>"

definition mustOpen :: "unit example" where
  "mustOpen s =
     (case kv_open example_options (ex_machine s) of
        None \<Rightarrow> None
      | Some (Inl err, mc) \<Rightarrow> log_Fatal (''open db: '' @ error_string err) (s\<lparr>ex_machine := mc\<rparr>)
      | Some (Inr db, mc) \<Rightarrow> cmd_return () (s\<lparr>ex_db := Some db, ex_machine := mc\<rparr>))"

text \<open>A call of a method of the database; a nil database panics.\<close>

definition call_db :: "(DB \<Rightarrow> world \<Rightarrow> ('a \<times> DB \<times> world) option) \<Rightarrow> 'a example" where
  "call_db f s =
     (case ex_db s of
        None \<Rightarrow> None
      | Some db \<Rightarrow>
          (case f db (mc_world (ex_machine s)) of
             None \<Rightarrow> None
           | Some (r, db', w') \<Rightarrow>
               cmd_return r (s\<lparr>ex_db := Some db', ex_machine := (ex_machine s)\<lparr>mc_world := w'\<rparr>\<rparr>)))"

definition mustPut :: "string \<Rightarrow> string \<Rightarrow> unit example" where
  "mustPut key value = must (''put '' @ quote key) (call_db (\<lambda>db w. Some (DbPut (string_bytes key) (string_bytes value) db w)))"

definition mustDelete :: "string \<Rightarrow> unit example" where
  "mustDelete key = must (''delete '' @ quote key) (call_db (\<lambda>db w. Some (DbDelete (string_bytes key) db w)))"

definition mustFlush :: "unit example" where
  "mustFlush = must ''flush'' (call_db (\<lambda>db w. Some (DbFlush db w)))"

definition mustCompact :: "unit example" where
  "mustCompact = must ''compact'' (call_db DbCompact)"

definition mustClose :: "unit example" where
  "mustClose = must ''close db'' (call_db (\<lambda>db w. Some (DbClose db w)))"

definition exGet :: "string \<Rightarrow> (err + bytes option) example" where
  "exGet key = call_db (\<lambda>db w. case DbGet (string_bytes key) db w of (r, w') \<Rightarrow> Some (r, db, w'))"

definition assertValue :: "string \<Rightarrow> string \<Rightarrow> unit example" where
  "assertValue key want =
     cmd_bind (exGet key) (\<lambda>r.
       case r of
         Inl err \<Rightarrow> log_Fatal (''get '' @ quote key @ '': '' @ error_string err)
       | Inr got \<Rightarrow>
           if slice got \<noteq> string_bytes want
           then log_Fatal (''get '' @ quote key @ '' = '' @ quote (bytes_text got) @ '', want '' @ quote want)
           else cmd_return ())"

definition assertEmpty :: "string \<Rightarrow> unit example" where
  "assertEmpty key =
     cmd_bind (exGet key) (\<lambda>r.
       case r of
         Inl err \<Rightarrow> log_Fatal (''get '' @ quote key @ '': '' @ error_string err)
       | Inr got \<Rightarrow>
           if length (slice got) \<noteq> 0
           then log_Fatal (''get '' @ quote key @ '' = '' @ quote (bytes_text got) @ '', want empty or missing'')
           else cmd_return ())"

definition countSSTables :: "nat example" where
  "countSSTables s =
     (case os_read_dir (path_of (path_Join [dataDir, ''sst''])) (mc_world (ex_machine s)) of
        (r, w) \<Rightarrow>
          cmd_return (case r of
                        Inl err \<Rightarrow> 0
                      | Inr entries \<Rightarrow> length (filter (\<lambda>(nm, is_dir). \<not> is_dir \<and> path_Ext nm = ''.sst'') entries))
            (s\<lparr>ex_machine := (ex_machine s)\<lparr>mc_world := w\<rparr>\<rparr>))"

section \<open>The workload\<close>

definition userNameKey :: "nat \<Rightarrow> string" where "userNameKey i = ''user:'' @ padded 4 i @ '':name''"
definition userEmailKey :: "nat \<Rightarrow> string" where "userEmailKey i = ''user:'' @ padded 4 i @ '':email''"
definition userStatusKey :: "nat \<Rightarrow> string" where "userStatusKey i = ''user:'' @ padded 4 i @ '':status''"
definition initialName :: "nat \<Rightarrow> string" where "initialName i = ''name-'' @ padded 4 i"
definition updatedName :: "nat \<Rightarrow> string" where "updatedName i = ''updated-name-'' @ padded 4 i"
definition email :: "nat \<Rightarrow> string" where "email i = ''user'' @ padded 4 i @ ''@example.com''"

definition insertUsers :: "nat example" where
  "insertUsers =
     cmd_fold (\<lambda>i writes.
         cmd_bind (cmds [mustPut (userNameKey i) (initialName i),
                         mustPut (userEmailKey i) (email i),
                         mustPut (userStatusKey i) ''active'']) (\<lambda>u. cmd_return (writes + 3)))
       (for_values 1 userCount 1) 0"

definition updateEveryTenthUserName :: "nat example" where
  "updateEveryTenthUserName =
     cmd_fold (\<lambda>i updates. cmd_bind (mustPut (userNameKey i) (updatedName i)) (\<lambda>u. cmd_return (updates + 1)))
       (for_values 10 userCount 10) 0"

definition deleteEveryFifteenthStatus :: "nat example" where
  "deleteEveryFifteenthStatus =
     cmd_fold (\<lambda>i deletes. cmd_bind (mustDelete (userStatusKey i)) (\<lambda>u. cmd_return (deletes + 1)))
       (for_values 15 userCount 15) 0"

definition verifySamples :: "unit example" where
  "verifySamples = cmds
     [assertValue (userNameKey 1) (initialName 1),
      assertValue (userEmailKey 500) (email 500),
      assertValue (userStatusKey 1000) ''active'',
      assertValue (userNameKey 10) (updatedName 10),
      assertValue (userNameKey 11) (initialName 11),
      assertEmpty (userStatusKey 15),
      assertValue (userStatusKey 16) ''active'']"

section \<open>The program\<close>

definition clean_start :: "unit example" where
  "clean_start s =
     (case os_remove_all (path_of dataDir) (mc_world (ex_machine s)) of
        (Some err, w) \<Rightarrow> log_Fatal (''clean data dir: '' @ error_string err) (s\<lparr>ex_machine := (ex_machine s)\<lparr>mc_world := w\<rparr>\<rparr>)
      | (None, w) \<Rightarrow>
          (case os_mkdir_all (butlast (path_of dataDir)) w of
             (Some err, w1) \<Rightarrow>
               log_Fatal (''create parent dir: '' @ error_string err) (s\<lparr>ex_machine := (ex_machine s)\<lparr>mc_world := w1\<rparr>\<rparr>)
           | (None, w1) \<Rightarrow> cmd_return () (s\<lparr>ex_machine := (ex_machine s)\<lparr>mc_world := w1\<rparr>\<rparr>)))"

definition print_count :: "string \<Rightarrow> unit example" where
  "print_count what = cmd_bind countSSTables (\<lambda>n. Println (what @ '', sstable files='' @ decimal n))"

text \<open>A deferred \<open>db.Close()\<close> on the database that the variable held at the \<open>defer\<close>; its error is lost.\<close>

definition deferred_close :: "DB option \<Rightarrow> unit example" where
  "deferred_close var s =
     (case var of
        None \<Rightarrow> None
      | Some db \<Rightarrow> (case DbClose db (mc_world (ex_machine s)) of
          (ign, db', w') \<Rightarrow> cmd_return () (s\<lparr>ex_machine := (ex_machine s)\<lparr>mc_world := w'\<rparr>\<rparr>)))"

definition get_db :: "DB option example" where "get_db s = cmd_return (ex_db s) s"

definition simple_main :: "unit example" where
  "simple_main =
     cmd_bind clean_start (\<lambda>u.
     cmd_bind mustOpen (\<lambda>u.
     cmd_bind insertUsers (\<lambda>writes.
     cmd_bind (cmds
       [Println (''stage 1: inserted '' @ decimal writes @ '' user records for '' @ decimal userCount @ '' users''),
        assertValue (userNameKey 1) (initialName 1),
        assertValue (userEmailKey 500) (email 500),
        assertValue (userStatusKey 1000) ''active'',
        Println ''stage 2: verified sample reads after initial load'']) (\<lambda>u.
     cmd_bind updateEveryTenthUserName (\<lambda>updates.
     cmd_bind (Println (''stage 3: updated '' @ decimal updates @ '' user names'')) (\<lambda>u.
     cmd_bind deleteEveryFifteenthStatus (\<lambda>deletes.
     cmd_bind (cmds
       [Println (''stage 4: deleted '' @ decimal deletes @ '' status records with tombstones''),
        mustFlush,
        print_count ''stage 5: flushed memtable'',
        mustClose,
        Println ''stage 6: closed database'',
        mustOpen,
        print_count ''stage 7: reopened database'',
        verifySamples,
        Println ''stage 8: verified sample reads after reopen'']) (\<lambda>u.
     cmd_bind countSSTables (\<lambda>beforeCompact.
     cmd_bind mustCompact (\<lambda>u.
     cmd_bind countSSTables (\<lambda>afterCompact.
     cmd_bind (cmds
       [Println (''stage 9: compacted sstables, before='' @ decimal beforeCompact @ '' after='' @ decimal afterCompact),
        verifySamples,
        Println ''stage 10: verified sample reads after compact'',
        mustClose,
        Println ''stage 11: closed database after compact'']) (\<lambda>u.
     cmd_bind get_db (\<lambda>second.
     cmd_bind (cmds
       [mustOpen,
        print_count ''stage 12: reopened compacted database'',
        verifySamples,
        Println ''verification succeeded'']) (\<lambda>u.
     cmd_bind get_db (\<lambda>third. cmds [deferred_close third, deferred_close second])))))))))))))))"

section \<open>What each command does\<close>

text \<open>
  The lines printed so far begin like \<open>out\<close>; the database is open and stands for \<open>a\<close>, with at most
  \<open>n\<close> tables.
\<close>

definition running :: "string list \<Rightarrow> nat \<Rightarrow> (bytes \<rightharpoonup> bytes) \<Rightarrow> example_state \<Rightarrow> bool" where
  "running out n a s \<longleftrightarrow> list_all2 prefix out (con_out s)
     \<and> (\<exists>db. ex_db s = Some db \<and> store_at example_options n db (mc_world (ex_machine s)) a)"

definition stopped :: "string list \<Rightarrow> nat \<Rightarrow> (bytes \<rightharpoonup> bytes) \<Rightarrow> example_state \<Rightarrow> bool" where
  "stopped out n a s \<longleftrightarrow> list_all2 prefix out (con_out s) \<and> kept_at example_options n (mc_world (ex_machine s)) a"

text \<open>The variable holds a closed database.\<close>

definition closed_var :: "DB option \<Rightarrow> bool" where
  "closed_var var \<longleftrightarrow> (\<exists>db. var = Some db \<and> db_closed db)"

definition resting :: "string list \<Rightarrow> nat \<Rightarrow> (bytes \<rightharpoonup> bytes) \<Rightarrow> example_state \<Rightarrow> bool" where
  "resting out n a s \<longleftrightarrow> stopped out n a s \<and> closed_var (ex_db s)"

lemma succeeds_call:
  assumes "\<And>db w. store_at example_options n db w a
    \<Longrightarrow> \<exists>r db' w'. f db w = Some (r, db', w') \<and> R r \<and> store_at example_options n' db' w' a'"
  shows "succeeds (running out n a) (call_db f) (\<lambda>r s. R r \<and> running out n' a' s)"
proof (rule succeedsI)
  fix s assume "running out n a s"
  then obtain db where db: "ex_db s = Some db" "store_at example_options n db (mc_world (ex_machine s)) a"
    and out: "list_all2 prefix out (con_out s)"
    by (auto simp: running_def)
  from assms [OF db(2)] obtain r db' w' where "f db (mc_world (ex_machine s)) = Some (r, db', w')" "R r"
    "store_at example_options n' db' w' a'" by blast
  then show "\<exists>r s'. call_db f s = Some (Inr r, s') \<and> R r \<and> running out n' a' s'"
    using db(1) out by (simp add: call_db_def cmd_return_def running_def)
qed

lemma succeeds_mustPut:
  "op_valid (OpPut (string_bytes k) (string_bytes v)) \<Longrightarrow>
     succeeds (running out n a) (mustPut k v) (\<lambda>u. running out (Suc n) (a(string_bytes k \<mapsto> string_bytes v)))"
  unfolding mustPut_def by (rule succeeds_must, rule succeeds_call) (use store_at_put in fastforce)

lemma succeeds_mustDelete:
  "op_valid (OpDelete (string_bytes k)) \<Longrightarrow>
     succeeds (running out n a) (mustDelete k) (\<lambda>u. running out (Suc n) (a(string_bytes k := None)))"
  unfolding mustDelete_def by (rule succeeds_must, rule succeeds_call) (use store_at_delete in fastforce)

lemma succeeds_mustFlush: "succeeds (running out n a) mustFlush (\<lambda>u. running out (Suc n) a)"
  unfolding mustFlush_def by (rule succeeds_must, rule succeeds_call) (use store_at_flush in fastforce)

lemma succeeds_mustCompact: "succeeds (running out n a) mustCompact (\<lambda>u. running out (Suc n) a)"
  unfolding mustCompact_def by (rule succeeds_must, rule succeeds_call) (use store_at_compact in fastforce)

lemma succeeds_exGet:
  "k \<noteq> [] \<Longrightarrow> succeeds (running out n a) (exGet k) (\<lambda>r s. (\<exists>g. r = Inr g \<and> reads_as (a (string_bytes k)) g) \<and> running out n a s)"
  unfolding exGet_def
  by (rule succeeds_call) (use store_at_get [of example_options n _ _ a "string_bytes k"] in \<open>fastforce simp: string_bytes_def\<close>)

lemma succeeds_assertValue:
  "k \<noteq> [] \<Longrightarrow> a (string_bytes k) = Some (string_bytes v) \<Longrightarrow> succeeds (running out n a) (assertValue k v) (\<lambda>u. running out n a)"
  unfolding assertValue_def by (rule succeeds_bind [OF succeeds_exGet]) (auto simp: succeeds_def cmd_return_def reads_as_def slice_def)

lemma succeeds_assertEmpty:
  "k \<noteq> [] \<Longrightarrow> a (string_bytes k) = None \<Longrightarrow> succeeds (running out n a) (assertEmpty k) (\<lambda>u. running out n a)"
  unfolding assertEmpty_def by (rule succeeds_bind [OF succeeds_exGet]) (auto simp: succeeds_def cmd_return_def reads_as_def slice_def)

lemma succeeds_Println: "prefix x line \<Longrightarrow> succeeds (running out n a) (Println line) (\<lambda>u. running (out @ [x]) n a)"
  by (auto simp: succeeds_def Println_def running_def list_all2_appendI)

lemma succeeds_Println_resting: "prefix x line \<Longrightarrow> succeeds (resting out n a) (Println line) (\<lambda>u. resting (out @ [x]) n a)"
  by (auto simp: succeeds_def Println_def resting_def stopped_def list_all2_appendI)

lemma succeeds_countSSTables: "succeeds (running out n a) countSSTables (\<lambda>c. running out n a)"
proof (rule succeedsI)
  fix s assume "running out n a s"
  moreover from this have "calm (mc_world (ex_machine s))" by (auto simp: running_def store_at_def)
  ultimately show "\<exists>c s'. countSSTables s = Some (Inr c, s') \<and> running out n a s'"
    by (simp add: countSSTables_def os_read_dir_def os_simps cmd_return_def)
qed

lemma succeeds_print_count: "succeeds (running out n a) (print_count what) (\<lambda>u. running (out @ [what @ '', sstable files='']) n a)"
  unfolding print_count_def by (rule succeeds_bind [OF succeeds_countSSTables succeeds_Println]) simp

lemma succeeds_mustClose: "succeeds (running out n a) mustClose (\<lambda>u. resting out (Suc n) a)"
proof -
  have "succeeds (running out n a) (call_db (\<lambda>db w. Some (DbClose db w)))
      (\<lambda>r s. r = None \<and> stopped out (Suc n) a s \<and> closed_var (ex_db s))"
  proof (rule succeedsI)
    fix s assume "running out n a s"
    then obtain db where db: "ex_db s = Some db" "store_at example_options n db (mc_world (ex_machine s)) a"
      and out: "list_all2 prefix out (con_out s)"
      by (auto simp: running_def)
    from kept_at_close [OF db(2)] obtain db' w' where "DbClose db (mc_world (ex_machine s)) = (None, db', w')"
      "kept_at example_options (Suc n) w' a" "db_closed db'" by blast
    then show "\<exists>r s'. call_db (\<lambda>db w. Some (DbClose db w)) s = Some (Inr r, s') \<and> r = None \<and> stopped out (Suc n) a s'
        \<and> closed_var (ex_db s')"
      using db(1) out by (simp add: call_db_def cmd_return_def stopped_def closed_var_def)
  qed
  then show ?thesis unfolding mustClose_def resting_def by (rule succeeds_must)
qed

lemma succeeds_mustOpen: "n \<le> 10000 \<Longrightarrow> succeeds (stopped out n a) mustOpen (\<lambda>u. running out n a)"
proof (rule succeedsI)
  fix s assume n: "n \<le> 10000" and s: "stopped out n a s"
  then obtain db w where op: "open_db example_options (mc_world (ex_machine s)) = (Inr db, w)"
    and st: "store_at example_options n db w a"
    using kept_at_open unfolding stopped_def by blast
  have "calm (mc_world (ex_machine s))" using s by (simp add: stopped_def kept_at_def)
  then have "DbOpen (mc_logger (ex_machine s)) example_options (mc_world (ex_machine s)) = (Some (Inr db), w)"
    using DbOpen_named [of example_options "mc_world (ex_machine s)"] op by (simp add: example_options_def dataDir_def)
  then show "\<exists>u s'. mustOpen s = Some (Inr u, s') \<and> running out n a s'"
    using st s by (simp add: mustOpen_def kv_open_def cmd_return_def running_def stopped_def)
qed

lemma succeeds_reopen: "n \<le> 10000 \<Longrightarrow> succeeds (resting out n a) mustOpen (\<lambda>u. running out n a)"
  by (rule succeeds_conseq [OF succeeds_mustOpen]) (auto simp: resting_def)

section \<open>The keys and the expected contents\<close>

lemmas user_keys = userNameKey_def userEmailKey_def userStatusKey_def

lemma user_keys_inj [simp]:
  "userNameKey i = userNameKey j \<longleftrightarrow> i = j"
  "userEmailKey i = userEmailKey j \<longleftrightarrow> i = j"
  "userStatusKey i = userStatusKey j \<longleftrightarrow> i = j"
  by (simp_all add: user_keys)

lemma user_keys_last:
  "last (userNameKey i) = CHR ''e''" "last (userEmailKey i) = CHR ''l''" "last (userStatusKey i) = CHR ''s''"
  by (simp_all add: user_keys)

lemma user_keys_distinct [simp]:
  "userNameKey i \<noteq> userEmailKey j" "userEmailKey i \<noteq> userNameKey j"
  "userNameKey i \<noteq> userStatusKey j" "userStatusKey i \<noteq> userNameKey j"
  "userEmailKey i \<noteq> userStatusKey j" "userStatusKey i \<noteq> userEmailKey j"
  using user_keys_last [of i] user_keys_last [of j] by auto

lemma user_keys_nonempty [simp]: "userNameKey i \<noteq> []" "userEmailKey i \<noteq> []" "userStatusKey i \<noteq> []"
  by (simp_all add: user_keys)

lemma user_ops_valid:
  assumes "i \<le> userCount"
  shows "op_valid (OpPut (string_bytes (userNameKey i)) (string_bytes (initialName i)))"
    and "op_valid (OpPut (string_bytes (userNameKey i)) (string_bytes (updatedName i)))"
    and "op_valid (OpPut (string_bytes (userEmailKey i)) (string_bytes (email i)))"
    and "op_valid (OpPut (string_bytes (userStatusKey i)) (string_bytes ''active''))"
    and "op_valid (OpDelete (string_bytes (userStatusKey i)))"
  using assms length_padded [of i 4]
  by (simp_all add: userCount_def MaxUint32_def user_keys initialName_def updatedName_def email_def)

text \<open>The effect of one round of each loop on the map.\<close>

definition user_inserted :: "nat \<Rightarrow> (bytes \<rightharpoonup> bytes) \<Rightarrow> bytes \<rightharpoonup> bytes" where
  "user_inserted i a = a(string_bytes (userNameKey i) \<mapsto> string_bytes (initialName i),
     string_bytes (userEmailKey i) \<mapsto> string_bytes (email i), string_bytes (userStatusKey i) \<mapsto> string_bytes ''active'')"

definition name_updated :: "nat \<Rightarrow> (bytes \<rightharpoonup> bytes) \<Rightarrow> bytes \<rightharpoonup> bytes" where
  "name_updated i a = a(string_bytes (userNameKey i) \<mapsto> string_bytes (updatedName i))"

definition status_deleted :: "nat \<Rightarrow> (bytes \<rightharpoonup> bytes) \<Rightarrow> bytes \<rightharpoonup> bytes" where
  "status_deleted i a = a(string_bytes (userStatusKey i) := None)"

text \<open>A loop of updates, read at the key that the round for \<open>j\<close> changes.\<close>

lemma fold_lookup:
  assumes "\<And>i a. step i a k = (if i = j then v else a k)"
  shows "fold step xs a k = (if j \<in> set xs then v else a k)"
proof (induction xs arbitrary: a)
  case (Cons x xs)
  then show ?case using assms by auto
qed simp

lemma fold_keeps: "(\<And>i a. step i a k = a k) \<Longrightarrow> fold step xs a k = a k"
  by (induction xs arbitrary: a) auto

lemma users_lookup:
  "fold user_inserted xs a (string_bytes (userNameKey j)) = (if j \<in> set xs then Some (string_bytes (initialName j)) else a (string_bytes (userNameKey j)))"
  "fold user_inserted xs a (string_bytes (userEmailKey j)) = (if j \<in> set xs then Some (string_bytes (email j)) else a (string_bytes (userEmailKey j)))"
  "fold user_inserted xs a (string_bytes (userStatusKey j)) = (if j \<in> set xs then Some (string_bytes ''active'') else a (string_bytes (userStatusKey j)))"
  by (intro fold_lookup; simp add: user_inserted_def)+

lemma updates_lookup:
  "fold name_updated xs a (string_bytes (userNameKey j)) = (if j \<in> set xs then Some (string_bytes (updatedName j)) else a (string_bytes (userNameKey j)))"
  "fold name_updated xs a (string_bytes (userEmailKey j)) = a (string_bytes (userEmailKey j))"
  "fold name_updated xs a (string_bytes (userStatusKey j)) = a (string_bytes (userStatusKey j))"
  by (intro fold_lookup fold_keeps; simp add: name_updated_def)+

lemma deletes_lookup:
  "fold status_deleted xs a (string_bytes (userStatusKey j)) = (if j \<in> set xs then None else a (string_bytes (userStatusKey j)))"
  "fold status_deleted xs a (string_bytes (userNameKey j)) = a (string_bytes (userNameKey j))"
  "fold status_deleted xs a (string_bytes (userEmailKey j)) = a (string_bytes (userEmailKey j))"
  by (intro fold_lookup fold_keeps; simp add: status_deleted_def)+

definition users :: "bytes \<rightharpoonup> bytes" where
  "users = fold user_inserted (for_values 1 userCount 1) Map.empty"

definition users_changed :: "bytes \<rightharpoonup> bytes" where
  "users_changed = fold status_deleted (for_values 15 userCount 15) (fold name_updated (for_values 10 userCount 10) users)"

lemma in_steps: "0 < c \<Longrightarrow> j \<in> set (for_values c m c) \<longleftrightarrow> j \<le> m \<and> 0 < j \<and> c dvd j"
proof -
  assume c: "0 < c"
  have "(\<exists>k. j = c + k * c) \<longleftrightarrow> 0 < j \<and> c dvd j"
  proof
    assume "\<exists>k. j = c + k * c"
    then show "0 < j \<and> c dvd j" using c by auto
  next
    assume "0 < j \<and> c dvd j"
    then obtain q where "j = c * Suc q" by (metis dvdE gr0_implies_Suc mult_is_0 not_gr_zero)
    then have "j = c + q * c" by simp
    then show "\<exists>k. j = c + k * c" by blast
  qed
  then show ?thesis using for_values_iff [OF c] by blast
qed

lemma users_at:
  assumes "0 < j" and "j \<le> userCount"
  shows "users (string_bytes (userNameKey j)) = Some (string_bytes (initialName j))"
    and "users (string_bytes (userEmailKey j)) = Some (string_bytes (email j))"
    and "users (string_bytes (userStatusKey j)) = Some (string_bytes ''active'')"
  using assms by (simp_all add: users_def users_lookup in_steps [of 1, simplified])

lemma users_changed_at:
  assumes "0 < j" and "j \<le> userCount"
  shows "users_changed (string_bytes (userNameKey j)) = Some (string_bytes (if 10 dvd j then updatedName j else initialName j))"
    and "users_changed (string_bytes (userEmailKey j)) = Some (string_bytes (email j))"
    and "users_changed (string_bytes (userStatusKey j)) = (if 15 dvd j then None else Some (string_bytes ''active''))"
  using assms by (simp_all add: users_changed_def updates_lookup deletes_lookup users_at in_steps)

section \<open>The program runs to its end\<close>

lemma succeeds_insertUsers:
  "succeeds (running out n Map.empty) insertUsers (\<lambda>r s. r = 3000 \<and> running out (n + 3000) users s)"
proof -
  have len: "length (for_values 1 userCount 1) = 1000" by (simp add: for_values_length userCount_def)
  have "succeeds (running out i a) (cmd_bind (cmds [mustPut (userNameKey x) (initialName x), mustPut (userEmailKey x) (email x),
      mustPut (userStatusKey x) ''active'']) (\<lambda>u. cmd_return (r + 3))) (\<lambda>r' s. r' = r + 3 \<and> running out (i + 3) (user_inserted x a) s)"
    if "x \<in> set (for_values 1 userCount 1)" for x i a r
  proof -
    have "x \<le> userCount" using that by (simp add: for_values_iff)
    note puts = succeeds_mustPut [OF user_ops_valid(1) [OF this]] succeeds_mustPut [OF user_ops_valid(3) [OF this]]
      succeeds_mustPut [OF user_ops_valid(4) [OF this]]
    show ?thesis
      by (rule succeeds_bind, rule succeeds_cmds_Cons [OF puts(1)], rule succeeds_cmds_Cons [OF puts(2)],
          rule succeeds_cmds_Cons [OF puts(3)], rule succeeds_cmds_Nil)
        (auto simp: user_inserted_def numeral_3_eq_3)
  qed
  from succeeds_count [where I = "running out" and step = user_inserted and xs = "for_values 1 userCount 1" and c = 3 and d = 3
      and r = 0 and n = n and a = Map.empty, OF this]
  show ?thesis unfolding insertUsers_def len users_def by simp
qed

lemma succeeds_updates:
  "succeeds (running out n a) updateEveryTenthUserName
     (\<lambda>r s. r = 100 \<and> running out (n + 100) (fold name_updated (for_values 10 userCount 10) a) s)"
proof -
  have len: "length (for_values 10 userCount 10) = 100" by (simp add: for_values_length userCount_def)
  have "succeeds (running out i a) (cmd_bind (mustPut (userNameKey x) (updatedName x)) (\<lambda>u. cmd_return (r + 1)))
      (\<lambda>r' s. r' = r + 1 \<and> running out (i + 1) (name_updated x a) s)"
    if "x \<in> set (for_values 10 userCount 10)" for x i a r
  proof -
    have "x \<le> userCount" using that by (simp add: for_values_iff)
    from succeeds_mustPut [OF user_ops_valid(2) [OF this]] show ?thesis
      by (rule succeeds_bind) (auto simp: name_updated_def)
  qed
  from succeeds_count [where I = "running out" and step = name_updated and xs = "for_values 10 userCount 10" and c = 1 and d = 1
      and r = 0 and n = n and a = a, OF this]
  show ?thesis unfolding updateEveryTenthUserName_def len by simp
qed

lemma succeeds_deletes:
  "succeeds (running out n a) deleteEveryFifteenthStatus
     (\<lambda>r s. r = 66 \<and> running out (n + 66) (fold status_deleted (for_values 15 userCount 15) a) s)"
proof -
  have len: "length (for_values 15 userCount 15) = 66" by (simp add: for_values_length userCount_def)
  have "succeeds (running out i a) (cmd_bind (mustDelete (userStatusKey x)) (\<lambda>u. cmd_return (r + 1)))
      (\<lambda>r' s. r' = r + 1 \<and> running out (i + 1) (status_deleted x a) s)"
    if "x \<in> set (for_values 15 userCount 15)" for x i a r
  proof -
    have "x \<le> userCount" using that by (simp add: for_values_iff)
    from succeeds_mustDelete [OF user_ops_valid(5) [OF this]] show ?thesis
      by (rule succeeds_bind) (auto simp: status_deleted_def)
  qed
  from succeeds_count [where I = "running out" and step = status_deleted and xs = "for_values 15 userCount 15" and c = 1 and d = 1
      and r = 0 and n = n and a = a, OF this]
  show ?thesis unfolding deleteEveryFifteenthStatus_def len by simp
qed

lemmas samples = users_at users_changed_at userCount_def

lemma succeeds_verifySamples: "succeeds (running out n users_changed) verifySamples (\<lambda>u. running out n users_changed)"
  unfolding verifySamples_def
  by (rule succeeds_cmds_Cons succeeds_assertValue succeeds_assertEmpty succeeds_cmds_Nil | simp add: samples)+

text \<open>\<open>RemoveAll\<close> leaves an empty directory, whatever was in it.\<close>

lemma file_at_removed: "file_at (w\<lparr>disk := filter (\<lambda>pc. \<not> in_dir d (fst pc)) (disk w)\<rparr>) (d @ q) = None"
  by (auto simp: file_at_def map_of_eq_None_iff in_dir_def)

lemma succeeds_clean_start:
  "succeeds (\<lambda>s. con_out s = [] \<and> calm (mc_world (ex_machine s))) clean_start (\<lambda>u. stopped [] 0 Map.empty)"
proof (rule succeedsI)
  fix s :: example_state assume s: "con_out s = [] \<and> calm (mc_world (ex_machine s))"
  let ?d = "path_of (opt_Dir example_options)"
  let ?w = "(mc_world (ex_machine s))\<lparr>disk := filter (\<lambda>pc. \<not> in_dir ?d (fst pc)) (disk (mc_world (ex_machine s)))\<rparr>"
  have empty: "file_at ?w (?d @ q) = None" for q by (rule file_at_removed)
  have "tables_on ?w ?d []" using empty by (simp add: tables_on_def)
  moreover have "file_data ?w (wal_path_of ?d) = frames []" using empty by (simp add: file_data_def wal_path_of_def)
  moreover have "kv_values (newest (concat []) ++ newest []) = Map.empty" by (simp add: kv_values_def live_def fun_eq_iff)
  ultimately have "kept_at example_options 0 ?w Map.empty"
    unfolding kept_at_def using s by (intro conjI exI [of _ "[]"]) simp_all
  moreover have d: "path_of dataDir = ?d" by (simp add: example_options_def)
  ultimately show "\<exists>u s'. clean_start s = Some (Inr u, s') \<and> stopped [] 0 Map.empty s'"
    using s by (simp add: clean_start_def os_remove_all_def os_simps cmd_return_def stopped_def)
qed

lemma succeeds_get_closed: "succeeds (resting out n a) get_db (\<lambda>v s. closed_var v \<and> resting out n a s)"
  by (simp add: succeeds_def get_db_def cmd_return_def resting_def)

lemma succeeds_get_open: "succeeds (running out n a) get_db (\<lambda>v s. v = ex_db s \<and> running out n a s)"
  by (simp add: succeeds_def get_db_def cmd_return_def)

lemma succeeds_deferred_open:
  "succeeds (\<lambda>s. v = ex_db s \<and> running out n a s) (deferred_close v) (\<lambda>u. stopped out (Suc n) a)"
proof (rule succeedsI)
  fix s assume s: "v = ex_db s \<and> running out n a s"
  then obtain db where db: "ex_db s = Some db" "store_at example_options n db (mc_world (ex_machine s)) a"
    by (auto simp: running_def)
  from kept_at_close [OF db(2)] show "\<exists>u s'. deferred_close v s = Some (Inr u, s') \<and> stopped out (Suc n) a s'"
    using s db(1) by (auto simp: deferred_close_def cmd_return_def running_def stopped_def)
qed

lemma succeeds_deferred_closed:
  "closed_var v \<Longrightarrow> succeeds (stopped out n a) (deferred_close v) (\<lambda>u. stopped out n a)"
  by (auto simp: succeeds_def deferred_close_def closed_var_def DbClose_def cmd_return_def)

definition example_lines :: "string list" where
  "example_lines =
     [''stage 1: inserted 3000 user records for 1000 users'',
      ''stage 2: verified sample reads after initial load'',
      ''stage 3: updated 100 user names'',
      ''stage 4: deleted 66 status records with tombstones'',
      ''stage 5: flushed memtable, sstable files='',
      ''stage 6: closed database'',
      ''stage 7: reopened database, sstable files='',
      ''stage 8: verified sample reads after reopen'',
      ''stage 9: compacted sstables, before='',
      ''stage 10: verified sample reads after compact'',
      ''stage 11: closed database after compact'',
      ''stage 12: reopened compacted database, sstable files='',
      ''verification succeeded'']"

lemma example_numbers: "decimal 3000 = ''3000''" "decimal userCount = ''1000''" "decimal 100 = ''100''" "decimal 66 = ''66''"
  by (simp_all add: userCount_def decimal.simps digit_def) code_simp+

lemma succeeds_changes:
  "succeeds (running out n (fold name_updated (for_values 10 userCount 10) users)) deleteEveryFifteenthStatus
     (\<lambda>r s. r = 66 \<and> running out (n + 66) users_changed s)"
  unfolding users_changed_def by (rule succeeds_deletes)

lemmas example_triples = succeeds_known succeeds_bind succeeds_cmds_Cons succeeds_cmds_Nil succeeds_cmds_end succeeds_clean_start
  succeeds_mustOpen succeeds_reopen succeeds_insertUsers succeeds_updates succeeds_changes succeeds_mustFlush
  succeeds_mustCompact succeeds_mustClose succeeds_verifySamples succeeds_assertValue succeeds_countSSTables
  succeeds_print_count succeeds_get_closed succeeds_get_open succeeds_deferred_open succeeds_deferred_closed
  succeeds_Println [OF prefix_order.refl] succeeds_Println_resting [OF prefix_order.refl]

lemma lines_weaken: "list_all2 prefix ls out \<Longrightarrow> list_all2 prefix ls' ls \<Longrightarrow> list_all2 prefix ls' out"
  using list_all2_trans [of prefix prefix prefix ls' ls out] prefix_order.trans by blast

lemma example_end:
  assumes "stopped ls n a s" and "list_all2 prefix example_lines ls" and "n = 3171"
  shows "list_all2 prefix example_lines (con_out s) \<and> kept_at example_options 3171 (mc_world (ex_machine s)) a"
  using assms lines_weaken unfolding stopped_def by blast

lemma simple_main_runs:
  "succeeds (\<lambda>s. con_out s = [] \<and> calm (mc_world (ex_machine s))) simple_main
     (\<lambda>u s. list_all2 prefix example_lines (con_out s) \<and> kept_at example_options 3171 (mc_world (ex_machine s)) users_changed)"
  unfolding simple_main_def
  by (rule example_triples | (simp add: samples; fail))+
    (erule example_end; simp add: example_lines_def example_numbers)

text \<open>
  C39: The example of the embedded database runs to its end.  Whatever the disk holds before, as long as
  the system calls succeed, \<open>main\<close> ends without a fatal error after the lines of all twelve stages and
  \<open>verification succeeded\<close>: 3000 records inserted, 100 updated, 66 deleted, and all sampled reads right
  after the load, after two restarts and after the compaction.  The directory then holds exactly the
  map that the loops describe.
\<close>

theorem simple_example_succeeds:
  assumes "calm (mc_world (ex_machine s))" and "con_out s = []"
  shows "\<exists>s'. simple_main s = Some (Inr (), s') \<and> list_all2 prefix example_lines (con_out s')
    \<and> kept_at example_options 3171 (mc_world (ex_machine s')) users_changed"
  using succeedsD [OF simple_main_runs, of s] assms by auto

lemma last_lines: "list_all2 prefix ls out \<Longrightarrow> ls \<noteq> [] \<Longrightarrow> prefix (last ls) (last out)"
  by (induction rule: list_all2_induct) (auto split: if_splits)

text \<open>On a disk with a damaged log in the directory.\<close>

theorem simple_example_succeeds_witness:
  "\<exists>s'. simple_main \<lparr>con_out = [], ex_db = None, ex_machine = \<lparr>mc_world = \<lparr>disk = [(path_of dataDir @ [''wal.log''], [1, 2, 3])],
      faults = []\<rparr>, mc_logger = False, mc_raft = ()\<rparr>\<rparr> = Some (Inr (), s') \<and> prefix ''verification succeeded'' (last (con_out s'))"
proof -
  let ?s = "\<lparr>con_out = [], ex_db = None, ex_machine = \<lparr>mc_world = \<lparr>disk = [(path_of dataDir @ [''wal.log''], [1, 2, 3])],
      faults = []\<rparr>, mc_logger = False, mc_raft = ()\<rparr>\<rparr>"
  have "calm (mc_world (ex_machine ?s))" "con_out ?s = []" by simp_all
  from simple_example_succeeds [OF this]
  obtain s' where s: "simple_main ?s = Some (Inr (), s')" and out: "list_all2 prefix example_lines (con_out s')" by blast
  have "prefix (last example_lines) (last (con_out s'))" by (rule last_lines [OF out]) (simp add: example_lines_def)
  then show ?thesis using s by (simp add: example_lines_def)
qed

end
