(* ===== verification/KV_Dial.thy ===== *)
theory KV_Dial
  imports KV_Rpc "HOL-Library.Multiset"
begin

text \<open>
  Connections of the client (\<open>internal/client/client.go\<close>): \<open>Dial\<close> makes a connection and waits until it
  is ready.  gRPC's connection is a parameter; a call of \<open>GetState\<close> may see a state that has changed
  on its own.
\<close>

section \<open>Waiting for a connection\<close>

datatype conn_state = Idle | Connecting | Ready | TransientFailure | ConnShutdown

record ('c, 'e) grpc_lib =
  gl_NewClient :: "string \<Rightarrow> 'e \<Rightarrow> (err + 'c) \<times> 'e"
  gl_GetState :: "'c \<Rightarrow> 'e \<Rightarrow> conn_state \<times> 'e"
  gl_Connect :: "'c \<Rightarrow> 'e \<Rightarrow> 'e"
  gl_WaitForStateChange :: "Context \<Rightarrow> 'c \<Rightarrow> conn_state \<Rightarrow> 'e \<Rightarrow> bool \<times> 'e"
  gl_Close :: "'c \<Rightarrow> 'e \<Rightarrow> err option \<times> 'e"

text \<open>\<open>None\<close>: the loop does not end.\<close>

partial_function (option) waitReady ::
  "('c, 'e) grpc_lib \<Rightarrow> Context \<Rightarrow> 'c \<Rightarrow> 'e \<Rightarrow> (err option \<times> 'e) option" where
  "waitReady lib ctx conn e =
     (case gl_GetState lib conn e of
        (state, e1) \<Rightarrow>
          if state = Ready then Some (None, e1)
          else if state = ConnShutdown then Some (Some (Errorf ''grpc client connection is shut down''), e1)
          else
            (case gl_WaitForStateChange lib ctx conn state (gl_Connect lib conn e1) of
               (changed, e2) \<Rightarrow>
                 if \<not> changed then Some (ctx_Err ctx 0, e2) else waitReady lib ctx conn e2))"

text \<open>A client is the connection with the generated stub on it.\<close>

record ('c, 's) Client =
  cl_conn :: 'c
  cl_client :: 's

definition newClient :: "('c \<Rightarrow> 's) \<Rightarrow> 'c \<Rightarrow> ('c, 's) Client" where
  "newClient newKVServiceClient conn = \<lparr>cl_conn = conn, cl_client = newKVServiceClient conn\<rparr>"

definition Dial ::
  "('c, 'e) grpc_lib \<Rightarrow> ('c \<Rightarrow> 's) \<Rightarrow> Context \<Rightarrow> string \<Rightarrow> 'e \<Rightarrow> ((err + ('c, 's) Client) \<times> 'e) option" where
  "Dial lib newKVServiceClient ctx target e =
     (case gl_NewClient lib target e of
        (Inl err, e1) \<Rightarrow> Some (Inl err, e1)
      | (Inr conn, e1) \<Rightarrow>
          (case waitReady lib ctx conn e1 of
             None \<Rightarrow> None
           | Some (Some err, e2) \<Rightarrow> (case gl_Close lib conn e2 of (ign, e3) \<Rightarrow> Some (Inl err, e3))
           | Some (None, e2) \<Rightarrow> Some (Inr (newClient newKVServiceClient conn), e2)))"

definition ClientClose :: "('c, 'e) grpc_lib \<Rightarrow> ('c, 's) Client \<Rightarrow> 'e \<Rightarrow> err option \<times> 'e" where
  "ClientClose lib c e = gl_Close lib (cl_conn c) e"

section \<open>What the library promises\<close>

text \<open>
  \<open>opened\<close> are the open connections, \<open>ready\<close> says that the last state seen was \<open>Ready\<close>, and
  \<open>changes\<close> bounds how often the state still changes before the context ends.  A wait that returns
  false has ended with the context, so the context has an error.
\<close>

definition grpc_laws ::
  "('c, 'e) grpc_lib \<Rightarrow> Context \<Rightarrow> ('e \<Rightarrow> 'c multiset) \<Rightarrow> ('c \<Rightarrow> 'e \<Rightarrow> bool) \<Rightarrow> ('e \<Rightarrow> nat) \<Rightarrow> bool" where
  "grpc_laws lib ctx opened ready changes \<longleftrightarrow>
     (\<forall>t e err e'. gl_NewClient lib t e = (Inl err, e') \<longrightarrow> opened e' = opened e)
     \<and> (\<forall>t e conn e'. gl_NewClient lib t e = (Inr conn, e') \<longrightarrow> opened e' = add_mset conn (opened e))
     \<and> (\<forall>conn e s e'. gl_GetState lib conn e = (s, e') \<longrightarrow>
          opened e' = opened e \<and> changes e' \<le> changes e \<and> (s = Ready \<longrightarrow> ready conn e'))
     \<and> (\<forall>conn e. opened (gl_Connect lib conn e) = opened e \<and> changes (gl_Connect lib conn e) \<le> changes e)
     \<and> (\<forall>conn s e b e'. gl_WaitForStateChange lib ctx conn s e = (b, e') \<longrightarrow>
          opened e' = opened e \<and> (if b then changes e' < changes e else ctx_Err ctx 0 \<noteq> None))
     \<and> (\<forall>conn e r e'. gl_Close lib conn e = (r, e') \<longrightarrow> opened e' = opened e - {#conn#})"

lemma waitReady_returns:
  assumes law: "grpc_laws lib ctx opened ready changes"
  shows "\<exists>r e'. waitReady lib ctx conn e = Some (r, e') \<and> opened e' = opened e \<and> (r = None \<longrightarrow> ready conn e')"
proof (induction "changes e" arbitrary: e rule: less_induct)
  case less
  obtain s e1 where s: "gl_GetState lib conn e = (s, e1)" by (metis prod.exhaust)
  have e1: "opened e1 = opened e" "changes e1 \<le> changes e" "s = Ready \<longrightarrow> ready conn e1"
    using law s by (auto simp: grpc_laws_def)
  obtain b e2 where w: "gl_WaitForStateChange lib ctx conn s (gl_Connect lib conn e1) = (b, e2)" by (metis prod.exhaust)
  have "opened (gl_Connect lib conn e1) = opened e1" "changes (gl_Connect lib conn e1) \<le> changes e1"
    using law by (auto simp: grpc_laws_def)
  moreover have "opened e2 = opened (gl_Connect lib conn e1)
      \<and> (if b then changes e2 < changes (gl_Connect lib conn e1) else ctx_Err ctx 0 \<noteq> None)"
    using law w unfolding grpc_laws_def by blast
  ultimately have e2: "opened e2 = opened e" "b \<Longrightarrow> changes e2 < changes e" "\<not> b \<Longrightarrow> ctx_Err ctx 0 \<noteq> None"
    using e1 by (auto split: if_splits)
  show ?case
  proof (cases "s = Ready \<or> s = ConnShutdown \<or> \<not> b")
    case True
    then show ?thesis using s w e1 e2(1,3) by (subst waitReady.simps) auto
  next
    case False
    then show ?thesis using s w e2(1) less [OF e2(2)] by (subst waitReady.simps) auto
  qed
qed

text \<open>
  C29: \<open>Dial\<close> returns and loses no connection.  Whatever states the connection goes through, as long as
  they are finitely many before the context ends: \<open>Dial\<close> returns a client only when it has seen its
  connection ready, which is then the only connection that is open in addition; when it returns an
  error, also after a long wait, the connection is closed again.
\<close>

theorem Dial_returns:
  assumes "grpc_laws lib ctx opened ready changes"
  shows "\<exists>r e'. Dial lib newKV ctx target e = Some (r, e')
    \<and> (case r of
         Inl err \<Rightarrow> opened e' = opened e
       | Inr c \<Rightarrow> opened e' = add_mset (cl_conn c) (opened e) \<and> ready (cl_conn c) e' \<and> cl_client c = newKV (cl_conn c))"
proof -
  obtain r e1 where n: "gl_NewClient lib target e = (r, e1)" by (metis prod.exhaust)
  show ?thesis
  proof (cases r)
    case (Inl err)
    then have "opened e1 = opened e" using assms n by (auto simp: grpc_laws_def)
    then show ?thesis using n Inl by (simp add: Dial_def)
  next
    case (Inr conn)
    then have e1: "opened e1 = add_mset conn (opened e)" using assms n by (auto simp: grpc_laws_def)
    obtain w e2 where w: "waitReady lib ctx conn e1 = Some (w, e2)" "opened e2 = opened e1" "w = None \<longrightarrow> ready conn e2"
      using waitReady_returns [OF assms] by blast
    obtain x e3 where c: "gl_Close lib conn e2 = (x, e3)" by (metis prod.exhaust)
    then have "opened e3 = opened e2 - {#conn#}" using assms by (auto simp: grpc_laws_def)
    then show ?thesis using n Inr e1 w c by (cases w) (auto simp: Dial_def newClient_def)
  qed
qed

text \<open>A connection that goes through a script of states, with the open connections beside it.\<close>

definition script_lib :: "(nat, conn_state list \<times> nat multiset) grpc_lib" where
  "script_lib = \<lparr>gl_NewClient = (\<lambda>t e. (Inr 0, fst e, add_mset 0 (snd e))),
     gl_GetState = (\<lambda>conn e. (case fst e of [] \<Rightarrow> ConnShutdown | s # rest \<Rightarrow> s, e)),
     gl_Connect = (\<lambda>conn e. e),
     gl_WaitForStateChange = (\<lambda>ctx conn s e. case fst e of
        a # b # rest \<Rightarrow> (True, b # rest, snd e) | _ \<Rightarrow> (False, e)),
     gl_Close = (\<lambda>conn e. (None, fst e, snd e - {#conn#}))\<rparr>"

definition expiring :: Context where
  "expiring = \<lparr>ctx_Err = (\<lambda>i. Some DeadlineExceeded), ctx_Deadline = Some 0, ctx_Now = (\<lambda>i. 1)\<rparr>"

theorem Dial_returns_witness:
  "Dial script_lib id expiring '':9001'' ([Idle, Connecting, Ready], {#}) = Some (Inr \<lparr>cl_conn = 0, cl_client = 0\<rparr>, [Ready], {#0#})
   \<and> Dial script_lib id expiring '':9001'' ([Idle, Connecting, TransientFailure], {#}) = Some (Inl DeadlineExceeded, [TransientFailure], {#})"
proof -
  have law: "grpc_laws script_lib expiring snd (\<lambda>conn e. hd (fst e) = Ready) (\<lambda>e. length (fst e))"
    by (auto simp: grpc_laws_def script_lib_def expiring_def split: list.splits)
  define failing where "failing = Dial script_lib id expiring '':9001'' ([Idle, Connecting, TransientFailure], {#})"
  have f: "map_option (apsnd fst) failing = Some (Inl DeadlineExceeded, [TransientFailure])"
    by (simp add: failing_def Dial_def script_lib_def newClient_def expiring_def waitReady.simps)
  have "\<exists>r e'. failing = Some (r, e')
      \<and> (case r of Inl err \<Rightarrow> snd e' = snd ([Idle, Connecting, TransientFailure], {#})
         | Inr c \<Rightarrow> snd e' = add_mset (cl_conn c) (snd ([Idle, Connecting, TransientFailure], {#}))
             \<and> hd (fst e') = Ready \<and> cl_client c = id (cl_conn c))"
    unfolding failing_def by (rule Dial_returns [OF law])
  then obtain r e' where d: "failing = Some (r, e')"
    "case r of Inl err \<Rightarrow> snd e' = snd ([Idle, Connecting, TransientFailure], {#})
         | Inr c \<Rightarrow> snd e' = add_mset (cl_conn c) (snd ([Idle, Connecting, TransientFailure], {#}))
             \<and> hd (fst e') = Ready \<and> cl_client c = id (cl_conn c)" by blast
  then have "r = Inl DeadlineExceeded" "fst e' = [TransientFailure]" using f by simp_all
  then have "failing = Some (Inl DeadlineExceeded, [TransientFailure], {#})" using d by (cases e') simp
  moreover have "Dial script_lib id expiring '':9001'' ([Idle, Connecting, Ready], {#})
      = Some (Inr \<lparr>cl_conn = 0, cl_client = 0\<rparr>, [Ready], {#0#})"
    by (simp add: Dial_def script_lib_def newClient_def expiring_def waitReady.simps)
  ultimately show ?thesis by (simp add: failing_def)
qed

end
