(* ===== verification/KV_GrpcExample.thy ===== *)
theory KV_GrpcExample
  imports KV_Process KV_Dial KV_Main
begin

text \<open>
  The example of the gRPC client (\<open>example/grpc/main.go\<close>): put, update, delete, flush and compact through
  one connection, with a check after each.  The context is the one that \<open>context.WithTimeout\<close> returns;
  the flags are its timeout and the address.
\<close>

section \<open>The program\<close>

record 'e grpc_state = console +
  gx_env :: 'e

definition call_env :: "('e \<Rightarrow> 'a \<times> 'e) \<Rightarrow> ('a, 'e grpc_state) command" where
  "call_env f s = (case f (gx_env s) of (r, e) \<Rightarrow> cmd_return r (s\<lparr>gx_env := e\<rparr>))"

definition grpc_mustPut where
  "grpc_mustPut stub ctx c key value =
     must (''put '' @ quote key) (call_env (ClientPut stub c ctx (string_bytes key) (string_bytes value)))"

definition grpc_mustDelete where
  "grpc_mustDelete stub ctx c key = must (''delete '' @ quote key) (call_env (ClientDelete stub c ctx (string_bytes key)))"

definition grpc_mustFlush where
  "grpc_mustFlush stub ctx c = must ''flush'' (call_env (ClientFlush stub c ctx))"

definition grpc_mustCompact where
  "grpc_mustCompact stub ctx c = must ''compact'' (call_env (ClientCompact stub c ctx))"

definition grpc_assertValue where
  "grpc_assertValue stub ctx c key want =
     cmd_bind (call_env (ClientGet stub c ctx (string_bytes key))) (\<lambda>r.
       case r of
         Inl err \<Rightarrow> log_Fatal (''get '' @ quote key @ '': '' @ error_string err)
       | Inr got \<Rightarrow>
           if slice got \<noteq> string_bytes want
           then log_Fatal (''get '' @ quote key @ '' = '' @ quote (bytes_text got) @ '', want '' @ quote want)
           else cmd_return ())"

definition grpc_assertEmpty where
  "grpc_assertEmpty stub ctx c key =
     cmd_bind (call_env (ClientGet stub c ctx (string_bytes key))) (\<lambda>r.
       case r of
         Inl err \<Rightarrow> log_Fatal (''get '' @ quote key @ '': '' @ error_string err)
       | Inr got \<Rightarrow>
           if length (slice got) \<noteq> 0
           then log_Fatal (''get '' @ quote key @ '' = '' @ quote (bytes_text got) @ '', want empty value'')
           else cmd_return ())"

text \<open>The statements between the dial and the end; \<open>c\<close> is the client's connection.\<close>

definition grpc_statements :: "('c, 'e) KVServiceClient \<Rightarrow> Context \<Rightarrow> 'c \<Rightarrow> (unit, 'e grpc_state) command list" where
  "grpc_statements stub ctx c =
     [grpc_mustPut stub ctx c ''name'' ''alice'',
      Println ''stage 1: put name=alice'',
      grpc_assertValue stub ctx c ''name'' ''alice'',
      Println ''stage 2: verified name=alice'',
      grpc_mustPut stub ctx c ''name'' ''bob'',
      grpc_assertValue stub ctx c ''name'' ''bob'',
      Println ''stage 3: updated and verified name=bob'',
      grpc_mustDelete stub ctx c ''name'',
      grpc_assertEmpty stub ctx c ''name'',
      Println ''stage 4: deleted and verified name is empty'',
      grpc_mustPut stub ctx c ''city'' ''hangzhou'',
      grpc_mustFlush stub ctx c,
      grpc_mustCompact stub ctx c,
      grpc_assertValue stub ctx c ''city'' ''hangzhou'',
      Println ''stage 5: flushed, compacted, and verified city=hangzhou'',
      Println ''verification succeeded'']"

text \<open>The deferred \<open>Close\<close> runs at the end of \<open>main\<close>, and not when it ends with a fatal error.\<close>

definition grpc_main ::
  "('c, 'e) grpc_lib \<Rightarrow> ('c, 'e) KVServiceClient \<Rightarrow> Context \<Rightarrow> string \<Rightarrow> (unit, 'e grpc_state) command" where
  "grpc_main lib stub ctx addr s =
     (case Dial lib id ctx addr (gx_env s) of
        None \<Rightarrow> None
      | Some (Inl err, e) \<Rightarrow> log_Fatal (''dial '' @ addr @ '': '' @ error_string err) (s\<lparr>gx_env := e\<rparr>)
      | Some (Inr c, e) \<Rightarrow>
          cmd_bind (cmds (grpc_statements stub ctx (cl_client c)))
            (\<lambda>u. call_env (\<lambda>e. ((), snd (ClientClose lib c e)))) (s\<lparr>gx_env := e\<rparr>))"

section \<open>Against a server\<close>

text \<open>
  A server at the other end: a call runs its handler on the store, which is the environment.
\<close>

definition direct_stub :: "'s store_ops \<Rightarrow> ('c, 's) KVServiceClient" where
  "direct_stub ops = \<lparr>stub_Put = (\<lambda>c. so_Put (registered ops)), stub_Get = (\<lambda>c. so_Get (registered ops)),
     stub_Delete = (\<lambda>c. so_Delete (registered ops)), stub_Flush = (\<lambda>c. so_Flush (registered ops)),
     stub_Compact = (\<lambda>c ctx s. the (so_Compact (registered ops) ctx s))\<rparr>"

definition serving :: "('s \<Rightarrow> (bytes \<rightharpoonup> bytes) \<Rightarrow> bool) \<Rightarrow> string list \<Rightarrow> (bytes \<rightharpoonup> bytes) \<Rightarrow> 's grpc_state \<Rightarrow> bool" where
  "serving repr out a s \<longleftrightarrow> con_out s = out \<and> repr (gx_env s) a"

lemmas direct_simps = direct_stub_def registered_def ServerPut_def ServerGet_def ServerDelete_def ServerFlush_def
  ServerCompact_def ClientPut_def ClientGet_def ClientDelete_def ClientFlush_def ClientCompact_def

lemma succeeds_call_env:
  assumes "\<And>s. repr s a \<Longrightarrow> \<exists>r s'. f s = (r, s') \<and> R r \<and> repr s' a'"
  shows "succeeds (serving repr out a) (call_env f) (\<lambda>r s. R r \<and> serving repr out a' s)"
proof (rule succeedsI)
  fix s assume "serving repr out a s"
  then show "\<exists>r s'. call_env f s = Some (Inr r, s') \<and> R r \<and> serving repr out a' s'"
    using assms [of "gx_env s"] by (force simp: call_env_def cmd_return_def serving_def)
qed

context kv_backend
begin

lemma succeeds_grpc_put:
  assumes "ctx_live ctx" and "op_valid (OpPut (string_bytes k) (string_bytes v))"
  shows "succeeds (serving repr out a) (grpc_mustPut (direct_stub ops) ctx c k v)
    (\<lambda>u. serving repr out (a(string_bytes k \<mapsto> string_bytes v)))"
  unfolding grpc_mustPut_def
  by (rule succeeds_must, rule succeeds_call_env) (use put [OF assms(1) _ assms(2)] in \<open>force simp: direct_simps\<close>)

lemma succeeds_grpc_delete:
  assumes "ctx_live ctx" and "op_valid (OpDelete (string_bytes k))"
  shows "succeeds (serving repr out a) (grpc_mustDelete (direct_stub ops) ctx c k)
    (\<lambda>u. serving repr out (a(string_bytes k := None)))"
  unfolding grpc_mustDelete_def
  by (rule succeeds_must, rule succeeds_call_env) (use delete [OF assms(1) _ assms(2)] in \<open>force simp: direct_simps\<close>)

lemma succeeds_grpc_flush:
  "ctx_live ctx \<Longrightarrow> succeeds (serving repr out a) (grpc_mustFlush (direct_stub ops) ctx c) (\<lambda>u. serving repr out a)"
  unfolding grpc_mustFlush_def
  by (rule succeeds_must, rule succeeds_call_env) (use flush in \<open>force simp: direct_simps\<close>)

lemma succeeds_grpc_compact:
  "ctx_live ctx \<Longrightarrow> succeeds (serving repr out a) (grpc_mustCompact (direct_stub ops) ctx c) (\<lambda>u. serving repr out a)"
  unfolding grpc_mustCompact_def
  by (rule succeeds_must, rule succeeds_call_env) (use compact in \<open>force simp: direct_simps\<close>)

lemma succeeds_grpc_get:
  assumes "ctx_live ctx" and "k \<noteq> []"
  shows "succeeds (serving repr out a) (call_env (ClientGet (direct_stub ops) c ctx (string_bytes k)))
    (\<lambda>r s. (\<exists>g. r = Inr g \<and> reads_as (a (string_bytes k)) g) \<and> serving repr out a s)"
  by (rule succeeds_call_env) (use get [OF assms(1), of _ _ "string_bytes k"] assms(2) in \<open>force simp: direct_simps\<close>)

lemma succeeds_grpc_value:
  "ctx_live ctx \<Longrightarrow> k \<noteq> [] \<Longrightarrow> a (string_bytes k) = Some (string_bytes v) \<Longrightarrow>
     succeeds (serving repr out a) (grpc_assertValue (direct_stub ops) ctx c k v) (\<lambda>u. serving repr out a)"
  unfolding grpc_assertValue_def
  by (rule succeeds_bind [OF succeeds_grpc_get]) (auto simp: succeeds_def cmd_return_def reads_as_def slice_def)

lemma succeeds_grpc_empty:
  "ctx_live ctx \<Longrightarrow> k \<noteq> [] \<Longrightarrow> a (string_bytes k) = None \<Longrightarrow>
     succeeds (serving repr out a) (grpc_assertEmpty (direct_stub ops) ctx c k) (\<lambda>u. serving repr out a)"
  unfolding grpc_assertEmpty_def
  by (rule succeeds_bind [OF succeeds_grpc_get]) (auto simp: succeeds_def cmd_return_def reads_as_def slice_def)

lemma succeeds_grpc_Println: "succeeds (serving repr out a) (Println line) (\<lambda>u. serving repr (out @ [line]) a)"
  by (simp add: succeeds_def Println_def serving_def)

lemmas grpc_triples = succeeds_cmds_Cons succeeds_cmds_end succeeds_grpc_put succeeds_grpc_delete succeeds_grpc_flush
  succeeds_grpc_compact succeeds_grpc_value succeeds_grpc_empty succeeds_grpc_Println

end

definition grpc_lines :: "string list" where
  "grpc_lines = [''stage 1: put name=alice'', ''stage 2: verified name=alice'', ''stage 3: updated and verified name=bob'',
     ''stage 4: deleted and verified name is empty'', ''stage 5: flushed, compacted, and verified city=hangzhou'',
     ''verification succeeded'']"

context kv_backend
begin

lemma succeeds_grpc_statements:
  assumes "ctx_live ctx"
  shows "succeeds (serving repr [] a) (cmds (grpc_statements (direct_stub ops) ctx c))
    (\<lambda>u. serving repr grpc_lines (a(string_bytes ''name'' := None, string_bytes ''city'' \<mapsto> string_bytes ''hangzhou'')))"
  unfolding grpc_statements_def
  by (rule grpc_triples | (simp add: assms MaxUint32_def; fail))+ (simp add: grpc_lines_def)

end

section \<open>The example ends well\<close>

text \<open>
  C40: The gRPC example succeeds against every correct server.  When \<open>Dial\<close> returns a client and the
  server at its other end runs the handlers on a store that keeps the contract of a backend, whatever
  that store holds, \<open>main\<close> prints the lines of its five stages and \<open>verification succeeded\<close> and ends
  without a fatal error; afterwards the store has the value of \<open>city\<close>, no value of \<open>name\<close>, and every
  other key as before.
\<close>

theorem grpc_example_succeeds:
  assumes "kv_backend ops repr" and "ctx_live ctx" and "con_out s = []"
    and "Dial lib id ctx addr (gx_env s) = Some (Inr c, e)" and "repr e a"
    and "\<And>conn e a. repr e a \<Longrightarrow> repr (snd (gl_Close lib conn e)) a"
  shows "\<exists>s'. grpc_main lib (direct_stub ops) ctx addr s = Some (Inr (), s') \<and> con_out s' = grpc_lines
    \<and> repr (gx_env s') (a(string_bytes ''name'' := None, string_bytes ''city'' \<mapsto> string_bytes ''hangzhou''))"
proof -
  let ?a = "a(string_bytes ''name'' := None, string_bytes ''city'' \<mapsto> string_bytes ''hangzhou'')"
  have s0: "serving repr [] a (s\<lparr>gx_env := e\<rparr>)" using assms(3,5) by (simp add: serving_def)
  obtain s1 where s1: "cmds (grpc_statements (direct_stub ops) ctx (cl_client c)) (s\<lparr>gx_env := e\<rparr>) = Some (Inr (), s1)"
    "serving repr grpc_lines ?a s1"
    using succeedsD [OF kv_backend.succeeds_grpc_statements [OF assms(1,2), where c = "cl_client c"] s0] by auto
  then show ?thesis using assms(4,6)
    by (simp add: grpc_main_def cmd_bind_def call_env_def ClientClose_def cmd_return_def serving_def)
qed

definition ready_lib :: "(nat, 'e) grpc_lib" where
  "ready_lib = \<lparr>gl_NewClient = (\<lambda>t e. (Inr 0, e)), gl_GetState = (\<lambda>conn e. (Ready, e)), gl_Connect = (\<lambda>conn e. e),
     gl_WaitForStateChange = (\<lambda>ctx conn st e. (False, e)), gl_Close = (\<lambda>conn e. (None, e))\<rparr>"

theorem grpc_example_succeeds_witness:
  "\<exists>db w s'. open_db \<lparr>opt_Dir = ''data'', opt_sstDir = [], opt_MemTableSize = 0\<rparr> \<lparr>disk = [], faults = []\<rparr> = (Inr db, w)
    \<and> grpc_main ready_lib (direct_stub standaloneStore) Background ''127.0.0.1:9001'' \<lparr>con_out = [], gx_env = (db, w)\<rparr>
      = Some (Inr (), s') \<and> last (con_out s') = ''verification succeeded''"
proof -
  let ?o = "\<lparr>opt_Dir = ''data'', opt_sstDir = [], opt_MemTableSize = 0\<rparr>"
  obtain db w where op: "open_db ?o \<lparr>disk = [], faults = []\<rparr> = (Inr db, w)" and st: "store_at ?o 0 db w Map.empty"
    using open_fresh by blast
  let ?s = "\<lparr>con_out = [], gx_env = (db, w)\<rparr>"
  have "Dial ready_lib id Background ''127.0.0.1:9001'' (gx_env ?s) = Some (Inr \<lparr>cl_conn = 0, cl_client = 0\<rparr>, db, w)"
    by (simp add: Dial_def ready_lib_def newClient_def waitReady.simps)
  from grpc_example_succeeds [OF standalone.kv_backend_axioms _ _ this db_map_store_at [OF st]]
  obtain s' where "grpc_main ready_lib (direct_stub standaloneStore) Background ''127.0.0.1:9001'' ?s = Some (Inr (), s')"
    "con_out s' = grpc_lines"
    by (auto simp: ready_lib_def)
  then show ?thesis using op by (intro exI [of _ db] exI [of _ w] exI [of _ s']) (simp add: grpc_lines_def)
qed

end
