(* ===== verification/KV_Samples.thy ===== *)
theory KV_Samples
  imports KV_Process KV_Cluster
begin

text \<open>
  The keys and values of the distributed example (\<open>example/distributed/main.go\<close>): samples are spread
  over the groups in turn by searching, for each, a key that the router sends to its group.
\<close>

section \<open>Samples\<close>

record sample =
  sa_key :: bytes
  sa_value :: bytes
  sa_groupID :: GroupID

text \<open>The base text, or its repetition up to the size.\<close>

definition value_base :: "nat \<Rightarrow> bytes" where
  "value_base index = string_bytes (''value-'' @ padded 6 index)"

definition buildValue :: "nat \<Rightarrow> int \<Rightarrow> bytes" where
  "buildValue index valueSize =
     (let base = value_base index
      in if valueSize \<le> 0 then base
         else map (\<lambda>i. base ! (i mod length base)) [0..<nat valueSize])"

text \<open>How many probes, and how many attempts for a key.\<close>

definition tries :: nat where "tries = 10000"

text \<open>Results on the left are the messages of \<open>log.Fatalf\<close>.\<close>

fun probe_groups :: "Router option \<Rightarrow> nat list \<Rightarrow> GroupID list \<Rightarrow> string + GroupID list" where
  "probe_groups router [] seen = Inr seen"
| "probe_groups router (i # is) seen =
     (let key = ''route-probe/'' @ padded 6 i
      in case RouteKey router (string_bytes key) of
           Inl err \<Rightarrow> Inl (''route probe '' @ quote key @ '': '' @ error_string err)
         | Inr route \<Rightarrow> probe_groups router is (List.insert (sr_GroupID route) seen))"

definition routedGroups :: "Router option \<Rightarrow> string + GroupID list" where
  "routedGroups router =
     (case probe_groups router [0..<tries] [] of Inl msg \<Rightarrow> Inl msg | Inr seen \<Rightarrow> Inr (sort seen))"

definition sample_key :: "string \<Rightarrow> GroupID \<Rightarrow> nat \<Rightarrow> nat \<Rightarrow> string" where
  "sample_key prefix target index attempt =
     prefix @ ''/'' @ target @ ''/'' @ padded 6 index @ ''/'' @ padded 4 attempt"

fun sample_attempts :: "string \<Rightarrow> nat \<Rightarrow> int \<Rightarrow> Router option \<Rightarrow> GroupID \<Rightarrow> nat list \<Rightarrow> string + sample" where
  "sample_attempts prefix index valueSize router target [] =
     Inl (''no key found for group '' @ quote target @ '' at sample index '' @ decimal index)"
| "sample_attempts prefix index valueSize router target (attempt # attempts) =
     (let key = sample_key prefix target index attempt
      in case RouteKey router (string_bytes key) of
           Inl err \<Rightarrow> Inl (''route key '' @ quote key @ '': '' @ error_string err)
         | Inr route \<Rightarrow>
             if target = '''' \<or> sr_GroupID route = target
             then Inr \<lparr>sa_key = string_bytes key, sa_value = buildValue index valueSize, sa_groupID = sr_GroupID route\<rparr>
             else sample_attempts prefix index valueSize router target attempts)"

definition sample_target :: "GroupID list \<Rightarrow> nat \<Rightarrow> GroupID" where
  "sample_target groups index = (if 0 < length groups then groups ! (index mod length groups) else '''')"

definition buildSample :: "string \<Rightarrow> nat \<Rightarrow> int \<Rightarrow> Router option \<Rightarrow> GroupID list \<Rightarrow> string + sample" where
  "buildSample prefix index valueSize router groups =
     sample_attempts prefix index valueSize router (sample_target groups index) [0..<tries]"

fun samples_upto :: "string \<Rightarrow> int \<Rightarrow> Router option \<Rightarrow> GroupID list \<Rightarrow> nat list \<Rightarrow> string + sample list" where
  "samples_upto prefix valueSize router groups [] = Inr []"
| "samples_upto prefix valueSize router groups (i # is) =
     (case buildSample prefix i valueSize router groups of
        Inl msg \<Rightarrow> Inl msg
      | Inr smp \<Rightarrow>
          (case samples_upto prefix valueSize router groups is of Inl msg \<Rightarrow> Inl msg | Inr samples \<Rightarrow> Inr (smp # samples)))"

text \<open>A negative amount panics: \<open>make\<close> takes it as the capacity.\<close>

definition cmd_lift :: "string + 'a \<Rightarrow> ('a, 's) command" where
  "cmd_lift r = (case r of Inl msg \<Rightarrow> log_Fatal msg | Inr a \<Rightarrow> cmd_return a)"

definition buildSamples :: "string \<Rightarrow> int \<Rightarrow> int \<Rightarrow> Router option \<Rightarrow> (sample list, 's) command" where
  "buildSamples prefix amount valueSize router =
     cmd_bind (cmd_lift (routedGroups router)) (\<lambda>groups.
       if amount < 0 then (\<lambda>s. None)
       else cmd_lift (samples_upto prefix valueSize router groups [0..<nat amount]))"

definition buildAdhocSample :: "string \<Rightarrow> nat \<Rightarrow> int \<Rightarrow> Router option \<Rightarrow> string + sample" where
  "buildAdhocSample prefix index valueSize router =
     (let key = prefix @ ''/'' @ padded 6 index
      in case RouteKey router (string_bytes key) of
           Inl err \<Rightarrow> Inl (''route key '' @ quote key @ '': '' @ error_string err)
         | Inr route \<Rightarrow> Inr \<lparr>sa_key = string_bytes key, sa_value = buildValue index valueSize, sa_groupID = sr_GroupID route\<rparr>)"

section \<open>Values and keys\<close>

lemma value_base_length: "12 \<le> length (value_base index)" "index < 1000000 \<Longrightarrow> length (value_base index) = 12"
  using length_padded [of index 6] by (simp_all add: value_base_def) (simp add: padded_def pad_zeros_def)

lemma buildValue_length: "length (buildValue index n) = (if n \<le> 0 then length (value_base index) else nat n)"
  by (simp add: buildValue_def Let_def)

lemma buildValue_nth:
  "j < length (buildValue index n) \<Longrightarrow> buildValue index n ! j = value_base index ! (j mod length (value_base index))"
  by (auto simp: buildValue_def Let_def)

lemma buildValue_nonempty: "buildValue index n \<noteq> []"
proof -
  have "0 < length (buildValue index n)"
    using value_base_length(1) [of index] unfolding buildValue_length by (auto split: if_split)
  then show ?thesis by blast
qed

text \<open>Two parts without a slash at the end of a text are determined by it.\<close>

lemma last_parts:
  assumes "xs @ c # ys = xs' @ c # ys'" and "c \<notin> set ys" and "c \<notin> set ys'"
  shows "xs = xs' \<and> ys = ys'"
  using assms by (induction xs arbitrary: xs') (auto simp: append_eq_Cons_conv Cons_eq_append_conv)

lemma padded_no_slash: "CHR ''/'' \<notin> set (padded k n)"
proof -
  have "list_all is_digit (padded k n)"
    using decimal_digits [of n] by (auto simp: padded_def pad_zeros_def list_all_iff zero_digit)
  then show ?thesis by (auto simp: list_all_iff is_digit_def)
qed

lemma sample_key_index:
  assumes "sample_key p g i a = sample_key p' g' j b"
  shows "i = j \<and> a = b"
proof -
  have "(p @ ''/'' @ g @ ''/'' @ padded 6 i) @ CHR ''/'' # padded 4 a
      = (p' @ ''/'' @ g' @ ''/'' @ padded 6 j) @ CHR ''/'' # padded 4 b"
    using assms by (simp add: sample_key_def)
  from last_parts [OF this padded_no_slash padded_no_slash]
  have 1: "(p @ ''/'' @ g) @ CHR ''/'' # padded 6 i = (p' @ ''/'' @ g') @ CHR ''/'' # padded 6 j" and "a = b"
    by simp_all
  then show ?thesis using last_parts [OF 1 padded_no_slash padded_no_slash] by simp
qed

lemma sample_attempts_Inr:
  assumes "sample_attempts prefix index valueSize router target as = Inr smp"
  shows "\<exists>attempt \<in> set as. \<exists>route. sa_key smp = string_bytes (sample_key prefix target index attempt)
    \<and> RouteKey router (sa_key smp) = Inr route \<and> sa_groupID smp = sr_GroupID route
    \<and> (target = '''' \<or> sa_groupID smp = target) \<and> sa_value smp = buildValue index valueSize"
  using assms by (induction as) (auto simp: Let_def split: sum.splits if_splits)

lemma buildSample_Inr:
  assumes "buildSample prefix index valueSize router groups = Inr smp"
  obtains attempt route where "sa_key smp = string_bytes (sample_key prefix (sample_target groups index) index attempt)"
    "RouteKey router (sa_key smp) = Inr route" "sa_groupID smp = sr_GroupID route"
    "sample_target groups index = '''' \<or> sa_groupID smp = sample_target groups index" "sa_value smp = buildValue index valueSize"
  using sample_attempts_Inr assms unfolding buildSample_def by blast

lemma sample_keys_differ:
  assumes "buildSample p i n router gs = Inr x" and "buildSample p' j n' router' gs' = Inr y" and "i \<noteq> j"
  shows "sa_key x \<noteq> sa_key y"
proof
  assume eq: "sa_key x = sa_key y"
  obtain a b where "sa_key x = string_bytes (sample_key p (sample_target gs i) i a)"
    "sa_key y = string_bytes (sample_key p' (sample_target gs' j) j b)"
    using buildSample_Inr [OF assms(1)] buildSample_Inr [OF assms(2)] by metis
  then have "sample_key p (sample_target gs i) i a = sample_key p' (sample_target gs' j) j b" using eq by simp
  then show False using sample_key_index assms(3) by blast
qed

lemma samples_upto_nth:
  "samples_upto prefix n router gs is = Inr smps \<Longrightarrow> length smps = length is
     \<and> (\<forall>j < length is. buildSample prefix (is ! j) n router gs = Inr (smps ! j))"
proof (induction "is" arbitrary: smps)
  case (Cons i "is")
  then obtain x xs where "buildSample prefix i n router gs = Inr x" "samples_upto prefix n router gs is = Inr xs" "smps = x # xs"
    by (auto split: sum.splits)
  then show ?case using Cons.IH [of xs] by (auto simp: nth_Cons less_Suc_eq_0_disj)
qed simp

lemma samples_distinct:
  assumes "samples_upto prefix n router gs [0..<amount] = Inr smps"
  shows "distinct (map sa_key smps)"
proof -
  note nth = samples_upto_nth [OF assms]
  have "sa_key (smps ! i) \<noteq> sa_key (smps ! j)" if "i < length smps" "j < length smps" "i \<noteq> j" for i j
    using sample_keys_differ [of prefix i n router gs "smps ! i" prefix j n router gs "smps ! j"] nth that by simp
  then show ?thesis by (simp add: distinct_conv_nth)
qed

lemma probe_groups_Inr:
  assumes "probe_groups router is seen = Inr gs" and "distinct seen"
  shows "distinct gs \<and> set seen \<subseteq> set gs \<and> (is \<noteq> [] \<longrightarrow> gs \<noteq> [])
    \<and> (\<forall>g \<in> set gs. g \<in> set seen \<or> (\<exists>k route. k \<noteq> [] \<and> RouteKey router k = Inr route \<and> sr_GroupID route = g))"
  using assms
proof (induction "is" arbitrary: seen)
  case (Cons i "is")
  obtain route where rt: "RouteKey router (string_bytes (''route-probe/'' @ padded 6 i)) = Inr route"
    and rest: "probe_groups router is (List.insert (sr_GroupID route) seen) = Inr gs"
    using Cons.prems(1) by (auto simp: Let_def split: sum.splits)
  have "string_bytes (''route-probe/'' @ padded 6 i) \<noteq> []" by simp
  then have new: "\<exists>k route'. k \<noteq> [] \<and> RouteKey router k = Inr route' \<and> sr_GroupID route' = sr_GroupID route"
    using rt by metis
  have "distinct (List.insert (sr_GroupID route) seen)" using Cons.prems(2) by simp
  note IH = Cons.IH [OF rest this]
  then have in_gs: "sr_GroupID route \<in> set gs" "set seen \<subseteq> set gs" by auto
  have "\<exists>k route. k \<noteq> [] \<and> RouteKey router k = Inr route \<and> sr_GroupID route = g" if "g \<in> set gs" "g \<notin> set seen" for g
    using IH that new by (cases "g = sr_GroupID route") auto
  moreover have "gs \<noteq> []" using in_gs(1) by auto
  ultimately show ?case using IH in_gs(2) by blast
qed simp

lemma routedGroups_Inr:
  assumes "routedGroups router = Inr gs"
  shows "sorted gs \<and> distinct gs \<and> gs \<noteq> [] \<and> (\<forall>g \<in> set gs. \<exists>k route. k \<noteq> [] \<and> RouteKey router k = Inr route \<and> sr_GroupID route = g)"
proof -
  obtain seen where p: "probe_groups router [0..<tries] [] = Inr seen" and gs: "gs = sort seen"
    using assms by (auto simp: routedGroups_def split: sum.splits)
  have "0 < tries" by (simp add: tries_def)
  then have "[0..<tries] \<noteq> []" by simp
  then have "distinct seen" "seen \<noteq> []" "\<forall>g \<in> set seen. \<exists>k route. k \<noteq> [] \<and> RouteKey router k = Inr route \<and> sr_GroupID route = g"
    using probe_groups_Inr [OF p] by auto
  moreover have "sort seen \<noteq> []" using \<open>seen \<noteq> []\<close> by (metis set_empty set_sort)
  ultimately show ?thesis by (simp add: gs)
qed

text \<open>
  C26: The samples of the workload are spread over the groups.  When \<open>buildSamples\<close> returns, it has
  changed nothing else, and there is one sample for each index, with the value of its index; all keys
  are different; and the key of the \<open>i\<close>-th sample routes to the \<open>i\<close>-th of the groups in turn, which is
  also the group that the sample records.
\<close>

theorem samples_spread_over_groups:
  assumes "buildSamples prefix amount valueSize router s = Some (Inr samples, s')"
    and "\<forall>k route. k \<noteq> [] \<longrightarrow> RouteKey router k = Inr route \<longrightarrow> sr_GroupID route \<noteq> ''''"
  shows "\<exists>groups. routedGroups router = Inr groups \<and> sorted groups \<and> distinct groups \<and> groups \<noteq> []
    \<and> s' = s \<and> int (length samples) = amount \<and> distinct (map sa_key samples)
    \<and> (\<forall>i < length samples. \<exists>route. RouteKey router (sa_key (samples ! i)) = Inr route
         \<and> sr_GroupID route = groups ! (i mod length groups) \<and> sa_groupID (samples ! i) = sr_GroupID route
         \<and> sa_value (samples ! i) = buildValue i valueSize)"
proof -
  obtain groups where g: "routedGroups router = Inr groups" and amount: "0 \<le> amount" and s: "s' = s"
    and smps: "samples_upto prefix valueSize router groups [0..<nat amount] = Inr samples"
    using assms(1) by (auto simp: buildSamples_def cmd_bind_def cmd_lift_def log_Fatal_def cmd_return_def
        split: sum.splits option.splits if_splits)
  note gs = routedGroups_Inr [OF g] and nth = samples_upto_nth [OF smps]
  have "\<exists>route. RouteKey router (sa_key (samples ! i)) = Inr route \<and> sr_GroupID route = groups ! (i mod length groups)
      \<and> sa_groupID (samples ! i) = sr_GroupID route \<and> sa_value (samples ! i) = buildValue i valueSize"
    if i: "i < length samples" for i
  proof -
    have target: "sample_target groups i = groups ! (i mod length groups)" "groups ! (i mod length groups) \<in> set groups"
      using gs by (simp_all add: sample_target_def)
    then obtain k route where "k \<noteq> []" "RouteKey router k = Inr route" "sr_GroupID route = groups ! (i mod length groups)"
      using gs by meson
    then have "groups ! (i mod length groups) \<noteq> ''''" using assms(2) by metis
    moreover have "buildSample prefix i valueSize router groups = Inr (samples ! i)" using nth i by simp
    ultimately show ?thesis using target(1) by (elim buildSample_Inr) auto
  qed
  moreover have "int (length samples) = amount" using nth amount by simp
  ultimately show ?thesis using g gs s samples_distinct [OF smps] by (intro exI [of _ groups]) simp
qed

text \<open>With one group every first attempt succeeds.\<close>

lemma one_group_probes:
  assumes "\<And>k. k \<noteq> [] \<Longrightarrow> \<exists>route. RouteKey router k = Inr route \<and> sr_GroupID route = g" and "set seen \<subseteq> {g}" and "distinct seen"
  shows "probe_groups router is seen = Inr (if is = [] then seen else [g])"
  using assms(2,3)
proof (induction "is" arbitrary: seen)
  case (Cons i "is")
  obtain route where "RouteKey router (string_bytes (''route-probe/'' @ padded 6 i)) = Inr route" "sr_GroupID route = g"
    using assms(1) [of "string_bytes (''route-probe/'' @ padded 6 i)"] by auto
  moreover have "List.insert g seen = [g]" using Cons.prems by (cases seen; cases "tl seen") (auto simp: List.insert_def)
  ultimately show ?case using Cons.IH [of "[g]"] by simp
qed simp

lemma one_group_routed:
  assumes "\<And>k. k \<noteq> [] \<Longrightarrow> \<exists>route. RouteKey router k = Inr route \<and> sr_GroupID route = g"
  shows "routedGroups router = Inr [g]"
proof -
  have "0 < tries" by (simp add: tries_def)
  then have "[0..<tries] \<noteq> []" by simp
  then show ?thesis using one_group_probes [OF assms, of "[]" "[0..<tries]"] by (simp add: routedGroups_def)
qed

lemma one_group_samples:
  assumes g: "\<And>k. k \<noteq> [] \<Longrightarrow> \<exists>route. RouteKey router k = Inr route \<and> sr_GroupID route = g" and "0 \<le> amount"
  shows "\<exists>samples. buildSamples prefix amount valueSize router s = Some (Inr samples, s)"
proof -
  have "0 < tries" by (simp add: tries_def)
  then have tries: "[0..<tries] = 0 # [Suc 0..<tries]" by (simp add: upt_conv_Cons)
  note groups = one_group_routed [OF g]
  have one: "\<exists>smp. buildSample prefix i valueSize router [g] = Inr smp" for i
  proof -
    have "string_bytes (sample_key prefix g i 0) \<noteq> []" by (simp add: sample_key_def)
    then obtain route where "RouteKey router (string_bytes (sample_key prefix g i 0)) = Inr route" "sr_GroupID route = g" using g by blast
    then show ?thesis by (simp add: buildSample_def sample_target_def tries Let_def)
  qed
  have "\<exists>samples. samples_upto prefix valueSize router [g] is = Inr samples" for "is"
  proof (induction "is")
    case (Cons i "is")
    then show ?case using one [of i] by auto
  qed simp
  then obtain samples where "samples_upto prefix valueSize router [g] [0..<nat amount] = Inr samples" by blast
  then show ?thesis using groups assms(2) by (simp add: buildSamples_def cmd_bind_def cmd_lift_def cmd_return_def)
qed

lemma example_cluster_routes:
  assumes "ConfigNewRouter example_cluster = Inr router" and "k \<noteq> []"
  shows "\<exists>route. RouteKey (Some router) k = Inr route \<and> sr_GroupID route = ''g1''"
proof -
  have "cluster_ok example_cluster" by (auto simp: cluster_ok_def group_ok_def replica_ok_def example_cluster_def)
  from cluster_ok_serves [OF this assms] show ?thesis by (auto simp: example_cluster_def)
qed

theorem samples_spread_over_groups_witness:
  "\<exists>router samples. ConfigNewRouter example_cluster = Inr router
    \<and> buildSamples ''bench/key'' 2 16 (Some router) () = Some (Inr samples, ())
    \<and> length samples = 2 \<and> sa_groupID (samples ! 1) = ''g1'' \<and> sa_value (samples ! 1) = string_bytes ''value-000001valu''"
proof -
  have "cluster_ok example_cluster" by (auto simp: cluster_ok_def group_ok_def replica_ok_def example_cluster_def)
  then obtain router where router: "ConfigNewRouter example_cluster = Inr router" using cluster_ok_router by blast
  note g = example_cluster_routes [OF router]
  obtain samples where run: "buildSamples ''bench/key'' 2 16 (Some router) () = Some (Inr samples, ())"
    using one_group_samples [OF g, where amount = 2 and s = "()"] by auto
  have ne: "\<forall>k route. k \<noteq> [] \<longrightarrow> RouteKey (Some router) k = Inr route \<longrightarrow> sr_GroupID route \<noteq> ''''"
    using g by fastforce
  obtain groups where groups: "routedGroups (Some router) = Inr groups" and len: "int (length samples) = 2"
    and all: "\<forall>i < length samples. \<exists>route. RouteKey (Some router) (sa_key (samples ! i)) = Inr route
      \<and> sr_GroupID route = groups ! (i mod length groups) \<and> sa_groupID (samples ! i) = sr_GroupID route
      \<and> sa_value (samples ! i) = buildValue i 16"
    using samples_spread_over_groups [OF run ne] by blast
  have "groups = [''g1'']" using groups one_group_routed [OF g] by simp
  moreover have len: "length samples = 2" using len by simp
  ultimately have "sa_groupID (samples ! 1) = ''g1''" "sa_value (samples ! 1) = buildValue 1 16"
    using all [rule_format, of 1] by auto
  moreover have "buildValue 1 16 = string_bytes ''value-000001valu''" by code_simp
  ultimately show ?thesis using router run len by auto
qed

end
