(* ===== verification/KV_Workload.thy ===== *)
theory KV_Workload
  imports KV_Samples KV_Members
begin

text \<open>
  The workload of the distributed example (\<open>example/distributed/main.go\<close>): retries, the statistics that
  goroutines share, single operations, and the write-then-read mode.  Arithmetic on floating-point
  numbers (rates, averages and percentiles) is not modelled.
\<close>

section \<open>Retries\<close>

text \<open>
  The loop over the attempts that are left.  The function's result takes along what its closure
  assigns on success; a sleep changes nothing.
\<close>

fun retry_attempts :: "Context \<Rightarrow> ('e \<Rightarrow> (err + 'a) \<times> 'e) \<Rightarrow> nat list \<Rightarrow> err option \<Rightarrow> 'e \<Rightarrow> (nat \<times> (err + 'a)) \<times> 'e" where
  "retry_attempts ctx fn [] lastErr e = ((60, Inl (the lastErr)), e)"
| "retry_attempts ctx fn (attempt # attempts) lastErr e =
     (case ctx_Err ctx attempt of
        Some err \<Rightarrow> ((attempt, Inl (case lastErr of Some l \<Rightarrow> l | None \<Rightarrow> err)), e)
      | None \<Rightarrow>
          (case fn e of
             (Inl err, e1) \<Rightarrow> retry_attempts ctx fn attempts (Some err) e1
           | (Inr a, e1) \<Rightarrow> ((attempt, Inr a), e1)))"

definition retryMeasured :: "Context \<Rightarrow> ('e \<Rightarrow> (err + 'a) \<times> 'e) \<Rightarrow> 'e \<Rightarrow> (nat \<times> (err + 'a)) \<times> 'e" where
  "retryMeasured ctx fn e = retry_attempts ctx fn [1..<61] None e"

definition retry :: "Context \<Rightarrow> ('e \<Rightarrow> (err + 'a) \<times> 'e) \<Rightarrow> 'e \<Rightarrow> (err + 'a) \<times> 'e" where
  "retry ctx fn e = (case retryMeasured ctx fn e of ((attempts, r), e1) \<Rightarrow> (r, e1))"

text \<open>The environment after some calls.\<close>

primrec after_calls :: "('e \<Rightarrow> (err + 'a) \<times> 'e) \<Rightarrow> nat \<Rightarrow> 'e \<Rightarrow> 'e" where
  "after_calls fn 0 e = e"
| "after_calls fn (Suc i) e = snd (fn (after_calls fn i e))"

abbreviation call_result :: "('e \<Rightarrow> (err + 'a) \<times> 'e) \<Rightarrow> nat \<Rightarrow> 'e \<Rightarrow> err + 'a" where
  "call_result fn i e \<equiv> fst (fn (after_calls fn i e))"

text \<open>After \<open>k\<close> calls the loop has ended with \<open>n\<close> attempts and the result \<open>r\<close>.\<close>

definition retry_ends :: "Context \<Rightarrow> ('e \<Rightarrow> (err + 'a) \<times> 'e) \<Rightarrow> 'e \<Rightarrow> nat \<Rightarrow> nat \<Rightarrow> err + 'a \<Rightarrow> bool" where
  "retry_ends ctx fn e k n r \<longleftrightarrow>
     k \<le> 60 \<and> (\<forall>i < k. ctx_Err ctx (i + 1) = None)
     \<and> (case r of
          Inr a \<Rightarrow> 0 < k \<and> n = k \<and> call_result fn (k - 1) e = Inr a \<and> (\<forall>i < k - 1. isl (call_result fn i e))
        | Inl err \<Rightarrow> (\<forall>i < k. isl (call_result fn i e))
            \<and> (if k = 60 then n = 60 \<and> call_result fn 59 e = Inl err
               else \<exists>c. ctx_Err ctx (k + 1) = Some c \<and> n = k + 1
                 \<and> (if k = 0 then err = c else call_result fn (k - 1) e = Inl err)))"

lemma retry_attempts_ends:
  assumes "m \<le> 60" and "\<forall>i < m. isl (call_result fn i e) \<and> ctx_Err ctx (i + 1) = None"
    and "case lastErr of None \<Rightarrow> m = 0 | Some l \<Rightarrow> 0 < m \<and> call_result fn (m - 1) e = Inl l"
  shows "\<exists>k n r. retry_attempts ctx fn [Suc m..<61] lastErr (after_calls fn m e) = ((n, r), after_calls fn k e) \<and> retry_ends ctx fn e k n r"
  using assms
proof (induction "60 - m" arbitrary: m lastErr)
  case 0
  then obtain l where "lastErr = Some l" "m = 60" "call_result fn 59 e = Inl l" by (cases lastErr) auto
  then show ?case using "0.prems"(2) by (intro exI [of _ 60] exI [of _ "Inl l"]) (simp add: retry_ends_def)
next
  case (Suc d)
  then have m: "m < 60" by simp
  then have upt: "[Suc m..<61] = Suc m # [Suc (Suc m)..<61]" by (simp add: upt_conv_Cons)
  show ?case
  proof (cases "ctx_Err ctx (Suc m)")
    case (Some c)
    then show ?thesis using Suc.prems m upt
      by (intro exI [of _ m] exI [of _ "Suc m"] exI [of _ "Inl (case lastErr of Some l \<Rightarrow> l | None \<Rightarrow> c)"])
        (auto simp: retry_ends_def split: option.splits)
  next
    case live: None
    obtain r e1 where call: "fn (after_calls fn m e) = (r, e1)" by (metis prod.exhaust)
    show ?thesis
    proof (cases r)
      case (Inr a)
      then show ?thesis using Suc.prems(2) m upt live call
        by (intro exI [of _ "Suc m"] exI [of _ "Inr a"]) (auto simp: retry_ends_def less_Suc_eq)
    next
      case (Inl err)
      have "d = 60 - Suc m" using Suc.hyps(2) by simp
      moreover have "\<forall>i < Suc m. isl (call_result fn i e) \<and> ctx_Err ctx (i + 1) = None"
        using Suc.prems(2) live call Inl by (auto simp: less_Suc_eq)
      moreover have "e1 = after_calls fn (Suc m) e" using call by simp
      ultimately show ?thesis using Suc.hyps(1) [of "Suc m" "Some err"] m upt live call Inl by simp
    qed
  qed
qed

text \<open>
  C30: \<open>retryMeasured\<close> makes at most sixty calls and stops at the first success.  It returns what the
  number of attempts and the error are: a success at the \<open>k\<close>-th call, after failures, with \<open>k\<close> attempts;
  or, when all calls fail, the error of the last one, after sixty attempts or, with one attempt more than
  calls, when the context has ended before the next; the context's own error only when there was no call
  at all.  The state is the one after these calls.
\<close>

theorem retryMeasured_result:
  "\<exists>k n r. retryMeasured ctx fn e = ((n, r), after_calls fn k e) \<and> retry_ends ctx fn e k n r"
  using retry_attempts_ends [of 0 fn e ctx None] by (simp add: retryMeasured_def)

text \<open>A first call that succeeds is the only one.\<close>

lemma retryMeasured_first: "ctx_live ctx \<Longrightarrow> fn e = (Inr a, e1) \<Longrightarrow> retryMeasured ctx fn e = ((1, Inr a), e1)"
  by (simp add: retryMeasured_def upt_conv_Cons ctx_live_def)

section \<open>Statistics\<close>

record opStats =
  os_latencies :: "int list"
  os_ops :: "64 word"
  os_readOps :: "64 word"
  os_writeOps :: "64 word"
  os_errors :: "64 word"
  os_retries :: "64 word"
  os_notLeader :: "64 word"
  os_bytesWritten :: "64 word"
  os_groupCounts :: "(GroupID \<times> int) list"

definition newOpStats :: opStats where
  "newOpStats = \<lparr>os_latencies = [], os_ops = 0, os_readOps = 0, os_writeOps = 0, os_errors = 0, os_retries = 0,
     os_notLeader = 0, os_bytesWritten = 0, os_groupCounts = []\<rparr>"

definition stats_record :: "GroupID \<Rightarrow> int \<Rightarrow> nat \<Rightarrow> err option \<Rightarrow> opStats \<Rightarrow> opStats" where
  "stats_record groupID latency attempts err s =
     (let s1 = s\<lparr>os_ops := os_ops s + 1\<rparr>;
          s2 = (if attempts > 1 then s1\<lparr>os_retries := os_retries s1 + of_nat (attempts - 1)\<rparr> else s1);
          s3 = (case err of
                  None \<Rightarrow> s2
                | Some x \<Rightarrow>
                    (let s' = s2\<lparr>os_errors := os_errors s2 + 1\<rparr>
                     in if IsNotLeader x then s'\<lparr>os_notLeader := os_notLeader s' + 1\<rparr> else s'))
      in s3\<lparr>os_latencies := os_latencies s3 @ [latency],
            os_groupCounts := AList.update groupID (entry_or 0 (os_groupCounts s3) groupID + 1) (os_groupCounts s3)\<rparr>)"

definition recordRead :: "GroupID \<Rightarrow> int \<Rightarrow> nat \<Rightarrow> err option \<Rightarrow> opStats \<Rightarrow> opStats" where
  "recordRead groupID latency attempts err s =
     (let s1 = stats_record groupID latency attempts err s in s1\<lparr>os_readOps := os_readOps s1 + 1\<rparr>)"

definition recordWrite :: "GroupID \<Rightarrow> nat \<Rightarrow> int \<Rightarrow> nat \<Rightarrow> err option \<Rightarrow> opStats \<Rightarrow> opStats" where
  "recordWrite groupID bytes latency attempts err s =
     (let s1 = stats_record groupID latency attempts err s
      in s1\<lparr>os_writeOps := os_writeOps s1 + 1, os_bytesWritten := os_bytesWritten s1 + of_nat bytes\<rparr>)"

definition recordError :: "opStats \<Rightarrow> opStats" where
  "recordError s = s\<lparr>os_ops := os_ops s + 1, os_errors := os_errors s + 1\<rparr>"

text \<open>The counters of a snapshot, the sorted latencies and their sum, of which it computes its averages.\<close>

record statsSnapshot =
  ss_ops :: "64 word"
  ss_readOps :: "64 word"
  ss_writeOps :: "64 word"
  ss_errors :: "64 word"
  ss_retries :: "64 word"
  ss_notLeader :: "64 word"
  ss_bytesWritten :: "64 word"
  ss_elapsed :: int
  ss_latencies :: "int list"
  ss_total :: "64 word"
  ss_groupCounts :: "GroupID \<Rightarrow> int"

definition snapshot :: "int \<Rightarrow> opStats \<Rightarrow> statsSnapshot" where
  "snapshot elapsed s =
     (let latencies = sort (os_latencies s)
      in \<lparr>ss_ops = os_ops s, ss_readOps = os_readOps s, ss_writeOps = os_writeOps s, ss_errors = os_errors s,
          ss_retries = os_retries s, ss_notLeader = os_notLeader s, ss_bytesWritten = os_bytesWritten s,
          ss_elapsed = elapsed, ss_latencies = latencies, ss_total = fold (\<lambda>l t. t + word_of_int l) latencies 0,
          ss_groupCounts = entry_or 0 (os_groupCounts s)\<rparr>)"

text \<open>What a goroutine may record.\<close>

datatype op_event = ReadEvent GroupID int nat "err option" | WriteEvent GroupID nat int nat "err option" | ErrorEvent

fun stats_event :: "op_event \<Rightarrow> opStats \<Rightarrow> opStats" where
  "stats_event (ReadEvent g l a r) s = recordRead g l a r s"
| "stats_event (WriteEvent g b l a r) s = recordWrite g b l a r s"
| "stats_event ErrorEvent s = recordError s"

fun ev_failed :: "op_event \<Rightarrow> bool" where
  "ev_failed (ReadEvent g l a r) \<longleftrightarrow> r \<noteq> None"
| "ev_failed (WriteEvent g b l a r) \<longleftrightarrow> r \<noteq> None"
| "ev_failed ErrorEvent \<longleftrightarrow> True"

fun ev_notLeader :: "op_event \<Rightarrow> bool" where
  "ev_notLeader (ReadEvent g l a r) \<longleftrightarrow> (case r of None \<Rightarrow> False | Some x \<Rightarrow> IsNotLeader x)"
| "ev_notLeader (WriteEvent g b l a r) \<longleftrightarrow> (case r of None \<Rightarrow> False | Some x \<Rightarrow> IsNotLeader x)"
| "ev_notLeader ErrorEvent \<longleftrightarrow> False"

fun ev_retries :: "op_event \<Rightarrow> nat" where
  "ev_retries (ReadEvent g l a r) = a - 1"
| "ev_retries (WriteEvent g b l a r) = a - 1"
| "ev_retries ErrorEvent = 0"

fun ev_bytes :: "op_event \<Rightarrow> nat" where
  "ev_bytes (WriteEvent g b l a r) = b"
| "ev_bytes _ = 0"

fun ev_groups :: "op_event \<Rightarrow> GroupID list" where
  "ev_groups (ReadEvent g l a r) = [g]"
| "ev_groups (WriteEvent g b l a r) = [g]"
| "ev_groups ErrorEvent = []"

fun ev_latencies :: "op_event \<Rightarrow> int list" where
  "ev_latencies (ReadEvent g l a r) = [l]"
| "ev_latencies (WriteEvent g b l a r) = [l]"
| "ev_latencies ErrorEvent = []"

fun is_read :: "op_event \<Rightarrow> bool" where "is_read (ReadEvent g l a r) \<longleftrightarrow> True" | "is_read _ \<longleftrightarrow> False"
fun is_write :: "op_event \<Rightarrow> bool" where "is_write (WriteEvent g b l a r) \<longleftrightarrow> True" | "is_write _ \<longleftrightarrow> False"

definition counted :: "op_event multiset \<Rightarrow> opStats \<Rightarrow> bool" where
  "counted evs s \<longleftrightarrow>
     os_ops s = of_nat (size evs) \<and> os_readOps s = of_nat (size (filter_mset is_read evs))
     \<and> os_writeOps s = of_nat (size (filter_mset is_write evs)) \<and> os_errors s = of_nat (size (filter_mset ev_failed evs))
     \<and> os_notLeader s = of_nat (size (filter_mset ev_notLeader evs))
     \<and> os_retries s = of_nat (sum_mset (image_mset ev_retries evs)) \<and> os_bytesWritten s = of_nat (sum_mset (image_mset ev_bytes evs))
     \<and> mset (os_latencies s) = sum_mset (image_mset (mset \<circ> ev_latencies) evs)
     \<and> (\<forall>g. entry_or 0 (os_groupCounts s) g = int (count (sum_mset (image_mset (mset \<circ> ev_groups) evs)) g))"

lemma counted_new: "counted {#} newOpStats"
  by (simp add: counted_def newOpStats_def entry_or_def)

lemma entry_or_update: "entry_or z (AList.update k v al) i = (if i = k then v else entry_or z al i)"
  by (simp add: entry_or_def update_conv)

lemma counted_event: "counted evs s \<Longrightarrow> counted (add_mset ev evs) (stats_event ev s)"
  by (cases ev) (auto simp: counted_def recordRead_def recordWrite_def recordError_def stats_record_def Let_def entry_or_update
      split: option.splits)

lemma counted_events: "counted evs s \<Longrightarrow> counted (mset es + evs) (fold stats_event es s)"
proof (induction es arbitrary: evs s)
  case (Cons ev es)
  then show ?case using Cons.IH [OF counted_event [OF Cons.prems, of ev]] by simp
qed simp

text \<open>
  C27: The statistics do not depend on the interleaving.  Whatever operations the goroutines record, in
  any order, the counters are the numbers of operations, reads, writes, failures, refusals, retries and
  bytes, and every group has the number of its operations; two orders of the same operations give the
  same snapshot.
\<close>

theorem statistics_count_operations:
  "counted (mset evs) (fold stats_event evs newOpStats)
   \<and> (\<forall>evs'. mset evs' = mset evs \<longrightarrow>
        snapshot elapsed (fold stats_event evs' newOpStats) = snapshot elapsed (fold stats_event evs newOpStats))"
proof -
  have all: "counted (mset es) (fold stats_event es newOpStats)" for es
    using counted_events [OF counted_new, of es] by simp
  have "snapshot elapsed (fold stats_event es newOpStats) = snapshot elapsed (fold stats_event evs newOpStats)"
    if "mset es = mset evs" for es
  proof -
    have es: "counted (mset evs) (fold stats_event es newOpStats)" using all [of es] that by simp
    then have "mset (os_latencies (fold stats_event es newOpStats)) = mset (os_latencies (fold stats_event evs newOpStats))"
      using all [of evs] unfolding counted_def by (metis (no_types))
    then have "sort (os_latencies (fold stats_event es newOpStats)) = sort (os_latencies (fold stats_event evs newOpStats))"
      by (metis properties_for_sort mset_sort sorted_sort)
    then show ?thesis using es all [of evs] unfolding counted_def snapshot_def Let_def by (simp add: fun_eq_iff)
  qed
  then show ?thesis using all by blast
qed

theorem statistics_count_operations_witness:
  "snapshot 9 (fold stats_event [ErrorEvent, WriteEvent ''g1'' 12 4 1 None, ReadEvent ''g2'' 3 2 (Some EOF)] newOpStats)
   = snapshot 9 (fold stats_event [ReadEvent ''g2'' 3 2 (Some EOF), WriteEvent ''g1'' 12 4 1 None, ErrorEvent] newOpStats)"
proof -
  have "mset [ErrorEvent, WriteEvent ''g1'' 12 4 1 None, ReadEvent ''g2'' 3 2 (Some EOF)]
    = mset [ReadEvent ''g2'' 3 2 (Some EOF), WriteEvent ''g1'' 12 4 1 None, ErrorEvent]"
    by (simp add: add_mset_commute)
  then show ?thesis by (rule conjunct2 [OF statistics_count_operations, rule_format])
qed

end
