(* ===== verification/KV_Distributed.thy ===== *)
theory KV_Distributed
  imports KV_Workload
begin

text \<open>
  The workload of the distributed example (\<open>example/distributed/main.go\<close>): its client, the operations
  that it measures, and the write-then-read mode.
\<close>

section \<open>The client of the workload\<close>

text \<open>
  \<open>e\<close> is all that the calls may change, the client included; the clock is a part of it.
\<close>

record 'e routed =
  rt_Put :: "Context \<Rightarrow> bytes \<Rightarrow> bytes \<Rightarrow> 'e \<Rightarrow> err option \<times> 'e"
  rt_Get :: "Context \<Rightarrow> bytes \<Rightarrow> 'e \<Rightarrow> (err + bytes option) \<times> 'e"
  rt_Now :: "'e \<Rightarrow> int"

definition routed_client ::
  "'s store_ops \<Rightarrow> string set \<Rightarrow> (string RoutedClient option \<times> 's processes \<Rightarrow> int)
    \<Rightarrow> (string RoutedClient option \<times> 's processes) routed" where
  "routed_client ops up now = \<lparr>
     rt_Put = (\<lambda>ctx k v (rc, e). RoutedPut (dial_up up) close_up (server_stub ops) ctx k v rc e),
     rt_Get = (\<lambda>ctx k (rc, e). RoutedGet (dial_up up) close_up (server_stub ops) ctx k rc e),
     rt_Now = now\<rparr>"

text \<open>What the workload relies on: while the context lives, the client reads and writes one map.\<close>

locale kv_client =
  fixes api :: "'e routed" and holds :: "'e \<Rightarrow> (bytes \<rightharpoonup> bytes) \<Rightarrow> bool"
  assumes put: "ctx_live ctx \<Longrightarrow> holds e a \<Longrightarrow> op_valid (OpPut k v) \<Longrightarrow> \<exists>e'. rt_Put api ctx k v e = (None, e') \<and> holds e' (a(k \<mapsto> v))"
    and get: "ctx_live ctx \<Longrightarrow> holds e a \<Longrightarrow> k \<noteq> [] \<Longrightarrow> \<exists>g e'. rt_Get api ctx k e = (Inr g, e') \<and> holds e' a \<and> reads_as (a k) g"

definition client_holds ::
  "Config \<Rightarrow> Router \<Rightarrow> string set \<Rightarrow> string RoutedClient option \<times> member processes \<Rightarrow> (bytes \<rightharpoonup> bytes) \<Rightarrow> bool" where
  "client_holds cfg router up s a \<longleftrightarrow>
     cluster_ok cfg \<and> ConfigNewRouter cfg = Inr router
     \<and> (\<exists>c m. fst s = Some c \<and> client_ok cfg router up c
          \<and> cluster_led member_leads member_follows cfg router up (snd s) m \<and> a = cluster_map router m)"

lemma answers_got:
  assumes "answers (ReqGet k) a (Got x)" and "k \<noteq> []"
  obtains g where "x = Inr g" "reads_as (a k) g"
  using assms by (cases x) auto

interpretation workload: kv_client "routed_client (raft_ops (newRaftStore (node_methods member_lib) config)) up now"
  "client_holds cfg router up" for config up now cfg router
proof
  let ?ops = "raft_ops (newRaftStore (node_methods member_lib) config)"
  fix ctx s a k v
  assume live: "ctx_live ctx" and "client_holds cfg router up s a"
  then obtain c e m where s: "s = (Some c, e)" and ok: "cluster_ok cfg" "ConfigNewRouter cfg = Inr router" "client_ok cfg router up c"
    "cluster_led member_leads member_follows cfg router up e m" and a: "a = cluster_map router m"
    by (cases s) (auto simp: client_holds_def)
  have holds: "client_holds cfg router up (Some c', e') (cluster_map router m')"
    if "client_ok cfg router up c'" "cluster_led member_leads member_follows cfg router up e' m'" for c' e' m'
    using that ok unfolding client_holds_def by (metis fst_conv snd_conv)
  note request = members.client_request [where config = config, OF ok live]
  show "\<exists>s'. rt_Put (routed_client ?ops up now) ctx k v s = (None, s') \<and> client_holds cfg router up s' (a(k \<mapsto> v))"
    if "op_valid (OpPut k v)"
    using request [of "ReqPut k v"] that
    by (auto simp: routed_client_def s a apfst_def map_prod_def split: prod.splits dest: holds)
  show "\<exists>g s'. rt_Get (routed_client ?ops up now) ctx k s = (Inr g, s') \<and> client_holds cfg router up s' a \<and> reads_as (a k) g"
    if "k \<noteq> []"
    using request [of "ReqGet k"] that
    by (auto simp: routed_client_def s a apfst_def map_prod_def split: prod.splits dest: holds elim!: answers_got)
qed

section \<open>Operations\<close>

record 'e work =
  wk_env :: 'e
  wk_stats :: opStats

definition put_sample :: "'e routed \<Rightarrow> Context \<Rightarrow> sample \<Rightarrow> 'e \<Rightarrow> (err + unit) \<times> 'e" where
  "put_sample api ctx smp e =
     (case rt_Put api ctx (sa_key smp) (sa_value smp) e of (None, e1) \<Rightarrow> (Inr (), e1) | (Some err, e1) \<Rightarrow> (Inl err, e1))"

definition error_of :: "err + 'a \<Rightarrow> err option" where
  "error_of r = (case r of Inl err \<Rightarrow> Some err | Inr a \<Rightarrow> None)"

definition got_wrong :: "sample \<Rightarrow> bytes option \<Rightarrow> string" where
  "got_wrong smp got = ''get '' @ quote (bytes_text (Some (sa_key smp))) @ '' = '' @ quote (bytes_text got)
     @ '', want '' @ quote (bytes_text (Some (sa_value smp)))"

definition runReadOp :: "'e routed \<Rightarrow> Context \<Rightarrow> sample \<Rightarrow> ('e, 'z) work_scheme \<Rightarrow> ('e, 'z) work_scheme" where
  "runReadOp api ctx smp s =
     (let start = rt_Now api (wk_env s)
      in case retryMeasured ctx (rt_Get api ctx (sa_key smp)) (wk_env s) of
           ((attempts, r), e1) \<Rightarrow>
             (let err = (case r of
                           Inl err \<Rightarrow> Some err
                         | Inr got \<Rightarrow> if slice got \<noteq> sa_value smp then Some (Errorf (got_wrong smp got)) else None)
              in s\<lparr>wk_env := e1, wk_stats := recordRead (sa_groupID smp) (rt_Now api e1 - start) attempts err (wk_stats s)\<rparr>))"

definition runWriteOp ::
  "'e routed \<Rightarrow> Context \<Rightarrow> sample \<Rightarrow> ('e, 'z) work_scheme \<Rightarrow> err option \<times> ('e, 'z) work_scheme" where
  "runWriteOp api ctx smp s =
     (let start = rt_Now api (wk_env s)
      in case retryMeasured ctx (put_sample api ctx smp) (wk_env s) of
           ((attempts, r), e1) \<Rightarrow>
             (error_of r,
              s\<lparr>wk_env := e1, wk_stats := recordWrite (sa_groupID smp) (length (sa_value smp)) (rt_Now api e1 - start) attempts
                  (error_of r) (wk_stats s)\<rparr>))"

definition preloadSamples :: "'e routed \<Rightarrow> Context \<Rightarrow> sample list \<Rightarrow> (unit, ('e, 'z) work_scheme) command" where
  "preloadSamples api ctx =
     cmd_each (\<lambda>smp s.
       case retry ctx (put_sample api ctx smp) (wk_env s) of
         (Inl err, e1) \<Rightarrow>
           log_Fatal (''preload put '' @ quote (bytes_text (Some (sa_key smp))) @ '': '' @ error_string err) (s\<lparr>wk_env := e1\<rparr>)
       | (Inr u, e1) \<Rightarrow> cmd_return () (s\<lparr>wk_env := e1\<rparr>))"

definition verifyClientSamples :: "'e routed \<Rightarrow> Context \<Rightarrow> sample list \<Rightarrow> (unit, ('e, 'z) work_scheme) command" where
  "verifyClientSamples api ctx =
     cmd_each (\<lambda>smp s.
       case retry ctx (rt_Get api ctx (sa_key smp)) (wk_env s) of
         (Inl err, e1) \<Rightarrow>
           log_Fatal (''verify get '' @ quote (bytes_text (Some (sa_key smp))) @ '': '' @ error_string err) (s\<lparr>wk_env := e1\<rparr>)
       | (Inr got, e1) \<Rightarrow>
           if slice got \<noteq> sa_value smp then log_Fatal (''verify '' @ got_wrong smp got) (s\<lparr>wk_env := e1\<rparr>)
           else cmd_return () (s\<lparr>wk_env := e1\<rparr>))"

section \<open>The write-then-read mode\<close>

record runConfig =
  rc_dir :: string
  rc_requests :: int
  rc_timeout :: int
  rc_concurrency :: int
  rc_valueSize :: int
  rc_readRatio :: int
  rc_duration :: int
  rc_warmup :: int
  rc_reportPath :: string

definition legacy_put :: "'e routed \<Rightarrow> Context \<Rightarrow> sample \<Rightarrow> (unit, ('e, 'z) work_scheme) command" where
  "legacy_put api ctx smp s =
     (case runWriteOp api ctx smp s of
        (Some err, s1) \<Rightarrow> log_Fatal (''put '' @ quote (bytes_text (Some (sa_key smp))) @ '': '' @ error_string err) s1
      | (None, s1) \<Rightarrow> cmd_return () s1)"

definition legacy_get :: "'e routed \<Rightarrow> Context \<Rightarrow> sample \<Rightarrow> (unit, ('e, 'z) work_scheme) command" where
  "legacy_get api ctx smp s =
     (let start = rt_Now api (wk_env s)
      in case retryMeasured ctx (rt_Get api ctx (sa_key smp)) (wk_env s) of
           ((attempts, r), e1) \<Rightarrow>
             (let s1 = s\<lparr>wk_env := e1, wk_stats := recordRead (sa_groupID smp) (rt_Now api e1 - start) attempts (error_of r) (wk_stats s)\<rparr>
              in case r of
                   Inl err \<Rightarrow> log_Fatal (''get '' @ quote (bytes_text (Some (sa_key smp))) @ '': '' @ error_string err) s1
                 | Inr got \<Rightarrow> if slice got \<noteq> sa_value smp then log_Fatal (got_wrong smp got) s1 else cmd_return () s1))"

text \<open>Without the line that \<open>measure\<close> prints, with a rate.\<close>

definition measure_cmd :: "'e routed \<Rightarrow> (unit, ('e, 'z) work_scheme) command \<Rightarrow> (int, ('e, 'z) work_scheme) command" where
  "measure_cmd api fn s = cmd_bind fn (\<lambda>u s1. cmd_return (rt_Now api (wk_env s1) - rt_Now api (wk_env s)) s1) s"

definition runLegacyWorkload ::
  "'e routed \<Rightarrow> Context \<Rightarrow> Router option \<Rightarrow> runConfig \<Rightarrow> (sample list \<times> statsSnapshot, ('e, 'z) work_scheme) command" where
  "runLegacyWorkload api ctx router config =
     cmd_bind (buildSamples ''bench/key'' (rc_requests config) (rc_valueSize config) router) (\<lambda>samples.
       cmd_bind (\<lambda>s. cmd_return () (s\<lparr>wk_stats := newOpStats\<rparr>)) (\<lambda>u.
         cmd_bind (measure_cmd api (cmd_each (legacy_put api ctx) samples)) (\<lambda>writeElapsed.
           cmd_bind (measure_cmd api (cmd_each (legacy_get api ctx) samples)) (\<lambda>readElapsed s.
             cmd_return (samples, snapshot (writeElapsed + readElapsed) (wk_stats s)) s))))"

section \<open>Operations while the client keeps its contract\<close>

definition fits :: "sample \<Rightarrow> bool" where
  "fits smp \<longleftrightarrow> op_valid (OpPut (sa_key smp) (sa_value smp))"

definition stored :: "(bytes \<rightharpoonup> bytes) \<Rightarrow> sample \<Rightarrow> bool" where
  "stored a smp \<longleftrightarrow> sa_key smp \<noteq> [] \<and> a (sa_key smp) = Some (sa_value smp)"

abbreviation store_sample :: "sample \<Rightarrow> (bytes \<rightharpoonup> bytes) \<Rightarrow> bytes \<rightharpoonup> bytes" where
  "store_sample smp a \<equiv> a(sa_key smp \<mapsto> sa_value smp)"

text \<open>The statistics are those of operations that all succeeded at their first attempt.\<close>

fun first_try :: "op_event \<Rightarrow> bool" where
  "first_try (ReadEvent g l n r) \<longleftrightarrow> n = 1 \<and> r = None"
| "first_try (WriteEvent g b l n r) \<longleftrightarrow> n = 1 \<and> r = None"
| "first_try ErrorEvent \<longleftrightarrow> False"

definition clean_stats :: "nat \<Rightarrow> nat \<Rightarrow> opStats \<Rightarrow> bool" where
  "clean_stats reads writes st \<longleftrightarrow>
     (\<exists>evs. counted evs st \<and> (\<forall>ev \<in># evs. first_try ev) \<and> size (filter_mset is_read evs) = reads
        \<and> size (filter_mset is_write evs) = writes)"

lemma clean_stats_new: "clean_stats 0 0 newOpStats"
  using counted_new unfolding clean_stats_def by (intro exI [of _ "{#}"]) simp

lemma clean_stats_event:
  assumes "clean_stats m n st" and "first_try ev"
  shows "clean_stats (m + of_bool (is_read ev)) (n + of_bool (is_write ev)) (stats_event ev st)"
proof -
  obtain evs where "counted evs st" "\<forall>ev \<in># evs. first_try ev" "size (filter_mset is_read evs) = m" "size (filter_mset is_write evs) = n"
    using assms(1) by (auto simp: clean_stats_def)
  then show ?thesis using assms(2) counted_event [of evs st ev] unfolding clean_stats_def
    by (intro exI [of _ "add_mset ev evs"]) auto
qed

lemma clean_stats_counts:
  assumes "clean_stats m n st"
  shows "os_ops st = of_nat (m + n) \<and> os_readOps st = of_nat m \<and> os_writeOps st = of_nat n
    \<and> os_errors st = 0 \<and> os_retries st = 0 \<and> os_notLeader st = 0"
proof -
  obtain evs where evs: "counted evs st" "\<forall>ev \<in># evs. first_try ev" "size (filter_mset is_read evs) = m" "size (filter_mset is_write evs) = n"
    using assms by (auto simp: clean_stats_def)
  have "(\<forall>ev \<in># evs. first_try ev) \<Longrightarrow> size evs = size (filter_mset is_read evs) + size (filter_mset is_write evs)
      \<and> filter_mset ev_failed evs = {#} \<and> filter_mset ev_notLeader evs = {#} \<and> sum_mset (image_mset ev_retries evs) = 0"
  proof (induction evs)
    case (add ev evs)
    then show ?case by (cases ev) auto
  qed simp
  then have c: "size evs = size (filter_mset is_read evs) + size (filter_mset is_write evs)"
    "filter_mset ev_failed evs = {#}" "filter_mset ev_notLeader evs = {#}" "sum_mset (image_mset ev_retries evs) = 0"
    using evs(2) by blast+
  show ?thesis using evs(1) [unfolded counted_def c evs(3,4)] by simp
qed

lemma buildSamples_length:
  assumes "buildSamples pfx amount valueSize router s = Some (Inr samples, s')"
  shows "int (length samples) = amount"
  using assms samples_upto_nth
  by (fastforce simp: buildSamples_def cmd_bind_def cmd_lift_def log_Fatal_def cmd_return_def split: sum.splits option.splits if_splits)

text \<open>The snapshot of a run without errors and retries.\<close>

definition clean_run :: "nat \<Rightarrow> nat \<Rightarrow> statsSnapshot \<Rightarrow> bool" where
  "clean_run reads writes snap \<longleftrightarrow>
     ss_ops snap = of_nat (reads + writes) \<and> ss_readOps snap = of_nat reads \<and> ss_writeOps snap = of_nat writes
     \<and> ss_errors snap = 0 \<and> ss_retries snap = 0 \<and> ss_notLeader snap = 0"

lemma clean_snapshot: "clean_stats m n st \<Longrightarrow> clean_run m n (snapshot elapsed st)"
  using clean_stats_counts by (simp add: clean_run_def snapshot_def Let_def)

lemma store_samples_other: "k \<notin> sa_key ` set smps \<Longrightarrow> fold store_sample smps a k = a k"
  by (induction smps arbitrary: a) auto

lemma stored_fold:
  assumes "distinct (map sa_key smps)" and "\<forall>smp \<in> set smps. fits smp" and "smp \<in> set smps"
  shows "stored (fold store_sample smps a) smp"
  using assms
proof (induction smps arbitrary: a)
  case (Cons x xs)
  show ?case
  proof (cases "smp = x")
    case True
    have "sa_key x \<notin> sa_key ` set xs" "sa_key x \<noteq> []" using Cons.prems(1,2) by (auto simp: fits_def)
    then show ?thesis using True store_samples_other [of "sa_key x" xs "store_sample x a"]
      by (simp add: stored_def fun_upd_same del: fun_upd_apply)
  qed (use Cons in auto)
qed simp

lemma buildSamples_distinct:
  assumes "buildSamples pfx amount valueSize router s = Some (Inr samples, s')"
  shows "distinct (map sa_key samples)"
  using assms samples_distinct
  by (auto simp: buildSamples_def cmd_bind_def cmd_lift_def log_Fatal_def cmd_return_def split: sum.splits option.splits if_splits)

context kv_client
begin

lemma put_first:
  assumes "ctx_live ctx" and "holds e a" and "fits smp"
  shows "\<exists>e'. retryMeasured ctx (put_sample api ctx smp) e = ((1, Inr ()), e') \<and> holds e' (store_sample smp a)"
proof -
  obtain e' where "rt_Put api ctx (sa_key smp) (sa_value smp) e = (None, e')" "holds e' (store_sample smp a)"
    using put [OF assms(1,2)] assms(3) unfolding fits_def by blast
  then show ?thesis using retryMeasured_first [OF assms(1), of "put_sample api ctx smp" e "()" e'] by (simp add: put_sample_def)
qed

lemma get_first:
  assumes "ctx_live ctx" and "holds e a" and "stored a smp"
  shows "\<exists>got e'. retryMeasured ctx (rt_Get api ctx (sa_key smp)) e = ((1, Inr got), e') \<and> holds e' a \<and> slice got = sa_value smp"
proof -
  obtain got e' where g: "rt_Get api ctx (sa_key smp) e = (Inr got, e')" "holds e' a" "reads_as (a (sa_key smp)) got"
    using get [OF assms(1,2)] assms(3) unfolding stored_def by blast
  then have "slice got = sa_value smp" using assms(3) by (simp add: stored_def reads_as_def slice_def)
  then show ?thesis using g retryMeasured_first [where fn = "rt_Get api ctx (sa_key smp)" and a = got, OF assms(1) g(1)] by blast
qed

lemma write_op:
  assumes "ctx_live ctx" and "holds (wk_env s) a" and "fits smp" and "clean_stats m n (wk_stats s)"
  shows "\<exists>e' st. runWriteOp api ctx smp s = (None, s\<lparr>wk_env := e', wk_stats := st\<rparr>) \<and> holds e' (store_sample smp a)
    \<and> clean_stats m (Suc n) st"
proof -
  obtain e' where e': "retryMeasured ctx (put_sample api ctx smp) (wk_env s) = ((1, Inr ()), e')" "holds e' (store_sample smp a)"
    using put_first [OF assms(1-3)] by blast
  let ?ev = "WriteEvent (sa_groupID smp) (length (sa_value smp)) (rt_Now api e' - rt_Now api (wk_env s)) 1 None"
  have "runWriteOp api ctx smp s = (None, s\<lparr>wk_env := e', wk_stats := stats_event ?ev (wk_stats s)\<rparr>)"
    using e'(1) by (simp add: runWriteOp_def error_of_def)
  moreover have "clean_stats m (Suc n) (stats_event ?ev (wk_stats s))" using clean_stats_event [OF assms(4), of ?ev] by simp
  ultimately show ?thesis using e'(2) by blast
qed

lemma read_op:
  assumes "ctx_live ctx" and "holds (wk_env s) a" and "stored a smp" and "clean_stats m n (wk_stats s)"
  shows "\<exists>e' st. runReadOp api ctx smp s = s\<lparr>wk_env := e', wk_stats := st\<rparr> \<and> holds e' a \<and> clean_stats (Suc m) n st"
    and "\<exists>e' st. legacy_get api ctx smp s = Some (Inr (), s\<lparr>wk_env := e', wk_stats := st\<rparr>) \<and> holds e' a \<and> clean_stats (Suc m) n st"
proof -
  obtain got e' where e': "retryMeasured ctx (rt_Get api ctx (sa_key smp)) (wk_env s) = ((1, Inr got), e')" "holds e' a"
    "slice got = sa_value smp"
    using get_first [OF assms(1-3)] by blast
  let ?ev = "ReadEvent (sa_groupID smp) (rt_Now api e' - rt_Now api (wk_env s)) 1 None"
  have st: "clean_stats (Suc m) n (stats_event ?ev (wk_stats s))" using clean_stats_event [OF assms(4), of ?ev] by simp
  have "runReadOp api ctx smp s = s\<lparr>wk_env := e', wk_stats := stats_event ?ev (wk_stats s)\<rparr>"
    using e' by (simp add: runReadOp_def)
  then show "\<exists>e' st. runReadOp api ctx smp s = s\<lparr>wk_env := e', wk_stats := st\<rparr> \<and> holds e' a \<and> clean_stats (Suc m) n st"
    using st e'(2) by blast
  have "legacy_get api ctx smp s = Some (Inr (), s\<lparr>wk_env := e', wk_stats := stats_event ?ev (wk_stats s)\<rparr>)"
    using e' by (simp add: legacy_get_def error_of_def cmd_return_def)
  then show "\<exists>e' st. legacy_get api ctx smp s = Some (Inr (), s\<lparr>wk_env := e', wk_stats := st\<rparr>) \<and> holds e' a \<and> clean_stats (Suc m) n st"
    using st e'(2) by blast
qed

text \<open>A triple's state: the map of the client and the operations so far.\<close>

definition working :: "nat \<Rightarrow> nat \<Rightarrow> (bytes \<rightharpoonup> bytes) \<Rightarrow> ('e, 'z) work_scheme \<Rightarrow> bool" where
  "working m n a s \<longleftrightarrow> holds (wk_env s) a \<and> clean_stats m n (wk_stats s)"

lemma legacy_put_ok:
  assumes "ctx_live ctx" and "fits smp"
  shows "succeeds (working m n a) (legacy_put api ctx smp) (\<lambda>u. working m (n + 1) (store_sample smp a))"
proof (rule succeedsI)
  fix s :: "('e, 'z) work_scheme" assume "working m n a s"
  then show "\<exists>u s'. legacy_put api ctx smp s = Some (Inr u, s') \<and> working m (n + 1) (store_sample smp a) s'"
    using write_op [OF assms(1) _ assms(2), of s a m n] by (auto simp: working_def legacy_put_def cmd_return_def)
qed

lemma legacy_get_ok:
  assumes "ctx_live ctx" and "stored a smp"
  shows "succeeds (working m n a) (legacy_get api ctx smp) (\<lambda>u. working (m + 1) n a)"
proof (rule succeedsI)
  fix s :: "('e, 'z) work_scheme" assume "working m n a s"
  then show "\<exists>u s'. legacy_get api ctx smp s = Some (Inr u, s') \<and> working (m + 1) n a s'"
    using read_op(2) [OF assms(1) _ assms(2), of s m n] by (auto simp: working_def)
qed

lemma legacy_puts:
  assumes "ctx_live ctx" and "\<forall>smp \<in> set smps. fits smp"
  shows "succeeds (working m n a) (cmd_each (legacy_put api ctx) smps) (\<lambda>u. working m (n + length smps) (fold store_sample smps a))"
proof -
  let ?I = "\<lambda>i. working m i"
  have "succeeds (?I n a) (cmd_each (legacy_put api ctx) smps) (\<lambda>u. ?I (n + length smps * 1) (fold store_sample smps a))"
    by (rule succeeds_each [where I = "\<lambda>i. working m i"]) (rule legacy_put_ok, use assms in auto)
  then show ?thesis by simp
qed

lemma legacy_gets:
  assumes "ctx_live ctx" and "\<forall>smp \<in> set smps. stored a smp"
  shows "succeeds (working m n a) (cmd_each (legacy_get api ctx) smps) (\<lambda>u. working (m + length smps) n a)"
  by (rule succeeds_each_count [where I = "\<lambda>i. working i n a"])
    (rule legacy_get_ok [unfolded Suc_eq_plus1 [symmetric]], use assms in auto)

lemma preload_ok:
  assumes "ctx_live ctx" and "\<forall>smp \<in> set smps. fits smp"
  shows "succeeds (\<lambda>s. holds (wk_env s) a) (preloadSamples api ctx smps) (\<lambda>u s. holds (wk_env s) (fold store_sample smps a))"
  unfolding preloadSamples_def
proof (rule succeeds_each_step [where I = "\<lambda>b s. holds (wk_env s) b"], rule succeedsI)
  fix smp b and s :: "('e, 'z) work_scheme"
  assume "smp \<in> set smps" and "holds (wk_env s) b"
  then show "\<exists>u s'. (case retry ctx (put_sample api ctx smp) (wk_env s) of
      (Inl err, e1) \<Rightarrow> log_Fatal (''preload put '' @ quote (bytes_text (Some (sa_key smp))) @ '': '' @ error_string err) (s\<lparr>wk_env := e1\<rparr>)
    | (Inr u, e1) \<Rightarrow> cmd_return () (s\<lparr>wk_env := e1\<rparr>)) = Some (Inr u, s') \<and> holds (wk_env s') (store_sample smp b)"
    using put_first [OF assms(1), of "wk_env s" b smp] assms(2) by (auto simp: retry_def cmd_return_def)
qed

lemma verify_ok:
  assumes "ctx_live ctx" and "\<forall>smp \<in> set smps. stored a smp"
  shows "succeeds (\<lambda>s. holds (wk_env s) a) (verifyClientSamples api ctx smps) (\<lambda>u s. holds (wk_env s) a)"
  unfolding verifyClientSamples_def
proof (rule succeeds_each_same, rule succeedsI)
  fix smp and s :: "('e, 'z) work_scheme"
  assume "smp \<in> set smps" and "holds (wk_env s) a"
  then show "\<exists>u s'. (case retry ctx (rt_Get api ctx (sa_key smp)) (wk_env s) of
      (Inl err, e1) \<Rightarrow> log_Fatal (''verify get '' @ quote (bytes_text (Some (sa_key smp))) @ '': '' @ error_string err) (s\<lparr>wk_env := e1\<rparr>)
    | (Inr got, e1) \<Rightarrow> if slice got \<noteq> sa_value smp then log_Fatal (''verify '' @ got_wrong smp got) (s\<lparr>wk_env := e1\<rparr>)
        else cmd_return () (s\<lparr>wk_env := e1\<rparr>)) = Some (Inr u, s') \<and> holds (wk_env s') a"
    using get_first [OF assms(1), of "wk_env s" a smp] assms(2) by (auto simp: retry_def cmd_return_def)
qed

lemma legacy_ok:
  assumes live: "ctx_live ctx" and h: "holds (wk_env s) a" and fits: "\<forall>smp \<in> set samples. fits smp"
    and samples: "buildSamples ''bench/key'' (rc_requests config) (rc_valueSize config) router s = Some (Inr samples, s)"
  shows "\<exists>snap s'. runLegacyWorkload api ctx router config s = Some (Inr (samples, snap), s')
    \<and> holds (wk_env s') (fold store_sample samples a) \<and> (\<forall>smp \<in> set samples. stored (fold store_sample samples a) smp)
    \<and> clean_run (length samples) (length samples) snap"
proof -
  let ?b = "fold store_sample samples a" and ?s = "s\<lparr>wk_stats := newOpStats\<rparr>"
  have st: "\<forall>smp \<in> set samples. stored ?b smp" using stored_fold [OF buildSamples_distinct [OF samples] fits] by blast
  have "working 0 0 a ?s" using h clean_stats_new by (simp add: working_def)
  then obtain u s1 where s1: "cmd_each (legacy_put api ctx) samples ?s = Some (Inr u, s1)" "working 0 (0 + length samples) ?b s1"
    using succeedsD [OF legacy_puts [OF live fits]] by blast
  then obtain v s2 where s2: "cmd_each (legacy_get api ctx) samples s1 = Some (Inr v, s2)" "working (0 + length samples) (0 + length samples) ?b s2"
    using succeedsD [OF legacy_gets [OF live st]] by blast
  let ?snap = "snapshot ((rt_Now api (wk_env s1) - rt_Now api (wk_env ?s)) + (rt_Now api (wk_env s2) - rt_Now api (wk_env s1))) (wk_stats s2)"
  have "runLegacyWorkload api ctx router config s = Some (Inr (samples, ?snap), s2)"
    using samples s1(1) s2(1) by (simp add: runLegacyWorkload_def cmd_bind_def cmd_return_def measure_cmd_def)
  moreover have "clean_run (length samples) (length samples) ?snap"
    using s2(2) clean_snapshot by (simp add: working_def)
  moreover have "holds (wk_env s2) ?b" using s2(2) by (simp add: working_def)
  ultimately show ?thesis using st by blast
qed

end

text \<open>
  The write-then-read workload succeeds on a healthy cluster.  Through a routed client of a valid
  cluster whose groups are led, with a context that lives, \<open>runLegacyWorkload\<close> neither stops the process
  nor retries: it writes all samples, reads each back and finds its value; it returns the samples that
  \<open>buildSamples\<close> made, the cluster's map has changed by exactly these, and the statistics count one write
  and one read per sample and no error.
\<close>

lemma legacy_workload_verifies:
  assumes "client_holds cfg router up (wk_env s) a" and "ctx_live ctx"
    and "buildSamples ''bench/key'' (rc_requests config) (rc_valueSize config) (Some router) s = Some (Inr samples, s)"
    and "\<forall>smp \<in> set samples. fits smp"
  shows "\<exists>snap s'. runLegacyWorkload (routed_client (raft_ops (newRaftStore (node_methods member_lib) timeouts)) up now)
        ctx (Some router) config s = Some (Inr (samples, snap), s')
    \<and> client_holds cfg router up (wk_env s') (fold store_sample samples a)
    \<and> (\<forall>smp \<in> set samples. stored (fold store_sample samples a) smp)
    \<and> clean_run (length samples) (length samples) snap"
  by (rule workload.legacy_ok [OF assms(2,1,4,3)])

section \<open>An example\<close>

lemma length_padded_le: "n < 10 ^ l \<Longrightarrow> 0 < l \<Longrightarrow> k \<le> l \<Longrightarrow> length (padded k n) \<le> l"
  using decimal_length [of n l] by (simp add: padded_def pad_zeros_def)

lemma sample_fits:
  assumes "buildSample p index valueSize router groups = Inr smp" and "index < 10 ^ 20" and "valueSize \<le> int MaxUint32"
    and "length p + length (sample_target groups index) + 27 \<le> MaxUint32"
  shows "fits smp"
proof -
  obtain attempt where attempt: "attempt \<in> set [0..<tries]"
    and key: "sa_key smp = string_bytes (sample_key p (sample_target groups index) index attempt)" and v: "sa_value smp = buildValue index valueSize"
    using sample_attempts_Inr assms(1) unfolding buildSample_def by blast
  have "attempt < 10 ^ 4" using attempt by (simp add: tries_def)
  then have len: "length (padded 4 attempt) = 4" "length (padded 6 index) \<le> 20"
    using length_padded_le [OF assms(2), of 6] by (simp_all add: length_padded)
  then have "length (sa_key smp) \<le> MaxUint32" "sa_key smp \<noteq> []" using assms(4) by (simp_all add: key sample_key_def)
  moreover have "length (sa_value smp) \<le> MaxUint32"
    using assms(3) len(2) by (simp add: v buildValue_length value_base_def MaxUint32_def nat_le_iff)
  ultimately show ?thesis by (simp add: fits_def)
qed

lemma three_nodes_client:
  "\<exists>router c s. ConfigNewRouter three_nodes = Inr router
    \<and> client_holds three_nodes router {'':9001'', '':9002''} (Some c, three_members router s) (cluster_map router (\<lambda>g. [[1] \<mapsto> [2]]))
    \<and> (\<forall>k. k \<noteq> [] \<longrightarrow> (\<exists>route. RouteKey (Some router) k = Inr route \<and> sr_GroupID route = ''g1''))"
proof -
  obtain g0 g where g: "fresh_group g0" "group_step\<^sup>*\<^sup>* g0 g" "length (gr_replicas g) = 1"
    and log: "gr_log g = [frame \<lparr>rec_Type = TypePut, rec_Key = [1], rec_Value = [2]\<rparr>]"
    using example_group by blast
  have lead: "leader_map (leader_of g 0) [[1] \<mapsto> [2]]"
    using replica_leads [OF g(1,2), of 0] g(3) unfolding log example_log_map by simp
  obtain router where router: "ConfigNewRouter three_nodes = Inr router" using cluster_ok_router [OF three_nodes_ok] by blast
  obtain c where c: "newRoutedClient Background three_nodes True = Inr (c :: string RoutedClient)"
    using router three_nodes_ok Validate_cluster_ok [of three_nodes] by (simp add: newRoutedClient_def Background_def)
  have "client_holds three_nodes router {'':9001'', '':9002''} (Some c, three_members router (leader_of g 0))
      (cluster_map router (\<lambda>g. [[1] \<mapsto> [2]]))"
    using three_nodes_ok router newRoutedClient_ok(1) [OF c router, of "{'':9001'', '':9002''}"] three_members_led [OF lead, of router]
    unfolding client_holds_def by auto
  moreover have "\<exists>route. RouteKey (Some router) k = Inr route \<and> sr_GroupID route = ''g1''" if "k \<noteq> []" for k
    using cluster_ok_serves [OF three_nodes_ok router that] by (auto simp: three_nodes_def)
  ultimately show ?thesis using router by blast
qed

definition example_run :: runConfig where
  "example_run = \<lparr>rc_dir = ''d'', rc_requests = 3, rc_timeout = 30, rc_concurrency = 2, rc_valueSize = 16, rc_readRatio = 50,
     rc_duration = 0, rc_warmup = 0, rc_reportPath = []\<rparr>"

lemma one_group_fits:
  assumes "\<forall>k. k \<noteq> [] \<longrightarrow> (\<exists>route. RouteKey router k = Inr route \<and> sr_GroupID route = ''g1'')"
    and "buildSamples pfx amount 16 router s = Some (Inr samples, s')" and "length pfx \<le> 20"
    and "amount \<le> 1000"
  shows "\<forall>smp \<in> set samples. fits smp"
proof
  fix smp assume smp: "smp \<in> set samples"
  have groups: "routedGroups router = Inr [''g1'']" using one_group_routed assms(1) by blast
  then have "samples_upto pfx 16 router [''g1''] [0..<nat amount] = Inr samples"
    using assms(2) by (auto simp: buildSamples_def cmd_bind_def cmd_lift_def log_Fatal_def cmd_return_def split: sum.splits if_splits)
  from samples_upto_nth [OF this] smp obtain i where "i < nat amount" "buildSample pfx i 16 router [''g1''] = Inr smp"
    by (auto simp: in_set_conv_nth)
  then show "fits smp" using assms(3,4)
    by (intro sample_fits [of pfx i 16 router "[''g1'']"]) (simp_all add: MaxUint32_def sample_target_def)
qed

lemma legacy_workload_verifies_witness:
  "\<exists>router c e samples snap s'. runLegacyWorkload (routed_client (raft_ops (newRaftStore (node_methods member_lib)
        \<lparr>rsc_ApplyTimeout = 0, rsc_BarrierTimeout = 0\<rparr>)) {'':9001'', '':9002''} (\<lambda>e. 0)) Background (Some router) example_run
      \<lparr>wk_env = (Some c, e), wk_stats = newOpStats\<rparr> = Some (Inr (samples, snap), s')
    \<and> length samples = 3 \<and> ss_errors snap = 0 \<and> ss_ops snap = 6"
proof -
  obtain router c s where h: "client_holds three_nodes router {'':9001'', '':9002''} (Some c, three_members router s)
      (cluster_map router (\<lambda>g. [[1] \<mapsto> [2]]))"
    and g: "\<forall>k. k \<noteq> [] \<longrightarrow> (\<exists>route. RouteKey (Some router) k = Inr route \<and> sr_GroupID route = ''g1'')"
    using three_nodes_client by blast
  let ?s = "\<lparr>wk_env = (Some c, three_members router s), wk_stats = newOpStats\<rparr>"
  obtain samples where run: "buildSamples ''bench/key'' 3 16 (Some router) ?s = Some (Inr samples, ?s)"
    using one_group_samples [of "Some router" "''g1''" 3 "''bench/key''" 16 ?s] g unfolding buildSamples_def cmd_bind_def cmd_lift_def cmd_return_def log_Fatal_def by (auto split: sum.splits option.splits if_splits)
  have h': "client_holds three_nodes router {'':9001'', '':9002''} (wk_env ?s) (cluster_map router (\<lambda>g. [[1] \<mapsto> [2]]))"
    using h by simp
  have run': "buildSamples ''bench/key'' (rc_requests example_run) (rc_valueSize example_run) (Some router) ?s = Some (Inr samples, ?s)"
    using run by (simp add: example_run_def)
  have fits: "\<forall>smp \<in> set samples. fits smp" using one_group_fits [OF g run] by simp
  have "int (length samples) = 3" using buildSamples_length [OF run] .
  then show ?thesis using legacy_workload_verifies [OF h' ctx_live_Background run' fits] by (fastforce simp: clean_run_def)
qed

end
