(* ===== verification/KV_Measured.thy ===== *)
theory KV_Measured
  imports KV_Distributed
begin

text \<open>
  The measured mode of the distributed example (\<open>example/distributed/main.go\<close>).  The workers of
  \<open>executeWorkload\<close> are goroutines; the theory has their steps on the shared state, each of which is one
  atomic access or one operation of the client, in any interleaving.  What the statistics show does not
  depend on the order of their updates (\<open>statistics_count_operations\<close>), so that recording an
  operation is one step.
\<close>

section \<open>Workers\<close>

record workload_args =
  wa_ctx :: Context
  wa_config :: runConfig
  wa_router :: "Router option"
  wa_groups :: "GroupID list"
  wa_reads :: "sample list"
  wa_warmup :: bool

definition has_deadline :: "workload_args \<Rightarrow> bool" where
  "has_deadline A \<longleftrightarrow> 0 < rc_duration (wa_config A) \<or> wa_warmup A"

text \<open>Where a worker is in its loop.\<close>

datatype worker = WkIndex | WkContext | WkChoose | WkRead sample | WkNumber | WkWrite sample | WkAdd sample | WkDone

text \<open>The shared state; \<open>wl_fatal\<close>: a worker has ended the process.\<close>

record 'e workload = "'e work" +
  wl_ops :: "64 word"
  wl_writes :: "64 word"
  wl_expected :: "sample list"
  wl_fatal :: "string option"

definition write_sample :: "workload_args \<Rightarrow> nat \<Rightarrow> string + sample" where
  "write_sample A index = buildSample ''bench/write'' index (rc_valueSize (wa_config A)) (wa_router A) (wa_groups A)"

text \<open>
  The deadline passes at any time, the context is asked at any time, and \<open>d\<close> is what the random number
  generator returns.
\<close>

inductive worker_step :: "'e routed \<Rightarrow> workload_args \<Rightarrow> worker \<Rightarrow> 'e workload \<Rightarrow> worker \<Rightarrow> 'e workload \<Rightarrow> bool"
  for api A where
  limit: "\<not> has_deadline A \<Longrightarrow> word_of_int (rc_requests (wa_config A)) \<le> wl_ops s
    \<Longrightarrow> worker_step api A WkIndex s WkDone (s\<lparr>wl_ops := wl_ops s + 1\<rparr>)"
| index: "\<not> has_deadline A \<Longrightarrow> wl_ops s < word_of_int (rc_requests (wa_config A))
    \<Longrightarrow> worker_step api A WkIndex s WkContext (s\<lparr>wl_ops := wl_ops s + 1\<rparr>)"
| late: "has_deadline A \<Longrightarrow> worker_step api A WkIndex s WkDone (s\<lparr>wl_ops := wl_ops s + 1\<rparr>)"
| early: "has_deadline A \<Longrightarrow> worker_step api A WkIndex s WkContext (s\<lparr>wl_ops := wl_ops s + 1\<rparr>)"
| cancelled: "ctx_Err (wa_ctx A) t = Some err \<Longrightarrow> worker_step api A WkContext s WkDone (s\<lparr>wk_stats := recordError (wk_stats s)\<rparr>)"
| running: "ctx_Err (wa_ctx A) t = None \<Longrightarrow> worker_step api A WkContext s WkChoose s"
| do_read: "0 < length (wa_reads A) \<Longrightarrow> d < (100 :: int) \<Longrightarrow> 0 \<le> d \<Longrightarrow> d < rc_readRatio (wa_config A) \<Longrightarrow> i < length (wa_reads A)
    \<Longrightarrow> worker_step api A WkChoose s (WkRead (wa_reads A ! i)) s"
| do_write: "length (wa_reads A) = 0 \<or> d < (100 :: int) \<and> 0 \<le> d \<and> \<not> d < rc_readRatio (wa_config A)
    \<Longrightarrow> worker_step api A WkChoose s WkNumber s"
| did_read: "worker_step api A (WkRead smp) s WkIndex (runReadOp api (wa_ctx A) smp s)"
| no_key: "write_sample A (unat (wl_writes s)) = Inl msg
    \<Longrightarrow> worker_step api A WkNumber s WkDone (s\<lparr>wl_writes := wl_writes s + 1, wl_fatal := Some msg\<rparr>)"
| number: "write_sample A (unat (wl_writes s)) = Inr smp
    \<Longrightarrow> worker_step api A WkNumber s (WkWrite smp) (s\<lparr>wl_writes := wl_writes s + 1\<rparr>)"
| wrote: "runWriteOp api (wa_ctx A) smp s = (err, s')
    \<Longrightarrow> worker_step api A (WkWrite smp) s (if err = None \<and> \<not> wa_warmup A then WkAdd smp else WkIndex) s'"
| append: "worker_step api A (WkAdd smp) s WkIndex (s\<lparr>wl_expected := wl_expected s @ [smp]\<rparr>)"

inductive_cases worker_step_cases: "worker_step api A p s p' s'"

inductive workload_step ::
  "'e routed \<Rightarrow> workload_args \<Rightarrow> worker multiset \<times> 'e workload \<Rightarrow> worker multiset \<times> 'e workload \<Rightarrow> bool"
  for api A where
  step: "wl_fatal s = None \<Longrightarrow> worker_step api A p s p' s' \<Longrightarrow> workload_step api A (add_mset p W, s) (add_mset p' W, s')"

inductive_cases workload_step_cases: "workload_step api A x y"

definition workload_start :: "workload_args \<Rightarrow> 'e \<Rightarrow> worker multiset \<times> 'e workload" where
  "workload_start A env =
     (replicate_mset (nat (rc_concurrency (wa_config A))) WkIndex,
      \<lparr>wk_env = env, wk_stats = newOpStats, wl_ops = 0, wl_writes = 0, wl_expected = [], wl_fatal = None\<rparr>)"

text \<open>
  How \<open>executeWorkload\<close> may end: all workers are done, or one has ended the process.  The number of steps
  keeps the counters from wrapping around; the amount of requests bounds it when there is no deadline.
\<close>

definition executes :: "'e routed \<Rightarrow> workload_args \<Rightarrow> 'e \<Rightarrow> 'e workload \<Rightarrow> bool" where
  "executes api A env s \<longleftrightarrow>
     (\<exists>n W. n < 2 ^ 63 \<and> (workload_step api A ^^ n) (workload_start A env) (W, s)
        \<and> (wl_fatal s \<noteq> None \<or> (\<forall>p \<in># W. p = WkDone)))"

section \<open>What the workers keep\<close>

text \<open>An operation that has its index and is not recorded; the sample that a worker is writing.\<close>

fun in_flight :: "worker \<Rightarrow> nat" where
  "in_flight WkIndex = 0"
| "in_flight (WkAdd smp) = 0"
| "in_flight WkDone = 0"
| "in_flight _ = 1"

fun adding :: "worker \<Rightarrow> nat" where
  "adding (WkAdd smp) = 1"
| "adding _ = 0"

fun pending :: "worker \<Rightarrow> sample multiset" where
  "pending (WkWrite smp) = {#smp#}"
| "pending (WkAdd smp) = {#smp#}"
| "pending _ = {#}"

definition written :: "worker multiset \<Rightarrow> 'e workload \<Rightarrow> sample multiset" where
  "written W s = mset (wl_expected s) + sum_mset (image_mset pending W)"

text \<open>Every written sample has a number of its own.\<close>

definition numbered :: "workload_args \<Rightarrow> worker multiset \<Rightarrow> 'e workload \<Rightarrow> bool" where
  "numbered A W s \<longleftrightarrow>
     (\<forall>smp \<in># written W s. \<exists>i < unat (wl_writes s). write_sample A i = Inr smp)
     \<and> (\<forall>key. count (image_mset sa_key (written W s)) key \<le> 1)"

definition finds_keys :: "workload_args \<Rightarrow> bool" where
  "finds_keys A \<longleftrightarrow> ctx_live (wa_ctx A)
     \<and> (\<forall>i < 2 ^ 64. \<exists>smp. write_sample A i = Inr smp \<and> fits smp \<and> sa_key smp \<notin> sa_key ` set (wa_reads A))"

lemma finds_keys_sample: "finds_keys A \<Longrightarrow> write_sample A i = Inr smp \<Longrightarrow> i < 2 ^ 64 \<Longrightarrow> fits smp \<and> sa_key smp \<notin> sa_key ` set (wa_reads A)"
  by (fastforce simp: finds_keys_def)

lemma op_fields [simp]:
  "wl_writes (runReadOp api ctx smp s) = wl_writes s" "wl_ops (runReadOp api ctx smp s) = wl_ops s"
  "wl_expected (runReadOp api ctx smp s) = wl_expected s" "wl_fatal (runReadOp api ctx smp s) = wl_fatal s"
  by (simp_all add: runReadOp_def Let_def split: prod.splits)

lemma runWriteOp_fields:
  assumes "runWriteOp api ctx smp s = (err, s')"
  shows "wl_writes s' = wl_writes s \<and> wl_ops s' = wl_ops s \<and> wl_expected s' = wl_expected s \<and> wl_fatal s' = wl_fatal s"
  using assms by (auto simp: runWriteOp_def Let_def split: prod.splits)

lemma unat_Suc_below: "unat (w :: 64 word) \<le> n \<Longrightarrow> n < 2 ^ 63 \<Longrightarrow> unat (w + 1) = Suc (unat w)"
  by (simp add: unat_word_ariths)

lemma numbered_less:
  assumes "numbered A W s" and "written W' s' \<subseteq># written W s" and "unat (wl_writes s) \<le> unat (wl_writes s')"
  shows "numbered A W' s'"
proof -
  have "count (image_mset sa_key (written W' s')) key \<le> 1" for key
    using mset_subset_eq_count [OF image_mset_subseteq_mono [OF assms(2), of sa_key], of key] assms(1)
    unfolding numbered_def by (meson le_trans)
  moreover have "\<exists>i < unat (wl_writes s'). write_sample A i = Inr smp" if smp: "smp \<in># written W' s'" for smp
    using bspec [OF conjunct1 [OF assms(1) [unfolded numbered_def]] mset_subset_eqD [OF assms(2) smp]] assms(3)
    by (meson less_le_trans)
  ultimately show ?thesis unfolding numbered_def by blast
qed

lemma numbered_step:
  assumes "worker_step api A p s p' s'" and "numbered A (add_mset p W) s" and "unat (wl_writes s) \<le> n" and "n < 2 ^ 63"
  shows "numbered A (add_mset p' W) s'"
  using assms(1)
proof cases
  case (number smp)
  have next_i: "unat (wl_writes s + 1) = Suc (unat (wl_writes s))" using unat_Suc_below assms(3,4) by blast
  let ?w = "written (add_mset p W) s"
  have w': "written (add_mset p' W) s' = add_mset smp ?w" using number by (simp add: written_def)
  have all: "\<forall>x \<in># ?w. \<exists>i < unat (wl_writes s). write_sample A i = Inr x" using assms(2) unfolding numbered_def by (rule conjunct1)
  have "sa_key smp \<noteq> sa_key x" if x: "x \<in># ?w" for x
  proof -
    obtain i where "i < unat (wl_writes s)" "write_sample A i = Inr x" using bspec [OF all x] by blast
    then show ?thesis using sample_keys_differ number(4) unfolding write_sample_def by (metis less_irrefl_nat)
  qed
  then have "count (image_mset sa_key ?w) (sa_key smp) = 0" by (auto simp: count_eq_zero_iff)
  moreover have "\<exists>i < Suc (unat (wl_writes s)). write_sample A i = Inr x" if "x \<in># add_mset smp ?w" for x
    using that all number(4) by (auto simp: less_Suc_eq)
  ultimately show ?thesis using assms(2) number(3) next_i unfolding numbered_def w' by auto
next
  case (wrote smp err)
  then have "written (add_mset p' W) s' \<subseteq># written (add_mset p W) s"
    using runWriteOp_fields [OF wrote(3)] by (auto simp: written_def)
  then show ?thesis using assms(2) runWriteOp_fields [OF wrote(3)] by (auto intro: numbered_less)
qed (rule numbered_less [OF assms(2)],
     use unat_Suc_below [OF assms(3,4)] in \<open>auto simp: written_def subset_mset.add_increasing\<close>)+

lemma counters_step:
  assumes "worker_step api A p s p' s'"
  shows "unat (wl_ops s') \<le> Suc (unat (wl_ops s)) \<and> unat (wl_writes s') \<le> Suc (unat (wl_writes s))"
proof -
  have w: "unat (w + 1 :: 64 word) \<le> Suc (unat w)" for w by (simp add: unat_word_ariths)
  show ?thesis using assms
  proof cases
    case (wrote smp err)
    then show ?thesis using runWriteOp_fields [OF wrote(3)] by simp
  qed (simp_all add: w le_SucI)
qed

lemma counters_reached:
  assumes "(workload_step api A ^^ n) (workload_start A env) (W, s)" and "n < 2 ^ 63"
  shows "unat (wl_ops s) \<le> n \<and> unat (wl_writes s) \<le> n \<and> size W = nat (rc_concurrency (wa_config A))"
  using assms
proof (induction n arbitrary: W s)
  case 0
  then show ?case by (auto simp: workload_start_def)
next
  case (Suc n)
  then obtain W1 s1 where run: "(workload_step api A ^^ n) (workload_start A env) (W1, s1)" and last: "workload_step api A (W1, s1) (W, s)"
    by auto
  from last obtain p p' M where "worker_step api A p s1 p' s" "W1 = add_mset p M" "W = add_mset p' M"
    by (auto elim: workload_step_cases)
  then show ?case using Suc.IH [OF run] Suc.prems(2) counters_step by fastforce
qed

lemma distinct_if_counts: "(\<And>x. count (mset xs) x \<le> 1) \<Longrightarrow> distinct xs"
proof (induction xs)
  case (Cons x xs)
  have "count (mset xs) y \<le> 1" for y using le_trans [OF _ Cons.prems [of y], of "count (mset xs) y"] by simp
  moreover have "x \<notin> set xs" using Cons.prems [of x] by simp
  ultimately show ?case using Cons.IH by simp
qed simp

section \<open>Every run ends\<close>

fun weight :: "worker \<Rightarrow> nat" where
  "weight WkContext = 6"
| "weight WkChoose = 5"
| "weight WkNumber = 4"
| "weight (WkWrite smp) = 3"
| "weight (WkRead smp) = 2"
| "weight (WkAdd smp) = 2"
| "weight WkIndex = 1"
| "weight WkDone = 0"

definition work_left :: "workload_args \<Rightarrow> worker multiset \<times> 'e workload \<Rightarrow> nat" where
  "work_left A = (\<lambda>(W, s). 6 * (nat (rc_requests (wa_config A)) - unat (wl_ops s)) + sum_mset (image_mset weight W))"

text \<open>The amount of requests as the counter's type has it.\<close>

definition limited :: "workload_args \<Rightarrow> bool" where
  "limited A \<longleftrightarrow> \<not> has_deadline A \<and> 0 \<le> rc_requests (wa_config A) \<and> rc_requests (wa_config A) < 2 ^ 63"

lemma word_limit:
  assumes "0 \<le> r" and "r < 2 ^ 63"
  shows "(word_of_int r \<le> (w :: 64 word)) = (nat r \<le> unat w)"
proof -
  have "unat (word_of_int r :: 64 word) = nat r" using assms by (simp add: unsigned_of_int take_bit_int_eq_self)
  then show ?thesis by (simp add: word_le_nat_alt)
qed

lemma work_left_step:
  assumes "limited A" and "workload_step api A (W, s) (W', s')" and "unat (wl_ops s) \<le> n" and "n < 2 ^ 63"
  shows "work_left A (W', s') < work_left A (W, s)"
proof -
  obtain p p' M where step: "worker_step api A p s p' s'" and W: "W = add_mset p M" "W' = add_mset p' M"
    using assms(2) by (auto elim: workload_step_cases)
  have Suc: "unat (wl_ops s + 1) = Suc (unat (wl_ops s))" using unat_Suc_below assms(3,4) by blast
  show ?thesis using step
  proof cases
    case index
    have "unat (wl_ops s) < nat (rc_requests (wa_config A))"
      using index(5) assms(1) word_limit by (simp add: limited_def not_le [symmetric])
    then show ?thesis using index Suc by (simp add: work_left_def W)
  next
    case (wrote smp err)
    then show ?thesis using runWriteOp_fields [OF wrote(3)] by (simp add: work_left_def W)
  qed (use Suc assms(1) in \<open>simp_all add: work_left_def W limited_def\<close>)
qed

lemma work_left_run:
  assumes "limited A" and "(workload_step api A ^^ n) (workload_start A env) (W, s)" and "n < 2 ^ 63"
  shows "n + work_left A (W, s) \<le> work_left A (workload_start A env)"
  using assms(2,3)
proof (induction n arbitrary: W s)
  case (Suc n)
  then obtain W1 s1 where run: "(workload_step api A ^^ n) (workload_start A env) (W1, s1)" and last: "workload_step api A (W1, s1) (W, s)"
    by auto
  have n: "n < 2 ^ 63" using Suc.prems(2) by simp
  have "unat (wl_ops s1) \<le> n" using counters_reached [OF run n] by simp
  from work_left_step [OF assms(1) last this n] Suc.IH [OF run n] show ?case by simp
qed simp

lemma worker_can_step:
  assumes "p \<noteq> WkDone"
  shows "\<exists>p' s'. worker_step api A p s p' s'"
proof (cases p)
  case WkIndex
  then show ?thesis using worker_step.intros(1-4) by (metis linorder_not_le)
next
  case WkContext
  then show ?thesis using cancelled running by (metis option.exhaust)
next
  case WkChoose
  show ?thesis
  proof (cases "0 < length (wa_reads A) \<and> 0 < rc_readRatio (wa_config A)")
    case True
    then show ?thesis using WkChoose do_read [of A 0 0 api s] by auto
  next
    case False
    then show ?thesis using WkChoose do_write [of A 0 api s] by auto
  qed
next
  case WkNumber
  then show ?thesis using no_key number by (metis sum.exhaust)
next
  case (WkWrite smp)
  then show ?thesis using wrote by (metis prod.exhaust)
qed (use assms did_read append in blast)+

text \<open>A worker that is not done can go on.\<close>

lemma workload_can_step:
  assumes "wl_fatal s = None" and "p \<in># W" and "p \<noteq> WkDone"
  shows "\<exists>x. workload_step api A (W, s) x"
  using worker_can_step [OF assms(3), of api A s] workload_step.step [OF assms(1), of api A p] assms(2)
  by (metis insert_DiffM)

lemma workload_bounded:
  assumes "limited A" and "0 < rc_concurrency (wa_config A)"
    and "6 * rc_requests (wa_config A) + rc_concurrency (wa_config A) + 1 < 2 ^ 63"
    and "(workload_step api A ^^ n) (workload_start A env) (W, s)"
  shows "n \<le> 6 * nat (rc_requests (wa_config A)) + nat (rc_concurrency (wa_config A)) \<and> n < 2 ^ 63"
proof -
  let ?b = "6 * nat (rc_requests (wa_config A)) + nat (rc_concurrency (wa_config A))"
  have b: "work_left A (workload_start A env) = ?b" by (simp add: work_left_def workload_start_def)
  have "0 \<le> rc_requests (wa_config A)" using assms(1) by (simp add: limited_def)
  then have "int (Suc ?b) = 6 * rc_requests (wa_config A) + rc_concurrency (wa_config A) + 1" using assms(2) by simp
  then have "int (Suc ?b) < int (2 ^ 63)" using assms(3) by simp
  then have small: "Suc ?b < 2 ^ 63" unfolding of_nat_less_iff .
  have "n \<le> ?b"
  proof (rule ccontr)
    assume "\<not> n \<le> ?b"
    then obtain j where j: "n = Suc ?b + j" by (metis less_iff_Suc_add not_le add_Suc)
    then obtain W1 s1 where "(workload_step api A ^^ Suc ?b) (workload_start A env) (W1, s1)"
      using assms(4) [unfolded j relpowp_add] by (metis relcomppE surj_pair)
    from work_left_run [OF assms(1) this small] show False by (simp add: b)
  qed
  then show ?thesis using small by simp
qed

text \<open>
  C19: The measured workload ends.  With a limit on the operations and no deadline, every interleaving of
  the workers has at most six steps per operation and one per worker; and as long as a worker is not done
  and none has ended the process, there is a next step: the workers do not block each other.
\<close>

theorem measured_workload_ends:
  assumes "limited A" and "0 < rc_concurrency (wa_config A)"
    and "6 * rc_requests (wa_config A) + rc_concurrency (wa_config A) + 1 < 2 ^ 63"
    and "(workload_step api A ^^ n) (workload_start A env) (W, s)"
  shows "n \<le> 6 * nat (rc_requests (wa_config A)) + nat (rc_concurrency (wa_config A))
    \<and> (wl_fatal s \<noteq> None \<or> (\<forall>p \<in># W. p = WkDone) \<or> (\<exists>x. workload_step api A (W, s) x))"
  using workload_bounded [OF assms] workload_can_step by blast

lemma executes_exists:
  assumes "limited A" and "0 < rc_concurrency (wa_config A)"
    and "6 * rc_requests (wa_config A) + rc_concurrency (wa_config A) + 1 < 2 ^ 63"
  shows "\<exists>s. executes api A env s"
proof -
  let ?P = "\<lambda>n. \<exists>W s. (workload_step api A ^^ n) (workload_start A env) (W, s)"
  let ?b = "6 * nat (rc_requests (wa_config A)) + nat (rc_concurrency (wa_config A))"
  have bounded: "n \<le> ?b \<and> n < 2 ^ 63" if n: "?P n" for n
  proof -
    obtain W s where "(workload_step api A ^^ n) (workload_start A env) (W, s)" using n by blast
    then show ?thesis by (rule workload_bounded [OF assms])
  qed
  have "?P 0" by (cases "workload_start A env") auto
  then have last: "?P (Greatest ?P)" by (rule GreatestI_nat [of ?P 0 ?b]) (use bounded in blast)
  then obtain W s where run: "(workload_step api A ^^ Greatest ?P) (workload_start A env) (W, s)" by blast
  have no_more: "\<not> ?P (Suc (Greatest ?P))"
  proof
    assume "?P (Suc (Greatest ?P))"
    then have "Suc (Greatest ?P) \<le> Greatest ?P" by (rule Greatest_le_nat [of ?P _ ?b]) (use bounded in blast)
    then show False by simp
  qed
  have "\<nexists>x. workload_step api A (W, s) x"
  proof
    assume "\<exists>x. workload_step api A (W, s) x"
    then obtain W1 s1 where "workload_step api A (W, s) (W1, s1)" by auto
    from relpowp_Suc_I [of _ "workload_step api A", OF run this] no_more show False by blast
  qed
  then have "wl_fatal s \<noteq> None \<or> (\<forall>p \<in># W. p = WkDone)" using workload_can_step by blast
  then show ?thesis using run bounded [OF last] unfolding executes_def by blast
qed

section \<open>Healthy runs\<close>

context kv_client
begin

definition healthy_with ::
  "workload_args \<Rightarrow> worker multiset \<Rightarrow> 'e workload \<Rightarrow> (bytes \<rightharpoonup> bytes) \<Rightarrow> nat \<Rightarrow> nat \<Rightarrow> bool" where
  "healthy_with A W s a m k \<longleftrightarrow> wl_fatal s = None \<and> (\<forall>smp. WkRead smp \<in># W \<longrightarrow> smp \<in> set (wa_reads A))
     \<and> holds (wk_env s) a \<and> clean_stats m k (wk_stats s)
     \<and> (\<forall>smp \<in> set (wa_reads A). stored a smp) \<and> (\<forall>smp \<in> set (wl_expected s). stored a smp)
     \<and> (\<forall>smp. WkAdd smp \<in># W \<longrightarrow> stored a smp)
     \<and> (\<not> wa_warmup A \<longrightarrow> length (wl_expected s) + sum_mset (image_mset adding W) = k)
     \<and> (limited A \<longrightarrow> m + k + sum_mset (image_mset in_flight W) = min (unat (wl_ops s)) (nat (rc_requests (wa_config A)))
          \<and> (WkDone \<in># W \<longrightarrow> nat (rc_requests (wa_config A)) \<le> unat (wl_ops s)))"

lemma stored_other: "stored a smp \<Longrightarrow> sa_key smp \<noteq> sa_key x \<Longrightarrow> stored (store_sample x a) smp"
  by (simp add: stored_def)

lemma stored_new: "fits smp \<Longrightarrow> stored (store_sample smp a) smp"
  by (simp add: stored_def fits_def)

lemma written_other:
  assumes "numbered A (add_mset (WkWrite smp) W) s"
  shows "x \<in> set (wl_expected s) \<Longrightarrow> sa_key x \<noteq> sa_key smp" and "WkAdd x \<in># W \<Longrightarrow> sa_key x \<noteq> sa_key smp"
proof -
  have "count (image_mset sa_key (mset (wl_expected s) + sum_mset (image_mset pending W))) (sa_key smp) = 0"
    using assms by (auto simp: numbered_def written_def dest: spec [of _ "sa_key smp"])
  then have no: "sa_key y \<noteq> sa_key smp" if "y \<in># mset (wl_expected s) + sum_mset (image_mset pending W)" for y
    using that by (metis count_eq_zero_iff image_eqI set_image_mset)
  show "x \<in> set (wl_expected s) \<Longrightarrow> sa_key x \<noteq> sa_key smp" using no by simp
  assume "WkAdd x \<in># W"
  then obtain M where "W = add_mset (WkAdd x) M" by (meson mset_add)
  then show "sa_key x \<noteq> sa_key smp" using no by simp
qed

lemma healthyI: "healthy_with A W s a m k \<Longrightarrow> \<exists>a m k. healthy_with A W s a m k"
  by blast

lemma healthy_step:
  assumes step: "worker_step api A p s p' s'" and h: "healthy_with A (add_mset p W) s a m k"
    and num: "numbered A (add_mset p W) s" and A: "finds_keys A"
    and small: "unat (wl_ops s) \<le> n" "unat (wl_writes s) \<le> n" "n < 2 ^ 63"
  shows "\<exists>a m k. healthy_with A (add_mset p' W) s' a m k"
proof -
  have live: "ctx_live (wa_ctx A)" using A by (simp add: finds_keys_def)
  have env: "holds (wk_env s) a" "clean_stats m k (wk_stats s)" and reads: "\<forall>smp \<in> set (wa_reads A). stored a smp"
    using h by (simp_all add: healthy_with_def)
  have Suc: "unat (wl_ops s + 1) = Suc (unat (wl_ops s))" using unat_Suc_below small(1,3) by blast
  show ?thesis using step
  proof cases
    case limit
    have "nat (rc_requests (wa_config A)) \<le> unat (wl_ops s)" if "limited A"
      using that limit(5) word_limit by (simp add: limited_def)
    then show ?thesis using limit(1-3) h Suc
      by (intro healthyI [where a = a and m = m and k = k]) (auto simp: healthy_with_def)
  next
    case index
    have "unat (wl_ops s) < nat (rc_requests (wa_config A))" if "limited A"
      using that index(5) word_limit by (simp add: limited_def not_le [symmetric])
    then show ?thesis using index(1-3) h Suc
      by (intro healthyI [where a = a and m = m and k = k]) (auto simp: healthy_with_def)
  next
    case (cancelled t err)
    then show ?thesis using live by (simp add: ctx_live_def)
  next
    case (did_read smp)
    then have "stored a smp" using h reads by (simp add: healthy_with_def)
    then obtain e' st where "runReadOp api (wa_ctx A) smp s = s\<lparr>wk_env := e', wk_stats := st\<rparr>" "holds e' a" "clean_stats (Suc m) k st"
      using read_op(1) [OF live env(1) _ env(2)] by blast
    then show ?thesis using did_read h
      by (intro healthyI [where a = a and m = "Suc m" and k = k]) (auto simp: healthy_with_def)
  next
    case (no_key msg)
    have "unat (wl_writes s) < 2 ^ 64" using small by simp
    then show ?thesis using no_key(4) A by (auto simp: finds_keys_def)
  next
    case (wrote smp err)
    obtain i where i: "i < unat (wl_writes s)" "write_sample A i = Inr smp"
      using num wrote(1) by (auto simp: numbered_def written_def)
    then have fits: "fits smp" "sa_key smp \<notin> sa_key ` set (wa_reads A)" using finds_keys_sample [OF A] small by auto
    obtain e' st where op: "runWriteOp api (wa_ctx A) smp s = (None, s\<lparr>wk_env := e', wk_stats := st\<rparr>)"
      "holds e' (store_sample smp a)" "clean_stats m (Suc k) st"
      using write_op [OF live env(1) fits(1) env(2)] by blast
    note other = written_other [OF num [unfolded wrote(1)]]
    have "\<forall>x \<in> set (wa_reads A). stored (store_sample smp a) x"
      using reads fits(2) by (metis image_eqI stored_other)
    moreover have "\<forall>x \<in> set (wl_expected s). stored (store_sample smp a) x"
      using h other(1) by (simp add: healthy_with_def stored_other)
    moreover have "\<forall>x. WkAdd x \<in># W \<longrightarrow> stored (store_sample smp a) x"
      using h other(2) by (simp add: healthy_with_def stored_other)
    moreover have "stored (store_sample smp a) smp" using fits(1) by (rule stored_new)
    moreover have s': "s' = s\<lparr>wk_env := e', wk_stats := st\<rparr>" and p': "p' = (if wa_warmup A then WkIndex else WkAdd smp)"
      using wrote(2,3) op(1) by auto
    ultimately have "healthy_with A (add_mset p' W) s' (store_sample smp a) m (Suc k)"
      using op(2,3) h [unfolded wrote(1) healthy_with_def] unfolding s' p' healthy_with_def
      by (cases "wa_warmup A") (simp_all del: fun_upd_apply)
    then show ?thesis by blast
  qed (intro healthyI [where a = a and m = m and k = k], use h in \<open>simp add: healthy_with_def limited_def\<close>)+
qed

lemma healthy_start:
  assumes "holds env a" and "\<forall>smp \<in> set (wa_reads A). stored a smp"
  shows "case workload_start A env of (W, s) \<Rightarrow> healthy_with A W s a 0 0 \<and> numbered A W s"
proof -
  have "written (replicate_mset n WkIndex) s = mset (wl_expected s)" for n and s :: "'e workload"
    by (induction n) (simp_all add: written_def)
  then show ?thesis using assms clean_stats_new
    by (simp add: workload_start_def healthy_with_def numbered_def)
qed

lemma healthy_reached:
  assumes A: "finds_keys A" and start: "holds env a" "\<forall>smp \<in> set (wa_reads A). stored a smp"
    and "(workload_step api A ^^ n) (workload_start A env) (W, s)" and "n < 2 ^ 63"
  shows "(\<exists>a m k. healthy_with A W s a m k) \<and> numbered A W s"
  using assms(4,5)
proof (induction n arbitrary: W s)
  case 0
  then show ?case using healthy_start [OF start] by auto
next
  case (Suc n)
  then obtain W1 s1 where run: "(workload_step api A ^^ n) (workload_start A env) (W1, s1)" and last: "workload_step api A (W1, s1) (W, s)"
    by auto
  have n: "n < 2 ^ 63" using Suc.prems(2) by simp
  obtain a m k where h: "healthy_with A W1 s1 a m k" and num: "numbered A W1 s1" using Suc.IH [OF run n] by blast
  have small: "unat (wl_ops s1) \<le> n" "unat (wl_writes s1) \<le> n" using counters_reached [OF run n] by simp_all
  from last obtain p p' M where "worker_step api A p s1 p' s" "W1 = add_mset p M" "W = add_mset p' M"
    by (auto elim: workload_step_cases)
  then show ?case using healthy_step [OF _ _ _ A small n] numbered_step [OF _ _ small(2) n] h num by blast
qed

text \<open>What a run on a healthy cluster leaves.\<close>

lemma executes_healthy:
  assumes "finds_keys A" and "holds env a" and "\<forall>smp \<in> set (wa_reads A). stored a smp" and "executes api A env s"
  shows "wl_fatal s = None \<and> distinct (map sa_key (wl_expected s))
    \<and> (\<exists>a m k. holds (wk_env s) a \<and> clean_stats m k (wk_stats s) \<and> (\<forall>smp \<in> set (wa_reads A @ wl_expected s). stored a smp)
         \<and> (\<not> wa_warmup A \<longrightarrow> length (wl_expected s) = k)
         \<and> (limited A \<longrightarrow> 0 < rc_concurrency (wa_config A) \<longrightarrow> int (m + k) = rc_requests (wa_config A)))"
proof -
  obtain n W where n: "n < 2 ^ 63" and run: "(workload_step api A ^^ n) (workload_start A env) (W, s)"
    and ends: "wl_fatal s \<noteq> None \<or> (\<forall>p \<in># W. p = WkDone)"
    using assms(4) by (auto simp: executes_def)
  obtain a m k where h: "healthy_with A W s a m k" and num: "numbered A W s"
    using healthy_reached [OF assms(1-3) run n] by blast
  then have "\<forall>p \<in># W. p = WkDone" using ends by (simp add: healthy_with_def)
  moreover have "size W = nat (rc_concurrency (wa_config A))" using counters_reached [OF run n] by simp
  ultimately have W: "W = replicate_mset (nat (rc_concurrency (wa_config A))) WkDone"
    using set_mset_subset_singletonD [of W WkDone] by auto
  have one: "count (image_mset sa_key (mset (wl_expected s)) + image_mset sa_key (sum_mset (image_mset pending W))) key \<le> 1" for key
    using conjunct2 [OF num [unfolded numbered_def written_def image_mset_union]] by (rule spec)
  have "count (mset (map sa_key (wl_expected s))) key \<le> 1" for key using one [of key] by simp
  then have "distinct (map sa_key (wl_expected s))" by (rule distinct_if_counts)
  moreover have "int (m + k) = rc_requests (wa_config A)" if "limited A" "0 < rc_concurrency (wa_config A)"
    using h that by (simp add: healthy_with_def W limited_def)
  moreover have "wl_fatal s = None" "holds (wk_env s) a" "clean_stats m k (wk_stats s)"
    "\<forall>smp \<in> set (wa_reads A @ wl_expected s). stored a smp" "\<not> wa_warmup A \<longrightarrow> length (wl_expected s) = k"
    using h by (auto simp: healthy_with_def W)
  ultimately show ?thesis by blast
qed

end

section \<open>The measured mode\<close>

definition preload_amount :: "runConfig \<Rightarrow> int" where
  "preload_amount config =
     (let c = rc_requests config; c1 = (if c \<le> 0 then 1000 else c) in if c1 > 10000 then 10000 else c1)"

definition measured_reads ::
  "'e routed \<Rightarrow> Context \<Rightarrow> Router option \<Rightarrow> runConfig \<Rightarrow> (sample list, ('e, 'z) work_scheme) command" where
  "measured_reads api ctx router config =
     (if rc_readRatio config > 0 then
        cmd_bind (buildSamples ''bench/read'' (preload_amount config) (rc_valueSize config) router) (\<lambda>reads.
          cmd_bind (preloadSamples api ctx reads) (\<lambda>u. cmd_return reads))
      else cmd_return [])"

text \<open>What follows the measured run; \<open>elapsed\<close> is its duration.\<close>

definition finish_measured ::
  "'e routed \<Rightarrow> Context \<Rightarrow> sample list \<Rightarrow> int \<Rightarrow> (sample list \<times> statsSnapshot, 'e workload) command" where
  "finish_measured api ctx reads elapsed s =
     (case wl_fatal s of
        Some msg \<Rightarrow> log_Fatal msg s
      | None \<Rightarrow>
          (let snap = snapshot elapsed (wk_stats s)
           in if ss_errors snap > 0
              then log_Fatal (''workload finished with '' @ decimal (unat (ss_errors snap)) @ '' errors'') s
              else (let verifySamples = reads @ wl_expected s
                    in cmd_bind (verifyClientSamples api ctx verifySamples) (\<lambda>u. cmd_return (verifySamples, snap)) s)))"

definition measured_args ::
  "Context \<Rightarrow> runConfig \<Rightarrow> Router option \<Rightarrow> GroupID list \<Rightarrow> sample list \<Rightarrow> bool \<Rightarrow> workload_args" where
  "measured_args ctx config router groups reads warmup =
     \<lparr>wa_ctx = ctx, wa_config = config, wa_router = router, wa_groups = groups, wa_reads = reads, wa_warmup = warmup\<rparr>"

inductive runMeasuredWorkload ::
  "'e routed \<Rightarrow> Context \<Rightarrow> Router option \<Rightarrow> runConfig \<Rightarrow> 'e work \<Rightarrow> string + sample list \<times> statsSnapshot \<Rightarrow> 'e \<Rightarrow> bool"
  for api ctx router config s where
  no_reads: "measured_reads api ctx router config s = Some (Inl msg, s1)
    \<Longrightarrow> runMeasuredWorkload api ctx router config s (Inl msg) (wk_env s1)"
| no_groups: "measured_reads api ctx router config s = Some (Inr reads, s1) \<Longrightarrow> routedGroups router = Inl msg
    \<Longrightarrow> runMeasuredWorkload api ctx router config s (Inl msg) (wk_env s1)"
| no_warmup: "measured_reads api ctx router config s = Some (Inr reads, s1) \<Longrightarrow> routedGroups router = Inr groups
    \<Longrightarrow> rc_warmup config > 0 \<Longrightarrow> executes api (measured_args ctx config router groups reads True) (wk_env s1) w
    \<Longrightarrow> wl_fatal w = Some msg \<Longrightarrow> runMeasuredWorkload api ctx router config s (Inl msg) (wk_env w)"
| measured: "measured_reads api ctx router config s = Some (Inr reads, s1) \<Longrightarrow> routedGroups router = Inr groups
    \<Longrightarrow> (if rc_warmup config > 0
        then executes api (measured_args ctx config router groups reads True) (wk_env s1) w \<and> wl_fatal w = None \<and> env = wk_env w
        else env = wk_env s1)
    \<Longrightarrow> executes api (measured_args ctx config router groups reads False) env x
    \<Longrightarrow> finish_measured api ctx reads elapsed x = Some (r, y) \<Longrightarrow> runMeasuredWorkload api ctx router config s r (wk_env y)"

text \<open>Keys for all samples that a run may need are found, and the samples fit into records.\<close>

definition keys_found :: "runConfig \<Rightarrow> Router option \<Rightarrow> bool" where
  "keys_found config router \<longleftrightarrow>
     (\<exists>groups. routedGroups router = Inr groups
        \<and> (\<forall>p \<in> {''bench/read'', ''bench/write''}. \<forall>i < 2 ^ 64. \<exists>smp.
             buildSample p i (rc_valueSize config) router groups = Inr smp \<and> fits smp))"

lemma prefixes_apart:
  assumes "buildSample ''bench/read'' i n router gs = Inr x" and "buildSample ''bench/write'' j n' router' gs' = Inr y"
  shows "sa_key y \<noteq> sa_key x"
proof -
  obtain a b where "sa_key x = string_bytes (sample_key ''bench/read'' (sample_target gs i) i a)"
    "sa_key y = string_bytes (sample_key ''bench/write'' (sample_target gs' j) j b)"
    using buildSample_Inr [OF assms(1)] buildSample_Inr [OF assms(2)] by metis
  then show ?thesis by (simp add: sample_key_def)
qed

lemma preload_amount_bounds: "0 < preload_amount config" "preload_amount config \<le> 10000"
  by (simp_all add: preload_amount_def Let_def)

lemma found_reads:
  assumes "keys_found config router"
    and "buildSamples ''bench/read'' (preload_amount config) (rc_valueSize config) router s = Some (Inr reads, s')"
  shows "s' = s \<and> (\<forall>smp \<in> set reads. fits smp \<and> (\<exists>i groups. buildSample ''bench/read'' i (rc_valueSize config) router groups = Inr smp))"
proof -
  obtain groups where g: "routedGroups router = Inr groups"
    and all: "\<forall>i < 2 ^ 64. \<exists>smp. buildSample ''bench/read'' i (rc_valueSize config) router groups = Inr smp \<and> fits smp"
    using assms(1) by (auto simp: keys_found_def)
  have s: "s' = s" and up: "samples_upto ''bench/read'' (rc_valueSize config) router groups [0..<nat (preload_amount config)] = Inr reads"
    using assms(2) g by (auto simp: buildSamples_def cmd_bind_def cmd_lift_def log_Fatal_def cmd_return_def split: sum.splits if_splits)
  have "fits (reads ! j) \<and> buildSample ''bench/read'' j (rc_valueSize config) router groups = Inr (reads ! j)"
    if "j < length reads" for j
  proof -
    have j: "j < nat (preload_amount config)" and smp: "buildSample ''bench/read'' j (rc_valueSize config) router groups = Inr (reads ! j)"
      using samples_upto_nth [OF up] that by auto
    have "nat (preload_amount config) \<le> 10000" using preload_amount_bounds [of config] by simp
    then have "j < 2 ^ 64" using j by simp
    then show ?thesis using all smp by fastforce
  qed
  then show ?thesis using s by (metis in_set_conv_nth)
qed

lemma found_upto:
  assumes "\<forall>i \<in> set is. \<exists>smp. buildSample p i n router groups = Inr smp"
  shows "\<exists>smps. samples_upto p n router groups is = Inr smps"
  using assms by (induction "is") auto

lemma found_built:
  assumes "keys_found config router"
  shows "\<exists>reads. buildSamples ''bench/read'' (preload_amount config) (rc_valueSize config) router s = Some (Inr reads, s)"
proof -
  obtain groups where g: "routedGroups router = Inr groups"
    and all: "\<forall>i < 2 ^ 64. \<exists>smp. buildSample ''bench/read'' i (rc_valueSize config) router groups = Inr smp \<and> fits smp"
    using assms by (auto simp: keys_found_def)
  have "nat (preload_amount config) \<le> 10000" using preload_amount_bounds [of config] by simp
  then have "i < 2 ^ 64" if "i < nat (preload_amount config)" for i using that by simp
  then have "\<forall>i \<in> set [0..<nat (preload_amount config)]. \<exists>smp. buildSample ''bench/read'' i (rc_valueSize config) router groups = Inr smp"
    using all by (metis atLeastLessThan_iff set_upt)
  then obtain smps where "samples_upto ''bench/read'' (rc_valueSize config) router groups [0..<nat (preload_amount config)] = Inr smps"
    using found_upto by blast
  then show ?thesis using g preload_amount_bounds [of config]
    by (simp add: buildSamples_def cmd_bind_def cmd_lift_def cmd_return_def)
qed

text \<open>The result that a run has on a healthy cluster.\<close>

definition measured_good :: "('e \<Rightarrow> (bytes \<rightharpoonup> bytes) \<Rightarrow> bool) \<Rightarrow> runConfig \<Rightarrow> string + sample list \<times> statsSnapshot \<Rightarrow> 'e \<Rightarrow> bool" where
  "measured_good holds config r e \<longleftrightarrow>
     (\<exists>samples snap a m k. r = Inr (samples, snap) \<and> holds e a \<and> (\<forall>smp \<in> set samples. stored a smp) \<and> clean_run m k snap
        \<and> int (length samples) = (if rc_readRatio config > 0 then preload_amount config else 0) + int k
        \<and> (rc_duration config \<le> 0 \<longrightarrow> 0 \<le> rc_requests config \<longrightarrow> rc_requests config < 2 ^ 63 \<longrightarrow> 0 < rc_concurrency config
             \<longrightarrow> int (m + k) = rc_requests config))"

lemma found_args:
  assumes "keys_found config router" and "routedGroups router = Inr groups" and "ctx_live ctx"
    and "\<forall>smp \<in> set reads. \<exists>i gs. buildSample ''bench/read'' i (rc_valueSize config) router gs = Inr smp"
  shows "finds_keys (measured_args ctx config router groups reads warmup)"
proof -
  have all: "\<forall>i < 2 ^ 64. \<exists>smp. buildSample ''bench/write'' i (rc_valueSize config) router groups = Inr smp \<and> fits smp"
    using assms(1,2) by (auto simp: keys_found_def)
  have "sa_key smp \<notin> sa_key ` set reads" if "buildSample ''bench/write'' i (rc_valueSize config) router groups = Inr smp" for i smp
  proof
    assume "sa_key smp \<in> sa_key ` set reads"
    then obtain x j gs where "sa_key smp = sa_key x" "buildSample ''bench/read'' j (rc_valueSize config) router gs = Inr x"
      using assms(4) by blast
    then show False using prefixes_apart [OF _ that] by metis
  qed
  then show ?thesis using all assms(3) unfolding finds_keys_def write_sample_def measured_args_def by simp blast
qed

context kv_client
begin

lemma reads_ok:
  assumes "ctx_live ctx" and "holds (wk_env s) a" and "keys_found config router"
  shows "\<exists>reads s1 a1. measured_reads api ctx router config s = Some (Inr reads, s1) \<and> holds (wk_env s1) a1
    \<and> (\<forall>smp \<in> set reads. stored a1 smp) \<and> int (length reads) = (if rc_readRatio config > 0 then preload_amount config else 0)
    \<and> (\<forall>smp \<in> set reads. \<exists>i gs. buildSample ''bench/read'' i (rc_valueSize config) router gs = Inr smp)"
proof (cases "rc_readRatio config > 0")
  case True
  obtain reads where reads: "buildSamples ''bench/read'' (preload_amount config) (rc_valueSize config) router s = Some (Inr reads, s)"
    using found_built [OF assms(3), of s] by blast
  have all: "\<forall>smp \<in> set reads. fits smp" "\<forall>smp \<in> set reads. \<exists>i gs. buildSample ''bench/read'' i (rc_valueSize config) router gs = Inr smp"
    using found_reads [OF assms(3) reads] by blast+
  obtain u s1 where s1: "preloadSamples api ctx reads s = Some (Inr u, s1)" "holds (wk_env s1) (fold store_sample reads a)"
    using succeedsD [OF preload_ok [OF assms(1) all(1)] assms(2)] by blast
  have "measured_reads api ctx router config s = Some (Inr reads, s1)"
    using True reads s1(1) by (simp add: measured_reads_def cmd_bind_def cmd_return_def)
  moreover have "\<forall>smp \<in> set reads. stored (fold store_sample reads a) smp"
    using stored_fold [OF buildSamples_distinct [OF reads] all(1)] by blast
  moreover have "int (length reads) = (if rc_readRatio config > 0 then preload_amount config else 0)"
    using True buildSamples_length [OF reads] by simp
  ultimately show ?thesis using s1(2) all(2) by blast
next
  case False
  then show ?thesis using assms(2) by (auto simp: measured_reads_def cmd_return_def)
qed

lemma finish_ok:
  assumes live: "ctx_live ctx" and h: "holds env a" "\<forall>smp \<in> set reads. stored a smp"
    and A: "finds_keys (measured_args ctx config router groups reads False)"
    and x: "executes api (measured_args ctx config router groups reads False) env x"
    and reads: "int (length reads) = (if rc_readRatio config > 0 then preload_amount config else 0)"
  shows "\<exists>r y. finish_measured api ctx reads elapsed x = Some (r, y) \<and> measured_good holds config r (wk_env y)"
proof -
  have args: "wa_config (measured_args ctx config router groups reads False) = config" "wa_reads (measured_args ctx config router groups reads False) = reads"
    "\<not> wa_warmup (measured_args ctx config router groups reads False)"
    "limited (measured_args ctx config router groups reads False) \<longleftrightarrow> rc_duration config \<le> 0 \<and> 0 \<le> rc_requests config \<and> rc_requests config < 2 ^ 63"
    by (auto simp: measured_args_def limited_def has_deadline_def)
  from executes_healthy [OF A h(1) _ x, unfolded args] h(2) args(3)
  obtain b m k where fatal: "wl_fatal x = None" and b: "holds (wk_env x) b" "clean_stats m k (wk_stats x)"
    and st: "\<forall>smp \<in> set (reads @ wl_expected x). stored b smp" and len: "length (wl_expected x) = k"
    and total: "rc_duration config \<le> 0 \<and> 0 \<le> rc_requests config \<and> rc_requests config < 2 ^ 63 \<longrightarrow> 0 < rc_concurrency config
      \<longrightarrow> int (m + k) = rc_requests config"
    by blast
  obtain u y where y: "verifyClientSamples api ctx (reads @ wl_expected x) x = Some (Inr u, y)" "holds (wk_env y) b"
    using succeedsD [OF verify_ok [OF live st] b(1)] by blast
  note clean = clean_snapshot [OF b(2), of elapsed]
  then have "finish_measured api ctx reads elapsed x = Some (Inr (reads @ wl_expected x, snapshot elapsed (wk_stats x)), y)"
    using fatal y(1) by (simp add: finish_measured_def clean_run_def cmd_bind_def cmd_return_def Let_def)
  moreover have "int (length (reads @ wl_expected x)) = (if rc_readRatio config > 0 then preload_amount config else 0) + int k"
    using reads len by simp
  ultimately show ?thesis using y(2) st clean total unfolding measured_good_def by blast
qed

lemma measured_ok:
  assumes live: "ctx_live ctx" and h: "holds (wk_env s) a" and keys: "keys_found config router"
    and run: "runMeasuredWorkload api ctx router config s r e"
  shows "measured_good holds config r e"
proof -
  obtain reads s1 a1 where reads: "measured_reads api ctx router config s = Some (Inr reads, s1)" and h1: "holds (wk_env s1) a1"
    and st: "\<forall>smp \<in> set reads. stored a1 smp" and len: "int (length reads) = (if rc_readRatio config > 0 then preload_amount config else 0)"
    and built: "\<forall>smp \<in> set reads. \<exists>i gs. buildSample ''bench/read'' i (rc_valueSize config) router gs = Inr smp"
    using reads_ok [OF live h keys] by blast
  obtain groups where groups: "routedGroups router = Inr groups" using keys by (auto simp: keys_found_def)
  have A: "finds_keys (measured_args ctx config router groups reads warmup)" for warmup
    by (rule found_args [OF keys groups live built])
  have wa: "wa_reads (measured_args ctx config router groups reads warmup) = reads" for warmup
    by (simp add: measured_args_def)
  have after: "wl_fatal w = None \<and> (\<exists>b. holds (wk_env w) b \<and> (\<forall>smp \<in> set reads. stored b smp))"
    if w: "executes api (measured_args ctx config router groups reads True) (wk_env s1) w" for w
    using executes_healthy [OF A h1 _ w] st unfolding wa by (metis Un_iff set_append)
  from run show ?thesis
  proof cases
    case (no_warmup reads' s1' groups' w msg)
    then show ?thesis using after reads groups by auto
  next
    case (measured reads' s1' groups' w env x elapsed y)
    have same: "reads' = reads" "s1' = s1" "groups' = groups" using measured(2,3) reads groups by simp_all
    have "\<exists>b. holds env b \<and> (\<forall>smp \<in> set reads. stored b smp)"
      using measured(4) after h1 st unfolding same by (metis (full_types))
    then obtain b where "holds env b" "\<forall>smp \<in> set reads. stored b smp" by blast
    from finish_ok [OF live this A measured(5) [unfolded same] len, of elapsed] show ?thesis
      using measured(1,6) unfolding same by auto
  qed (use reads groups in auto)
qed

lemma measured_exists:
  assumes live: "ctx_live ctx" and h: "holds (wk_env s) a" and keys: "keys_found config router"
    and plain: "rc_duration config \<le> 0" "rc_warmup config \<le> 0" "0 \<le> rc_requests config" "0 < rc_concurrency config"
      "6 * rc_requests config + rc_concurrency config + 1 < 2 ^ 63"
  shows "\<exists>r e. runMeasuredWorkload api ctx router config s r e"
proof -
  obtain reads s1 a1 where reads: "measured_reads api ctx router config s = Some (Inr reads, s1)" and h1: "holds (wk_env s1) a1"
    and st: "\<forall>smp \<in> set reads. stored a1 smp" and len: "int (length reads) = (if rc_readRatio config > 0 then preload_amount config else 0)"
    and built: "\<forall>smp \<in> set reads. \<exists>i gs. buildSample ''bench/read'' i (rc_valueSize config) router gs = Inr smp"
    using reads_ok [OF live h keys] by blast
  obtain groups where groups: "routedGroups router = Inr groups" using keys by (auto simp: keys_found_def)
  let ?A = "measured_args ctx config router groups reads False"
  have A: "finds_keys ?A" by (rule found_args [OF keys groups live built])
  have lim: "limited ?A" "0 < rc_concurrency (wa_config ?A)" "6 * rc_requests (wa_config ?A) + rc_concurrency (wa_config ?A) + 1 < 2 ^ 63"
    using plain by (auto simp: measured_args_def limited_def has_deadline_def)
  obtain x where x: "executes api ?A (wk_env s1) x" by (rule exE [OF executes_exists [OF lim]])
  obtain r y where "finish_measured api ctx reads 0 x = Some (r, y)"
    using finish_ok [OF live h1 st A x len, of 0] by auto
  then have "runMeasuredWorkload api ctx router config s r (wk_env y)"
    using plain(2) by (intro measured [OF reads groups _ x]) auto
  then show ?thesis by blast
qed

end

text \<open>
  C14: The measured workload verifies on a healthy cluster.  Through a routed client of a valid cluster
  whose groups are led, with a context that lives, every run of \<open>runMeasuredWorkload\<close>, however its workers
  interleave and also after a warmup, ends without a fatal error.  It returns the preloaded samples and
  one sample per write, each of which the cluster has at the end, and statistics without errors and
  retries; without a duration there are as many operations as requested.  It is assumed that the search
  for a key finds one for every index, and that the samples fit into records (\<open>keys_found\<close>).
\<close>

theorem measured_workload_verifies:
  assumes "client_holds cfg router up (wk_env s) a" and "ctx_live ctx" and "keys_found config (Some router)"
    and "runMeasuredWorkload (routed_client (raft_ops (newRaftStore (node_methods member_lib) timeouts)) up now)
      ctx (Some router) config s r e"
  shows "measured_good (client_holds cfg router up) config r e"
  by (rule workload.measured_ok [OF assms(2,1,3,4)])

section \<open>An example\<close>

lemma example_keys:
  assumes "\<forall>k. k \<noteq> [] \<longrightarrow> (\<exists>route. RouteKey router k = Inr route \<and> sr_GroupID route = ''g1'')"
  shows "keys_found example_run router"
proof -
  have "\<exists>smp. buildSample p i 16 router [''g1''] = Inr smp \<and> fits smp" if "p \<in> {''bench/read'', ''bench/write''}" "i < 2 ^ 64" for p i
  proof -
    have "0 < tries" by (simp add: tries_def)
    then have tries: "[0..<tries] = 0 # [Suc 0..<tries]" by (simp add: upt_conv_Cons)
    have "string_bytes (sample_key p ''g1'' i 0) \<noteq> []" by (simp add: sample_key_def)
    then obtain route where "RouteKey router (string_bytes (sample_key p ''g1'' i 0)) = Inr route" "sr_GroupID route = ''g1''"
      using assms by blast
    then obtain smp where smp: "buildSample p i 16 router [''g1''] = Inr smp"
      by (simp add: buildSample_def sample_target_def tries Let_def)
    have "i < 10 ^ 20" using that(2) by simp
    from sample_fits [OF smp this] show ?thesis using smp that(1) by (auto simp: MaxUint32_def sample_target_def)
  qed
  moreover have "routedGroups router = Inr [''g1'']" using one_group_routed assms by blast
  ultimately show ?thesis by (simp add: keys_found_def example_run_def)
qed

theorem measured_workload_verifies_witness:
  "\<exists>router c e samples snap e'. runMeasuredWorkload (routed_client (raft_ops (newRaftStore (node_methods member_lib)
        \<lparr>rsc_ApplyTimeout = 0, rsc_BarrierTimeout = 0\<rparr>)) {'':9001'', '':9002''} (\<lambda>e. 0)) Background (Some router) example_run
      \<lparr>wk_env = (Some c, e), wk_stats = newOpStats\<rparr> (Inr (samples, snap)) e'
    \<and> ss_ops snap = 3 \<and> ss_errors snap = 0 \<and> 3 \<le> length samples"
proof -
  let ?api = "routed_client (raft_ops (newRaftStore (node_methods member_lib) \<lparr>rsc_ApplyTimeout = 0, rsc_BarrierTimeout = 0\<rparr>))
    {'':9001'', '':9002''} (\<lambda>e. 0)"
  obtain router c s where h: "client_holds three_nodes router {'':9001'', '':9002''} (Some c, three_members router s)
      (cluster_map router (\<lambda>g. [[1] \<mapsto> [2]]))"
    and g: "\<forall>k. k \<noteq> [] \<longrightarrow> (\<exists>route. RouteKey (Some router) k = Inr route \<and> sr_GroupID route = ''g1'')"
    using three_nodes_client by blast
  let ?s = "\<lparr>wk_env = (Some c, three_members router s), wk_stats = newOpStats\<rparr>"
  have h': "client_holds three_nodes router {'':9001'', '':9002''} (wk_env ?s) (cluster_map router (\<lambda>g. [[1] \<mapsto> [2]]))"
    using h by simp
  note keys = example_keys [OF g]
  have plain: "rc_duration example_run \<le> 0" "rc_warmup example_run \<le> 0" "0 \<le> rc_requests example_run"
    "0 < rc_concurrency example_run" "6 * rc_requests example_run + rc_concurrency example_run + 1 < 2 ^ 63"
    by (simp_all add: example_run_def)
  have "\<exists>r e. runMeasuredWorkload ?api Background (Some router) example_run ?s r e"
    by (rule workload.measured_exists [OF ctx_live_Background h' keys plain])
  then obtain r e where run: "runMeasuredWorkload ?api Background (Some router) example_run ?s r e" by blast
  from measured_workload_verifies [OF h' ctx_live_Background keys run]
  obtain samples snap m k where r: "r = Inr (samples, snap)" and clean: "clean_run m k snap"
    and len: "int (length samples) = 3 + int k" and mk: "int (m + k) = 3"
    by (auto simp: measured_good_def example_run_def preload_amount_def)
  have "m + k = 3" using mk by simp
  then have "ss_ops snap = 3" using clean unfolding clean_run_def by simp
  moreover have "ss_errors snap = 0" using clean by (simp add: clean_run_def)
  moreover have "3 \<le> length samples" using len by simp
  ultimately show ?thesis using run r by blast
qed

theorem measured_workload_ends_witness:
  "\<exists>api :: nat routed. \<forall>x. (workload_step api (measured_args Background example_run None [] [] False) ^^ 1)
      (workload_start (measured_args Background example_run None [] [] False) 0) x
    \<longrightarrow> (\<exists>y. workload_step api (measured_args Background example_run None [] [] False) x y)"
proof -
  let ?A = "measured_args Background example_run None [] [] False"
  have A: "limited ?A" "0 < rc_concurrency (wa_config ?A)" "6 * rc_requests (wa_config ?A) + rc_concurrency (wa_config ?A) + 1 < 2 ^ 63"
    by (simp_all add: limited_def has_deadline_def measured_args_def example_run_def)
  have "\<exists>y. workload_step api ?A (W, s) y" if x: "(workload_step api ?A ^^ 1) (workload_start ?A 0) (W, s)"
    for api :: "nat routed" and W s
  proof -
    have start: "fst (workload_start ?A (0 :: nat)) = {#WkIndex, WkIndex#}"
      by (simp add: workload_start_def measured_args_def example_run_def numeral_2_eq_2)
    have "workload_step api ?A (workload_start ?A 0) (W, s)" using x by (auto simp: OO_eq)
    then have "wl_fatal s = None \<and> WkIndex \<in># W"
    proof cases
      case (step s0 p p' M)
      have M: "add_mset p M = {#WkIndex, WkIndex#}" using start step(1) by simp
      have "p \<in># {#WkIndex, WkIndex#}" unfolding M [symmetric] by simp
      then have p: "p = WkIndex" by simp
      have "wl_fatal s = None" using step(4,3) unfolding p by cases simp_all
      then show ?thesis using M p step(2) by simp
    qed
    then show ?thesis using measured_workload_ends [OF A x] by auto
  qed
  then show ?thesis by auto
qed

end
