(* ===== verification/KV_Replicas.thy ===== *)
theory KV_Replicas
  imports KV_Samples KV_Main
begin

text \<open>
  How the distributed example (\<open>example/distributed/main.go\<close>) configures its cluster, and how it checks
  the databases of the replicas after the nodes have been stopped.
\<close>

section \<open>The cluster\<close>

text \<open>
  \<open>listen\<close> is \<open>net.Listen\<close> on port 0 with the \<open>Close\<close> of the listener: the address, or an error.
\<close>

definition mustFreeLocalAddr :: "('s \<Rightarrow> (err + string) \<times> 's) \<Rightarrow> (string, 's) command" where
  "mustFreeLocalAddr listen s =
     (case listen s of
        (Inl err, s1) \<Rightarrow> log_Fatal (''allocate local port: '' @ error_string err) s1
      | (Inr addr, s1) \<Rightarrow> cmd_return addr s1)"

definition newExampleClusterConfig :: "('s \<Rightarrow> (err + string) \<times> 's) \<Rightarrow> (Config \<times> err option, 's) command" where
  "newExampleClusterConfig listen =
     cmd_bind (mustFreeLocalAddr listen) (\<lambda>c1. cmd_bind (mustFreeLocalAddr listen) (\<lambda>c2. cmd_bind (mustFreeLocalAddr listen) (\<lambda>c3.
     cmd_bind (mustFreeLocalAddr listen) (\<lambda>a1. cmd_bind (mustFreeLocalAddr listen) (\<lambda>a2. cmd_bind (mustFreeLocalAddr listen) (\<lambda>a3.
     cmd_bind (mustFreeLocalAddr listen) (\<lambda>b1. cmd_bind (mustFreeLocalAddr listen) (\<lambda>b2. cmd_bind (mustFreeLocalAddr listen) (\<lambda>b3.
       let config = \<lparr>
         cc_Nodes = [\<lparr>nd_ID = ''n1'', nd_ClientAddr = c1\<rparr>, \<lparr>nd_ID = ''n2'', nd_ClientAddr = c2\<rparr>, \<lparr>nd_ID = ''n3'', nd_ClientAddr = c3\<rparr>],
         cc_ShardConfig = \<lparr>sh_ShardCount = 4, sh_VirtualNodes = 8\<rparr>,
         cc_ShardRoutes = [\<lparr>sd_ID = 0, sd_GroupID = ''g1''\<rparr>, \<lparr>sd_ID = 1, sd_GroupID = ''g1''\<rparr>,
           \<lparr>sd_ID = 2, sd_GroupID = ''g2''\<rparr>, \<lparr>sd_ID = 3, sd_GroupID = ''g2''\<rparr>],
         cc_Groups = [
           \<lparr>gp_ID = ''g1'', gp_Replicas = [\<lparr>gr_NodeID = ''n1'', gr_RaftAddr = a1\<rparr>, \<lparr>gr_NodeID = ''n2'', gr_RaftAddr = a2\<rparr>,
             \<lparr>gr_NodeID = ''n3'', gr_RaftAddr = a3\<rparr>]\<rparr>,
           \<lparr>gp_ID = ''g2'', gp_Replicas = [\<lparr>gr_NodeID = ''n1'', gr_RaftAddr = b1\<rparr>, \<lparr>gr_NodeID = ''n2'', gr_RaftAddr = b2\<rparr>,
             \<lparr>gr_NodeID = ''n3'', gr_RaftAddr = b3\<rparr>]\<rparr>]\<rparr>
       in cmd_return (config, Validate config))))))))))"

section \<open>Checking a database\<close>

record consistencyReport =
  cr_VerifiedKeys :: nat
  cr_MissingCount :: nat
  cr_MismatchCount :: nat
  cr_ReplicaVerifiedCount :: nat

definition new_report :: "nat \<Rightarrow> consistencyReport" where
  "new_report keys = \<lparr>cr_VerifiedKeys = keys, cr_MissingCount = 0, cr_MismatchCount = 0, cr_ReplicaVerifiedCount = 0\<rparr>"

fun check_stored :: "DB \<Rightarrow> sample list \<Rightarrow> consistencyReport \<Rightarrow> world \<Rightarrow> (consistencyReport \<times> err option) \<times> world" where
  "check_stored db [] report w = ((report, None), w)"
| "check_stored db (smp # smps) report w =
     (case DbGet (sa_key smp) db w of
        (Inl err, w1) \<Rightarrow> ((report, Some err), w1)
      | (Inr got, w1) \<Rightarrow>
          if length (slice got) = 0 \<and> length (sa_value smp) \<noteq> 0
          then ((report\<lparr>cr_MissingCount := cr_MissingCount report + 1\<rparr>,
                 Some (Errorf (''get '' @ quote (bytes_text (Some (sa_key smp))) @ '' is missing''))), w1)
          else if slice got \<noteq> sa_value smp
          then ((report\<lparr>cr_MismatchCount := cr_MismatchCount report + 1\<rparr>,
                 Some (Errorf (''get '' @ quote (bytes_text (Some (sa_key smp))) @ '' = '' @ quote (bytes_text got)
                   @ '', want '' @ quote (bytes_text (Some (sa_value smp)))))), w1)
          else check_stored db smps report w1)"

definition local_options :: "string \<Rightarrow> Options" where
  "local_options dir = \<lparr>opt_Dir = dir, opt_sstDir = [], opt_MemTableSize = 0\<rparr>"

text \<open>\<open>None\<close> is the panic of opening a database without a logger.\<close>

definition verifyLocalDB :: "string \<Rightarrow> sample list \<Rightarrow> 'e machine \<Rightarrow> ((consistencyReport \<times> err option) \<times> 'e machine) option" where
  "verifyLocalDB dir samples mc =
     (case kv_open (local_options dir) mc of
        None \<Rightarrow> None
      | Some (Inl err, mc1) \<Rightarrow> Some ((new_report 0, Some err), mc1)
      | Some (Inr db, mc1) \<Rightarrow>
          (case check_stored db samples (new_report (length samples)) (mc_world mc1) of
             (r, w) \<Rightarrow> Some (r, kv_close db (mc1\<lparr>mc_world := w\<rparr>))))"

section \<open>Checking all replicas\<close>

definition replica_dir :: "string \<Rightarrow> string \<Rightarrow> GroupID \<Rightarrow> string" where
  "replica_dir rootDir nodeID groupID = path_Join [rootDir, nodeID, ''engine'', ''group-'' @ groupID]"

fun verify_replicas ::
  "string \<Rightarrow> GroupID \<Rightarrow> sample list \<Rightarrow> GroupReplica list \<Rightarrow> consistencyReport \<Rightarrow> 'e machine
    \<Rightarrow> ((consistencyReport \<times> err option) \<times> 'e machine) option" where
  "verify_replicas rootDir groupID samples [] report mc = Some ((report, None), mc)"
| "verify_replicas rootDir groupID samples (replica # replicas) report mc =
     (case verifyLocalDB (replica_dir rootDir (gr_NodeID replica) groupID) samples mc of
        None \<Rightarrow> None
      | Some ((result, err), mc1) \<Rightarrow>
          (let report1 = report\<lparr>cr_MissingCount := cr_MissingCount report + cr_MissingCount result,
                 cr_MismatchCount := cr_MismatchCount report + cr_MismatchCount result,
                 cr_ReplicaVerifiedCount := cr_ReplicaVerifiedCount report + 1\<rparr>
           in case err of
                Some x \<Rightarrow> Some ((report1, Some (Wrapped (''node '' @ gr_NodeID replica @ '' group '' @ groupID) x)), mc1)
              | None \<Rightarrow> verify_replicas rootDir groupID samples replicas report1 mc1))"

definition by_group :: "sample list \<Rightarrow> GroupID \<Rightarrow> sample list" where
  "by_group samples g = filter (\<lambda>smp. sa_groupID smp = g) samples"

fun verify_groups ::
  "Config \<Rightarrow> string \<Rightarrow> sample list \<Rightarrow> GroupID list \<Rightarrow> consistencyReport \<Rightarrow> 'e machine
    \<Rightarrow> ((consistencyReport \<times> err option) \<times> 'e machine) option" where
  "verify_groups config rootDir samples [] report mc = Some ((report, None), mc)"
| "verify_groups config rootDir samples (groupID # groupIDs) report mc =
     (case FindGroup config groupID of
        Inl err \<Rightarrow> Some ((report, Some err), mc)
      | Inr grp \<Rightarrow>
          (case verify_replicas rootDir groupID (by_group samples groupID) (gp_Replicas grp) report mc of
             None \<Rightarrow> None
           | Some ((report1, Some err), mc1) \<Rightarrow> Some ((report1, Some err), mc1)
           | Some ((report1, None), mc1) \<Rightarrow> verify_groups config rootDir samples groupIDs report1 mc1))"

definition verifyLocalReplicas ::
  "Config \<Rightarrow> string \<Rightarrow> sample list \<Rightarrow> 'e machine \<Rightarrow> ((consistencyReport \<times> err option) \<times> 'e machine) option" where
  "verifyLocalReplicas config rootDir samples mc =
     verify_groups config rootDir samples (sort (remdups (map sa_groupID samples))) (new_report (length samples)) mc"

section \<open>Directories\<close>

lemma path_of_Join3:
  assumes "plain_elem x" and "plain_elem y" and "plain_elem z"
  shows "path_of (path_Join [root, x, y, z]) = path_of root @ [x, y, z]"
proof (cases "root = []")
  case True
  then show ?thesis
    using assms path_of_append [OF assms(2), of x] path_of_append [OF assms(3), of "x @ CHR ''/'' # y"] path_of_plain [OF assms(1)]
    by (simp add: path_Join_def path_of_Clean plain_elem_def) (simp add: path_of_def is_rooted_def)
next
  case False
  then show ?thesis
    using assms path_of_append [OF assms(1), of root] path_of_append [OF assms(2), of "root @ CHR ''/'' # x"]
      path_of_append [OF assms(3), of "root @ CHR ''/'' # x @ CHR ''/'' # y"]
    by (simp add: path_Join_def path_of_Clean plain_elem_def)
qed

lemma path_of_Join1:
  assumes "plain_elem x"
  shows "path_of (path_Join [root, x]) = path_of root @ [x]"
proof (cases "root = []")
  case True
  then show ?thesis using assms path_of_plain [OF assms]
    by (simp add: path_Join_def path_of_Clean plain_elem_def) (simp add: path_of_def is_rooted_def)
next
  case False
  then show ?thesis using assms path_of_append [OF assms, of root]
    by (simp add: path_Join_def path_of_Clean plain_elem_def)
qed

text \<open>A name that can be an element of a path: also without a NUL.\<close>

definition plain_name :: "string \<Rightarrow> bool" where
  "plain_name s \<longleftrightarrow> plain_elem s \<and> CHR 0x00 \<notin> set s"

definition plain_group :: "GroupID \<Rightarrow> bool" where
  "plain_group g \<longleftrightarrow> CHR ''/'' \<notin> set g \<and> CHR 0x00 \<notin> set g"

lemma replica_dir_path:
  assumes "plain_name n" and "plain_group g"
  shows "path_of (replica_dir root n g) = path_of root @ [n, ''engine'', ''group-'' @ g]"
  using path_of_Join3 [of n "''engine''" "''group-'' @ g" root] assms
  by (simp add: replica_dir_def plain_name_def plain_group_def plain_elem_def)

text \<open>It is the directory that the node uses for its database of the group.\<close>

lemma replica_dir_is_engine_dir:
  assumes "plain_name n" and "plain_group g"
  shows "path_of (replica_dir root n g) = path_of (dd_engineDir (resolveGroupDataDirs (path_Join [root, n]) g))"
proof -
  have "path_of (path_Join [root, n]) = path_of root @ [n]"
    using assms(1) by (simp add: path_of_Join1 plain_name_def)
  then show ?thesis using replica_dir_path [OF assms] group_dirs_paths(1) assms(2) by (simp add: plain_group_def)
qed

lemma replica_dir_named:
  assumes "plain_name n" and "plain_group g" and "CHR 0x00 \<notin> set root"
  shows "replica_dir root n g \<noteq> []" and "CHR 0x00 \<notin> set (replica_dir root n g)"
proof -
  have "path_of (replica_dir root n g) \<noteq> path_of []" using replica_dir_path [OF assms(1,2)] by (simp add: path_of_def is_rooted_def)
  then show "replica_dir root n g \<noteq> []" by auto
  let ?es = "filter (\<lambda>e. e \<noteq> []) [root, n, ''engine'', ''group-'' @ g]"
  have "?es = (if root = [] then [] else [root]) @ [n, ''engine'', ''group-'' @ g]"
    using assms(1) by (simp add: plain_name_def plain_elem_def)
  then have "replica_dir root n g = Clean (join_elems ?es)"
    by (cases "root = []") (simp_all add: replica_dir_def path_Join_def)
  then have "set (replica_dir root n g) \<subseteq> insert (CHR ''/'') (\<Union> (set ` set ?es)) \<union> {CHR ''/'', CHR ''.''}"
    using Clean_chars [of "join_elems ?es"] join_elems_chars [of ?es] by auto
  moreover have "\<Union> (set ` set ?es) \<subseteq> set root \<union> set n \<union> set ''engine'' \<union> set (''group-'' @ g)" by (auto split: if_splits)
  moreover have "CHR 0x00 \<notin> set root \<union> set n \<union> set ''engine'' \<union> set (''group-'' @ g)"
    using assms by (simp add: plain_name_def plain_group_def)
  moreover have "CHR 0x00 \<noteq> CHR ''/''" "CHR 0x00 \<noteq> CHR ''.''" by simp_all
  ultimately have no: "CHR 0x00 \<notin> set (replica_dir root n g)" by blast
  then show "CHR 0x00 \<notin> set (replica_dir root n g)"
    using no by blast
qed

lemma replica_dirs_apart:
  assumes "plain_name n" "plain_group g" "plain_name m" "plain_group h"
    and "in_dir (path_of (replica_dir root n g)) q" and "in_dir (path_of (replica_dir root m h)) q"
  shows "n = m \<and> g = h"
  using assms(5,6) unfolding replica_dir_path [OF assms(1,2)] replica_dir_path [OF assms(3,4)] in_dir_def by auto

section \<open>Other directories\<close>

lemma in_dir_append [simp]: "in_dir d (d @ x)"
  by (simp add: in_dir_def)

lemma kept_at_frame:
  assumes "kept_at options n w a" and "calm w'" and "\<forall>q. in_dir (path_of (opt_Dir options)) q \<longrightarrow> file_at w' q = file_at w q"
  shows "kept_at options n w' a"
proof -
  let ?d = "path_of (opt_Dir options)"
  have same: "file_at w' (table_path ?d i) = file_at w (table_path ?d i)" "file_at w' (wal_path_of ?d) = file_at w (wal_path_of ?d)"
    "file_at w' (?d @ x) = file_at w (?d @ x)" for i x
    using assms(3) by simp_all
  have "tables_on w' ?d rss \<longleftrightarrow> tables_on w ?d rss" for rss by (simp add: tables_on_def table_at_def same)
  moreover have "file_data w' (wal_path_of ?d) = file_data w (wal_path_of ?d)" by (simp add: file_data_def same)
  ultimately show ?thesis using assms(1,2) by (simp add: kept_at_def)
qed

lemma kept_at_more: "kept_at options n w a \<Longrightarrow> n \<le> m \<Longrightarrow> kept_at options m w a"
  by (fastforce simp: kept_at_def)

lemma kept_at_open_frame:
  assumes "kept_at options n w a" and "n \<le> 10000" and "open_db options w = (Inr db, w')" and "\<not> in_dir (path_of (opt_Dir options)) q"
  shows "file_at w' q = file_at w q"
proof -
  let ?d = "path_of (opt_Dir options)"
  obtain rss ls where c: "calm w" and on: "tables_on w ?d rss" and n: "length rss \<le> n"
    and wal: "file_data w (wal_path_of ?d) = frames ls" and ok: "recs_ok ls"
    using assms(1) by (auto simp: kept_at_def)
  have "scan Decode (file_data w (wal_path_of ?d)) = (ls, EOF)" using wal codec.scan_frames [OF ok] by simp
  moreover have "length rss \<le> 10000" using n assms(2) by simp
  ultimately have "\<forall>q. q \<noteq> wal_path_of ?d \<longrightarrow> file_at w' q = file_at w q"
    using open_db_calm [OF c on _ refl _ _ ok] assms(3) by fastforce
  then show ?thesis using assms(4) in_dir_paths(2) [of ?d] by metis
qed

lemma store_at_close_frame:
  assumes "store_at options n db w a" and "DbClose db w = (r, db', w')" and "\<not> in_dir (path_of (opt_Dir options)) q"
  shows "file_at w' q = file_at w q"
proof -
  obtain rss ls where inv: "db_inv w db rss ls" and c: "calm w" and d: "db_Dir db = path_of (opt_Dir options)"
    using assms(1) by (auto simp: store_at_def db_repr_def)
  obtain db1 w1 rss' ls' where fl: "triggerFlush db w = (None, db1, w1)" and c1: "calm w1"
    and inv1: "db_inv w1 db1 rss' ls'" and other: "\<forall>q. \<not> in_dir (db_Dir db) q \<longrightarrow> file_at w1 q = file_at w q"
    using triggerFlush_calm [OF c inv] by blast
  have ld: "db_loaded db1 (db_Dir db1) rss' ls'" using inv1 by (simp add: db_inv_def)
  then obtain ss where cl: "closeSstables (db_Sstables db1) w1 = (None, ss, w1)"
    using closeSstables_calm [OF c1 tables_open_not_closed] unfolding db_loaded_def by blast
  have "\<not> db_closed db" using inv by (simp add: db_inv_def db_loaded_def)
  then have "w' = w1" using assms(2) fl cl ld c1 by (simp add: DbClose_def WalClose_calm db_loaded_def)
  then show ?thesis using other assms(3) d by simp
qed

section \<open>A database\<close>

definition checkable :: "sample list \<Rightarrow> bool" where
  "checkable samples \<longleftrightarrow> (\<forall>smp \<in> set samples. sa_key smp \<noteq> [] \<and> sa_value smp \<noteq> [])"

definition all_stored :: "(bytes \<rightharpoonup> bytes) \<Rightarrow> sample list \<Rightarrow> bool" where
  "all_stored a samples \<longleftrightarrow> (\<forall>smp \<in> set samples. a (sa_key smp) = Some (sa_value smp))"

lemma check_stored_at:
  assumes "store_at options n db w a" and "checkable samples"
  shows "\<exists>rep err. check_stored db samples report w = ((rep, err), w) \<and> (err = None \<longleftrightarrow> all_stored a samples) \<and> (err = None \<longrightarrow> rep = report)"
  using assms(2)
proof (induction samples)
  case Nil
  then show ?case by (simp add: all_stored_def)
next
  case (Cons smp smps)
  have k: "sa_key smp \<noteq> []" "sa_value smp \<noteq> []" and rest: "checkable smps" using Cons.prems by (simp_all add: checkable_def)
  obtain g where g: "DbGet (sa_key smp) db w = (Inr g, w)" "reads_as (a (sa_key smp)) g"
    using store_at_get [OF assms(1) k(1)] by blast
  have "slice g = sa_value smp \<longleftrightarrow> a (sa_key smp) = Some (sa_value smp)"
    using g(2) k(2) by (auto simp: reads_as_def slice_def split: option.splits)
  then show ?case using Cons.IH [OF rest] g(1) by (auto simp: all_stored_def)
qed

lemma verifyLocalDB_decides:
  assumes kept: "kept_at (local_options dir) n (mc_world mc) a" and "n \<le> 10000"
    and dir: "dir \<noteq> []" "CHR 0x00 \<notin> set dir" and "checkable samples"
  shows "\<exists>rep err mc'. verifyLocalDB dir samples mc = Some ((rep, err), mc')
    \<and> (err = None \<longleftrightarrow> all_stored a samples) \<and> (err = None \<longrightarrow> rep = new_report (length samples))
    \<and> kept_at (local_options dir) (Suc n) (mc_world mc') a
    \<and> (\<forall>q. \<not> in_dir (path_of dir) q \<longrightarrow> file_at (mc_world mc') q = file_at (mc_world mc) q)"
proof -
  obtain db w1 where op: "open_db (local_options dir) (mc_world mc) = (Inr db, w1)" and st: "store_at (local_options dir) n db w1 a"
    using kept_at_open [OF assms(1,2)] by blast
  have d: "opt_Dir (local_options dir) = dir" by (simp add: local_options_def)
  have "calm (mc_world mc)" using kept by (simp add: kept_at_def)
  then have kv: "kv_open (local_options dir) mc = Some (Inr db, mc\<lparr>mc_world := w1, mc_logger := True\<rparr>)"
    using DbOpen_named [of "local_options dir" "mc_world mc" "mc_logger mc"] dir op by (simp add: kv_open_def d)
  obtain rep err where chk: "check_stored db samples (new_report (length samples)) w1 = ((rep, err), w1)"
    "err = None \<longleftrightarrow> all_stored a samples" "err = None \<longrightarrow> rep = new_report (length samples)"
    using check_stored_at [OF st assms(5)] by blast
  obtain db' w2 where cl: "DbClose db w1 = (None, db', w2)" "kept_at (local_options dir) (Suc n) w2 a"
    using kept_at_close [OF st] by blast
  have "verifyLocalDB dir samples mc = Some ((rep, err), mc\<lparr>mc_world := w2, mc_logger := True\<rparr>)"
    using kv chk(1) cl(1) by (simp add: verifyLocalDB_def kv_close_def)
  moreover have "file_at w2 q = file_at (mc_world mc) q" if "\<not> in_dir (path_of dir) q" for q
    using store_at_close_frame [OF st cl(1)] kept_at_open_frame [OF kept assms(2) op] that by (simp add: d)
  ultimately show ?thesis using chk(2,3) cl(2) by (intro exI conjI) auto
qed

section \<open>The replicas\<close>

text \<open>
  \<open>R\<close> are the replicas, as group and node; each has its map in its directory, with a bound for the
  number of its tables.
\<close>

definition replicas_kept ::
  "string \<Rightarrow> (GroupID \<times> string) set \<Rightarrow> (GroupID \<times> string \<Rightarrow> bytes \<rightharpoonup> bytes) \<Rightarrow> (GroupID \<times> string \<Rightarrow> nat) \<Rightarrow> world \<Rightarrow> bool" where
  "replicas_kept root R M bound w \<longleftrightarrow>
     (\<forall>x \<in> R. kept_at (local_options (replica_dir root (snd x) (fst x))) (bound x) w (M x))"

definition names_ok :: "string \<Rightarrow> (GroupID \<times> string) set \<Rightarrow> bool" where
  "names_ok root R \<longleftrightarrow> CHR 0x00 \<notin> set root \<and> (\<forall>x \<in> R. plain_group (fst x) \<and> plain_name (snd x))"

lemma verify_one:
  assumes names: "names_ok root R" and kept: "replicas_kept root R M bound (mc_world mc)" and x: "(g, n) \<in> R"
    and "bound (g, n) \<le> 10000" and "checkable samples"
  shows "\<exists>rep err mc' bound'. verifyLocalDB (replica_dir root n g) samples mc = Some ((rep, err), mc')
    \<and> (err = None \<longleftrightarrow> all_stored (M (g, n)) samples) \<and> (err = None \<longrightarrow> rep = new_report (length samples))
    \<and> replicas_kept root R M bound' (mc_world mc') \<and> (\<forall>x. bound' x \<le> Suc (bound x)) \<and> (\<forall>x. x \<noteq> (g, n) \<longrightarrow> bound' x = bound x)"
proof -
  let ?d = "replica_dir root n g"
  have pn: "plain_name n" "plain_group g" "CHR 0x00 \<notin> set root" using names x by (auto simp: names_ok_def)
  have k: "kept_at (local_options ?d) (bound (g, n)) (mc_world mc) (M (g, n))"
    using kept x by (force simp: replicas_kept_def)
  obtain rep err mc' where v: "verifyLocalDB ?d samples mc = Some ((rep, err), mc')" "err = None \<longleftrightarrow> all_stored (M (g, n)) samples"
    "err = None \<longrightarrow> rep = new_report (length samples)" and k': "kept_at (local_options ?d) (Suc (bound (g, n))) (mc_world mc') (M (g, n))"
    and other: "\<forall>q. \<not> in_dir (path_of ?d) q \<longrightarrow> file_at (mc_world mc') q = file_at (mc_world mc) q"
    using verifyLocalDB_decides [OF k assms(4) replica_dir_named [OF pn] assms(5)] by blast
  have "kept_at (local_options (replica_dir root (snd y) (fst y))) ((bound((g, n) := Suc (bound (g, n)))) y) (mc_world mc') (M y)"
    if y: "y \<in> R" for y
  proof (cases "y = (g, n)")
    case True
    then show ?thesis using k' by simp
  next
    case False
    have py: "plain_name (snd y)" "plain_group (fst y)" using names y by (auto simp: names_ok_def)
    let ?e = "replica_dir root (snd y) (fst y)"
    have c: "calm (mc_world mc')" using k' by (simp add: kept_at_def)
    have "\<not> in_dir (path_of ?d) q" if "in_dir (path_of ?e) q" for q
      using replica_dirs_apart [OF py pn(1,2) that] False by (metis prod.collapse)
    then have "file_at (mc_world mc') q = file_at (mc_world mc) q" if "in_dir (path_of ?e) q" for q using other that by blast
    then have same: "\<forall>q. in_dir (path_of (opt_Dir (local_options ?e))) q \<longrightarrow> file_at (mc_world mc') q = file_at (mc_world mc) q"
      by (simp add: local_options_def)
    have "kept_at (local_options ?e) (bound y) (mc_world mc) (M y)" using kept y by (simp add: replicas_kept_def)
    then have "kept_at (local_options ?e) (bound y) (mc_world mc') (M y)" by (rule kept_at_frame [OF _ c same])
    then show ?thesis using False by simp
  qed
  then have "replicas_kept root R M (bound((g, n) := Suc (bound (g, n)))) (mc_world mc')" by (simp add: replicas_kept_def)
  moreover have "(bound((g, n) := Suc (bound (g, n)))) y \<le> Suc (bound y)" for y by simp
  moreover have "(bound((g, n) := Suc (bound (g, n)))) y = bound y" if "y \<noteq> (g, n)" for y using that by simp
  ultimately show ?thesis using v
    by (intro exI [of _ rep] exI [of _ err] exI [of _ mc'] exI [of _ "bound((g, n) := Suc (bound (g, n)))"]) (simp del: fun_upd_apply)
qed

lemma verify_replicas_decides:
  assumes "names_ok root R" and "replicas_kept root R M bound (mc_world mc)" and "checkable samples"
    and "distinct (map gr_NodeID rs)" and "\<forall>r \<in> set rs. (g, gr_NodeID r) \<in> R \<and> bound (g, gr_NodeID r) \<le> 10000"
  shows "\<exists>rep err mc' bound'. verify_replicas root g samples rs report mc = Some ((rep, err), mc')
    \<and> (err = None \<longleftrightarrow> (\<forall>r \<in> set rs. all_stored (M (g, gr_NodeID r)) samples))
    \<and> (err = None \<longrightarrow> rep = report\<lparr>cr_ReplicaVerifiedCount := cr_ReplicaVerifiedCount report + length rs\<rparr>)
    \<and> replicas_kept root R M bound' (mc_world mc') \<and> (\<forall>x. bound' x \<le> Suc (bound x)) \<and> (\<forall>x. fst x \<noteq> g \<longrightarrow> bound' x = bound x)
    \<and> (\<forall>x. snd x \<notin> gr_NodeID ` set rs \<longrightarrow> bound' x = bound x)"
  using assms(2,4,5)
proof (induction rs arbitrary: report mc bound)
  case Nil
  then show ?case by (intro exI [of _ report] exI [of _ None] exI [of _ mc] exI [of _ bound]) auto
next
  case (Cons r rs)
  let ?n = "gr_NodeID r"
  obtain rep err mc1 b1 where v: "verifyLocalDB (replica_dir root ?n g) samples mc = Some ((rep, err), mc1)"
    "err = None \<longleftrightarrow> all_stored (M (g, ?n)) samples" "err = None \<longrightarrow> rep = new_report (length samples)"
    and k: "replicas_kept root R M b1 (mc_world mc1)" and b1: "\<forall>x. b1 x \<le> Suc (bound x)" "\<forall>x. x \<noteq> (g, ?n) \<longrightarrow> b1 x = bound x"
    using verify_one [OF assms(1) Cons.prems(1) _ _ assms(3), of g ?n] Cons.prems(3) by auto
  show ?case
  proof (cases err)
    case (Some x)
    have "\<not> all_stored (M (g, ?n)) samples" using v(2) Some by simp
    then show ?thesis using v(1) Some k
      by (intro exI [of _ "report\<lparr>cr_MissingCount := cr_MissingCount report + cr_MissingCount rep,
            cr_MismatchCount := cr_MismatchCount report + cr_MismatchCount rep,
            cr_ReplicaVerifiedCount := cr_ReplicaVerifiedCount report + 1\<rparr>"]
          exI [of _ "Some (Wrapped (''node '' @ ?n @ '' group '' @ g) x)"] exI [of _ mc1] exI [of _ b1]) (auto simp: b1)
  next
    case None
    let ?report = "report\<lparr>cr_ReplicaVerifiedCount := cr_ReplicaVerifiedCount report + 1\<rparr>"
    have "b1 (g, gr_NodeID r') = bound (g, gr_NodeID r')" if "r' \<in> set rs" for r'
      using b1(2) Cons.prems(2) that by (metis distinct.simps(2) image_eqI list.simps(9) prod.inject set_map)
    then have small: "\<forall>r' \<in> set rs. (g, gr_NodeID r') \<in> R \<and> b1 (g, gr_NodeID r') \<le> 10000" using Cons.prems(3) by simp
    have d: "distinct (map gr_NodeID rs)" using Cons.prems(2) by simp
    from Cons.IH [OF k d small, of ?report] obtain rep' err' mc' b2 where run: "verify_replicas root g samples rs ?report mc1 = Some ((rep', err'), mc')"
      "err' = None \<longleftrightarrow> (\<forall>r \<in> set rs. all_stored (M (g, gr_NodeID r)) samples)"
      "err' = None \<longrightarrow> rep' = ?report\<lparr>cr_ReplicaVerifiedCount := cr_ReplicaVerifiedCount ?report + length rs\<rparr>"
      and k': "replicas_kept root R M b2 (mc_world mc')"
      and b2: "\<forall>x. b2 x \<le> Suc (b1 x)" "\<forall>x. fst x \<noteq> g \<longrightarrow> b2 x = b1 x" "\<forall>x. snd x \<notin> gr_NodeID ` set rs \<longrightarrow> b2 x = b1 x"
      by blast
    have "b2 x \<le> Suc (bound x)" for x
    proof (cases "x = (g, ?n)")
      case True
      then have "snd x \<notin> gr_NodeID ` set rs" using Cons.prems(2) by simp
      then show ?thesis using b2(3) b1(1) by metis
    next
      case False
      then show ?thesis using b2(1) b1(2) by metis
    qed
    moreover have "b2 x = bound x" if "fst x \<noteq> g" for x
      using b2(2) b1(2) that by (metis fst_conv)
    moreover have "b2 x = bound x" if "snd x \<notin> gr_NodeID ` set (r # rs)" for x
    proof -
      have "snd x \<notin> gr_NodeID ` set rs" "x \<noteq> (g, ?n)" using that by auto
      then show ?thesis using b2(3) b1(2) by metis
    qed
    moreover have "verify_replicas root g samples (r # rs) report mc = Some ((rep', err'), mc')"
      using v(1,3) None run(1) by (simp add: new_report_def)
    moreover have "err' = None \<longrightarrow> rep' = report\<lparr>cr_ReplicaVerifiedCount := cr_ReplicaVerifiedCount report + length (r # rs)\<rparr>"
      using run(3) by simp
    moreover have "err' = None \<longleftrightarrow> (\<forall>r \<in> set (r # rs). all_stored (M (g, gr_NodeID r)) samples)" using run(2) v(2) None by simp
    ultimately show ?thesis using k' by blast
  qed
qed

section \<open>The whole cluster\<close>

definition cluster_replicas :: "Config \<Rightarrow> (GroupID \<times> string) set" where
  "cluster_replicas c = {(gp_ID grp, gr_NodeID r) | grp r. grp \<in> set (cc_Groups c) \<and> r \<in> set (gp_Replicas grp)}"

definition replica_amount :: "Config \<Rightarrow> GroupID \<Rightarrow> nat" where
  "replica_amount c g = (case FindGroup c g of Inl err \<Rightarrow> 0 | Inr grp \<Rightarrow> length (gp_Replicas grp))"

lemma cluster_replicas_of:
  assumes "cluster_ok c" and "grp \<in> set (cc_Groups c)"
  shows "(gp_ID grp, n) \<in> cluster_replicas c \<longleftrightarrow> n \<in> gr_NodeID ` set (gp_Replicas grp)"
proof -
  have "distinct (map gp_ID (cc_Groups c))" using assms(1) by (simp add: cluster_ok_def)
  then have "h = grp" if "h \<in> set (cc_Groups c)" "gp_ID h = gp_ID grp" for h
    using that assms(2) by (auto simp: distinct_map dest: inj_onD)
  then show ?thesis using assms(2) by (auto simp: cluster_replicas_def)
qed

lemma verify_groups_decides:
  assumes ok: "cluster_ok c" and names: "names_ok root (cluster_replicas c)" and smps: "checkable samples"
    and "replicas_kept root (cluster_replicas c) M bound (mc_world mc)" and "distinct ids" and "set ids \<subseteq> gp_ID ` set (cc_Groups c)"
    and "\<forall>x. fst x \<in> set ids \<longrightarrow> bound x \<le> 10000"
  shows "\<exists>rep err mc' bound'. verify_groups c root samples ids report mc = Some ((rep, err), mc')
    \<and> (err = None \<longleftrightarrow> (\<forall>x \<in> cluster_replicas c. fst x \<in> set ids \<longrightarrow> all_stored (M x) (by_group samples (fst x))))
    \<and> (err = None \<longrightarrow> rep = report\<lparr>cr_ReplicaVerifiedCount := cr_ReplicaVerifiedCount report + sum_list (map (replica_amount c) ids)\<rparr>)
    \<and> replicas_kept root (cluster_replicas c) M bound' (mc_world mc') \<and> (\<forall>x. bound' x \<le> Suc (bound x))
    \<and> (\<forall>x. fst x \<notin> set ids \<longrightarrow> bound' x = bound x)"
  using assms(4-7)
proof (induction ids arbitrary: report mc bound)
  case Nil
  then show ?case by (intro exI [of _ report] exI [of _ None] exI [of _ mc] exI [of _ bound]) auto
next
  case (Cons g ids)
  obtain grp where grp: "grp \<in> set (cc_Groups c)" "gp_ID grp = g" using Cons.prems(3) by auto
  have "distinct (map gp_ID (cc_Groups c))" and grp_ok: "group_ok c grp" using ok grp(1) by (simp_all add: cluster_ok_def)
  then have find: "FindGroup c g = Inr grp" using grp by (simp add: FindGroup_distinct)
  note of_g = cluster_replicas_of [OF ok grp(1), unfolded grp(2)]
  have d: "distinct (map gr_NodeID (gp_Replicas grp))" using grp_ok by (simp add: group_ok_def)
  have mine: "\<forall>r \<in> set (gp_Replicas grp). (g, gr_NodeID r) \<in> cluster_replicas c \<and> bound (g, gr_NodeID r) \<le> 10000"
    using of_g Cons.prems(4) by simp
  have chk: "checkable (by_group samples g)" using smps by (simp add: checkable_def by_group_def)
  have stored: "(\<forall>r \<in> set (gp_Replicas grp). all_stored (M (g, gr_NodeID r)) (by_group samples g))
      \<longleftrightarrow> (\<forall>x \<in> cluster_replicas c. fst x = g \<longrightarrow> all_stored (M x) (by_group samples g))"
    using of_g by fastforce
  from verify_replicas_decides [OF names Cons.prems(1) chk d mine, of report]
  obtain rep err mc1 b1 where v: "verify_replicas root g (by_group samples g) (gp_Replicas grp) report mc = Some ((rep, err), mc1)"
    "err = None \<longleftrightarrow> (\<forall>r \<in> set (gp_Replicas grp). all_stored (M (g, gr_NodeID r)) (by_group samples g))"
    "err = None \<longrightarrow> rep = report\<lparr>cr_ReplicaVerifiedCount := cr_ReplicaVerifiedCount report + length (gp_Replicas grp)\<rparr>"
    and k: "replicas_kept root (cluster_replicas c) M b1 (mc_world mc1)"
    and b1: "\<forall>x. b1 x \<le> Suc (bound x)" "\<forall>x. fst x \<noteq> g \<longrightarrow> b1 x = bound x"
    by blast
  show ?case
  proof (cases err)
    case (Some x)
    have "\<not> (\<forall>x \<in> cluster_replicas c. fst x \<in> set (g # ids) \<longrightarrow> all_stored (M x) (by_group samples (fst x)))"
      using v(2) Some stored by auto
    moreover have "verify_groups c root samples (g # ids) report mc = Some ((rep, Some x), mc1)" using find v(1) Some by simp
    moreover have "\<forall>x. fst x \<notin> set (g # ids) \<longrightarrow> b1 x = bound x" using b1(2) by simp
    ultimately show ?thesis using k b1(1) by (intro exI [of _ rep] exI [of _ "Some x"] exI [of _ mc1] exI [of _ b1]) simp
  next
    case None
    have small: "\<forall>x. fst x \<in> set ids \<longrightarrow> b1 x \<le> 10000" using b1(2) Cons.prems(2,4) by auto
    have d': "distinct ids" and sub: "set ids \<subseteq> gp_ID ` set (cc_Groups c)" using Cons.prems(2,3) by simp_all
    from Cons.IH [OF k d' sub small, of rep] obtain rep' err' mc' b2 where run: "verify_groups c root samples ids rep mc1 = Some ((rep', err'), mc')"
      "err' = None \<longleftrightarrow> (\<forall>x \<in> cluster_replicas c. fst x \<in> set ids \<longrightarrow> all_stored (M x) (by_group samples (fst x)))"
      "err' = None \<longrightarrow> rep' = rep\<lparr>cr_ReplicaVerifiedCount := cr_ReplicaVerifiedCount rep + sum_list (map (replica_amount c) ids)\<rparr>"
      and k': "replicas_kept root (cluster_replicas c) M b2 (mc_world mc')"
      and b2: "\<forall>x. b2 x \<le> Suc (b1 x)" "\<forall>x. fst x \<notin> set ids \<longrightarrow> b2 x = b1 x"
      by blast
    have "b2 x \<le> Suc (bound x)" for x
    proof (cases "fst x \<in> set ids")
      case True
      then have "fst x \<noteq> g" using Cons.prems(2) by auto
      then show ?thesis using b2(1) b1(2) by metis
    next
      case False
      then show ?thesis using b2(2) b1(1) by metis
    qed
    moreover have "\<forall>x. fst x \<notin> set (g # ids) \<longrightarrow> b2 x = bound x" using b2(2) b1(2) by (metis list.set_intros)
    moreover have "verify_groups c root samples (g # ids) report mc = Some ((rep', err'), mc')" using find v(1) None run(1) by simp
    moreover have "err' = None \<longrightarrow> rep' = report\<lparr>cr_ReplicaVerifiedCount := cr_ReplicaVerifiedCount report
        + sum_list (map (replica_amount c) (g # ids))\<rparr>"
      using run(3) v(3) None find by (simp add: replica_amount_def)
    moreover have "err' = None \<longleftrightarrow> (\<forall>x \<in> cluster_replicas c. fst x \<in> set (g # ids) \<longrightarrow> all_stored (M x) (by_group samples (fst x)))"
      using run(2) v(2) None stored by auto
    ultimately show ?thesis using k' by blast
  qed
qed

lemma all_stored_groups:
  "(\<forall>x \<in> R. fst x \<in> set (map sa_groupID samples) \<longrightarrow> all_stored (M x) (by_group samples (fst x)))
   \<longleftrightarrow> (\<forall>smp \<in> set samples. \<forall>n. (sa_groupID smp, n) \<in> R \<longrightarrow> M (sa_groupID smp, n) (sa_key smp) = Some (sa_value smp))"
  by (fastforce simp: all_stored_def by_group_def)

lemma verifyLocalReplicas_decides:
  assumes "cluster_ok c" and "names_ok root (cluster_replicas c)"
    and "replicas_kept root (cluster_replicas c) M (\<lambda>x. n) (mc_world mc)" and "n \<le> 10000"
    and "checkable samples" and "sa_groupID ` set samples \<subseteq> gp_ID ` set (cc_Groups c)"
  shows "\<exists>report err mc'. verifyLocalReplicas c root samples mc = Some ((report, err), mc')
    \<and> (err = None \<longleftrightarrow> (\<forall>smp \<in> set samples. \<forall>m. (sa_groupID smp, m) \<in> cluster_replicas c
         \<longrightarrow> M (sa_groupID smp, m) (sa_key smp) = Some (sa_value smp)))
    \<and> (err = None \<longrightarrow> report = \<lparr>cr_VerifiedKeys = length samples, cr_MissingCount = 0, cr_MismatchCount = 0,
         cr_ReplicaVerifiedCount = (\<Sum>g \<in> sa_groupID ` set samples. replica_amount c g)\<rparr>)
    \<and> replicas_kept root (cluster_replicas c) M (\<lambda>x. Suc n) (mc_world mc')"
proof -
  let ?ids = "sort (remdups (map sa_groupID samples))"
  have ids: "distinct ?ids" "set ?ids \<subseteq> gp_ID ` set (cc_Groups c)" "\<forall>x. fst x \<in> set ?ids \<longrightarrow> n \<le> 10000"
    using assms(4,6) by auto
  have set: "set ?ids = set (map sa_groupID samples)" by simp
  from verify_groups_decides [OF assms(1,2,5,3) ids, of "new_report (length samples)"]
  obtain rep err mc' b where v: "verifyLocalReplicas c root samples mc = Some ((rep, err), mc')"
    "err = None \<longleftrightarrow> (\<forall>x \<in> cluster_replicas c. fst x \<in> set ?ids \<longrightarrow> all_stored (M x) (by_group samples (fst x)))"
    "err = None \<longrightarrow> rep = (new_report (length samples))\<lparr>cr_ReplicaVerifiedCount := cr_ReplicaVerifiedCount (new_report (length samples))
      + sum_list (map (replica_amount c) ?ids)\<rparr>"
    and k: "replicas_kept root (cluster_replicas c) M b (mc_world mc')" and b: "\<forall>x. b x \<le> Suc n"
    unfolding verifyLocalReplicas_def by blast
  have "sum_list (map (replica_amount c) ?ids) = (\<Sum>g \<in> sa_groupID ` set samples. replica_amount c g)"
    using sum_list_distinct_conv_sum_set [OF ids(1), of "replica_amount c"] by simp
  moreover have "replicas_kept root (cluster_replicas c) M (\<lambda>x. Suc n) (mc_world mc')"
    using k b kept_at_more unfolding replicas_kept_def by blast
  ultimately show ?thesis using v(1,3) v(2) [unfolded set all_stored_groups] by (auto simp: new_report_def)
qed

text \<open>
  C18: The check of the replicas decides.  Take a valid configuration whose names can be used in paths,
  and let every replica's directory hold a map.  For samples of its groups, with keys and values that
  are not empty, \<open>verifyLocalReplicas\<close> returns without panicking, and without an error exactly if every
  replica of every sample's group has the sample's value; then the report counts no missing or wrong
  value and every replica of these groups.  In any case all directories still hold their maps.
\<close>

theorem replica_check_decides:
  assumes "cluster_ok c" and "names_ok root (cluster_replicas c)"
    and "replicas_kept root (cluster_replicas c) M (\<lambda>x. n) (mc_world mc)" and "n \<le> 10000"
    and "checkable samples" and "sa_groupID ` set samples \<subseteq> gp_ID ` set (cc_Groups c)"
  shows "\<exists>report err mc'. verifyLocalReplicas c root samples mc = Some ((report, err), mc')
    \<and> (err = None \<longleftrightarrow> (\<forall>smp \<in> set samples. \<forall>m. (sa_groupID smp, m) \<in> cluster_replicas c
         \<longrightarrow> M (sa_groupID smp, m) (sa_key smp) = Some (sa_value smp)))
    \<and> (err = None \<longrightarrow> report = \<lparr>cr_VerifiedKeys = length samples, cr_MissingCount = 0, cr_MismatchCount = 0,
         cr_ReplicaVerifiedCount = (\<Sum>g \<in> sa_groupID ` set samples. replica_amount c g)\<rparr>)
    \<and> replicas_kept root (cluster_replicas c) M (\<lambda>x. Suc n) (mc_world mc')"
  by (rule verifyLocalReplicas_decides [OF assms])

lemma replicas_on_disk:
  assumes "r = \<lparr>rec_Type = TypePut, rec_Key = k, rec_Value = v\<rparr>" and "rec_ok r"
  shows "replicas_kept ''d'' (cluster_replicas example_cluster) (\<lambda>x. [k \<mapsto> v]) (\<lambda>x. 0)
    \<lparr>disk = [(path_of (replica_dir ''d'' ''n1'' ''g1'') @ [''wal.log''], frame r)], faults = []\<rparr>"
proof -
  let ?d = "path_of (replica_dir ''d'' ''n1'' ''g1'')"
  let ?w = "\<lparr>disk = [(?d @ [''wal.log''], frame r)], faults = []\<rparr>"
  have R: "cluster_replicas example_cluster = {(''g1'', ''n1'')}" by (auto simp: cluster_replicas_def example_cluster_def)
  have "tables_on ?w ?d []" by (simp add: tables_on_def file_at_def)
  moreover have "file_data ?w (wal_path_of ?d) = frames [r]" by (simp add: file_data_def file_at_def wal_path_of_def)
  moreover have "kv_values (newest (concat []) ++ newest [r]) = [k \<mapsto> v]" by (auto simp: fun_eq_iff kv_values_def live_def newest_def assms(1))
  ultimately have "kept_at (local_options (replica_dir ''d'' ''n1'' ''g1'')) 0 ?w [k \<mapsto> v]"
    unfolding kept_at_def local_options_def using assms(2) by (intro conjI exI [of _ "[]"] exI [of _ "[r]"]) simp_all
  then show ?thesis by (simp add: replicas_kept_def R)
qed

theorem replica_check_decides_witness:
  "\<exists>w report mc1 err mc2.
     verifyLocalReplicas example_cluster ''d'' [\<lparr>sa_key = [1], sa_value = [2], sa_groupID = ''g1''\<rparr>]
       \<lparr>mc_world = w, mc_logger = False, mc_raft = ()\<rparr> = Some ((report, None), mc1)
   \<and> cr_ReplicaVerifiedCount report = 1
   \<and> verifyLocalReplicas example_cluster ''d'' [\<lparr>sa_key = [1], sa_value = [3], sa_groupID = ''g1''\<rparr>] mc1 = Some (err, mc2)
   \<and> snd err \<noteq> None"
proof -
  have ok: "cluster_ok example_cluster" by (auto simp: cluster_ok_def group_ok_def replica_ok_def example_cluster_def)
  have R: "cluster_replicas example_cluster = {(''g1'', ''n1'')}" by (auto simp: cluster_replicas_def example_cluster_def)
  have names: "names_ok ''d'' (cluster_replicas example_cluster)"
    by (simp add: R names_ok_def plain_name_def plain_group_def plain_elem_def)
  let ?w = "\<lparr>disk = [(path_of (replica_dir ''d'' ''n1'' ''g1'') @ [''wal.log''],
    frame \<lparr>rec_Type = TypePut, rec_Key = [1], rec_Value = [2]\<rparr>)], faults = []\<rparr>"
  have kept: "replicas_kept ''d'' (cluster_replicas example_cluster) (\<lambda>x. [[1] \<mapsto> [2]]) (\<lambda>x. 0)
      (mc_world \<lparr>mc_world = ?w, mc_logger = False, mc_raft = ()\<rparr>)"
    using replicas_on_disk [OF refl] by (simp add: rec_ok_iff MaxUint32_def)
  have amount: "replica_amount example_cluster ''g1'' = 1" by (simp add: replica_amount_def FindGroup_def example_cluster_def)
  have groups: "sa_groupID ` set [\<lparr>sa_key = [1], sa_value = [v], sa_groupID = ''g1''\<rparr>] \<subseteq> gp_ID ` set (cc_Groups example_cluster)"
    and chk: "checkable [\<lparr>sa_key = [1], sa_value = [v], sa_groupID = ''g1''\<rparr>]" for v
    by (simp_all add: example_cluster_def checkable_def)
  from replica_check_decides [OF ok names kept _ chk groups, of 2] obtain report mc1
    where 1: "verifyLocalReplicas example_cluster ''d'' [\<lparr>sa_key = [1], sa_value = [2], sa_groupID = ''g1''\<rparr>]
        \<lparr>mc_world = ?w, mc_logger = False, mc_raft = ()\<rparr> = Some ((report, None), mc1)"
      "cr_ReplicaVerifiedCount report = 1"
    and kept1: "replicas_kept ''d'' (cluster_replicas example_cluster) (\<lambda>x. [[1] \<mapsto> [2]]) (\<lambda>x. Suc 0) (mc_world mc1)"
    by (auto simp: R amount)
  from replica_check_decides [OF ok names kept1 _ chk groups, of 3] obtain rep err mc2
    where "verifyLocalReplicas example_cluster ''d'' [\<lparr>sa_key = [1], sa_value = [3], sa_groupID = ''g1''\<rparr>] mc1 = Some ((rep, err), mc2)"
      "err \<noteq> None"
    by (auto simp: R)
  then show ?thesis using 1 by (metis snd_conv)
qed

section \<open>The example's configuration\<close>

text \<open>
  The configuration that the example writes is valid if the addresses are not empty and those of a group
  differ.  The listeners are closed before the nodes use the addresses, so the operating system may hand
  out one twice.
\<close>

lemma newExampleClusterConfig_valid:
  assumes "newExampleClusterConfig listen s = Some (Inr (config, err), s')"
    and "\<forall>t addr t'. listen t = (Inr addr, t') \<longrightarrow> addr \<noteq> []"
  shows "err = None \<longleftrightarrow> (\<forall>grp \<in> set (cc_Groups config). distinct (map gr_RaftAddr (gp_Replicas grp)))"
proof -
  have ne: "addr \<noteq> []" if "mustFreeLocalAddr listen t = Some (Inr addr, t')" for t addr t'
    using that assms(2) by (auto simp: mustFreeLocalAddr_def cmd_return_def log_Fatal_def split: prod.splits sum.splits)
  have all: "cluster_ok \<lparr>cc_Nodes = [\<lparr>nd_ID = ''n1'', nd_ClientAddr = c1\<rparr>, \<lparr>nd_ID = ''n2'', nd_ClientAddr = c2\<rparr>, \<lparr>nd_ID = ''n3'', nd_ClientAddr = c3\<rparr>],
         cc_ShardConfig = \<lparr>sh_ShardCount = 4, sh_VirtualNodes = 8\<rparr>,
         cc_ShardRoutes = [\<lparr>sd_ID = 0, sd_GroupID = ''g1''\<rparr>, \<lparr>sd_ID = 1, sd_GroupID = ''g1''\<rparr>,
           \<lparr>sd_ID = 2, sd_GroupID = ''g2''\<rparr>, \<lparr>sd_ID = 3, sd_GroupID = ''g2''\<rparr>],
         cc_Groups = [
           \<lparr>gp_ID = ''g1'', gp_Replicas = [\<lparr>gr_NodeID = ''n1'', gr_RaftAddr = a1\<rparr>, \<lparr>gr_NodeID = ''n2'', gr_RaftAddr = a2\<rparr>,
             \<lparr>gr_NodeID = ''n3'', gr_RaftAddr = a3\<rparr>]\<rparr>,
           \<lparr>gp_ID = ''g2'', gp_Replicas = [\<lparr>gr_NodeID = ''n1'', gr_RaftAddr = b1\<rparr>, \<lparr>gr_NodeID = ''n2'', gr_RaftAddr = b2\<rparr>,
             \<lparr>gr_NodeID = ''n3'', gr_RaftAddr = b3\<rparr>]\<rparr>]\<rparr> \<longleftrightarrow> distinct [a1, a2, a3] \<and> distinct [b1, b2, b3]"
    if "\<forall>x \<in> set [c1, c2, c3, a1, a2, a3, b1, b2, b3]. x \<noteq> []" for c1 c2 c3 a1 a2 a3 b1 b2 b3
  proof -
    have "{0..<4 :: int} = {0, 1, 2, 3}" by auto
    then show ?thesis using that by (simp add: cluster_ok_def group_ok_def replica_ok_def)
  qed
  show ?thesis
    using assms(1) by (auto simp: newExampleClusterConfig_def cmd_bind_def cmd_return_def Let_def Validate_cluster_ok all dest!: ne
        split: option.splits prod.splits sum.splits)
qed

end
