(* ===== verification/KV_Launch.thy ===== *)
theory KV_Launch
  imports KV_Measured KV_Replicas
begin

text \<open>
  The processes of the distributed example (\<open>example/distributed/main.go\<close>): its flags, the files that it
  writes, how it starts the nodes, and how it stops them with one deadline for all.
\<close>

section \<open>Flags\<close>

text \<open>The defaults; durations are nanoseconds.\<close>

definition default_run :: "string \<Rightarrow> runConfig" where
  "default_run tempDir = \<lparr>rc_dir = path_Join [tempDir, ''kv_store_demo_distributed_example''], rc_requests = 200,
     rc_timeout = 30 * 10 ^ 9, rc_concurrency = 1, rc_valueSize = 0, rc_readRatio = -1, rc_duration = 0, rc_warmup = 0,
     rc_reportPath = []\<rparr>"

definition check_run :: "runConfig \<Rightarrow> (unit, 's) command" where
  "check_run config =
     (if rc_requests config \<le> 0 \<and> rc_duration config \<le> 0 then log_Fatal ''requests must be positive when duration is not set''
      else if rc_concurrency config \<le> 0 then log_Fatal ''concurrency must be positive''
      else if rc_valueSize config < 0 then log_Fatal ''value-size must be non-negative''
      else if rc_readRatio config < -1 \<or> rc_readRatio config > 100
      then log_Fatal ''read-ratio must be between 0 and 100, or -1 for legacy write-then-read mode''
      else cmd_return ())"

section \<open>Files\<close>

text \<open>\<open>os.WriteFile\<close>.\<close>

definition os_write_file :: "path \<Rightarrow> bytes \<Rightarrow> world \<Rightarrow> err option \<times> world" where
  "os_write_file p data w =
     (case os_open_file p True True w of
        (Inl err, w1) \<Rightarrow> (Some err, w1)
      | (Inr f, w1) \<Rightarrow>
          (case os_write f data w1 of
             (n, err, w2) \<Rightarrow>
               (case os_close f w2 of
                  (err1, w3) \<Rightarrow> (if err1 \<noteq> None \<and> err = None then err1 else err, w3))))"

text \<open>\<open>marshal\<close> is \<open>json.MarshalIndent\<close>.\<close>

definition writeClusterConfig :: "(Config \<Rightarrow> err + bytes) \<Rightarrow> string \<Rightarrow> Config \<Rightarrow> world \<Rightarrow> err option \<times> world" where
  "writeClusterConfig marshal p config w =
     (case marshal config of
        Inl err \<Rightarrow> (Some err, w)
      | Inr data \<Rightarrow> os_write_file (path_of p) (data @ [10]) w)"

text \<open>
  The report.  Of the durations it shows seconds, of the counters and the latencies rates and
  percentiles, as floats; \<open>marshal\<close> of a report includes these conversions.
\<close>

record workloadReport =
  wr_Nodes :: nat
  wr_Groups :: nat
  wr_Shards :: int
  wr_Requests :: int
  wr_Concurrency :: int
  wr_ValueSize :: int
  wr_ReadRatio :: int
  wr_Duration :: int
  wr_Warmup :: int
  wr_Result :: statsSnapshot
  wr_Consistency :: consistencyReport

definition buildReport :: "Config \<Rightarrow> runConfig \<Rightarrow> statsSnapshot \<Rightarrow> workloadReport" where
  "buildReport clusterConfig config stats = \<lparr>
     wr_Nodes = length (cc_Nodes clusterConfig), wr_Groups = length (cc_Groups clusterConfig),
     wr_Shards = sh_ShardCount (cc_ShardConfig clusterConfig),
     wr_Requests = rc_requests config, wr_Concurrency = rc_concurrency config, wr_ValueSize = rc_valueSize config,
     wr_ReadRatio = rc_readRatio config, wr_Duration = rc_duration config, wr_Warmup = rc_warmup config,
     wr_Result = stats, wr_Consistency = new_report 0\<rparr>"

definition writeReport :: "(workloadReport \<Rightarrow> err + bytes) \<Rightarrow> string \<Rightarrow> workloadReport \<Rightarrow> world \<Rightarrow> err option \<times> world" where
  "writeReport marshal p report w =
     (case os_mkdir_all (butlast (path_of p)) w of
        (Some err, w1) \<Rightarrow> (Some err, w1)
      | (None, w1) \<Rightarrow>
          (case marshal report of
             Inl err \<Rightarrow> (Some err, w1)
           | Inr data \<Rightarrow> os_write_file (path_of p) (data @ [10]) w1))"

section \<open>Processes\<close>

text \<open>A started node, whose command has a process.\<close>

record startedNode =
  sn_id :: string
  sn_pid :: nat

text \<open>
  The machine with its disk, the processes of nodes that run and those that have been interrupted, and
  the rest of the outside \<open>'o\<close>: the network and the memory of the nodes.
\<close>

record 'o launch =
  la_machine :: "unit machine"
  la_running :: "nat list"
  la_signalled :: "nat list"
  la_out :: 'o

text \<open>
  What the outside does: building the binary, starting a process, after how many milliseconds a process
  exits when it is interrupted (\<open>None\<close>: never), and what the disk has after it is gone, by itself or, with
  \<open>True\<close>, because it was killed.
\<close>

record 'o node_system =
  ns_Build :: "string \<Rightarrow> 'o \<Rightarrow> err option \<times> 'o"
  ns_Start :: "string \<Rightarrow> string list \<Rightarrow> 'o \<Rightarrow> (err + nat) \<times> 'o"
  ns_Exit :: "'o \<Rightarrow> nat \<Rightarrow> nat option"
  ns_Disk :: "'o \<Rightarrow> nat \<Rightarrow> bool \<Rightarrow> unit machine \<Rightarrow> unit machine"

definition buildNodeBinary :: "'o node_system \<Rightarrow> string \<Rightarrow> 'o launch \<Rightarrow> (err + string) \<times> 'o launch" where
  "buildNodeBinary sys rootDir s =
     (let binaryPath = path_Join [rootDir, ''kv-node'']
      in case ns_Build sys binaryPath (la_out s) of
           (Some err, out) \<Rightarrow> (Inl (Wrapped ''build kv-node binary'' err), s\<lparr>la_out := out\<rparr>)
         | (None, out) \<Rightarrow> (Inr binaryPath, s\<lparr>la_out := out\<rparr>))"

definition node_args :: "string \<Rightarrow> string \<Rightarrow> Node \<Rightarrow> bool \<Rightarrow> string list" where
  "node_args rootDir clusterPath node first =
     [''--mode'', ''raft'', ''--node-id'', nd_ID node, ''--cluster'', clusterPath, ''--dir'', path_Join [rootDir, nd_ID node]]
     @ (if first then [''--bootstrap''] else [])"

fun start_nodes ::
  "'o node_system \<Rightarrow> string \<Rightarrow> string \<Rightarrow> string \<Rightarrow> (nat \<times> Node) list \<Rightarrow> startedNode list \<Rightarrow> 'o launch
    \<Rightarrow> (startedNode list \<times> err option) \<times> 'o launch" where
  "start_nodes sys binaryPath rootDir clusterPath [] nodes s = ((nodes, None), s)"
| "start_nodes sys binaryPath rootDir clusterPath ((i, node) # rest) nodes s =
     (case ns_Start sys binaryPath (node_args rootDir clusterPath node (i = 0)) (la_out s) of
        (Inl err, out) \<Rightarrow> ((nodes, Some (Wrapped (''start '' @ nd_ID node) err)), s\<lparr>la_out := out\<rparr>)
      | (Inr pid, out) \<Rightarrow>
          start_nodes sys binaryPath rootDir clusterPath rest (nodes @ [\<lparr>sn_id = nd_ID node, sn_pid = pid\<rparr>])
            (s\<lparr>la_out := out, la_running := la_running s @ [pid]\<rparr>))"

definition startCluster ::
  "'o node_system \<Rightarrow> string \<Rightarrow> string \<Rightarrow> Config \<Rightarrow> 'o launch \<Rightarrow> (startedNode list \<times> err option) \<times> 'o launch" where
  "startCluster sys rootDir clusterPath config s =
     (case buildNodeBinary sys rootDir s of
        (Inl err, s1) \<Rightarrow> (([], Some err), s1)
      | (Inr binaryPath, s1) \<Rightarrow>
          start_nodes sys binaryPath rootDir clusterPath (enumerate 0 (cc_Nodes config)) [] s1)"

text \<open>
  \<open>stopNodes\<close>: first all nodes are interrupted, from the last one to the first.  A process that has not
  been interrupted does not exit.
\<close>

definition interrupt_nodes :: "startedNode list \<Rightarrow> 'o launch \<Rightarrow> 'o launch" where
  "interrupt_nodes nodes s = fold (\<lambda>node s. s\<lparr>la_signalled := la_signalled s @ [sn_pid node]\<rparr>) (rev nodes) s"

definition exit_time :: "'o node_system \<Rightarrow> 'o launch \<Rightarrow> nat \<Rightarrow> nat option" where
  "exit_time sys s pid = (if pid \<in> set (la_signalled s) then ns_Exit sys (la_out s) pid else None)"

text \<open>A wait for a process has returned.\<close>

definition node_gone :: "'o node_system \<Rightarrow> bool \<Rightarrow> startedNode \<Rightarrow> 'o launch \<Rightarrow> 'o launch" where
  "node_gone sys killed node s =
     s\<lparr>la_machine := ns_Disk sys (la_out s) (sn_pid node) killed (la_machine s),
       la_running := removeAll (sn_pid node) (la_running s)\<rparr>"

text \<open>
  The waits, in the order of the nodes.  The timer's channel delivers one value after five seconds: the
  first node that is late is killed, for a later one the loop waits as long as it takes (\<open>fired\<close>).
  \<open>None\<close>: the loop waits for ever.
\<close>

fun wait_nodes :: "'o node_system \<Rightarrow> bool \<Rightarrow> startedNode list \<Rightarrow> 'o launch \<Rightarrow> 'o launch option" where
  "wait_nodes sys fired [] s = Some s"
| "wait_nodes sys fired (node # nodes) s =
     (case exit_time sys s (sn_pid node) of
        Some t \<Rightarrow>
          if fired \<or> t \<le> 5000 then wait_nodes sys fired nodes (node_gone sys False node s)
          else wait_nodes sys True nodes (node_gone sys True node s)
      | None \<Rightarrow>
          if fired then None
          else wait_nodes sys True nodes (node_gone sys True node s))"

definition stopNodes :: "'o node_system \<Rightarrow> startedNode list \<Rightarrow> 'o launch \<Rightarrow> 'o launch option" where
  "stopNodes sys nodes s = wait_nodes sys False nodes (interrupt_nodes nodes s)"

section \<open>Starting and stopping\<close>

lemma start_nodes_running:
  assumes "start_nodes sys binaryPath rootDir clusterPath ns nodes s = ((nodes', r), s')"
  shows "\<exists>more. nodes' = nodes @ more \<and> la_running s' = la_running s @ map sn_pid more \<and> la_machine s' = la_machine s
    \<and> map sn_id more = map nd_ID (map snd (take (length more) ns)) \<and> (r = None \<longleftrightarrow> length more = length ns)"
  using assms
proof (induction ns arbitrary: nodes s)
  case (Cons x ns)
  obtain i node where x: "x = (i, node)" by fastforce
  show ?case
  proof (cases "ns_Start sys binaryPath (node_args rootDir clusterPath node (i = 0)) (la_out s)")
    case (Pair r1 out)
    show ?thesis
    proof (cases r1)
      case (Inl err)
      then show ?thesis using Cons.prems Pair by (auto simp: x)
    next
      case (Inr pid)
      let ?n = "\<lparr>sn_id = nd_ID node, sn_pid = pid\<rparr>"
      from Cons.IH [of "nodes @ [?n]" "s\<lparr>la_out := out, la_running := la_running s @ [pid]\<rparr>"]
      obtain more where "nodes' = (nodes @ [?n]) @ more" "la_running s' = (la_running s @ [pid]) @ map sn_pid more"
        "la_machine s' = la_machine s" "map sn_id more = map nd_ID (map snd (take (length more) ns))" "r = None \<longleftrightarrow> length more = length ns"
        using Cons.prems Pair Inr by (auto simp: x)
      then show ?thesis by (intro exI [of _ "?n # more"]) (simp add: x)
    qed
  qed
qed simp

lemma startCluster_running:
  assumes "startCluster sys rootDir clusterPath config s = ((nodes, r), s')"
  shows "la_running s' = la_running s @ map sn_pid nodes \<and> la_machine s' = la_machine s
    \<and> (r = None \<longrightarrow> map sn_id nodes = map nd_ID (cc_Nodes config))"
proof (cases "buildNodeBinary sys rootDir s")
  case (Pair r1 s1)
  have s1: "la_running s1 = la_running s \<and> la_machine s1 = la_machine s"
    using Pair by (auto simp: buildNodeBinary_def Let_def split: prod.splits option.splits)
  show ?thesis
  proof (cases r1)
    case (Inl err)
    then show ?thesis using assms Pair s1 by (auto simp: startCluster_def)
  next
    case (Inr binaryPath)
    then have run: "start_nodes sys binaryPath rootDir clusterPath (enumerate 0 (cc_Nodes config)) [] s1 = ((nodes, r), s')"
      using assms Pair by (simp add: startCluster_def)
    obtain more where more: "nodes = [] @ more" "la_running s' = la_running s1 @ map sn_pid more" "la_machine s' = la_machine s1"
      "map sn_id more = map nd_ID (map snd (take (length more) (enumerate 0 (cc_Nodes config))))"
      "r = None \<longleftrightarrow> length more = length (enumerate 0 (cc_Nodes config))"
      using start_nodes_running [OF run] by blast
    have "map sn_id nodes = map nd_ID (cc_Nodes config)" if "r = None"
    proof -
      have "take (length more) (enumerate 0 (cc_Nodes config)) = enumerate 0 (cc_Nodes config)" using more(5) that by simp
      then show ?thesis using more(1,4) by (simp only: map_snd_enumerate append_Nil)
    qed
    then show ?thesis using more(1-3) s1 by simp
  qed
qed

lemma interrupt_nodes_eq:
  "interrupt_nodes nodes s = s\<lparr>la_signalled := la_signalled s @ map sn_pid (rev nodes)\<rparr>"
proof -
  have "fold (\<lambda>node s. s\<lparr>la_signalled := la_signalled s @ [sn_pid node]\<rparr>) xs s
      = s\<lparr>la_signalled := la_signalled s @ map sn_pid xs\<rparr>" for xs and s :: "'a launch"
    by (induction xs arbitrary: s) simp_all
  then show ?thesis by (simp add: interrupt_nodes_def)
qed

lemma node_gone_fields [simp]:
  "la_signalled (node_gone sys killed node s) = la_signalled s" "la_out (node_gone sys killed node s) = la_out s"
  "la_running (node_gone sys killed node s) = removeAll (sn_pid node) (la_running s)"
  "la_machine (node_gone sys killed node s) = ns_Disk sys (la_out s) (sn_pid node) killed (la_machine s)"
  "exit_time sys (node_gone sys killed node s) = exit_time sys s"
  by (simp_all add: node_gone_def exit_time_def fun_eq_iff)

text \<open>The waits that return have removed the processes of all nodes.\<close>

lemma wait_nodes_running:
  "wait_nodes sys fired nodes s = Some s' \<Longrightarrow> set (la_running s') = set (la_running s) - sn_pid ` set nodes"
proof (induction nodes arbitrary: fired s)
  case (Cons node nodes)
  from Cons.prems obtain killed fired' where "wait_nodes sys fired' nodes (node_gone sys killed node s) = Some s'"
    by (auto split: option.splits if_splits)
  from Cons.IH [OF this] show ?case by auto
qed simp

lemma stopNodes_running:
  assumes "stopNodes sys nodes s = Some s'" and "set (la_running s) \<subseteq> sn_pid ` set nodes"
  shows "la_running s' = []"
  using wait_nodes_running [OF assms(1) [unfolded stopNodes_def]] assms(2)
  by (simp add: interrupt_nodes_eq) (metis Diff_eq_empty_iff set_empty)

lemma stopNodes_none: "stopNodes sys [] s = Some s"
  by (simp add: stopNodes_def interrupt_nodes_eq)

text \<open>If all nodes are in time, none is killed.\<close>

definition stops_in_time :: "'o node_system \<Rightarrow> bool" where
  "stops_in_time sys \<longleftrightarrow> (\<forall>out pid. \<exists>t \<le> 5000. ns_Exit sys out pid = Some t)"

definition disk_after :: "'o node_system \<Rightarrow> startedNode list \<Rightarrow> 'o \<Rightarrow> unit machine \<Rightarrow> unit machine" where
  "disk_after sys nodes out mc = fold (\<lambda>node. ns_Disk sys out (sn_pid node) False) nodes mc"

lemma wait_nodes_in_time:
  assumes "stops_in_time sys" and "sn_pid ` set nodes \<subseteq> set (la_signalled s)"
  shows "\<exists>s'. wait_nodes sys False nodes s = Some s' \<and> la_machine s' = disk_after sys nodes (la_out s) (la_machine s)"
  using assms(2)
proof (induction nodes arbitrary: s)
  case (Cons node nodes)
  obtain t where t: "t \<le> 5000" "ns_Exit sys (la_out s) (sn_pid node) = Some t"
    using assms(1) unfolding stops_in_time_def by blast
  have "exit_time sys s (sn_pid node) = Some t" using t(2) Cons.prems by (simp add: exit_time_def)
  then show ?case using Cons.IH [of "node_gone sys False node s"] Cons.prems t(1) by (simp add: disk_after_def)
qed (simp add: disk_after_def)

lemma stopNodes_in_time:
  "stops_in_time sys \<Longrightarrow>
     \<exists>s'. stopNodes sys nodes s = Some s' \<and> la_machine s' = disk_after sys nodes (la_out s) (la_machine s)"
  using wait_nodes_in_time [of sys nodes "interrupt_nodes nodes s"] by (simp add: stopNodes_def interrupt_nodes_eq)

text \<open>The report changes no other file.\<close>

lemma writeReport_calm:
  assumes "calm w" and "writeReport marshal p report w = (r, w')"
  shows "calm w' \<and> (\<forall>q. q \<noteq> path_of p \<longrightarrow> file_at w' q = file_at w q)"
proof (cases "marshal report")
  case (Inl err)
  then show ?thesis using assms by (simp add: writeReport_def os_simps)
next
  case (Inr data)
  then show ?thesis using assms by (auto simp: writeReport_def os_write_file_def os_simps append_file_def)
qed

text \<open>
  Whether \<open>stopNodes\<close> returns: it waits for ever exactly if a node misses the deadline and a later one
  never exits by itself.
\<close>

definition late :: "(nat \<Rightarrow> nat option) \<Rightarrow> startedNode \<Rightarrow> bool" where
  "late exits node \<longleftrightarrow> (case exits (sn_pid node) of None \<Rightarrow> True | Some t \<Rightarrow> 5000 < t)"

lemma wait_nodes_fired:
  "wait_nodes sys True nodes s = None \<longleftrightarrow> (\<exists>node \<in> set nodes. exit_time sys s (sn_pid node) = None)"
  by (induction nodes arbitrary: s) (auto split: option.splits)

lemma wait_nodes_blocks:
  "wait_nodes sys False nodes s = None \<longleftrightarrow>
     (\<exists>before node rest. nodes = before @ node # rest \<and> late (exit_time sys s) node
        \<and> (\<exists>other \<in> set rest. exit_time sys s (sn_pid other) = None))"
proof (induction nodes arbitrary: s)
  case (Cons n nodes)
  show ?case
  proof (cases "late (exit_time sys s) n")
    case True
    then have "wait_nodes sys False (n # nodes) s = None \<longleftrightarrow> (\<exists>other \<in> set nodes. exit_time sys s (sn_pid other) = None)"
      by (auto simp: late_def wait_nodes_fired split: option.splits)
    then show ?thesis using True by (auto simp: Cons_eq_append_conv)
  next
    case False
    then have "wait_nodes sys False (n # nodes) s = wait_nodes sys False nodes (node_gone sys False n s)"
      by (auto simp: late_def split: option.splits)
    then show ?thesis using Cons.IH [of "node_gone sys False n s"] False by (auto simp: Cons_eq_append_conv)
  qed
qed simp

lemma stopNodes_blocks:
  "stopNodes sys nodes s = None \<longleftrightarrow>
     (\<exists>before node rest. nodes = before @ node # rest \<and> late (ns_Exit sys (la_out s)) node
        \<and> (\<exists>other \<in> set rest. ns_Exit sys (la_out s) (sn_pid other) = None))"
proof -
  let ?s = "interrupt_nodes nodes s"
  have same: "exit_time sys ?s (sn_pid node) = ns_Exit sys (la_out s) (sn_pid node)" if "node \<in> set nodes" for node
    using that by (simp add: exit_time_def interrupt_nodes_eq)
  have "late (exit_time sys ?s) node \<longleftrightarrow> late (ns_Exit sys (la_out s)) node" if "node \<in> set nodes" for node
    using same [OF that] by (simp add: late_def)
  then show ?thesis unfolding stopNodes_def wait_nodes_blocks using same
    by (intro ex_cong1 conj_cong refl bex_cong) auto
qed

end
