(* ===== verification/KV_DistMain.thy ===== *)
theory KV_DistMain
  imports KV_Launch
begin

text \<open>
  \<open>main\<close> of the distributed example (\<open>example/distributed/main.go\<close>): preparation, start of the nodes,
  workload, flush, stop, check of the replicas, report.  The end of the process is a normal one, a fatal
  error, which skips the deferred calls, or a panic, which runs them.
\<close>

section \<open>The client\<close>

record ('c, 'o) network =
  nw_Dial :: "Context \<Rightarrow> string \<Rightarrow> 'o \<Rightarrow> (err + 'c) \<times> 'o"
  nw_Close :: "'c \<Rightarrow> 'o \<Rightarrow> err option \<times> 'o"
  nw_Stub :: "('c, 'o) KVServiceClient"
  nw_Now :: "'o \<Rightarrow> int"

definition client_api :: "('c, 'o) network \<Rightarrow> ('c RoutedClient option \<times> 'o) routed" where
  "client_api net = \<lparr>
     rt_Put = (\<lambda>ctx k v (rc, e). RoutedPut (nw_Dial net) (nw_Close net) (nw_Stub net) ctx k v rc e),
     rt_Get = (\<lambda>ctx k (rc, e). RoutedGet (nw_Dial net) (nw_Close net) (nw_Stub net) ctx k rc e),
     rt_Now = (\<lambda>(rc, e). nw_Now net e)\<rparr>"

text \<open>The client of the processes of a cluster is one of these.\<close>

lemma routed_client_api:
  "routed_client ops up (\<lambda>(rc, e). now e)
     = client_api \<lparr>nw_Dial = dial_up up, nw_Close = close_up, nw_Stub = server_stub ops, nw_Now = now\<rparr>"
  by (simp add: routed_client_def client_api_def)

definition flush_all :: "('c, 'o) network \<Rightarrow> Context \<Rightarrow> 'c RoutedClient \<times> 'o \<Rightarrow> (err + unit) \<times> 'c RoutedClient \<times> 'o" where
  "flush_all net ctx = (\<lambda>(c, e).
     case RoutedFlush (nw_Dial net) (nw_Close net) (nw_Stub net) ctx c e of
       (Some err, c1, e1) \<Rightarrow> (Inl err, c1, e1)
     | (None, c1, e1) \<Rightarrow> (Inr (), c1, e1))"

definition close_client :: "('c, 'o) network \<Rightarrow> 'c RoutedClient option \<Rightarrow> 'o launch \<Rightarrow> 'o launch" where
  "close_client net rc s = (case RoutedClose (nw_Close net) rc (la_out s) of (ign, rc1, e) \<Rightarrow> s\<lparr>la_out := e\<rparr>)"

section \<open>The run\<close>

text \<open>The workload in the mode of the configuration; \<open>None\<close> is a panic.\<close>

inductive workload_run ::
  "'e routed \<Rightarrow> Context \<Rightarrow> Router option \<Rightarrow> runConfig \<Rightarrow> 'e work \<Rightarrow> (string + sample list \<times> statsSnapshot) option \<Rightarrow> 'e \<Rightarrow> bool"
  for api ctx router config s where
  legacy: "rc_readRatio config < 0 \<Longrightarrow> runLegacyWorkload api ctx router config s = Some (r, s1)
    \<Longrightarrow> workload_run api ctx router config s (Some r) (wk_env s1)"
| legacy_panics: "rc_readRatio config < 0 \<Longrightarrow> runLegacyWorkload api ctx router config s = None
    \<Longrightarrow> workload_run api ctx router config s None (wk_env s)"
| measured: "\<not> rc_readRatio config < 0 \<Longrightarrow> runMeasuredWorkload api ctx router config s r e
    \<Longrightarrow> workload_run api ctx router config s (Some r) e"

datatype dist_exit = Finished workloadReport | FatalExit string | Panicked

text \<open>What follows the workload; \<open>None\<close>: the process waits for ever for a node.\<close>

definition finish_run ::
  "('c, 'o) network \<Rightarrow> 'o node_system \<Rightarrow> (workloadReport \<Rightarrow> err + bytes) \<Rightarrow> Context \<Rightarrow> runConfig \<Rightarrow> Config \<Rightarrow> startedNode list
    \<Rightarrow> sample list \<Rightarrow> workloadReport \<Rightarrow> 'c RoutedClient \<times> 'o \<Rightarrow> 'o launch \<Rightarrow> (dist_exit \<times> 'o launch) option" where
  "finish_run net sys marshal ctx config c nodes samples report env s =
     (case retry ctx (flush_all net ctx) env of
        (Inl err, rc1, e1) \<Rightarrow> Some (FatalExit (''flush groups: '' @ error_string err), s\<lparr>la_out := e1\<rparr>)
      | (Inr u, rc1, e1) \<Rightarrow>
          (case stopNodes sys nodes (s\<lparr>la_out := e1\<rparr>) of
             None \<Rightarrow> None
           | Some s1 \<Rightarrow>
               (case verifyLocalReplicas c (rc_dir config) samples (la_machine s1) of
                  None \<Rightarrow> Some (Panicked, close_client net (Some rc1) s1)
                | Some ((consistency, Some err), mc) \<Rightarrow>
                    Some (FatalExit (''verify local replicas: '' @ error_string err), s1\<lparr>la_machine := mc\<rparr>)
                | Some ((consistency, None), mc) \<Rightarrow>
                    (let report1 = report\<lparr>wr_Consistency := consistency\<rparr>
                     in case (if rc_reportPath config \<noteq> [] then writeReport marshal (rc_reportPath config) report1 (mc_world mc)
                              else (None, mc_world mc)) of
                          (Some err, w) \<Rightarrow>
                            Some (FatalExit (''write report: '' @ error_string err), s1\<lparr>la_machine := mc\<lparr>mc_world := w\<rparr>\<rparr>)
                        | (None, w) \<Rightarrow>
                            Some (Finished report1, close_client net (Some rc1) (s1\<lparr>la_machine := mc\<lparr>mc_world := w\<rparr>\<rparr>))))))"

text \<open>From \<open>startCluster\<close> to the end of \<open>main\<close>, deferred calls included.\<close>

inductive dist_run ::
  "('c, 'o) network \<Rightarrow> 'o node_system \<Rightarrow> (workloadReport \<Rightarrow> err + bytes) \<Rightarrow> Context \<Rightarrow> runConfig \<Rightarrow> Config \<Rightarrow> 'o launch
    \<Rightarrow> dist_exit \<Rightarrow> 'o launch \<Rightarrow> bool"
  for net sys marshal ctx config c s where
  not_started: "startCluster sys (rc_dir config) (path_Join [rc_dir config, ''cluster.json'']) c s = ((nodes, Some err), s1)
    \<Longrightarrow> stopNodes sys nodes s1 = Some s2
    \<Longrightarrow> dist_run net sys marshal ctx config c s (FatalExit (''start cluster: '' @ error_string err)) s2"
| no_client: "startCluster sys (rc_dir config) (path_Join [rc_dir config, ''cluster.json'']) c s = ((nodes, None), s1)
    \<Longrightarrow> newRoutedClient ctx c True = (Inl err :: err + 'c RoutedClient)
    \<Longrightarrow> dist_run net sys marshal ctx config c s (FatalExit (''create routed client: '' @ error_string err)) s1"
| no_router: "startCluster sys (rc_dir config) (path_Join [rc_dir config, ''cluster.json'']) c s = ((nodes, None), s1)
    \<Longrightarrow> newRoutedClient ctx c True = Inr (rc :: 'c RoutedClient) \<Longrightarrow> ConfigNewRouter c = Inl err
    \<Longrightarrow> dist_run net sys marshal ctx config c s (FatalExit (''create router: '' @ error_string err)) s1"
| workload_fatal: "startCluster sys (rc_dir config) (path_Join [rc_dir config, ''cluster.json'']) c s = ((nodes, None), s1)
    \<Longrightarrow> newRoutedClient ctx c True = Inr (rc :: 'c RoutedClient) \<Longrightarrow> ConfigNewRouter c = Inr router
    \<Longrightarrow> workload_run (client_api net) ctx (Some router) config \<lparr>wk_env = (Some rc, la_out s1), wk_stats = newOpStats\<rparr>
         (Some (Inl msg)) (rc1, out)
    \<Longrightarrow> dist_run net sys marshal ctx config c s (FatalExit msg) (s1\<lparr>la_out := out\<rparr>)"
| workload_panics: "startCluster sys (rc_dir config) (path_Join [rc_dir config, ''cluster.json'']) c s = ((nodes, None), s1)
    \<Longrightarrow> newRoutedClient ctx c True = Inr (rc :: 'c RoutedClient) \<Longrightarrow> ConfigNewRouter c = Inr router
    \<Longrightarrow> workload_run (client_api net) ctx (Some router) config \<lparr>wk_env = (Some rc, la_out s1), wk_stats = newOpStats\<rparr>
         None (rc1, out)
    \<Longrightarrow> stopNodes sys nodes (close_client net rc1 (s1\<lparr>la_out := out\<rparr>)) = Some s2
    \<Longrightarrow> dist_run net sys marshal ctx config c s Panicked s2"
| worked: "startCluster sys (rc_dir config) (path_Join [rc_dir config, ''cluster.json'']) c s = ((nodes, None), s1)
    \<Longrightarrow> newRoutedClient ctx c True = Inr (rc :: 'c RoutedClient) \<Longrightarrow> ConfigNewRouter c = Inr router
    \<Longrightarrow> workload_run (client_api net) ctx (Some router) config \<lparr>wk_env = (Some rc, la_out s1), wk_stats = newOpStats\<rparr>
         (Some (Inr (samples, snap))) (Some rc1, out)
    \<Longrightarrow> finish_run net sys marshal ctx config c nodes samples (buildReport c config snap) (rc1, out) (s1\<lparr>la_out := out\<rparr>)
         = Some (exit, s2)
    \<Longrightarrow> dist_run net sys marshal ctx config c s exit s2"

section \<open>The program\<close>

definition on_disk :: "(world \<Rightarrow> 'a \<times> world) \<Rightarrow> ('a, 'o launch) command" where
  "on_disk f s =
     (case f (mc_world (la_machine s)) of
        (r, w) \<Rightarrow> cmd_return r (s\<lparr>la_machine := (la_machine s)\<lparr>mc_world := w\<rparr>\<rparr>))"

definition listen_out :: "('o \<Rightarrow> (err + string) \<times> 'o) \<Rightarrow> 'o launch \<Rightarrow> (err + string) \<times> 'o launch" where
  "listen_out listen s = (case listen (la_out s) of (r, out) \<Rightarrow> (r, s\<lparr>la_out := out\<rparr>))"

definition prepare_run ::
  "('o \<Rightarrow> (err + string) \<times> 'o) \<Rightarrow> (Config \<Rightarrow> err + bytes) \<Rightarrow> runConfig \<Rightarrow> (Config, 'o launch) command" where
  "prepare_run listen marshal config =
     cmd_bind (check_run config) (\<lambda>u.
     cmd_bind (must ''clean example dir'' (on_disk (os_remove_all (path_of (rc_dir config))))) (\<lambda>u.
     cmd_bind (must ''create example dir'' (on_disk (os_mkdir_all (path_of (rc_dir config))))) (\<lambda>u.
     cmd_bind (newExampleClusterConfig (listen_out listen)) (\<lambda>(c, err).
       case err of
         Some err \<Rightarrow> log_Fatal (''create cluster config: '' @ error_string err)
       | None \<Rightarrow>
           cmd_bind (must ''write cluster config''
             (on_disk (writeClusterConfig marshal (path_Join [rc_dir config, ''cluster.json'']) c))) (\<lambda>u. cmd_return c)))))"

inductive dist_main ::
  "('c, 'o) network \<Rightarrow> 'o node_system \<Rightarrow> ('o \<Rightarrow> (err + string) \<times> 'o) \<Rightarrow> (Config \<Rightarrow> err + bytes) \<Rightarrow> (workloadReport \<Rightarrow> err + bytes)
    \<Rightarrow> Context \<Rightarrow> runConfig \<Rightarrow> 'o launch \<Rightarrow> dist_exit \<Rightarrow> 'o launch \<Rightarrow> bool"
  for net sys listen marshal marshalReport ctx config s where
  unprepared: "prepare_run listen marshal config s = Some (Inl msg, s1)
    \<Longrightarrow> dist_main net sys listen marshal marshalReport ctx config s (FatalExit msg) s1"
| prepared: "prepare_run listen marshal config s = Some (Inr c, s1) \<Longrightarrow> dist_run net sys marshalReport ctx config c s1 exit s2
    \<Longrightarrow> dist_main net sys listen marshal marshalReport ctx config s exit s2"

section \<open>The samples of a run\<close>

lemma cmd_bind_Inr:
  assumes "cmd_bind m k s = Some (Inr b, s2)"
  obtains a s1 where "m s = Some (Inr a, s1)" "k a s1 = Some (Inr b, s2)"
  using assms by (auto simp: cmd_bind_def split: option.splits sum.splits)

definition from_build :: "Router option \<Rightarrow> int \<Rightarrow> sample \<Rightarrow> bool" where
  "from_build router n smp \<longleftrightarrow> (\<exists>p i gs. buildSample p i n router gs = Inr smp)"

lemma from_buildI: "buildSample p i n router gs = Inr smp \<Longrightarrow> from_build router n smp"
  unfolding from_build_def by blast

lemma buildSamples_from_build:
  assumes "buildSamples p amount n router s = Some (Inr samples, s')"
  shows "s' = s \<and> (\<forall>smp \<in> set samples. \<exists>i gs. buildSample p i n router gs = Inr smp)"
proof -
  obtain groups where s: "s' = s" and up: "samples_upto p n router groups [0..<nat amount] = Inr samples"
    using assms by (auto simp: buildSamples_def cmd_bind_def cmd_lift_def log_Fatal_def cmd_return_def split: sum.splits if_splits)
  have "\<exists>i gs. buildSample p i n router gs = Inr (samples ! j)" if "j < length samples" for j
    using samples_upto_nth [OF up] that by metis
  then show ?thesis using s by (metis in_set_conv_nth)
qed

lemma from_build_routed:
  assumes "from_build router n smp"
  shows "sa_key smp \<noteq> [] \<and> sa_value smp \<noteq> []
    \<and> (\<exists>route i. RouteKey router (sa_key smp) = Inr route \<and> sa_groupID smp = sr_GroupID route \<and> sa_value smp = buildValue i n)"
proof -
  obtain p i gs where "buildSample p i n router gs = Inr smp" using assms unfolding from_build_def by blast
  then obtain attempt route where key: "sa_key smp = string_bytes (sample_key p (sample_target gs i) i attempt)"
    and route: "RouteKey router (sa_key smp) = Inr route" "sa_groupID smp = sr_GroupID route" and v: "sa_value smp = buildValue i n"
    by (rule buildSample_Inr) blast
  have "sa_key smp \<noteq> []" by (simp add: key sample_key_def)
  moreover have "sa_value smp \<noteq> []" unfolding v by (rule buildValue_nonempty)
  ultimately show ?thesis using route v by blast
qed

lemma from_build_checkable:
  assumes "cluster_ok c" and "ConfigNewRouter c = Inr router" and "\<forall>smp \<in> set samples. from_build (Some router) n smp"
  shows "checkable samples \<and> sa_groupID ` set samples \<subseteq> gp_ID ` set (cc_Groups c)"
proof -
  have "sa_groupID smp \<in> gp_ID ` set (cc_Groups c)" if smp: "smp \<in> set samples" for smp
  proof -
    obtain route where route: "RouteKey (Some router) (sa_key smp) = Inr route" "sa_groupID smp = sr_GroupID route" "sa_key smp \<noteq> []"
      using from_build_routed assms(3) smp by blast
    obtain route' grp where "RouteKey (Some router) (sa_key smp) = Inr route'" "grp \<in> set (cc_Groups c)" "gp_ID grp = sr_GroupID route'"
      using cluster_ok_serves [OF assms(1,2) route(3)] by blast
    then show ?thesis using route by (metis Inr_inject imageI)
  qed
  then show ?thesis using from_build_routed assms(3) unfolding checkable_def by blast
qed

subsection \<open>What the workers count\<close>

text \<open>
  Whatever the client does, after \<open>n\<close> steps the statistics count at most \<open>n\<close> operations, and of a run
  that is not a warmup as many successful writes as there are samples written.
\<close>

definition tallied :: "workload_args \<Rightarrow> nat \<Rightarrow> worker multiset \<Rightarrow> 'e workload \<Rightarrow> bool" where
  "tallied A n W s \<longleftrightarrow>
     (\<exists>evs. counted evs (wk_stats s) \<and> size evs \<le> n
        \<and> (\<not> wa_warmup A \<longrightarrow> size (filter_mset (\<lambda>ev. is_write ev \<and> \<not> ev_failed ev) evs)
             = length (wl_expected s) + sum_mset (image_mset adding W)))"

lemma tallied_event:
  assumes "tallied A n W s" and "wk_stats s' = stats_event ev (wk_stats s)"
    and "\<not> wa_warmup A \<Longrightarrow> length (wl_expected s') + sum_mset (image_mset adding W')
      = length (wl_expected s) + sum_mset (image_mset adding W) + of_bool (is_write ev \<and> \<not> ev_failed ev)"
  shows "tallied A (Suc n) W' s'"
proof -
  obtain evs where evs: "counted evs (wk_stats s)" "size evs \<le> n" "\<not> wa_warmup A \<longrightarrow>
      size (filter_mset (\<lambda>ev. is_write ev \<and> \<not> ev_failed ev) evs) = length (wl_expected s) + sum_mset (image_mset adding W)"
    using assms(1) unfolding tallied_def by blast
  have "counted (add_mset ev evs) (wk_stats s')" using counted_event [OF evs(1)] assms(2) by simp
  moreover have "size (add_mset ev evs) \<le> Suc n" using evs(2) by simp
  ultimately show ?thesis using evs(3) assms(3) unfolding tallied_def by (intro exI [of _ "add_mset ev evs"]) auto
qed

lemma tallied_same:
  assumes "tallied A n W s" and "wk_stats s' = wk_stats s"
    and "\<not> wa_warmup A \<Longrightarrow> length (wl_expected s') + sum_mset (image_mset adding W')
      = length (wl_expected s) + sum_mset (image_mset adding W)"
  shows "tallied A (Suc n) W' s'"
  using assms unfolding tallied_def by (metis le_SucI)

lemma runReadOp_event:
  obtains l a r where "wk_stats (runReadOp api ctx smp s) = stats_event (ReadEvent (sa_groupID smp) l a r) (wk_stats s)"
  by (cases "retryMeasured ctx (rt_Get api ctx (sa_key smp)) (wk_env s)") (auto simp: runReadOp_def Let_def split: prod.splits)

lemma runWriteOp_event:
  assumes "runWriteOp api ctx smp s = (err, s')"
  obtains b l a where "wk_stats s' = stats_event (WriteEvent (sa_groupID smp) b l a err) (wk_stats s)"
  using assms by (auto simp: runWriteOp_def Let_def split: prod.splits)

lemma tallied_step:
  assumes step: "worker_step api A p s p' s'" and t: "tallied A n (add_mset p W) s"
  shows "tallied A (Suc n) (add_mset p' W) s'"
  using step
proof cases
  case (cancelled time err)
  then show ?thesis by (intro tallied_event [OF t, where ev = ErrorEvent]) simp_all
next
  case (did_read smp)
  obtain l a r where "wk_stats s' = stats_event (ReadEvent (sa_groupID smp) l a r) (wk_stats s)"
    using did_read(3) runReadOp_event by metis
  from tallied_event [OF t this] show ?thesis using did_read by simp
next
  case (wrote smp err)
  obtain b l a where "wk_stats s' = stats_event (WriteEvent (sa_groupID smp) b l a err) (wk_stats s)"
    using runWriteOp_event [OF wrote(3)] by metis
  from tallied_event [OF t this] show ?thesis using wrote runWriteOp_fields [OF wrote(3)] by simp
qed (rule tallied_same [OF t], simp_all)+

lemma executes_kept:
  assumes "executes api A env s"
  shows "\<exists>n W. n < 2 ^ 63 \<and> numbered A W s \<and> tallied A n W s \<and> (wl_fatal s \<noteq> None \<or> (\<forall>p \<in># W. p = WkDone))"
proof -
  obtain k W where k: "k < 2 ^ 63" "(workload_step api A ^^ k) (workload_start A env) (W, s)"
    and ends: "wl_fatal s \<noteq> None \<or> (\<forall>p \<in># W. p = WkDone)"
    using assms by (auto simp: executes_def)
  from k have "numbered A W s \<and> tallied A k W s"
  proof (induction k arbitrary: W s)
    case 0
    have W: "W = replicate_mset (nat (rc_concurrency (wa_config A))) WkIndex" "wl_expected s = []" "wk_stats s = newOpStats"
      using 0 by (auto simp: workload_start_def)
    have pend: "sum_mset (image_mset pending (replicate_mset m WkIndex)) = {#}"
      and add: "sum_mset (image_mset adding (replicate_mset m WkIndex)) = 0" for m
      by (induction m) auto
    then have "written W s = {#}" unfolding written_def W by (simp only: mset.simps add_0)
    moreover have "tallied A 0 W s" using counted_new add unfolding tallied_def W by (intro exI [of _ "{#}"]) simp
    ultimately show ?case by (simp add: numbered_def)
  next
    case (Suc k)
    then obtain W1 s1 where run: "(workload_step api A ^^ k) (workload_start A env) (W1, s1)" and last: "workload_step api A (W1, s1) (W, s)"
      by auto
    have small: "unat (wl_writes s1) \<le> k" "k < 2 ^ 63" using counters_reached [OF run] Suc.prems(1) by auto
    have kept: "numbered A W1 s1" "tallied A k W1 s1" using Suc.IH [OF small(2) run] by simp_all
    from last obtain p p' M where "worker_step api A p s1 p' s" "W1 = add_mset p M" "W = add_mset p' M"
      by (auto elim: workload_step_cases)
    then show ?case using numbered_step [OF _ _ small] tallied_step kept by metis
  qed
  then show ?thesis using k(1) ends by blast
qed

text \<open>What a run of the workers without an error hands on.\<close>

lemma executes_samples:
  assumes "executes api A env s" and "wl_fatal s = None" and "os_errors (wk_stats s) = 0" and "\<not> wa_warmup A"
  shows "length (wl_expected s) = unat (os_writeOps (wk_stats s)) \<and> distinct (map sa_key (wl_expected s))
    \<and> (\<forall>smp \<in> set (wl_expected s). \<exists>i. write_sample A i = Inr smp)"
proof -
  obtain n W where n: "n < 2 ^ 63" and num: "numbered A W s" and t: "tallied A n W s" and "\<forall>p \<in># W. p = WkDone"
    using executes_kept [OF assms(1)] assms(2) by auto
  then have W: "W = replicate_mset (size W) WkDone" using set_mset_subset_singletonD [of W WkDone] by auto
  have pend: "sum_mset (image_mset pending (replicate_mset m WkDone)) = {#}"
    and add: "sum_mset (image_mset adding (replicate_mset m WkDone)) = 0" for m
    by (induction m) auto
  obtain evs where evs: "counted evs (wk_stats s)" "size evs \<le> n"
    and writes: "size (filter_mset (\<lambda>ev. is_write ev \<and> \<not> ev_failed ev) evs) = length (wl_expected s)"
    using t assms(4) add [of "size W"] W unfolding tallied_def by auto
  have small: "size (filter_mset P evs) < 2 ^ 63" for P by (rule le_less_trans [OF le_trans [OF size_filter_mset_lesseq evs(2)] n])
  have "of_nat (size (filter_mset ev_failed evs)) = (0 :: 64 word)" using evs(1) assms(3) by (simp add: counted_def)
  then have "unat (of_nat (size (filter_mset ev_failed evs)) :: 64 word) = 0" by simp
  then have "size (filter_mset ev_failed evs) = 0" using small [of ev_failed] by (simp add: unat_of_nat)
  then have "filter_mset (\<lambda>ev. is_write ev \<and> \<not> ev_failed ev) evs = filter_mset is_write evs"
    by (auto intro!: filter_mset_cong)
  then have "os_writeOps (wk_stats s) = of_nat (length (wl_expected s))" "length (wl_expected s) < 2 ^ 63"
    using evs(1) writes small [of is_write] by (simp_all add: counted_def)
  then have "length (wl_expected s) = unat (os_writeOps (wk_stats s))" by (simp add: unat_of_nat)
  moreover have w: "written W s = mset (wl_expected s)" using pend [of "size W"] W unfolding written_def by simp
  moreover have "count (mset (map sa_key (wl_expected s))) key \<le> 1" for key
    using num unfolding numbered_def w by simp
  ultimately show ?thesis using num distinct_if_counts [of "map sa_key (wl_expected s)"] unfolding numbered_def w by auto
qed

subsection \<open>Both modes\<close>

text \<open>The samples that are written before the measured run.\<close>

definition preloaded :: "runConfig \<Rightarrow> nat" where
  "preloaded config = (if rc_readRatio config > 0 then nat (preload_amount config) else 0)"

lemma measured_reads_samples:
  assumes "measured_reads api ctx router config s = Some (Inr reads, s1)"
  shows "length reads = preloaded config \<and> distinct (map sa_key reads)
    \<and> (\<forall>smp \<in> set reads. \<exists>i gs. buildSample ''bench/read'' i (rc_valueSize config) router gs = Inr smp)"
proof (cases "rc_readRatio config > 0")
  case True
  then obtain smps a where b: "buildSamples ''bench/read'' (preload_amount config) (rc_valueSize config) router s = Some (Inr smps, a)"
    and rest: "cmd_bind (preloadSamples api ctx smps) (\<lambda>u. cmd_return smps) a = Some (Inr reads, s1)"
    using assms unfolding measured_reads_def by (auto elim: cmd_bind_Inr)
  have "smps = reads" using rest by (auto simp: cmd_return_def elim: cmd_bind_Inr)
  then show ?thesis
    using True buildSamples_length [OF b] buildSamples_distinct [OF b] buildSamples_from_build [OF b] by (simp add: preloaded_def)
next
  case False
  then show ?thesis using assms by (auto simp: measured_reads_def cmd_return_def preloaded_def)
qed

lemma finish_measured_samples:
  assumes "finish_measured api ctx reads elapsed x = Some (Inr (samples, snap), y)"
  shows "samples = reads @ wl_expected x \<and> wl_fatal x = None \<and> os_errors (wk_stats x) = 0 \<and> ss_writeOps snap = os_writeOps (wk_stats x)"
proof -
  have "wl_fatal x = None" "\<not> ss_errors (snapshot elapsed (wk_stats x)) > 0"
    using assms by (auto simp: finish_measured_def Let_def log_Fatal_def split: option.splits if_splits)
  moreover from this obtain u where "cmd_return (reads @ wl_expected x, snapshot elapsed (wk_stats x)) y = Some (Inr (samples, snap), y)"
    using assms by (auto simp: finish_measured_def Let_def cmd_return_def elim!: cmd_bind_Inr)
  ultimately show ?thesis by (auto simp: cmd_return_def snapshot_def Let_def word_gt_0)
qed

lemma measured_samples:
  assumes "runMeasuredWorkload api ctx router config s (Inr (samples, snap)) e"
  shows "length samples = preloaded config + unat (ss_writeOps snap) \<and> distinct (map sa_key samples)
    \<and> (\<forall>smp \<in> set samples. from_build router (rc_valueSize config) smp)"
  using assms
proof cases
  case (measured reads s1 groups w env x elapsed y)
  let ?A = "measured_args ctx config router groups reads False"
  have reads: "length reads = preloaded config" "distinct (map sa_key reads)"
    "\<forall>smp \<in> set reads. \<exists>i gs. buildSample ''bench/read'' i (rc_valueSize config) router gs = Inr smp"
    using measured_reads_samples [OF measured(2)] by simp_all
  have finish: "samples = reads @ wl_expected x" "wl_fatal x = None" "os_errors (wk_stats x) = 0"
    "ss_writeOps snap = os_writeOps (wk_stats x)"
    using finish_measured_samples [OF measured(6)] by simp_all
  have "\<not> wa_warmup ?A" by (simp add: measured_args_def)
  note x = executes_samples [OF measured(5) finish(2,3) this]
  have written: "\<exists>i. buildSample ''bench/write'' i (rc_valueSize config) router groups = Inr smp" if "smp \<in> set (wl_expected x)" for smp
    using x that by (auto simp: write_sample_def measured_args_def)
  have "sa_key smp \<noteq> sa_key smp'" if smps: "smp \<in> set (wl_expected x)" "smp' \<in> set reads" for smp smp'
  proof -
    obtain i j gs where "buildSample ''bench/write'' i (rc_valueSize config) router groups = Inr smp"
      "buildSample ''bench/read'' j (rc_valueSize config) router gs = Inr smp'"
      using written [OF smps(1)] reads(3) smps(2) by blast
    then show ?thesis using prefixes_apart by blast
  qed
  then have "distinct (map sa_key samples)" using x reads(2) unfolding finish(1) by fastforce
  moreover have "from_build router (rc_valueSize config) smp" if "smp \<in> set samples" for smp
    using that reads(3) written from_buildI unfolding finish(1) set_append by blast
  ultimately show ?thesis using x reads(1) finish(1,4) by simp
qed

lemma cmd_fold_Cons_Inr:
  assumes "cmd_each f (x # xs) s = Some (Inr u, s2)"
  obtains s1 where "f x s = Some (Inr (), s1)" "cmd_each f xs s1 = Some (Inr u, s2)"
  using assms by (auto simp: cmd_each_def elim: cmd_bind_Inr)

lemma legacy_puts_count:
  "cmd_each (legacy_put api ctx) smps s = Some (Inr u, s')
    \<Longrightarrow> os_writeOps (wk_stats s') = os_writeOps (wk_stats s) + of_nat (length smps)"
proof (induction smps arbitrary: s)
  case Nil
  then show ?case by (simp add: cmd_each_def cmd_return_def)
next
  case (Cons smp smps)
  from Cons.prems obtain s1 where put: "legacy_put api ctx smp s = Some (Inr (), s1)"
    and rest: "cmd_each (legacy_put api ctx) smps s1 = Some (Inr u, s')"
    by (rule cmd_fold_Cons_Inr)
  have "runWriteOp api ctx smp s = (None, s1)"
    using put by (auto simp: legacy_put_def log_Fatal_def cmd_return_def split: prod.splits option.splits)
  then obtain b l a where "wk_stats s1 = stats_event (WriteEvent (sa_groupID smp) b l a None) (wk_stats s)" by (rule runWriteOp_event)
  then have "os_writeOps (wk_stats s1) = os_writeOps (wk_stats s) + 1" by (simp add: recordWrite_def stats_record_def Let_def)
  then show ?case using Cons.IH [OF rest] by simp
qed

lemma legacy_gets_count:
  "cmd_each (legacy_get api ctx) smps s = Some (Inr u, s') \<Longrightarrow> os_writeOps (wk_stats s') = os_writeOps (wk_stats s)"
proof (induction smps arbitrary: s)
  case Nil
  then show ?case by (simp add: cmd_each_def cmd_return_def)
next
  case (Cons smp smps)
  from Cons.prems obtain s1 where get: "legacy_get api ctx smp s = Some (Inr (), s1)"
    and rest: "cmd_each (legacy_get api ctx) smps s1 = Some (Inr u, s')"
    by (rule cmd_fold_Cons_Inr)
  have "os_writeOps (wk_stats s1) = os_writeOps (wk_stats s)"
    using get by (auto simp: legacy_get_def Let_def error_of_def log_Fatal_def cmd_return_def recordRead_def stats_record_def
        split: prod.splits sum.splits if_splits)
  then show ?case using Cons.IH [OF rest] by simp
qed

lemma legacy_samples:
  assumes "runLegacyWorkload api ctx router config s = Some (Inr (samples, snap), s')"
  shows "buildSamples ''bench/key'' (rc_requests config) (rc_valueSize config) router s = Some (Inr samples, s)
    \<and> ss_writeOps snap = of_nat (length samples)"
proof -
  obtain s0 s1 t1 s2 t2 where b: "buildSamples ''bench/key'' (rc_requests config) (rc_valueSize config) router s = Some (Inr samples, s0)"
    and puts: "measure_cmd api (cmd_each (legacy_put api ctx) samples) (s0\<lparr>wk_stats := newOpStats\<rparr>) = Some (Inr t1, s1)"
    and gets: "measure_cmd api (cmd_each (legacy_get api ctx) samples) s1 = Some (Inr t2, s2)"
    and snap: "snap = snapshot (t1 + t2) (wk_stats s2)"
    using assms by (auto simp: runLegacyWorkload_def cmd_return_def elim!: cmd_bind_Inr)
  obtain u v where "cmd_each (legacy_put api ctx) samples (s0\<lparr>wk_stats := newOpStats\<rparr>) = Some (Inr u, s1)"
    "cmd_each (legacy_get api ctx) samples s1 = Some (Inr v, s2)"
    using puts gets by (auto simp: measure_cmd_def cmd_return_def elim!: cmd_bind_Inr)
  from legacy_puts_count [OF this(1)] legacy_gets_count [OF this(2)]
  have "os_writeOps (wk_stats s2) = of_nat (length samples)" by (simp add: newOpStats_def)
  then show ?thesis using b buildSamples_from_build [OF b] by (simp add: snap snapshot_def Let_def)
qed

lemma workload_samples:
  assumes "workload_run api ctx router config s (Some (Inr (samples, snap))) e" and "rc_requests config < 2 ^ 63"
  shows "length samples = preloaded config + unat (ss_writeOps snap) \<and> distinct (map sa_key samples)
    \<and> (\<forall>smp \<in> set samples. from_build router (rc_valueSize config) smp)
    \<and> (rc_readRatio config < 0 \<longrightarrow> int (length samples) = rc_requests config)"
  using assms(1)
proof cases
  case (legacy s1)
  have b: "buildSamples ''bench/key'' (rc_requests config) (rc_valueSize config) router s = Some (Inr samples, s)"
    and w: "ss_writeOps snap = of_nat (length samples)"
    using legacy_samples [OF legacy(3)] by simp_all
  have len: "int (length samples) = rc_requests config" by (rule buildSamples_length [OF b])
  then have "length samples < 2 ^ 63" using assms(2) by simp
  then have "unat (ss_writeOps snap) = length samples" unfolding w by (simp add: unat_of_nat)
  moreover have "\<forall>smp \<in> set samples. from_build router (rc_valueSize config) smp"
    using buildSamples_from_build [OF b] from_buildI by blast
  ultimately show ?thesis using len legacy(2) buildSamples_distinct [OF b] by (simp add: preloaded_def)
next
  case measured
  then show ?thesis using measured_samples by fastforce
qed

section \<open>What the end of a run says\<close>

lemma close_client_fields [simp]:
  "la_running (close_client net rc s) = la_running s" "la_machine (close_client net rc s) = la_machine s"
  by (simp_all add: close_client_def split: prod.splits)

lemma finish_run_Finished:
  assumes "finish_run net sys marshal ctx config c nodes samples report env s = Some (Finished report1, s2)"
  obtains out s1 consistency mc w where "stopNodes sys nodes (s\<lparr>la_out := out\<rparr>) = Some s1"
    "verifyLocalReplicas c (rc_dir config) samples (la_machine s1) = Some ((consistency, None), mc)"
    "report1 = report\<lparr>wr_Consistency := consistency\<rparr>" "la_running s2 = la_running s1" "mc_world (la_machine s2) = w"
    "if rc_reportPath config = [] then w = mc_world mc else writeReport marshal (rc_reportPath config) report1 (mc_world mc) = (None, w)"
  using assms
  by (auto simp: finish_run_def Let_def split: prod.splits sum.splits option.splits if_splits)

text \<open>Nodes that have exited by themselves leave databases that can be opened.\<close>

definition exits_leave_maps :: "'o node_system \<Rightarrow> string \<Rightarrow> Config \<Rightarrow> nat \<Rightarrow> bool" where
  "exits_leave_maps sys root c n \<longleftrightarrow>
     (\<forall>nodes out mc. map sn_id nodes = map nd_ID (cc_Nodes c)
        \<longrightarrow> (\<exists>M. replicas_kept root (cluster_replicas c) M (\<lambda>x. n) (mc_world (disk_after sys nodes out mc))))"

text \<open>The report, if there is one, is not written into a replica's directory.\<close>

definition report_outside :: "runConfig \<Rightarrow> Config \<Rightarrow> bool" where
  "report_outside config c \<longleftrightarrow> rc_reportPath config = []
     \<or> (\<forall>x \<in> cluster_replicas c. \<not> in_dir (path_of (replica_dir (rc_dir config) (snd x) (fst x))) (path_of (rc_reportPath config)))"

lemma report_keeps_replicas:
  assumes "replicas_kept root R M bound w" and "writeReport marshal p report w = (r, w')"
    and "\<forall>x \<in> R. \<not> in_dir (path_of (replica_dir root (snd x) (fst x))) (path_of p)"
  shows "replicas_kept root R M bound w'"
  unfolding replicas_kept_def
proof
  fix x assume x: "x \<in> R"
  let ?o = "local_options (replica_dir root (snd x) (fst x))"
  have kept: "kept_at ?o (bound x) w (M x)" using assms(1) x by (simp add: replicas_kept_def)
  then have "calm w" by (simp add: kept_at_def)
  note w' = writeReport_calm [OF this assms(2)]
  have "\<forall>q. in_dir (path_of (opt_Dir ?o)) q \<longrightarrow> file_at w' q = file_at w q"
  proof (intro allI impI)
    fix q assume "in_dir (path_of (opt_Dir ?o)) q"
    then have "q \<noteq> path_of p" using assms(3) x by (auto simp: local_options_def)
    then show "file_at w' q = file_at w q" using w' by blast
  qed
  then show "kept_at ?o (bound x) w' (M x)" using w' by (intro kept_at_frame [OF kept]) simp_all
qed

lemma newRoutedClient_valid: "newRoutedClient ctx c d = Inr rc \<Longrightarrow> cluster_ok c"
  using Validate_cluster_ok by (fastforce simp: newRoutedClient_def split: option.splits if_splits)

text \<open>
  C15: A run that ends normally certifies the replicas.  If \<open>main\<close> of the example returns, whatever the
  network and the workers did, then \<open>stopNodes\<close> has left no node running, and the disk shows what the
  report says: every replica of every group has every sample of its group in its database.  The samples
  are those of the workload: there is one for each write of the measured run that the report counts,
  none of which failed, beside the preloaded ones, and in the write-then-read mode as many as
  requested; their keys differ, and each has the group to which its key is routed.

  It is assumed that the nodes exit within five seconds of their interrupt and leave databases that can
  be opened, with anything in them and at most \<open>n\<close> tables each (a killed node need not: a flush that is
  cut short blocks the next \<open>Open\<close>), that the ids are names of directories, that the report, if any, is
  not written into a replica's directory, and that the amount of requests is an \<open>int\<close>.
\<close>

theorem finished_run_certifies_replicas:
  assumes run: "dist_run net sys marshal ctx config c s (Finished report) s'"
    and "names_ok (rc_dir config) (cluster_replicas c)"
    and "stops_in_time sys" and "exits_leave_maps sys (rc_dir config) c n" and "n \<le> 10000"
    and "report_outside config c" and "rc_requests config < 2 ^ 63" and "la_running s = []"
  shows "la_running s' = []
    \<and> (\<exists>(samples :: sample list) M router. replicas_kept (rc_dir config) (cluster_replicas c) M (\<lambda>x. Suc n) (mc_world (la_machine s'))
         \<and> wr_Consistency report = \<lparr>cr_VerifiedKeys = length samples, cr_MissingCount = 0, cr_MismatchCount = 0,
              cr_ReplicaVerifiedCount = (\<Sum>g \<in> sa_groupID ` set samples. replica_amount c g)\<rparr>
         \<and> (\<forall>(smp :: sample) \<in> set samples. \<forall>m. (sa_groupID smp, m) \<in> cluster_replicas c
              \<longrightarrow> M (sa_groupID smp, m) (sa_key smp) = Some (sa_value smp))
         \<and> length samples = preloaded config + unat (ss_writeOps (wr_Result report))
         \<and> (rc_readRatio config < 0 \<longrightarrow> int (length samples) = rc_requests config)
         \<and> distinct (map sa_key samples) \<and> sa_groupID ` set samples \<subseteq> gp_ID ` set (cc_Groups c)
         \<and> ConfigNewRouter c = Inr router
         \<and> (\<forall>(smp :: sample) \<in> set samples. \<exists>route i. RouteKey (Some router) (sa_key smp) = Inr route
              \<and> sa_groupID smp = sr_GroupID route \<and> sa_value smp = buildValue i (rc_valueSize config)))"
  using run
proof cases
  case (worked nodes s1 rc router samples snap rc1 out)
  note ok = newRoutedClient_valid [OF worked(2)] and start = startCluster_running [OF worked(1)]
  have count: "length samples = preloaded config + unat (ss_writeOps snap)" "distinct (map sa_key samples)"
    "rc_readRatio config < 0 \<longrightarrow> int (length samples) = rc_requests config"
    and built: "\<forall>smp \<in> set samples. from_build (Some router) (rc_valueSize config) smp"
    using workload_samples [OF worked(4) assms(7)] by blast+
  obtain out' s2 consistency mc w where stop: "stopNodes sys nodes (s1\<lparr>la_out := out, la_out := out'\<rparr>) = Some s2"
    and check: "verifyLocalReplicas c (rc_dir config) samples (la_machine s2) = Some ((consistency, None), mc)"
    and report: "report = (buildReport c config snap)\<lparr>wr_Consistency := consistency\<rparr>"
    and s': "la_running s' = la_running s2" "mc_world (la_machine s') = w"
    and w: "if rc_reportPath config = [] then w = mc_world mc else writeReport marshal (rc_reportPath config) report (mc_world mc) = (None, w)"
    using worked(5) by (rule finish_run_Finished)
  have none: "la_running s2 = []" using start assms(8) by (intro stopNodes_running [OF stop]) auto
  have "la_machine s2 = disk_after sys nodes out' (la_machine s1)"
    using stopNodes_in_time [OF assms(3), of nodes "s1\<lparr>la_out := out'\<rparr>"] stop by simp
  then obtain M where kept: "replicas_kept (rc_dir config) (cluster_replicas c) M (\<lambda>x. n) (mc_world (la_machine s2))"
    using start assms(4) unfolding exits_leave_maps_def by metis
  have chk: "checkable samples" "sa_groupID ` set samples \<subseteq> gp_ID ` set (cc_Groups c)"
    using from_build_checkable [OF ok worked(3) built] by blast+
  have counts: "consistency = \<lparr>cr_VerifiedKeys = length samples, cr_MissingCount = 0, cr_MismatchCount = 0,
         cr_ReplicaVerifiedCount = (\<Sum>g \<in> sa_groupID ` set samples. replica_amount c g)\<rparr>"
    and found: "\<forall>smp \<in> set samples. \<forall>m. (sa_groupID smp, m) \<in> cluster_replicas c
         \<longrightarrow> M (sa_groupID smp, m) (sa_key smp) = Some (sa_value smp)"
    and kept': "replicas_kept (rc_dir config) (cluster_replicas c) M (\<lambda>x. Suc n) (mc_world mc)"
    using verifyLocalReplicas_decides [OF ok assms(2) kept assms(5) chk] check by auto
  have maps: "replicas_kept (rc_dir config) (cluster_replicas c) M (\<lambda>x. Suc n) w"
    using w kept' report_keeps_replicas [OF kept'] assms(6) unfolding report_outside_def by (cases "rc_reportPath config = []") auto
  have routed: "\<forall>smp \<in> set samples. \<exists>route i. RouteKey (Some router) (sa_key smp) = Inr route
      \<and> sa_groupID smp = sr_GroupID route \<and> sa_value smp = buildValue i (rc_valueSize config)"
    using built from_build_routed by blast
  have "wr_Result report = snap" "wr_Consistency report = consistency" by (simp_all add: report buildReport_def)
  note facts = this maps counts found count chk(2) worked(3) routed
  have "la_running s' = []" using none s' by simp
  then show ?thesis
    by (intro conjI exI [of _ samples] exI [of _ M] exI [of _ router]) (use facts s'(2) in simp_all)
qed

text \<open>
  What the preparation has done when the nodes start: the configuration is valid, its names are fit for
  directories, and no process has been started.
\<close>

lemma must_on_disk_running: "must what (on_disk f) s = Some (Inr u, s') \<Longrightarrow> la_running s' = la_running s"
  by (auto simp: must_def on_disk_def cmd_bind_def cmd_return_def log_Fatal_def split: prod.splits option.splits)

lemma mustFreeLocalAddr_running: "mustFreeLocalAddr (listen_out listen) s = Some (Inr a, s') \<Longrightarrow> la_running s' = la_running s"
  by (auto simp: mustFreeLocalAddr_def listen_out_def cmd_return_def log_Fatal_def split: prod.splits sum.splits)

lemma newExampleClusterConfig_result:
  assumes "newExampleClusterConfig (listen_out listen) s = Some (Inr (c, err), s')"
  shows "la_running s' = la_running s \<and> err = Validate c \<and> cluster_replicas c \<subseteq> {''g1'', ''g2''} \<times> {''n1'', ''n2'', ''n3''}"
proof -
  obtain s1 s2 s3 s4 s5 s6 s7 s8 c1 c2 c3 a1 a2 a3 b1 b2 b3
    where m: "mustFreeLocalAddr (listen_out listen) s = Some (Inr c1, s1)" "mustFreeLocalAddr (listen_out listen) s1 = Some (Inr c2, s2)"
      "mustFreeLocalAddr (listen_out listen) s2 = Some (Inr c3, s3)" "mustFreeLocalAddr (listen_out listen) s3 = Some (Inr a1, s4)"
      "mustFreeLocalAddr (listen_out listen) s4 = Some (Inr a2, s5)" "mustFreeLocalAddr (listen_out listen) s5 = Some (Inr a3, s6)"
      "mustFreeLocalAddr (listen_out listen) s6 = Some (Inr b1, s7)" "mustFreeLocalAddr (listen_out listen) s7 = Some (Inr b2, s8)"
      "mustFreeLocalAddr (listen_out listen) s8 = Some (Inr b3, s')"
    and err: "err = Validate c"
    and grps: "cc_Groups c = [
        \<lparr>gp_ID = ''g1'', gp_Replicas = [\<lparr>gr_NodeID = ''n1'', gr_RaftAddr = a1\<rparr>, \<lparr>gr_NodeID = ''n2'', gr_RaftAddr = a2\<rparr>,
          \<lparr>gr_NodeID = ''n3'', gr_RaftAddr = a3\<rparr>]\<rparr>,
        \<lparr>gp_ID = ''g2'', gp_Replicas = [\<lparr>gr_NodeID = ''n1'', gr_RaftAddr = b1\<rparr>, \<lparr>gr_NodeID = ''n2'', gr_RaftAddr = b2\<rparr>,
          \<lparr>gr_NodeID = ''n3'', gr_RaftAddr = b3\<rparr>]\<rparr>]"
    using assms unfolding newExampleClusterConfig_def Let_def cmd_return_def
    by (elim cmd_bind_Inr) (simp only: option.inject prod.inject sum.inject, elim conjE, hypsubst, simp)
  have "la_running s' = la_running s" using m [THEN mustFreeLocalAddr_running] by simp
  moreover have "cluster_replicas c \<subseteq> {''g1'', ''g2''} \<times> {''n1'', ''n2'', ''n3''}" by (auto simp: cluster_replicas_def grps)
  ultimately show ?thesis using err by blast
qed

lemma prepared_run:
  assumes "prepare_run listen marshal config s = Some (Inr c, s1)" and "CHR 0x00 \<notin> set (rc_dir config)"
  shows "cluster_ok c \<and> names_ok (rc_dir config) (cluster_replicas c) \<and> la_running s1 = la_running s"
proof -
  obtain u v w err a b d where check: "check_run config s = Some (Inr (), a)"
    and clean: "must ''clean example dir'' (on_disk (os_remove_all (path_of (rc_dir config)))) a = Some (Inr u, b)"
    and create: "must ''create example dir'' (on_disk (os_mkdir_all (path_of (rc_dir config)))) b = Some (Inr v, d)"
    and cfg: "newExampleClusterConfig (listen_out listen) d = Some (Inr (c, None), w)"
    and wr: "must ''write cluster config'' (on_disk (writeClusterConfig marshal (path_Join [rc_dir config, ''cluster.json'']) c)) w
      = Some (Inr err, s1)"
    using assms(1) unfolding prepare_run_def
    by (elim cmd_bind_Inr) (auto simp: cmd_return_def log_Fatal_def elim!: cmd_bind_Inr split: prod.splits option.splits)
  have "a = s" using check by (auto simp: check_run_def cmd_return_def log_Fatal_def split: if_splits)
  then have "la_running s1 = la_running s"
    using must_on_disk_running [OF clean] must_on_disk_running [OF create] must_on_disk_running [OF wr] newExampleClusterConfig_result [OF cfg]
    by simp
  moreover have "cluster_ok c" using newExampleClusterConfig_result [OF cfg] Validate_cluster_ok by metis
  moreover have "names_ok (rc_dir config) (cluster_replicas c)"
    unfolding names_ok_def using assms(2) newExampleClusterConfig_result [OF cfg]
    by (auto simp: plain_group_def plain_name_def plain_elem_def)
  ultimately show ?thesis by blast
qed

text \<open>
  A fatal error after the start ends the process without its deferred calls, and the nodes keep running,
  here when the context has expired before the client is made.
\<close>

lemma failed_run_leaves_nodes:
  assumes "startCluster sys (rc_dir config) (path_Join [rc_dir config, ''cluster.json'']) c s = ((nodes, None), s1)"
    and "ctx_Err ctx 0 = Some err"
  shows "dist_run net sys marshal ctx config c s (FatalExit (''create routed client: '' @ error_string err)) s1
    \<and> la_running s1 = la_running s @ map sn_pid nodes \<and> length nodes = length (cc_Nodes c)"
proof -
  have "newRoutedClient ctx c True = Inl err" using assms(2) by (simp add: newRoutedClient_def)
  then have "dist_run net sys marshal ctx config c s (FatalExit (''create routed client: '' @ error_string err)) s1"
    by (rule no_client [OF assms(1)])
  then show ?thesis using startCluster_running [OF assms(1)] by (auto dest: map_eq_imp_length_eq)
qed

section \<open>An example\<close>

text \<open>A network whose store has one value, and a node whose disk has one record.\<close>

definition example_network :: "bytes \<Rightarrow> (unit, unit) network" where
  "example_network v = \<lparr>nw_Dial = (\<lambda>ctx t e. (Inr (), e)), nw_Close = (\<lambda>c e. (None, e)),
     nw_Stub = \<lparr>stub_Put = (\<lambda>c ctx k v e. (None, e)), stub_Get = (\<lambda>c ctx k e. (Inr (Some v), e)),
       stub_Delete = (\<lambda>c ctx k e. (None, e)), stub_Flush = (\<lambda>c ctx e. (None, e)), stub_Compact = (\<lambda>c ctx e. (None, e))\<rparr>,
     nw_Now = (\<lambda>e. 0)\<rparr>"

definition recorded_nodes :: "world \<Rightarrow> unit node_system" where
  "recorded_nodes w = \<lparr>ns_Build = (\<lambda>p e. (None, e)), ns_Start = (\<lambda>p args e. (Inr 7, e)), ns_Exit = (\<lambda>e p. Some 10),
     ns_Disk = (\<lambda>e p killed mc. mc\<lparr>mc_world := w\<rparr>)\<rparr>"

definition one_write :: runConfig where
  "one_write = \<lparr>rc_dir = ''d'', rc_requests = 1, rc_timeout = 30, rc_concurrency = 1, rc_valueSize = 16, rc_readRatio = -1,
     rc_duration = 0, rc_warmup = 0, rc_reportPath = []\<rparr>"

lemma example_client:
  assumes "ConfigNewRouter example_cluster = Inr router"
  shows "newRoutedClient Background example_cluster True = Inr \<lparr>rcl_router = Some router,
    rcl_nodes = [(''n1'', \<lparr>nd_ID = ''n1'', nd_ClientAddr = '':9001''\<rparr>)], rcl_groups = [(''g1'', [''n1''])],
    rcl_raftAddrNode = [(''g1'', [('':10001'', ''n1'')])], rcl_clients = [], rcl_leaders = []\<rparr>"
  using assms example_cluster_valid by (simp add: newRoutedClient_def Background_def) (simp add: example_cluster_def)

definition connected :: "Router \<Rightarrow> unit RoutedClient" where
  "connected router = \<lparr>rcl_router = Some router,
    rcl_nodes = [(''n1'', \<lparr>nd_ID = ''n1'', nd_ClientAddr = '':9001''\<rparr>)], rcl_groups = [(''g1'', [''n1''])],
    rcl_raftAddrNode = [(''g1'', [('':10001'', ''n1'')])], rcl_clients = [(''n1'', ())], rcl_leaders = [(''g1'', ''n1'')]\<rparr>"

lemma example_put:
  assumes "RouteKey (Some router) k = Inr route" and "sr_GroupID route = ''g1''"
    and "c = connected router \<or> c = (connected router)\<lparr>rcl_clients := [], rcl_leaders := []\<rparr>"
  shows "rt_Put (client_api (example_network v)) Background k x (Some c, ()) = (None, Some (connected router), ())"
  using assms
  by (auto simp: client_api_def example_network_def RoutedPut_def withKeyClient_def withGroupClient_def connected_def entry_or_def
      Background_def upt_rec pickNode_def clientForNode_def setLeader_def Let_def ClientPut_def)

lemma example_get:
  assumes "RouteKey (Some router) k = Inr route" and "sr_GroupID route = ''g1''"
  shows "rt_Get (client_api (example_network v)) Background k (Some (connected router), ()) = (Inr (Some v), Some (connected router), ())"
  using assms
  by (auto simp: client_api_def example_network_def RoutedGet_def withKeyClient_def withGroupClient_def connected_def entry_or_def
      Background_def upt_rec pickNode_def clientForNode_def setLeader_def Let_def ClientGet_def)

lemma example_flush: "flush_all (example_network v) Background (connected router, ()) = (Inr (), connected router, ())"
  by (auto simp: flush_all_def example_network_def RoutedFlush_def FlushGroup_def withGroupClient_def connected_def entry_or_def
      Background_def upt_rec pickNode_def clientForNode_def setLeader_def Let_def ClientFlush_def)

text \<open>The workload of one sample.\<close>

lemma example_workload:
  assumes samples: "buildSamples ''bench/key'' 1 16 (Some router) s = Some (Inr [smp], s)"
    and route: "RouteKey (Some router) (sa_key smp) = Inr route" "sr_GroupID route = ''g1''"
    and env: "wk_env s = (Some ((connected router)\<lparr>rcl_clients := [], rcl_leaders := []\<rparr>), ())"
  shows "\<exists>snap. workload_run (client_api (example_network (sa_value smp))) Background (Some router) one_write s
    (Some (Inr ([smp], snap))) (Some (connected router), ())"
proof -
  let ?api = "client_api (example_network (sa_value smp))" and ?c = "(Some (connected router), ())"
  have put: "\<exists>st. legacy_put ?api Background smp s = Some (Inr (), s\<lparr>wk_env := ?c, wk_stats := st\<rparr>)"
    if "wk_env s = (Some ((connected router)\<lparr>rcl_clients := [], rcl_leaders := []\<rparr>), ())" for s :: "(unit RoutedClient option \<times> unit) work"
  proof -
    have "put_sample ?api Background smp (wk_env s) = (Inr (), ?c)" using example_put [OF route] that by (simp add: put_sample_def)
    then show ?thesis using retryMeasured_first [OF ctx_live_Background, of "put_sample ?api Background smp" "wk_env s" "()" ?c]
      by (auto simp: legacy_put_def runWriteOp_def error_of_def cmd_return_def)
  qed
  have got: "\<exists>st. legacy_get ?api Background smp s = Some (Inr (), s\<lparr>wk_env := ?c, wk_stats := st\<rparr>)" if "wk_env s = ?c" for s :: "(unit RoutedClient option \<times> unit) work"
  proof -
    have "rt_Get ?api Background (sa_key smp) (wk_env s) = (Inr (Some (sa_value smp)), ?c)" using example_get [OF route] that by simp
    from retryMeasured_first [where fn = "rt_Get ?api Background (sa_key smp)", OF ctx_live_Background this]
    show ?thesis by (auto simp: legacy_get_def slice_def error_of_def cmd_return_def)
  qed
  let ?s = "s\<lparr>wk_stats := newOpStats\<rparr>"
  obtain st1 where 1: "legacy_put ?api Background smp ?s = Some (Inr (), ?s\<lparr>wk_env := ?c, wk_stats := st1\<rparr>)"
    using put [of ?s] env by auto
  obtain st2 where 2: "legacy_get ?api Background smp (?s\<lparr>wk_env := ?c, wk_stats := st1\<rparr>)
      = Some (Inr (), ?s\<lparr>wk_env := ?c, wk_stats := st1\<rparr>\<lparr>wk_env := ?c, wk_stats := st2\<rparr>)"
    using got [of "?s\<lparr>wk_env := ?c, wk_stats := st1\<rparr>"] by auto
  obtain snap s' where "runLegacyWorkload ?api Background (Some router) one_write s = Some (Inr ([smp], snap), s')" "wk_env s' = ?c"
    using samples 1 2 by (auto simp: runLegacyWorkload_def one_write_def cmd_bind_def cmd_return_def measure_cmd_def cmd_each_def)
  then show ?thesis using workload_run.legacy [of one_write ?api Background "Some router" s] by (auto simp: one_write_def)
qed

theorem finished_run_certifies_replicas_witness:
  "\<exists>w router (smp :: sample) report s'. ConfigNewRouter example_cluster = Inr router
    \<and> dist_run (example_network (sa_value smp)) (recorded_nodes w) (\<lambda>r. Inr []) Background one_write example_cluster
        \<lparr>la_machine = \<lparr>mc_world = \<lparr>disk = [], faults = []\<rparr>, mc_logger = False, mc_raft = ()\<rparr>, la_running = [], la_signalled = [], la_out = ()\<rparr>
        (Finished report) s'
    \<and> la_running s' = [] \<and> cr_VerifiedKeys (wr_Consistency report) = 1 \<and> unat (ss_writeOps (wr_Result report)) = 1"
proof -
  obtain router where router: "ConfigNewRouter example_cluster = Inr router"
    using cluster_ok_router example_cluster_valid Validate_cluster_ok by blast
  note route = example_cluster_routes [OF router] and client = example_client [OF router]
  let ?rc = "(connected router)\<lparr>rcl_clients := [], rcl_leaders := []\<rparr>"
  let ?s0 = "\<lparr>wk_env = (Some ?rc, ()), wk_stats = newOpStats\<rparr>"
  obtain samples where samples: "buildSamples ''bench/key'' 1 16 (Some router) ?s0 = Some (Inr samples, ?s0)"
    using one_group_samples [OF route, where amount = 1 and s = ?s0] by auto
  then obtain smp where smp: "samples = [smp]" using buildSamples_length [OF samples] by (cases samples) auto
  have ok: "cluster_ok example_cluster" using example_cluster_valid Validate_cluster_ok by blast
  have chk: "checkable [smp]" "sa_groupID ` set [smp] \<subseteq> gp_ID ` set (cc_Groups example_cluster)"
    using from_build_checkable [OF ok router, of "[smp]" 16] buildSamples_from_build [OF samples] smp from_buildI by blast+
  then obtain r where r: "RouteKey (Some router) (sa_key smp) = Inr r" "sr_GroupID r = ''g1''" and g: "sa_groupID smp = ''g1''"
    using route by (auto simp: checkable_def example_cluster_def)
  let ?rec = "\<lparr>rec_Type = TypePut, rec_Key = sa_key smp, rec_Value = sa_value smp\<rparr>"
  have "fits smp" using one_group_fits [OF _ samples] route smp by simp
  then have "rec_ok ?rec" by (simp add: rec_ok_iff fits_def)
  let ?w = "\<lparr>disk = [(path_of (replica_dir ''d'' ''n1'' ''g1'') @ [''wal.log''], frame ?rec)], faults = []\<rparr>"
  have kept: "replicas_kept ''d'' (cluster_replicas example_cluster) (\<lambda>x. [sa_key smp \<mapsto> sa_value smp]) (\<lambda>x. 0) ?w"
    by (rule replicas_on_disk [OF refl]) fact
  let ?mc = "\<lparr>mc_world = ?w, mc_logger = False, mc_raft = ()\<rparr>" and ?net = "example_network (sa_value smp)"
  have all: "\<forall>x \<in> set [smp]. \<forall>m. (sa_groupID x, m) \<in> cluster_replicas example_cluster
      \<longrightarrow> (\<lambda>y. [sa_key smp \<mapsto> sa_value smp]) (sa_groupID x, m) (sa_key x) = Some (sa_value x)"
    by simp
  have names: "names_ok ''d'' (cluster_replicas example_cluster)"
    by (simp add: cluster_replicas_def example_cluster_def names_ok_def plain_name_def plain_group_def plain_elem_def)
  have kept': "replicas_kept ''d'' (cluster_replicas example_cluster) (\<lambda>x. [sa_key smp \<mapsto> sa_value smp]) (\<lambda>x. 0) (mc_world ?mc)"
    using kept by simp
  obtain rep mc' where check: "verifyLocalReplicas example_cluster ''d'' [smp] ?mc = Some ((rep, None), mc')"
    using verifyLocalReplicas_decides [OF ok names kept' _ chk] all by auto
  obtain snap where work: "workload_run (client_api ?net) Background (Some router) one_write ?s0
      (Some (Inr ([smp], snap))) (Some (connected router), ())"
    using example_workload [OF samples [unfolded smp] r] by auto
  let ?s = "\<lparr>la_machine = \<lparr>mc_world = \<lparr>disk = [], faults = []\<rparr>, mc_logger = False, mc_raft = ()\<rparr>, la_running = [], la_signalled = [], la_out = ()\<rparr>"
  let ?s1 = "?s\<lparr>la_running := [7]\<rparr>" and ?nodes = "[\<lparr>sn_id = ''n1'', sn_pid = 7\<rparr>]"
  have start: "startCluster (recorded_nodes ?w) (rc_dir one_write) (path_Join [rc_dir one_write, ''cluster.json'']) example_cluster ?s
      = ((?nodes, None), ?s1)"
    by (simp add: startCluster_def buildNodeBinary_def recorded_nodes_def Let_def example_cluster_def)
  have flush: "retry Background (flush_all ?net Background) (connected router, ()) = (Inr (), connected router, ())"
    using retryMeasured_first [where fn = "flush_all ?net Background", OF ctx_live_Background example_flush] by (simp add: retry_def)
  obtain report s' where finish: "finish_run ?net (recorded_nodes ?w) (\<lambda>r. Inr []) Background one_write example_cluster ?nodes [smp]
      (buildReport example_cluster one_write snap) (connected router, ()) (?s1\<lparr>la_out := ()\<rparr>) = Some (Finished report, s')"
    using check by (simp add: finish_run_def flush stopNodes_def interrupt_nodes_def exit_time_def node_gone_def recorded_nodes_def one_write_def Let_def)
  have run: "dist_run ?net (recorded_nodes ?w) (\<lambda>r. Inr []) Background one_write example_cluster ?s (Finished report) s'"
    by (rule worked [OF start _ router _ finish, of ?rc]) (use client work in \<open>simp_all add: connected_def\<close>)
  have leave: "exits_leave_maps (recorded_nodes ?w) (rc_dir one_write) example_cluster 0"
  proof -
    have disk: "mc_world (disk_after (recorded_nodes w) nodes out mc) = w" if "nodes \<noteq> []" for w nodes out mc
      using that by (cases nodes rule: rev_cases) (simp_all add: disk_after_def recorded_nodes_def)
    show ?thesis unfolding exits_leave_maps_def
    proof (intro allI impI)
      fix nodes :: "startedNode list" and out mc
      assume "map sn_id nodes = map nd_ID (cc_Nodes example_cluster)"
      then have "nodes \<noteq> []" by (auto simp: example_cluster_def)
      then show "\<exists>M. replicas_kept (rc_dir one_write) (cluster_replicas example_cluster) M (\<lambda>x. 0)
          (mc_world (disk_after (recorded_nodes ?w) nodes out mc))"
        using kept disk by (auto simp: one_write_def)
    qed
  qed
  have names': "names_ok (rc_dir one_write) (cluster_replicas example_cluster)" using names by (simp add: one_write_def)
  have time: "stops_in_time (recorded_nodes ?w)" by (simp add: stops_in_time_def recorded_nodes_def)
  have "report_outside one_write example_cluster" "rc_requests one_write < 2 ^ 63" by (simp_all add: report_outside_def one_write_def)
  note ends = finished_run_certifies_replicas [OF run names' time leave le0 this launch.select_convs(2)]
  from conjunct2 [OF ends] obtain samples :: "sample list"
    where r: "length samples = preloaded one_write + unat (ss_writeOps (wr_Result report))"
    "rc_readRatio one_write < 0 \<longrightarrow> int (length samples) = rc_requests one_write"
    "cr_VerifiedKeys (wr_Consistency report) = length samples"
    by (elim exE conjE) (rule that, assumption, assumption, simp)
  have "length samples = 1" using r(2) by (simp add: one_write_def)
  then have "cr_VerifiedKeys (wr_Consistency report) = 1 \<and> unat (ss_writeOps (wr_Result report)) = 1"
    using r(1,3) by (simp add: preloaded_def one_write_def)
  with conjunct1 [OF ends] have "la_running s' = [] \<and> cr_VerifiedKeys (wr_Consistency report) = 1
    \<and> unat (ss_writeOps (wr_Result report)) = 1"
    by blast
  then show ?thesis using run router by blast
qed

end
