(* ===== verification/Spec2Isabelle.thy ===== *)
theory Spec2Isabelle
  imports KV_Snapshot KV_Ends KV_Linear KV_Example KV_GrpcExample KV_DistMain
begin

text \<open>
  Verification of a replicated, sharded key-value store in Go.

  The program.  A node stores records in a log-structured engine (\<open>db.go\<close>, \<open>internal/engine\<close>): a write
  goes to a write-ahead log and to a memtable; a full memtable is flushed to a sorted table file;
  compaction merges the tables.  In raft mode every shard group has such a database on each of its
  replicas, and \<open>hashicorp/raft\<close> replicates the commands (\<open>internal/raft\<close>).  A consistent-hash ring maps
  a key to a shard, a table maps the shard to a group (\<open>internal/shard\<close>), and a sharded store sends a
  request to its group's store.  A gRPC server (\<open>internal/server/grpc\<close>) offers the store; a routed
  client (\<open>internal/client\<close>) finds the group and its leader.  \<open>internal/cluster\<close> reads and checks the
  configuration, \<open>cmd/kv-node\<close> starts and closes a node.

  Theories, in the order of their imports, with the code that each models:

  \<^item> \<open>KV_Prelude\<close>: bytes, Go's error values (\<open>err\<close>, all sentinel errors and the wrapping ones), maps as
    association lists, collections of facts.
  \<^item> \<open>KV_Platform\<close> (\<open>internal/platform/utils.go\<close>, package \<open>os\<close>): files, handles, system calls with a list
    of faults that says which of them fail.
  \<^item> \<open>KV_Record\<close> (\<open>internal/engine/record/record.go\<close>): \<open>Encode\<close>, \<open>Decode\<close>; interface \<open>framed_codec\<close>.
  \<^item> \<open>KV_Memtable\<close> (\<open>internal/engine/memtable/memtable.go\<close>); interface \<open>mem_table\<close>.
  \<^item> \<open>KV_Wal\<close> (\<open>internal/engine/wal/wal.go\<close>): \<open>Open\<close>, \<open>Append\<close>, \<open>Replay\<close>, \<open>Reset\<close>, \<open>Close\<close>.
  \<^item> \<open>KV_Sstable\<close> (\<open>internal/engine/sstable/sstable.go\<close>): writer, table with its index, iterator.
  \<^item> \<open>KV_Heap\<close> (package \<open>container/heap\<close>) and \<open>KV_Compact\<close> (\<open>internal/engine/compact/compact.go\<close>):
    \<open>Run\<close>; interface \<open>pqueue\<close>.  \<open>KV_Ends\<close>: \<open>Run\<close> ends.
  \<^item> \<open>KV_Paths\<close> (file names of \<open>db.go\<close>, directory check of \<open>utils.go\<close>).
  \<^item> \<open>KV_DB\<close> (\<open>db.go\<close>, \<open>options.go\<close>): \<open>Open\<close>, \<open>Put\<close>, \<open>Get\<close>, \<open>Delete\<close>, \<open>Flush\<close>, \<open>Compact\<close>, \<open>Close\<close>.
    \<open>KV_DB_Refine\<close>: the invariant and what each operation does to the map of newest records.
    \<open>KV_DB_Crash\<close>: what failures and crashes leave.  \<open>KV_DB_Props\<close>: the promises to clients.
  \<^item> \<open>KV_Snapshot\<close> (\<open>db.go\<close>): \<open>CreateSnapshot\<close>, \<open>RestoreSnapshot\<close>.
  \<^item> \<open>KV_Ring\<close> (\<open>internal/shard/hash_ring.go\<close>, \<open>router.go\<close>): FNV-1a, the ring, \<open>PickShard\<close>, the router.
  \<^item> \<open>KV_Store\<close> (\<open>internal/server/grpc/store.go\<close>): contexts, the operations of a store as the record
    \<open>store_ops\<close>, the standalone store; interface \<open>kv_backend\<close>, the contract of a store with a map.
  \<^item> \<open>KV_Shard\<close> (\<open>internal/shard/store.go\<close>): the sharded store; stores that keep the contract make a
    sharded store that keeps it (\<open>shard_backend\<close>).
  \<^item> \<open>KV_Unicode\<close>: runes in UTF-8, and which of them are printable.
  \<^item> \<open>KV_Fmt\<close> (package \<open>fmt\<close>: \<open>%q\<close>, \<open>%d\<close>; the methods \<open>Error\<close> and \<open>Unwrap\<close> of the errors).
  \<^item> \<open>KV_RaftConfig\<close> and \<open>KV_Raft\<close> (\<open>internal/raft/node.go\<close>, \<open>command.go\<close>, \<open>fsm.go\<close>, \<open>raft_store.go\<close>).
  \<^item> \<open>KV_Group\<close>: a replicated group as a step relation (commit, apply, local flush and compaction,
    snapshot, install of a snapshot, restart).  \<open>KV_Replicated\<close>: interface \<open>raft_leader\<close>, under which a
    \<open>RaftStore\<close> keeps the contract of a store, and the leader of a group as its model.
  \<^item> \<open>KV_Cluster\<close> (\<open>internal/cluster/config.go\<close>): \<open>Load\<close>, \<open>Validate\<close>, the lookups.
  \<^item> \<open>KV_Rpc\<close> (\<open>internal/server/grpc/server.go\<close>, \<open>internal/client/client.go\<close>, \<open>errors.go\<close>).
  \<^item> \<open>KV_Client\<close> (\<open>internal/client/routed_client.go\<close>).
  \<^item> \<open>KV_EndToEnd\<close>: clients connected to the servers of a cluster's processes.  \<open>KV_Requests\<close>: requests
    on keys reach the leader and come back; interface \<open>replica_ops\<close>, what leaders and followers answer.
    \<open>KV_Members\<close>: replicas that lead or follow as its model, and the client's view of the cluster.
  \<^item> \<open>KV_Goroutines\<close> (\<open>internal/client/routed_client.go\<close>): goroutines that share a client, as steps
    between the releases of its mutex.  \<open>KV_Linear\<close>: what concurrent calls return.
  \<^item> \<open>KV_Dial\<close> (\<open>internal/client/client.go\<close>): \<open>Dial\<close> and \<open>waitReady\<close> over gRPC's connection.
  \<^item> \<open>KV_Node\<close> (\<open>cmd/kv-node/main.go\<close>): directories, start and close.  \<open>KV_Startup\<close>: what a start does.
    \<open>KV_Main\<close>: \<open>main\<close>, from the flags to the close, and the runs of a standalone node.
  \<^item> \<open>KV_Process\<close>: commands that can end the process with a fatal error, and triples about them.
    \<open>KV_Example\<close> (\<open>example/simple_example.go\<close>) and \<open>KV_GrpcExample\<close> (\<open>example/grpc/main.go\<close>).
  \<^item> \<open>KV_Samples\<close>, \<open>KV_Workload\<close>, \<open>KV_Distributed\<close>, \<open>KV_Measured\<close>, \<open>KV_Replicas\<close>, \<open>KV_Launch\<close>,
    \<open>KV_DistMain\<close> (\<open>example/distributed/main.go\<close>): samples; retries and statistics; the workload in its legacy mode, over
    the interface \<open>kv_client\<close> of a client that reads and writes one map; the measured mode, whose workers
    are goroutines; the cluster's configuration and the check of the replicas' databases; how the nodes
    are started and stopped; \<open>main\<close>, whose runs are the relation \<open>dist_run\<close>.
  \<^item> This theory: the composition of cluster, groups and sharding.

  Names.  A method has its receiver's name in front where the bare name would clash (\<open>DbPut\<close>,
  \<open>WalAppend\<close>, \<open>ShardGet\<close>, \<open>RaftDelete\<close>, \<open>RoutedFlush\<close>).  A struct is a record with a prefix for its fields.
  A function that returns \<open>(T, error)\<close> has values in \<open>err + T\<close>, one that returns \<open>error\<close> in \<open>err option\<close>;
  an operation takes the state last and returns it last.

  What the lemmas show. A database that suffers no failure refines a map from keys to values, also
  across restarts; every operation of the contract \<open>kv_backend\<close> does to the map what its
  name says. The standalone store keeps this contract, a \<open>RaftStore\<close> on a leader does, and
  a sharded store over either does; so the cluster as a whole answers as one map, and a routed client
  that goes through followers, hints and connections sees that map; calls of many goroutines that share
  clients, with leaders that change in between, have a linearization as that map
  (\<open>concurrent_calls_are_linearizable\<close>). With failures, a write cut off anywhere leaves the
  map before or after it, except in the cases that the error properties describe (a torn flush, a failed
  rename in a compaction, appends behind a torn record, a bad archive). A client of a valid cluster
  reaches the leader within its attempts, and the replicas of a valid cluster start. A workload through
  such a client verifies what it wrote, in every interleaving of its workers, and the check of the
  replicas succeeds exactly if every replica has every sample. So a run of the distributed example that
  returns certifies its replicas: they have one sample for each write that the report counts
  (\<open>finished_run_certifies_replicas\<close>). \<open>Flush\<close>
  and \<open>Compact\<close> are different: a server does them for all groups that its process hosts,
  which only a node that leads all of them can do (\<open>flush_fails_with_spread_leaders\<close>).

  Bounds and fuel. The merge loops of \<open>Run\<close> take fuel: one more than the bytes of the
  tables, which suffices on every disk (\<open>Run_ends\<close>), so compaction returns
  (\<open>None\<close> of the model does not occur) unless its output is one of its inputs. All other
  recursion is structural or has a measure. A retried request is tried sixty times, a sample has ten
  thousand candidates for its key; the counters of the statistics and of the workers are 64-bit words,
  and \<open>limited\<close> bounds a run by their range. Histories of a database are limited to ten
  thousand tables, where the order of file names breaks. Sizes of keys and values are limited as the
  format limits them; the memtable's size is a 64-bit word.

  Assumptions on other code.  System calls either succeed or fail as the fault list says, a failed
  write has written a prefix.  The raft library appears as the record of the calls that the program
  makes; the properties that need more say what: a log of committed commands that every replica
  applies in order (\<open>group_step\<close>), \<open>Apply\<close> and \<open>Barrier\<close> of a leader with its majority as documented
  (\<open>healthy_lib\<close>; \<open>member_lib\<close> adds followers), a multiset of running nodes (\<open>counts_nodes\<close>).
  The library calls of \<open>NewNode\<close> are answered by the record \<open>raft_host\<close>; \<open>host_laws\<close> says that they succeed on
  addresses and directories that are usable and free.  The processes of the nodes exit in time after an
  interrupt and then leave databases that can be opened (\<open>stops_in_time\<close>, \<open>exits_leave_maps\<close>).  A context is the sequence of its
  observations.  gRPC, the generated stub, \<open>json.Unmarshal\<close> and \<open>os.ReadFile\<close> are parameters.  Between
  processes a value keeps the difference between empty and nil, which the wire loses.

  Goroutines.  The mutex of a database or a log is held during the operations it protects, so each of
  these is one step.  The routed client releases its mutex around dials and calls, so its calls are
  steps that interleave (\<open>go_step\<close>, \<open>do_events\<close>); one goroutine by itself does what the sequential model
  of the client does (\<open>goroutine_is_sequential\<close>).

  Not modelled.  Logging, except that the logger can be nil in the first \<open>Open\<close>.  The generated code
  under \<open>gen\<close>.  Of \<open>example/distributed\<close> the rates, averages and percentiles, which are floats that only
  its output shows: the model's report has the numbers they are computed from.  Its processes of nodes
  are parameters: when one exits after an interrupt, and what its disk has then.  Flag parsing, the
  listener, signals and the gRPC server are parameters of the node's \<open>main\<close>.  Elections, membership and
  the transport of raft, and failures of system calls on the replicas of a group.
\<close>

section \<open>The whole cluster\<close>

text \<open>The configuration of the store: the leaders of the configured groups.\<close>

definition cluster_stores :: "Config \<Rightarrow> Router \<Rightarrow> (GroupID \<Rightarrow> 's) \<Rightarrow> 's ShardStoreConfig" where
  "cluster_stores c router st =
     \<lparr>sc_Router = Some router, sc_Groups = map (\<lambda>grp. (gp_ID grp, Some (st (gp_ID grp)))) (cc_Groups c)\<rparr>"

lemma cluster_stores_map:
  assumes "Validate c = None" and "ConfigNewRouter c = Inr router"
    and "\<forall>grp \<in> set (cc_Groups c). repr (st (gp_ID grp)) (m (gp_ID grp))"
  shows "\<exists>ss. NewShardStore (cluster_stores c router st) = Inr ss \<and> shard_map repr (Some ss) (cluster_map router m)"
proof -
  let ?cfg = "cluster_stores c router st"
  have ok: "cluster_ok c" using assms(1) by (simp add: Validate_cluster_ok)
  then have d: "distinct (map sd_ID (cc_ShardRoutes c))" "distinct (map fst (sc_Groups ?cfg))"
    by (simp_all add: cluster_ok_def comp_def cluster_stores_def)
  note rc = ConfigRouterConfig_groups [OF d(1)]
  have new_r: "NewRouter (ConfigRouterConfig c) = Inr router"
    using assms(2) by (simp add: ConfigNewRouter_def split: sum.splits)
  have sub: "sd_GroupID ` set (cc_ShardRoutes c) \<subseteq> gp_ID ` set (cc_Groups c)"
    and "0 < sh_ShardCount (cc_ShardConfig c)" "sd_ID ` set (cc_ShardRoutes c) = {0..<sh_ShardCount (cc_ShardConfig c)}"
    using ok by (simp_all add: cluster_ok_def)
  then have "sc_Groups ?cfg \<noteq> []" by (auto simp: cluster_stores_def)
  moreover have "\<forall>(g, s) \<in> set (sc_Groups ?cfg). g \<noteq> [] \<and> s \<noteq> None"
    using ok by (auto simp: cluster_stores_def cluster_ok_def group_ok_def)
  moreover have r: "sc_Router ?cfg = Some router" by (simp add: cluster_stores_def)
  ultimately obtain ss where new: "NewShardStore ?cfg = Inr ss" using NewShardStore_succeeds [of ?cfg] by auto
  have "snd ` set (rc_ShardGroups (ConfigRouterConfig c)) = sd_GroupID ` set (cc_ShardRoutes c)"
    unfolding rc(1) by (simp add: image_image)
  moreover have "fst ` set (sc_Groups ?cfg) = gp_ID ` set (cc_Groups c)" by (simp add: image_image cluster_stores_def)
  ultimately have hosts: "hosts_all ss" using NewShardStore_hosts [OF rc(2) new_r d(2) r new] sub by simp
  note ss = NewShardStore_Inr [OF d(2) new]
  have repr: "repr store (m g)" if "(g, store) \<in> set (ss_groups ss)" for g store
  proof -
    have "map_of (ss_groups ss) g = Some store" by (rule map_of_is_SomeI) (use ss that in blast)+
    then have "map_option the (map_of (sc_Groups ?cfg) g) = Some store"
      unfolding conjunct1 [OF conjunct2 [OF conjunct2 [OF ss]]] .
    then obtain so where "map_of (sc_Groups ?cfg) g = Some so" "store = the so" by auto
    then have "(g, so) \<in> set (sc_Groups ?cfg)" "store = the so" by (auto dest: map_of_SomeD)
    then show ?thesis using assms(3) by (auto simp: cluster_stores_def)
  qed
  have "shard_map repr (Some ss) (cluster_map router m)"
    unfolding shard_map_def using hosts repr ss r
    by (intro exI [of _ ss] exI [of _ m]) (auto simp: cluster_map_def group_of_def)
  then show ?thesis using new by blast
qed

text \<open>
  C2: A cluster refines one map.  Take a valid configuration, its router, and for every configured
  group a replicated group in any state that it can reach, led by any of its replicas with a majority.
  \<open>NewShardStore\<close> makes one store of the leaders' \<open>RaftStore\<close>s, and every sequence of requests is
  answered as a single map would answer it, which starts as the union of the maps of the groups' logs.
\<close>

theorem cluster_refines_map:
  assumes "Validate c = None" and "ConfigNewRouter c = Inr router"
    and "\<forall>grp \<in> set (cc_Groups c). \<exists>g0. fresh_group g0 \<and> group_step\<^sup>*\<^sup>* g0 (rg (gp_ID grp))
      \<and> i (gp_ID grp) < length (gr_replicas (rg (gp_ID grp)))"
    and "ctx_live ctx" and "\<forall>r \<in> set rs. request_valid r"
  shows "\<exists>ss xs s'. NewShardStore (cluster_stores c router (\<lambda>g. leader_of (rg g) (i g))) = Inr ss
    \<and> serve_all (shard_ops (raft_ops (newRaftStore (node_methods healthy_lib) config))) ctx rs (Some ss) = Some (xs, s')
    \<and> all_answered rs (cluster_map router (\<lambda>g. log_map (gr_log (rg g)))) xs"
proof -
  have "\<forall>grp \<in> set (cc_Groups c). leader_map (leader_of (rg (gp_ID grp)) (i (gp_ID grp))) (log_map (gr_log (rg (gp_ID grp))))"
    using assms(3) replica_leads by blast
  from cluster_stores_map [where repr = leader_map and st = "\<lambda>g. leader_of (rg g) (i g)"
      and m = "\<lambda>g. log_map (gr_log (rg g))", OF assms(1,2) this]
  obtain ss where "NewShardStore (cluster_stores c router (\<lambda>g. leader_of (rg g) (i g))) = Inr ss"
    and "shard_map leader_map (Some ss) (cluster_map router (\<lambda>g. log_map (gr_log (rg g))))"
    by blast
  then show ?thesis using healthy.replicated.sharded.serve_requests [OF assms(4) _ assms(5)] by blast
qed

theorem cluster_refines_map_witness:
  "\<exists>rg router ss xs s'. ConfigNewRouter example_cluster = Inr router
    \<and> NewShardStore (cluster_stores example_cluster router (\<lambda>g. leader_of rg 0)) = Inr ss
    \<and> serve_all (shard_ops (raft_ops (newRaftStore (node_methods healthy_lib) \<lparr>rsc_ApplyTimeout = 0, rsc_BarrierTimeout = 0\<rparr>)))
        Background [ReqGet [1], ReqPut [1] [3], ReqGet [1]] (Some ss) = Some (xs, s')
    \<and> xs = [Got (Inr (Some [2])), Done None, Got (Inr (Some [3]))]"
proof -
  let ?rs = "[ReqGet [1], ReqPut [1] [3], ReqGet [1]]" and ?c = "\<lparr>rsc_ApplyTimeout = 0, rsc_BarrierTimeout = 0\<rparr>"
  obtain g0 g where g: "fresh_group g0" "group_step\<^sup>*\<^sup>* g0 g" "length (gr_replicas g) = 1"
    and log: "gr_log g = [frame \<lparr>rec_Type = TypePut, rec_Key = [1], rec_Value = [2]\<rparr>]"
    using example_group by blast
  obtain router where router: "ConfigNewRouter example_cluster = Inr router"
    using cluster_ok_router example_cluster_valid Validate_cluster_ok by blast
  have reach: "\<forall>grp \<in> set (cc_Groups example_cluster). \<exists>g0. fresh_group g0 \<and> group_step\<^sup>*\<^sup>* g0 g \<and> (0::nat) < length (gr_replicas g)"
    using g by auto
  have "\<forall>r \<in> set ?rs. request_valid r" by (simp add: MaxUint32_def)
  from cluster_refines_map [where rg = "\<lambda>_. g" and i = "\<lambda>_. 0" and config = ?c,
      OF example_cluster_valid router reach ctx_live_Background this]
  obtain ss xs s' where run: "NewShardStore (cluster_stores example_cluster router (\<lambda>_. leader_of g 0)) = Inr ss"
    "serve_all (shard_ops (raft_ops (newRaftStore (node_methods healthy_lib) ?c))) Background ?rs (Some ss) = Some (xs, s')"
    and all: "all_answered ?rs (cluster_map router (\<lambda>_. log_map (gr_log g))) xs"
    by blast
  obtain route where "RouteKey (Some router) [1] = Inr route"
    using cluster_ok_serves [OF _ router, of "[1]"] example_cluster_valid Validate_cluster_ok by blast
  then have "cluster_map router (\<lambda>_. log_map (gr_log g)) [1] = Some [2]"
    by (simp add: cluster_map_def log example_log_map)
  then have "xs = [Got (Inr (Some [2])), Done None, Got (Inr (Some [3]))]"
    using all by (simp add: answered)
  then show ?thesis using run router by blast
qed

end
